(* ===== verification/Prelude.thy ===== *)
theory Prelude
  imports Main "HOL-Library.Word"
begin

unbundle bit_operations_syntax

text \<open>
  What the components of the development share: the width of \<^verbatim>\<open>size_t\<close> and
  \<^verbatim>\<open>uint_t\<close>, the laws assumed of the alignment helper of the axl library (a git
  submodule, so its code is a parameter everywhere) and of its bit scans, two generic interfaces
  as locales (invariants of a step relation, parsers fed in chunks), numbers printed in decimal,
  lemmas on lists that several components use, and the collection of facts on words of flags.
\<close>

named_theorems flag_simps "the parts of a word of flags after an update"

section \<open>Machine widths\<close>

text \<open>The target is 64-bit: \<^verbatim>\<open>size_t\<close> arithmetic wraps at \<open>2 ^ 64\<close>, \<^verbatim>\<open>uint_t\<close> at
  \<open>2 ^ 32\<close>. Sizes are natural numbers with the wrap-around written out.\<close>

definition szt :: "nat \<Rightarrow> nat" where
  "szt n = n mod 2 ^ 64"

definition u32 :: "nat \<Rightarrow> nat" where
  "u32 n = n mod 2 ^ 32"

lemma szt_small [simp]: "n < 2 ^ 64 \<Longrightarrow> szt n = n"
  by (simp add: szt_def)

lemma szt_bound [simp]: "szt n < 2 ^ 64"
  by (simp add: szt_def)

lemma u32_small [simp]: "n < 2 ^ 32 \<Longrightarrow> u32 n = n"
  by (simp add: u32_def)

lemma u32_bound [simp]: "u32 n < 2 ^ 32"
  by (simp add: u32_def)

section \<open>The alignment helper of the axl library\<close>

text \<open>\<^verbatim>\<open>axl::sl::align(size, factor)\<close> rounds a size up to a multiple of a power of two. The
  code is outside this repository: it is a parameter \<open>al\<close> of the definitions that call it,
  and \<open>align_ok\<close> is its documented behaviour where the rounding does not overflow.\<close>

definition align_ok :: "(nat \<Rightarrow> nat \<Rightarrow> nat) \<Rightarrow> bool" where
  "align_ok al \<longleftrightarrow>
     (\<forall>x f. (\<exists>k. f = 2 ^ k) \<and> x + f \<le> 2 ^ 64 \<longrightarrow> f dvd al x f \<and> x \<le> al x f \<and> al x f < x + f)"

definition align_up :: "nat \<Rightarrow> nat \<Rightarrow> nat" where
  "align_up x f = (x + f - 1) div f * f"

lemma align_okD:
  assumes "align_ok al" and "f = 2 ^ k" and "x + f \<le> 2 ^ 64"
  shows "f dvd al x f" and "x \<le> al x f" and "al x f < x + f"
  using assms unfolding align_ok_def by blast+

text \<open>The laws are satisfiable: rounding up by division meets them.\<close>

lemma align_up_bounds:
  assumes "0 < (f::nat)"
  shows "x \<le> align_up x f" and "align_up x f < x + f"
proof -
  have split: "x + f - 1 = align_up x f + (x + f - 1) mod f"
    unfolding align_up_def by (rule div_mult_mod_eq [symmetric])
  have "(x + f - 1) mod f < f" using assms by simp
  with split assms show "x \<le> align_up x f" and "align_up x f < x + f" by linarith+
qed

lemma align_up_ok: "align_ok align_up"
  unfolding align_ok_def
proof (intro allI impI)
  fix x f :: nat
  assume "(\<exists>k. f = 2 ^ k) \<and> x + f \<le> 2 ^ 64"
  then have "0 < f" by auto
  then show "f dvd align_up x f \<and> x \<le> align_up x f \<and> align_up x f < x + f"
    using align_up_bounds by (simp add: align_up_def)
qed

lemma pow2_le_dvd:
  assumes "(a::nat) = 2 ^ i" and "b = 2 ^ j" and "a \<le> b"
  shows "a dvd b"
  using assms by (simp add: le_imp_power_dvd)

section \<open>Invariants of step relations\<close>

text \<open>The interface of every state machine below: if the start states satisfy an invariant
  and every step keeps it, it holds in every reachable state.\<close>

locale step_invariant =
  fixes init :: "'s \<Rightarrow> bool"
    and step :: "'s \<Rightarrow> 's \<Rightarrow> bool"
    and inv :: "'s \<Rightarrow> bool"
  assumes init_inv: "init s \<Longrightarrow> inv s"
    and step_inv: "step s t \<Longrightarrow> inv s \<Longrightarrow> inv t"
begin

lemma steps_inv: "step\<^sup>*\<^sup>* s t \<Longrightarrow> inv s \<Longrightarrow> inv t"
  by (induction rule: rtranclp_induct) (auto intro: step_inv)

lemma reachable_inv: "init s \<Longrightarrow> step\<^sup>*\<^sup>* s t \<Longrightarrow> inv t"
  using init_inv steps_inv by blast

end

section \<open>Parsers fed in chunks\<close>

text \<open>A stream parser consumes a buffer and keeps its state for the next one. If feeding is
  compatible with concatenation, then how the stream is cut into buffers does not matter.\<close>

locale chunk_parser =
  fixes feed :: "'s \<Rightarrow> 'a list \<Rightarrow> 's" and ok :: "'s \<Rightarrow> bool"
  assumes feed_ok: "ok s \<Longrightarrow> ok (feed s xs)"
    and feed_nil: "ok s \<Longrightarrow> feed s [] = s"
    and feed_append: "ok s \<Longrightarrow> feed s (xs @ ys) = feed (feed s xs) ys"
begin

lemma feed_concat: "ok s \<Longrightarrow> foldl feed s xss = feed s (concat xss)"
  by (induction xss arbitrary: s) (simp_all add: feed_nil feed_append feed_ok)

lemma feed_chunking: "ok s \<Longrightarrow> concat xss = concat yss \<Longrightarrow> foldl feed s xss = foldl feed s yss"
  by (simp add: feed_concat)

lemma feed_Cons: "ok s \<Longrightarrow> feed s (x # xs) = feed (feed s [x]) xs"
  using feed_append [of s "[x]" xs] by simp

lemma feed_bytewise: "ok s \<Longrightarrow> foldl (\<lambda>t x. feed t [x]) s xs = feed s xs"
proof (induction xs arbitrary: s)
  case (Cons x xs)
  then show ?case using feed_Cons [of s x xs] feed_ok by simp
qed (simp add: feed_nil)

end

section \<open>Lists\<close>

lemma sorted_wrt_snoc:
  "sorted_wrt P (xs @ [x]) \<longleftrightarrow> sorted_wrt P xs \<and> (\<forall>y\<in>set xs. P y x)"
  by (simp add: sorted_wrt_append)

lemma take_Suc_update:
  "i < length xs \<Longrightarrow> take (Suc i) (xs[i := x]) = take i xs @ [x]"
  by (simp add: take_Suc_conv_app_nth)

lemma Bex_set_nth: "(\<exists>x\<in>set xs. P x) \<longleftrightarrow> (\<exists>j\<in>{0..<length xs}. P (xs ! j))"
  by (fastforce simp: in_set_conv_nth)

lemma Ball_set_nth: "(\<forall>x\<in>set xs. P x) \<longleftrightarrow> (\<forall>j\<in>{0..<length xs}. P (xs ! j))"
  by (fastforce simp: in_set_conv_nth)

section \<open>Bit scans of the axl library\<close>

text \<open>\<^verbatim>\<open>sl::getLoBit\<close> and its variants by width isolate the lowest bit that is set. The code
  is outside this repository; \<open>lo_ok\<close> is its documented behaviour on a value that is not zero.\<close>

definition lo_ok :: "('a::len word \<Rightarrow> 'a word) \<Rightarrow> bool" where
  "lo_ok lo \<longleftrightarrow> (\<forall>w. w \<noteq> 0 \<longrightarrow> (\<exists>i. bit w i \<and> (\<forall>j < i. \<not> bit w j) \<and> lo w = push_bit i 1))"

lemma bit_length: "bit (w :: 'a::len word) i \<Longrightarrow> i < LENGTH('a)"
  by (rule bit_imp_le_length)

text \<open>Clearing the lowest bit removes the first of the bits that are set.\<close>

lemma filter_lowest_bit:
  fixes n :: "'a::len word"
  assumes "bit n i" and "\<forall>j < i. \<not> bit n j"
  shows "filter (bit n) [0..<LENGTH('a)] =
    i # filter (bit (n AND NOT (push_bit i 1))) [0..<LENGTH('a)]"
proof -
  have i: "i < LENGTH('a)" using bit_length [OF assms(1)] .
  then have sp: "[0..<LENGTH('a)] = [0..<i] @ i # [Suc i..<LENGTH('a)]"
    using upt_add_eq_append [of 0 i "LENGTH('a) - i"] upt_conv_Cons [of i "LENGTH('a)"] by simp
  have low: "filter (bit n) [0..<i] = []" "filter (bit (n AND NOT (push_bit i 1))) [0..<i] = []"
    using assms(2) by (auto simp: filter_empty_conv bit_simps)
  have high: "filter (bit (n AND NOT (push_bit i 1))) [Suc i..<LENGTH('a)] =
      filter (bit n) [Suc i..<LENGTH('a)]"
    using i by (intro filter_cong) (auto simp: bit_simps)
  show ?thesis unfolding sp using assms(1) low high by (simp add: bit_simps)
qed

lemma no_bits_zero:
  "filter (bit (n :: 'a::len word)) [0..<LENGTH('a)] = [] \<Longrightarrow> n = 0"
  by (auto simp: filter_empty_conv bit_eq_iff dest: bit_length)

definition lo_bit :: "'a::len word \<Rightarrow> 'a word" where
  "lo_bit w = (case find (bit w) [0..<LENGTH('a)] of Some i \<Rightarrow> push_bit i 1 | None \<Rightarrow> 0)"

lemma lo_bit_ok: "lo_ok (lo_bit :: 'a::len word \<Rightarrow> 'a word)"
  unfolding lo_ok_def
proof (intro allI impI)
  fix w :: "'a word"
  assume "w \<noteq> 0"
  then obtain j where j: "bit w j" by (auto simp: bit_eq_iff)
  with bit_length have "find (bit w) [0..<LENGTH('a)] \<noteq> None" by (auto simp: find_None_iff)
  then obtain i where f: "find (bit w) [0..<LENGTH('a)] = Some i" by blast
  then have "bit w i" "\<forall>j < i. \<not> bit w j" by (auto simp: find_Some_iff)
  moreover have "lo_bit w = push_bit i 1" by (simp add: lo_bit_def f)
  ultimately show "\<exists>i. bit w i \<and> (\<forall>j < i. \<not> bit w j) \<and> lo_bit w = push_bit i 1" by blast
qed

section \<open>Numbers printed in decimal\<close>

text \<open>What \<^verbatim>\<open>%d\<close> prints: the low 32 bits of the argument as a signed number.\<close>

fun dec_digits :: "nat \<Rightarrow> string" where
  "dec_digits n = (if n < 10 then [] else dec_digits (n div 10)) @ [char_of (48 + n mod 10)]"

declare dec_digits.simps [simp del]

definition format_d :: "nat \<Rightarrow> string" where
  "format_d n = (let m = u32 n in if m < 2 ^ 31 then dec_digits m else ''-'' @ dec_digits (2 ^ 32 - m))"

definition is_digit :: "char \<Rightarrow> bool" where
  "is_digit c \<longleftrightarrow> c \<in> set ''0123456789''"

definition dec_value :: "string \<Rightarrow> nat" where
  "dec_value s = foldl (\<lambda>a c. 10 * a + (of_char c - 48)) 0 s"

lemma dec_digits_digit: "c \<in> set (dec_digits n) \<Longrightarrow> is_digit c"
proof (induction n rule: dec_digits.induct)
  case (1 n)
  have "\<forall>m\<in>set [0..<10]. char_of (48 + m) \<in> set ''0123456789''" by code_simp
  moreover have "n mod 10 \<in> set [0..<10]" by simp
  ultimately have "is_digit (char_of (48 + n mod 10))" unfolding is_digit_def by blast
  with 1 show ?case by (subst (asm) (2) dec_digits.simps) (auto split: if_splits)
qed

lemma dec_digits_nonempty [simp]: "dec_digits n \<noteq> []"
  by (subst dec_digits.simps) simp

lemma dec_value_digits: "dec_value (dec_digits n) = n"
proof (induction n rule: dec_digits.induct)
  case (1 n)
  have "of_char (char_of (48 + n mod 10)) = (48 + n mod 10 :: nat)"
    by (simp add: of_char_of)
  then show ?case using 1
    by (subst dec_digits.simps) (auto simp: dec_value_def)
qed

lemma format_d_small: "n < 2 ^ 31 \<Longrightarrow> format_d n = dec_digits n"
  by (simp add: format_d_def u32_def)

lemma span_unique:
  assumes "\<forall>c\<in>set a. P c" and "\<forall>c\<in>set b. P c" and "xs = [] \<or> \<not> P (hd xs)" and "ys = [] \<or> \<not> P (hd ys)"
    and "a @ xs = b @ ys"
  shows "a = b \<and> xs = ys"
proof -
  have "takeWhile P (a @ xs) = a" "takeWhile P (b @ ys) = b"
    using assms(1-4) by (cases xs; cases ys; simp add: takeWhile_append2)+
  with assms(5) show ?thesis by (metis append_same_eq same_append_eq)
qed

lemma format_d_inj:
  assumes "n < 2 ^ 31" and "m < 2 ^ 31" and "xs = [] \<or> \<not> is_digit (hd xs)" and "ys = [] \<or> \<not> is_digit (hd ys)"
    and "format_d n @ xs = format_d m @ ys"
  shows "n = m \<and> xs = ys"
proof -
  have "dec_digits n = dec_digits m \<and> xs = ys"
    using assms by (intro span_unique [where P = is_digit]) (auto simp: format_d_small dest: dec_digits_digit)
  then show ?thesis by (metis dec_value_digits)
qed

end
