(* ===== verification/StructLayout.thy ===== *)
theory StructLayout
  imports Prelude
begin

text \<open>
  Layout of struct types: \<^verbatim>\<open>StructType::calcLayoutTo\<close> and the routines it calls
  (\<^verbatim>\<open>jnc_ct_StructType.cpp\<close>). A struct is a record of the members the layout reads and
  writes; member types are records of what \<^verbatim>\<open>Type\<close> reports once its own layout was asked for.
  Results of other parts of the compiler that the layout only tests (is the namespace parsed,
  were the default methods created, what the extension libraries say of an opaque class) are
  fields of the environment \<open>layout_env\<close>.
\<close>

section \<open>Data\<close>

text \<open>A member type: \<open>t_layout_ok\<close> is the result of \<^verbatim>\<open>ensureLayout()\<close> on it.\<close>

record ty =
  t_signature :: string
  t_size :: nat
  t_alignment :: nat
  t_pod :: bool
  t_gcRoot :: bool
  t_noStack :: bool
  t_class :: bool
  t_derivable :: bool
  t_constructible :: bool
  t_thinThis :: bool
  t_layout_ok :: bool

definition isEqual :: "ty \<Rightarrow> ty \<Rightarrow> bool" where
  "isEqual t u \<longleftrightarrow> t_signature t = t_signature u"

record field =
  f_type :: ty
  f_bitCount :: nat
  f_bigEndian :: bool
  f_bitField :: bool
  f_offset :: nat
  f_bitOffset :: nat
  f_llvmIndex :: nat
  f_layoutReady :: bool
  f_attributesReady :: bool
  f_ownField :: bool
  f_hasInitializer :: bool

record base_slot =
  b_type :: ty
  b_offset :: nat
  b_llvmIndex :: nat

datatype struct_kind = Normal | Adapter | AbstractData | IfaceStruct | ClassStruct | UnionStruct

text \<open>An element of the body of the (packed) LLVM struct type.\<close>

datatype llvm_elem = LlvmType ty | LlvmPad nat

record opaque_info =
  o_size :: nat
  o_markFunc :: bool
  o_nonCreatable :: bool

record struct_type =
  m_structTypeKind :: struct_kind
  m_pod :: bool
  m_gcRoot :: bool
  m_noStack :: bool
  m_alignment :: nat
  m_size :: nat
  m_fieldAlignment :: nat
  m_fieldSize :: nat
  m_laidOutFieldCount :: nat
  m_lastBitField :: "nat option"
  m_fieldArray :: "field list"
  m_baseTypeList :: "base_slot list"
  m_baseTypeMap :: "string list"
  m_gcRootBaseTypeArray :: "nat list"
  m_baseTypeConstructArray :: "nat list"
  m_gcRootFieldArray :: "nat list"
  m_fieldInitializeArray :: "nat list"
  m_constructorThinThis :: bool
  m_llvmFieldTypeArray :: "llvm_elem list"
  m_adapterOriginType :: "ty option"
  m_classGcRoot :: bool
  m_classNonCreatable :: bool
  m_opaqueInfo :: "opaque_info option"

record layout_env =
  e_align :: "nat \<Rightarrow> nat \<Rightarrow> nat"
  e_hasCodeGen :: bool
  e_namespaceReady :: bool
  e_propertyThinThis :: bool
  e_propertyDestruct :: bool
  e_defaultMethods :: bool
  e_opaqueClass :: bool
  e_findOpaqueInfo :: "opaque_info option"

datatype layout_error =
    NotReady
  | MemberLayout
  | BadBaseType
  | AlreadyBaseType
  | ClassMember
  | BitFieldTooSmall
  | PropertyDestructor
  | DefaultMethods
  | NoOpaqueInfo
  | OpaqueSizeTooSmall

text \<open>Every routine returns the error it reports, if any, and the struct it leaves behind.\<close>

type_synonym 'a layout_result = "layout_error option \<times> 'a"

text \<open>The constructor \<^verbatim>\<open>StructType::StructType\<close>, given the kind, the field alignment, the
  base types and the fields that the parser adds, and \<^verbatim>\<open>Field::Field\<close>.\<close>

definition new_field :: "ty \<Rightarrow> nat \<Rightarrow> bool \<Rightarrow> field" where
  "new_field t bits be =
     \<lparr>f_type = t, f_bitCount = bits, f_bigEndian = be, f_bitField = False, f_offset = 0,
      f_bitOffset = 0, f_llvmIndex = u32 (2 ^ 32 - 1), f_layoutReady = False,
      f_attributesReady = True, f_ownField = True, f_hasInitializer = False\<rparr>"

definition new_slot :: "ty \<Rightarrow> base_slot" where
  "new_slot t = \<lparr>b_type = t, b_offset = 0, b_llvmIndex = u32 (2 ^ 32 - 1)\<rparr>"

definition new_struct :: "struct_kind \<Rightarrow> nat \<Rightarrow> base_slot list \<Rightarrow> field list \<Rightarrow> struct_type" where
  "new_struct k fa bs fs =
     \<lparr>m_structTypeKind = k, m_pod = True, m_gcRoot = False, m_noStack = False,
      m_alignment = 1, m_size = 0, m_fieldAlignment = fa, m_fieldSize = 0,
      m_laidOutFieldCount = 0, m_lastBitField = None, m_fieldArray = fs, m_baseTypeList = bs,
      m_baseTypeMap = [], m_gcRootBaseTypeArray = [], m_baseTypeConstructArray = [],
      m_gcRootFieldArray = [], m_fieldInitializeArray = [], m_constructorThinThis = True,
      m_llvmFieldTypeArray = [], m_adapterOriginType = None, m_classGcRoot = False,
      m_classNonCreatable = False, m_opaqueInfo = None\<rparr>"

section \<open>Operations\<close>

definition addLlvmPadding :: "nat \<Rightarrow> struct_type \<Rightarrow> struct_type" where
  "addLlvmPadding n s = s\<lparr>m_llvmFieldTypeArray := m_llvmFieldTypeArray s @ [LlvmPad n]\<rparr>"

definition getFieldOffset :: "layout_env \<Rightarrow> ty \<Rightarrow> struct_type \<Rightarrow> nat \<times> struct_type" where
  "getFieldOffset E t s =
     (let a = t_alignment t;
          a' = (if a > m_fieldAlignment s then m_fieldAlignment s else a);
          s' = (if a' > m_alignment s then s\<lparr>m_alignment := a'\<rparr> else s)
      in (e_align E (m_fieldSize s') a', s'))"

text \<open>The part \<^verbatim>\<open>layoutFieldImpl\<close> and \<^verbatim>\<open>layoutBitField\<close> have in common: take an offset,
  pad and append to the LLVM body when code is generated, and advance the field size.
  \<open>idx\<close> is the LLVM index the member keeps when there is no code generator.\<close>

definition place :: "layout_env \<Rightarrow> ty \<Rightarrow> nat \<Rightarrow> struct_type \<Rightarrow> nat \<times> nat \<times> struct_type" where
  "place E t idx s =
     (let (off, s1) = getFieldOffset E t s;
          (idx', s2) =
            (if e_hasCodeGen E then
               let s1' = (if off > m_fieldSize s1 then addLlvmPadding (off - m_fieldSize s1) s1 else s1)
               in (u32 (length (m_llvmFieldTypeArray s1')),
                   s1'\<lparr>m_llvmFieldTypeArray := m_llvmFieldTypeArray s1' @ [LlvmType t]\<rparr>)
             else (idx, s1))
      in (off, idx', s2\<lparr>m_fieldSize := szt (off + t_size t)\<rparr>))"

definition layoutFieldImpl :: "layout_env \<Rightarrow> ty \<Rightarrow> nat \<Rightarrow> struct_type \<Rightarrow> nat \<times> nat \<times> struct_type" where
  "layoutFieldImpl E t idx s =
     (let (off, idx', s') = place E t idx s in (off, idx', s'\<lparr>m_lastBitField := None\<rparr>))"

text \<open>Which bits of its storage unit a bit field takes, and whether it shares the unit of the
  last bit field \<open>last\<close>.\<close>

definition bitFieldSlot :: "field option \<Rightarrow> field \<Rightarrow> bool \<times> nat" where
  "bitFieldSlot lb f =
     (let baseBitCount = szt (t_size (f_type f) * 8);
          n = f_bitCount f
      in case lb of
           Some l \<Rightarrow>
             (if \<not> isEqual (f_type l) (f_type f)
              then (False, if f_bigEndian f then baseBitCount - n else 0)
              else if f_bigEndian f
              then (let lastBitOffset = f_bitOffset l
                    in if lastBitOffset \<ge> n then (True, lastBitOffset - n)
                       else (False, baseBitCount - n))
              else (let lastBitOffset = u32 (f_bitOffset l + f_bitCount l)
                    in if lastBitOffset + n \<le> baseBitCount then (True, lastBitOffset)
                       else (False, 0)))
         | None \<Rightarrow> (False, if f_bigEndian f then baseBitCount - n else 0))"

definition set_field :: "nat \<Rightarrow> field \<Rightarrow> struct_type \<Rightarrow> struct_type" where
  "set_field i f s = s\<lparr>m_fieldArray := (m_fieldArray s)[i := f]\<rparr>"

definition layoutBitField :: "layout_env \<Rightarrow> nat \<Rightarrow> struct_type \<Rightarrow> struct_type layout_result" where
  "layoutBitField E i s =
     (let f = m_fieldArray s ! i
      in if f_bitCount f > szt (t_size (f_type f) * 8) then (Some BitFieldTooSmall, s)
         else
           (let lb = map_option (\<lambda>j. m_fieldArray s ! j) (m_lastBitField s);
                (isMerged, bitOffset) = bitFieldSlot lb f;
                f1 = f\<lparr>f_bitOffset := u32 bitOffset, f_bitField := True\<rparr>
            in if isMerged then
                 (let l = the lb;
                      f2 = f1\<lparr>f_offset := f_offset l, f_llvmIndex := f_llvmIndex l\<rparr>
                  in (None, (set_field i f2 s)\<lparr>m_lastBitField := Some i\<rparr>))
               else
                 (let (off, idx, s') = place E (f_type f) (f_llvmIndex f) s;
                      f2 = f1\<lparr>f_offset := off, f_llvmIndex := idx\<rparr>
                  in (None, (set_field i f2 s')\<lparr>m_lastBitField := Some i\<rparr>))))"

definition layoutField :: "layout_env \<Rightarrow> nat \<Rightarrow> struct_type \<Rightarrow> struct_type layout_result" where
  "layoutField E i s =
     (let f = m_fieldArray s ! i
      in if \<not> (f_attributesReady f \<and> t_layout_ok (f_type f)) then (Some MemberLayout, s)
         else if m_structTypeKind s \<noteq> IfaceStruct \<and> t_class (f_type f) then (Some ClassMember, s)
         else
           (case (if f_bitCount f \<noteq> 0 then layoutBitField E i s
                  else (let (off, idx, s') = layoutFieldImpl E (f_type f) (f_llvmIndex f) s
                        in (None, set_field i (f\<lparr>f_offset := off, f_llvmIndex := idx\<rparr>) s')))
            of (Some e, s') \<Rightarrow> (Some e, s')
             | (None, s') \<Rightarrow>
                 (None, set_field i ((m_fieldArray s' ! i)\<lparr>f_layoutReady := True\<rparr>) s')))"

text \<open>\<^verbatim>\<open>StructType::layoutBaseType\<close>. Combining the operator tables of the base into those of
  the struct does not touch the layout and is not modelled.\<close>

definition layoutBaseType :: "layout_env \<Rightarrow> nat \<Rightarrow> struct_type \<Rightarrow> struct_type layout_result" where
  "layoutBaseType E i s =
     (let b = m_baseTypeList s ! i; t = b_type b
      in if \<not> t_layout_ok t then (Some MemberLayout, s)
         else if \<not> t_derivable t \<or> t_class t then (Some BadBaseType, s)
         else if t_signature t \<in> set (m_baseTypeMap s) then (Some AlreadyBaseType, s)
         else
           (let s1 = s\<lparr>m_baseTypeMap := t_signature t # m_baseTypeMap s\<rparr>;
                s2 = (if t_gcRoot t
                      then s1\<lparr>m_gcRootBaseTypeArray := m_gcRootBaseTypeArray s1 @ [i], m_gcRoot := True\<rparr>
                      else s1);
                s3 = (if t_constructible t
                      then s2\<lparr>m_baseTypeConstructArray := m_baseTypeConstructArray s2 @ [i],
                              m_constructorThinThis := (m_constructorThinThis s2 \<and> t_thinThis t)\<rparr>
                      else s2);
                (off, idx, s4) = layoutFieldImpl E t (b_llvmIndex b) s3
            in (None, s4\<lparr>m_baseTypeList :=
                  (m_baseTypeList s4)[i := b\<lparr>b_offset := off, b_llvmIndex := idx\<rparr>]\<rparr>)))"

fun layoutBaseTypes :: "layout_env \<Rightarrow> nat \<Rightarrow> nat \<Rightarrow> struct_type \<Rightarrow> struct_type layout_result" where
  "layoutBaseTypes E i 0 s = (None, s)"
| "layoutBaseTypes E i (Suc n) s =
     (case layoutBaseType E i s of
        (Some e, s') \<Rightarrow> (Some e, s')
      | (None, s') \<Rightarrow> layoutBaseTypes E (Suc i) n s')"

fun layoutFields :: "layout_env \<Rightarrow> nat \<Rightarrow> nat \<Rightarrow> struct_type \<Rightarrow> struct_type layout_result" where
  "layoutFields E i 0 s = (None, s)"
| "layoutFields E i (Suc n) s =
     (case layoutField E i s of
        (Some e, s') \<Rightarrow> (Some e, s'\<lparr>m_laidOutFieldCount := i\<rparr>)
      | (None, s') \<Rightarrow> layoutFields E (Suc i) n s')"

text \<open>The scan of the members of a normal struct, one field at a time.\<close>

definition scanField :: "nat \<Rightarrow> struct_type \<Rightarrow> struct_type" where
  "scanField i s =
     (let f = m_fieldArray s ! i; t = f_type f;
          s1 = (if \<not> t_pod t then s\<lparr>m_pod := False\<rparr> else s);
          s2 = (if t_gcRoot t
                then s1\<lparr>m_gcRootFieldArray := m_gcRootFieldArray s1 @ [i], m_gcRoot := True\<rparr>
                else s1)
      in if f_ownField f then
           (if t_constructible t
            then s2\<lparr>m_fieldInitializeArray := m_fieldInitializeArray s2 @ [i],
                    m_constructorThinThis := (m_constructorThinThis s2 \<and> t_thinThis t)\<rparr>
            else if f_hasInitializer f
            then s2\<lparr>m_fieldInitializeArray := m_fieldInitializeArray s2 @ [i]\<rparr>
            else s2)
         else s2)"

fun scanFields :: "nat \<Rightarrow> nat \<Rightarrow> struct_type \<Rightarrow> struct_type" where
  "scanFields i 0 s = s"
| "scanFields i (Suc n) s = scanFields (Suc i) n (scanField i s)"

text \<open>The end of \<^verbatim>\<open>calcLayoutTo\<close>: pad the LLVM body to the final size, and flag big structs.\<close>

definition stackAllocSizeLimit :: nat where
  "stackAllocSizeLimit = 128"

definition finishLayout :: "layout_env \<Rightarrow> struct_type \<Rightarrow> struct_type" where
  "finishLayout E s =
     (let s1 = (if e_hasCodeGen E \<and> m_size s > m_fieldSize s
                then addLlvmPadding (m_size s - m_fieldSize s) s else s)
      in if m_size s1 > stackAllocSizeLimit then s1\<lparr>m_noStack := True\<rparr> else s1)"

definition layoutByKind :: "layout_env \<Rightarrow> struct_type \<Rightarrow> struct_type layout_result" where
  "layoutByKind E s =
     (if m_structTypeKind s = Normal then
        (let s1 = scanFields 0 (length (m_fieldArray s)) s;
             s2 = s1\<lparr>m_constructorThinThis := (m_constructorThinThis s1 \<and> e_propertyThinThis E)\<rparr>
         in if e_propertyDestruct E then (Some PropertyDestructor, s2)
            else if \<not> e_defaultMethods E then (Some DefaultMethods, s2)
            else (None, finishLayout E s2))
      else if m_structTypeKind s = IfaceStruct \<and> e_opaqueClass E then
        (case e_findOpaqueInfo E of
           None \<Rightarrow> (Some NoOpaqueInfo, s)
         | Some info \<Rightarrow>
             if o_size info < m_size s then (Some OpaqueSizeTooSmall, s)
             else
               (let s1 = s\<lparr>m_size := o_size info,
                           m_classGcRoot := (m_classGcRoot s \<or> o_markFunc info),
                           m_classNonCreatable := (m_classNonCreatable s \<or> o_nonCreatable info),
                           m_opaqueInfo := Some info\<rparr>
                in (None, finishLayout E s1)))
      else (None, finishLayout E s))"

definition layoutMembers :: "layout_env \<Rightarrow> struct_type \<Rightarrow> struct_type layout_result" where
  "layoutMembers E s =
     (case (if m_laidOutFieldCount s = 0 then
              (if \<not> e_namespaceReady E then (Some NotReady, s)
               else layoutBaseTypes E 0 (length (m_baseTypeList s)) s)
            else (None, s))
      of (Some e, s') \<Rightarrow> (Some e, s')
       | (None, s') \<Rightarrow>
           (case layoutFields E (m_laidOutFieldCount s')
                   (length (m_fieldArray s') - m_laidOutFieldCount s') s'
            of (Some e, s'') \<Rightarrow> (Some e, s'')
             | (None, s'') \<Rightarrow> (None, s''\<lparr>m_laidOutFieldCount := length (m_fieldArray s'')\<rparr>)))"

text \<open>\<^verbatim>\<open>StructType::calcLayoutTo(targetField)\<close>; \<open>partial\<close> is \<^verbatim>\<open>targetField != NULL\<close>.\<close>

definition calcLayoutTo :: "layout_env \<Rightarrow> bool \<Rightarrow> struct_type \<Rightarrow> struct_type layout_result" where
  "calcLayoutTo E partial s =
     (case layoutMembers E s of
        (Some e, s') \<Rightarrow> (Some e, s')
      | (None, s1) \<Rightarrow>
          if partial then (None, s1)
          else if m_structTypeKind s1 = Adapter then
            (case m_adapterOriginType s1 of
               None \<Rightarrow> (Some MemberLayout, s1)
             | Some t \<Rightarrow>
                 if \<not> t_layout_ok t then (Some MemberLayout, s1)
                 else (None, s1\<lparr>m_pod := (m_pod s1 \<or> t_pod t),
                                m_gcRoot := (m_gcRoot s1 \<or> t_gcRoot t),
                                m_noStack := (m_noStack s1 \<or> t_noStack t),
                                m_size := t_size t, m_alignment := t_alignment t,
                                m_fieldSize := t_size t, m_fieldAlignment := t_alignment t\<rparr>))
          else layoutByKind E (s1\<lparr>m_size := e_align E (m_fieldSize s1) (m_alignment s1)\<rparr>))"

section \<open>What a correct layout is\<close>

definition pow2 :: "nat \<Rightarrow> bool" where
  "pow2 n \<longleftrightarrow> (\<exists>k. n = 2 ^ k)"

text \<open>The alignment a member gets under the packing of the struct.\<close>

definition eff_align :: "nat \<Rightarrow> ty \<Rightarrow> nat" where
  "eff_align fa t = min (t_alignment t) fa"

definition f_end :: "field \<Rightarrow> nat" where
  "f_end f = f_offset f + t_size (f_type f)"

definition b_end :: "base_slot \<Rightarrow> nat" where
  "b_end b = b_offset b + t_size (b_type b)"

text \<open>The bits of its storage unit that a bit field owns.\<close>

definition f_bits :: "field \<Rightarrow> nat set" where
  "f_bits f = {f_bitOffset f ..< f_bitOffset f + f_bitCount f}"

text \<open>Two fields share a storage unit, or lie one after the other.\<close>

definition same_unit :: "field \<Rightarrow> field \<Rightarrow> bool" where
  "same_unit f g \<longleftrightarrow> f_bitField f \<and> f_bitField g \<and> f_type f = f_type g \<and> f_offset f = f_offset g"

definition sep :: "field \<Rightarrow> field \<Rightarrow> bool" where
  "sep f g \<longleftrightarrow> f_end f \<le> f_offset g \<or> (same_unit f g \<and> f_bits f \<inter> f_bits g = {})"

definition fits :: "nat \<Rightarrow> nat \<Rightarrow> nat \<Rightarrow> field \<Rightarrow> bool" where
  "fits fa cur al f \<longleftrightarrow>
     f_end f \<le> cur \<and> eff_align fa (f_type f) dvd f_offset f \<and> eff_align fa (f_type f) \<le> al \<and>
     (f_bitField f \<longrightarrow> f_bitOffset f + f_bitCount f \<le> 8 * t_size (f_type f))"

definition fields_inv :: "nat \<Rightarrow> nat \<Rightarrow> nat \<Rightarrow> field list \<Rightarrow> bool" where
  "fields_inv fa cur al fs \<longleftrightarrow> (\<forall>f\<in>set fs. fits fa cur al f) \<and> sorted_wrt sep fs"

text \<open>The last bit field, when there is one, is the field laid out last; its unit ends at the
  current field size, and the bits that are still free are beyond it on the side its byte
  order fills.\<close>

definition last_inv :: "bool \<Rightarrow> nat \<Rightarrow> field list \<Rightarrow> field option \<Rightarrow> bool" where
  "last_inv be cur fs lb \<longleftrightarrow>
     (case lb of
        None \<Rightarrow> True
      | Some l \<Rightarrow>
          fs \<noteq> [] \<and> l = last fs \<and> f_bitField l \<and> f_end l = cur \<and>
          (\<forall>f\<in>set fs. f_end f \<le> f_offset l \<or>
             (same_unit f l \<and>
              (if be then f_bitOffset l \<le> f_bitOffset f
               else f_bitOffset f + f_bitCount f \<le> f_bitOffset l + f_bitCount l))))"

text \<open>The hypotheses on the input: alignments are powers of two, bit fields sit on integer types
  of at most eight bytes, all bit fields have one byte order, a signature determines the type,
  and the sizes add up below the address space.\<close>

definition field_wf :: "bool \<Rightarrow> field \<Rightarrow> bool" where
  "field_wf be f \<longleftrightarrow>
     pow2 (t_alignment (f_type f)) \<and> \<not> f_bitField f \<and>
     (f_bitCount f \<noteq> 0 \<longrightarrow> t_size (f_type f) \<le> 8 \<and> f_bigEndian f = be)"

definition sig_inj :: "ty list \<Rightarrow> bool" where
  "sig_inj ts \<longleftrightarrow> (\<forall>t\<in>set ts. \<forall>u\<in>set ts. t_signature t = t_signature u \<longrightarrow> t = u)"

definition costs :: "nat \<Rightarrow> ty list \<Rightarrow> nat" where
  "costs fa ts = sum_list (map (\<lambda>t. t_size t + fa) ts)"

definition struct_wf :: "bool \<Rightarrow> nat \<Rightarrow> base_slot list \<Rightarrow> field list \<Rightarrow> bool" where
  "struct_wf be fa bs fs \<longleftrightarrow>
     pow2 fa \<and> (\<forall>f\<in>set fs. field_wf be f) \<and> (\<forall>b\<in>set bs. pow2 (t_alignment (b_type b))) \<and>
     sig_inj (map f_type fs) \<and>
     costs fa (map b_type bs) + costs fa (map f_type fs) + fa \<le> 2 ^ 64 - 1"

text \<open>Where the LLVM body of the packed struct puts its elements.\<close>

fun llvm_elem_size :: "llvm_elem \<Rightarrow> nat" where
  "llvm_elem_size (LlvmType t) = t_size t"
| "llvm_elem_size (LlvmPad n) = n"

definition llvm_offset :: "llvm_elem list \<Rightarrow> nat \<Rightarrow> nat" where
  "llvm_offset es i = sum_list (map llvm_elem_size (take i es))"

definition llvm_at :: "llvm_elem list \<Rightarrow> ty \<Rightarrow> nat \<Rightarrow> nat \<Rightarrow> bool" where
  "llvm_at es t idx off \<longleftrightarrow> idx < length es \<and> es ! idx = LlvmType t \<and> llvm_offset es idx = off"

end
