(* ===== verification/StructLayoutInv.thy ===== *)
theory StructLayoutInv
  imports StructLayout
begin

text \<open>
  The layout invariant of \<open>StructLayout\<close> and the properties of struct layout: members never
  overlap, offsets respect alignment and packing, the LLVM body puts every member where the
  compiler thinks it is, the garbage collector is told about every member it must trace, and
  laying a struct out in several steps gives the layout of one step.
\<close>

section \<open>Placing one member\<close>

lemma eff_align_pow2: "pow2 fa \<Longrightarrow> pow2 (t_alignment t) \<Longrightarrow> pow2 (eff_align fa t)"
  by (auto simp: eff_align_def min_def)

lemma pow2_pos: "pow2 n \<Longrightarrow> 0 < n"
  by (auto simp: pow2_def)

text \<open>The explicit form of \<open>place\<close>: only the alignment, the LLVM body and the field size change.\<close>

definition place_off :: "layout_env \<Rightarrow> ty \<Rightarrow> struct_type \<Rightarrow> nat" where
  "place_off E t s = e_align E (m_fieldSize s) (eff_align (m_fieldAlignment s) t)"

definition place_llvm :: "layout_env \<Rightarrow> ty \<Rightarrow> struct_type \<Rightarrow> llvm_elem list" where
  "place_llvm E t s =
     (if e_hasCodeGen E then
        m_llvmFieldTypeArray s @
        (if place_off E t s > m_fieldSize s then [LlvmPad (place_off E t s - m_fieldSize s)] else [])
        @ [LlvmType t]
      else m_llvmFieldTypeArray s)"

lemma place_eq:
  "place E t idx s =
     (place_off E t s,
      if e_hasCodeGen E then u32 (length (place_llvm E t s) - 1) else idx,
      s\<lparr>m_alignment := max (m_alignment s) (eff_align (m_fieldAlignment s) t),
        m_llvmFieldTypeArray := place_llvm E t s,
        m_fieldSize := szt (place_off E t s + t_size t)\<rparr>)"
  by (auto simp: place_def getFieldOffset_def place_off_def place_llvm_def eff_align_def
      addLlvmPadding_def Let_def max_def min_def)

lemma place_off_spec:
  assumes "align_ok (e_align E)" and "pow2 (m_fieldAlignment s)" and "pow2 (t_alignment t)"
    and "m_fieldSize s + m_fieldAlignment s \<le> 2 ^ 64"
  shows "eff_align (m_fieldAlignment s) t dvd place_off E t s"
    and "m_fieldSize s \<le> place_off E t s"
    and "place_off E t s < m_fieldSize s + m_fieldAlignment s"
proof -
  let ?a = "eff_align (m_fieldAlignment s) t"
  obtain k where k: "?a = 2 ^ k"
    using eff_align_pow2 [OF assms(2,3)] by (auto simp: pow2_def)
  have le: "?a \<le> m_fieldAlignment s" by (simp add: eff_align_def)
  with assms(4) have b: "m_fieldSize s + ?a \<le> 2 ^ 64" by linarith
  note * = align_okD [OF assms(1) k b, folded place_off_def]
  show "?a dvd place_off E t s" and "m_fieldSize s \<le> place_off E t s" by (rule *)+
  show "place_off E t s < m_fieldSize s + m_fieldAlignment s" using *(3) le by linarith
qed

lemma fields_inv_mono:
  "fields_inv fa cur al fs \<Longrightarrow> cur \<le> cur' \<Longrightarrow> al \<le> al' \<Longrightarrow> fields_inv fa cur' al' fs"
  by (fastforce simp: fields_inv_def fits_def)

lemma fields_inv_snoc_place:
  assumes "fields_inv fa cur al fs" and "cur \<le> f_offset g"
    and "eff_align fa (f_type g) dvd f_offset g"
    and "f_bitField g \<longrightarrow> f_bitOffset g + f_bitCount g \<le> 8 * t_size (f_type g)"
  shows "fields_inv fa (f_end g) (max al (eff_align fa (f_type g))) (fs @ [g])"
proof -
  have "sep f g" if "f \<in> set fs" for f
    using assms(1,2) that by (auto simp: fields_inv_def fits_def sep_def)
  moreover have "fields_inv fa (f_end g) (max al (eff_align fa (f_type g))) fs"
    using assms(1,2) by (auto intro: fields_inv_mono simp: f_end_def)
  ultimately show ?thesis
    using assms(3,4) by (auto simp: fields_inv_def sorted_wrt_snoc fits_def)
qed

lemma last_inv_snoc_place:
  assumes "fields_inv fa cur al fs" and "cur \<le> f_offset g" and "f_bitField g"
  shows "last_inv be (f_end g) (fs @ [g]) (Some g)"
  using assms by (auto simp: last_inv_def fields_inv_def fits_def same_unit_def)

text \<open>A bit field that shares the unit of the last one.\<close>

definition merged_into :: "bool \<Rightarrow> field \<Rightarrow> field \<Rightarrow> bool" where
  "merged_into be l g \<longleftrightarrow>
     same_unit g l \<and> f_bitOffset g + f_bitCount g \<le> 8 * t_size (f_type g) \<and>
     (if be then f_bitOffset g + f_bitCount g = f_bitOffset l
      else f_bitOffset g = f_bitOffset l + f_bitCount l)"

lemma fields_inv_snoc_merge:
  assumes inv: "fields_inv fa cur al fs" and l: "last_inv be cur fs (Some l)"
    and m: "merged_into be l g"
  shows "fields_inv fa cur al (fs @ [g])" and "last_inv be cur (fs @ [g]) (Some g)"
proof -
  have lf: "fits fa cur al l" using inv l by (auto simp: fields_inv_def last_inv_def)
  have g: "fits fa cur al g"
    using lf m by (auto simp: fits_def merged_into_def same_unit_def f_end_def)
  have cases: "f_end f \<le> f_offset g \<or>
      (same_unit f g \<and> (if be then f_bitOffset l \<le> f_bitOffset f
                        else f_bitOffset f + f_bitCount f \<le> f_bitOffset l + f_bitCount l))"
    if "f \<in> set fs" for f
    using l m that by (auto simp: last_inv_def merged_into_def same_unit_def)
  have "sep f g" if "f \<in> set fs" for f
    using cases [OF that] m
    by (auto simp: sep_def f_bits_def merged_into_def split: if_splits)
  with inv g show "fields_inv fa cur al (fs @ [g])"
    by (auto simp: fields_inv_def sorted_wrt_snoc)
  show "last_inv be cur (fs @ [g]) (Some g)"
    using cases m l
    by (fastforce simp: last_inv_def merged_into_def same_unit_def f_end_def split: if_splits)
qed

section \<open>Laying out one field\<close>

text \<open>The struct after a member took fresh storage.\<close>

definition placed :: "layout_env \<Rightarrow> ty \<Rightarrow> struct_type \<Rightarrow> struct_type" where
  "placed E t s =
     s\<lparr>m_alignment := max (m_alignment s) (eff_align (m_fieldAlignment s) t),
       m_llvmFieldTypeArray := place_llvm E t s,
       m_fieldSize := szt (place_off E t s + t_size t)\<rparr>"

definition place_idx :: "layout_env \<Rightarrow> ty \<Rightarrow> nat \<Rightarrow> struct_type \<Rightarrow> nat" where
  "place_idx E t idx s =
     (if e_hasCodeGen E then u32 (length (place_llvm E t s) - 1) else idx)"

lemma place_placed: "place E t idx s = (place_off E t s, place_idx E t idx s, placed E t s)"
  by (simp add: place_eq placed_def place_idx_def)

lemma placed_simps [simp]:
  "m_fieldArray (placed E t s) = m_fieldArray s"
  "m_baseTypeList (placed E t s) = m_baseTypeList s"
  "m_fieldAlignment (placed E t s) = m_fieldAlignment s"
  "m_structTypeKind (placed E t s) = m_structTypeKind s"
  "m_laidOutFieldCount (placed E t s) = m_laidOutFieldCount s"
  "m_lastBitField (placed E t s) = m_lastBitField s"
  "m_alignment (placed E t s) = max (m_alignment s) (eff_align (m_fieldAlignment s) t)"
  "m_llvmFieldTypeArray (placed E t s) = place_llvm E t s"
  "m_fieldSize (placed E t s) = szt (place_off E t s + t_size t)"
  by (simp_all add: placed_def)

text \<open>The three ways a field can be laid out successfully.\<close>

definition plain_field :: "layout_env \<Rightarrow> field \<Rightarrow> struct_type \<Rightarrow> field" where
  "plain_field E f s =
     f\<lparr>f_offset := place_off E (f_type f) s, f_llvmIndex := place_idx E (f_type f) (f_llvmIndex f) s,
       f_layoutReady := True\<rparr>"

definition bit_field :: "layout_env \<Rightarrow> field \<Rightarrow> nat \<Rightarrow> struct_type \<Rightarrow> field" where
  "bit_field E f b s =
     f\<lparr>f_bitOffset := u32 b, f_bitField := True, f_offset := place_off E (f_type f) s,
       f_llvmIndex := place_idx E (f_type f) (f_llvmIndex f) s, f_layoutReady := True\<rparr>"

definition merged_field :: "field \<Rightarrow> field \<Rightarrow> nat \<Rightarrow> field" where
  "merged_field l f b =
     f\<lparr>f_bitOffset := u32 b, f_bitField := True, f_offset := f_offset l,
       f_llvmIndex := f_llvmIndex l, f_layoutReady := True\<rparr>"

abbreviation last_bit_field :: "struct_type \<Rightarrow> field option" where
  "last_bit_field s \<equiv> map_option (\<lambda>j. m_fieldArray s ! j) (m_lastBitField s)"

lemma bitFieldSlot_None: "bitFieldSlot None f = (m, b) \<Longrightarrow> \<not> m"
  by (simp add: bitFieldSlot_def Let_def)

lemma layoutField_cases:
  assumes "layoutField E i s = (None, s')" and "i < length (m_fieldArray s)"
  obtains
    (plain) "f_bitCount (m_fieldArray s ! i) = 0"
      "s' = (placed E (f_type (m_fieldArray s ! i)) s)
         \<lparr>m_lastBitField := None,
           m_fieldArray := (m_fieldArray s)[i := plain_field E (m_fieldArray s ! i) s]\<rparr>"
  | (bit) b where "f_bitCount (m_fieldArray s ! i) \<noteq> 0"
      "f_bitCount (m_fieldArray s ! i) \<le> szt (t_size (f_type (m_fieldArray s ! i)) * 8)"
      "bitFieldSlot (last_bit_field s) (m_fieldArray s ! i) = (False, b)"
      "s' = (placed E (f_type (m_fieldArray s ! i)) s)
         \<lparr>m_lastBitField := Some i,
           m_fieldArray := (m_fieldArray s)[i := bit_field E (m_fieldArray s ! i) b s]\<rparr>"
  | (merge) l b where "f_bitCount (m_fieldArray s ! i) \<noteq> 0"
      "f_bitCount (m_fieldArray s ! i) \<le> szt (t_size (f_type (m_fieldArray s ! i)) * 8)"
      "last_bit_field s = Some l"
      "bitFieldSlot (Some l) (m_fieldArray s ! i) = (True, b)"
      "s' = s\<lparr>m_lastBitField := Some i,
           m_fieldArray := (m_fieldArray s)[i := merged_field l (m_fieldArray s ! i) b]\<rparr>"
proof -
  let ?f = "m_fieldArray s ! i"
  obtain m b where mb: "bitFieldSlot (last_bit_field s) ?f = (m, b)" by fastforce
  note defs = layoutField_def layoutFieldImpl_def layoutBitField_def place_placed set_field_def Let_def
  consider "f_bitCount ?f = 0" | "f_bitCount ?f \<noteq> 0" "\<not> m" | "f_bitCount ?f \<noteq> 0" "m" by blast
  then show thesis
  proof cases
    case 1
    then show thesis using assms plain
      by (auto simp: defs plain_field_def split: if_splits)
  next
    case 2
    then show thesis using assms bit mb
      by (auto simp: defs bit_field_def split: if_splits)
  next
    case 3
    with mb bitFieldSlot_None obtain l where "last_bit_field s = Some l" by fastforce
    then show thesis using 3 assms merge mb
      by (auto simp: defs merged_field_def split: if_splits)
  qed
qed

text \<open>The bit ranges chosen by \<open>bitFieldSlot\<close>: inside the unit, and next to the last bit field on
  the side its byte order fills.\<close>

lemma bitFieldSlot_fresh:
  assumes "bitFieldSlot lb f = (False, b)" and "f_bitCount f \<le> szt (t_size (f_type f) * 8)"
    and "t_size (f_type f) \<le> 8"
  shows "b + f_bitCount f \<le> 8 * t_size (f_type f)" and "u32 b = b"
proof -
  have sz: "szt (t_size (f_type f) * 8) = t_size (f_type f) * 8" using assms(3) by simp
  show 1: "b + f_bitCount f \<le> 8 * t_size (f_type f)"
    using assms sz by (auto simp: bitFieldSlot_def Let_def split: option.splits if_splits)
  show "u32 b = b" using 1 assms(3) by simp
qed

lemma bitFieldSlot_merge:
  assumes "bitFieldSlot (Some l) f = (True, b)" and "t_size (f_type f) \<le> 8"
    and "f_bigEndian f = be" and "f_bitOffset l + f_bitCount l \<le> 8 * t_size (f_type f)"
  shows "isEqual (f_type l) (f_type f)"
    and "b + f_bitCount f \<le> 8 * t_size (f_type f)" and "u32 b = b"
    and "if be then b + f_bitCount f = f_bitOffset l else b = f_bitOffset l + f_bitCount l"
proof -
  have sz: "szt (t_size (f_type f) * 8) = t_size (f_type f) * 8" using assms(2) by simp
  have lo: "u32 (f_bitOffset l + f_bitCount l) = f_bitOffset l + f_bitCount l"
    using assms(2,4) by simp
  note d = assms(1,3,4) sz lo
  show "isEqual (f_type l) (f_type f)"
    using d by (auto simp: bitFieldSlot_def Let_def split: if_splits)
  show 1: "b + f_bitCount f \<le> 8 * t_size (f_type f)"
    using d by (auto simp: bitFieldSlot_def Let_def split: if_splits)
  show "if be then b + f_bitCount f = f_bitOffset l else b = f_bitOffset l + f_bitCount l"
    using d by (auto simp: bitFieldSlot_def Let_def split: if_splits)
  show "u32 b = b" using 1 assms(2) by simp
qed

section \<open>The layout invariant\<close>

text \<open>Base types and fields in the order they are laid out, base slots seen as fields.\<close>

definition slot_field :: "base_slot \<Rightarrow> field" where
  "slot_field b = (new_field (b_type b) 0 False)\<lparr>f_offset := b_offset b, f_llvmIndex := b_llvmIndex b\<rparr>"

definition items :: "nat \<Rightarrow> nat \<Rightarrow> struct_type \<Rightarrow> field list" where
  "items kb kf s = map slot_field (take kb (m_baseTypeList s)) @ take kf (m_fieldArray s)"

definition laid :: "bool \<Rightarrow> nat \<Rightarrow> nat \<Rightarrow> struct_type \<Rightarrow> bool" where
  "laid be kb kf s \<longleftrightarrow>
     pow2 (m_fieldAlignment s) \<and> pow2 (m_alignment s) \<and> m_alignment s \<le> m_fieldAlignment s \<and>
     fields_inv (m_fieldAlignment s) (m_fieldSize s) (m_alignment s) (items kb kf s) \<and>
     last_inv be (m_fieldSize s) (items kb kf s) (last_bit_field s) \<and>
     (\<forall>j. m_lastBitField s = Some j \<longrightarrow> j < kf)"

definition todo :: "bool \<Rightarrow> nat \<Rightarrow> nat \<Rightarrow> struct_type \<Rightarrow> bool" where
  "todo be kb kf s \<longleftrightarrow>
     (\<forall>f\<in>set (drop kf (m_fieldArray s)). field_wf be f) \<and>
     (\<forall>b\<in>set (drop kb (m_baseTypeList s)). pow2 (t_alignment (b_type b))) \<and>
     sig_inj (map f_type (m_fieldArray s)) \<and>
     m_fieldSize s + costs (m_fieldAlignment s) (map b_type (drop kb (m_baseTypeList s))) +
     costs (m_fieldAlignment s) (map f_type (drop kf (m_fieldArray s))) + m_fieldAlignment s
       \<le> 2 ^ 64 - 1"

lemma todo_step:
  assumes "todo be kb kf s" and "kf < length (m_fieldArray s)"
  shows "field_wf be (m_fieldArray s ! kf)"
    and "m_fieldSize s + t_size (f_type (m_fieldArray s ! kf)) + m_fieldAlignment s \<le> 2 ^ 64 - 1"
proof -
  have d: "drop kf (m_fieldArray s) = m_fieldArray s ! kf # drop (Suc kf) (m_fieldArray s)"
    using assms(2) by (simp add: Cons_nth_drop_Suc)
  show "field_wf be (m_fieldArray s ! kf)"
    and "m_fieldSize s + t_size (f_type (m_fieldArray s ! kf)) + m_fieldAlignment s \<le> 2 ^ 64 - 1"
    using assms d by (simp_all add: todo_def costs_def)
qed

lemma todo_Suc:
  assumes "todo be kb kf s" and "kf < length (m_fieldArray s)"
    and f: "f_type f = f_type (m_fieldArray s ! kf)"
    and "m_fieldArray s' = (m_fieldArray s)[kf := f]" and "m_baseTypeList s' = m_baseTypeList s"
    and "m_fieldAlignment s' = m_fieldAlignment s"
    and "m_fieldSize s' \<le> m_fieldSize s + t_size (f_type f) + m_fieldAlignment s"
  shows "todo be kb (Suc kf) s'"
proof -
  have d: "drop kf (m_fieldArray s) = m_fieldArray s ! kf # drop (Suc kf) (m_fieldArray s)"
    using assms(2) by (simp add: Cons_nth_drop_Suc)
  have m: "map f_type ((m_fieldArray s)[kf := f]) = map f_type (m_fieldArray s)"
    using f assms(2) by (simp add: map_update list_update_same_conv)
  show ?thesis
    using assms d m by (simp add: todo_def costs_def drop_update_cancel)
qed

section \<open>Every step keeps the invariant\<close>

lemma items_Suc:
  assumes "kf < length (m_fieldArray s)" and "m_fieldArray s' = (m_fieldArray s)[kf := f]"
    and "m_baseTypeList s' = m_baseTypeList s"
  shows "items kb (Suc kf) s' = items kb kf s @ [f]"
  using assms by (simp add: items_def take_Suc_update)

lemma laid_place:
  assumes l: "laid be kb kf s" and t: "todo be kb kf s" and k: "kf < length (m_fieldArray s)"
    and al: "align_ok (e_align E)" and ty: "f_type f = f_type (m_fieldArray s ! kf)"
    and off: "f_offset f = place_off E (f_type f) s"
    and bits: "f_bitField f \<longrightarrow> f_bitOffset f + f_bitCount f \<le> 8 * t_size (f_type f)"
    and s': "s' = (placed E (f_type f) s)\<lparr>m_lastBitField := lb, m_fieldArray := (m_fieldArray s)[kf := f]\<rparr>"
    and lb: "lb = None \<or> (lb = Some kf \<and> f_bitField f)"
  shows "laid be kb (Suc kf) s'" and "todo be kb (Suc kf) s'"
proof -
  note wf = todo_step [OF t k]
  have p2: "pow2 (m_fieldAlignment s)" "pow2 (m_alignment s)" using l by (simp_all add: laid_def)
  have pt: "pow2 (t_alignment (f_type f))" using wf(1) ty by (simp add: field_wf_def)
  note po = place_off_spec [OF al p2(1) pt]
  have sz: "m_fieldSize s' = f_end f"
    using po(3) wf(2) s' off ty by (simp add: f_end_def)
  have it: "items kb (Suc kf) s' = items kb kf s @ [f]"
    by (rule items_Suc [OF k]) (simp_all add: s')
  have cur: "m_fieldSize s \<le> f_offset f" and dv: "eff_align (m_fieldAlignment s) (f_type f) dvd f_offset f"
    using po(1,2) wf(2) off by simp_all
  have fi: "fields_inv (m_fieldAlignment s) (m_fieldSize s) (m_alignment s) (items kb kf s)"
    using l by (simp add: laid_def)
  have "fields_inv (m_fieldAlignment s) (f_end f)
      (max (m_alignment s) (eff_align (m_fieldAlignment s) (f_type f))) (items kb kf s @ [f])"
    by (rule fields_inv_snoc_place [OF fi cur dv bits])
  moreover have "last_inv be (f_end f) (items kb kf s @ [f]) (last_bit_field s')"
  proof (cases lb)
    case None
    then show ?thesis by (simp add: s' last_inv_def)
  next
    case (Some j)
    with lb have e: "last_bit_field s' = Some f" using k by (auto simp: s')
    show ?thesis unfolding e using lb Some last_inv_snoc_place [OF fi cur] by simp
  qed
  moreover have "pow2 (max (m_alignment s) (eff_align (m_fieldAlignment s) (f_type f)))"
    using p2(2) eff_align_pow2 [OF p2(1) pt] by (simp add: max_def)
  ultimately show "laid be kb (Suc kf) s'"
    using it sz s' p2 lb l by (auto simp: laid_def eff_align_def)
  show "todo be kb (Suc kf) s'"
    by (rule todo_Suc [OF t k ty]) (use s' po(3) wf(2) sz off in \<open>auto simp: f_end_def ty\<close>)
qed

lemma laid_merge:
  assumes l: "laid be kb kf s" and t: "todo be kb kf s" and k: "kf < length (m_fieldArray s)"
    and lb: "last_bit_field s = Some lf" and bc: "f_bitCount (m_fieldArray s ! kf) \<noteq> 0"
    and slot: "bitFieldSlot (Some lf) (m_fieldArray s ! kf) = (True, b)"
    and s': "s' = s\<lparr>m_lastBitField := Some kf,
               m_fieldArray := (m_fieldArray s)[kf := merged_field lf (m_fieldArray s ! kf) b]\<rparr>"
  shows "laid be kb (Suc kf) s'" and "todo be kb (Suc kf) s'"
proof -
  let ?f = "m_fieldArray s ! kf"
  let ?g = "merged_field lf ?f b"
  have wf: "t_size (f_type ?f) \<le> 8" "f_bigEndian ?f = be"
    using todo_step(1) [OF t k] bc by (simp_all add: field_wf_def)
  obtain j where j: "m_lastBitField s = Some j" "j < kf" "lf = m_fieldArray s ! j"
    using lb l by (auto simp: laid_def)
  have fi: "fields_inv (m_fieldAlignment s) (m_fieldSize s) (m_alignment s) (items kb kf s)"
    and li: "last_inv be (m_fieldSize s) (items kb kf s) (Some lf)"
    using l lb by (simp_all add: laid_def)
  have "isEqual (f_type lf) (f_type ?f)"
    using slot by (auto simp: bitFieldSlot_def Let_def split: if_splits)
  moreover have "f_type lf \<in> set (map f_type (m_fieldArray s))" "f_type ?f \<in> set (map f_type (m_fieldArray s))"
    using j k by simp_all
  ultimately have ty: "f_type lf = f_type ?f"
    using t unfolding todo_def sig_inj_def isEqual_def by blast
  have lf: "f_bitField lf" "f_bitOffset lf + f_bitCount lf \<le> 8 * t_size (f_type ?f)"
    using fi li ty by (auto simp: fields_inv_def last_inv_def fits_def)
  note bs = bitFieldSlot_merge [OF slot wf lf(2)]
  have m: "merged_into be lf ?g"
    using bs ty lf by (auto simp: merged_into_def same_unit_def merged_field_def)
  have it: "items kb (Suc kf) s' = items kb kf s @ [?g]"
    by (rule items_Suc [OF k]) (simp_all add: s')
  have "fields_inv (m_fieldAlignment s) (m_fieldSize s) (m_alignment s) (items kb kf s @ [?g])"
    and "last_inv be (m_fieldSize s) (items kb kf s @ [?g]) (Some ?g)"
    by (rule fields_inv_snoc_merge [OF fi li m])+
  then show "laid be kb (Suc kf) s'"
    using l it s' k by (auto simp: laid_def)
  show "todo be kb (Suc kf) s'"
    by (rule todo_Suc [OF t k]) (auto simp: s' merged_field_def)
qed

lemma layoutField_laid:
  assumes "layoutField E kf s = (None, s')" and "laid be kb kf s" and "todo be kb kf s"
    and "kf < length (m_fieldArray s)" and "align_ok (e_align E)"
  shows "laid be kb (Suc kf) s'" and "todo be kb (Suc kf) s'"
proof -
  let ?f = "m_fieldArray s ! kf"
  have wf: "field_wf be ?f" by (rule todo_step(1) [OF assms(3,4)])
  have "laid be kb (Suc kf) s' \<and> todo be kb (Suc kf) s'"
    using assms(1,4)
  proof (cases rule: layoutField_cases)
    case plain
    show ?thesis
      using laid_place [OF assms(2-5), of "plain_field E ?f s" s' None] plain(2) wf
      by (simp add: plain_field_def field_wf_def)
  next
    case (bit b)
    have t8: "t_size (f_type ?f) \<le> 8" using wf bit(1) by (simp add: field_wf_def)
    note b = bitFieldSlot_fresh [OF bit(3,2) t8]
    show ?thesis
      using laid_place [OF assms(2-5), of "bit_field E ?f b s" s' "Some kf"] bit(4) b
      by (simp add: bit_field_def)
  next
    case (merge l b)
    show ?thesis
      using laid_merge [OF assms(2-4) merge(3,1,4,5)] by simp
  qed
  then show "laid be kb (Suc kf) s'" and "todo be kb (Suc kf) s'" by simp_all
qed

lemma layoutField_frame:
  assumes "layoutField E i s = (None, s')" and "i < length (m_fieldArray s)"
  shows "length (m_fieldArray s') = length (m_fieldArray s)"
    and "m_baseTypeList s' = m_baseTypeList s" and "m_fieldAlignment s' = m_fieldAlignment s"
    and "m_structTypeKind s' = m_structTypeKind s" and "m_laidOutFieldCount s' = m_laidOutFieldCount s"
    and "map f_type (m_fieldArray s') = map f_type (m_fieldArray s)"
    and "map f_bitCount (m_fieldArray s') = map f_bitCount (m_fieldArray s)"
  using assms
  by (cases rule: layoutField_cases;
      auto simp: map_update list_update_same_conv plain_field_def bit_field_def merged_field_def)+

lemma layoutFields_laid:
  assumes "layoutFields E i n s = (None, s')" and "laid be kb i s" and "todo be kb i s"
    and "i + n = length (m_fieldArray s)" and "align_ok (e_align E)"
  shows "laid be kb (i + n) s' \<and> todo be kb (i + n) s' \<and>
    length (m_fieldArray s') = length (m_fieldArray s) \<and>
    m_baseTypeList s' = m_baseTypeList s \<and> m_fieldAlignment s' = m_fieldAlignment s \<and>
    m_structTypeKind s' = m_structTypeKind s \<and>
    map f_type (m_fieldArray s') = map f_type (m_fieldArray s) \<and>
    map f_bitCount (m_fieldArray s') = map f_bitCount (m_fieldArray s)"
  using assms
proof (induction E i n s rule: layoutFields.induct)
  case (1 E i s)
  then show ?case by simp
next
  case (2 E i n s)
  from "2.prems"(1) obtain s1 where s1: "layoutField E i s = (None, s1)"
    and r: "layoutFields E (Suc i) n s1 = (None, s')"
    by (auto split: prod.splits option.splits)
  have i: "i < length (m_fieldArray s)" using "2.prems"(4) by linarith
  note st = layoutField_laid [OF s1 "2.prems"(2,3) i "2.prems"(5)]
  note fr = layoutField_frame [OF s1 i]
  show ?case
    using "2.IH" [OF s1 [symmetric] refl r st] fr "2.prems"(4,5) by simp
qed

section \<open>Base types\<close>

text \<open>What \<open>layoutBaseType\<close> records before it places the base.\<close>

definition base_noted :: "nat \<Rightarrow> ty \<Rightarrow> struct_type \<Rightarrow> struct_type" where
  "base_noted i t s =
     s\<lparr>m_baseTypeMap := t_signature t # m_baseTypeMap s,
       m_gcRootBaseTypeArray := m_gcRootBaseTypeArray s @ (if t_gcRoot t then [i] else []),
       m_gcRoot := (m_gcRoot s \<or> t_gcRoot t),
       m_baseTypeConstructArray := m_baseTypeConstructArray s @ (if t_constructible t then [i] else []),
       m_constructorThinThis := (m_constructorThinThis s \<and> (t_constructible t \<longrightarrow> t_thinThis t))\<rparr>"

lemma base_noted_simps [simp]:
  "m_fieldArray (base_noted i t s) = m_fieldArray s"
  "m_baseTypeList (base_noted i t s) = m_baseTypeList s"
  "m_fieldAlignment (base_noted i t s) = m_fieldAlignment s"
  "m_structTypeKind (base_noted i t s) = m_structTypeKind s"
  "m_laidOutFieldCount (base_noted i t s) = m_laidOutFieldCount s"
  "m_lastBitField (base_noted i t s) = m_lastBitField s"
  "m_alignment (base_noted i t s) = m_alignment s"
  "m_llvmFieldTypeArray (base_noted i t s) = m_llvmFieldTypeArray s"
  "m_fieldSize (base_noted i t s) = m_fieldSize s"
  by (simp_all add: base_noted_def)

lemma place_base_noted [simp]:
  "place_off E t (base_noted i u s) = place_off E t s"
  "place_idx E t idx (base_noted i u s) = place_idx E t idx s"
  "place_llvm E t (base_noted i u s) = place_llvm E t s"
  by (simp_all add: place_off_def place_idx_def place_llvm_def)

definition placed_slot :: "layout_env \<Rightarrow> base_slot \<Rightarrow> struct_type \<Rightarrow> base_slot" where
  "placed_slot E b s =
     b\<lparr>b_offset := place_off E (b_type b) s, b_llvmIndex := place_idx E (b_type b) (b_llvmIndex b) s\<rparr>"

lemma layoutBaseType_eq:
  assumes "layoutBaseType E i s = (None, s')"
  shows "s' = (placed E (b_type (m_baseTypeList s ! i)) (base_noted i (b_type (m_baseTypeList s ! i)) s))
     \<lparr>m_lastBitField := None,
       m_baseTypeList := (m_baseTypeList s)[i := placed_slot E (m_baseTypeList s ! i) s]\<rparr>"
proof -
  let ?t = "b_type (m_baseTypeList s ! i)"
  define s1 where "s1 = s\<lparr>m_baseTypeMap := t_signature ?t # m_baseTypeMap s\<rparr>"
  define s2 where "s2 = (if t_gcRoot ?t
      then s1\<lparr>m_gcRootBaseTypeArray := m_gcRootBaseTypeArray s1 @ [i], m_gcRoot := True\<rparr> else s1)"
  define s3 where "s3 = (if t_constructible ?t
      then s2\<lparr>m_baseTypeConstructArray := m_baseTypeConstructArray s2 @ [i],
              m_constructorThinThis := (m_constructorThinThis s2 \<and> t_thinThis ?t)\<rparr> else s2)"
  have s3: "s3 = base_noted i ?t s"
    by (simp add: s3_def s2_def s1_def base_noted_def)
  have "layoutBaseType E i s = (None, s') \<Longrightarrow>
    (let (off, idx, s4) = layoutFieldImpl E ?t (b_llvmIndex (m_baseTypeList s ! i)) s3
     in (None, s4\<lparr>m_baseTypeList := (m_baseTypeList s4)[i :=
          (m_baseTypeList s ! i)\<lparr>b_offset := off, b_llvmIndex := idx\<rparr>]\<rparr>)) = (None :: layout_error option, s')"
    unfolding layoutBaseType_def Let_def s3_def s2_def s1_def by (simp split: if_splits)
  from this [OF assms] show ?thesis
    by (simp add: layoutFieldImpl_def place_placed s3 placed_slot_def)
qed

lemma slot_field_simps [simp]:
  "f_type (slot_field b) = b_type b" "f_offset (slot_field b) = b_offset b"
  "f_llvmIndex (slot_field b) = b_llvmIndex b" "\<not> f_bitField (slot_field b)"
  "f_end (slot_field b) = b_end b"
  by (simp_all add: slot_field_def new_field_def f_end_def b_end_def)

lemma layoutBaseType_laid:
  assumes r: "layoutBaseType E kb s = (None, s')" and l: "laid be kb 0 s" and t: "todo be kb 0 s"
    and k: "kb < length (m_baseTypeList s)" and al: "align_ok (e_align E)"
  shows "laid be (Suc kb) 0 s'" and "todo be (Suc kb) 0 s'"
proof -
  let ?b = "m_baseTypeList s ! kb"
  let ?g = "placed_slot E ?b s"
  note s' = layoutBaseType_eq [OF r]
  have d: "drop kb (m_baseTypeList s) = ?b # drop (Suc kb) (m_baseTypeList s)"
    using k by (simp add: Cons_nth_drop_Suc)
  have p2: "pow2 (m_fieldAlignment s)" "pow2 (m_alignment s)" using l by (simp_all add: laid_def)
  have pt: "pow2 (t_alignment (b_type ?b))"
    and room: "m_fieldSize s + t_size (b_type ?b) + m_fieldAlignment s \<le> 2 ^ 64 - 1"
    using t d by (simp_all add: todo_def costs_def)
  note po = place_off_spec [OF al p2(1) pt]
  have sz: "m_fieldSize s' = f_end (slot_field ?g)"
    using po(3) room by (simp add: s' placed_slot_def b_end_def)
  have it: "items (Suc kb) 0 s' = items kb 0 s @ [slot_field ?g]"
    using k by (simp add: items_def s' take_Suc_update)
  have fi: "fields_inv (m_fieldAlignment s) (m_fieldSize s) (m_alignment s) (items kb 0 s)"
    using l by (simp add: laid_def)
  have "fields_inv (m_fieldAlignment s) (f_end (slot_field ?g))
      (max (m_alignment s) (eff_align (m_fieldAlignment s) (b_type ?b))) (items kb 0 s @ [slot_field ?g])"
    using fields_inv_snoc_place [OF fi, of "slot_field ?g"] po room by (simp add: placed_slot_def)
  moreover have "pow2 (max (m_alignment s) (eff_align (m_fieldAlignment s) (b_type ?b)))"
    using p2(2) eff_align_pow2 [OF p2(1) pt] by (simp add: max_def)
  ultimately show "laid be (Suc kb) 0 s'"
    using it sz p2 l by (simp add: laid_def last_inv_def s' eff_align_def)
  show "todo be (Suc kb) 0 s'"
    using t d sz po room by (simp add: todo_def costs_def s' placed_slot_def b_end_def)
qed

lemma layoutBaseTypes_laid:
  assumes "layoutBaseTypes E i n s = (None, s')" and "laid be i 0 s" and "todo be i 0 s"
    and "i + n = length (m_baseTypeList s)" and "align_ok (e_align E)"
  shows "laid be (i + n) 0 s' \<and> todo be (i + n) 0 s' \<and> m_fieldArray s' = m_fieldArray s \<and>
    length (m_baseTypeList s') = length (m_baseTypeList s) \<and>
    map b_type (m_baseTypeList s') = map b_type (m_baseTypeList s) \<and>
    m_fieldAlignment s' = m_fieldAlignment s \<and> m_structTypeKind s' = m_structTypeKind s \<and>
    m_laidOutFieldCount s' = m_laidOutFieldCount s"
  using assms
proof (induction E i n s rule: layoutBaseTypes.induct)
  case (1 E i s)
  then show ?case by simp
next
  case (2 E i n s)
  from "2.prems"(1) obtain s1 where s1: "layoutBaseType E i s = (None, s1)"
    and r: "layoutBaseTypes E (Suc i) n s1 = (None, s')"
    by (auto split: prod.splits option.splits)
  have i: "i < length (m_baseTypeList s)" using "2.prems"(4) by linarith
  note st = layoutBaseType_laid [OF s1 "2.prems"(2,3) i "2.prems"(5)]
  note fr = layoutBaseType_eq [OF s1]
  show ?case
    using "2.IH" [OF s1 [symmetric] refl r st] fr "2.prems"(4,5) i
    by (simp add: map_update list_update_same_conv placed_slot_def)
qed

section \<open>The LLVM body agrees with the offsets\<close>

definition llvm_inv :: "layout_env \<Rightarrow> nat \<Rightarrow> nat \<Rightarrow> struct_type \<Rightarrow> bool" where
  "llvm_inv E kb kf s \<longleftrightarrow>
     (e_hasCodeGen E \<longrightarrow>
        llvm_offset (m_llvmFieldTypeArray s) (length (m_llvmFieldTypeArray s)) = m_fieldSize s \<and>
        length (m_llvmFieldTypeArray s) \<le> 2 * (kb + kf) \<and>
        (\<forall>f\<in>set (items kb kf s).
           llvm_at (m_llvmFieldTypeArray s) (f_type f) (f_llvmIndex f) (f_offset f)))"

lemma llvm_at_append: "llvm_at es t i off \<Longrightarrow> llvm_at (es @ es') t i off"
  by (simp add: llvm_at_def llvm_offset_def nth_append)

lemma place_llvm_spec:
  assumes cg: "e_hasCodeGen E" and off: "m_fieldSize s \<le> place_off E t s"
    and cur: "llvm_offset (m_llvmFieldTypeArray s) (length (m_llvmFieldTypeArray s)) = m_fieldSize s"
    and len: "length (m_llvmFieldTypeArray s) + 2 \<le> 2 ^ 32"
  shows "llvm_at (place_llvm E t s) t (place_idx E t idx s) (place_off E t s)"
    and "llvm_offset (place_llvm E t s) (length (place_llvm E t s)) = place_off E t s + t_size t"
    and "length (place_llvm E t s) \<le> length (m_llvmFieldTypeArray s) + 2"
    and "llvm_at (m_llvmFieldTypeArray s) u i o' \<Longrightarrow> llvm_at (place_llvm E t s) u i o'"
proof -
  define pad where "pad = (if place_off E t s > m_fieldSize s
    then [LlvmPad (place_off E t s - m_fieldSize s)] else [])"
  have eq: "place_llvm E t s = (m_llvmFieldTypeArray s @ pad) @ [LlvmType t]"
    using cg by (simp add: place_llvm_def pad_def)
  have lp: "length pad \<le> 1" by (simp add: pad_def)
  have idx: "place_idx E t idx s = length (m_llvmFieldTypeArray s @ pad)"
    using cg len lp by (simp add: place_idx_def eq)
  have sum: "sum_list (map llvm_elem_size (m_llvmFieldTypeArray s @ pad)) = place_off E t s"
    using cur off by (auto simp: pad_def llvm_offset_def)
  show "llvm_at (place_llvm E t s) t (place_idx E t idx s) (place_off E t s)"
    unfolding idx eq llvm_at_def llvm_offset_def using sum by simp
  show "llvm_offset (place_llvm E t s) (length (place_llvm E t s)) = place_off E t s + t_size t"
    unfolding eq llvm_offset_def using sum by simp
  show "length (place_llvm E t s) \<le> length (m_llvmFieldTypeArray s) + 2"
    using lp by (simp add: eq)
  show "llvm_at (m_llvmFieldTypeArray s) u i o' \<Longrightarrow> llvm_at (place_llvm E t s) u i o'"
    unfolding eq by (intro llvm_at_append)
qed

text \<open>The step lemma shared by bases, plain fields and bit fields with a fresh unit.\<close>

lemma llvm_inv_place:
  assumes inv: "llvm_inv E kb kf s" and off: "m_fieldSize s \<le> place_off E t s"
    and room: "place_off E t s + t_size t < 2 ^ 64" and n: "2 * (kb + kf) + 2 \<le> 2 ^ 32"
    and it: "items kb' kf' s' = items kb kf s @ [g]"
    and g: "f_type g = t" "f_offset g = place_off E t s" "f_llvmIndex g = place_idx E t idx s"
    and es: "m_llvmFieldTypeArray s' = place_llvm E t s"
    and sz: "m_fieldSize s' = szt (place_off E t s + t_size t)" and k: "kb' + kf' = Suc (kb + kf)"
  shows "llvm_inv E kb' kf' s'"
  unfolding llvm_inv_def
proof
  assume cg: "e_hasCodeGen E"
  with inv have cur: "llvm_offset (m_llvmFieldTypeArray s) (length (m_llvmFieldTypeArray s)) = m_fieldSize s"
    and len: "length (m_llvmFieldTypeArray s) \<le> 2 * (kb + kf)"
    and at: "\<forall>f\<in>set (items kb kf s). llvm_at (m_llvmFieldTypeArray s) (f_type f) (f_llvmIndex f) (f_offset f)"
    by (simp_all add: llvm_inv_def)
  have len': "length (m_llvmFieldTypeArray s) + 2 \<le> 2 ^ 32" using len n by linarith
  note pl = place_llvm_spec [OF cg off cur len']
  show "llvm_offset (m_llvmFieldTypeArray s') (length (m_llvmFieldTypeArray s')) = m_fieldSize s' \<and>
    length (m_llvmFieldTypeArray s') \<le> 2 * (kb' + kf') \<and>
    (\<forall>f\<in>set (items kb' kf' s'). llvm_at (m_llvmFieldTypeArray s') (f_type f) (f_llvmIndex f) (f_offset f))"
    using pl room len at k unfolding es sz it by (auto simp: g)
qed

lemma laid_place_off:
  assumes "laid be kb kf s" and "pow2 (t_alignment t)" and "align_ok (e_align E)"
    and "m_fieldSize s + t_size t + m_fieldAlignment s \<le> 2 ^ 64 - 1"
  shows "m_fieldSize s \<le> place_off E t s" and "place_off E t s + t_size t < 2 ^ 64"
proof -
  have "pow2 (m_fieldAlignment s)" using assms(1) by (simp add: laid_def)
  note po = place_off_spec [OF assms(3) this assms(2)]
  show "m_fieldSize s \<le> place_off E t s" and "place_off E t s + t_size t < 2 ^ 64"
    using po assms(4) by simp_all
qed

lemma layoutField_llvm:
  assumes r: "layoutField E kf s = (None, s')" and l: "laid be kb kf s" and t: "todo be kb kf s"
    and k: "kf < length (m_fieldArray s)" and al: "align_ok (e_align E)"
    and inv: "llvm_inv E kb kf s" and n: "2 * (kb + kf) + 2 \<le> 2 ^ 32"
  shows "llvm_inv E kb (Suc kf) s'"
proof -
  let ?f = "m_fieldArray s ! kf"
  note wf = todo_step [OF t k]
  have pt: "pow2 (t_alignment (f_type ?f))" using wf(1) by (simp add: field_wf_def)
  note po = laid_place_off [OF l pt al wf(2)]
  from r k show ?thesis
  proof (cases rule: layoutField_cases)
    case plain
    show ?thesis
      by (rule llvm_inv_place [OF inv po n items_Suc [OF k], where g = "plain_field E ?f s"])
        (simp_all add: plain(2) plain_field_def)
  next
    case (bit b)
    show ?thesis
      by (rule llvm_inv_place [OF inv po n items_Suc [OF k], where g = "bit_field E ?f b s"])
        (simp_all add: bit(4) bit_field_def)
  next
    case (merge lf b)
    have li: "last_inv be (m_fieldSize s) (items kb kf s) (Some lf)"
      using l merge(3) by (simp add: laid_def)
    then have lf: "lf \<in> set (items kb kf s)" by (auto simp: last_inv_def)
    have "laid be kb (Suc kf) s'" using laid_merge(1) [OF l t k merge(3,1,4,5)] .
    have it: "items kb (Suc kf) s' = items kb kf s @ [merged_field lf ?f b]"
      by (rule items_Suc [OF k]) (simp_all add: merge(5))
    obtain j where "j < kf" "lf = m_fieldArray s ! j" using merge(3) l by (auto simp: laid_def)
    then have "f_type lf = f_type ?f"
      using t k merge(4) unfolding todo_def sig_inj_def
      by (auto simp: bitFieldSlot_def Let_def isEqual_def split: if_splits)
    then show ?thesis
      using inv lf merge(5) unfolding llvm_inv_def it by (auto simp: merged_field_def)
  qed
qed

lemma layoutFields_llvm:
  assumes "layoutFields E i n s = (None, s')" and "laid be kb i s" and "todo be kb i s"
    and "i + n = length (m_fieldArray s)" and "align_ok (e_align E)"
    and "llvm_inv E kb i s" and "2 * (kb + i + n) \<le> 2 ^ 32"
  shows "llvm_inv E kb (i + n) s'"
  using assms
proof (induction E i n s rule: layoutFields.induct)
  case (1 E i s)
  then show ?case by simp
next
  case (2 E i n s)
  from "2.prems"(1) obtain s1 where s1: "layoutField E i s = (None, s1)"
    and r: "layoutFields E (Suc i) n s1 = (None, s')"
    by (auto split: prod.splits option.splits)
  have i: "i < length (m_fieldArray s)" using "2.prems"(4) by linarith
  note st = layoutField_laid [OF s1 "2.prems"(2,3) i "2.prems"(5)]
  have "llvm_inv E kb (Suc i) s1"
    using layoutField_llvm [OF s1 "2.prems"(2,3) i "2.prems"(5,6)] "2.prems"(7) by simp
  then show ?case
    using "2.IH" [OF s1 [symmetric] refl r st] layoutField_frame(1) [OF s1 i] "2.prems"(4,5,7) by simp
qed

lemma layoutBaseTypes_llvm:
  assumes "layoutBaseTypes E i n s = (None, s')" and "laid be i 0 s" and "todo be i 0 s"
    and "i + n = length (m_baseTypeList s)" and "align_ok (e_align E)"
    and "llvm_inv E i 0 s" and "2 * (i + n) \<le> 2 ^ 32"
  shows "llvm_inv E (i + n) 0 s'"
  using assms
proof (induction E i n s rule: layoutBaseTypes.induct)
  case (1 E i s)
  then show ?case by simp
next
  case (2 E i n s)
  let ?b = "m_baseTypeList s ! i"
  from "2.prems"(1) obtain s1 where s1: "layoutBaseType E i s = (None, s1)"
    and r: "layoutBaseTypes E (Suc i) n s1 = (None, s')"
    by (auto split: prod.splits option.splits)
  have i: "i < length (m_baseTypeList s)" using "2.prems"(4) by linarith
  note st = layoutBaseType_laid [OF s1 "2.prems"(2,3) i "2.prems"(5)]
  note fr = layoutBaseType_eq [OF s1]
  have "drop i (m_baseTypeList s) = ?b # drop (Suc i) (m_baseTypeList s)"
    using i by (simp add: Cons_nth_drop_Suc)
  then have pt: "pow2 (t_alignment (b_type ?b))"
    and room: "m_fieldSize s + t_size (b_type ?b) + m_fieldAlignment s \<le> 2 ^ 64 - 1"
    using "2.prems"(3) by (simp_all add: todo_def costs_def)
  have it: "items (Suc i) 0 s1 = items i 0 s @ [slot_field (placed_slot E ?b s)]"
    using i by (simp add: items_def fr take_Suc_update)
  have "llvm_inv E (Suc i) 0 s1"
    by (rule llvm_inv_place [OF "2.prems"(6) laid_place_off [OF "2.prems"(2) pt "2.prems"(5) room] _ it])
      (use "2.prems"(7) in \<open>simp_all add: fr placed_slot_def\<close>)
  then show ?case
    using "2.IH" [OF s1 [symmetric] refl r st] fr "2.prems"(4,5,7) i by simp
qed

section \<open>All members of a new struct\<close>

lemma laid_new: "pow2 fa \<Longrightarrow> laid be 0 0 (new_struct k fa bs fs)"
  by (auto simp: laid_def items_def fields_inv_def last_inv_def new_struct_def pow2_def
      intro: exI [of _ 0])

lemma todo_new: "struct_wf be fa bs fs \<Longrightarrow> todo be 0 0 (new_struct k fa bs fs)"
  by (simp add: todo_def struct_wf_def new_struct_def)

lemma llvm_inv_new: "llvm_inv E 0 0 (new_struct k fa bs fs)"
  by (simp add: llvm_inv_def items_def new_struct_def llvm_offset_def)

lemma laid_count [simp]:
  "laid be kb kf (s\<lparr>m_laidOutFieldCount := n\<rparr>) = laid be kb kf s"
  "todo be kb kf (s\<lparr>m_laidOutFieldCount := n\<rparr>) = todo be kb kf s"
  "llvm_inv E kb kf (s\<lparr>m_laidOutFieldCount := n\<rparr>) = llvm_inv E kb kf s"
  by (simp_all add: laid_def todo_def llvm_inv_def items_def)

lemma layoutBaseTypes_kind:
  assumes "layoutBaseTypes E i n s = (None, s')"
  shows "m_structTypeKind s' = m_structTypeKind s" and "m_fieldArray s' = m_fieldArray s"
    and "m_laidOutFieldCount s' = m_laidOutFieldCount s"
proof -
  have "m_structTypeKind s' = m_structTypeKind s \<and> m_fieldArray s' = m_fieldArray s \<and>
    m_laidOutFieldCount s' = m_laidOutFieldCount s"
    using assms
  proof (induction E i n s rule: layoutBaseTypes.induct)
    case (2 E i n s)
    then obtain s1 where s1: "layoutBaseType E i s = (None, s1)"
      "layoutBaseTypes E (Suc i) n s1 = (None, s')"
      by (auto split: prod.splits option.splits)
    show ?case using "2.IH" [OF s1(1) [symmetric] refl s1(2)] by (simp add: layoutBaseType_eq [OF s1(1)])
  qed simp
  then show "m_structTypeKind s' = m_structTypeKind s" and "m_fieldArray s' = m_fieldArray s"
    and "m_laidOutFieldCount s' = m_laidOutFieldCount s" by simp_all
qed

text \<open>A successful first pass over a new struct: base types, then all fields from the first.\<close>

lemma layoutMembers_newE:
  assumes "layoutMembers E (new_struct k fa bs fs) = (None, s)"
  obtains sb sf where "e_namespaceReady E"
    and "layoutBaseTypes E 0 (length bs) (new_struct k fa bs fs) = (None, sb)"
    and "m_fieldArray sb = fs" and "m_structTypeKind sb = k" and "m_laidOutFieldCount sb = 0"
    and "layoutFields E 0 (length fs) sb = (None, sf)"
    and "s = sf\<lparr>m_laidOutFieldCount := length (m_fieldArray sf)\<rparr>"
proof -
  let ?s0 = "new_struct k fa bs fs"
  have f0: "m_laidOutFieldCount ?s0 = 0" "m_baseTypeList ?s0 = bs" "m_fieldArray ?s0 = fs"
    "m_structTypeKind ?s0 = k"
    by (simp_all add: new_struct_def)
  obtain sb sf where ns: "e_namespaceReady E" and b: "layoutBaseTypes E 0 (length bs) ?s0 = (None, sb)"
    and f: "layoutFields E (m_laidOutFieldCount sb)
      (length (m_fieldArray sb) - m_laidOutFieldCount sb) sb = (None, sf)"
    and s: "s = sf\<lparr>m_laidOutFieldCount := length (m_fieldArray sf)\<rparr>"
    using assms f0 unfolding layoutMembers_def
    by (auto split: prod.splits option.splits if_splits)
  from that [OF ns b _ _ _ _ s] f layoutBaseTypes_kind [OF b] f0 show thesis by simp
qed

lemma layoutMembers_new:
  assumes r: "layoutMembers E (new_struct k fa bs fs) = (None, s)"
    and wf: "struct_wf be fa bs fs" and al: "align_ok (e_align E)"
  shows "laid be (length bs) (length fs) s \<and> todo be (length bs) (length fs) s \<and>
    length (m_fieldArray s) = length fs \<and> length (m_baseTypeList s) = length bs \<and>
    m_fieldAlignment s = fa \<and> m_structTypeKind s = k \<and>
    map f_type (m_fieldArray s) = map f_type fs \<and>
    map f_bitCount (m_fieldArray s) = map f_bitCount fs \<and>
    map b_type (m_baseTypeList s) = map b_type bs \<and>
    (2 * (length bs + length fs) \<le> 2 ^ 32 \<longrightarrow> llvm_inv E (length bs) (length fs) s)"
proof -
  let ?s0 = "new_struct k fa bs fs"
  have f0: "m_laidOutFieldCount ?s0 = 0" "m_baseTypeList ?s0 = bs" "m_fieldArray ?s0 = fs"
    "m_fieldAlignment ?s0 = fa" "m_structTypeKind ?s0 = k"
    by (simp_all add: new_struct_def)
  obtain s1 s2 where b: "layoutBaseTypes E 0 (length bs) ?s0 = (None, s1)"
    and f': "layoutFields E 0 (length fs) s1 = (None, s2)"
    and s: "s = s2\<lparr>m_laidOutFieldCount := length (m_fieldArray s2)\<rparr>"
    using r by (rule layoutMembers_newE)
  have pw: "pow2 fa" using wf by (simp add: struct_wf_def)
  note l0 = laid_new [OF pw, of be k bs fs] and t0 = todo_new [OF wf, of k]
  have lb: "0 + length bs = length (m_baseTypeList ?s0)" by (simp add: f0)
  note B = layoutBaseTypes_laid [OF b l0 t0 lb al]
  have lf: "0 + length fs = length (m_fieldArray s1)" using B f0 by simp
  have l1: "laid be (length bs) 0 s1" and t1: "todo be (length bs) 0 s1" using B by simp_all
  note F = layoutFields_laid [OF f' l1 t1 lf al]
  have L: "llvm_inv E (length bs) (length fs) s2" if n: "2 * (length bs + length fs) \<le> 2 ^ 32"
  proof -
    have nb: "2 * (0 + length bs) \<le> 2 ^ 32" using n by simp
    note l1' = layoutBaseTypes_llvm [OF b l0 t0 lb al llvm_inv_new nb]
    have nf: "2 * (length bs + 0 + length fs) \<le> 2 ^ 32" using n by simp
    show ?thesis using layoutFields_llvm [OF f' l1 t1 lf al _ nf] l1' by simp
  qed
  show ?thesis using F B L f0 by (simp add: s)
qed

text \<open>What the end of \<open>calcLayoutTo\<close> leaves alone.\<close>

lemma scanField_frame [simp]:
  "m_fieldArray (scanField i s) = m_fieldArray s" "m_baseTypeList (scanField i s) = m_baseTypeList s"
  "m_fieldSize (scanField i s) = m_fieldSize s" "m_size (scanField i s) = m_size s"
  "m_alignment (scanField i s) = m_alignment s" "m_fieldAlignment (scanField i s) = m_fieldAlignment s"
  "m_llvmFieldTypeArray (scanField i s) = m_llvmFieldTypeArray s"
  "m_structTypeKind (scanField i s) = m_structTypeKind s"
  by (simp_all add: scanField_def Let_def)

lemma scanFields_frame [simp]:
  "m_fieldArray (scanFields i n s) = m_fieldArray s" "m_baseTypeList (scanFields i n s) = m_baseTypeList s"
  "m_fieldSize (scanFields i n s) = m_fieldSize s" "m_size (scanFields i n s) = m_size s"
  "m_alignment (scanFields i n s) = m_alignment s" "m_fieldAlignment (scanFields i n s) = m_fieldAlignment s"
  "m_llvmFieldTypeArray (scanFields i n s) = m_llvmFieldTypeArray s"
  by (induction n arbitrary: i s) simp_all

lemma finishLayout_frame [simp]:
  "m_fieldArray (finishLayout E s) = m_fieldArray s" "m_baseTypeList (finishLayout E s) = m_baseTypeList s"
  "m_fieldSize (finishLayout E s) = m_fieldSize s" "m_size (finishLayout E s) = m_size s"
  "m_alignment (finishLayout E s) = m_alignment s" "m_fieldAlignment (finishLayout E s) = m_fieldAlignment s"
  "m_pod (finishLayout E s) = m_pod s" "m_gcRoot (finishLayout E s) = m_gcRoot s"
  "m_gcRootFieldArray (finishLayout E s) = m_gcRootFieldArray s"
  "m_gcRootBaseTypeArray (finishLayout E s) = m_gcRootBaseTypeArray s"
  by (simp_all add: finishLayout_def Let_def addLlvmPadding_def)

lemma finishLayout_llvm:
  "m_llvmFieldTypeArray (finishLayout E s) =
     m_llvmFieldTypeArray s @
     (if e_hasCodeGen E \<and> m_size s > m_fieldSize s then [LlvmPad (m_size s - m_fieldSize s)] else [])"
  by (simp add: finishLayout_def Let_def addLlvmPadding_def)

lemma calcLayoutTo_full:
  assumes "calcLayoutTo E False s0 = (None, s)" and "m_structTypeKind s0 \<noteq> Adapter"
    and "\<And>s1. layoutMembers E s0 = (None, s1) \<Longrightarrow> m_structTypeKind s1 = m_structTypeKind s0"
  obtains s1 where "layoutMembers E s0 = (None, s1)"
    "m_fieldArray s = m_fieldArray s1" "m_baseTypeList s = m_baseTypeList s1"
    "m_fieldSize s = m_fieldSize s1" "m_alignment s = m_alignment s1"
    "m_fieldAlignment s = m_fieldAlignment s1"
    "e_align E (m_fieldSize s1) (m_alignment s1) \<le> m_size s"
    "\<not> (m_structTypeKind s0 = IfaceStruct \<and> e_opaqueClass E) \<Longrightarrow>
       m_size s = e_align E (m_fieldSize s1) (m_alignment s1)"
    "m_llvmFieldTypeArray s = m_llvmFieldTypeArray s1 @
       (if e_hasCodeGen E \<and> m_size s > m_fieldSize s then [LlvmPad (m_size s - m_fieldSize s)] else [])"
proof -
  obtain s1 where s1: "layoutMembers E s0 = (None, s1)"
    and k: "layoutByKind E (s1\<lparr>m_size := e_align E (m_fieldSize s1) (m_alignment s1)\<rparr>) = (None, s)"
    using assms unfolding calcLayoutTo_def by (auto split: prod.splits option.splits if_splits)
  from k show thesis
    using that [OF s1] assms(3) [OF s1]
    by (auto simp: layoutByKind_def Let_def finishLayout_llvm split: if_splits option.splits)
qed

lemma calcLayoutTo_new:
  assumes "align_ok (e_align E)" and "struct_wf be fa bs fs" and "k \<noteq> Adapter"
    and "calcLayoutTo E False (new_struct k fa bs fs) = (None, s)"
  shows "m_fieldAlignment s = fa" and "map f_type (m_fieldArray s) = map f_type fs"
    and "map f_bitCount (m_fieldArray s) = map f_bitCount fs"
    and "map b_type (m_baseTypeList s) = map b_type bs"
    and "pow2 fa" and "pow2 (m_alignment s)" and "m_fieldSize s \<le> m_size s"
    and "fields_inv fa (m_fieldSize s) (m_alignment s) (map slot_field (m_baseTypeList s) @ m_fieldArray s)"
    and "\<not> (k = IfaceStruct \<and> e_opaqueClass E) \<Longrightarrow> m_alignment s dvd m_size s"
    and "2 * (length bs + length fs) \<le> 2 ^ 32 \<Longrightarrow> e_hasCodeGen E \<Longrightarrow>
      llvm_offset (m_llvmFieldTypeArray s) (length (m_llvmFieldTypeArray s)) = m_size s \<and>
      (\<forall>f\<in>set (map slot_field (m_baseTypeList s) @ m_fieldArray s).
        llvm_at (m_llvmFieldTypeArray s) (f_type f) (f_llvmIndex f) (f_offset f))"
proof -
  have k0: "m_structTypeKind (new_struct k fa bs fs) = k" by (simp add: new_struct_def)
  obtain s1 where m: "layoutMembers E (new_struct k fa bs fs) = (None, s1)"
    and e: "m_fieldArray s = m_fieldArray s1" "m_baseTypeList s = m_baseTypeList s1"
      "m_fieldSize s = m_fieldSize s1" "m_alignment s = m_alignment s1"
      "m_fieldAlignment s = m_fieldAlignment s1"
    and sz: "e_align E (m_fieldSize s1) (m_alignment s1) \<le> m_size s"
      "\<not> (k = IfaceStruct \<and> e_opaqueClass E) \<Longrightarrow> m_size s = e_align E (m_fieldSize s1) (m_alignment s1)"
    and ll: "m_llvmFieldTypeArray s = m_llvmFieldTypeArray s1 @
       (if e_hasCodeGen E \<and> m_size s > m_fieldSize s then [LlvmPad (m_size s - m_fieldSize s)] else [])"
    by (rule calcLayoutTo_full [OF assms(4), unfolded k0, OF assms(3)])
      (use layoutMembers_new [OF _ assms(2,1), of k] in auto)
  note M = layoutMembers_new [OF m assms(2,1)]
  have it: "items (length bs) (length fs) s1 = map slot_field (m_baseTypeList s) @ m_fieldArray s"
    using M e by (simp add: items_def)
  have l: "laid be (length bs) (length fs) s1" and t: "todo be (length bs) (length fs) s1"
    using M by simp_all
  show "m_fieldAlignment s = fa" and "map f_type (m_fieldArray s) = map f_type fs"
    and "map f_bitCount (m_fieldArray s) = map f_bitCount fs"
    and "map b_type (m_baseTypeList s) = map b_type bs"
    using M e by simp_all
  show pfa: "pow2 fa" and pal: "pow2 (m_alignment s)" using l M e by (auto simp: laid_def)
  show "fields_inv fa (m_fieldSize s) (m_alignment s) (map slot_field (m_baseTypeList s) @ m_fieldArray s)"
    using l M e it by (simp add: laid_def)
  obtain n where n: "m_alignment s1 = 2 ^ n" using pal e by (auto simp: pow2_def)
  have al: "m_alignment s1 \<le> fa"
    using l M by (simp add: laid_def)
  have "m_fieldSize s1 + m_alignment s1 \<le> 2 ^ 64"
    using t M al by (simp add: todo_def)
  note A = align_okD [OF assms(1) n this]
  show fs: "m_fieldSize s \<le> m_size s" using A(2) sz(1) e by linarith
  show "\<not> (k = IfaceStruct \<and> e_opaqueClass E) \<Longrightarrow> m_alignment s dvd m_size s"
    using A(1) sz(2) e by simp
  assume "2 * (length bs + length fs) \<le> 2 ^ 32" and cg: "e_hasCodeGen E"
  then have L: "llvm_offset (m_llvmFieldTypeArray s1) (length (m_llvmFieldTypeArray s1)) = m_fieldSize s"
    "\<forall>f\<in>set (map slot_field (m_baseTypeList s) @ m_fieldArray s).
        llvm_at (m_llvmFieldTypeArray s1) (f_type f) (f_llvmIndex f) (f_offset f)"
    using M it e by (auto simp: llvm_inv_def)
  show "llvm_offset (m_llvmFieldTypeArray s) (length (m_llvmFieldTypeArray s)) = m_size s \<and>
      (\<forall>f\<in>set (map slot_field (m_baseTypeList s) @ m_fieldArray s).
        llvm_at (m_llvmFieldTypeArray s) (f_type f) (f_llvmIndex f) (f_offset f))"
    using L fs cg unfolding ll by (auto simp: llvm_offset_def intro!: llvm_at_append)
qed

section \<open>Laying out in several steps\<close>

text \<open>Fields the parser adds after a partial layout, and the count of laid out fields.\<close>

definition add_fields :: "field list \<Rightarrow> struct_type \<Rightarrow> struct_type" where
  "add_fields ys s = s\<lparr>m_fieldArray := m_fieldArray s @ ys\<rparr>"

definition counted :: "nat \<Rightarrow> struct_type \<Rightarrow> struct_type" where
  "counted c s = s\<lparr>m_laidOutFieldCount := c\<rparr>"

definition last_in_range :: "struct_type \<Rightarrow> bool" where
  "last_in_range s \<longleftrightarrow> (\<forall>j. m_lastBitField s = Some j \<longrightarrow> j < length (m_fieldArray s))"

lemma placing_add_fields:
  "place_off E t (add_fields ys s) = place_off E t s"
  "place_idx E t idx (add_fields ys s) = place_idx E t idx s"
  "placed E t (add_fields ys s) = add_fields ys (placed E t s)"
  "m_structTypeKind (add_fields ys s) = m_structTypeKind s"
  "(add_fields ys s)\<lparr>m_lastBitField := x\<rparr> = add_fields ys (s\<lparr>m_lastBitField := x\<rparr>)"
  by (simp_all add: place_off_def place_idx_def place_llvm_def placed_def add_fields_def)

lemma placing_counted:
  "place_off E t (counted c s) = place_off E t s"
  "place_idx E t idx (counted c s) = place_idx E t idx s"
  "placed E t (counted c s) = counted c (placed E t s)"
  "m_structTypeKind (counted c s) = m_structTypeKind s"
  "m_fieldArray (counted c s) = m_fieldArray s" "m_lastBitField (counted c s) = m_lastBitField s"
  "(counted c s)\<lparr>m_lastBitField := x\<rparr> = counted c (s\<lparr>m_lastBitField := x\<rparr>)"
  "set_field i f (counted c s) = counted c (set_field i f s)"
  by (simp_all add: place_off_def place_idx_def place_llvm_def placed_def counted_def set_field_def)

lemma set_field_fields [simp]: "m_fieldArray (set_field i f s) = (m_fieldArray s)[i := f]"
  by (simp add: set_field_def)

lemma set_field_add_fields:
  "i < length (m_fieldArray s) \<Longrightarrow> set_field i f (add_fields ys s) = add_fields ys (set_field i f s)"
  "i < length (m_fieldArray s) \<Longrightarrow> m_fieldArray (add_fields ys s) ! i = m_fieldArray s ! i"
  by (simp_all add: set_field_def add_fields_def list_update_append1 nth_append)

lemma layoutBitField_length:
  "length (m_fieldArray (snd (layoutBitField E i s))) = length (m_fieldArray s)"
  by (simp add: layoutBitField_def set_field_def place_placed Let_def split: prod.splits)

lemma layoutField_add_fields:
  assumes i: "i < length (m_fieldArray s)" and l: "last_in_range s"
  shows "layoutField E i (add_fields ys s) = apsnd (add_fields ys) (layoutField E i s)"
proof -
  have lb: "last_bit_field (add_fields ys s) = last_bit_field s"
    using l by (cases "m_lastBitField s") (auto simp: add_fields_def nth_append last_in_range_def)
  have bf: "layoutBitField E i (add_fields ys s) = apsnd (add_fields ys) (layoutBitField E i s)"
    by (simp add: layoutBitField_def lb place_placed placing_add_fields set_field_add_fields i
        Let_def split: prod.splits)
  show ?thesis
    using layoutBitField_length [of E i s] i
    by (cases "layoutBitField E i s")
      (auto simp: layoutField_def bf layoutFieldImpl_def place_placed placing_add_fields
        set_field_add_fields Let_def split: option.splits)
qed

lemma layoutField_counted: "layoutField E i (counted c s) = apsnd (counted c) (layoutField E i s)"
  by (simp add: layoutField_def layoutBitField_def layoutFieldImpl_def place_placed placing_counted
      Let_def split: prod.splits option.splits if_splits)

lemma layoutField_last_in_range:
  assumes "layoutField E i s = (None, s')" and "i < length (m_fieldArray s)" and "last_in_range s"
  shows "last_in_range s'"
  using assms(1,2)
  by (cases rule: layoutField_cases) (use assms(2,3) in \<open>auto simp: last_in_range_def\<close>)

lemma layoutFields_add_fields:
  assumes "i + n \<le> length (m_fieldArray s)" and "last_in_range s"
  shows "layoutFields E i n (add_fields ys s) = apsnd (add_fields ys) (layoutFields E i n s)"
  using assms
proof (induction E i n s rule: layoutFields.induct)
  case (1 E i s)
  then show ?case by simp
next
  case (2 E i n s)
  have i: "i < length (m_fieldArray s)" using "2.prems"(1) by linarith
  obtain r s1 where s1: "layoutField E i s = (r, s1)" by fastforce
  show ?case
  proof (cases r)
    case None
    note s1' = s1 [unfolded None]
    have "layoutFields E (Suc i) n (add_fields ys s1) = apsnd (add_fields ys) (layoutFields E (Suc i) n s1)"
      using "2.IH" [OF s1 [symmetric] None] "2.prems" layoutField_frame(1) [OF s1' i]
        layoutField_last_in_range [OF s1' i] by simp
    then show ?thesis
      using s1' layoutField_add_fields [OF i "2.prems"(2), of E ys] by simp
  next
    case (Some e)
    then show ?thesis
      using s1 layoutField_add_fields [OF i "2.prems"(2), of E ys] by (simp add: add_fields_def)
  qed
qed

lemma layoutFields_counted:
  "layoutFields E i n (counted c s) =
     (case layoutFields E i n s of (Some e, s') \<Rightarrow> (Some e, s') | (None, s') \<Rightarrow> (None, counted c s'))"
proof (induction E i n s rule: layoutFields.induct)
  case (2 E i n s)
  obtain r s1 where s1: "layoutField E i s = (r, s1)" by fastforce
  show ?case
    using "2.IH" [OF s1 [symmetric]] s1
    by (cases r) (simp_all add: layoutField_counted, simp add: counted_def)
qed simp

lemma layoutFields_add:
  "layoutFields E i (n + m) s =
     (case layoutFields E i n s of (Some e, s') \<Rightarrow> (Some e, s') | (None, s') \<Rightarrow> layoutFields E (i + n) m s')"
proof (induction E i n s rule: layoutFields.induct)
  case (2 E i n s)
  obtain r s1 where s1: "layoutField E i s = (r, s1)" by fastforce
  show ?case
    using "2.IH" [OF s1 [symmetric]] s1 by (cases r) (simp_all split: prod.split option.split)
qed simp

lemma layoutFields_length:
  assumes "layoutFields E i n s = (None, s')" and "i + n \<le> length (m_fieldArray s)"
  shows "length (m_fieldArray s') = length (m_fieldArray s)"
  using assms
proof (induction E i n s rule: layoutFields.induct)
  case (2 E i n s)
  then obtain s1 where s1: "layoutField E i s = (None, s1)" "layoutFields E (Suc i) n s1 = (None, s')"
    by (auto split: prod.splits option.splits)
  have "length (m_fieldArray s1) = length (m_fieldArray s)"
    using layoutField_frame(1) [OF s1(1)] "2.prems"(2) by simp
  then show ?case using "2.IH" [OF s1(1) [symmetric] refl s1(2)] "2.prems"(2) by simp
qed simp

lemma layoutBaseType_add_fields:
  "layoutBaseType E i (add_fields ys s) = apsnd (add_fields ys) (layoutBaseType E i s)"
  by (simp add: layoutBaseType_def layoutFieldImpl_def place_placed Let_def add_fields_def
      place_off_def place_idx_def place_llvm_def placed_def)

lemma layoutBaseTypes_add_fields:
  "layoutBaseTypes E i n (add_fields ys s) = apsnd (add_fields ys) (layoutBaseTypes E i n s)"
proof (induction E i n s rule: layoutBaseTypes.induct)
  case (2 E i n s)
  obtain r s1 where s1: "layoutBaseType E i s = (r, s1)" by fastforce
  show ?case
    using "2.IH" [OF s1 [symmetric]] s1 by (cases r) (simp_all add: layoutBaseType_add_fields)
qed simp

lemma layoutBaseTypes_frame:
  assumes "layoutBaseTypes E i n s = (None, s')"
  shows "m_fieldArray s' = m_fieldArray s \<and> m_laidOutFieldCount s' = m_laidOutFieldCount s \<and>
    (last_in_range s \<longrightarrow> last_in_range s')"
  using assms
proof (induction E i n s rule: layoutBaseTypes.induct)
  case (2 E i n s)
  from "2.prems" obtain s1 where s1: "layoutBaseType E i s = (None, s1)"
    and r: "layoutBaseTypes E (Suc i) n s1 = (None, s')"
    by (auto split: prod.splits option.splits)
  have "m_fieldArray s1 = m_fieldArray s" "m_laidOutFieldCount s1 = m_laidOutFieldCount s"
    "m_lastBitField s1 = None"
    by (simp_all add: layoutBaseType_eq [OF s1])
  then show ?case
    using "2.IH" [OF s1 [symmetric] refl r] by (auto simp: last_in_range_def)
qed simp

text \<open>The partial layout of the first fields, continued after more fields were added, is the
  layout of all fields at once.\<close>

lemma layoutMembers_resume:
  assumes "xs \<noteq> []" and r: "layoutMembers E (new_struct k fa bs xs) = (None, s1)"
  shows "layoutMembers E (add_fields ys s1) = layoutMembers E (new_struct k fa bs (xs @ ys))"
proof -
  let ?s0 = "new_struct k fa bs xs"
  have all: "new_struct k fa bs (xs @ ys) = add_fields ys ?s0"
    by (simp add: new_struct_def add_fields_def)
  have f0: "m_laidOutFieldCount ?s0 = 0" "m_baseTypeList ?s0 = bs" "m_fieldArray ?s0 = xs"
    "last_in_range ?s0"
    by (simp_all add: new_struct_def last_in_range_def)
  obtain sb sf where ns: "e_namespaceReady E"
    and b: "layoutBaseTypes E 0 (length bs) ?s0 = (None, sb)"
    and f': "layoutFields E 0 (length xs) sb = (None, sf)"
    and s1: "s1 = counted (length (m_fieldArray sf)) sf"
    using r by (rule layoutMembers_newE) (simp add: counted_def)
  have fb: "m_fieldArray sb = xs" "m_laidOutFieldCount sb = 0" "last_in_range sb"
    using layoutBaseTypes_frame [OF b] f0 by simp_all
  have len: "length (m_fieldArray sf) = length xs" using layoutFields_length [OF f'] fb by simp
  have s1': "s1 = counted (length xs) sf" by (simp add: s1 len)
  have rest: "layoutFields E 0 (length xs + length ys) (add_fields ys sb) =
      layoutFields E (length xs) (length ys) (add_fields ys sf)"
    using f' fb layoutFields_add_fields [of 0 "length xs" sb E ys] by (simp add: layoutFields_add)
  have c: "add_fields ys (counted n sf) = counted n (add_fields ys sf)" for n
    by (simp add: add_fields_def counted_def)
  have lhs: "layoutMembers E (add_fields ys s1) =
     (case layoutFields E (length xs) (length ys) (counted (length xs) (add_fields ys sf)) of
        (Some e, s) \<Rightarrow> (Some e, s) | (None, s) \<Rightarrow> (None, counted (length (m_fieldArray s)) s))"
    using assms(1) len unfolding layoutMembers_def s1' c
    by (simp add: counted_def add_fields_def split: prod.split option.split)
  have rhs: "layoutMembers E (add_fields ys ?s0) =
     (case layoutFields E (length xs) (length ys) (add_fields ys sf) of
        (Some e, s) \<Rightarrow> (Some e, s) | (None, s) \<Rightarrow> (None, counted (length (m_fieldArray s)) s))"
  proof -
    have a: "m_laidOutFieldCount (add_fields ys t) = m_laidOutFieldCount t"
      "m_baseTypeList (add_fields ys t) = m_baseTypeList t"
      "length (m_fieldArray (add_fields ys t)) = length (m_fieldArray t) + length ys" for t
      by (simp_all add: add_fields_def)
    show ?thesis
      unfolding layoutMembers_def a f0 using ns b fb rest a
      by (simp add: layoutBaseTypes_add_fields counted_def split: prod.split option.split)
  qed
  show ?thesis
    unfolding all lhs rhs layoutFields_counted
    by (simp add: counted_def split: prod.split option.split)
qed

section \<open>The scan for garbage collector roots\<close>

lemma scanFields_gc_all:
  "m_gcRootFieldArray (scanFields i n s) =
     m_gcRootFieldArray s @ filter (\<lambda>j. t_gcRoot (f_type (m_fieldArray s ! j))) [i..<i + n] \<and>
   (m_gcRoot (scanFields i n s) \<longleftrightarrow>
     m_gcRoot s \<or> (\<exists>j\<in>{i..<i + n}. t_gcRoot (f_type (m_fieldArray s ! j)))) \<and>
   (m_pod (scanFields i n s) \<longleftrightarrow>
     m_pod s \<and> (\<forall>j\<in>{i..<i + n}. t_pod (f_type (m_fieldArray s ! j))))"
proof (induction n arbitrary: i s)
  case (Suc n)
  have set: "{i..<i + Suc n} = insert i {Suc i..<Suc i + n}" by auto
  have upt: "[i..<i + Suc n] = i # [Suc i..<Suc i + n]" by (simp add: upt_rec)
  have one: "m_gcRootFieldArray (scanField i s) = m_gcRootFieldArray s @
      (if t_gcRoot (f_type (m_fieldArray s ! i)) then [i] else [])"
    "m_gcRoot (scanField i s) = (m_gcRoot s \<or> t_gcRoot (f_type (m_fieldArray s ! i)))"
    "m_pod (scanField i s) = (m_pod s \<and> t_pod (f_type (m_fieldArray s ! i)))"
    by (auto simp: scanField_def Let_def)
  show ?case
    using Suc.IH [of "Suc i" "scanField i s"] unfolding set upt scanFields.simps
    by (auto simp: one simp del: upt_Suc)
qed simp

lemmas scanFields_gc =
  scanFields_gc_all [THEN conjunct1]
  scanFields_gc_all [THEN conjunct2, THEN conjunct1]
  scanFields_gc_all [THEN conjunct2, THEN conjunct2]

text \<open>Base types contribute their flag and index; fields do not change what was recorded.\<close>

definition gc_fresh :: "struct_type \<Rightarrow> bool" where
  "gc_fresh s \<longleftrightarrow> m_gcRootFieldArray s = [] \<and> m_pod s"

lemma layoutBaseTypes_gc:
  assumes "layoutBaseTypes E i n s = (None, s')" and "i + n \<le> length (m_baseTypeList s)"
  shows "m_gcRootBaseTypeArray s' = m_gcRootBaseTypeArray s @
      filter (\<lambda>j. t_gcRoot (b_type (m_baseTypeList s ! j))) [i..<i + n] \<and>
    (m_gcRoot s' \<longleftrightarrow> m_gcRoot s \<or> (\<exists>j\<in>{i..<i + n}. t_gcRoot (b_type (m_baseTypeList s ! j)))) \<and>
    (gc_fresh s \<longrightarrow> gc_fresh s') \<and> map b_type (m_baseTypeList s') = map b_type (m_baseTypeList s)"
  using assms
proof (induction E i n s rule: layoutBaseTypes.induct)
  case (2 E i n s)
  from "2.prems"(1) obtain s1 where s1: "layoutBaseType E i s = (None, s1)"
    and r: "layoutBaseTypes E (Suc i) n s1 = (None, s')"
    by (auto split: prod.splits option.splits)
  have i: "i < length (m_baseTypeList s)" using "2.prems"(2) by linarith
  have set: "{i..<i + Suc n} = insert i {Suc i..<Suc i + n}" by auto
  have upt: "[i..<i + Suc n] = i # [Suc i..<Suc i + n]" by (simp add: upt_rec)
  have bt: "b_type (m_baseTypeList s1 ! j) = b_type (m_baseTypeList s ! j)" for j
    using i by (cases "j = i") (simp_all add: layoutBaseType_eq [OF s1] placed_slot_def)
  have mt: "map b_type (m_baseTypeList s1) = map b_type (m_baseTypeList s)"
    using i by (simp add: layoutBaseType_eq [OF s1] map_update list_update_same_conv placed_slot_def)
  have len: "length (m_baseTypeList s1) = length (m_baseTypeList s)"
    using mt by (metis length_map)
  have one: "m_gcRootBaseTypeArray s1 = m_gcRootBaseTypeArray s @
      (if t_gcRoot (b_type (m_baseTypeList s ! i)) then [i] else [])"
    "m_gcRoot s1 = (m_gcRoot s \<or> t_gcRoot (b_type (m_baseTypeList s ! i)))"
    "gc_fresh s1 = gc_fresh s"
    by (simp_all add: layoutBaseType_eq [OF s1] placed_def base_noted_def gc_fresh_def)
  show ?case
    using "2.IH" [OF s1 [symmetric] refl r] "2.prems"(2) unfolding set upt
    by (auto simp: one bt mt len)
qed simp

lemma layoutFields_gc:
  assumes "layoutFields E i n s = (None, s')" and "i + n \<le> length (m_fieldArray s)"
  shows "m_gcRootBaseTypeArray s' = m_gcRootBaseTypeArray s \<and> m_gcRoot s' = m_gcRoot s \<and>
    gc_fresh s' = gc_fresh s \<and> map f_type (m_fieldArray s') = map f_type (m_fieldArray s) \<and>
    m_structTypeKind s' = m_structTypeKind s"
  using assms
proof (induction E i n s rule: layoutFields.induct)
  case (2 E i n s)
  from "2.prems"(1) obtain s1 where s1: "layoutField E i s = (None, s1)"
    and r: "layoutFields E (Suc i) n s1 = (None, s')"
    by (auto split: prod.splits option.splits)
  have i: "i < length (m_fieldArray s)" using "2.prems"(2) by linarith
  note fr = layoutField_frame [OF s1 i]
  have "m_gcRootBaseTypeArray s1 = m_gcRootBaseTypeArray s \<and> m_gcRoot s1 = m_gcRoot s \<and>
    gc_fresh s1 = gc_fresh s"
    using s1 i by (cases rule: layoutField_cases) (simp_all add: placed_def gc_fresh_def)
  then show ?case
    using "2.IH" [OF s1 [symmetric] refl r] "2.prems"(2) fr by simp
qed simp

text \<open>The last step of the layout of a normal struct.\<close>

definition scanned :: "layout_env \<Rightarrow> struct_type \<Rightarrow> struct_type" where
  "scanned E s = scanFields 0 (length (m_fieldArray s)) (s\<lparr>m_size := e_align E (m_fieldSize s) (m_alignment s)\<rparr>)"

lemma calcLayoutTo_normalE:
  assumes "calcLayoutTo E False s0 = (None, s)"
    and "\<And>s1. layoutMembers E s0 = (None, s1) \<Longrightarrow> m_structTypeKind s1 = Normal"
  obtains sm where "layoutMembers E s0 = (None, sm)"
    and "s = finishLayout E ((scanned E sm)
          \<lparr>m_constructorThinThis := (m_constructorThinThis (scanned E sm) \<and> e_propertyThinThis E)\<rparr>)"
  using assms unfolding calcLayoutTo_def layoutByKind_def Let_def scanned_def
  by (fastforce split: prod.splits option.splits if_splits)

lemma layoutMembers_gc:
  assumes "layoutMembers E (new_struct k fa bs fs) = (None, s)"
  shows "m_gcRootBaseTypeArray s = filter (\<lambda>j. t_gcRoot (b_type (bs ! j))) [0..<length bs]"
    and "m_gcRoot s \<longleftrightarrow> (\<exists>j\<in>{0..<length bs}. t_gcRoot (b_type (bs ! j)))"
    and "gc_fresh s" and "map f_type (m_fieldArray s) = map f_type fs" and "m_structTypeKind s = k"
proof -
  let ?s0 = "new_struct k fa bs fs"
  obtain sb sf where b: "layoutBaseTypes E 0 (length bs) ?s0 = (None, sb)"
    and B: "m_fieldArray sb = fs" "m_structTypeKind sb = k"
    and f: "layoutFields E 0 (length fs) sb = (None, sf)"
    and s: "s = sf\<lparr>m_laidOutFieldCount := length (m_fieldArray sf)\<rparr>"
    using assms by (rule layoutMembers_newE)
  have f0: "m_baseTypeList ?s0 = bs" "m_gcRootBaseTypeArray ?s0 = []" "\<not> m_gcRoot ?s0" "gc_fresh ?s0"
    by (simp_all add: new_struct_def gc_fresh_def)
  have lf: "0 + length fs \<le> length (m_fieldArray sb)" using B by simp
  have lb: "0 + length bs \<le> length (m_baseTypeList ?s0)" by (simp add: f0)
  note GB = layoutBaseTypes_gc [OF b lb] and GF = layoutFields_gc [OF f lf]
  show "m_gcRootBaseTypeArray s = filter (\<lambda>j. t_gcRoot (b_type (bs ! j))) [0..<length bs]"
    and "m_gcRoot s \<longleftrightarrow> (\<exists>j\<in>{0..<length bs}. t_gcRoot (b_type (bs ! j)))"
    and "gc_fresh s" and "map f_type (m_fieldArray s) = map f_type fs" and "m_structTypeKind s = k"
    using GB GF f0 B by (simp_all add: s gc_fresh_def)
qed

lemma calcLayoutTo_gc:
  assumes "calcLayoutTo E False (new_struct Normal fa bs fs) = (None, s)"
  shows "m_gcRootBaseTypeArray s = filter (\<lambda>j. t_gcRoot (b_type (bs ! j))) [0..<length bs]"
    and "m_gcRootFieldArray s = filter (\<lambda>j. t_gcRoot (f_type (fs ! j))) [0..<length fs]"
    and "m_gcRoot s \<longleftrightarrow> (\<exists>b\<in>set bs. t_gcRoot (b_type b)) \<or> (\<exists>f\<in>set fs. t_gcRoot (f_type f))"
    and "m_pod s \<longleftrightarrow> (\<forall>f\<in>set fs. t_pod (f_type f))"
proof -
  obtain sm where m: "layoutMembers E (new_struct Normal fa bs fs) = (None, sm)"
    and s: "s = finishLayout E ((scanned E sm)
          \<lparr>m_constructorThinThis := (m_constructorThinThis (scanned E sm) \<and> e_propertyThinThis E)\<rparr>)"
    using assms by (rule calcLayoutTo_normalE) (rule layoutMembers_gc(5))
  note G = layoutMembers_gc [OF m]
  have len: "length (m_fieldArray sm) = length fs" using G(4) by (metis length_map)
  have nth: "f_type (m_fieldArray sm ! j) = f_type (fs ! j)" if "j < length fs" for j
    using G(4) that len by (metis nth_map)
  have gb: "m_gcRootBaseTypeArray (scanFields i n t) = m_gcRootBaseTypeArray t" for i n t
    by (induction n arbitrary: i t) (simp_all add: scanField_def Let_def)
  note G' = G(1,2) G(3) [unfolded gc_fresh_def] s scanned_def len
  show "m_gcRootBaseTypeArray s = filter (\<lambda>j. t_gcRoot (b_type (bs ! j))) [0..<length bs]"
    by (simp add: gb G')
  show "m_gcRootFieldArray s = filter (\<lambda>j. t_gcRoot (f_type (fs ! j))) [0..<length fs]"
    by (auto simp: scanFields_gc nth G' intro: filter_cong)
  show "m_gcRoot s \<longleftrightarrow> (\<exists>b\<in>set bs. t_gcRoot (b_type b)) \<or> (\<exists>f\<in>set fs. t_gcRoot (f_type f))"
    by (simp add: scanFields_gc nth Bex_set_nth G')
  show "m_pod s \<longleftrightarrow> (\<forall>f\<in>set fs. t_pod (f_type f))"
    by (simp add: scanFields_gc nth Ball_set_nth G')
qed

end
