(* ===== verification/StructLayoutThms.thy ===== *)
theory StructLayoutThms
  imports StructLayoutInv
begin

text \<open>
  The properties of struct layout: members do not overlap, offsets are aligned, the LLVM body
  agrees with the computed offsets, laying out in several steps gives the layout of all members
  at once, and the members the garbage collector has to visit are all recorded.
\<close>

section \<open>Properties\<close>

text \<open>C7: in a successfully laid out struct whose bit fields all have one byte order (\<open>be\<close>) no two fields
  overlap. Fields keep their types and order; each one ends before the next begins, or both are bit
  fields of one storage unit that own disjoint bits; every field starts after all base types and ends
  inside the struct. (The other conditions of \<open>struct_wf\<close>: alignments are powers of two, bit fields lie
  in integers of their width, types have their own signatures, and the sizes add up to less than
  \<open>2 ^ 64\<close>. With two byte orders fields can overlap, see \<open>bit_field_orders_overlap\<close>.)\<close>

theorem struct_fields_disjoint:
  assumes "align_ok (e_align E)" and "struct_wf be fa bs fs" and "k \<noteq> Adapter"
    and "calcLayoutTo E False (new_struct k fa bs fs) = (None, s)"
  shows "map f_type (m_fieldArray s) = map f_type fs \<and> sorted_wrt sep (m_fieldArray s) \<and>
    (\<forall>f\<in>set (m_fieldArray s). f_end f \<le> m_size s \<and> (\<forall>b\<in>set (m_baseTypeList s). b_end b \<le> f_offset f))"
proof -
  note C = calcLayoutTo_new [OF assms]
  have "sep (slot_field b) f \<Longrightarrow> b_end b \<le> f_offset f" for b f
    by (simp add: sep_def same_unit_def)
  moreover have "f_end f \<le> m_size s" if "f \<in> set (m_fieldArray s)" for f
    using C(7,8) that by (auto simp: fields_inv_def fits_def intro: le_trans)
  ultimately show ?thesis
    using C(2,8) by (auto simp: fields_inv_def sorted_wrt_append)
qed

text \<open>A struct with a byte, two bit fields and an integer, used by the witnesses below.\<close>

definition ty_char :: ty where
  "ty_char = \<lparr>t_signature = ''c'', t_size = 1, t_alignment = 1, t_pod = True, t_gcRoot = False,
     t_noStack = False, t_class = False, t_derivable = False, t_constructible = False,
     t_thinThis = True, t_layout_ok = True\<rparr>"

definition ty_int :: ty where
  "ty_int = ty_char\<lparr>t_signature := ''i4'', t_size := 4, t_alignment := 4\<rparr>"

definition ty_ptr :: ty where
  "ty_ptr = ty_char\<lparr>t_signature := ''P'', t_size := 16, t_alignment := 8, t_pod := False, t_gcRoot := True\<rparr>"

definition ty_base :: ty where
  "ty_base = ty_ptr\<lparr>t_signature := ''S'', t_derivable := True\<rparr>"

definition env_ok :: layout_env where
  "env_ok = \<lparr>e_align = align_up, e_hasCodeGen = True, e_namespaceReady = True,
     e_propertyThinThis = True, e_propertyDestruct = False, e_defaultMethods = True,
     e_opaqueClass = False, e_findOpaqueInfo = None\<rparr>"

definition example_fields :: "field list" where
  "example_fields = [new_field ty_char 0 False, new_field ty_int 3 False, new_field ty_int 5 False,
     new_field ty_ptr 0 False]"

lemmas example_defs = ty_char_def ty_int_def ty_ptr_def ty_base_def env_ok_def example_fields_def
  new_field_def new_slot_def new_struct_def

lemmas layout_defs = calcLayoutTo_def layoutMembers_def layoutByKind_def finishLayout_def
  layoutField_def layoutBitField_def layoutFieldImpl_def layoutBaseType_def place_def
  getFieldOffset_def bitFieldSlot_def set_field_def scanField_def addLlvmPadding_def isEqual_def
  stackAllocSizeLimit_def align_up_def szt_def u32_def Let_def

lemma pow2_simps [simp]: "pow2 (Suc 0)" "pow2 2" "pow2 4" "pow2 8" "pow2 16"
proof -
  have "pow2 (2 ^ k)" for k by (auto simp: pow2_def)
  from this [of 0] this [of 1] this [of 2] this [of 3] this [of 4]
  show "pow2 (Suc 0)" "pow2 2" "pow2 4" "pow2 8" "pow2 16" by simp_all
qed

lemma example_wf: "struct_wf False 8 [new_slot ty_base] example_fields"
  by (auto simp: struct_wf_def field_wf_def sig_inj_def costs_def example_defs u32_def)

definition example_struct :: struct_type where
  "example_struct = snd (calcLayoutTo env_ok False (new_struct Normal 8 [new_slot ty_base] example_fields))"

lemma example_layout:
  "calcLayoutTo env_ok False (new_struct Normal 8 [new_slot ty_base] example_fields) =
     (None, example_struct)"
  unfolding example_struct_def by (simp add: example_defs layout_defs cong: let_weak_cong)

lemma env_ok_align: "align_ok (e_align env_ok)"
  by (simp add: env_ok_def align_up_ok)

theorem struct_fields_disjoint_witness:
  "sorted_wrt sep (m_fieldArray example_struct)"
  using struct_fields_disjoint [OF env_ok_align example_wf _ example_layout] by simp

text \<open>C11: every base type and field of a laid out struct starts at a multiple of its alignment
  (cut to the packing \<open>fa\<close> of the struct), the alignment of the struct is a multiple of each of
  these, and its size is a multiple of its alignment, so that fields are aligned in arrays of the
  struct too; every bit field stays inside its storage unit.\<close>

theorem struct_fields_aligned:
  assumes "align_ok (e_align E)" and "struct_wf be fa bs fs" and "k \<noteq> Adapter"
    and "\<not> (k = IfaceStruct \<and> e_opaqueClass E)"
    and "calcLayoutTo E False (new_struct k fa bs fs) = (None, s)"
  shows "m_alignment s dvd m_size s \<and>
    (\<forall>b\<in>set (m_baseTypeList s).
       eff_align fa (b_type b) dvd b_offset b \<and> eff_align fa (b_type b) dvd m_alignment s) \<and>
    (\<forall>f\<in>set (m_fieldArray s).
       eff_align fa (f_type f) dvd f_offset f \<and> eff_align fa (f_type f) dvd m_alignment s \<and>
       (f_bitField f \<longrightarrow> f_bitOffset f + f_bitCount f \<le> 8 * t_size (f_type f)))"
proof -
  note C = calcLayoutTo_new [OF assms(1,2,3,5)]
  let ?items = "map slot_field (m_baseTypeList s) @ m_fieldArray s"
  have pw: "pow2 (t_alignment (f_type f))" if "f \<in> set ?items" for f
  proof -
    have "f_type f \<in> set (map b_type bs @ map f_type fs)"
      using that unfolding C(2,4) [symmetric] by auto
    then show ?thesis using assms(2) by (auto simp: struct_wf_def field_wf_def)
  qed
  have fit: "eff_align fa (f_type f) dvd f_offset f \<and> eff_align fa (f_type f) dvd m_alignment s \<and>
      (f_bitField f \<longrightarrow> f_bitOffset f + f_bitCount f \<le> 8 * t_size (f_type f))"
    if "f \<in> set ?items" for f
  proof -
    have "fits fa (m_fieldSize s) (m_alignment s) f" using C(8) that by (simp add: fields_inv_def)
    moreover have "pow2 (eff_align fa (f_type f))" using eff_align_pow2 [OF C(5) pw [OF that]] .
    ultimately show ?thesis using C(6) by (auto simp: fits_def pow2_def intro: pow2_le_dvd)
  qed
  have "eff_align fa (b_type b) dvd b_offset b \<and> eff_align fa (b_type b) dvd m_alignment s"
    if "b \<in> set (m_baseTypeList s)" for b
    using fit [of "slot_field b"] that by simp
  then show ?thesis using fit C(9) [OF assms(4)] by auto
qed

theorem struct_fields_aligned_witness:
  "m_alignment example_struct dvd m_size example_struct"
  using struct_fields_aligned [OF env_ok_align example_wf _ _ example_layout] by simp

text \<open>C9: the body of the packed LLVM struct agrees with the computed layout: its elements add up
  to the size of the struct, and the element at the LLVM index of a base type or field has the
  type of that member and starts at its offset. (The index is a \<^verbatim>\<open>uint_t\<close>; every member adds at
  most two elements.)\<close>

theorem struct_llvm_body:
  assumes "align_ok (e_align E)" and "struct_wf be fa bs fs" and "k \<noteq> Adapter"
    and "2 * (length bs + length fs) \<le> 2 ^ 32" and "e_hasCodeGen E"
    and "calcLayoutTo E False (new_struct k fa bs fs) = (None, s)"
  shows "llvm_offset (m_llvmFieldTypeArray s) (length (m_llvmFieldTypeArray s)) = m_size s \<and>
    (\<forall>b\<in>set (m_baseTypeList s).
       llvm_at (m_llvmFieldTypeArray s) (b_type b) (b_llvmIndex b) (b_offset b)) \<and>
    (\<forall>f\<in>set (m_fieldArray s).
       llvm_at (m_llvmFieldTypeArray s) (f_type f) (f_llvmIndex f) (f_offset f))"
proof -
  note C = calcLayoutTo_new(10) [OF assms(1,2,3,6,4,5)]
  have "llvm_at (m_llvmFieldTypeArray s) (b_type b) (b_llvmIndex b) (b_offset b)"
    if "b \<in> set (m_baseTypeList s)" for b
    using C [THEN conjunct2, rule_format, of "slot_field b"] that by simp
  then show ?thesis using C by auto
qed

theorem struct_llvm_body_witness:
  "llvm_offset (m_llvmFieldTypeArray example_struct) (length (m_llvmFieldTypeArray example_struct)) =
     m_size example_struct"
  using struct_llvm_body [OF env_ok_align example_wf _ _ _ example_layout]
  by (simp add: env_ok_def example_fields_def)

text \<open>C10: laying out on demand (\<^verbatim>\<open>calcLayoutTo\<close> with a target field, while the struct is still
  being parsed), then adding the remaining fields and finishing the layout, gives the same struct,
  or the same error, as laying out all fields at once. The struct has a field when the first
  pass runs: with none, the base types would be laid out again.\<close>

theorem struct_layout_incremental:
  assumes "xs \<noteq> []" and "calcLayoutTo E True (new_struct k fa bs xs) = (None, s1)"
  shows "calcLayoutTo E False (add_fields ys s1) = calcLayoutTo E False (new_struct k fa bs (xs @ ys))"
proof -
  have "layoutMembers E (new_struct k fa bs xs) = (None, s1)"
    using assms(2) by (auto simp: calcLayoutTo_def split: prod.splits option.splits)
  from layoutMembers_resume [OF assms(1) this] show ?thesis by (simp add: calcLayoutTo_def)
qed

definition example_partial :: struct_type where
  "example_partial = snd (calcLayoutTo env_ok True (new_struct Normal 8 [new_slot ty_base] (take 2 example_fields)))"

lemma example_partial:
  "calcLayoutTo env_ok True (new_struct Normal 8 [new_slot ty_base] (take 2 example_fields)) =
     (None, example_partial)"
  unfolding example_partial_def by (simp add: example_defs layout_defs cong: let_weak_cong)

theorem struct_layout_incremental_witness:
  "calcLayoutTo env_ok False (add_fields (drop 2 example_fields) example_partial) = (None, example_struct)"
  using struct_layout_incremental [OF _ example_partial, of "drop 2 example_fields"] example_layout
  by (simp add: example_fields_def)

text \<open>C12: a laid out normal struct records exactly its base types and fields that are garbage
  collector roots, in order, and is flagged as a root exactly when it has one of them.\<close>

theorem struct_gc_roots:
  assumes "calcLayoutTo E False (new_struct Normal fa bs fs) = (None, s)"
  shows "m_gcRootBaseTypeArray s = filter (\<lambda>j. t_gcRoot (b_type (bs ! j))) [0..<length bs] \<and>
    m_gcRootFieldArray s = filter (\<lambda>j. t_gcRoot (f_type (fs ! j))) [0..<length fs] \<and>
    (m_gcRoot s \<longleftrightarrow> (\<exists>b\<in>set bs. t_gcRoot (b_type b)) \<or> (\<exists>f\<in>set fs. t_gcRoot (f_type f)))"
  using calcLayoutTo_gc [OF assms] by simp

theorem struct_gc_roots_witness:
  "m_gcRootFieldArray example_struct = [3] \<and> m_gcRoot example_struct"
  using struct_gc_roots [OF example_layout] by (simp add: example_defs upt_rec)

text \<open>With bit fields of both byte orders in one storage unit the layout can overlap: after two
  little-endian fields of 3 bits in a byte, a big-endian field of 2 bits is placed below the
  offset of the second one, inside the first.\<close>

theorem bit_field_orders_overlap:
  "let fs = m_fieldArray (snd (calcLayoutTo env_ok False (new_struct Normal 8 []
         [new_field ty_char 3 False, new_field ty_char 3 False, new_field ty_char 2 True])))
   in f_offset (fs ! 0) = f_offset (fs ! 2) \<and> f_bits (fs ! 0) = {0..<3} \<and> f_bits (fs ! 2) = {1..<3}"
  by (simp add: example_defs layout_defs f_bits_def cong: let_weak_cong) (simp add: numeral_3_eq_3)

text \<open>A struct derived from a type that is not plain data, with no fields of its own, is
  laid out as a garbage collector root and still flagged as plain data: base types never clear
  the flag.\<close>

theorem derived_struct_stays_pod:
  "let s = snd (calcLayoutTo env_ok False (new_struct Normal 8 [new_slot ty_base] []))
   in \<not> t_pod ty_base \<and> m_pod s \<and> m_gcRoot s"
  by (simp add: example_defs layout_defs cong: let_weak_cong)

end
