(* ===== verification/UnionArrayLayout.thy ===== *)
theory UnionArrayLayout
  imports StructLayoutThms
begin

text \<open>
  Layout of union types (\<^verbatim>\<open>UnionType::calcLayout\<close>, \<^verbatim>\<open>jnc_ct_UnionType.cpp\<close>) and of array types
  (\<^verbatim>\<open>ArrayType::calcLayout\<close>, \<^verbatim>\<open>prepareRootType\<close>, \<^verbatim>\<open>jnc_ct_ArrayType.cpp\<close>). A union is laid out
  as a struct of its largest member whose alignment is raised to that of its most aligned one.
\<close>

section \<open>Unions\<close>

record union_type =
  u_structType :: struct_type
  u_fieldArray :: "field list"
  u_fieldInitializeArray :: "nat list"
  u_constructorThinThis :: bool
  u_noStack :: bool
  u_size :: nat
  u_alignment :: nat

datatype union_error = UNotReady | UMemberLayout | UNonPod | UEmpty | UStructLayout layout_error
  | UPropertyDestructor | UDefaultMethods

text \<open>\<^verbatim>\<open>TypeMgr::createUnionType\<close>, with the fields the parser adds.\<close>

definition createUnionType :: "nat \<Rightarrow> field list \<Rightarrow> union_type" where
  "createUnionType fa fs =
     \<lparr>u_structType = new_struct UnionStruct fa [] [], u_fieldArray = fs,
      u_fieldInitializeArray = [], u_constructorThinThis = True, u_noStack = False,
      u_size = 0, u_alignment = 1\<rparr>"

text \<open>One turn of the loop over the fields; \<open>lt\<close> is \<^verbatim>\<open>largestFieldType\<close>, \<open>la\<close>
  \<^verbatim>\<open>largestAlignment\<close>.\<close>

definition unionField :: "nat \<Rightarrow> union_type \<Rightarrow> union_type" where
  "unionField i u =
     (let f = u_fieldArray u ! i; t = f_type f;
          u1 = u\<lparr>u_fieldArray := (u_fieldArray u)[i := f\<lparr>f_llvmIndex := u32 i\<rparr>]\<rparr>
      in if f_ownField f then
           (if t_constructible t
            then u1\<lparr>u_fieldInitializeArray := u_fieldInitializeArray u1 @ [i],
                    u_constructorThinThis := (u_constructorThinThis u1 \<and> t_thinThis t)\<rparr>
            else if f_hasInitializer f
            then u1\<lparr>u_fieldInitializeArray := u_fieldInitializeArray u1 @ [i]\<rparr>
            else u1)
         else u1)"

fun unionFields ::
  "nat \<Rightarrow> nat \<Rightarrow> ty option \<Rightarrow> nat \<Rightarrow> union_type \<Rightarrow> (union_error + ty option \<times> nat) \<times> union_type" where
  "unionFields i 0 lt la u = (Inr (lt, la), u)"
| "unionFields i (Suc n) lt la u =
     (let t = f_type (u_fieldArray u ! i)
      in if \<not> t_layout_ok t then (Inl UMemberLayout, u)
         else if \<not> t_pod t then (Inl UNonPod, u)
         else unionFields (Suc i) n
                (case lt of None \<Rightarrow> Some t | Some l \<Rightarrow> if t_size t > t_size l then Some t else lt)
                (if la < t_alignment t then t_alignment t else la)
                (unionField i u))"

text \<open>\<^verbatim>\<open>m_structType->createField(largestFieldType)\<close> adds a field that is no bit field.\<close>

definition union_calcLayout :: "layout_env \<Rightarrow> union_type \<Rightarrow> union_error option \<times> union_type" where
  "union_calcLayout E u =
     (if \<not> e_namespaceReady E then (Some UNotReady, u)
      else
        (case unionFields 0 (length (u_fieldArray u)) None 1 u of
           (Inl e, u1) \<Rightarrow> (Some e, u1)
         | (Inr (None, la), u1) \<Rightarrow> (Some UEmpty, u1)
         | (Inr (Some lt, la), u1) \<Rightarrow>
             (let st = u_structType u1;
                  st1 = st\<lparr>m_fieldArray := m_fieldArray st @ [new_field lt 0 False],
                           m_alignment := min la (m_fieldAlignment st)\<rparr>
              in case calcLayoutTo E False st1 of
                   (Some e, st2) \<Rightarrow> (Some (UStructLayout e), u1\<lparr>u_structType := st2\<rparr>)
                 | (None, st2) \<Rightarrow>
                     (let u2 = u1\<lparr>u_structType := st2\<rparr>
                      in if e_propertyDestruct E then (Some UPropertyDestructor, u2)
                         else if \<not> e_defaultMethods E then (Some UDefaultMethods, u2)
                         else
                           (let u3 = u2\<lparr>u_size := m_size st2, u_alignment := m_alignment st2\<rparr>
                            in (None, if u_size u3 > stackAllocSizeLimit
                                      then u3\<lparr>u_noStack := True\<rparr> else u3))))))"

section \<open>Arrays\<close>

text \<open>A type seen by the array layout: an array of a number of elements, or any other type.\<close>

datatype aty = OtherType ty | ArrayType aty nat

primrec rootType :: "aty \<Rightarrow> ty" where
  "rootType (OtherType t) = t"
| "rootType (ArrayType e n) = rootType e"

datatype array_error = AElementLayout | AClassElement

text \<open>\<^verbatim>\<open>ArrayType::calcLayout\<close>, with \<^verbatim>\<open>ensureLayout\<close> on the element type: the resulting flags,
  alignment and size. The product wraps like \<^verbatim>\<open>size_t\<close>.\<close>

primrec array_calcLayout :: "aty \<Rightarrow> array_error + ty" where
  "array_calcLayout (OtherType t) = (if t_layout_ok t then Inr t else Inl AElementLayout)"
| "array_calcLayout (ArrayType e n) =
     (case array_calcLayout e of
        Inl err \<Rightarrow> Inl err
      | Inr et \<Rightarrow>
          if t_class et then Inl AClassElement
          else
            (let r = rootType e; sz = szt (t_size et * n)
             in Inr \<lparr>t_signature = '''', t_size = sz, t_alignment = t_alignment et,
                     t_pod = t_pod r, t_gcRoot = (\<not> t_pod r \<and> t_gcRoot r),
                     t_noStack = (sz > stackAllocSizeLimit), t_class = False,
                     t_derivable = False, t_constructible = False, t_thinThis = True,
                     t_layout_ok = True\<rparr>))"

primrec dims :: "aty \<Rightarrow> nat list" where
  "dims (OtherType t) = []"
| "dims (ArrayType e n) = n # dims e"

section \<open>Lemmas on unions\<close>

text \<open>What the loop over the fields has seen so far: \<open>lt\<close> is a largest member, \<open>la\<close> the
  largest alignment.\<close>

definition union_max :: "ty list \<Rightarrow> ty option \<Rightarrow> nat \<Rightarrow> bool" where
  "union_max ts lt la \<longleftrightarrow>
     (case lt of None \<Rightarrow> ts = [] | Some l \<Rightarrow> l \<in> set ts \<and> (\<forall>t\<in>set ts. t_size t \<le> t_size l)) \<and>
     (\<forall>t\<in>set ts. t_alignment t \<le> la) \<and> (la = 1 \<or> la \<in> t_alignment ` set ts) \<and> (\<forall>t\<in>set ts. t_pod t)"

lemma unionField_frame [simp]:
  "map f_type (u_fieldArray (unionField i u)) = map f_type (u_fieldArray u)"
  "u_structType (unionField i u) = u_structType u"
proof -
  have "map f_type ((u_fieldArray u)[i := (u_fieldArray u ! i)\<lparr>f_llvmIndex := n\<rparr>]) = map f_type (u_fieldArray u)" for n
    by (cases "i < length (u_fieldArray u)") (simp_all add: map_update list_update_same_conv list_update_beyond)
  then show "map f_type (u_fieldArray (unionField i u)) = map f_type (u_fieldArray u)"
    by (simp add: unionField_def Let_def)
qed (simp add: unionField_def Let_def)

lemma union_max_snoc:
  assumes "union_max ts lt la" and "t_pod t"
  shows "union_max (ts @ [t])
    (case lt of None \<Rightarrow> Some t | Some l \<Rightarrow> if t_size t > t_size l then Some t else lt)
    (if la < t_alignment t then t_alignment t else la)"
  using assms by (auto simp: union_max_def split: option.splits)

lemma unionFields_max:
  assumes "unionFields i n lt la u = (Inr (lt', la'), u')" and "i + n = length (u_fieldArray u)"
    and "union_max (map f_type (take i (u_fieldArray u))) lt la"
  shows "union_max (map f_type (u_fieldArray u)) lt' la' \<and>
    map f_type (u_fieldArray u') = map f_type (u_fieldArray u) \<and> u_structType u' = u_structType u"
  using assms
proof (induction i n lt la u rule: unionFields.induct)
  case (1 i lt la u)
  then show ?case by simp
next
  case (2 i n lt la u)
  let ?t = "f_type (u_fieldArray u ! i)"
  let ?u = "unionField i u"
  have ok: "t_layout_ok ?t" "t_pod ?t"
    using "2.prems"(1) by (auto simp: Let_def split: if_splits)
  have len: "length (u_fieldArray ?u) = length (u_fieldArray u)"
    using unionField_frame(1) by (metis length_map)
  have "map f_type (take (Suc i) (u_fieldArray ?u)) = map f_type (take i (u_fieldArray u)) @ [?t]"
    using "2.prems"(2) unionField_frame(1) [of i u]
    by (simp add: take_map [symmetric]) (simp add: take_Suc_conv_app_nth take_map)
  with "2.IH" [OF refl] "2.prems" ok len union_max_snoc [OF "2.prems"(3) ok(2)] show ?case
    by (simp add: Let_def)
qed

lemma new_struct_simps [simp]:
  "m_fieldArray (new_struct k fa bs fs) = fs" "m_baseTypeList (new_struct k fa bs fs) = bs"
  "m_fieldAlignment (new_struct k fa bs fs) = fa" "m_structTypeKind (new_struct k fa bs fs) = k"
  "m_fieldSize (new_struct k fa bs fs) = 0" "m_laidOutFieldCount (new_struct k fa bs fs) = 0"
  by (simp_all add: new_struct_def)

lemma new_field_simps [simp]:
  "f_type (new_field t n be) = t" "f_bitCount (new_field t n be) = n"
  by (simp_all add: new_field_def)

text \<open>The struct of a union has one field, at offset 0.\<close>

lemma union_struct_layout:
  assumes "align_ok (e_align E)" and fa: "fa = 2 ^ j" and ta: "t_alignment t = 2 ^ i"
    and "2 ^ i \<le> la" and "t_size t + fa \<le> 2 ^ 64"
    and r: "calcLayoutTo E False ((new_struct UnionStruct fa [] [])
        \<lparr>m_fieldArray := [new_field t 0 False], m_alignment := min la fa\<rparr>) = (None, s)"
  shows "m_size s = e_align E (t_size t) (min la fa)" and "m_alignment s = min la fa"
proof -
  let ?s0 = "(new_struct UnionStruct fa [] [])
    \<lparr>m_fieldArray := [new_field t 0 False], m_alignment := min la fa\<rparr>"
  have "0 < fa" by (simp add: fa)
  have le: "0 + eff_align fa t \<le> 2 ^ 64" "eff_align fa t \<le> min la fa"
    using assms(4,5) \<open>0 < fa\<close> by (auto simp: eff_align_def ta)
  obtain n where n: "eff_align fa t = 2 ^ n" unfolding fa eff_align_def ta min_def by metis
  from align_okD [OF assms(1) n le(1)] have off: "place_off E t ?s0 = 0"
    by (auto simp: place_off_def dest: dvd_imp_le)
  have one: "m_fieldSize s1 = t_size t \<and> m_alignment s1 = min la fa \<and> m_structTypeKind s1 = UnionStruct"
    if "layoutMembers E ?s0 = (None, s1)" for s1
  proof -
    obtain r s2 where f: "layoutField E 0 ?s0 = (r, s2)" by fastforce
    have s1: "r = None" "s1 = s2\<lparr>m_laidOutFieldCount := length (m_fieldArray s2)\<rparr>"
      using that f by (auto simp: layoutMembers_def split: if_splits option.splits)
    from f [unfolded s1(1)] show ?thesis
      by (cases rule: layoutField_cases) (use le(2) assms(5) \<open>0 < fa\<close> in \<open>simp_all add: s1(2) off max_absorb1\<close>)
  qed
  show "m_size s = e_align E (t_size t) (min la fa)" and "m_alignment s = min la fa"
    by (rule calcLayoutTo_full [OF r]; use one in force)+
qed

lemma union_calcLayoutE:
  assumes "union_calcLayout E (createUnionType fa fs) = (None, u)"
  obtains lt la st where "union_max (map f_type fs) (Some lt) la"
    and "calcLayoutTo E False ((new_struct UnionStruct fa [] [])
        \<lparr>m_fieldArray := [new_field lt 0 False], m_alignment := min la fa\<rparr>) = (None, st)"
    and "u_size u = m_size st" and "u_alignment u = m_alignment st"
proof -
  let ?u = "createUnionType fa fs"
  have u0: "u_fieldArray ?u = fs" "u_structType ?u = new_struct UnionStruct fa [] []"
    by (simp_all add: createUnionType_def)
  obtain lt la u1 st where f: "unionFields 0 (length fs) None 1 ?u = (Inr (Some lt, la), u1)"
    and st: "calcLayoutTo E False ((u_structType u1)
        \<lparr>m_fieldArray := m_fieldArray (u_structType u1) @ [new_field lt 0 False],
         m_alignment := min la (m_fieldAlignment (u_structType u1))\<rparr>) = (None, st)"
    and u: "u_size u = m_size st" "u_alignment u = m_alignment st"
    using assms unfolding union_calcLayout_def u0 Let_def
    by (auto split: if_splits sum.splits prod.splits option.splits)
  have "union_max (map f_type (take 0 (u_fieldArray ?u))) None 1" by (simp add: union_max_def)
  from unionFields_max [OF f _ this] have m: "union_max (map f_type fs) (Some lt) la"
    and s1: "u_structType u1 = new_struct UnionStruct fa [] []"
    by (simp_all add: u0)
  from st have "calcLayoutTo E False ((new_struct UnionStruct fa [] [])
        \<lparr>m_fieldArray := [new_field lt 0 False], m_alignment := min la fa\<rparr>) = (None, st)"
    by (simp add: s1 u0)
  from that [OF m this u] show thesis .
qed

text \<open>C13: a laid out union has room for each of its members and is aligned for each of them, its
  size is a multiple of its alignment and exceeds the largest member by less than the alignment,
  and all members are plain data.\<close>

theorem union_members_fit:
  assumes "align_ok (e_align E)" and "pow2 fa"
    and wf: "\<forall>f\<in>set fs. pow2 (t_alignment (f_type f)) \<and> t_size (f_type f) + fa \<le> 2 ^ 64"
    and r: "union_calcLayout E (createUnionType fa fs) = (None, u)"
  shows "(\<forall>f\<in>set fs. t_pod (f_type f) \<and> t_size (f_type f) \<le> u_size u \<and>
        eff_align fa (f_type f) dvd u_alignment u) \<and>
    u_alignment u dvd u_size u \<and> (\<exists>f\<in>set fs. u_size u < t_size (f_type f) + u_alignment u)"
proof -
  obtain lt la st where m: "union_max (map f_type fs) (Some lt) la"
    and st: "calcLayoutTo E False ((new_struct UnionStruct fa [] [])
        \<lparr>m_fieldArray := [new_field lt 0 False], m_alignment := min la fa\<rparr>) = (None, st)"
    and u: "u_size u = m_size st" "u_alignment u = m_alignment st"
    using r by (rule union_calcLayoutE)
  obtain f0 where f0: "f0 \<in> set fs" "lt = f_type f0" using m by (auto simp: union_max_def)
  obtain i j where ij: "fa = 2 ^ j" "t_alignment lt = 2 ^ i" using wf f0 assms(2) by (auto simp: pow2_def)
  have pla: "pow2 la" using m wf by (auto simp: union_max_def pow2_def intro: exI [of _ 0])
  have "2 ^ i \<le> la" "t_size lt + fa \<le> 2 ^ 64" using m wf f0 ij by (auto simp: union_max_def)
  note L = union_struct_layout [OF assms(1) ij this st]
  obtain n where n: "min la fa = 2 ^ n" using pla ij(1) unfolding min_def pow2_def by metis
  have "t_size lt + min la fa \<le> 2 ^ 64" using \<open>t_size lt + fa \<le> 2 ^ 64\<close> by linarith
  note A = align_okD [OF assms(1) n this, folded L(1)]
  have "eff_align fa (f_type f) dvd min la fa" if "f \<in> set fs" for f
  proof -
    have "pow2 (eff_align fa (f_type f))" using eff_align_pow2 [OF assms(2)] wf that by blast
    then obtain k where k: "eff_align fa (f_type f) = 2 ^ k" by (auto simp: pow2_def)
    have "eff_align fa (f_type f) \<le> min la fa" using m that by (auto simp: union_max_def eff_align_def)
    from pow2_le_dvd [OF k n this] show ?thesis .
  qed
  moreover have "t_pod (f_type f) \<and> t_size (f_type f) \<le> m_size st" if "f \<in> set fs" for f
  proof -
    have "t_pod (f_type f)" "t_size (f_type f) \<le> t_size lt" using m that by (auto simp: union_max_def)
    then show ?thesis using A(2) by (meson le_trans)
  qed
  moreover have "\<exists>f\<in>set fs. m_size st < t_size (f_type f) + min la fa" using f0 A(3) by blast
  ultimately show ?thesis using A(1) unfolding u L(2) by blast
qed

definition union_example :: union_type where
  "union_example = snd (union_calcLayout env_ok
     (createUnionType 8 [new_field ty_int 0 False, new_field (ty_char\<lparr>t_size := 6\<rparr>) 0 False]))"

theorem union_members_fit_witness:
  "u_alignment union_example dvd u_size union_example \<and> u_size union_example = 8"
proof -
  have "union_calcLayout env_ok
     (createUnionType 8 [new_field ty_int 0 False, new_field (ty_char\<lparr>t_size := 6\<rparr>) 0 False]) =
     (None, union_example)"
    unfolding union_example_def
    by (simp add: union_calcLayout_def createUnionType_def unionField_def example_defs layout_defs
        cong: let_weak_cong)
  from union_members_fit [OF env_ok_align _ _ this]
  have "u_alignment union_example dvd u_size union_example" by (simp add: example_defs)
  moreover have "u_size union_example = 8"
    unfolding union_example_def
    by (simp add: union_calcLayout_def createUnionType_def unionField_def example_defs layout_defs
        cong: let_weak_cong)
  ultimately show ?thesis by simp
qed

section \<open>Arrays\<close>

lemma array_calcLayout_shape:
  assumes "array_calcLayout a = Inr t"
  shows "t_size t = fold (\<lambda>n sz. szt (sz * n)) (rev (dims a)) (t_size (rootType a))"
    and "t_alignment t = t_alignment (rootType a)"
    and "t_layout_ok (rootType a)"
  using assms by (induction a arbitrary: t) (auto simp: Let_def split: if_splits sum.splits)

lemma array_size_product:
  assumes "array_calcLayout a = Inr t" and "t_size (rootType a) * prod_list (dims a) < 2 ^ 64"
    and "0 \<notin> set (dims a)"
  shows "t_size t = t_size (rootType a) * prod_list (dims a)"
  using assms
proof (induction a arbitrary: t)
  case (ArrayType e n)
  obtain et where et: "array_calcLayout e = Inr et" and t: "t_size t = szt (t_size et * n)"
    using ArrayType.prems(1) by (auto simp: Let_def split: sum.splits if_splits)
  have "1 \<le> n" using ArrayType.prems(3) by auto
  then have "t_size (rootType e) * prod_list (dims e) * 1 \<le> t_size (rootType e) * prod_list (dims e) * n"
    by (rule mult_le_mono2)
  moreover have "t_size (rootType e) * prod_list (dims e) * n < 2 ^ 64"
    using ArrayType.prems(2) by (simp add: ac_simps)
  ultimately have "t_size (rootType e) * prod_list (dims e) < 2 ^ 64" by linarith
  with ArrayType et have "t_size et = t_size (rootType e) * prod_list (dims e)" by simp
  then show ?case using t ArrayType.prems(2) by (simp add: ac_simps)
qed (auto split: if_splits)

text \<open>The size of a (multi-dimensional) array is the size of the root element type times all
  dimensions when this product fits \<^verbatim>\<open>size_t\<close>; its alignment is that of the root type; it is plain
  data when the root type is, and otherwise a garbage collector root when the root type is one.\<close>

theorem array_layout:
  assumes "array_calcLayout (ArrayType e n) = Inr t"
    and "t_size (rootType e) * prod_list (n # dims e) < 2 ^ 64" and "0 \<notin> set (n # dims e)"
  shows "t_size t = t_size (rootType e) * prod_list (n # dims e) \<and>
    t_alignment t = t_alignment (rootType e) \<and> t_pod t = t_pod (rootType e) \<and>
    t_gcRoot t = (\<not> t_pod (rootType e) \<and> t_gcRoot (rootType e)) \<and>
    (t_noStack t \<longleftrightarrow> t_size t > 128)"
proof -
  have "t_size t = t_size (rootType e) * prod_list (n # dims e)"
    using array_size_product [OF assms(1)] assms(2,3) by simp
  moreover have "t_alignment t = t_alignment (rootType e)"
    using array_calcLayout_shape(2) [OF assms(1)] by simp
  ultimately show ?thesis
    using assms(1) by (auto simp: Let_def stackAllocSizeLimit_def split: sum.splits if_splits)
qed

theorem array_layout_witness:
  "\<exists>t. array_calcLayout (ArrayType (ArrayType (OtherType ty_ptr) 3) 5) = Inr t \<and> t_size t = 240 \<and>
     t_gcRoot t \<and> t_noStack t"
proof -
  obtain t where t: "array_calcLayout (ArrayType (ArrayType (OtherType ty_ptr) 3) 5) = Inr t"
    by (simp add: example_defs Let_def)
  from array_layout [OF t] t show ?thesis by (simp add: example_defs)
qed

text \<open>Nothing checks the product: an array of \<open>2 ^ 32\<close> rows of \<open>2 ^ 32\<close> bytes is laid out
  with size 0.\<close>

theorem array_size_wraps:
  "map_sum id t_size (array_calcLayout (ArrayType (ArrayType (OtherType ty_char) (2 ^ 32)) (2 ^ 32))) = Inr 0"
  by (simp add: example_defs Let_def szt_def)

end
