(* ===== verification/EnumConsts.thy ===== *)
theory EnumConsts
  imports Prelude
begin

text \<open>
  Enumerations (\<^verbatim>\<open>jnc_ct_EnumType.cpp\<close>): how the values of the constants are assigned
  (\<^verbatim>\<open>calcLayout\<close>, \<^verbatim>\<open>findBaseEnumConst\<close>, \<^verbatim>\<open>calcEnumConstValues\<close>,
  \<^verbatim>\<open>calcBitflagEnumConstValues\<close>), the subtype test \<^verbatim>\<open>isBaseType\<close>, and how a value is printed
  (\<^verbatim>\<open>getValueStringEx\<close>). Constants are \<^verbatim>\<open>int64_t\<close>, so 64-bit words. The evaluation of an
  initializer expression is a parameter; so are the bit scans \<^verbatim>\<open>getHiBitIdx64\<close> and
  \<^verbatim>\<open>getLoBit64\<close> of the axl library.
\<close>

section \<open>Data\<close>

record 'i enum_const =
  c_name :: string
  c_initializer :: "'i option"
  c_attributesReady :: bool
  c_value :: "64 word"
  c_valueReady :: bool

text \<open>A type as enums see it: an integer type (signature, size, alignment), another type, or an
  enum with its base type, its constants and the bit flag attribute.\<close>

datatype 'i etype =
    IntType string nat nat
  | NonIntType string
  | EnumType string "'i etype" "'i enum_const list" bool

fun et_signature :: "'i etype \<Rightarrow> string" where
  "et_signature (IntType sg sz al) = sg"
| "et_signature (NonIntType sg) = sg"
| "et_signature (EnumType sg b cs bf) = sg"

fun enumRootType :: "'i etype \<Rightarrow> 'i etype" where
  "enumRootType (EnumType sg b cs bf) = enumRootType b"
| "enumRootType t = t"

section \<open>The subtype test\<close>

fun isBaseType_loop :: "'i etype \<Rightarrow> 'i etype \<Rightarrow> bool" where
  "isBaseType_loop t (EnumType sg b cs bf) = (et_signature t = sg \<or> isBaseType_loop t b)"
| "isBaseType_loop t u = False"

fun isEnum :: "'i etype \<Rightarrow> bool" where
  "isEnum (EnumType sg b cs bf) = True"
| "isEnum t = False"

fun isBaseType :: "'i etype \<Rightarrow> 'i etype \<Rightarrow> bool" where
  "isBaseType (EnumType sg b cs bf) t =
     (if \<not> isEnum b \<or> et_signature (enumRootType t) \<noteq> et_signature (enumRootType b) then False
      else isBaseType_loop t b)"
| "isBaseType u t = False"

section \<open>Values of the constants\<close>

fun findBaseEnumConst :: "'i etype \<Rightarrow> 'i enum_const option" where
  "findBaseEnumConst (EnumType sg b cs bf) = (if cs \<noteq> [] then Some (last cs) else findBaseEnumConst b)"
| "findBaseEnumConst t = None"

text \<open>The state of the two loops: did everything succeed, the constants done so far, and the map
  from values to constants (indices), in which a later constant replaces an earlier one.\<close>

record 'i enum_state =
  s_result :: bool
  s_constList :: "'i enum_const list"
  s_constMap :: "64 word \<Rightarrow> nat option"

text \<open>The body the two loops share. \<open>P\<close> is \<^verbatim>\<open>parseConstIntegerExpression\<close>: on failure the
  value is left as it is.\<close>

definition enumConst ::
  "('i enum_const list \<Rightarrow> 'i \<Rightarrow> 64 word option) \<Rightarrow> 'i enum_const \<Rightarrow> 64 word \<Rightarrow> 'i enum_state
   \<Rightarrow> 64 word \<times> 'i enum_state" where
  "enumConst P c v s =
     (let r1 = (s_result s \<and> c_attributesReady c);
          (v', r2) = (case c_initializer c of
                        None \<Rightarrow> (v, r1)
                      | Some i \<Rightarrow> (case P (s_constList s) i of Some w \<Rightarrow> (w, r1) | None \<Rightarrow> (v, False)));
          c' = c\<lparr>c_value := v', c_valueReady := True\<rparr>
      in (v', \<lparr>s_result = r2, s_constList = s_constList s @ [c'],
               s_constMap = (s_constMap s)(v' \<mapsto> length (s_constList s))\<rparr>))"

fun calcEnumConstValues_loop ::
  "('i enum_const list \<Rightarrow> 'i \<Rightarrow> 64 word option) \<Rightarrow> 'i enum_const list \<Rightarrow> 64 word \<Rightarrow> 'i enum_state
   \<Rightarrow> 'i enum_state" where
  "calcEnumConstValues_loop P [] v s = s"
| "calcEnumConstValues_loop P (c # cs) v s =
     (let (v', s') = enumConst P c v s in calcEnumConstValues_loop P cs (v' + 1) s')"

definition enum_state0 :: "'i enum_state" where
  "enum_state0 = \<lparr>s_result = True, s_constList = [], s_constMap = (\<lambda>_. None)\<rparr>"

definition calcEnumConstValues ::
  "('i enum_const list \<Rightarrow> 'i \<Rightarrow> 64 word option) \<Rightarrow> 'i enum_const option \<Rightarrow> 'i enum_const list
   \<Rightarrow> 'i enum_state" where
  "calcEnumConstValues P baseConst cs =
     calcEnumConstValues_loop P cs (case baseConst of Some b \<Rightarrow> c_value b + 1 | None \<Rightarrow> 0) enum_state0"

text \<open>\<^verbatim>\<open>2 << i\<close> is an \<^verbatim>\<open>int\<close>: at \<open>i = 30\<close> it is the least \<^verbatim>\<open>int\<close>, sign-extended to
  \<^verbatim>\<open>int64_t\<close>; from \<open>i = 31\<close> on the shift is undefined (\<open>None\<close>).\<close>

definition shl2 :: "nat \<Rightarrow> 64 word option" where
  "shl2 i = (if i < 31 then Some (signed_take_bit 31 (push_bit i 2)) else None)"

fun calcBitflag_loop ::
  "('i enum_const list \<Rightarrow> 'i \<Rightarrow> 64 word option) \<Rightarrow> (64 word \<Rightarrow> nat) \<Rightarrow> 'i enum_const list \<Rightarrow> 64 word
   \<Rightarrow> 'i enum_state \<Rightarrow> 'i enum_state option" where
  "calcBitflag_loop P hi [] v s = Some s"
| "calcBitflag_loop P hi (c # cs) v s =
     (let (v', s') = enumConst P c v s
      in case (if v' \<noteq> 0 then shl2 (hi v') else Some 1) of
           None \<Rightarrow> None
         | Some w \<Rightarrow> calcBitflag_loop P hi cs w s')"

definition calcBitflagEnumConstValues ::
  "('i enum_const list \<Rightarrow> 'i \<Rightarrow> 64 word option) \<Rightarrow> (64 word \<Rightarrow> nat) \<Rightarrow> 'i enum_const option
   \<Rightarrow> 'i enum_const list \<Rightarrow> 'i enum_state option" where
  "calcBitflagEnumConstValues P hi baseConst cs =
     (case (case baseConst of Some b \<Rightarrow> shl2 (hi (c_value b)) | None \<Rightarrow> Some 1) of
        None \<Rightarrow> None
      | Some v \<Rightarrow> calcBitflag_loop P hi cs v enum_state0)"

text \<open>\<^verbatim>\<open>EnumType::calcLayout\<close> once the base type and the namespace are ready: the size and
  alignment of the base type, and the constants.\<close>

fun et_size :: "'i etype \<Rightarrow> nat" where
  "et_size (IntType sg sz al) = sz"
| "et_size (NonIntType sg) = 0"
| "et_size (EnumType sg b cs bf) = et_size b"

fun et_integer :: "'i etype \<Rightarrow> bool" where
  "et_integer (NonIntType sg) = False"
| "et_integer t = True"

datatype 'i enum_layout = InvalidBase | Undefined | Layout nat "'i enum_state"

fun enum_calcLayout ::
  "('i enum_const list \<Rightarrow> 'i \<Rightarrow> 64 word option) \<Rightarrow> (64 word \<Rightarrow> nat) \<Rightarrow> 'i etype \<Rightarrow> 'i enum_const list
   \<Rightarrow> bool \<Rightarrow> 'i enum_layout" where
  "enum_calcLayout P hi b cs bitFlag =
     (if \<not> et_integer b then InvalidBase
      else if bitFlag then
        (case calcBitflagEnumConstValues P hi (findBaseEnumConst b) cs of
           None \<Rightarrow> Undefined
         | Some s \<Rightarrow> Layout (et_size b) s)
      else Layout (et_size b) (calcEnumConstValues P (findBaseEnumConst b) cs))"

section \<open>Printing\<close>

definition findConst :: "'i enum_state \<Rightarrow> 64 word \<Rightarrow> 'i enum_const option" where
  "findConst s v = map_option (\<lambda>i. s_constList s ! i) (s_constMap s v)"

text \<open>The loop over the flags of a bit flag enum. It ends when no flag is left; the fuel is the
  number of bits of an \<^verbatim>\<open>int64_t\<close>.\<close>

fun flagLoop ::
  "(64 word \<Rightarrow> 64 word) \<Rightarrow> 'i enum_state \<Rightarrow> nat \<Rightarrow> 64 word \<Rightarrow> 64 word \<Rightarrow> string
   \<Rightarrow> (64 word \<times> string) option" where
  "flagLoop lo s fuel n unnamed str =
     (if n = 0 then Some (unnamed, str)
      else if lo n = 0 then Some (unnamed, str)
      else
        (case fuel of
           0 \<Rightarrow> None
         | Suc k \<Rightarrow>
             (let flag = lo n; n' = n AND NOT flag
              in case findConst s flag of
                   None \<Rightarrow> flagLoop lo s k n' (unnamed OR flag) str
                 | Some c \<Rightarrow> flagLoop lo s k n' unnamed ((if str = [] then [] else str @ '', '') @ c_name c))))"

declare flagLoop.simps [simp del]

text \<open>\<open>V\<close> is \<^verbatim>\<open>m_baseType->getValueString\<close> on a value, with the format it is given.
  \<^verbatim>\<open>memcpy\<close> reads \<open>sz\<close> bytes of the value into a zeroed \<^verbatim>\<open>int64_t\<close>.\<close>

definition getValueStringEx ::
  "(64 word \<Rightarrow> 64 word) \<Rightarrow> (64 word \<Rightarrow> string \<Rightarrow> string) \<Rightarrow> 'i enum_state \<Rightarrow> nat \<Rightarrow> bool \<Rightarrow> string
   \<Rightarrow> 64 word \<Rightarrow> string \<Rightarrow> string option" where
  "getValueStringEx lo V s sz bitFlag separator p formatSpec =
     (let n = take_bit (8 * sz) p
      in if \<not> bitFlag then
           (case findConst s n of
              None \<Rightarrow> Some (V p formatSpec)
            | Some c \<Rightarrow> Some (if separator = [] then c_name c
                               else V p formatSpec @ separator @ c_name c))
         else
           (case flagLoop lo s 64 n 0 [] of
              None \<Rightarrow> None
            | Some (unnamed, named) \<Rightarrow>
                (let spec = (if formatSpec = [] then ''0x%X'' else formatSpec)
                 in if named = [] then Some (V p spec)
                    else
                      (let str = (if separator = [] then named else V p spec @ separator @ named)
                       in Some (if unnamed \<noteq> 0 then str @ '', '' @ V unnamed spec else str)))))"

section \<open>Lemmas on the loops\<close>

text \<open>The map finds the last constant with a value.\<close>

definition cmap_ok :: "'i enum_state \<Rightarrow> bool" where
  "cmap_ok s \<longleftrightarrow>
     (\<forall>v i. s_constMap s v = Some i \<longrightarrow>
        i < length (s_constList s) \<and> c_value (s_constList s ! i) = v \<and>
        (\<forall>j. i < j \<and> j < length (s_constList s) \<longrightarrow> c_value (s_constList s ! j) \<noteq> v)) \<and>
     (\<forall>i < length (s_constList s). s_constMap s (c_value (s_constList s ! i)) \<noteq> None)"

lemma cmap_ok_state0: "cmap_ok enum_state0"
  by (simp add: cmap_ok_def enum_state0_def)

lemma enumConst_list:
  assumes "enumConst P c v s = (v', s')"
  shows "s_constList s' = s_constList s @ [c\<lparr>c_value := v', c_valueReady := True\<rparr>]"
    and "s_constMap s' = (s_constMap s)(v' \<mapsto> length (s_constList s))"
    and "c_initializer c = None \<Longrightarrow> v' = v \<and> s_result s' = (s_result s \<and> c_attributesReady c)"
  using assms by (auto simp: enumConst_def Let_def split: option.splits prod.splits)

lemma enumConst_cmap:
  assumes "enumConst P c v s = (v', s')" and "cmap_ok s"
  shows "cmap_ok s'"
proof -
  note L = enumConst_list(1,2) [OF assms(1)]
  show ?thesis
    using assms(2) unfolding cmap_ok_def L
    by (auto simp: nth_append less_Suc_eq split: if_splits)
qed

text \<open>What the value of an implicit constant is: the successor \<open>nx\<close> of the one before.\<close>

definition implicit_ok :: "(64 word \<Rightarrow> 64 word) \<Rightarrow> 64 word \<Rightarrow> 'i enum_const list \<Rightarrow> bool" where
  "implicit_ok nx v0 cs \<longleftrightarrow>
     (\<forall>i < length cs. c_valueReady (cs ! i) \<and>
        (c_initializer (cs ! i) = None \<longrightarrow>
           c_value (cs ! i) = (if i = 0 then v0 else nx (c_value (cs ! (i - 1))))))"

lemma implicit_ok_snoc:
  assumes "implicit_ok nx v0 cs" and "c_valueReady c"
    and "c_initializer c = None \<Longrightarrow> c_value c = (if cs = [] then v0 else nx (c_value (last cs)))"
  shows "implicit_ok nx v0 (cs @ [c])"
  using assms unfolding implicit_ok_def
  by (auto simp: nth_append less_Suc_eq last_conv_nth)

text \<open>The value of a constant with an initializer: what the initializer evaluates to among the constants
  before it.\<close>

definition explicit_ok :: "('i enum_const list \<Rightarrow> 'i \<Rightarrow> 64 word option) \<Rightarrow> 'i enum_const list \<Rightarrow> bool" where
  "explicit_ok P cs \<longleftrightarrow>
     (\<forall>i < length cs. \<forall>e w. c_initializer (cs ! i) = Some e \<longrightarrow> P (take i cs) e = Some w \<longrightarrow> c_value (cs ! i) = w)"

lemma enumConst_explicit:
  assumes "enumConst P c v s = (v', s')" and "explicit_ok P (s_constList s)"
  shows "explicit_ok P (s_constList s')"
proof -
  have "c_initializer c = Some e \<Longrightarrow> P (s_constList s) e = Some w \<Longrightarrow> v' = w" for e w
    using assms(1) by (auto simp: enumConst_def Let_def split: option.splits prod.splits)
  then show ?thesis
    using assms(2) unfolding enumConst_list(1) [OF assms(1)] explicit_ok_def
    by (auto simp: nth_append less_Suc_eq)
qed

lemma calcEnumConstValues_loop_explicit:
  "explicit_ok P (s_constList s) \<Longrightarrow> explicit_ok P (s_constList (calcEnumConstValues_loop P cs v s))"
proof (induction cs arbitrary: v s)
  case (Cons c cs)
  obtain v' s' where e: "enumConst P c v s = (v', s')" by fastforce
  show ?case using Cons.IH [OF enumConst_explicit [OF e Cons.prems], of "v' + 1"] e by simp
qed simp

lemma enumConst_step:
  assumes e: "enumConst P c v s = (v', s')" and "implicit_ok nx v0 (s_constList s)" and "cmap_ok s"
    and v: "v = (if s_constList s = [] then v0 else nx (c_value (last (s_constList s))))"
  shows "implicit_ok nx v0 (s_constList s')" and "cmap_ok s'" and "c_value (last (s_constList s')) = v'"
    and "s_constList s' \<noteq> []"
    and "map c_name (s_constList s') = map c_name (s_constList s) @ [c_name c]"
    and "map c_initializer (s_constList s') = map c_initializer (s_constList s) @ [c_initializer c]"
proof -
  note L = enumConst_list [OF e]
  show "implicit_ok nx v0 (s_constList s')"
    unfolding L(1) by (rule implicit_ok_snoc [OF assms(2)]) (use L(3) v in auto)
  show "cmap_ok s'" using enumConst_cmap [OF e assms(3)] .
qed (simp_all add: enumConst_list(1) [OF e])

lemma calcEnumConstValues_loop_ok:
  assumes "implicit_ok (\<lambda>w. w + 1) v0 (s_constList s)" and "cmap_ok s"
    and "v = (if s_constList s = [] then v0 else c_value (last (s_constList s)) + 1)"
    and "r = calcEnumConstValues_loop P cs v s"
  shows "implicit_ok (\<lambda>w. w + 1) v0 (s_constList r) \<and> cmap_ok r \<and>
    map c_name (s_constList r) = map c_name (s_constList s @ cs) \<and>
    map c_initializer (s_constList r) = map c_initializer (s_constList s @ cs)"
  using assms
proof (induction cs arbitrary: v s)
  case (Cons c cs)
  obtain v' s' where e: "enumConst P c v s = (v', s')" by fastforce
  note S = enumConst_step [OF e Cons.prems(1-3)]
  show ?case
    using Cons.IH [OF S(1,2), of "v' + 1"] S(3-6) Cons.prems(4) e by simp
qed simp

lemma calcBitflag_loop_ok:
  fixes nx :: "64 word \<Rightarrow> 64 word"
  assumes "implicit_ok nx v0 (s_constList s)" and "cmap_ok s"
    and "v = (if s_constList s = [] then v0 else nx (c_value (last (s_constList s))))"
    and "\<And>w. nx w = the (if w \<noteq> 0 then shl2 (hi w) else Some 1)"
    and "calcBitflag_loop P hi cs v s = Some r"
  shows "implicit_ok nx v0 (s_constList r) \<and> cmap_ok r \<and>
    map c_name (s_constList r) = map c_name (s_constList s @ cs) \<and>
    map c_initializer (s_constList r) = map c_initializer (s_constList s @ cs)"
  using assms
proof (induction cs arbitrary: v s)
  case (Cons c cs)
  obtain v' s' where e: "enumConst P c v s = (v', s')" by fastforce
  note S = enumConst_step [OF e Cons.prems(1-3)]
  obtain w where w: "(if v' \<noteq> 0 then shl2 (hi v') else Some 1) = Some w"
    and r: "calcBitflag_loop P hi cs w s' = Some r"
    using Cons.prems(5) e by (auto split: option.splits)
  have "w = nx v'" unfolding Cons.prems(4) w by simp
  then have "w = (if s_constList s' = [] then v0 else nx (c_value (last (s_constList s'))))"
    using S(3,4) by simp
  from Cons.IH [OF S(1,2) this Cons.prems(4) r] S(5,6) show ?case by simp
qed simp

text \<open>The constants an enum inherits from its base enums, those of the outermost base first.\<close>

fun inherited :: "'i etype \<Rightarrow> 'i enum_const list" where
  "inherited (EnumType sg b cs bf) = inherited b @ cs"
| "inherited t = []"

lemma findBaseEnumConst_last: "findBaseEnumConst b = (if inherited b = [] then None else Some (last (inherited b)))"
  by (induction b) auto

text \<open>C32: the constants of an enum get values as in C: one without an initializer is the
  predecessor plus one, the first one goes on from the last constant that the enum inherits and is 0 when
  there is none; one with an initializer has the value of the initializer among those before it. Looking a value
  up finds the last constant that has it, and finds one whenever there is one.\<close>

theorem enum_values:
  fixes P :: "'i enum_const list \<Rightarrow> 'i \<Rightarrow> 64 word option"
  assumes "et_integer b"
  shows "\<exists>r. enum_calcLayout P hi b cs False = Layout (et_size b) r \<and>
    map c_name (s_constList r) = map c_name cs \<and> map c_initializer (s_constList r) = map c_initializer cs \<and>
    implicit_ok (\<lambda>w. w + 1) (if inherited b = [] then 0 else c_value (last (inherited b)) + 1) (s_constList r) \<and>
    explicit_ok P (s_constList r) \<and> cmap_ok r"
proof -
  have e: "s_constList (enum_state0 :: 'i enum_state) = []" by (simp add: enum_state0_def)
  let ?v = "if inherited b = [] then 0 else c_value (last (inherited b)) + 1"
  let ?r = "calcEnumConstValues_loop P cs ?v enum_state0"
  have "implicit_ok (\<lambda>w. w + 1) ?v (s_constList ?r) \<and> cmap_ok ?r \<and> map c_name (s_constList ?r) = map c_name cs \<and>
      map c_initializer (s_constList ?r) = map c_initializer cs"
    using calcEnumConstValues_loop_ok [OF _ cmap_ok_state0 _ refl, where v0 = ?v and v = ?v and cs = cs and P = P] e
    by (simp add: implicit_ok_def)
  moreover have "explicit_ok P (s_constList ?r)"
    by (rule calcEnumConstValues_loop_explicit) (simp add: e explicit_ok_def)
  moreover have "enum_calcLayout P hi b cs False = Layout (et_size b) ?r"
    using assms by (auto simp: calcEnumConstValues_def findBaseEnumConst_last)
  ultimately show ?thesis by blast
qed

text \<open>The constants \<open>A\<close> and \<open>B = A\<close> of an enum whose base enum ends with 6.\<close>

definition plain_base :: "string etype" where
  "plain_base = EnumType ''Base'' (IntType ''i'' 4 4)
     [\<lparr>c_name = ''Z'', c_initializer = Some ''6'', c_attributesReady = True, c_value = 6, c_valueReady = True\<rparr>] False"

definition plain_consts :: "string enum_const list" where
  "plain_consts =
     [\<lparr>c_name = ''A'', c_initializer = None, c_attributesReady = True, c_value = 0, c_valueReady = False\<rparr>,
      \<lparr>c_name = ''B'', c_initializer = Some ''A'', c_attributesReady = True, c_value = 0, c_valueReady = False\<rparr>]"

definition plain_parser :: "string enum_const list \<Rightarrow> string \<Rightarrow> 64 word option" where
  "plain_parser ds e = map_option c_value (find (\<lambda>c. c_name c = e) ds)"

theorem enum_values_witness:
  "\<exists>r. enum_calcLayout plain_parser (\<lambda>w. 0) plain_base plain_consts False = Layout 4 r \<and>
     map c_name (s_constList r) = [''A'', ''B''] \<and> implicit_ok (\<lambda>w. w + 1) 7 (s_constList r)"
  using enum_values [of plain_base plain_parser "\<lambda>w. 0" plain_consts] by (auto simp: plain_base_def plain_consts_def)

section \<open>Bit flags\<close>

text \<open>The documented behaviour of the scan for the highest bit, on a value that is not zero.\<close>

definition hi_ok :: "(64 word \<Rightarrow> nat) \<Rightarrow> bool" where
  "hi_ok hi \<longleftrightarrow> (\<forall>w. w \<noteq> 0 \<longrightarrow> bit w (hi w) \<and> (\<forall>j > hi w. \<not> bit w j))"

lemma hi_okI:
  assumes "hi_ok hi" and "bit w i" and "\<forall>j > i. \<not> bit w j"
  shows "hi w = i"
proof -
  have "w \<noteq> 0" using assms(2) by auto
  with assms(1) have "bit w (hi w)" "\<forall>j > hi w. \<not> bit w j" by (auto simp: hi_ok_def)
  with assms(2,3) show ?thesis by (meson linorder_neqE_nat)
qed

lemma shl2_pow: "i < 30 \<Longrightarrow> shl2 i = Some (push_bit (Suc i) 1)"
proof -
  assume "i < 30"
  then have "signed_take_bit 31 (push_bit i 2 :: 64 word) = push_bit (Suc i) 1"
    by (intro bit_word_eqI) (auto simp: bit_simps)
  with \<open>i < 30\<close> show ?thesis by (simp add: shl2_def)
qed

lemma hi_push: "hi_ok hi \<Longrightarrow> i < 64 \<Longrightarrow> hi (push_bit i 1) = i"
  by (rule hi_okI) (auto simp: bit_simps)

lemma push_nonzero: "i < 64 \<Longrightarrow> push_bit i (1 :: 64 word) \<noteq> 0"
  by simp

lemma calcBitflag_implicit:
  assumes "hi_ok hi" and "\<forall>c\<in>set cs. c_initializer c = None" and "k + length cs \<le> 31"
  shows "\<exists>r. calcBitflag_loop P hi cs (push_bit k 1) s = Some r \<and>
    map c_value (s_constList r) = map c_value (s_constList s) @ map (\<lambda>i. push_bit i 1) [k..<k + length cs]"
  using assms(2,3)
proof (induction cs arbitrary: k s)
  case (Cons c cs)
  obtain v s' where e: "enumConst P c (push_bit k 1) s = (v, s')" by fastforce
  note L = enumConst_list [OF e]
  have v: "v = push_bit k 1" using L(3) Cons.prems(1) by simp
  have k: "k < 31" using Cons.prems(2) by simp
  have nz: "v \<noteq> 0" and h: "hi v = k" using k push_nonzero hi_push [OF assms(1)] by (simp_all add: v)
  show ?case
  proof (cases "k < 30")
    case True
    then show ?thesis
      using Cons.IH [of "Suc k" s'] Cons.prems e nz h by (auto simp: shl2_pow L(1) v upt_rec)
  next
    case False
    then have "k = 30" "length cs = 0" using Cons.prems(2) by (simp_all del: length_0_conv)
    then show ?thesis using e nz h by (simp add: shl2_def L(1) v)
  qed
qed simp

lemma calcBitflag_overflow:
  assumes "hi_ok hi" and "\<forall>c\<in>set cs. c_initializer c = None" and "k \<le> 30" and "k + length cs \<ge> 32"
  shows "calcBitflag_loop P hi cs (push_bit k 1) s = None"
  using assms(2-)
proof (induction cs arbitrary: k s)
  case (Cons c cs)
  obtain v s' where e: "enumConst P c (push_bit k 1) s = (v, s')" by fastforce
  have v: "v = push_bit k 1" using enumConst_list(3) [OF e] Cons.prems(1) by simp
  have k: "k < 64" using Cons.prems(2) by simp
  note kv = hi_push [OF assms(1) k] push_nonzero [OF k]
  show ?case
  proof (cases "k < 30")
    case True
    then show ?thesis using Cons.IH [of "Suc k" s'] Cons.prems e kv by (simp add: shl2_pow v)
  next
    case False
    then have k30: "k = 30" using Cons.prems(2) by simp
    let ?w = "signed_take_bit 31 (push_bit 30 2) :: 64 word"
    obtain d ds where ds: "cs = d # ds" using Cons.prems(3) k30 by (cases cs) auto
    obtain v2 s2 where e2: "enumConst P d ?w s' = (v2, s2)" by fastforce
    have v2: "v2 = ?w" using enumConst_list(3) [OF e2] Cons.prems(1) by (simp add: ds)
    have b: "bit ?w 63" "\<forall>j > 63. \<not> bit ?w j" by (auto simp: bit_simps)
    then have "hi ?w = 63" "?w \<noteq> 0" using hi_okI [OF assms(1) b] by auto
    then show ?thesis using e e2 kv by (simp add: k30 v ds v2 shl2_def)
  qed
qed simp

text \<open>Up to 31 bit flag constants without initializers are the powers of two, from bit 0 on.\<close>

theorem bitflag_values:
  assumes "hi_ok hi" and "\<forall>c\<in>set cs. c_initializer c = None" and "length cs \<le> 31"
  shows "\<exists>r. calcBitflagEnumConstValues P hi None cs = Some r \<and>
    map c_value (s_constList r) = map (\<lambda>i. push_bit i 1) [0..<length cs]"
  using calcBitflag_implicit [OF assms(1,2), of 0 P enum_state0] assms(3)
  by (simp add: calcBitflagEnumConstValues_def) (simp add: enum_state0_def)

definition hi_bit :: "64 word \<Rightarrow> nat" where
  "hi_bit w = (case find (bit w) (rev [0..<64]) of Some i \<Rightarrow> i | None \<Rightarrow> 0)"

lemma hi_bit_ok: "hi_ok hi_bit"
  unfolding hi_ok_def
proof (intro allI impI)
  fix w :: "64 word"
  assume "w \<noteq> 0"
  then obtain j where j: "bit w j" by (auto simp: bit_eq_iff)
  then have "j < 64" using bit_imp_le_length by fastforce
  have "find (bit w) (rev [0..<64]) \<noteq> None" using j \<open>j < 64\<close> by (auto simp: find_None_iff)
  then obtain i where f: "find (bit w) (rev [0..<64]) = Some i" by blast
  then obtain m where m: "m < 64" "bit w (rev [0..<64] ! m)" "i = rev [0..<64] ! m"
    "\<forall>l < m. \<not> bit w (rev [0..<64] ! l)"
    by (auto simp: find_Some_iff)
  have i: "i = 63 - m" using m(1,3) by (simp add: rev_nth)
  have "\<not> bit w l" if "i < l" for l
  proof (cases "l < 64")
    case True
    then have "63 - l < m" "rev [0..<64] ! (63 - l) = l" using that i m(1) by (auto simp: rev_nth)
    then show ?thesis using m(4) by metis
  next
    case False
    then show ?thesis using bit_imp_le_length by fastforce
  qed
  then show "bit w (hi_bit w) \<and> (\<forall>j > hi_bit w. \<not> bit w j)" using m(2,3) by (simp add: hi_bit_def f)
qed

definition plain_const :: "string \<Rightarrow> 'i enum_const" where
  "plain_const s = \<lparr>c_name = s, c_initializer = None, c_attributesReady = True, c_value = 0,
     c_valueReady = False\<rparr>"

theorem bitflag_values_witness:
  "\<exists>r. calcBitflagEnumConstValues (\<lambda>cs i. Some (of_nat i)) hi_bit None
        [plain_const ''A'', plain_const ''B'', plain_const ''C''] = Some r \<and>
     map c_value (s_constList r) = [1, 2, 4]"
  using bitflag_values [OF hi_bit_ok, of "[plain_const ''A'', plain_const ''B'', plain_const ''C'']"
      "\<lambda>cs i. Some (of_nat i)"]
  by (simp add: plain_const_def upt_rec push_bit_eq_mult)

text \<open>A 32nd flag without an initializer is not computed by the code: the value is shifted as
  an \<^verbatim>\<open>int\<close>, which turns bit 31 into a negative number and leaves the shift after it undefined.\<close>

theorem bitflag_overflow:
  assumes "hi_ok hi" and "\<forall>c\<in>set cs. c_initializer c = None" and "32 \<le> length cs"
  shows "calcBitflagEnumConstValues P hi None cs = None"
  using calcBitflag_overflow [OF assms(1,2), of 0 P enum_state0] assms(3)
  by (simp add: calcBitflagEnumConstValues_def)

theorem bitflag_overflow_witness:
  "calcBitflagEnumConstValues (\<lambda>cs (i::nat). None) hi_bit None (replicate 32 (plain_const ''F'')) = None"
  using bitflag_overflow [OF hi_bit_ok, of "replicate 32 (plain_const ''F'')" "\<lambda>cs (i::nat). None"]
  by (simp add: plain_const_def)

section \<open>Printing and the subtype test\<close>

text \<open>The flags of a value from the lowest bit on, and how the names are joined.\<close>

definition joinFlag :: "'i enum_state \<Rightarrow> string \<Rightarrow> nat \<Rightarrow> string" where
  "joinFlag s str i =
     (case findConst s (push_bit i 1) of
        None \<Rightarrow> str
      | Some c \<Rightarrow> (if str = [] then [] else str @ '', '') @ c_name c)"

lemma flagLoop_ok:
  assumes "lo_ok lo" and "length (filter (bit n) [0..<64]) \<le> fuel"
  shows "\<exists>u. flagLoop lo s fuel n un str = Some (u, foldl (joinFlag s) str (filter (bit n) [0..<64])) \<and>
    (\<forall>i. bit u i \<longleftrightarrow> bit un i \<or> bit n i \<and> findConst s (push_bit i 1) = None)"
  using assms(2)
proof (induction fuel arbitrary: n un str)
  case 0
  then have "\<not> bit n i" for i
    using bit_imp_le_length by (fastforce simp: filter_empty_conv)
  then have "n = 0" by (simp add: bit_eq_iff)
  then show ?case by (simp add: flagLoop.simps)
next
  case (Suc k)
  show ?case
  proof (cases "n = 0")
    case False
    then obtain i where i: "bit n i" "\<forall>j < i. \<not> bit n j" and lo: "lo n = push_bit i 1"
      using assms(1) by (auto simp: lo_ok_def)
    have i64: "i < 64" using i(1) bit_imp_le_length by fastforce
    let ?n = "n AND NOT (push_bit i 1)"
    let ?un = "if findConst s (push_bit i 1) = None then un OR push_bit i 1 else un"
    note f = filter_lowest_bit [OF i, simplified]
    have step: "flagLoop lo s (Suc k) n un str = flagLoop lo s k ?n ?un (joinFlag s str i)"
      using False i64 by (subst flagLoop.simps) (simp add: lo Let_def joinFlag_def split: option.split)
    have "length (filter (bit ?n) [0..<64]) \<le> k" using Suc.prems by (simp add: f)
    from Suc.IH [OF this, of ?un "joinFlag s str i"] obtain u where
      u: "flagLoop lo s k ?n ?un (joinFlag s str i) =
            Some (u, foldl (joinFlag s) (joinFlag s str i) (filter (bit ?n) [0..<64]))"
      and b: "\<forall>j. bit u j \<longleftrightarrow> bit ?un j \<or> bit ?n j \<and> findConst s (push_bit j 1) = None"
      by blast
    have "bit u j \<longleftrightarrow> bit un j \<or> bit n j \<and> findConst s (push_bit j 1) = None" for j
      using b i i64 bit_imp_le_length [of n j] by (cases "j = i") (auto simp: bit_simps)
    then show ?thesis using u by (simp add: step f)
  qed (simp add: flagLoop.simps)
qed

text \<open>C33: printing a bit flag value ends, names every flag of the value that has a constant, from
  the lowest bit on, and keeps exactly the flags without a constant as a number.\<close>

theorem bitflag_string:
  assumes "lo_ok lo"
  shows "\<exists>u. flagLoop lo s 64 n 0 [] = Some (u, foldl (joinFlag s) [] (filter (bit n) [0..<64])) \<and>
    (\<forall>i. bit u i \<longleftrightarrow> bit n i \<and> findConst s (push_bit i 1) = None)"
proof -
  have "length (filter (bit n) [0..<64]) \<le> 64" using length_filter_le [of "bit n" "[0..<64]"] by simp
  from flagLoop_ok [OF assms this, of s 0 "[]"] show ?thesis by simp
qed

definition flag_example :: "64 word enum_state" where
  "flag_example = calcEnumConstValues (\<lambda>cs i. Some i) None [(plain_const ''A'')\<lparr>c_initializer := Some 4\<rparr>]"

lemma flag_example_bits: "filter (bit (6 :: 64 word)) [0..<64] = [1, 2]"
  by code_simp

theorem bitflag_string_witness:
  "\<exists>u. flagLoop lo_bit flag_example 64 6 0 [] = Some (u, ''A'') \<and> bit u 1 \<and> \<not> bit u 2"
  using bitflag_string [OF lo_bit_ok, of flag_example 6]
  by (auto simp: flag_example_bits joinFlag_def findConst_def flag_example_def calcEnumConstValues_def
      enumConst_def enum_state0_def plain_const_def Let_def push_bit_eq_mult)

text \<open>A negative constant of an enum over a type of less than eight bytes is not found when a
  value is printed: the constant is sign-extended, the value zero-extended.\<close>

theorem negative_enum_not_named:
  "getValueStringEx lo V (calcEnumConstValues (\<lambda>cs i. Some i) None [c\<lparr>c_initializer := Some (- 1)\<rparr>])
     4 False [] (- 1) [] = Some (V (- 1) [])"
  by (simp add: getValueStringEx_def calcEnumConstValues_def enumConst_def enum_state0_def findConst_def
      Let_def mask_eq_exp_minus_1)

fun ancestors :: "'i etype \<Rightarrow> 'i etype list" where
  "ancestors (EnumType sg b cs bf) = (if isEnum b then b # ancestors b else [])"
| "ancestors t = []"

lemma isBaseType_loop_ancestors:
  assumes "\<forall>a\<in>set (ancestors u). et_signature t = et_signature a \<longrightarrow> t = a" and "u = EnumType sg b cs bf"
  shows "isBaseType_loop t b \<longleftrightarrow> t \<in> set (ancestors u)"
  using assms
proof (induction b arbitrary: u sg cs bf)
  case (EnumType sg' b' cs' bf')
  then show ?case by (cases b') auto
qed auto

lemma ancestors_root: "a \<in> set (ancestors u) \<Longrightarrow> enumRootType a = enumRootType u"
proof (induction u)
  case (EnumType sg b cs bf)
  then show ?case by (auto split: if_splits)
qed auto

text \<open>The subtype test of enums finds exactly the proper base enums, so its early exit by the
  root type changes nothing (types are compared by signature, which is assumed to tell the type
  apart from the base enums).\<close>

theorem isBaseType_ancestors:
  assumes "\<forall>a\<in>set (ancestors u). et_signature t = et_signature a \<longrightarrow> t = a"
  shows "isBaseType u t \<longleftrightarrow> t \<in> set (ancestors u)"
proof (cases u)
  case (EnumType sg b cs bf)
  have "isBaseType_loop t b \<longleftrightarrow> t \<in> set (ancestors u)"
    using isBaseType_loop_ancestors [OF assms EnumType] .
  moreover have "t \<in> set (ancestors u) \<Longrightarrow> isEnum b \<and> enumRootType t = enumRootType b"
    using ancestors_root [of t u] EnumType by (auto split: if_splits)
  moreover have "isBaseType u t \<longleftrightarrow> isEnum b \<and> et_signature (enumRootType t) = et_signature (enumRootType b) \<and>
      isBaseType_loop t b"
    by (auto simp: EnumType)
  ultimately show ?thesis by metis
qed simp_all

theorem isBaseType_ancestors_witness:
  "isBaseType (EnumType ''Ec$'' (EnumType ''Eb$'' (EnumType ''Ea$'' (IntType ''i'' 4 4) [] False) [] False) [] False)
     (EnumType ''Ea$'' (IntType ''i'' 4 4) [] False :: nat etype)"
  using isBaseType_ancestors [of
      "EnumType ''Ec$'' (EnumType ''Eb$'' (EnumType ''Ea$'' (IntType ''i'' 4 4) [] False) [] False) [] False"
      "EnumType ''Ea$'' (IntType ''i'' 4 4) [] False :: nat etype"]
  by simp

end
