(* ===== verification/TypeSignature.thy ===== *)
theory TypeSignature
  imports Prelude
begin

text \<open>
  The signatures by which the compiler identifies types: \<^verbatim>\<open>Type::isEqual\<close> compares them, and
  \<^verbatim>\<open>TypeMgr\<close> keeps derived types in a map with the signature as key (\<^verbatim>\<open>jnc_ct_TypeMgr\<close>:
  \<^verbatim>\<open>DataPtrType\<close>, \<^verbatim>\<open>ClassPtrType\<close>, \<^verbatim>\<open>FunctionPtrType\<close>, \<^verbatim>\<open>PropertyPtrType\<close>, \<^verbatim>\<open>ArrayType\<close>,
  \<^verbatim>\<open>FunctionType\<close>, \<^verbatim>\<open>PropertyType\<close>, \<^verbatim>\<open>NamedType\<close>). The bit scans of axl are the parameters
  \<open>lo\<close> (\<^verbatim>\<open>getLoBit\<close>) and \<open>ix\<close> (\<^verbatim>\<open>getLoBitIdx16\<close>).
\<close>

section \<open>Types\<close>

datatype prim_kind =
    Void | Variant | StringT | Bool1 | Bool8 | Int8 | Int8_u | Int16 | Int16_u | Int32 | Int32_u
  | Int64 | Int64_u | Float | Double

datatype named_kind = EnumK | StructK | UnionK | ClassK

datatype ptr_kind = DataPtrK | ClassPtrK | FunctionPtrK | PropertyPtrK

datatype call_conv =
    CC_Undefined | Jnccall_msc32 | Jnccall_msc64 | Jnccall_gcc32 | Jnccall_gcc64 | Jnccall_arm32
  | Jnccall_arm64 | Cdecl_msc32 | Cdecl_msc64 | Cdecl_gcc32 | Cdecl_gcc64 | Cdecl_arm32
  | Cdecl_arm64 | Stdcall_msc32 | Stdcall_gcc32 | Thiscall_msc32

text \<open>A pointer or reference (\<open>True\<close>) with its flags, the bit range of a pointer to a bit field
  (offset and count; count 0 for none) and its target; a function with its flags, calling
  convention, return type and arguments (\<open>True\<close> marks the \<^verbatim>\<open>this\<close> argument); a property with
  its bindable flag, getter and setters.\<close>

datatype jty =
    PrimT prim_kind
  | ArrayT jty nat
  | NamedT named_kind string
  | PtrT ptr_kind bool "32 word" nat nat jty
  | FunctionT "32 word" call_conv jty "(bool \<times> jty) list"
  | PropertyT bool jty "jty list"

section \<open>Flags\<close>

definition PtrTypeFlag_All :: "32 word" where
  "PtrTypeFlag_All = 0x7fff0000"

definition PtrTypeFlag_PtrKindMask :: "32 word" where
  "PtrTypeFlag_PtrKindMask = 0x00300000"

definition PtrTypeFlag_ConstKindMask :: "32 word" where
  "PtrTypeFlag_ConstKindMask = 0x000f0000"

definition getPtrTypeFlagSignature :: "(16 word \<Rightarrow> nat) \<Rightarrow> 32 word \<Rightarrow> char" where
  "getPtrTypeFlagSignature ix flag = ''vsedbanfh'' ! ix (ucast (drop_bit 22 flag))"

definition getConstKindSignature :: "32 word \<Rightarrow> char" where
  "getConstKindSignature constKind = ''wcmxyur'' ! unat (drop_bit 16 constKind)"

text \<open>The loop takes the flags one by one; it runs at most once per bit.\<close>

fun flagSignatureLoop ::
  "(32 word \<Rightarrow> 32 word) \<Rightarrow> (16 word \<Rightarrow> nat) \<Rightarrow> nat \<Rightarrow> 32 word \<Rightarrow> string \<Rightarrow> string option" where
  "flagSignatureLoop lo ix fuel flags str =
     (if flags = 0 then Some str
      else
        (case fuel of
           0 \<Rightarrow> None
         | Suc k \<Rightarrow>
             (let flag = lo flags
              in flagSignatureLoop lo ix k (flags AND NOT flag) (str @ [getPtrTypeFlagSignature ix flag]))))"

declare flagSignatureLoop.simps [simp del]

definition appendPtrTypeFlagSignature ::
  "(32 word \<Rightarrow> 32 word) \<Rightarrow> (16 word \<Rightarrow> nat) \<Rightarrow> 32 word \<Rightarrow> string option" where
  "appendPtrTypeFlagSignature lo ix flags =
     (let f1 = flags AND (PtrTypeFlag_All AND NOT PtrTypeFlag_PtrKindMask);
          constKind = f1 AND PtrTypeFlag_ConstKindMask;
          f2 = f1 AND NOT PtrTypeFlag_ConstKindMask
      in map_option (\<lambda>str. if constKind \<noteq> 0 then str @ [getConstKindSignature constKind] else str)
           (flagSignatureLoop lo ix 32 f2 []))"

section \<open>Signatures\<close>

fun prim_signature :: "prim_kind \<Rightarrow> string" where
  "prim_signature Void = ''v''"
| "prim_signature Variant = ''z''"
| "prim_signature StringT = ''s''"
| "prim_signature Bool1 = ''j''"
| "prim_signature Bool8 = ''b''"
| "prim_signature Int8 = ''c''"
| "prim_signature Int8_u = ''y''"
| "prim_signature Int16 = ''h''"
| "prim_signature Int16_u = ''w''"
| "prim_signature Int32 = ''i''"
| "prim_signature Int32_u = ''d''"
| "prim_signature Int64 = ''l''"
| "prim_signature Int64_u = ''q''"
| "prim_signature Float = ''f''"
| "prim_signature Double = ''e''"

fun named_prefix :: "named_kind \<Rightarrow> char" where
  "named_prefix EnumK = CHR ''E''"
| "named_prefix StructK = CHR ''S''"
| "named_prefix UnionK = CHR ''U''"
| "named_prefix ClassK = CHR ''C''"

fun getCallConvSignature :: "call_conv \<Rightarrow> string" where
  "getCallConvSignature CC_Undefined = ''CC0''"
| "getCallConvSignature Jnccall_msc32 = ''JM4''"
| "getCallConvSignature Jnccall_msc64 = ''JM8''"
| "getCallConvSignature Jnccall_gcc32 = ''JG4''"
| "getCallConvSignature Jnccall_gcc64 = ''JG8''"
| "getCallConvSignature Jnccall_arm32 = ''JA4''"
| "getCallConvSignature Jnccall_arm64 = ''JA8''"
| "getCallConvSignature Cdecl_msc32 = ''CM4''"
| "getCallConvSignature Cdecl_msc64 = ''CM8''"
| "getCallConvSignature Cdecl_gcc32 = ''CG4''"
| "getCallConvSignature Cdecl_gcc64 = ''CG8''"
| "getCallConvSignature Cdecl_arm32 = ''CA4''"
| "getCallConvSignature Cdecl_arm64 = ''CA8''"
| "getCallConvSignature Stdcall_msc32 = ''SM4''"
| "getCallConvSignature Stdcall_gcc32 = ''SG4''"
| "getCallConvSignature Thiscall_msc32 = ''TM4''"

text \<open>The four pointer classes: \<open>j\<close> is the pointer kind, and the tables of prefixes are indexed by
  \<open>(typeKind - firstKind) * 2 + j\<close>, where the reference kind follows the pointer kind (\<open>r\<close>).
  \<open>tsig\<close> is the signature of the target.\<close>

definition ptr_kind_index :: "32 word \<Rightarrow> nat" where
  "ptr_kind_index flags = unat (drop_bit 20 flags AND 3)"

definition DataPtrType_createSignature ::
  "(32 word \<Rightarrow> 32 word) \<Rightarrow> (16 word \<Rightarrow> nat) \<Rightarrow> string \<Rightarrow> nat \<Rightarrow> nat \<Rightarrow> bool \<Rightarrow> 32 word \<Rightarrow> string" where
  "DataPtrType_createSignature lo ix tsig bitOffset bitCount r flags =
     (let i = (if r then 1 else 0) * 2 + ptr_kind_index flags;
          s0 = [''Pn'', ''Pl'', ''Pt'', ''Rn'', ''Rl'', ''Rt''] ! i;
          s1 = (if bitCount \<noteq> 0
                then s0 @ '':'' @ format_d bitOffset @ '':'' @ format_d (bitOffset + bitCount) else s0)
      in s1 @ the (appendPtrTypeFlagSignature lo ix flags) @ ''&'' @ tsig)"

definition ClassPtrType_createSignature ::
  "(32 word \<Rightarrow> 32 word) \<Rightarrow> (16 word \<Rightarrow> nat) \<Rightarrow> string \<Rightarrow> bool \<Rightarrow> 32 word \<Rightarrow> string" where
  "ClassPtrType_createSignature lo ix tsig r flags =
     (let i = (if r then 1 else 0) * 2 + unat (drop_bit 20 flags AND 1)
      in [''Pn'', ''Pw'', ''Rn'', ''Rw''] ! i @ the (appendPtrTypeFlagSignature lo ix flags) @ ''&'' @ tsig)"

definition FunctionPtrType_createSignature ::
  "(32 word \<Rightarrow> 32 word) \<Rightarrow> (16 word \<Rightarrow> nat) \<Rightarrow> string \<Rightarrow> bool \<Rightarrow> 32 word \<Rightarrow> string" where
  "FunctionPtrType_createSignature lo ix tsig r flags =
     (let i = (if r then 1 else 0) * 2 + ptr_kind_index flags
      in [''Pn'', ''Pw'', ''Pt'', ''Rn'', ''Rw'', ''Rt''] ! i @
         the (appendPtrTypeFlagSignature lo ix flags) @ ''&'' @ tsig)"

definition PropertyPtrType_createSignature ::
  "(32 word \<Rightarrow> 32 word) \<Rightarrow> (16 word \<Rightarrow> nat) \<Rightarrow> string \<Rightarrow> bool \<Rightarrow> 32 word \<Rightarrow> string" where
  "PropertyPtrType_createSignature lo ix tsig r flags =
     (let i = (if r then 1 else 0) * 2 + ptr_kind_index flags
      in [''Pn'', ''Pw'', ''Pt'', ''Rn'', ''Rw'', ''Rt''] ! i @
         the (appendPtrTypeFlagSignature lo ix flags) @ ''&'' @ tsig)"

definition FunctionTypeFlag_VarArg :: "32 word" where "FunctionTypeFlag_VarArg = 0x010000"
definition FunctionTypeFlag_ErrorCode :: "32 word" where "FunctionTypeFlag_ErrorCode = 0x020000"
definition FunctionTypeFlag_Unsafe :: "32 word" where "FunctionTypeFlag_Unsafe = 0x100000"
definition FunctionTypeFlag_Async :: "32 word" where "FunctionTypeFlag_Async = 0x200000"
definition FunctionTypeFlag_AsyncErrorCode :: "32 word" where "FunctionTypeFlag_AsyncErrorCode = 0x400000"

definition appendFlagSignature :: "32 word \<Rightarrow> string" where
  "appendFlagSignature flags =
     (if flags AND FunctionTypeFlag_Unsafe \<noteq> 0 then ''u'' else []) @
     (if flags AND FunctionTypeFlag_Async \<noteq> 0 then ''a'' else []) @
     (if flags AND (FunctionTypeFlag_ErrorCode OR FunctionTypeFlag_AsyncErrorCode) \<noteq> 0 then ''e'' else [])"

text \<open>Functions, given the signatures of the result and of the arguments (\<open>True\<close> marks the
  \<^verbatim>\<open>this\<close> argument), properties, arrays and named types.\<close>

definition appendFunctionArgSignature :: "bool \<times> string \<Rightarrow> string" where
  "appendFunctionArgSignature a = (if fst a then ''&'' else []) @ snd a"

definition FunctionType_createSignature :: "call_conv \<Rightarrow> string \<Rightarrow> (bool \<times> string) list \<Rightarrow> 32 word \<Rightarrow> string" where
  "FunctionType_createSignature cc rsig args flags =
     ''F'' @ appendFlagSignature flags @ getCallConvSignature cc @ rsig @ ''('' @
     concat (map appendFunctionArgSignature args) @
     (if flags AND FunctionTypeFlag_VarArg \<noteq> 0 then ''.'' else []) @ '')''"

definition PropertyType_createSignature :: "string \<Rightarrow> string list \<Rightarrow> bool \<Rightarrow> string" where
  "PropertyType_createSignature gsig ssigs bindable =
     ''Y'' @ (if bindable then ''b'' else []) @ gsig @ concat ssigs"

definition ArrayType_createSignature :: "string \<Rightarrow> nat \<Rightarrow> string" where
  "ArrayType_createSignature esig elementCount = ''A'' @ format_d elementCount @ esig"

definition NamedType_prepareSignature :: "named_kind \<Rightarrow> string \<Rightarrow> string" where
  "NamedType_prepareSignature k linkId = named_prefix k # linkId @ ''$''"

text \<open>The signature of a type.\<close>

function signature :: "(32 word \<Rightarrow> 32 word) \<Rightarrow> (16 word \<Rightarrow> nat) \<Rightarrow> jty \<Rightarrow> string" where
  "signature lo ix (PrimT k) = prim_signature k"
| "signature lo ix (ArrayT t n) = ArrayType_createSignature (signature lo ix t) n"
| "signature lo ix (NamedT k linkId) = NamedType_prepareSignature k linkId"
| "signature lo ix (PtrT k r flags bo bc t) =
     (case k of
        DataPtrK \<Rightarrow> DataPtrType_createSignature lo ix (signature lo ix t) bo bc r flags
      | ClassPtrK \<Rightarrow> ClassPtrType_createSignature lo ix (signature lo ix t) r flags
      | FunctionPtrK \<Rightarrow> FunctionPtrType_createSignature lo ix (signature lo ix t) r flags
      | PropertyPtrK \<Rightarrow> PropertyPtrType_createSignature lo ix (signature lo ix t) r flags)"
| "signature lo ix (FunctionT flags cc rt args) =
     FunctionType_createSignature cc (signature lo ix rt)
       (map (\<lambda>a. (fst a, signature lo ix (snd a))) args) flags"
| "signature lo ix (PropertyT bindable getter setters) =
     PropertyType_createSignature (signature lo ix getter) (map (signature lo ix) setters) bindable"
  by pat_completeness auto

lemma size_arg: "a \<in> set args \<Longrightarrow> size (snd a) \<le> size_list (size_prod (\<lambda>x. 0) size) args"
  by (induction args) auto

lemma size_setter: "t \<in> set ts \<Longrightarrow> size t \<le> size_list size ts"
  by (induction ts) auto

termination signature
  by (relation "measure (\<lambda>(lo, ix, t). size t)")
    (auto simp: less_Suc_eq_le intro: le_SucI trans_le_add1 dest: size_arg size_setter)

text \<open>The same equations as strings put together.\<close>

fun ptr_prefix :: "ptr_kind \<Rightarrow> bool \<Rightarrow> 32 word \<Rightarrow> string" where
  "ptr_prefix DataPtrK r flags =
     [''Pn'', ''Pl'', ''Pt'', ''Rn'', ''Rl'', ''Rt''] ! ((if r then 1 else 0) * 2 + ptr_kind_index flags)"
| "ptr_prefix ClassPtrK r flags =
     [''Pn'', ''Pw'', ''Rn'', ''Rw''] ! ((if r then 1 else 0) * 2 + unat (drop_bit 20 flags AND 1))"
| "ptr_prefix FunctionPtrK r flags =
     [''Pn'', ''Pw'', ''Pt'', ''Rn'', ''Rw'', ''Rt''] ! ((if r then 1 else 0) * 2 + ptr_kind_index flags)"
| "ptr_prefix PropertyPtrK r flags =
     [''Pn'', ''Pw'', ''Pt'', ''Rn'', ''Rw'', ''Rt''] ! ((if r then 1 else 0) * 2 + ptr_kind_index flags)"

definition bit_range_signature :: "nat \<Rightarrow> nat \<Rightarrow> string" where
  "bit_range_signature bitOffset bitCount =
     (if bitCount \<noteq> 0 then '':'' @ format_d bitOffset @ '':'' @ format_d (bitOffset + bitCount) else [])"

declare signature.simps(2-6) [simp del]

lemma signature_strings [simp]:
  "signature lo ix (ArrayT t n) = ''A'' @ format_d n @ signature lo ix t"
  "signature lo ix (NamedT nk linkId) = named_prefix nk # linkId @ ''$''"
  "signature lo ix (PtrT k r flags bo bc t) =
     ptr_prefix k r flags @ (if k = DataPtrK then bit_range_signature bo bc else []) @
     the (appendPtrTypeFlagSignature lo ix flags) @ ''&'' @ signature lo ix t"
  "signature lo ix (FunctionT flags cc rt args) =
     ''F'' @ appendFlagSignature flags @ getCallConvSignature cc @ signature lo ix rt @ ''('' @
     concat (map (\<lambda>a. (if fst a then ''&'' else []) @ signature lo ix (snd a)) args) @
     (if flags AND FunctionTypeFlag_VarArg \<noteq> 0 then ''.'' else []) @ '')''"
  "signature lo ix (PropertyT bindable getter setters) =
     ''Y'' @ (if bindable then ''b'' else []) @ signature lo ix getter @
     concat (map (signature lo ix) setters)"
  by (simp_all add: signature.simps(2-6) ArrayType_createSignature_def NamedType_prepareSignature_def
      DataPtrType_createSignature_def ClassPtrType_createSignature_def bit_range_signature_def
      FunctionPtrType_createSignature_def PropertyPtrType_createSignature_def
      FunctionType_createSignature_def PropertyType_createSignature_def appendFunctionArgSignature_def
      Let_def comp_def split: ptr_kind.split del: nth_Cons_numeral)

section \<open>Well-formed types\<close>

text \<open>The types the compiler builds: array counts and bit ranges that \<^verbatim>\<open>%d\<close> prints exactly,
  link ids without the terminator (so no instances of templates), only the documented pointer
  flags, kinds and const kinds, targets that fit the pointer kind, no functions or properties by
  value as arguments or results.\<close>

definition by_value :: "jty \<Rightarrow> bool" where
  "by_value t = (case t of FunctionT flags cc rt args \<Rightarrow> False | PropertyT b g ss \<Rightarrow> False | _ \<Rightarrow> True)"

fun target_ok :: "ptr_kind \<Rightarrow> jty \<Rightarrow> bool" where
  "target_ok ClassPtrK (NamedT k i) = (k = ClassK)"
| "target_ok DataPtrK (NamedT k i) = (k \<noteq> ClassK)"
| "target_ok FunctionPtrK (FunctionT flags cc rt args) = True"
| "target_ok PropertyPtrK (PropertyT b g ss) = True"
| "target_ok DataPtrK t = by_value t"
| "target_ok k t = False"

definition flags_ok :: "ptr_kind \<Rightarrow> 32 word \<Rightarrow> bool" where
  "flags_ok k flags \<longleftrightarrow>
     flags AND NOT PtrTypeFlag_All = 0 \<and> unat (drop_bit 16 (flags AND PtrTypeFlag_ConstKindMask)) < 7 \<and>
     ptr_kind_index flags < (if k = ClassPtrK then 2 else 3)"

definition function_flags_ok :: "32 word \<Rightarrow> bool" where
  "function_flags_ok flags \<longleftrightarrow>
     flags AND NOT (FunctionTypeFlag_VarArg OR FunctionTypeFlag_ErrorCode OR FunctionTypeFlag_Unsafe OR
       FunctionTypeFlag_Async) = 0"

fun type_wf :: "jty \<Rightarrow> bool" where
  "type_wf (PrimT k) = True"
| "type_wf (ArrayT t n) = (n < 2 ^ 31 \<and> by_value t \<and> type_wf t)"
| "type_wf (NamedT k linkId) = (CHR ''$'' \<notin> set linkId)"
| "type_wf (PtrT k r flags bo bc t) =
     (flags_ok k flags \<and> bo + bc < 2 ^ 31 \<and> (k \<noteq> DataPtrK \<or> bc = 0 \<longrightarrow> bo = 0 \<and> bc = 0) \<and>
      target_ok k t \<and> type_wf t)"
| "type_wf (FunctionT flags cc rt args) =
     (function_flags_ok flags \<and> by_value rt \<and> type_wf rt \<and> (\<forall>a\<in>set args. by_value (snd a) \<and> type_wf (snd a)))"
| "type_wf (PropertyT b g ss) =
     (target_ok FunctionPtrK g \<and> type_wf g \<and> (\<forall>t\<in>set ss. target_ok FunctionPtrK t \<and> type_wf t))"

text \<open>What the signature does not tell apart: a thin pointer to data, a function or a property and
  a normal reference to it have the same prefix. \<open>canon\<close> reads both as the reference.\<close>

fun canon :: "jty \<Rightarrow> jty" where
  "canon (PrimT k) = PrimT k"
| "canon (ArrayT t n) = ArrayT (canon t) n"
| "canon (NamedT k linkId) = NamedT k linkId"
| "canon (PtrT k r flags bo bc t) =
     (if k \<noteq> ClassPtrK \<and> \<not> r \<and> ptr_kind_index flags = 2
      then PtrT k True (flags AND NOT PtrTypeFlag_PtrKindMask) bo bc (canon t)
      else PtrT k r flags bo bc (canon t))"
| "canon (FunctionT flags cc rt args) = FunctionT flags cc (canon rt) (map (map_prod id canon) args)"
| "canon (PropertyT b g ss) = PropertyT b (canon g) (map canon ss)"

section \<open>The flags of a pointer in its signature\<close>

definition ix_ok :: "(16 word \<Rightarrow> nat) \<Rightarrow> bool" where
  "ix_ok ix \<longleftrightarrow> (\<forall>i < 16. ix (push_bit i 1) = i)"

lemma mask_bits:
  assumes "\<forall>i\<in>set [0..<32]. bit (w :: 32 word) i \<longleftrightarrow> i \<in> A" and "\<forall>i\<in>A. i < 32"
  shows "bit w i \<longleftrightarrow> i \<in> A"
  using assms bit_length [of w i] by (cases "i < 32") auto

lemma ptr_mask_bits [simp]:
  "bit PtrTypeFlag_All i \<longleftrightarrow> i \<in> {16..<31}"
  "bit PtrTypeFlag_PtrKindMask i \<longleftrightarrow> i \<in> {20..<22}"
  "bit PtrTypeFlag_ConstKindMask i \<longleftrightarrow> i \<in> {16..<20}"
proof -
  have "\<forall>i\<in>set [0..<32]. bit PtrTypeFlag_All i \<longleftrightarrow> i \<in> {16..<31}"
    "\<forall>i\<in>set [0..<32]. bit PtrTypeFlag_PtrKindMask i \<longleftrightarrow> i \<in> {20..<22}"
    "\<forall>i\<in>set [0..<32]. bit PtrTypeFlag_ConstKindMask i \<longleftrightarrow> i \<in> {16..<20}"
    by code_simp+
  from this [THEN mask_bits] show "bit PtrTypeFlag_All i \<longleftrightarrow> i \<in> {16..<31}"
    "bit PtrTypeFlag_PtrKindMask i \<longleftrightarrow> i \<in> {20..<22}"
    "bit PtrTypeFlag_ConstKindMask i \<longleftrightarrow> i \<in> {16..<20}" by simp_all
qed

definition flag_bits :: "32 word \<Rightarrow> nat list" where
  "flag_bits flags = filter (bit flags) [22..<31]"

definition const_word :: "32 word \<Rightarrow> 32 word" where
  "const_word flags = flags AND PtrTypeFlag_ConstKindMask"

definition ptr_flag_string :: "32 word \<Rightarrow> string" where
  "ptr_flag_string flags =
     map (\<lambda>i. ''vsedbanfh'' ! (i - 22)) (flag_bits flags) @
     (if const_word flags \<noteq> 0 then [getConstKindSignature (const_word flags)] else [])"

lemma flagSignatureLoop_ok:
  assumes "lo_ok lo" and "ix_ok ix" and "\<forall>i. bit f i \<longrightarrow> 22 \<le> i" and "length (filter (bit f) [0..<32]) \<le> fuel"
  shows "flagSignatureLoop lo ix fuel f str =
    Some (str @ map (\<lambda>i. ''vsedbanfh'' ! (i - 22)) (filter (bit f) [0..<32]))"
  using assms(3,4)
proof (induction fuel arbitrary: f str)
  case 0
  then have "f = 0" using no_bits_zero [of f] by simp
  then show ?case by (simp add: flagSignatureLoop.simps)
next
  case (Suc k)
  show ?case
  proof (cases "f = 0")
    case False
    then obtain i where i: "bit f i" "\<forall>j < i. \<not> bit f j" and lo: "lo f = push_bit i 1"
      using assms(1) by (auto simp: lo_ok_def)
    have i32: "i < 32" "22 \<le> i" using bit_length [OF i(1)] Suc.prems(1) i(1) by auto
    have fl: "filter (bit f) [0..<32] = i # filter (bit (f AND NOT (push_bit i 1))) [0..<32]"
      using filter_lowest_bit [OF i] by simp
    have "ucast (drop_bit 22 (push_bit i 1 :: 32 word)) = (push_bit (i - 22) 1 :: 16 word)"
      using i32 by (intro bit_word_eqI) (auto simp: bit_simps)
    then have ch: "getPtrTypeFlagSignature ix (push_bit i 1) = ''vsedbanfh'' ! (i - 22)"
      using assms(2) i32 by (simp only: getPtrTypeFlagSignature_def ix_ok_def)
    have "\<forall>j. bit (f AND NOT (push_bit i 1)) j \<longrightarrow> 22 \<le> j" using Suc.prems(1) by (simp add: bit_simps)
    from Suc.IH [OF this] Suc.prems(2) False show ?thesis
      by (subst flagSignatureLoop.simps) (simp add: lo ch fl Let_def del: push_bit_of_1)
  qed (simp add: flagSignatureLoop.simps)
qed

lemma appendPtrTypeFlagSignature_ok:
  assumes "lo_ok lo" and "ix_ok ix"
  shows "appendPtrTypeFlagSignature lo ix flags = Some (ptr_flag_string flags)"
proof -
  let ?f1 = "flags AND (PtrTypeFlag_All AND NOT PtrTypeFlag_PtrKindMask)"
  let ?f2 = "?f1 AND NOT PtrTypeFlag_ConstKindMask"
  have b: "bit ?f2 i \<longleftrightarrow> bit flags i \<and> 22 \<le> i \<and> i < 31" for i
    by (auto simp: bit_simps)
  have "?f1 AND PtrTypeFlag_ConstKindMask = const_word flags"
    by (intro bit_word_eqI) (auto simp: const_word_def bit_simps)
  moreover have "filter (bit ?f2) [0..<32] = flag_bits flags"
  proof -
    have "[0..<32] = [0..<22] @ [22..<31] @ [31..<32]" by code_simp
    then have "filter (bit ?f2) [0..<32] = filter (bit ?f2) [22..<31]"
      by (simp add: b filter_empty_conv)
    also have "\<dots> = flag_bits flags" unfolding flag_bits_def by (intro filter_cong) (auto simp: b)
    finally show ?thesis .
  qed
  moreover have "length (filter (bit ?f2) [0..<32]) \<le> 32"
    using length_filter_le [of "bit ?f2" "[0..<32]"] by simp
  ultimately show ?thesis
    using flagSignatureLoop_ok [OF assms, of ?f2 32 "[]"] b
    by (simp add: appendPtrTypeFlagSignature_def Let_def ptr_flag_string_def)
qed

text \<open>The letters of the flags and of the const kinds are different, and none of them is a
  separator, so the string determines all flags but the pointer kind.\<close>

abbreviation flag_letter :: "char \<Rightarrow> bool" where
  "flag_letter c \<equiv> c \<in> set ''vsedbanfh''"

abbreviation const_letter :: "char \<Rightarrow> bool" where
  "const_letter c \<equiv> c \<in> set ''wcmxyur''"

lemma set_flag_bits: "i \<in> set (flag_bits flags) \<longleftrightarrow> bit flags i \<and> 22 \<le> i \<and> i < 31"
  unfolding flag_bits_def set_filter set_upt by auto

lemma flag_bits_range: "i \<in> set (flag_bits flags) \<Longrightarrow> 22 \<le> i \<and> i < 31"
  by (simp add: set_flag_bits)

lemma flag_bits_letters: "\<forall>c\<in>set (map (\<lambda>i. ''vsedbanfh'' ! (i - 22)) (flag_bits flags)). flag_letter c"
proof -
  have "flag_letter (''vsedbanfh'' ! (i - 22))" if "22 \<le> i \<and> i < 31" for i
    using that by (intro nth_mem) auto
  then show ?thesis using flag_bits_range by auto
qed

lemma const_letter_nth: "n < 7 \<Longrightarrow> const_letter (''wcmxyur'' ! n)"
  by (rule nth_mem) simp

lemma ptr_flag_string_letters:
  assumes "flags_ok k flags" and "c \<in> set (ptr_flag_string flags)"
  shows "flag_letter c \<or> const_letter c"
  using assms flag_bits_letters [of flags] const_letter_nth
  by (auto simp: ptr_flag_string_def flags_ok_def const_word_def getConstKindSignature_def split: if_splits)

lemma flag_letters_inj: "inj_on (\<lambda>i. ''vsedbanfh'' ! (i - 22)) {22..<31}"
proof -
  have "\<forall>i\<in>set [22..<31]. \<forall>j\<in>set [22..<31]. ''vsedbanfh'' ! (i - 22) = ''vsedbanfh'' ! (j - 22) \<longrightarrow> i = j"
    by code_simp
  then show ?thesis unfolding inj_on_def atLeastLessThan_upt .
qed

lemma const_letters_inj: "n < 7 \<Longrightarrow> m < 7 \<Longrightarrow> ''wcmxyur'' ! n = ''wcmxyur'' ! m \<Longrightarrow> n = m"
  using nth_eq_iff_index_eq [of "''wcmxyur''" n m] by simp

lemma const_word_eq:
  assumes "drop_bit 16 (const_word f) = drop_bit 16 (const_word g)"
  shows "const_word f = const_word g"
proof (rule bit_word_eqI)
  fix n
  have "bit (drop_bit 16 (const_word f)) (n - 16) = bit (drop_bit 16 (const_word g)) (n - 16)"
    using assms by simp
  then show "bit (const_word f) n = bit (const_word g) n"
    by (cases "16 \<le> n") (auto simp: const_word_def bit_simps)
qed

lemma ptr_flag_string_inj:
  assumes "flags_ok k f" and "flags_ok k' g" and "ptr_flag_string f = ptr_flag_string g"
  shows "f AND NOT PtrTypeFlag_PtrKindMask = g AND NOT PtrTypeFlag_PtrKindMask"
proof -
  have lf: "unat (drop_bit 16 (const_word f)) < 7" "unat (drop_bit 16 (const_word g)) < 7"
    using assms(1,2) by (auto simp: flags_ok_def const_word_def)
  have nf: "\<not> flag_letter (getConstKindSignature w)" if "unat (drop_bit 16 w) < 7" for w
    using const_letter_nth [OF that] by (auto simp: getConstKindSignature_def)
  have "map (\<lambda>i. ''vsedbanfh'' ! (i - 22)) (flag_bits f) = map (\<lambda>i. ''vsedbanfh'' ! (i - 22)) (flag_bits g) \<and>
    (if const_word f \<noteq> 0 then [getConstKindSignature (const_word f)] else []) =
    (if const_word g \<noteq> 0 then [getConstKindSignature (const_word g)] else [])"
    using assms(3) nf [OF lf(1)] nf [OF lf(2)] flag_bits_letters
    by (intro span_unique [where P = flag_letter]) (auto simp: ptr_flag_string_def)
  then have m: "map (\<lambda>i. ''vsedbanfh'' ! (i - 22)) (flag_bits f) = map (\<lambda>i. ''vsedbanfh'' ! (i - 22)) (flag_bits g)"
    and c: "const_word f = const_word g"
    using const_letters_inj [OF lf] const_word_eq [of f g]
    by (auto simp: getConstKindSignature_def word_unat_eq_iff split: if_splits)
  have fb: "flag_bits f = flag_bits g"
    using m flag_bits_range by (intro map_inj_on [OF m] inj_on_subset [OF flag_letters_inj]) auto
  have hi: "bit f i = bit g i" if "22 \<le> i" "i < 31" for i
  proof -
    have "i \<in> set (flag_bits f) \<longleftrightarrow> i \<in> set (flag_bits g)" by (simp add: fb)
    then show ?thesis using that by (simp add: set_flag_bits)
  qed
  have lo: "bit f i = bit g i" if "16 \<le> i" "i < 20" for i
  proof -
    have "bit (const_word f) i = bit (const_word g) i" by (simp add: c)
    then show ?thesis using that by (simp add: const_word_def bit_simps)
  qed
  have range: "16 \<le> i \<and> i < 31" if "flags_ok k h" and b: "bit h i" for h i k
  proof -
    have "\<not> bit (h AND NOT PtrTypeFlag_All) i" using that(1) by (simp add: flags_ok_def)
    then show ?thesis using b bit_length [OF b] by (auto simp: bit_simps)
  qed
  have "bit f i = bit g i" if "i \<noteq> 20" "i \<noteq> 21" for i
  proof (cases "(22 \<le> i \<and> i < 31) \<or> (16 \<le> i \<and> i < 20)")
    case True
    then show ?thesis using hi lo by blast
  next
    case False
    then have "\<not> (16 \<le> i \<and> i < 31)" using that by linarith
    then show ?thesis using range [OF assms(1)] range [OF assms(2)] by blast
  qed
  then show ?thesis by (intro bit_word_eqI) (auto simp: bit_simps)
qed

text \<open>The pointer kind is the rest of the flags.\<close>

lemma ptr_kind_index_bits: "ptr_kind_index f = of_bool (bit f 20) + 2 * of_bool (bit f 21)"
proof -
  have m: "(3 :: 32 word) = mask 2" by (simp add: mask_eq_exp_minus_1)
  have "drop_bit 20 f AND 3 = (of_bool (bit f 20) OR push_bit 1 (of_bool (bit f 21)) :: 32 word)"
  proof (rule bit_word_eqI)
    fix n :: nat
    assume "n < LENGTH(32)"
    consider "n = 0" | "n = 1" | "2 \<le> n" by linarith
    then show "bit (drop_bit 20 f AND 3) n =
        bit (of_bool (bit f 20) OR push_bit 1 (of_bool (bit f 21)) :: 32 word) n"
      unfolding m by cases (auto simp: bit_simps)
  qed
  then show ?thesis
    unfolding ptr_kind_index_def by (cases "bit f 20"; cases "bit f 21") simp_all
qed

lemma flags_eqI:
  assumes "f AND NOT PtrTypeFlag_PtrKindMask = g AND NOT PtrTypeFlag_PtrKindMask"
    and "ptr_kind_index f = ptr_kind_index g"
  shows "f = g"
proof (rule bit_word_eqI)
  fix n :: nat
  assume "n < LENGTH(32)"
  have k: "bit f 20 = bit g 20" "bit f 21 = bit g 21"
    using assms(2) unfolding ptr_kind_index_bits
    by (cases "bit f 20"; cases "bit f 21"; cases "bit g 20"; cases "bit g 21"; simp)+
  have "bit (f AND NOT PtrTypeFlag_PtrKindMask) n = bit (g AND NOT PtrTypeFlag_PtrKindMask) n"
    using assms(1) by simp
  then show "bit f n = bit g n"
    using k \<open>n < LENGTH(32)\<close> by (cases "n = 20"; cases "n = 21") (auto simp: bit_simps)
qed

section \<open>Reading a signature back\<close>

text \<open>The first character tells the kind of type.\<close>

fun type_tag :: "jty \<Rightarrow> nat" where
  "type_tag (PrimT k) = 0"
| "type_tag (ArrayT t n) = 1"
| "type_tag (NamedT k i) = 2"
| "type_tag (PtrT k r flags bo bc t) = 3"
| "type_tag (FunctionT flags cc rt args) = 4"
| "type_tag (PropertyT b g ss) = 5"

definition char_tag :: "char \<Rightarrow> nat" where
  "char_tag c = (if c = CHR ''A'' then 1 else if c \<in> set ''ESUC'' then 2 else if c \<in> set ''PR'' then 3
     else if c = CHR ''F'' then 4 else if c = CHR ''Y'' then 5 else 0)"

lemma class_kind_index: "unat (drop_bit 20 (f :: 32 word) AND 1) = of_bool (bit f 20)"
  by (simp add: and_one_eq mod_2_eq_odd bit_iff_odd_drop_bit)

lemma ptr_prefix_shape:
  assumes "flags_ok k flags"
  obtains c d where "ptr_prefix k r flags = [c, d]" and "c \<in> set ''PR''"
proof -
  have i: "ptr_kind_index flags < 3" "k = ClassPtrK \<Longrightarrow> ptr_kind_index flags < 2"
    using assms by (auto simp: flags_ok_def split: if_splits)
  have j: "unat (drop_bit 20 flags AND 1) < 2" by (simp add: class_kind_index)
  have "ptr_kind_index flags \<in> {0, 1, 2}" "unat (drop_bit 20 flags AND 1) \<in> {0, 1}"
    using i j by auto
  then show thesis using that by (cases k; cases r) auto
qed

lemma signature_Cons:
  assumes "type_wf t"
  obtains c s where "signature lo ix t = c # s" and "char_tag c = type_tag t"
    and "c \<notin> set ''0123456789-&.():$''"
proof (cases t)
  case (PrimT k)
  then show thesis using that by (cases k) (auto simp: char_tag_def)
next
  case (NamedT k i)
  then show thesis using that by (cases k) (auto simp: char_tag_def)
next
  case (PtrT k r flags bo bc u)
  then have "flags_ok k flags" using assms by simp
  then obtain c d where "ptr_prefix k r flags = [c, d]" "c \<in> set ''PR''" by (rule ptr_prefix_shape)
  then show thesis using that PtrT by (auto simp: char_tag_def)
qed (use that in \<open>auto simp: char_tag_def\<close>)

text \<open>What may follow a signature: a property has no end mark, so its setters must not be followed
  by another function.\<close>

definition no_fun :: "string \<Rightarrow> bool" where
  "no_fun xs \<longleftrightarrow> xs = [] \<or> hd xs \<noteq> CHR ''F''"

lemma no_fun_Cons [simp]: "no_fun (c # xs) \<longleftrightarrow> c \<noteq> CHR ''F''" "no_fun []"
  by (simp_all add: no_fun_def)

lemma signature_no_fun:
  assumes "type_wf t" and "by_value t"
  shows "no_fun (signature lo ix t @ xs)"
proof -
  obtain c s where c: "signature lo ix t = c # s" "char_tag c = type_tag t" using signature_Cons [OF assms(1)] .
  moreover have "type_tag t \<noteq> 4" using assms(2) by (cases t) (auto simp: by_value_def)
  ultimately show ?thesis by (auto simp: char_tag_def)
qed

lemma signature_not_digit:
  assumes "type_wf t"
  shows "\<not> is_digit (hd (signature lo ix t @ xs))"
proof -
  obtain c s where "signature lo ix t = c # s" "c \<notin> set ''0123456789-&.():$''"
    using signature_Cons [OF assms] .
  then show ?thesis by (auto simp: is_digit_def)
qed

lemma append_Cons_unique:
  assumes "c \<notin> set a" and "c \<notin> set b" and "a @ c # xs = b @ c # ys"
  shows "a = b \<and> xs = ys"
  using assms span_unique [of a "\<lambda>x. x \<noteq> c" b "c # xs" "c # ys"] by auto

text \<open>\<open>decodes t\<close>: a signature that starts with the one of \<open>t\<close> is that of a type equal to \<open>t\<close> up
  to \<open>canon\<close>, and the rest is what follows.\<close>

definition is_fun :: "jty \<Rightarrow> bool" where
  "is_fun t \<longleftrightarrow> target_ok FunctionPtrK t"

definition decodes :: "(32 word \<Rightarrow> 32 word) \<Rightarrow> (16 word \<Rightarrow> nat) \<Rightarrow> jty \<Rightarrow> bool" where
  "decodes lo ix t \<longleftrightarrow>
     (\<forall>u xs ys. type_wf u \<longrightarrow> (is_fun t \<or> no_fun xs \<and> no_fun ys) \<longrightarrow>
        signature lo ix t @ xs = signature lo ix u @ ys \<longrightarrow> canon t = canon u \<and> xs = ys)"

lemma decodesD:
  assumes "decodes lo ix t" and "type_wf u" and "is_fun t \<or> no_fun xs \<and> no_fun ys"
    and "signature lo ix t @ xs = signature lo ix u @ ys"
  shows "canon t = canon u" and "xs = ys"
  using assms unfolding decodes_def by blast+

lemma same_tag:
  assumes "type_wf t" and "type_wf u" and "signature lo ix t @ xs = signature lo ix u @ ys"
  shows "type_tag t = type_tag u"
  using signature_Cons [OF assms(1), of lo ix] signature_Cons [OF assms(2), of lo ix] assms(3)
  by (metis append_Cons list.inject)

lemma decodes_prim: "decodes lo ix (PrimT k)"
  unfolding decodes_def
proof (intro allI impI)
  fix u xs ys
  assume u: "type_wf u" and e: "signature lo ix (PrimT k) @ xs = signature lo ix u @ ys"
  have "type_tag u = 0" using same_tag [OF _ u e] by simp
  then obtain k' where u: "u = PrimT k'" by (cases u) auto
  show "canon (PrimT k) = canon u \<and> xs = ys" using e unfolding u by (cases k; cases k') simp_all
qed

lemma decodes_array:
  assumes "type_wf (ArrayT t n)" and "decodes lo ix t"
  shows "decodes lo ix (ArrayT t n)"
  unfolding decodes_def
proof (intro allI impI)
  fix u xs ys
  assume u: "type_wf u" and f: "is_fun (ArrayT t n) \<or> no_fun xs \<and> no_fun ys"
    and e: "signature lo ix (ArrayT t n) @ xs = signature lo ix u @ ys"
  have "type_tag u = 1" using same_tag [OF assms(1) u e] by simp
  then obtain t' m where tm: "u = ArrayT t' m" by (cases u) auto
  have "n = m \<and> signature lo ix t @ xs = signature lo ix t' @ ys"
    using assms(1) u e signature_not_digit by (intro format_d_inj) (auto simp: tm)
  moreover have "type_wf t'" using u by (simp add: tm)
  ultimately show "canon (ArrayT t n) = canon u \<and> xs = ys"
    using decodesD [OF assms(2), of t' xs ys] f by (simp add: tm is_fun_def by_value_def)
qed

lemma decodes_named: "type_wf (NamedT k i) \<Longrightarrow> decodes lo ix (NamedT k i)"
  unfolding decodes_def
proof (intro allI impI)
  fix u xs ys
  assume wf: "type_wf (NamedT k i)" and u: "type_wf u"
    and e: "signature lo ix (NamedT k i) @ xs = signature lo ix u @ ys"
  have "type_tag u = 2" using same_tag [OF wf u e] by simp
  then obtain k' i' where ki: "u = NamedT k' i'" by (cases u) auto
  have "i = i' \<and> xs = ys" using wf u e by (intro append_Cons_unique [of "CHR ''$''"]) (auto simp: ki)
  moreover have "k = k'" using e by (cases k; cases k') (auto simp: ki)
  ultimately show "canon (NamedT k i) = canon u \<and> xs = ys" by (simp add: ki)
qed

text \<open>Pointers. The target tells the pointer kind; the prefix gives the index into the table.\<close>

lemma target_ok_canon [simp]: "target_ok k (canon t) = target_ok k t"
  by (cases t; cases k) (auto simp: by_value_def)

lemma target_ok_unique: "target_ok k t \<Longrightarrow> target_ok k' t \<Longrightarrow> k = k'"
  by (cases t; cases k; cases k') (auto simp: by_value_def split: jty.splits)

lemma ptr_prefix_inj:
  assumes "flags_ok k f" and "flags_ok k f'" and "ptr_prefix k r f = ptr_prefix k r' f'"
  shows "2 * of_bool r + ptr_kind_index f = 2 * of_bool r' + (ptr_kind_index f' :: nat)"
proof (cases "k = ClassPtrK")
  case True
  then have "\<not> bit f 21" "\<not> bit f' 21"
    using assms(1,2) by (auto simp: flags_ok_def ptr_kind_index_bits)
  then show ?thesis
    using assms(3) unfolding True
    by (cases r; cases r'; cases "bit f 20"; cases "bit f' 20")
      (simp_all add: class_kind_index ptr_kind_index_bits)
next
  case False
  then have "ptr_kind_index f \<in> {0, 1, 2}" "ptr_kind_index f' \<in> {0, 1, 2}"
    using assms(1,2) by (auto simp: flags_ok_def split: if_splits)
  with False assms(3) show ?thesis
    by (cases k; cases r; cases r') auto
qed

lemma canon_ptr_eq:
  assumes "flags_ok k f" and "flags_ok k f'"
    and "f AND NOT PtrTypeFlag_PtrKindMask = f' AND NOT PtrTypeFlag_PtrKindMask"
    and "2 * of_bool r + ptr_kind_index f = 2 * of_bool r' + (ptr_kind_index f' :: nat)"
    and "canon t = canon t'"
  shows "canon (PtrT k r f bo bc t) = canon (PtrT k r' f' bo bc t')"
proof -
  have thin: "g AND NOT PtrTypeFlag_PtrKindMask = g" if "ptr_kind_index g = 0" for g
  proof (rule flags_eqI)
    have "\<not> bit g 20" "\<not> bit g 21" using that by (auto simp: ptr_kind_index_bits)
    then show "ptr_kind_index (g AND NOT PtrTypeFlag_PtrKindMask) = ptr_kind_index g"
      by (simp add: ptr_kind_index_bits bit_simps)
  qed (intro bit_word_eqI, auto simp: bit_simps)
  have b: "ptr_kind_index g < 3" "k = ClassPtrK \<Longrightarrow> ptr_kind_index g < 2" if "flags_ok k g" for g
    using that by (auto simp: flags_ok_def split: if_splits)
  show ?thesis
  proof (cases "r = r'")
    case True
    then have "f = f'" using flags_eqI [OF assms(3)] assms(4) by simp
    then show ?thesis using True assms(5) by simp
  next
    case False
    then show ?thesis
      using assms(3-5) b [OF assms(1)] b [OF assms(2)] thin [of f] thin [of f']
      by (cases r; cases r') auto
  qed
qed

lemma bit_range_inj:
  assumes "bo + bc < 2 ^ 31" and "bo' + bc' < 2 ^ 31"
    and "bc = 0 \<longrightarrow> bo = 0" and "bc' = 0 \<longrightarrow> bo' = 0"
    and "\<forall>c\<in>set s. flag_letter c \<or> const_letter c" and "\<forall>c\<in>set s'. flag_letter c \<or> const_letter c"
    and e: "bit_range_signature bo bc @ s = bit_range_signature bo' bc' @ s'"
  shows "bo = bo' \<and> bc = bc' \<and> s = s'"
proof -
  have hd: "x = [] \<or> \<not> is_digit (hd x)" "hd (x @ y) = CHR '':'' \<Longrightarrow> x = []"
    if "\<forall>c\<in>set x. flag_letter c \<or> const_letter c" for x y
    using that by (cases x; auto simp: is_digit_def)+
  consider "bc = 0" "bc' = 0" | "bc = 0" "bc' \<noteq> 0" | "bc \<noteq> 0" "bc' = 0" | "bc \<noteq> 0" "bc' \<noteq> 0" by blast
  then show ?thesis
  proof cases
    case 1
    then show ?thesis using assms(3,4) e by (simp add: bit_range_signature_def)
  next
    case 2
    then have "s = CHR '':'' # tl s" using e by (cases s) (auto simp: bit_range_signature_def)
    then show ?thesis using assms(5) by (metis hd(2) append_Nil2 list.discI list.sel(1))
  next
    case 3
    then have "s' = CHR '':'' # tl s'" using e by (cases s') (auto simp: bit_range_signature_def)
    then show ?thesis using assms(6) by (metis hd(2) append_Nil2 list.discI list.sel(1))
  next
    case 4
    have "bo = bo' \<and> '':'' @ format_d (bo + bc) @ s = '':'' @ format_d (bo' + bc') @ s'"
      using 4 e assms(1,2) by (intro format_d_inj) (auto simp: bit_range_signature_def is_digit_def)
    moreover from this have "bo + bc = bo' + bc' \<and> s = s'"
      using assms(1,2) hd(1) [OF assms(5)] hd(1) [OF assms(6)] by (intro format_d_inj) auto
    ultimately show ?thesis by simp
  qed
qed

lemma decodes_ptr:
  assumes "lo_ok lo" and "ix_ok ix" and wf: "type_wf (PtrT k r f bo bc t)" and "decodes lo ix t"
  shows "decodes lo ix (PtrT k r f bo bc t)"
  unfolding decodes_def
proof (intro allI impI)
  fix u xs ys
  assume wu: "type_wf u" and nf: "is_fun (PtrT k r f bo bc t) \<or> no_fun xs \<and> no_fun ys"
    and e: "signature lo ix (PtrT k r f bo bc t) @ xs = signature lo ix u @ ys"
  have "type_tag u = 3" using same_tag [OF wf wu e] by simp
  then obtain k' r' f' bo' bc' t' where u: "u = PtrT k' r' f' bo' bc' t'" by (cases u) auto
  have ok: "flags_ok k f" "flags_ok k' f'" "type_wf t'" "target_ok k t" "target_ok k' t'"
    using wf wu by (auto simp: u)
  let ?b = "\<lambda>k bo bc. if k = DataPtrK then bit_range_signature bo bc else []"
  note fs = appendPtrTypeFlagSignature_ok [OF assms(1,2)]
  obtain c d c' d' where p: "ptr_prefix k r f = [c, d]" "ptr_prefix k' r' f' = [c', d']"
    using ptr_prefix_shape [OF ok(1)] ptr_prefix_shape [OF ok(2)] by metis
  have pe: "ptr_prefix k r f = ptr_prefix k' r' f'"
    and e1: "(?b k bo bc @ ptr_flag_string f) @ CHR ''&'' # signature lo ix t @ xs =
      (?b k' bo' bc' @ ptr_flag_string f') @ CHR ''&'' # signature lo ix t' @ ys"
    using e by (auto simp: u p fs)
  have amp: "CHR ''&'' \<notin> set (?b k bo bc @ ptr_flag_string f)" if "flags_ok k f" "bo + bc < 2 ^ 31" for k bo bc f
    using that ptr_flag_string_letters [OF that(1), of "CHR ''&''"]
    by (auto simp: bit_range_signature_def format_d_small is_digit_def dest!: dec_digits_digit)
  have sep: "?b k bo bc @ ptr_flag_string f = ?b k' bo' bc' @ ptr_flag_string f'"
    "signature lo ix t @ xs = signature lo ix t' @ ys"
    using append_Cons_unique [OF amp amp e1] ok wf wu by (auto simp: u)
  have "is_fun t \<or> no_fun xs \<and> no_fun ys" using nf by (simp add: is_fun_def by_value_def)
  note T = decodesD [OF assms(4) ok(3) this sep(2)]
  have k: "k' = k" using ok(4,5) T(1) target_ok_unique by (metis target_ok_canon)
  have "bo = bo' \<and> bc = bc' \<and> ptr_flag_string f = ptr_flag_string f'"
  proof (cases "k = DataPtrK")
    case True
    have "bo + bc < 2 ^ 31" "bo' + bc' < 2 ^ 31" "bc = 0 \<longrightarrow> bo = 0" "bc' = 0 \<longrightarrow> bo' = 0"
      using wf wu by (auto simp: u)
    moreover have "\<forall>c\<in>set (ptr_flag_string f). flag_letter c \<or> const_letter c"
      "\<forall>c\<in>set (ptr_flag_string f'). flag_letter c \<or> const_letter c"
      using ptr_flag_string_letters ok(1,2) by blast+
    moreover have "bit_range_signature bo bc @ ptr_flag_string f = bit_range_signature bo' bc' @ ptr_flag_string f'"
      using sep(1) True k by simp
    ultimately show ?thesis by (rule bit_range_inj)
  next
    case False
    then show ?thesis using sep(1) wf wu by (simp add: u k)
  qed
  then have b: "bo = bo'" "bc = bc'" and m: "f AND NOT PtrTypeFlag_PtrKindMask = f' AND NOT PtrTypeFlag_PtrKindMask"
    using ptr_flag_string_inj [OF ok(1,2)] by auto
  show "canon (PtrT k r f bo bc t) = canon u \<and> xs = ys"
    using canon_ptr_eq [OF ok(1) ok(2) [unfolded k] m _ T(1)] ptr_prefix_inj [OF ok(1) ok(2) [unfolded k]] pe T(2)
    by (simp add: u k b del: canon.simps)
qed

text \<open>Functions: the flags, the calling convention, the result, the arguments and their end.\<close>

lemma function_mask_bits [simp]:
  "bit FunctionTypeFlag_VarArg i \<longleftrightarrow> i = 16" "bit FunctionTypeFlag_ErrorCode i \<longleftrightarrow> i = 17"
  "bit FunctionTypeFlag_Unsafe i \<longleftrightarrow> i = 20" "bit FunctionTypeFlag_Async i \<longleftrightarrow> i = 21"
  "bit FunctionTypeFlag_AsyncErrorCode i \<longleftrightarrow> i = 22"
proof -
  have "\<forall>i\<in>set [0..<32]. bit FunctionTypeFlag_VarArg i \<longleftrightarrow> i \<in> {16}"
    "\<forall>i\<in>set [0..<32]. bit FunctionTypeFlag_ErrorCode i \<longleftrightarrow> i \<in> {17}"
    "\<forall>i\<in>set [0..<32]. bit FunctionTypeFlag_Unsafe i \<longleftrightarrow> i \<in> {20}"
    "\<forall>i\<in>set [0..<32]. bit FunctionTypeFlag_Async i \<longleftrightarrow> i \<in> {21}"
    "\<forall>i\<in>set [0..<32]. bit FunctionTypeFlag_AsyncErrorCode i \<longleftrightarrow> i \<in> {22}"
    by code_simp+
  from this [THEN mask_bits]
  show "bit FunctionTypeFlag_VarArg i \<longleftrightarrow> i = 16" "bit FunctionTypeFlag_ErrorCode i \<longleftrightarrow> i = 17"
    "bit FunctionTypeFlag_Unsafe i \<longleftrightarrow> i = 20" "bit FunctionTypeFlag_Async i \<longleftrightarrow> i = 21"
    "bit FunctionTypeFlag_AsyncErrorCode i \<longleftrightarrow> i = 22" by simp_all
qed

lemma and_nonzero: "(f AND m :: 32 word) \<noteq> 0 \<longleftrightarrow> (\<exists>i. bit f i \<and> bit m i)"
  unfolding bit_eq_iff [of "f AND m" 0] using bit_length [of f] by (auto simp: bit_and_iff)

lemma flag_tests:
  "f AND FunctionTypeFlag_VarArg \<noteq> 0 \<longleftrightarrow> bit f 16" "f AND FunctionTypeFlag_Unsafe \<noteq> 0 \<longleftrightarrow> bit f 20"
  "f AND FunctionTypeFlag_Async \<noteq> 0 \<longleftrightarrow> bit f 21"
  "f AND (FunctionTypeFlag_ErrorCode OR FunctionTypeFlag_AsyncErrorCode) \<noteq> 0 \<longleftrightarrow> bit f 17 \<or> bit f 22"
  unfolding and_nonzero bit_or_iff function_mask_bits by auto

lemma function_flags_bits:
  assumes "function_flags_ok f" and "bit f i"
  shows "i \<in> {16, 17, 20, 21}"
proof -
  have "\<not> bit (f AND NOT (FunctionTypeFlag_VarArg OR FunctionTypeFlag_ErrorCode OR FunctionTypeFlag_Unsafe OR
       FunctionTypeFlag_Async)) i"
    using assms(1) by (simp add: function_flags_ok_def)
  then show ?thesis using assms(2) bit_length [OF assms(2)] by (auto simp: bit_simps)
qed

lemma function_flags_eqI:
  assumes "function_flags_ok f" and "function_flags_ok g"
    and "appendFlagSignature f = appendFlagSignature g" and "bit f 16 = bit g 16"
  shows "f = g"
proof (rule bit_word_eqI)
  fix n :: nat
  have b: "\<not> bit f 22" "\<not> bit g 22" using function_flags_bits assms(1,2) by force+
  have "bit f 20 = bit g 20 \<and> bit f 21 = bit g 21 \<and> bit f 17 = bit g 17"
    using assms(3) b unfolding appendFlagSignature_def flag_tests
    by (cases "bit f 20"; cases "bit g 20"; cases "bit f 21"; cases "bit g 21"; simp split: if_splits)
  then show "bit f n = bit g n"
    using function_flags_bits [OF assms(1), of n] function_flags_bits [OF assms(2), of n] assms(4) by blast
qed

lemma callconv_shape:
  obtains c d e where "getCallConvSignature cc = [c, d, e]" and "c \<in> set ''CJST''"
  by (cases cc) auto

lemma callconv_inj: "getCallConvSignature cc = getCallConvSignature cc' \<Longrightarrow> cc = cc'"
  by (cases cc; cases cc') simp_all

text \<open>The end of an argument list: a mark for further arguments, and the parenthesis.\<close>

definition args_end :: "32 word \<Rightarrow> string" where
  "args_end f = (if bit f 16 then ''.'' else []) @ '')''"

lemma args_end_unique: "args_end f @ xs = args_end g @ ys \<Longrightarrow> bit f 16 = bit g 16 \<and> xs = ys"
  by (auto simp: args_end_def split: if_splits)

abbreviation arg_signature :: "(32 word \<Rightarrow> 32 word) \<Rightarrow> (16 word \<Rightarrow> nat) \<Rightarrow> bool \<times> jty \<Rightarrow> string" where
  "arg_signature lo ix a \<equiv> (if fst a then ''&'' else []) @ signature lo ix (snd a)"

abbreviation arg_wf :: "bool \<times> jty \<Rightarrow> bool" where
  "arg_wf a \<equiv> by_value (snd a) \<and> type_wf (snd a)"

lemma arg_hd:
  assumes "arg_wf a"
  obtains c s where "arg_signature lo ix a = c # s" and "c \<notin> set ''F.)''" and "(c = CHR ''&'') = fst a"
proof -
  obtain c s where c: "signature lo ix (snd a) = c # s" "c \<notin> set ''0123456789-&.():$''"
    using signature_Cons [OF conjunct2 [OF assms]] .
  moreover have "c \<noteq> CHR ''F''"
    using signature_no_fun [of "snd a" lo ix "[]"] assms c(1) by simp
  ultimately show thesis
    using that [of "CHR ''&''" "signature lo ix (snd a)"] that [of c s] by (cases "fst a") simp_all
qed

lemma args_end_hd:
  obtains c s where "args_end f @ xs = c # s" and "c \<in> set ''.)''"
  by (cases "bit f 16") (auto simp: args_end_def)

lemma args_no_fun:
  assumes "\<forall>a\<in>set as. arg_wf a"
  shows "no_fun (concat (map (arg_signature lo ix) as) @ args_end f @ xs)"
proof (cases as)
  case Nil
  obtain c s where "args_end f @ xs = c # s" "c \<in> set ''.)''" by (rule args_end_hd)
  then show ?thesis using Nil by auto
next
  case (Cons a as')
  then have "arg_wf a" using assms by simp
  then obtain c s where "arg_signature lo ix a = c # s" "c \<notin> set ''F.)''" by (rule arg_hd)
  then show ?thesis by (simp add: Cons)
qed

lemma args_unique:
  assumes "\<forall>a\<in>set as. decodes lo ix (snd a)"
    and "\<forall>a\<in>set as. arg_wf a" and "\<forall>a\<in>set bs. arg_wf a"
    and "concat (map (arg_signature lo ix) as) @ args_end f @ xs =
      concat (map (arg_signature lo ix) bs) @ args_end g @ ys"
  shows "map (map_prod id canon) as = map (map_prod id canon) bs \<and> bit f 16 = bit g 16 \<and> xs = ys"
  using assms
proof (induction as arbitrary: bs)
  case Nil
  show ?case
  proof (cases bs)
    case Nil
    then show ?thesis using Nil.prems(4) args_end_unique [of f xs g ys] by simp
  next
    case (Cons b bs')
    have "arg_wf b" using Nil.prems(3) Cons by simp
    then obtain c s where "arg_signature lo ix b = c # s" "c \<notin> set ''F.)''" by (rule arg_hd)
    moreover obtain c' s' where "args_end f @ xs = c' # s'" "c' \<in> set ''.)''" by (rule args_end_hd)
    ultimately show ?thesis using Nil.prems(4) Cons by auto
  qed
next
  case (Cons a as)
  have a: "arg_wf a" using Cons.prems(2) by simp
  obtain c s where c: "arg_signature lo ix a = c # s" "c \<notin> set ''F.)''" "(c = CHR ''&'') = fst a"
    using a by (rule arg_hd)
  show ?case
  proof (cases bs)
    case Nil
    obtain c' s' where "args_end g @ ys = c' # s'" "c' \<in> set ''.)''" by (rule args_end_hd)
    then show ?thesis using Cons.prems(4) Nil c by auto
  next
    case B: (Cons b bs')
    have b: "arg_wf b" using Cons.prems(3) B by simp
    obtain c' s' where c': "arg_signature lo ix b = c' # s'" "(c' = CHR ''&'') = fst b"
      using b by (rule arg_hd)
    have "c = c'" using Cons.prems(4) B c(1) c'(1) by simp
    then have fst: "fst a = fst b" using c(3) c'(2) by simp
    let ?r = "concat (map (arg_signature lo ix) as) @ args_end f @ xs"
    let ?r' = "concat (map (arg_signature lo ix) bs') @ args_end g @ ys"
    have e: "signature lo ix (snd a) @ ?r = signature lo ix (snd b) @ ?r'"
      using Cons.prems(4) B fst by (cases "fst b") simp_all
    have nf: "is_fun (snd a) \<or> no_fun ?r \<and> no_fun ?r'"
      using args_no_fun Cons.prems(2,3) B by simp
    have d: "decodes lo ix (snd a)" and w: "type_wf (snd b)" using Cons.prems(1) b by simp_all
    note D = decodesD [OF d w nf e]
    have "map (map_prod id canon) as = map (map_prod id canon) bs' \<and> bit f 16 = bit g 16 \<and> xs = ys"
      using Cons.IH [of bs'] Cons.prems(1-3) B D(2) by (simp add: id_def)
    then show ?thesis using B fst D(1) by (simp add: map_prod_def split_def)
  qed
qed

lemma decodes_function:
  assumes wf: "type_wf (FunctionT f cc rt as)" and "decodes lo ix rt"
    and "\<forall>a\<in>set as. decodes lo ix (snd a)"
  shows "decodes lo ix (FunctionT f cc rt as)"
  unfolding decodes_def
proof (intro allI impI)
  fix u xs ys
  assume wu: "type_wf u" and e: "signature lo ix (FunctionT f cc rt as) @ xs = signature lo ix u @ ys"
  have "type_tag u = 4" using same_tag [OF wf wu e] by simp
  then obtain g cc' rt' bs where u: "u = FunctionT g cc' rt' bs" by (cases u) auto
  obtain c d x where c: "getCallConvSignature cc = [c, d, x]" "c \<in> set ''CJST''" by (rule callconv_shape)
  obtain c' d' x' where c': "getCallConvSignature cc' = [c', d', x']" "c' \<in> set ''CJST''" by (rule callconv_shape)
  let ?r = "\<lambda>f as zs. ''('' @ concat (map (arg_signature lo ix) as) @ args_end f @ zs"
  have "appendFlagSignature f @ getCallConvSignature cc @ signature lo ix rt @ ?r f as xs =
      appendFlagSignature g @ getCallConvSignature cc' @ signature lo ix rt' @ ?r g bs ys"
    using e by (simp add: u args_end_def flag_tests)
  then have fl: "appendFlagSignature f = appendFlagSignature g \<and>
      getCallConvSignature cc @ signature lo ix rt @ ?r f as xs =
      getCallConvSignature cc' @ signature lo ix rt' @ ?r g bs ys"
    using c c' by (intro span_unique [where P = "\<lambda>c. c \<in> set ''uae''"]) (auto simp: appendFlagSignature_def)
  then have cc: "getCallConvSignature cc = getCallConvSignature cc'"
    and rt: "signature lo ix rt @ ?r f as xs = signature lo ix rt' @ ?r g bs ys"
    by (auto simp: c(1) c'(1))
  have w: "type_wf rt'" and nf: "is_fun rt \<or> no_fun (?r f as xs) \<and> no_fun (?r g bs ys)"
    using wu by (simp_all add: u)
  note R = decodesD [OF assms(2) w nf rt]
  have "concat (map (arg_signature lo ix) as) @ args_end f @ xs =
      concat (map (arg_signature lo ix) bs) @ args_end g @ ys"
    using R(2) by simp
  from args_unique [OF assms(3) _ _ this]
  have A: "map (map_prod id canon) as = map (map_prod id canon) bs \<and> bit f 16 = bit g 16 \<and> xs = ys"
    using wf wu by (simp add: u)
  have "f = g" using function_flags_eqI [of f g] wf wu fl A by (simp add: u)
  then show "canon (FunctionT f cc rt as) = canon u \<and> xs = ys"
    using A R(1) callconv_inj [OF cc] by (simp add: u)
qed

text \<open>Properties.\<close>

lemma fun_hd:
  assumes "is_fun t"
  obtains s where "signature lo ix t = CHR ''F'' # s"
  using assms by (cases t) (auto simp: is_fun_def)

lemma setters_unique:
  assumes "\<forall>t\<in>set ts. decodes lo ix t \<and> is_fun t" and "\<forall>t\<in>set us. type_wf t \<and> is_fun t"
    and "no_fun xs" and "no_fun ys"
    and "concat (map (signature lo ix) ts) @ xs = concat (map (signature lo ix) us) @ ys"
  shows "map canon ts = map canon us \<and> xs = ys"
  using assms
proof (induction ts arbitrary: us)
  case Nil
  show ?case
  proof (cases us)
    case (Cons u us')
    then obtain s where "signature lo ix u = CHR ''F'' # s" using Nil.prems(2) fun_hd by (metis list.set_intros(1))
    then show ?thesis using Nil.prems(3,5) Cons by auto
  qed (use Nil in simp)
next
  case (Cons t ts)
  have t: "is_fun t" "decodes lo ix t" using Cons.prems(1) by simp_all
  show ?case
  proof (cases us)
    case Nil
    obtain s where "signature lo ix t = CHR ''F'' # s" using t(1) by (rule fun_hd)
    then show ?thesis using Cons.prems(4,5) Nil by auto
  next
    case U: (Cons u us')
    have w: "type_wf u" using Cons.prems(2) U by simp
    have e: "signature lo ix t @ concat (map (signature lo ix) ts) @ xs =
        signature lo ix u @ concat (map (signature lo ix) us') @ ys"
      using Cons.prems(5) U by simp
    note D = decodesD [OF t(2) w disjI1 [OF t(1)] e]
    show ?thesis using Cons.IH [of us'] Cons.prems(1-4) U D by simp
  qed
qed

lemma decodes_property:
  assumes wf: "type_wf (PropertyT b g ss)" and "decodes lo ix g" and "\<forall>t\<in>set ss. decodes lo ix t"
  shows "decodes lo ix (PropertyT b g ss)"
  unfolding decodes_def
proof (intro allI impI)
  fix u xs ys
  assume wu: "type_wf u" and nf: "is_fun (PropertyT b g ss) \<or> no_fun xs \<and> no_fun ys"
    and e: "signature lo ix (PropertyT b g ss) @ xs = signature lo ix u @ ys"
  have "type_tag u = 5" using same_tag [OF wf wu e] by simp
  then obtain b' g' ss' where u: "u = PropertyT b' g' ss'" by (cases u) auto
  have f: "is_fun g" "is_fun g'" "type_wf g'" using wf wu by (auto simp: u is_fun_def)
  obtain s where s: "signature lo ix g = CHR ''F'' # s" using f(1) by (rule fun_hd)
  obtain s' where s': "signature lo ix g' = CHR ''F'' # s'" using f(2) by (rule fun_hd)
  have b: "b = b'" using e s s' by (cases b; cases b') (auto simp: u)
  have "signature lo ix g @ concat (map (signature lo ix) ss) @ xs =
      signature lo ix g' @ concat (map (signature lo ix) ss') @ ys"
    using e by (simp add: u b)
  note G = decodesD [OF assms(2) f(3) disjI1 [OF f(1)] this]
  have "map canon ss = map canon ss' \<and> xs = ys"
    using wf wu nf assms(3) G(2) by (intro setters_unique) (auto simp: u is_fun_def)
  then show "canon (PropertyT b g ss) = canon u \<and> xs = ys" using G(1) b by (simp add: u)
qed

lemma all_decode:
  assumes "lo_ok lo" and "ix_ok ix" and "type_wf t"
  shows "decodes lo ix t"
  using assms(3)
proof (induction t)
  case (PtrT k r f bo bc t)
  then show ?case using decodes_ptr [OF assms(1,2)] by simp
next
  case (FunctionT f cc rt as)
  have "decodes lo ix (snd a)" if "a \<in> set as" for a
    using FunctionT.IH(2) [OF that] FunctionT.prems that by (cases a) (auto simp: snds.simps)
  then show ?case using FunctionT decodes_function by simp
next
  case (PropertyT b g ss)
  then show ?case using decodes_property by simp
qed (simp_all add: decodes_prim decodes_array decodes_named)

text \<open>C8: the signature of a type determines the type, up to one confusion: a thin pointer to
  data, a function or a property has the signature of a normal reference to the same target (\<open>canon\<close>
  reads the former as the latter, also inside derived types), since the tables of prefixes have
  three entries per type kind and are indexed with a stride of two.\<close>

theorem signature_determines_type:
  assumes "lo_ok lo" and "ix_ok ix" and "type_wf t" and "type_wf u" and "signature lo ix t = signature lo ix u"
  shows "canon t = canon u"
  using decodesD(1) [OF all_decode [OF assms(1-3)] assms(4), of "[]" "[]"] assms(5) by simp

definition ix16 :: "16 word \<Rightarrow> nat" where
  "ix16 w = (case find (bit w) [0..<16] of Some i \<Rightarrow> i | None \<Rightarrow> 16)"

lemma ix16_ok: "ix_ok ix16"
proof -
  have "\<forall>i\<in>set [0..<16]. ix16 (push_bit i 1) = i" by code_simp
  then show ?thesis by (simp add: ix_ok_def)
qed

abbreviation thin_ptr :: "jty \<Rightarrow> jty" where
  "thin_ptr t \<equiv> PtrT DataPtrK False 0x200000 0 0 t"

abbreviation normal_ref :: "jty \<Rightarrow> jty" where
  "normal_ref t \<equiv> PtrT DataPtrK True 0 0 0 t"

lemma no_flags_signature:
  "appendPtrTypeFlagSignature lo ix 0x200000 = Some []" "appendPtrTypeFlagSignature lo ix 0 = Some []"
proof -
  have "(0x200000 :: 32 word) AND (PtrTypeFlag_All AND NOT PtrTypeFlag_PtrKindMask) = 0" by code_simp
  then show "appendPtrTypeFlagSignature lo ix 0x200000 = Some []"
    by (simp add: appendPtrTypeFlagSignature_def flagSignatureLoop.simps Let_def)
  show "appendPtrTypeFlagSignature lo ix 0 = Some []"
    by (simp add: appendPtrTypeFlagSignature_def flagSignatureLoop.simps Let_def)
qed

lemma thin_index: "ptr_kind_index 0x200000 = 2" "ptr_kind_index 0 = 0"
  by (code_simp, simp add: ptr_kind_index_bits)

text \<open>The confusion is real: the signature of a thin pointer is the signature of a reference,
  so \<^verbatim>\<open>isEqual\<close> takes a one-word type for a four-word one, and the signatures of functions that
  differ only there coincide too.\<close>

theorem signature_confuses_thin_and_ref:
  "signature lo ix (thin_ptr t) = signature lo ix (normal_ref t) \<and>
   signature lo ix (FunctionT f cc rt [(False, thin_ptr t)]) = signature lo ix (FunctionT f cc rt [(False, normal_ref t)])"
  by (simp add: no_flags_signature thin_index bit_range_signature_def)

lemma thin_wf: "type_wf (thin_ptr (PrimT Int32))" "type_wf (normal_ref (PrimT Int32))"
proof -
  have "(0x200000 :: 32 word) AND NOT PtrTypeFlag_All = 0" "(0x200000 :: 32 word) AND PtrTypeFlag_ConstKindMask = 0"
    by code_simp+
  then show "type_wf (thin_ptr (PrimT Int32))" "type_wf (normal_ref (PrimT Int32))"
    by (simp_all add: flags_ok_def thin_index by_value_def)
qed

theorem signature_determines_type_witness:
  "canon (thin_ptr (PrimT Int32)) = canon (normal_ref (PrimT Int32))"
  by (rule signature_determines_type [OF lo_bit_ok ix16_ok thin_wf])
    (simp add: no_flags_signature thin_index bit_range_signature_def)

section \<open>The map of types\<close>

text \<open>\<^verbatim>\<open>TypeMgr\<close> owns the types it derived (\<^verbatim>\<open>m_typeList\<close>) and finds them by their signature
  (\<^verbatim>\<open>m_typeMap\<close>). A type object is identified by its place in the list, which never changes: that
  number is the pointer the rest of the compiler holds.\<close>

record ('a, 'k) type_mgr =
  m_typeList :: "'a list"
  m_typeMap :: "'k \<Rightarrow> nat option"

text \<open>A request for a type computes its signature, returns the object found under it, or creates the
  object and enters it.\<close>

definition visit :: "('a \<Rightarrow> 'k) \<Rightarrow> 'a \<Rightarrow> ('a, 'k) type_mgr \<Rightarrow> nat \<times> ('a, 'k) type_mgr" where
  "visit key t M =
     (case m_typeMap M (key t) of
        Some i \<Rightarrow> (i, M)
      | None \<Rightarrow>
          (length (m_typeList M),
           M\<lparr>m_typeList := m_typeList M @ [t], m_typeMap := (m_typeMap M)(key t \<mapsto> length (m_typeList M))\<rparr>))"

type_synonym types = "(jty, string) type_mgr"

definition getArrayType ::
  "(32 word \<Rightarrow> 32 word) \<Rightarrow> (16 word \<Rightarrow> nat) \<Rightarrow> jty \<Rightarrow> nat \<Rightarrow> types \<Rightarrow> nat \<times> types" where
  "getArrayType lo ix elementType elementCount M = visit (signature lo ix) (ArrayT elementType elementCount) M"

definition getFunctionType ::
  "(32 word \<Rightarrow> 32 word) \<Rightarrow> (16 word \<Rightarrow> nat) \<Rightarrow> call_conv \<Rightarrow> jty \<Rightarrow> (bool \<times> jty) list \<Rightarrow> 32 word \<Rightarrow> types
   \<Rightarrow> nat \<times> types" where
  "getFunctionType lo ix callConv returnType argArray flags M =
     visit (signature lo ix) (FunctionT flags callConv returnType argArray) M"

definition getPropertyType ::
  "(32 word \<Rightarrow> 32 word) \<Rightarrow> (16 word \<Rightarrow> nat) \<Rightarrow> jty \<Rightarrow> jty list \<Rightarrow> bool \<Rightarrow> types \<Rightarrow> nat \<times> types" where
  "getPropertyType lo ix getterType setterType bindable M =
     visit (signature lo ix) (PropertyT bindable getterType setterType) M"

definition getBitFieldPtrType ::
  "(32 word \<Rightarrow> 32 word) \<Rightarrow> (16 word \<Rightarrow> nat) \<Rightarrow> jty \<Rightarrow> nat \<Rightarrow> nat \<Rightarrow> bool \<Rightarrow> 32 word \<Rightarrow> types \<Rightarrow> nat \<times> types" where
  "getBitFieldPtrType lo ix targetType bitOffset bitCount isRef flags M =
     visit (signature lo ix) (PtrT DataPtrK isRef flags bitOffset bitCount targetType) M"

text \<open>The interface of such a map: a key that identifies the values up to an equivalence. The map holds
  objects under their keys, and a later state has the same objects under the same keys.\<close>

definition keyed :: "('a \<Rightarrow> 'k) \<Rightarrow> ('a \<Rightarrow> bool) \<Rightarrow> ('a, 'k) type_mgr \<Rightarrow> bool" where
  "keyed key ok M \<longleftrightarrow>
     (\<forall>k i. m_typeMap M k = Some i \<longrightarrow> i < length (m_typeList M) \<and> ok (m_typeList M ! i) \<and> key (m_typeList M ! i) = k)"

definition extends :: "('a, 'k) type_mgr \<Rightarrow> ('a, 'k) type_mgr \<Rightarrow> bool" where
  "extends M N \<longleftrightarrow> (\<exists>ts. m_typeList N = m_typeList M @ ts) \<and> (\<forall>k i. m_typeMap M k = Some i \<longrightarrow> m_typeMap N k = Some i)"

lemma extends_nth: "extends M N \<Longrightarrow> i < length (m_typeList M) \<Longrightarrow> i < length (m_typeList N) \<and> m_typeList N ! i = m_typeList M ! i"
  by (auto simp: extends_def nth_append)

locale key_map =
  fixes key :: "'a \<Rightarrow> 'k" and ok :: "'a \<Rightarrow> bool" and same :: "'a \<Rightarrow> 'a \<Rightarrow> bool"
  assumes key_same: "ok t \<Longrightarrow> ok u \<Longrightarrow> key t = key u \<longleftrightarrow> same t u"
begin

lemma visit_object:
  assumes "keyed key ok M" and "ok t" and "visit key t M = (i, M')"
  shows "keyed key ok M'" and "extends M M'" and "m_typeMap M' (key t) = Some i"
    and "i < length (m_typeList M')" and "same t (m_typeList M' ! i)"
proof -
  have "keyed key ok M' \<and> extends M M' \<and> m_typeMap M' (key t) = Some i"
  proof (cases "m_typeMap M (key t)")
    case None
    then have "i = length (m_typeList M)"
      "M' = M\<lparr>m_typeList := m_typeList M @ [t], m_typeMap := (m_typeMap M)(key t \<mapsto> length (m_typeList M))\<rparr>"
      using assms(3) by (auto simp: visit_def)
    then show ?thesis using assms(1,2) None by (auto simp: keyed_def extends_def nth_append less_Suc_eq)
  next
    case (Some j)
    then show ?thesis using assms(1,3) by (auto simp: visit_def extends_def)
  qed
  then show k: "keyed key ok M'" "extends M M'" "m_typeMap M' (key t) = Some i" by blast+
  then have i: "i < length (m_typeList M') \<and> ok (m_typeList M' ! i) \<and> key (m_typeList M' ! i) = key t"
    by (simp add: keyed_def)
  then show "i < length (m_typeList M')" by blast
  show "same t (m_typeList M' ! i)" using key_same [OF assms(2), of "m_typeList M' ! i"] i by simp
qed

text \<open>One object for each class of values, for ever.\<close>

lemma visit_same:
  assumes "m_typeMap M (key t) = Some i" and "keyed key ok M" and "ok t" and "extends M N" and "keyed key ok N"
    and "ok u" and "visit key u N = (j, N')"
  shows "j = i \<longleftrightarrow> same u t"
proof
  have ti: "i < length (m_typeList M)" "key (m_typeList M ! i) = key t" using assms(1,2) by (auto simp: keyed_def)
  have tn: "m_typeMap N (key t) = Some i" using assms(1,4) by (simp add: extends_def)
  note v = visit_object [OF assms(5-7)]
  {
    assume "j = i"
    have "m_typeList N' ! i = m_typeList M ! i"
      using extends_nth [OF assms(4) ti(1)] extends_nth [OF v(2), of i] by simp
    moreover have "key (m_typeList N' ! i) = key u" using v(1,3) \<open>j = i\<close> by (simp add: keyed_def)
    ultimately have "key u = key t" using ti(2) by simp
    then show "same u t" using key_same [OF assms(6,3)] by simp
  next
    assume "same u t"
    then have "key u = key t" using key_same [OF assms(6,3)] by simp
    then show "j = i" using assms(7) tn by (simp add: visit_def)
  }
qed

end

text \<open>Equal up to \<open>canon\<close> is equal as signatures.\<close>

lemma no_kind_flags:
  "ptr_kind_index (f AND NOT PtrTypeFlag_PtrKindMask) = 0"
  "appendPtrTypeFlagSignature lo ix (f AND NOT PtrTypeFlag_PtrKindMask) = appendPtrTypeFlagSignature lo ix f"
proof -
  show "ptr_kind_index (f AND NOT PtrTypeFlag_PtrKindMask) = 0"
    by (simp add: ptr_kind_index_bits bit_simps)
  have "(f AND NOT PtrTypeFlag_PtrKindMask) AND (PtrTypeFlag_All AND NOT PtrTypeFlag_PtrKindMask) =
      f AND (PtrTypeFlag_All AND NOT PtrTypeFlag_PtrKindMask)"
    by (rule bit_word_eqI) (auto simp: bit_simps)
  then show "appendPtrTypeFlagSignature lo ix (f AND NOT PtrTypeFlag_PtrKindMask) = appendPtrTypeFlagSignature lo ix f"
    by (simp only: appendPtrTypeFlagSignature_def)
qed

lemma signature_canon: "signature lo ix (canon t) = signature lo ix t"
proof (induction t rule: canon.induct)
  case (4 k r f bo bc t)
  have "ptr_prefix k True (f AND NOT PtrTypeFlag_PtrKindMask) = ptr_prefix k False f"
    if "k \<noteq> ClassPtrK" "ptr_kind_index f = 2"
    using that by (cases k) (simp_all add: no_kind_flags)
  then show ?case using 4 by (auto simp: no_kind_flags)
next
  case (5 f cc rt args)
  have args: "map (arg_signature lo ix \<circ> map_prod id canon) args = map (arg_signature lo ix) args"
    by (rule map_cong [OF refl]) (use 5 in \<open>auto simp: snds.simps\<close>)
  show ?case
    unfolding canon.simps signature_strings map_map args using 5 by simp
next
  case (6 b g ss)
  then have setters: "map (signature lo ix \<circ> canon) ss = map (signature lo ix) ss" by simp
  show ?case
    unfolding canon.simps signature_strings map_map setters using 6 by simp
qed simp_all

lemma type_key_map:
  "lo_ok lo \<Longrightarrow> ix_ok ix \<Longrightarrow> key_map (signature lo ix) type_wf (\<lambda>t u. canon t = canon u)"
proof
  fix t u
  assume a: "lo_ok lo" "ix_ok ix" "type_wf t" "type_wf u"
  have "decodes lo ix t" by (rule all_decode [OF a(1-3)])
  then show "signature lo ix t = signature lo ix u \<longleftrightarrow> canon t = canon u"
    using decodesD(1) [of lo ix t u "[]" "[]"] a(4) signature_canon [of lo ix t] signature_canon [of lo ix u] by auto
qed

interpretation type_map: key_map "signature lo_bit ix16" type_wf "\<lambda>t u. canon t = canon u"
  by (rule type_key_map [OF lo_bit_ok ix16_ok])

text \<open>C24: function types are interned. Asking the type manager for one returns an object that is the type
  asked for, up to the confusion above, and keeps all objects it has; from then on, in any later state, a
  request for a function type returns that very object if and only if it asks for the same type.\<close>

theorem getFunctionType_interns:
  assumes "lo_ok lo" and "ix_ok ix" and "keyed (signature lo ix) type_wf M"
    and "type_wf (FunctionT flags cc rt args)"
    and "getFunctionType lo ix cc rt args flags M = (i, M')"
  shows "keyed (signature lo ix) type_wf M' \<and> extends M M' \<and> i < length (m_typeList M') \<and>
    canon (m_typeList M' ! i) = canon (FunctionT flags cc rt args) \<and>
    (\<forall>N flags2 cc2 rt2 args2 j N'.
       extends M' N \<and> keyed (signature lo ix) type_wf N \<and> type_wf (FunctionT flags2 cc2 rt2 args2) \<and>
       getFunctionType lo ix cc2 rt2 args2 flags2 N = (j, N') \<longrightarrow>
       (j = i \<longleftrightarrow> canon (FunctionT flags2 cc2 rt2 args2) = canon (FunctionT flags cc rt args)))"
proof -
  note K = type_key_map [OF assms(1,2)]
  note v = key_map.visit_object [OF K assms(3,4) assms(5) [unfolded getFunctionType_def]]
  have "j = i \<longleftrightarrow> canon (FunctionT flags2 cc2 rt2 args2) = canon (FunctionT flags cc rt args)"
    if "extends M' N" "keyed (signature lo ix) type_wf N" "type_wf (FunctionT flags2 cc2 rt2 args2)"
      "getFunctionType lo ix cc2 rt2 args2 flags2 N = (j, N')" for N flags2 cc2 rt2 args2 j N'
    by (rule key_map.visit_same [OF K v(3,1) assms(4) that(1-3) that(4) [unfolded getFunctionType_def]])
  then show ?thesis using v by metis
qed

theorem getFunctionType_interns_witness:
  "\<exists>i M'. getFunctionType lo_bit ix16 Jnccall_gcc64 (PrimT Void) [(False, PrimT Int32)] 0 \<lparr>m_typeList = [], m_typeMap = Map.empty\<rparr> =
     (i, M') \<and> canon (m_typeList M' ! i) = FunctionT 0 Jnccall_gcc64 (PrimT Void) [(False, PrimT Int32)]"
proof -
  let ?M = "\<lparr>m_typeList = [], m_typeMap = Map.empty\<rparr> :: types"
  have wf: "type_wf (FunctionT 0 Jnccall_gcc64 (PrimT Void) [(False, PrimT Int32)])"
    by (simp add: function_flags_ok_def by_value_def)
  obtain i M' where r: "getFunctionType lo_bit ix16 Jnccall_gcc64 (PrimT Void) [(False, PrimT Int32)] 0 ?M = (i, M')"
    by fastforce
  have "keyed (signature lo_bit ix16) type_wf ?M" by (simp add: keyed_def)
  from getFunctionType_interns [OF lo_bit_ok ix16_ok this wf r] r show ?thesis by simp
qed

end
