(* ===== verification/IntKinds.thy ===== *)
theory IntKinds
  imports TypeSignature
begin

text \<open>
  The type of an integer literal: \<^verbatim>\<open>getInt32TypeKind\<close>, \<^verbatim>\<open>getInt64TypeKind\<close> and their
  unsigned variants (\<^verbatim>\<open>jnc_ct_Type.cpp\<close>) choose a small integer kind for a constant.
\<close>

definition getInt32TypeKind :: "32 word \<Rightarrow> prim_kind" where
  "getInt32TypeKind i =
     (if sint i \<ge> - 128 \<and> sint i \<le> 127 then Int8
      else if uint i \<le> 255 then Int8_u
      else if sint i \<ge> - 32768 \<and> sint i \<le> 32767 then Int16
      else if uint i \<le> 65535 then Int16_u
      else Int32)"

definition getInt32TypeKind_u :: "32 word \<Rightarrow> prim_kind" where
  "getInt32TypeKind_u i =
     (if uint i \<le> 127 then Int8
      else if uint i \<le> 255 then Int8_u
      else if uint i \<le> 32767 then Int16
      else if uint i \<le> 65535 then Int16_u
      else if uint i \<le> 2147483647 then Int32
      else Int32_u)"

definition getInt64TypeKind :: "64 word \<Rightarrow> prim_kind" where
  "getInt64TypeKind i =
     (if sint i \<ge> - 128 \<and> sint i \<le> 127 then Int8
      else if uint i \<le> 255 then Int8_u
      else if sint i \<ge> - 32768 \<and> sint i \<le> 32767 then Int16
      else if uint i \<le> 65535 then Int16_u
      else if sint i \<ge> - 2147483648 \<and> sint i \<le> 2147483647 then Int32
      else if uint i \<le> 4294967295 then Int32_u
      else Int64)"

definition getInt64TypeKind_u :: "64 word \<Rightarrow> prim_kind" where
  "getInt64TypeKind_u i =
     (if uint i \<le> 127 then Int8
      else if uint i \<le> 255 then Int8_u
      else if uint i \<le> 32767 then Int16
      else if uint i \<le> 65535 then Int16_u
      else if uint i \<le> 2147483647 then Int32
      else if uint i \<le> 4294967295 then Int32_u
      else if uint i \<le> 9223372036854775807 then Int64
      else Int64_u)"

text \<open>The values of an integer kind and its size.\<close>

fun kind_bits :: "prim_kind \<Rightarrow> nat option" where
  "kind_bits Int8 = Some 8" | "kind_bits Int8_u = Some 8"
| "kind_bits Int16 = Some 16" | "kind_bits Int16_u = Some 16"
| "kind_bits Int32 = Some 32" | "kind_bits Int32_u = Some 32"
| "kind_bits Int64 = Some 64" | "kind_bits Int64_u = Some 64"
| "kind_bits k = None"

fun kind_range :: "prim_kind \<Rightarrow> int set" where
  "kind_range Int8 = {- 128..127}" | "kind_range Int8_u = {0..255}"
| "kind_range Int16 = {- 32768..32767}" | "kind_range Int16_u = {0..65535}"
| "kind_range Int32 = {- 2147483648..2147483647}" | "kind_range Int32_u = {0..4294967295}"
| "kind_range Int64 = {- 9223372036854775808..9223372036854775807}"
| "kind_range Int64_u = {0..18446744073709551615}"
| "kind_range k = {}"

definition smallest_kind :: "int \<Rightarrow> prim_kind \<Rightarrow> bool" where
  "smallest_kind n k \<longleftrightarrow>
     n \<in> kind_range k \<and> (\<forall>k'. n \<in> kind_range k' \<longrightarrow> the (kind_bits k) \<le> the (kind_bits k'))"

lemma mod_window:
  assumes "- h \<le> n" and "n < (h :: int)" and "n mod M = u" and "M = 2 * h"
  shows "n = (if u < h then u else u - M)"
proof (cases "0 \<le> n")
  case True
  then have "u = n" using assms by simp
  then show ?thesis using assms(2) by simp
next
  case False
  then have "(n + M) mod M = n + M" using assms(1,2,4) by (intro mod_pos_pos_trivial) auto
  then have "u = n + M" using assms(3) by simp
  then show ?thesis using assms by simp
qed

lemma sint_uint_32: "sint (i :: 32 word) = (if uint i < 2147483648 then uint i else uint i - 4294967296)"
proof -
  have "sint i mod 4294967296 = uint i" by (simp add: uint_sint take_bit_eq_mod)
  moreover have "- 2147483648 \<le> sint i" "sint i < 2147483648" using sint_ge [of i] sint_lt [of i] by simp_all
  ultimately show ?thesis by (intro mod_window) simp_all
qed

lemma sint_uint_64: "sint (i :: 64 word) =
    (if uint i < 9223372036854775808 then uint i else uint i - 18446744073709551616)"
proof -
  have "sint i mod 18446744073709551616 = uint i" by (simp add: uint_sint take_bit_eq_mod)
  moreover have "- 9223372036854775808 \<le> sint i" "sint i < 9223372036854775808"
    using sint_ge [of i] sint_lt [of i] by simp_all
  ultimately show ?thesis by (intro mod_window) simp_all
qed

text \<open>Which values need how many bits.\<close>

lemma kind_bits_ge:
  assumes "n \<in> kind_range k"
  shows "8 \<le> the (kind_bits k)" and "n < - 128 \<or> n > 255 \<Longrightarrow> 16 \<le> the (kind_bits k)"
    and "n < - 32768 \<or> n > 65535 \<Longrightarrow> 32 \<le> the (kind_bits k)"
    and "n < - 2147483648 \<or> n > 4294967295 \<Longrightarrow> 64 \<le> the (kind_bits k)"
  using assms by (cases k; simp)+

lemma smallest_kindI:
  assumes "n \<in> kind_range k"
    and "(case the (kind_bits k) of b \<Rightarrow>
           b \<le> 8 \<or> b \<le> 16 \<and> (n < - 128 \<or> n > 255) \<or> b \<le> 32 \<and> (n < - 32768 \<or> n > 65535) \<or>
           b \<le> 64 \<and> (n < - 2147483648 \<or> n > 4294967295))"
  shows "smallest_kind n k"
  using assms kind_bits_ge [of n] unfolding smallest_kind_def by (auto intro: le_trans)

text \<open>Each of the four functions returns an integer kind that can represent the constant, and
  none of the integer kinds that can is smaller.\<close>

theorem int_type_kind_smallest:
  "smallest_kind (sint i) (getInt32TypeKind i) \<and> smallest_kind (uint i) (getInt32TypeKind_u i) \<and>
   smallest_kind (sint j) (getInt64TypeKind j) \<and> smallest_kind (uint j) (getInt64TypeKind_u j)"
proof (intro conjI)
  define m n where "m = uint i" and "n = uint j"
  have b: "0 \<le> m" "m < 4294967296" "0 \<le> n" "n < 18446744073709551616"
    using uint_bounded [of i] uint_bounded [of j] by (simp_all add: m_def n_def)
  show "smallest_kind (sint i) (getInt32TypeKind i)"
    unfolding getInt32TypeKind_def sint_uint_32 m_def [symmetric]
    by (intro smallest_kindI) (use b in auto)
  show "smallest_kind (uint i) (getInt32TypeKind_u i)"
    unfolding getInt32TypeKind_u_def m_def [symmetric] by (intro smallest_kindI) (use b in auto)
  show "smallest_kind (sint j) (getInt64TypeKind j)"
    unfolding getInt64TypeKind_def sint_uint_64 n_def [symmetric]
    by (intro smallest_kindI) (use b in auto)
  show "smallest_kind (uint j) (getInt64TypeKind_u j)"
    unfolding getInt64TypeKind_u_def n_def [symmetric] by (intro smallest_kindI) (use b in auto)
qed

text \<open>Operand types of arithmetic: \<^verbatim>\<open>getArithmeticOperatorResultType\<close>
  (\<^verbatim>\<open>jnc_ct_UnOp_Arithmetic.cpp\<close>). An enum counts as its base type; \<open>None\<close> is the \<^verbatim>\<open>NULL\<close> for
  a type without arithmetic.\<close>

datatype operand_type = PrimOperand prim_kind | EnumOperand operand_type | OtherOperand

fun getArithmeticOperatorResultType :: "operand_type \<Rightarrow> prim_kind option" where
  "getArithmeticOperatorResultType (EnumOperand b) = getArithmeticOperatorResultType b"
| "getArithmeticOperatorResultType OtherOperand = None"
| "getArithmeticOperatorResultType (PrimOperand k) =
     (case k of
        Void \<Rightarrow> None | Variant \<Rightarrow> None | StringT \<Rightarrow> None
      | Bool1 \<Rightarrow> Some Int32 | Bool8 \<Rightarrow> Some Int32 | Int8 \<Rightarrow> Some Int32 | Int8_u \<Rightarrow> Some Int32
      | Int16 \<Rightarrow> Some Int32 | Int16_u \<Rightarrow> Some Int32 | Int32 \<Rightarrow> Some Int32 | Int32_u \<Rightarrow> Some Int32_u
      | Int64 \<Rightarrow> Some Int64 | Int64_u \<Rightarrow> Some Int64_u | Float \<Rightarrow> Some Float | Double \<Rightarrow> Some Double)"

fun operand_kind :: "operand_type \<Rightarrow> prim_kind option" where
  "operand_kind (PrimOperand k) = Some k"
| "operand_kind (EnumOperand b) = operand_kind b"
| "operand_kind OtherOperand = None"

text \<open>The promoted type of an arithmetic operand loses no value of an integer operand, and
  promoting it again changes nothing.\<close>

theorem arithmetic_promotion:
  assumes "getArithmeticOperatorResultType t = Some k"
  shows "(\<exists>k'. operand_kind t = Some k' \<and> kind_range k' \<subseteq> kind_range k) \<and>
    getArithmeticOperatorResultType (PrimOperand k) = Some k"
  using assms
proof (induction t rule: getArithmeticOperatorResultType.induct)
  case (3 k')
  then show ?case by (cases k') auto
qed auto

theorem arithmetic_promotion_witness:
  "getArithmeticOperatorResultType (EnumOperand (PrimOperand Int8_u)) = Some Int32 \<and>
   kind_range Int8_u \<subseteq> kind_range Int32"
  using arithmetic_promotion [of "EnumOperand (PrimOperand Int8_u)" Int32] by simp

end
