(* ===== verification/ConstFold.thy ===== *)
theory ConstFold
  imports IntKinds "HOL-Library.Signed_Division"
begin

text \<open>
  Operators on integers and booleans (\<^verbatim>\<open>jnc_ct_BinOp_Arithmetic\<close>, \<^verbatim>\<open>jnc_ct_BinOp_Cmp\<close>,
  \<^verbatim>\<open>jnc_ct_UnOp_Arithmetic\<close>, \<^verbatim>\<open>jnc_ct_UnOp_LogNot\<close>, \<^verbatim>\<open>jnc_ct_CastOp_Int\<close>,
  \<^verbatim>\<open>jnc_ct_CastOp_Bool\<close>). Each operator has two halves: on two constants the compiler computes
  the result itself, on bytes in its own memory; otherwise it emits an LLVM instruction. The
  instructions are LLVM's, so their meaning is a parameter: a record \<open>llvm\<close> with the documented
  behaviour as the predicate \<open>llvm_ok\<close>. A value of the model is a constant (bytes, least
  significant first) or a register with the bits it will hold at run time.

  Not modelled here: floating point, strings, variants, pointers and enums (\<open>OtherFamily\<close>; an
  enum operand has become its base type in \<^verbatim>\<open>prepareOperand\<close>), operator overloading, and the mode
  without code generation, which computes types only. Overflow of signed \<^verbatim>\<open>+\<close>, \<^verbatim>\<open>-\<close>, \<^verbatim>\<open>*\<close> and the
  shift of a negative number, which C++ leaves open, wrap as they do on every supported target.
\<close>

section \<open>Kinds\<close>

text \<open>The order of \<^verbatim>\<open>jnc_TypeKind\<close> decides which of two operand types wins.\<close>

primrec kind_index :: "prim_kind \<Rightarrow> nat" where
  "kind_index Void = 0" | "kind_index Variant = 1" | "kind_index StringT = 2"
| "kind_index Bool1 = 3" | "kind_index Bool8 = 4" | "kind_index Int8 = 5" | "kind_index Int8_u = 6"
| "kind_index Int16 = 7" | "kind_index Int16_u = 8" | "kind_index Int32 = 9"
| "kind_index Int32_u = 10" | "kind_index Int64 = 11" | "kind_index Int64_u = 12"
| "kind_index Float = 13" | "kind_index Double = 14"

instantiation prim_kind :: linorder
begin

definition less_eq_prim_kind :: "prim_kind \<Rightarrow> prim_kind \<Rightarrow> bool" where
  "k \<le> l \<longleftrightarrow> kind_index k \<le> kind_index l"

definition less_prim_kind :: "prim_kind \<Rightarrow> prim_kind \<Rightarrow> bool" where
  "k < l \<longleftrightarrow> kind_index k < kind_index l"

instance
proof
  fix k l :: prim_kind
  assume "k \<le> l" and "l \<le> k"
  then have "kind_index k = kind_index l" by (simp add: less_eq_prim_kind_def)
  then show "k = l" by (cases k; cases l; simp)
qed (auto simp: less_eq_prim_kind_def less_prim_kind_def)

end

primrec prim_size :: "prim_kind \<Rightarrow> nat" where
  "prim_size Void = 0" | "prim_size Variant = 64" | "prim_size StringT = 40"
| "prim_size Bool1 = 1" | "prim_size Bool8 = 1" | "prim_size Int8 = 1" | "prim_size Int8_u = 1"
| "prim_size Int16 = 2" | "prim_size Int16_u = 2" | "prim_size Int32 = 4"
| "prim_size Int32_u = 4" | "prim_size Int64 = 8" | "prim_size Int64_u = 8"
| "prim_size Float = 4" | "prim_size Double = 8"

definition is_unsigned :: "prim_kind \<Rightarrow> bool" where
  "is_unsigned k \<longleftrightarrow> k \<in> {Int8_u, Int16_u, Int32_u, Int64_u}"

definition is_bool :: "prim_kind \<Rightarrow> bool" where
  "is_bool k \<longleftrightarrow> k \<in> {Bool1, Bool8}"

definition is_integer :: "prim_kind \<Rightarrow> bool" where
  "is_integer k \<longleftrightarrow> Bool1 \<le> k \<and> k \<le> Int64_u"

definition is_fp :: "prim_kind \<Rightarrow> bool" where
  "is_fp k \<longleftrightarrow> k \<in> {Float, Double}"


section \<open>Values\<close>

text \<open>\<^verbatim>\<open>ConstV\<close> is a value of kind \<^verbatim>\<open>ValueKind_Const\<close> with its data, \<^verbatim>\<open>RegV\<close> an LLVM register
  with the unsigned reading of its bits. The accessors read the first bytes of the data.\<close>

datatype jvalue = ConstV (v_kind: prim_kind) (v_data: "8 word list") | RegV (v_kind: prim_kind) (v_bits: int)

definition bytes_int :: "8 word list \<Rightarrow> int" where
  "bytes_int bs = horner_sum uint 256 bs"

primrec int_bytes :: "nat \<Rightarrow> int \<Rightarrow> 8 word list" where
  "int_bytes 0 n = []"
| "int_bytes (Suc k) n = word_of_int n # int_bytes k (n div 256)"

definition getInt32 :: "8 word list \<Rightarrow> 32 word" where
  "getInt32 bs = word_of_int (bytes_int (take 4 bs))"

definition getInt64 :: "8 word list \<Rightarrow> 64 word" where
  "getInt64 bs = word_of_int (bytes_int (take 8 bs))"

definition createConst :: "int \<Rightarrow> prim_kind \<Rightarrow> jvalue" where
  "createConst n k = ConstV k (int_bytes (prim_size k) n)"

definition getZeroValue :: "prim_kind \<Rightarrow> jvalue" where
  "getZeroValue k = createConst 0 k"

definition setConstBool1 :: "bool \<Rightarrow> jvalue" where
  "setConstBool1 b = createConst (of_bool b) Bool1"

text \<open>The width of the LLVM type of a kind, and the constant a value becomes in an instruction:
  one bit for \<^verbatim>\<open>bool\<close>, the bytes of an integer otherwise.\<close>

definition llvm_width :: "prim_kind \<Rightarrow> nat" where
  "llvm_width k = (if k = Bool1 then 1 else 8 * prim_size k)"

definition getLlvmConst :: "prim_kind \<Rightarrow> 8 word list \<Rightarrow> int" where
  "getLlvmConst k bs = (if k = Bool1 then of_bool (hd bs \<noteq> 0) else bytes_int (take (prim_size k) bs))"

fun getLlvmValue :: "jvalue \<Rightarrow> int" where
  "getLlvmValue (ConstV k bs) = getLlvmConst k bs"
| "getLlvmValue (RegV k n) = n"

section \<open>LLVM\<close>

datatype llvm_bin =
    CreateAdd | CreateSub | CreateMul | CreateSDiv | CreateUDiv | CreateSRem | CreateURem
  | CreateShl | CreateLShr | CreateAnd | CreateOr | CreateXor

datatype llvm_pred =
    ICmpEQ | ICmpNE | ICmpSLT | ICmpULT | ICmpSLE | ICmpULE | ICmpSGT | ICmpUGT | ICmpSGE | ICmpUGE

datatype llvm_cast = CreateTrunc | CreateSExt | CreateZExt

text \<open>What the generated instructions do on registers of a width. \<open>None\<close> is undefined behaviour or
  a poison value.\<close>

record llvm =
  l_bin :: "llvm_bin \<Rightarrow> nat \<Rightarrow> int \<Rightarrow> int \<Rightarrow> int option"
  l_icmp :: "llvm_pred \<Rightarrow> nat \<Rightarrow> int \<Rightarrow> int \<Rightarrow> bool"
  l_neg :: "nat \<Rightarrow> int \<Rightarrow> int"
  l_not :: "nat \<Rightarrow> int \<Rightarrow> int"
  l_cast :: "llvm_cast \<Rightarrow> nat \<Rightarrow> nat \<Rightarrow> int \<Rightarrow> int"

definition sreg :: "nat \<Rightarrow> int \<Rightarrow> int" where
  "sreg w a = signed_take_bit (w - 1) a"

fun ref_bin :: "llvm_bin \<Rightarrow> nat \<Rightarrow> int \<Rightarrow> int \<Rightarrow> int option" where
  "ref_bin CreateAdd w a b = Some (take_bit w (a + b))"
| "ref_bin CreateSub w a b = Some (take_bit w (a - b))"
| "ref_bin CreateMul w a b = Some (take_bit w (a * b))"
| "ref_bin CreateSDiv w a b =
     (if b = 0 \<or> a = 2 ^ (w - 1) \<and> b = 2 ^ w - 1 then None
      else Some (take_bit w (sreg w a sdiv sreg w b)))"
| "ref_bin CreateUDiv w a b = (if b = 0 then None else Some (a div b))"
| "ref_bin CreateSRem w a b =
     (if b = 0 \<or> a = 2 ^ (w - 1) \<and> b = 2 ^ w - 1 then None
      else Some (take_bit w (sreg w a smod sreg w b)))"
| "ref_bin CreateURem w a b = (if b = 0 then None else Some (a mod b))"
| "ref_bin CreateShl w a b = (if b \<ge> int w then None else Some (take_bit w (push_bit (nat b) a)))"
| "ref_bin CreateLShr w a b = (if b \<ge> int w then None else Some (drop_bit (nat b) a))"
| "ref_bin CreateAnd w a b = Some (a AND b)"
| "ref_bin CreateOr w a b = Some (a OR b)"
| "ref_bin CreateXor w a b = Some (a XOR b)"

fun ref_icmp :: "llvm_pred \<Rightarrow> nat \<Rightarrow> int \<Rightarrow> int \<Rightarrow> bool" where
  "ref_icmp ICmpEQ w a b \<longleftrightarrow> a = b"
| "ref_icmp ICmpNE w a b \<longleftrightarrow> a \<noteq> b"
| "ref_icmp ICmpSLT w a b \<longleftrightarrow> sreg w a < sreg w b"
| "ref_icmp ICmpULT w a b \<longleftrightarrow> a < b"
| "ref_icmp ICmpSLE w a b \<longleftrightarrow> sreg w a \<le> sreg w b"
| "ref_icmp ICmpULE w a b \<longleftrightarrow> a \<le> b"
| "ref_icmp ICmpSGT w a b \<longleftrightarrow> sreg w a > sreg w b"
| "ref_icmp ICmpUGT w a b \<longleftrightarrow> a > b"
| "ref_icmp ICmpSGE w a b \<longleftrightarrow> sreg w a \<ge> sreg w b"
| "ref_icmp ICmpUGE w a b \<longleftrightarrow> a \<ge> b"

fun ref_cast :: "llvm_cast \<Rightarrow> nat \<Rightarrow> nat \<Rightarrow> int \<Rightarrow> int" where
  "ref_cast CreateTrunc w v a = take_bit v a"
| "ref_cast CreateSExt w v a = take_bit v (sreg w a)"
| "ref_cast CreateZExt w v a = a"

definition llvm_ref :: llvm where
  "llvm_ref = \<lparr>l_bin = ref_bin, l_icmp = ref_icmp, l_neg = (\<lambda>w a. take_bit w (- a)),
     l_not = (\<lambda>w a. take_bit w (NOT a)), l_cast = ref_cast\<rparr>"

text \<open>The documented behaviour: on registers of the width, the instructions agree with the
  functions above.\<close>

definition reg_ok :: "nat \<Rightarrow> int \<Rightarrow> bool" where
  "reg_ok w a \<longleftrightarrow> 0 \<le> a \<and> a < 2 ^ w"

definition llvm_ok :: "llvm \<Rightarrow> bool" where
  "llvm_ok L \<longleftrightarrow> (\<forall>w a b. 0 < w \<longrightarrow> reg_ok w a \<longrightarrow> reg_ok w b \<longrightarrow>
     (\<forall>i. l_bin L i w a b = ref_bin i w a b) \<and> (\<forall>p. l_icmp L p w a b = ref_icmp p w a b) \<and>
     l_neg L w a = take_bit w (- a) \<and> l_not L w a = take_bit w (NOT a) \<and>
     (\<forall>v. v \<le> w \<longrightarrow> l_cast L CreateTrunc w v a = ref_cast CreateTrunc w v a) \<and>
     (\<forall>v. w \<le> v \<longrightarrow> l_cast L CreateSExt w v a = ref_cast CreateSExt w v a \<and>
       l_cast L CreateZExt w v a = ref_cast CreateZExt w v a))"

lemma llvm_ref_ok: "llvm_ok llvm_ref"
  by (simp add: llvm_ok_def llvm_ref_def)


section \<open>Constant halves of the operators\<close>

text \<open>\<^verbatim>\<open>constOpInt32\<close> and \<^verbatim>\<open>constOpInt64\<close> of each operator class, at both widths. \<open>None\<close> is what
  C++ leaves undefined and no target gives a value to: division by zero, the quotient of the
  least number by -1, and a shift count that is negative or not below the width.\<close>

type_synonym 'w const_op = "'w word \<Rightarrow> 'w word \<Rightarrow> bool \<Rightarrow> 'w word option"

definition Add_constOp :: "'w::len const_op" where
  "Add_constOp a b isUnsigned = Some (a + b)"

definition Sub_constOp :: "'w::len const_op" where
  "Sub_constOp a b isUnsigned = Some (a - b)"

definition Mul_constOp :: "'w::len const_op" where
  "Mul_constOp a b isUnsigned = Some (a * b)"

definition sdiv_undefined :: "'w::len word \<Rightarrow> 'w word \<Rightarrow> bool" where
  "sdiv_undefined a b \<longleftrightarrow> b = 0 \<or> a = push_bit (LENGTH('w) - 1) 1 \<and> b = - 1"

definition Div_constOp :: "'w::len const_op" where
  "Div_constOp a b isUnsigned =
     (if isUnsigned then if b = 0 then None else Some (a div b)
      else if sdiv_undefined a b then None else Some (word_of_int (sint a sdiv sint b)))"

definition Mod_constOp :: "'w::len const_op" where
  "Mod_constOp a b isUnsigned =
     (if isUnsigned then if b = 0 then None else Some (a mod b)
      else if sdiv_undefined a b then None else Some (word_of_int (sint a smod sint b)))"

definition Shl_constOp :: "'w::len const_op" where
  "Shl_constOp a b isUnsigned = (if unat b \<ge> LENGTH('w) then None else Some (push_bit (unat b) a))"

definition Shr_constOp :: "'w::len const_op" where
  "Shr_constOp a b isUnsigned =
     (if unat b \<ge> LENGTH('w) then None else Some (signed_drop_bit (unat b) a))"

definition BwAnd_constOp :: "'w::len const_op" where
  "BwAnd_constOp a b isUnsigned = Some (a AND b)"

definition BwOr_constOp :: "'w::len const_op" where
  "BwOr_constOp a b isUnsigned = Some (a OR b)"

definition BwXor_constOp :: "'w::len const_op" where
  "BwXor_constOp a b isUnsigned = Some (a XOR b)"

text \<open>The comparisons.\<close>

type_synonym 'w const_cmp = "'w word \<Rightarrow> 'w word \<Rightarrow> bool \<Rightarrow> bool"

definition Eq_constOp :: "'w::len const_cmp" where
  "Eq_constOp a b isUnsigned \<longleftrightarrow> a = b"

definition Ne_constOp :: "'w::len const_cmp" where
  "Ne_constOp a b isUnsigned \<longleftrightarrow> a \<noteq> b"

definition Lt_constOp :: "'w::len const_cmp" where
  "Lt_constOp a b isUnsigned \<longleftrightarrow> (if isUnsigned then uint a < uint b else sint a < sint b)"

definition Le_constOp :: "'w::len const_cmp" where
  "Le_constOp a b isUnsigned \<longleftrightarrow> (if isUnsigned then uint a \<le> uint b else sint a \<le> sint b)"

definition Gt_constOp :: "'w::len const_cmp" where
  "Gt_constOp a b isUnsigned \<longleftrightarrow> (if isUnsigned then uint a > uint b else sint a > sint b)"

definition Ge_constOp :: "'w::len const_cmp" where
  "Ge_constOp a b isUnsigned \<longleftrightarrow> (if isUnsigned then uint a \<ge> uint b else sint a \<ge> sint b)"

text \<open>Unary plus, minus and complement.\<close>

definition Plus_constOp :: "'w::len word \<Rightarrow> 'w word" where
  "Plus_constOp a = a"

definition Minus_constOp :: "'w::len word \<Rightarrow> 'w word" where
  "Minus_constOp a = - a"

definition BwNot_constOp :: "'w::len word \<Rightarrow> 'w word" where
  "BwNot_constOp a = NOT a"

text \<open>The operator tables of \<^verbatim>\<open>OperatorMgr\<close>.\<close>

datatype bin_op =
    BinOp_Add | BinOp_Sub | BinOp_Mul | BinOp_Div | BinOp_Mod | BinOp_Shl | BinOp_Shr
  | BinOp_BwAnd | BinOp_BwXor | BinOp_BwOr

datatype cmp_op = BinOp_Eq | BinOp_Ne | BinOp_Lt | BinOp_Le | BinOp_Gt | BinOp_Ge

datatype un_op = UnOp_Plus | UnOp_Minus | UnOp_BwNot

primrec constOpInt :: "bin_op \<Rightarrow> 'w::len const_op" where
  "constOpInt BinOp_Add = Add_constOp" | "constOpInt BinOp_Sub = Sub_constOp"
| "constOpInt BinOp_Mul = Mul_constOp" | "constOpInt BinOp_Div = Div_constOp"
| "constOpInt BinOp_Mod = Mod_constOp" | "constOpInt BinOp_Shl = Shl_constOp"
| "constOpInt BinOp_Shr = Shr_constOp" | "constOpInt BinOp_BwAnd = BwAnd_constOp"
| "constOpInt BinOp_BwXor = BwXor_constOp" | "constOpInt BinOp_BwOr = BwOr_constOp"

primrec constCmpInt :: "cmp_op \<Rightarrow> 'w::len const_cmp" where
  "constCmpInt BinOp_Eq = Eq_constOp" | "constCmpInt BinOp_Ne = Ne_constOp"
| "constCmpInt BinOp_Lt = Lt_constOp" | "constCmpInt BinOp_Le = Le_constOp"
| "constCmpInt BinOp_Gt = Gt_constOp" | "constCmpInt BinOp_Ge = Ge_constOp"

primrec constUnInt :: "un_op \<Rightarrow> 'w::len word \<Rightarrow> 'w word" where
  "constUnInt UnOp_Plus = Plus_constOp"
| "constUnInt UnOp_Minus = Minus_constOp"
| "constUnInt UnOp_BwNot = BwNot_constOp"

primrec isIntegerOnly :: "bin_op \<Rightarrow> bool" where
  "isIntegerOnly BinOp_Add \<longleftrightarrow> False" | "isIntegerOnly BinOp_Sub \<longleftrightarrow> False"
| "isIntegerOnly BinOp_Mul \<longleftrightarrow> False" | "isIntegerOnly BinOp_Div \<longleftrightarrow> False"
| "isIntegerOnly BinOp_Mod \<longleftrightarrow> True" | "isIntegerOnly BinOp_Shl \<longleftrightarrow> True"
| "isIntegerOnly BinOp_Shr \<longleftrightarrow> True" | "isIntegerOnly BinOp_BwAnd \<longleftrightarrow> True"
| "isIntegerOnly BinOp_BwXor \<longleftrightarrow> True" | "isIntegerOnly BinOp_BwOr \<longleftrightarrow> True"

section \<open>Instruction halves of the operators\<close>

primrec llvmOpInt :: "bin_op \<Rightarrow> bool \<Rightarrow> llvm_bin" where
  "llvmOpInt BinOp_Add u = CreateAdd"
| "llvmOpInt BinOp_Sub u = CreateSub"
| "llvmOpInt BinOp_Mul u = CreateMul"
| "llvmOpInt BinOp_Div u = (if u then CreateUDiv else CreateSDiv)"
| "llvmOpInt BinOp_Mod u = (if u then CreateURem else CreateSRem)"
| "llvmOpInt BinOp_Shl u = CreateShl"
| "llvmOpInt BinOp_Shr u = CreateLShr"
| "llvmOpInt BinOp_BwAnd u = CreateAnd"
| "llvmOpInt BinOp_BwXor u = CreateXor"
| "llvmOpInt BinOp_BwOr u = CreateOr"

primrec llvmCmpInt :: "cmp_op \<Rightarrow> bool \<Rightarrow> llvm_pred" where
  "llvmCmpInt BinOp_Eq u = ICmpEQ"
| "llvmCmpInt BinOp_Ne u = ICmpNE"
| "llvmCmpInt BinOp_Lt u = (if u then ICmpULT else ICmpSLT)"
| "llvmCmpInt BinOp_Le u = (if u then ICmpULE else ICmpSLE)"
| "llvmCmpInt BinOp_Gt u = (if u then ICmpUGT else ICmpSGT)"
| "llvmCmpInt BinOp_Ge u = (if u then ICmpUGE else ICmpSGE)"

primrec llvmUnInt :: "llvm \<Rightarrow> un_op \<Rightarrow> nat \<Rightarrow> int \<Rightarrow> int" where
  "llvmUnInt L UnOp_Plus = (\<lambda>w a. a)"
| "llvmUnInt L UnOp_Minus = l_neg L"
| "llvmUnInt L UnOp_BwNot = l_not L"

section \<open>Casts\<close>

text \<open>\<open>OperatorError\<close> is \<^verbatim>\<open>setOperatorError\<close>, \<open>CastError\<close> is \<^verbatim>\<open>setCastError\<close>, \<open>Undefined\<close> an
  undefined operation (a crash of the compiler, or of the program).\<close>

datatype op_error = OperatorError | CastError | Undefined | OtherFamily

type_synonym op_result = "op_error + jvalue"

text \<open>The constant casts write the bytes of the destination.\<close>

definition IntTrunc_constCast :: "nat \<Rightarrow> 8 word list \<Rightarrow> 8 word list" where
  "IntTrunc_constCast dstSize bs = take dstSize bs"

definition IntExt_constCast :: "nat \<Rightarrow> 8 word list \<Rightarrow> 8 word list" where
  "IntExt_constCast dstSize bs =
     bs @ replicate (dstSize - length bs) (if bit (last bs) 7 then - 1 else 0)"

definition IntExt_u_constCast :: "nat \<Rightarrow> 8 word list \<Rightarrow> 8 word list" where
  "IntExt_u_constCast dstSize bs = bs @ replicate (dstSize - length bs) 0"

definition Copy_constCast :: "nat \<Rightarrow> 8 word list \<Rightarrow> 8 word list" where
  "Copy_constCast dstSize bs = take dstSize bs"

definition BoolFromZeroCmp_constCast :: "8 word list \<Rightarrow> 8 word list" where
  "BoolFromZeroCmp_constCast bs = [of_bool (bytes_int bs \<noteq> 0)]"

definition BoolFromBool_constCast :: "8 word list \<Rightarrow> 8 word list" where
  "BoolFromBool_constCast bs = [hd bs]"

text \<open>\<^verbatim>\<open>Cast_Int::getCastOperator\<close> selects a cast to an integer kind; \<^verbatim>\<open>CastOperator::cast\<close> runs
  its constant half on a constant and its instruction otherwise.\<close>

datatype int_cast = Cast_Copy | Cast_IntTrunc | Cast_IntExt | Cast_IntExt_u

definition Cast_Int_getCastOperator :: "prim_kind \<Rightarrow> prim_kind \<Rightarrow> op_error + int_cast" where
  "Cast_Int_getCastOperator src dst =
     (if src = Bool1 then Inr Cast_IntExt_u
      else if is_integer src then
        Inr (if prim_size src = prim_size dst then Cast_Copy
             else if prim_size src > prim_size dst then Cast_IntTrunc
             else if is_unsigned src then Cast_IntExt_u else Cast_IntExt)
      else if is_fp src then Inl OtherFamily
      else Inl CastError)"

primrec constCast :: "int_cast \<Rightarrow> nat \<Rightarrow> 8 word list \<Rightarrow> 8 word list" where
  "constCast Cast_Copy = Copy_constCast"
| "constCast Cast_IntTrunc = IntTrunc_constCast"
| "constCast Cast_IntExt = IntExt_constCast"
| "constCast Cast_IntExt_u = IntExt_u_constCast"

primrec llvmCast :: "llvm \<Rightarrow> int_cast \<Rightarrow> nat \<Rightarrow> nat \<Rightarrow> int \<Rightarrow> int" where
  "llvmCast L Cast_Copy = (\<lambda>w v a. a)"
| "llvmCast L Cast_IntTrunc = l_cast L CreateTrunc"
| "llvmCast L Cast_IntExt = l_cast L CreateSExt"
| "llvmCast L Cast_IntExt_u = l_cast L CreateZExt"

definition run_cast :: "llvm \<Rightarrow> int_cast \<Rightarrow> jvalue \<Rightarrow> prim_kind \<Rightarrow> jvalue" where
  "run_cast L c v dst =
     (case v of
        ConstV k bs \<Rightarrow> ConstV dst (constCast c (prim_size dst) (take (prim_size k) bs))
      | RegV k a \<Rightarrow> RegV dst (llvmCast L c (llvm_width k) (llvm_width dst) a))"

text \<open>\<^verbatim>\<open>OperatorMgr::castOperator\<close> to an integer kind, with its shortcut for the same type.\<close>

definition cast_int :: "llvm \<Rightarrow> jvalue \<Rightarrow> prim_kind \<Rightarrow> op_result" where
  "cast_int L v dst =
     (if v_kind v = dst then Inr v
      else if v_kind v = Variant then Inl OtherFamily
      else case Cast_Int_getCastOperator (v_kind v) dst of
        Inl e \<Rightarrow> Inl e
      | Inr c \<Rightarrow> Inr (run_cast L c v dst))"


section \<open>Operators\<close>

text \<open>The type of an arithmetic operation on two operands: that of the operand of the higher
  kind, promoted.\<close>

definition arithmetic_type :: "prim_kind \<Rightarrow> prim_kind \<Rightarrow> prim_kind option" where
  "arithmetic_type k1 k2 =
     getArithmeticOperatorResultType (PrimOperand (if k1 > k2 then k1 else k2))"

text \<open>\<^verbatim>\<open>BinOp_Arithmetic::op\<close>: the operands are cast to the common type, two constants are folded,
  anything else becomes an instruction.\<close>

definition fold_op :: "bin_op \<Rightarrow> prim_kind \<Rightarrow> 8 word list \<Rightarrow> 8 word list \<Rightarrow> op_result" where
  "fold_op op k bs1 bs2 =
     (let u = is_unsigned k in
      if k \<in> {Int32, Int32_u} then
        case constOpInt op (getInt32 bs1) (getInt32 bs2) u of
          None \<Rightarrow> Inl Undefined | Some r \<Rightarrow> Inr (createConst (sint r) k)
      else
        case constOpInt op (getInt64 bs1) (getInt64 bs2) u of
          None \<Rightarrow> Inl Undefined | Some r \<Rightarrow> Inr (createConst (sint r) k))"

definition emit_op :: "llvm \<Rightarrow> bin_op \<Rightarrow> prim_kind \<Rightarrow> int \<Rightarrow> int \<Rightarrow> op_result" where
  "emit_op L op k a b =
     (case l_bin L (llvmOpInt op (is_unsigned k)) (llvm_width k) a b of
        None \<Rightarrow> Inl Undefined | Some r \<Rightarrow> Inr (RegV k r))"

fun apply_op :: "llvm \<Rightarrow> bin_op \<Rightarrow> prim_kind \<Rightarrow> jvalue \<Rightarrow> jvalue \<Rightarrow> op_result" where
  "apply_op L op k (ConstV k1 bs1) (ConstV k2 bs2) = fold_op op k bs1 bs2"
| "apply_op L op k v1 v2 = emit_op L op k (getLlvmValue v1) (getLlvmValue v2)"

definition cast_both :: "llvm \<Rightarrow> jvalue \<Rightarrow> jvalue \<Rightarrow> prim_kind \<Rightarrow> op_error + jvalue \<times> jvalue" where
  "cast_both L v1 v2 k =
     (case cast_int L v1 k of Inl e \<Rightarrow> Inl e | Inr w1 \<Rightarrow>
      case cast_int L v2 k of Inl e \<Rightarrow> Inl e | Inr w2 \<Rightarrow> Inr (w1, w2))"

definition binaryOperator :: "llvm \<Rightarrow> bin_op \<Rightarrow> jvalue \<Rightarrow> jvalue \<Rightarrow> op_result" where
  "binaryOperator L op v1 v2 =
     (if v_kind v1 \<in> {Variant, StringT} \<or> v_kind v2 \<in> {Variant, StringT} then Inl OtherFamily
      else case arithmetic_type (v_kind v1) (v_kind v2) of
        None \<Rightarrow> Inl OperatorError
      | Some k \<Rightarrow>
          if isIntegerOnly op \<and> \<not> is_integer k then Inl OperatorError
          else if is_fp k then Inl OtherFamily
          else case cast_both L v1 v2 k of
            Inl e \<Rightarrow> Inl e
          | Inr (w1, w2) \<Rightarrow> apply_op L op k w1 w2)"

text \<open>\<^verbatim>\<open>BinOp_Cmp::op\<close>.\<close>

definition fold_cmp :: "cmp_op \<Rightarrow> prim_kind \<Rightarrow> 8 word list \<Rightarrow> 8 word list \<Rightarrow> jvalue" where
  "fold_cmp op k bs1 bs2 =
     (let u = is_unsigned k in
      if k \<in> {Int32, Int32_u} then setConstBool1 (constCmpInt op (getInt32 bs1) (getInt32 bs2) u)
      else setConstBool1 (constCmpInt op (getInt64 bs1) (getInt64 bs2) u))"

definition emit_cmp :: "llvm \<Rightarrow> cmp_op \<Rightarrow> prim_kind \<Rightarrow> int \<Rightarrow> int \<Rightarrow> jvalue" where
  "emit_cmp L op k a b =
     RegV Bool1 (of_bool (l_icmp L (llvmCmpInt op (is_unsigned k)) (llvm_width k) a b))"

fun apply_cmp :: "llvm \<Rightarrow> cmp_op \<Rightarrow> prim_kind \<Rightarrow> jvalue \<Rightarrow> jvalue \<Rightarrow> jvalue" where
  "apply_cmp L op k (ConstV k1 bs1) (ConstV k2 bs2) = fold_cmp op k bs1 bs2"
| "apply_cmp L op k v1 v2 = emit_cmp L op k (getLlvmValue v1) (getLlvmValue v2)"

definition cmpOperator :: "llvm \<Rightarrow> cmp_op \<Rightarrow> jvalue \<Rightarrow> jvalue \<Rightarrow> op_result" where
  "cmpOperator L op v1 v2 =
     (if v_kind v1 \<in> {Variant, StringT} \<or> v_kind v2 \<in> {Variant, StringT} then Inl OtherFamily
      else case arithmetic_type (v_kind v1) (v_kind v2) of
        None \<Rightarrow> Inl OperatorError
      | Some k \<Rightarrow>
          if is_fp k then Inl OtherFamily
          else case cast_both L v1 v2 k of
            Inl e \<Rightarrow> Inl e
          | Inr (w1, w2) \<Rightarrow> Inr (apply_cmp L op k w1 w2))"

text \<open>\<^verbatim>\<open>UnOp_Arithmetic::op\<close>. It does not check the type it computes: for an operand without
  arithmetic it calls \<^verbatim>\<open>castOperator\<close> with a null type, which is undefined.\<close>

definition fold_un :: "un_op \<Rightarrow> prim_kind \<Rightarrow> 8 word list \<Rightarrow> jvalue" where
  "fold_un op k bs =
     (if k \<in> {Int32, Int32_u} then createConst (sint (constUnInt op (getInt32 bs))) k
      else createConst (sint (constUnInt op (getInt64 bs))) k)"

fun apply_un :: "llvm \<Rightarrow> un_op \<Rightarrow> prim_kind \<Rightarrow> jvalue \<Rightarrow> jvalue" where
  "apply_un L op k (ConstV k1 bs) = fold_un op k bs"
| "apply_un L op k (RegV k1 a) = RegV k (llvmUnInt L op (llvm_width k) a)"

definition unaryOperator :: "llvm \<Rightarrow> un_op \<Rightarrow> jvalue \<Rightarrow> op_result" where
  "unaryOperator L op v =
     (if v_kind v = Variant then Inl OtherFamily
      else case getArithmeticOperatorResultType (PrimOperand (v_kind v)) of
        None \<Rightarrow> Inl Undefined
      | Some k \<Rightarrow>
          if is_fp k then Inl OtherFamily
          else case cast_int L v k of Inl e \<Rightarrow> Inl e | Inr w \<Rightarrow> Inr (apply_un L op k w))"

text \<open>\<^verbatim>\<open>UnOp_LogNot::zeroCmpOperator\<close>, the logical negation of a number.\<close>

definition logNotOperator :: "llvm \<Rightarrow> jvalue \<Rightarrow> op_result" where
  "logNotOperator L v =
     (if is_integer (v_kind v) then cmpOperator L BinOp_Eq v (getZeroValue (v_kind v))
      else Inl OtherFamily)"

text \<open>\<^verbatim>\<open>Cast_Bool\<close>: a number becomes a comparison with zero, whose result is widened for the byte
  boolean; the two booleans are converted by copying the byte, or by instructions.\<close>

fun cast_zero_cmp :: "llvm \<Rightarrow> jvalue \<Rightarrow> prim_kind \<Rightarrow> op_result" where
  "cast_zero_cmp L (ConstV k bs) dst =
     Inr (ConstV dst (BoolFromZeroCmp_constCast (take (prim_size k) bs)))"
| "cast_zero_cmp L (RegV k a) dst =
     (case cmpOperator L BinOp_Ne (RegV k a) (getZeroValue k) of
        Inl e \<Rightarrow> Inl e
      | Inr r \<Rightarrow>
          if dst = Bool8 then
            Inr (RegV Bool8 (l_cast L CreateZExt (llvm_width (v_kind r)) 8 (getLlvmValue r)))
          else Inr r)"

fun cast_from_bool :: "llvm \<Rightarrow> jvalue \<Rightarrow> prim_kind \<Rightarrow> jvalue" where
  "cast_from_bool L (ConstV k bs) dst = ConstV dst (BoolFromBool_constCast bs)"
| "cast_from_bool L (RegV k a) dst =
     RegV dst (l_cast L (if dst = Bool8 then CreateZExt else CreateTrunc) (llvm_width k) (llvm_width dst) a)"

definition cast_bool :: "llvm \<Rightarrow> jvalue \<Rightarrow> prim_kind \<Rightarrow> op_result" where
  "cast_bool L v dst =
     (if v_kind v = dst then Inr v
      else if v_kind v \<in> {Variant, StringT} \<or> is_fp (v_kind v) then Inl OtherFamily
      else if is_bool (v_kind v) then Inr (cast_from_bool L v dst)
      else if is_integer (v_kind v) then cast_zero_cmp L v dst
      else Inl CastError)"

definition castOperator :: "llvm \<Rightarrow> jvalue \<Rightarrow> prim_kind \<Rightarrow> op_result" where
  "castOperator L v dst =
     (if is_bool dst then cast_bool L v dst
      else if is_integer dst then cast_int L v dst
      else Inl OtherFamily)"


section \<open>Expressions\<close>

text \<open>The parser applies the operators bottom-up: an operand is a constant or the register of a
  variable. \<open>expr_type\<close> is the mode without code generation, in which the same operators compute
  types only.\<close>

datatype jexpr =
    Operand jvalue
  | Unary un_op jexpr
  | LogNot jexpr
  | Binary bin_op jexpr jexpr
  | Compare cmp_op jexpr jexpr
  | Cast prim_kind jexpr

fun eval :: "llvm \<Rightarrow> jexpr \<Rightarrow> op_result" where
  "eval L (Operand v) = Inr v"
| "eval L (Unary op e) = (case eval L e of Inl x \<Rightarrow> Inl x | Inr v \<Rightarrow> unaryOperator L op v)"
| "eval L (LogNot e) = (case eval L e of Inl x \<Rightarrow> Inl x | Inr v \<Rightarrow> logNotOperator L v)"
| "eval L (Binary op e1 e2) =
     (case eval L e1 of Inl x \<Rightarrow> Inl x | Inr v1 \<Rightarrow>
      case eval L e2 of Inl x \<Rightarrow> Inl x | Inr v2 \<Rightarrow> binaryOperator L op v1 v2)"
| "eval L (Compare op e1 e2) =
     (case eval L e1 of Inl x \<Rightarrow> Inl x | Inr v1 \<Rightarrow>
      case eval L e2 of Inl x \<Rightarrow> Inl x | Inr v2 \<Rightarrow> cmpOperator L op v1 v2)"
| "eval L (Cast k e) = (case eval L e of Inl x \<Rightarrow> Inl x | Inr v \<Rightarrow> castOperator L v k)"

fun expr_type :: "jexpr \<Rightarrow> prim_kind option" where
  "expr_type (Operand v) = Some (v_kind v)"
| "expr_type (Unary op e) =
     Option.bind (expr_type e) (\<lambda>k. getArithmeticOperatorResultType (PrimOperand k))"
| "expr_type (LogNot e) = Option.bind (expr_type e) (\<lambda>k. Some Bool1)"
| "expr_type (Binary op e1 e2) =
     Option.bind (expr_type e1) (\<lambda>k1. Option.bind (expr_type e2) (\<lambda>k2. arithmetic_type k1 k2))"
| "expr_type (Compare op e1 e2) =
     Option.bind (expr_type e1) (\<lambda>k1. Option.bind (expr_type e2) (\<lambda>k2. Some Bool1))"
| "expr_type (Cast k e) = Option.bind (expr_type e) (\<lambda>k'. Some k)"

end
