(* ===== verification/PtrTypes.thy ===== *)
theory PtrTypes
  imports ConstFold
begin

text \<open>
  The static side of data pointers: the flags of a pointer type, how \<^verbatim>\<open>const\<close> travels through casts
  and fields (\<^verbatim>\<open>calcCastKindFromConstCast\<close> in \<^verbatim>\<open>jnc_ct_CastOp.cpp\<close>, \<^verbatim>\<open>calcFieldPtrFlags\<close> in
  \<^verbatim>\<open>jnc_ct_OperatorMgr_Field.cpp\<close>), the search for a base type
  (\<^verbatim>\<open>DerivableType::findBaseTypeTraverseImpl\<close>), and which casts between data pointers there are and by
  how much they move the address (\<^verbatim>\<open>Cast_DataPtr_Base\<close> in \<^verbatim>\<open>jnc_ct_CastOp_DataPtr.cpp\<close>). A data
  pointer type is \<open>PtrT DataPtrK r flags bitOffset bitCount target\<close>, with \<open>r\<close> for a reference.
\<close>

section \<open>Flags of a pointer type\<close>

definition PtrTypeFlag_Safe :: "32 word" where "PtrTypeFlag_Safe = 0x00800000"
definition PtrTypeFlag_BigEndian :: "32 word" where "PtrTypeFlag_BigEndian = 0x10000000"
definition PtrTypeFlag_BitField :: "32 word" where "PtrTypeFlag_BitField = 0x20000000"

definition DataPtrKind_Normal :: "32 word" where "DataPtrKind_Normal = 0x000000"
definition DataPtrKind_Lean :: "32 word" where "DataPtrKind_Lean = 0x100000"
definition DataPtrKind_Thin :: "32 word" where "DataPtrKind_Thin = 0x200000"

definition ConstKind_None :: "32 word" where "ConstKind_None = 0x000000"
definition ConstKind_Const :: "32 word" where "ConstKind_Const = 0x010000"
definition ConstKind_MaybeConst :: "32 word" where "ConstKind_MaybeConst = 0x020000"
definition ConstKind_AutoConstX :: "32 word" where "ConstKind_AutoConstX = 0x030000"
definition ConstKind_ReadOnlyX :: "32 word" where "ConstKind_ReadOnlyX = 0x040000"

definition getDataPtrKindFromFlags :: "32 word \<Rightarrow> 32 word" where
  "getDataPtrKindFromFlags flags = flags AND PtrTypeFlag_PtrKindMask"

definition getConstKindFromFlags :: "32 word \<Rightarrow> 32 word" where
  "getConstKindFromFlags flags = flags AND PtrTypeFlag_ConstKindMask"

definition is_safe :: "32 word \<Rightarrow> bool" where
  "is_safe flags \<longleftrightarrow> flags AND PtrTypeFlag_Safe \<noteq> 0"

definition const_index :: "32 word \<Rightarrow> nat" where
  "const_index constKind = unat (drop_bit 16 constKind)"

lemmas flag_defs =
  PtrTypeFlag_All_def PtrTypeFlag_PtrKindMask_def PtrTypeFlag_ConstKindMask_def PtrTypeFlag_Safe_def
  PtrTypeFlag_BitField_def PtrTypeFlag_BigEndian_def
  DataPtrKind_Normal_def DataPtrKind_Lean_def DataPtrKind_Thin_def
  ConstKind_None_def ConstKind_Const_def ConstKind_MaybeConst_def ConstKind_AutoConstX_def
  ConstKind_ReadOnlyX_def

text \<open>The parts of a data pointer type.\<close>

fun ptr_flags :: "jty \<Rightarrow> 32 word" where
  "ptr_flags (PtrT k r f bo bc t) = f"
| "ptr_flags t = 0"

fun getTargetType :: "jty \<Rightarrow> jty" where
  "getTargetType (PtrT k r f bo bc t) = t"
| "getTargetType t = t"

fun is_ref :: "jty \<Rightarrow> bool" where
  "is_ref (PtrT k r f bo bc t) \<longleftrightarrow> r"
| "is_ref t \<longleftrightarrow> False"

definition getDataPtrType :: "jty \<Rightarrow> bool \<Rightarrow> 32 word \<Rightarrow> jty" where
  "getDataPtrType targetType r flags = PtrT DataPtrK r flags 0 0 targetType"

definition getPtrKind :: "jty \<Rightarrow> 32 word" where
  "getPtrKind t = getDataPtrKindFromFlags (ptr_flags t)"

definition getConstKind :: "jty \<Rightarrow> 32 word" where
  "getConstKind t = getConstKindFromFlags (ptr_flags t)"

section \<open>Const\<close>

text \<open>The kinds of casts in the order of the enumeration: the code takes minima and compares.\<close>

datatype cast_kind =
    CastKind_None | CastKind_Dynamic | CastKind_Explicit | CastKind_ImplicitLossyFuntionCall
  | CastKind_ImplicitCrossFamily | CastKind_ImplicitCrossConst | CastKind_Implicit | CastKind_Identity

primrec cast_rank :: "cast_kind \<Rightarrow> nat" where
  "cast_rank CastKind_None = 0"
| "cast_rank CastKind_Dynamic = 1"
| "cast_rank CastKind_Explicit = 2"
| "cast_rank CastKind_ImplicitLossyFuntionCall = 3"
| "cast_rank CastKind_ImplicitCrossFamily = 4"
| "cast_rank CastKind_ImplicitCrossConst = 5"
| "cast_rank CastKind_Implicit = 6"
| "cast_rank CastKind_Identity = 7"

instantiation cast_kind :: linorder
begin

definition less_eq_cast_kind :: "cast_kind \<Rightarrow> cast_kind \<Rightarrow> bool" where
  "k \<le> l \<longleftrightarrow> cast_rank k \<le> cast_rank l"

definition less_cast_kind :: "cast_kind \<Rightarrow> cast_kind \<Rightarrow> bool" where
  "k < l \<longleftrightarrow> cast_rank k < cast_rank l"

instance
proof
  fix k l :: cast_kind
  assume "k \<le> l" and "l \<le> k"
  then have "cast_rank k = cast_rank l" by (simp add: less_eq_cast_kind_def)
  then show "k = l" by (cases k; cases l; simp)
qed (auto simp: less_eq_cast_kind_def less_cast_kind_def)

end

text \<open>A static table: the rows and columns without an initializer are zero.\<close>

definition table_at :: "'a \<Rightarrow> 'a list list \<Rightarrow> nat \<Rightarrow> nat \<Rightarrow> 'a" where
  "table_at z table i j =
     (if i < length table \<and> j < length (table ! i) then table ! i ! j else z)"

definition castKindTable :: "cast_kind list list" where
  "castKindTable =
    [[CastKind_Implicit, CastKind_ImplicitCrossConst, CastKind_ImplicitCrossConst,
      CastKind_ImplicitCrossConst, CastKind_Implicit],
     [CastKind_None, CastKind_Implicit, CastKind_Implicit, CastKind_None, CastKind_None],
     [CastKind_None, CastKind_Implicit, CastKind_Implicit, CastKind_Implicit, CastKind_None],
     [CastKind_None, CastKind_Implicit, CastKind_Implicit, CastKind_Implicit, CastKind_None],
     [CastKind_Implicit, CastKind_ImplicitCrossConst, CastKind_ImplicitCrossConst,
      CastKind_ImplicitCrossConst, CastKind_Implicit]]"

definition calcCastKindFromConstCast :: "32 word \<Rightarrow> 32 word \<Rightarrow> cast_kind" where
  "calcCastKindFromConstCast srcConstKind dstConstKind =
     table_at CastKind_None castKindTable (const_index srcConstKind) (const_index dstConstKind)"

definition fieldConstKindTable :: "32 word list list" where
  "fieldConstKindTable =
    [[ConstKind_None, ConstKind_Const, ConstKind_AutoConstX, ConstKind_AutoConstX, ConstKind_ReadOnlyX],
     [ConstKind_None, ConstKind_Const, ConstKind_Const, ConstKind_Const, ConstKind_Const],
     [ConstKind_AutoConstX, ConstKind_Const, ConstKind_AutoConstX, ConstKind_AutoConstX, ConstKind_AutoConstX],
     [ConstKind_AutoConstX, ConstKind_Const, ConstKind_AutoConstX, ConstKind_AutoConstX, ConstKind_AutoConstX],
     [ConstKind_ReadOnlyX, ConstKind_Const, ConstKind_AutoConstX, ConstKind_AutoConstX, ConstKind_ReadOnlyX]]"

section \<open>Type objects\<close>

text \<open>A field: its type, offset and bits, its pointer flags and whether it is declared mutable.\<close>

record ptr_field =
  pf_type :: jty
  pf_offset :: nat
  pf_bitOffset :: nat
  pf_bitCount :: nat
  pf_ptrTypeFlags :: "32 word"
  pf_mutable :: bool

text \<open>What the type objects of a module say: signature, size, \<^verbatim>\<open>TypeFlag_Pod\<close>, whether
  \<^verbatim>\<open>ensureLayout\<close> succeeds, whether it is \<^verbatim>\<open>anydata\<close>, the base types of a struct with their
  offsets, whether it is the adapter of another struct, and its fields. \<open>te_rank\<close> is the height
  of a struct over its base types; it bounds the search for a base type.\<close>

record tenv =
  te_signature :: "jty \<Rightarrow> string"
  te_size :: "jty \<Rightarrow> nat"
  te_pod :: "jty \<Rightarrow> bool"
  te_layout :: "jty \<Rightarrow> bool"
  te_abstract :: "jty \<Rightarrow> bool"
  te_bases :: "jty \<Rightarrow> (jty \<times> nat) list"
  te_adapter :: "jty \<Rightarrow> bool"
  te_fields :: "jty \<Rightarrow> ptr_field list"
  te_rank :: "jty \<Rightarrow> nat"

definition isEqualType :: "tenv \<Rightarrow> jty \<Rightarrow> jty \<Rightarrow> bool" where
  "isEqualType E t u \<longleftrightarrow> te_signature E t = te_signature E u"

definition calcFieldPtrFlags :: "32 word \<Rightarrow> ptr_field \<Rightarrow> 32 word" where
  "calcFieldPtrFlags parentFlags field =
     (let fieldFlags = pf_ptrTypeFlags field;
          i = (if pf_mutable field then 0 else const_index (getConstKindFromFlags parentFlags));
          j = const_index (getConstKindFromFlags fieldFlags)
      in ((parentFlags OR fieldFlags) AND PtrTypeFlag_All AND NOT PtrTypeFlag_ConstKindMask)
         OR table_at ConstKind_None fieldConstKindTable i j)"

definition Field_getDataPtrType :: "ptr_field \<Rightarrow> bool \<Rightarrow> 32 word \<Rightarrow> jty" where
  "Field_getDataPtrType field r flags =
     (if pf_bitCount field \<noteq> 0
      then PtrT DataPtrK r flags (pf_bitOffset field) (pf_bitCount field) (pf_type field)
      else getDataPtrType (pf_type field) r flags)"

section \<open>Base types\<close>

text \<open>The direct base types are looked up by signature first, then the base types are searched in
  order. The adapter of a struct leaves the coordinate as it was.\<close>

fun first_some :: "('a \<Rightarrow> 'b option) \<Rightarrow> 'a list \<Rightarrow> 'b option" where
  "first_some f [] = None"
| "first_some f (x # xs) = (case f x of None \<Rightarrow> first_some f xs | Some y \<Rightarrow> Some y)"

primrec findBaseTypeTraverseImpl :: "nat \<Rightarrow> tenv \<Rightarrow> jty \<Rightarrow> jty \<Rightarrow> nat option" where
  "findBaseTypeTraverseImpl 0 E self type = None"
| "findBaseTypeTraverseImpl (Suc n) E self type =
     (case find (\<lambda>slot. te_signature E (fst slot) = te_signature E type) (te_bases E self) of
        Some slot \<Rightarrow> Some (if te_adapter E self then 0 else snd slot)
      | None \<Rightarrow> first_some (\<lambda>slot. map_option (\<lambda>ofs. ofs + snd slot)
                            (findBaseTypeTraverseImpl n E (fst slot) type)) (te_bases E self))"

definition findBaseTypeTraverse :: "tenv \<Rightarrow> jty \<Rightarrow> jty \<Rightarrow> nat option" where
  "findBaseTypeTraverse E self type =
     (if te_layout E self then findBaseTypeTraverseImpl (Suc (te_rank E self)) E self type else None)"

section \<open>Casts between data pointers\<close>

fun is_struct :: "jty \<Rightarrow> bool" where
  "is_struct (NamedT StructK n) \<longleftrightarrow> True"
| "is_struct t \<longleftrightarrow> False"

fun is_derivable :: "jty \<Rightarrow> bool" where
  "is_derivable (NamedT k n) \<longleftrightarrow> k \<in> {StructK, UnionK, ClassK}"
| "is_derivable t \<longleftrightarrow> False"

fun is_integer_type :: "jty \<Rightarrow> bool" where
  "is_integer_type (PrimT k) \<longleftrightarrow> is_integer k"
| "is_integer_type (NamedT k n) \<longleftrightarrow> k = EnumK"
| "is_integer_type t \<longleftrightarrow> False"

definition canCastToPod :: "tenv \<Rightarrow> jty \<Rightarrow> jty \<Rightarrow> bool" where
  "canCastToPod E srcType dstType \<longleftrightarrow>
     te_pod E (getTargetType srcType) \<or>
     getConstKind dstType = ConstKind_Const \<or>
     getPtrKind dstType = DataPtrKind_Thin"

definition Cast_DataPtr_getCastKind :: "tenv \<Rightarrow> jty \<Rightarrow> jty \<Rightarrow> cast_kind" where
  "Cast_DataPtr_getCastKind E srcType dstType =
     (let constCastKind = calcCastKindFromConstCast (getConstKind srcType) (getConstKind dstType);
          srcDataType = getTargetType srcType;
          dstDataType = getTargetType dstType;
          isDstPod = te_pod E dstDataType;
          isDstBase = is_struct srcDataType \<and> findBaseTypeTraverse E srcDataType dstDataType \<noteq> None
      in if constCastKind = CastKind_None then CastKind_None
         else if isEqualType E srcDataType dstDataType then constCastKind
         else if \<not> (te_layout E srcDataType \<and> te_layout E dstDataType) then CastKind_None
         else if te_abstract E dstDataType \<or> dstDataType = PrimT Void \<and> canCastToPod E srcType dstType
         then constCastKind
         else if srcDataType = PrimT Void \<and> (dstDataType = PrimT Int8 \<or> dstDataType = PrimT Int8_u)
         then constCastKind
         else if is_integer_type srcDataType \<and> is_integer_type dstDataType \<and>
           te_size E srcDataType = te_size E dstDataType
         then constCastKind
         else if isDstBase then constCastKind
         else if is_ref srcType then CastKind_None
         else if isDstPod \<and> canCastToPod E srcType dstType then CastKind_Explicit
         else if is_derivable dstDataType then CastKind_Dynamic else CastKind_None)"

text \<open>The offset by which a cast moves the address, or the kind of cast the error names.\<close>

definition Cast_DataPtr_getOffset :: "tenv \<Rightarrow> jty \<Rightarrow> jty \<Rightarrow> cast_kind + nat" where
  "Cast_DataPtr_getOffset E srcType dstType =
     (let constCastKind = calcCastKindFromConstCast (getConstKind srcType) (getConstKind dstType);
          srcDataType = getTargetType srcType;
          dstDataType = getTargetType dstType
      in if constCastKind = CastKind_None then Inl CastKind_None
         else if isEqualType E srcDataType dstDataType then Inr 0
         else if \<not> (te_layout E srcDataType \<and> te_layout E dstDataType) then Inl CastKind_None
         else if te_abstract E dstDataType \<or> dstDataType = PrimT Void \<and> canCastToPod E srcType dstType
         then Inr 0
         else
           (case (if is_struct srcDataType then findBaseTypeTraverse E srcDataType dstDataType else None) of
              Some ofs \<Rightarrow> Inr ofs
            | None \<Rightarrow>
                if te_pod E dstDataType \<and> canCastToPod E srcType dstType then Inr 0
                else Inl (if is_derivable dstDataType then CastKind_Dynamic else CastKind_None)))"

section \<open>Well-formed type objects\<close>

text \<open>\<^verbatim>\<open>setupAllPrimitiveTypes\<close> and
  \<^verbatim>\<open>EnumType\<close> make integers and \<^verbatim>\<open>void\<close> plain data; an array has the size of its elements
  (\<open>array_layout\<close>), a struct contains its base types and fields (\<open>struct_fields_disjoint\<close>), a base type is
  found by its signature (types with the same signature are one object), an
  adapter has its base at offset 0, the declared flags of a field hold no pointer kind and no
  \<^verbatim>\<open>safe\<close>, \<^verbatim>\<open>anydata\<close> is empty, and a primitive type has its size.\<close>

definition tenv_ok :: "tenv \<Rightarrow> bool" where
  "tenv_ok E \<longleftrightarrow>
     (\<forall>t. is_integer_type t \<or> t = PrimT Void \<longrightarrow> te_pod E t) \<and>
     (\<forall>t. te_abstract E t \<longrightarrow> te_size E t = 0) \<and> (\<forall>k. te_size E (PrimT k) = prim_size k) \<and>
     (\<forall>t n. te_size E (ArrayT t n) = n * te_size E t) \<and>
     (\<forall>t b ofs. (b, ofs) \<in> set (te_bases E t) \<longrightarrow>
        (te_adapter E t \<longrightarrow> ofs = 0) \<and> te_rank E b < te_rank E t \<and> ofs + te_size E b \<le> te_size E t \<and>
        (\<forall>u. te_signature E b = te_signature E u \<longrightarrow> te_size E b = te_size E u)) \<and>
     (\<forall>t f. f \<in> set (te_fields E t) \<longrightarrow> pf_offset f + te_size E (pf_type f) \<le> te_size E t \<and>
        getDataPtrKindFromFlags (pf_ptrTypeFlags f) = 0 \<and> \<not> is_safe (pf_ptrTypeFlags f))"

lemma tenv_okD:
  assumes "tenv_ok E"
  shows "(b, ofs) \<in> set (te_bases E t) \<Longrightarrow> te_signature E b = te_signature E u \<Longrightarrow> te_size E b = te_size E u"
    and "is_integer_type t \<Longrightarrow> te_pod E t" and "te_pod E (PrimT Void)"
    and "te_abstract E t \<Longrightarrow> te_size E t = 0" and "te_size E (PrimT k) = prim_size k"
    and "te_size E (ArrayT t n) = n * te_size E t"
    and "(b, ofs) \<in> set (te_bases E t) \<Longrightarrow> te_adapter E t \<Longrightarrow> ofs = 0"
    and "(b, ofs) \<in> set (te_bases E t) \<Longrightarrow> te_rank E b < te_rank E t"
    and "(b, ofs) \<in> set (te_bases E t) \<Longrightarrow> ofs + te_size E b \<le> te_size E t"
    and "f \<in> set (te_fields E t) \<Longrightarrow> pf_offset f + te_size E (pf_type f) \<le> te_size E t"
    and "f \<in> set (te_fields E t) \<Longrightarrow> getDataPtrKindFromFlags (pf_ptrTypeFlags f) = 0"
    and "f \<in> set (te_fields E t) \<Longrightarrow> \<not> is_safe (pf_ptrTypeFlags f)"
  using assms unfolding tenv_ok_def by blast+

end
