(* ===== verification/PtrOps.thy ===== *)
theory PtrOps
  imports PtrTypes
begin

text \<open>
  Data pointers at run time and the operators on them: the range checks of the runtime library
  (\<^verbatim>\<open>jnc_rtl_CoreLib.cpp\<close>), the validators of lean pointers (\<^verbatim>\<open>jnc_ct_LeanDataPtrValidator\<close>), the
  checks the compiler emits (\<^verbatim>\<open>OperatorMgr::checkDataPtrRange\<close>), fields, indexing, increments,
  address and indirection, and casts; loads and stores follow in \<open>PtrMemory\<close>. An operator is the code it generates together
  with the error it reports: a value is a typed value of the compiler with the registers it stands
  for at run time. Operands are variables and registers; constant operands and modules without
  code generation take other branches.
\<close>

section \<open>Validators and range checks\<close>

type_synonym addr = "64 word"

datatype ptr_error = CompileError | NullAccess | InvalidatedAccess | OutOfRange | NotModelled

record validator =
  vd_targetBox :: nat
  vd_rangeBegin :: addr
  vd_rangeEnd :: addr

text \<open>A null pointer fails, addresses compare without sign, and both ends are computed modulo
  \<open>2 ^ 64\<close>. \<open>bad\<close> tells the boxes with \<^verbatim>\<open>BoxFlag_Invalid\<close>.\<close>

definition tryCheckDataPtrRangeDirect :: "addr \<Rightarrow> addr \<Rightarrow> nat \<Rightarrow> ptr_error + unit" where
  "tryCheckDataPtrRangeDirect p rangeBegin rangeLength =
     (if p = 0 then Inl NullAccess
      else
        (let rangeEnd = rangeBegin + of_nat rangeLength
         in if p < rangeBegin \<or> p > rangeEnd then Inl OutOfRange else Inr ()))"

definition tryCheckDataPtrRangeIndirect ::
  "(nat \<Rightarrow> bool) \<Rightarrow> addr \<Rightarrow> nat \<Rightarrow> validator option \<Rightarrow> ptr_error + unit" where
  "tryCheckDataPtrRangeIndirect bad p targetSize vd_opt =
     (case vd_opt of
        None \<Rightarrow> Inl NullAccess
      | Some vd \<Rightarrow>
          if p = 0 then Inl NullAccess
          else if bad (vd_targetBox vd) then Inl InvalidatedAccess
          else
            (let rangeEnd = p + of_nat targetSize
             in if p < vd_rangeBegin vd \<or> rangeEnd > vd_rangeEnd vd then Inl OutOfRange else Inr ()))"

definition createDataPtrValidator :: "nat \<Rightarrow> addr \<Rightarrow> nat \<Rightarrow> validator" where
  "createDataPtrValidator box rangeBegin rangeLength =
     \<lparr>vd_targetBox = box, vd_rangeBegin = rangeBegin, vd_rangeEnd = rangeBegin + of_nat rangeLength\<rparr>"

section \<open>Values\<close>

text \<open>A variable: its box, address and type, whether it is thread-local, and whether its lean
  validator already has a validator value (a heap variable has one from its allocation; static
  and stack variables get theirs on demand, with the same range).\<close>

record jvar =
  va_box :: nat
  va_addr :: addr
  va_type :: jty
  va_tls :: bool
  va_hasValidator :: bool

text \<open>The validator of a lean pointer: the value it comes from, the start of the range (with
  \<open>True\<close> when that is the LLVM value of the origin), its length, and the validator value. Here the
  outer \<open>None\<close> is a value that does not exist yet, the inner one a null validator.\<close>

datatype lean =
  LeanDataPtrValidator (ln_originValue: origin) (ln_rangeBeginValue: "(addr \<times> bool) option")
    (ln_rangeLength: nat) (ln_validatorValue: "validator option option")
and origin =
    OriginVariable jvar
  | OriginValidator "validator option"
  | OriginNormal "validator option"
  | OriginLean lean
  | OriginClass nat

text \<open>A data pointer or reference: the variable it is a value of, its type, the address, the
  validator of a normal pointer and the lean validator the value carries.\<close>

record dval =
  v_variable :: "jvar option"
  v_type :: jty
  v_p :: addr
  v_validator :: "validator option"
  v_lean :: "lean option"

section \<open>Lean validators\<close>

definition isDynamicRange :: "lean \<Rightarrow> bool" where
  "isDynamicRange l \<longleftrightarrow> ln_rangeLength l = 0"

definition hasValidatorValue :: "lean \<Rightarrow> bool" where
  "hasValidatorValue l \<longleftrightarrow> ln_validatorValue l \<noteq> None"

definition variable_validator :: "tenv \<Rightarrow> jvar \<Rightarrow> validator" where
  "variable_validator E va = createDataPtrValidator (va_box va) (va_addr va) (te_size E (va_type va))"

text \<open>A validator made for a narrower range keeps the box of its origin; reading that box of a
  null validator is an access violation.\<close>

definition narrowValidator ::
  "(addr \<times> bool) option \<Rightarrow> nat \<Rightarrow> ptr_error + validator option \<Rightarrow> ptr_error + validator option" where
  "narrowValidator rangeBegin rangeLength r =
     (case r of
        Inl e \<Rightarrow> Inl e
      | Inr originValidator \<Rightarrow>
          (case rangeBegin of
             None \<Rightarrow> Inr originValidator
           | Some (b, same) \<Rightarrow>
               if same then Inr originValidator
               else
                 (case originValidator of
                    None \<Rightarrow> Inl NullAccess
                  | Some vd \<Rightarrow> Inr (Some (createDataPtrValidator (vd_targetBox vd) b rangeLength)))))"

definition createClassFieldValidator :: "nat \<Rightarrow> (addr \<times> bool) option \<Rightarrow> nat \<Rightarrow> ptr_error + validator option" where
  "createClassFieldValidator box rangeBegin rangeLength =
     (case rangeBegin of
        None \<Rightarrow> Inl CompileError
      | Some (b, same) \<Rightarrow> Inr (Some (createDataPtrValidator box b rangeLength)))"

primrec getValidatorValue :: "tenv \<Rightarrow> lean \<Rightarrow> ptr_error + validator option"
  and createValidator :: "tenv \<Rightarrow> origin \<Rightarrow> (addr \<times> bool) option \<Rightarrow> nat \<Rightarrow> ptr_error + validator option" where
  "getValidatorValue E (LeanDataPtrValidator originValue rangeBegin rangeLength validatorValue) =
     (case validatorValue of
        Some v \<Rightarrow> Inr v
      | None \<Rightarrow> createValidator E originValue rangeBegin rangeLength)"
| "createValidator E (OriginVariable va) =
     (\<lambda>rangeBegin rangeLength. narrowValidator rangeBegin rangeLength (Inr (Some (variable_validator E va))))"
| "createValidator E (OriginValidator v) =
     (\<lambda>rangeBegin rangeLength. narrowValidator rangeBegin rangeLength (Inr v))"
| "createValidator E (OriginNormal v) =
     (\<lambda>rangeBegin rangeLength. narrowValidator rangeBegin rangeLength (Inr v))"
| "createValidator E (OriginLean l) =
     (\<lambda>rangeBegin rangeLength. narrowValidator rangeBegin rangeLength (getValidatorValue E l))"
| "createValidator E (OriginClass box) = createClassFieldValidator box"

definition prepareLeanDataPtrValidator :: "tenv \<Rightarrow> jvar \<Rightarrow> lean" where
  "prepareLeanDataPtrValidator E va =
     LeanDataPtrValidator (OriginVariable va) (Some (va_addr va, True)) (te_size E (va_type va))
       (if va_hasValidator va then Some (Some (variable_validator E va)) else None)"

definition getLeanDataPtrValidator :: "tenv \<Rightarrow> dval \<Rightarrow> lean option" where
  "getLeanDataPtrValidator E v =
     (case v_lean v of Some l \<Rightarrow> Some l | None \<Rightarrow> map_option (prepareLeanDataPtrValidator E) (v_variable v))"

text \<open>The origin a new validator remembers, and the validator of a value derived from \<open>v\<close>: that of
  \<open>v\<close> when it has one, a new one of dynamic range otherwise. The last case is a lean value without
  validator, which the code rules out by an assertion.\<close>

definition originOf :: "dval \<Rightarrow> origin" where
  "originOf v =
     (case v_variable v of
        Some va \<Rightarrow> OriginVariable va
      | None \<Rightarrow>
          (case v_lean v of
             Some l \<Rightarrow> OriginLean l
           | None \<Rightarrow> OriginNormal (v_validator v)))"

definition setLeanDataPtrValidator :: "tenv \<Rightarrow> dval \<Rightarrow> lean" where
  "setLeanDataPtrValidator E v =
     (case getLeanDataPtrValidator E v of
        Some l \<Rightarrow> l
      | None \<Rightarrow> LeanDataPtrValidator (originOf v) None 0 None)"

definition setLeanDataPtrRange :: "dval \<Rightarrow> addr \<Rightarrow> nat \<Rightarrow> lean" where
  "setLeanDataPtrRange v rangeBegin rangeLength =
     LeanDataPtrValidator (originOf v) (Some (rangeBegin, False)) rangeLength None"

definition lean_value :: "jty \<Rightarrow> addr \<Rightarrow> lean \<Rightarrow> dval" where
  "lean_value t p l = \<lparr>v_variable = None, v_type = t, v_p = p, v_validator = None, v_lean = Some l\<rparr>"

definition thin_value :: "jty \<Rightarrow> addr \<Rightarrow> dval" where
  "thin_value t p = \<lparr>v_variable = None, v_type = t, v_p = p, v_validator = None, v_lean = None\<rparr>"

definition normal_value :: "jty \<Rightarrow> addr \<Rightarrow> validator option \<Rightarrow> dval" where
  "normal_value t p vd = \<lparr>v_variable = None, v_type = t, v_p = p, v_validator = vd, v_lean = None\<rparr>"

text \<open>A reference to a variable (\<^verbatim>\<open>Value::trySetVariable\<close>): lean and safe.\<close>

definition setVariable :: "jvar \<Rightarrow> 32 word \<Rightarrow> dval" where
  "setVariable va ptrTypeFlags =
     \<lparr>v_variable = Some va,
      v_type = getDataPtrType (va_type va) True ((ptrTypeFlags OR PtrTypeFlag_Safe) OR DataPtrKind_Lean),
      v_p = va_addr va, v_validator = None, v_lean = None\<rparr>"

section \<open>The check of a pointer\<close>

definition checkDataPtrRange :: "bool \<Rightarrow> tenv \<Rightarrow> (nat \<Rightarrow> bool) \<Rightarrow> dval \<Rightarrow> ptr_error + unit" where
  "checkDataPtrRange unsafeRgn E bad value =
     (let type = v_type value;
          ptrKind = getPtrKind type;
          targetSize = te_size E (getTargetType type)
      in if is_safe (ptr_flags type) \<or> ptrKind = DataPtrKind_Thin \<or> unsafeRgn then Inr ()
         else if ptrKind = DataPtrKind_Normal
         then tryCheckDataPtrRangeIndirect bad (v_p value) targetSize (v_validator value)
         else
           (case getLeanDataPtrValidator E value of
              None \<Rightarrow> Inl CompileError
            | Some validator \<Rightarrow>
                if isDynamicRange validator \<or> hasValidatorValue validator then
                  (case getValidatorValue E validator of
                     Inl e \<Rightarrow> Inl e
                   | Inr vd \<Rightarrow> tryCheckDataPtrRangeIndirect bad (v_p value) targetSize vd)
                else if ln_rangeLength validator < targetSize then Inl CompileError
                else
                  (case ln_rangeBeginValue validator of
                     None \<Rightarrow> Inl CompileError
                   | Some (rangeBegin, same) \<Rightarrow>
                       tryCheckDataPtrRangeDirect (v_p value) rangeBegin
                         (ln_rangeLength validator - targetSize))))"

text \<open>The address a load or store uses.\<close>

definition prepareDataPtr :: "bool \<Rightarrow> tenv \<Rightarrow> (nat \<Rightarrow> bool) \<Rightarrow> dval \<Rightarrow> ptr_error + addr" where
  "prepareDataPtr unsafeRgn E bad value =
     (case checkDataPtrRange unsafeRgn E bad value of Inl e \<Rightarrow> Inl e | Inr u \<Rightarrow> Inr (v_p value))"

section \<open>Operators\<close>

definition lean_flags :: "32 word \<Rightarrow> 32 word" where
  "lean_flags flags = (flags AND NOT PtrTypeFlag_PtrKindMask) OR DataPtrKind_Lean"

definition getUnsafePtrType :: "jty \<Rightarrow> jty" where
  "getUnsafePtrType type =
     (if is_safe (ptr_flags type)
      then getDataPtrType (getTargetType type) (is_ref type)
             (ptr_flags type AND PtrTypeFlag_All AND NOT PtrTypeFlag_Safe)
      else type)"

text \<open>A field of plain data keeps the range of the whole object; a field of anything else is
  checked at once and gets the range of the field.\<close>

definition getStructField ::
  "bool \<Rightarrow> tenv \<Rightarrow> (nat \<Rightarrow> bool) \<Rightarrow> dval \<Rightarrow> ptr_field \<Rightarrow> ptr_error + dval" where
  "getStructField unsafeRgn E bad opValue field =
     (let opType = v_type opValue;
          ptrTypeFlags = calcFieldPtrFlags (ptr_flags opType) field;
          ptrValue = v_p opValue + of_nat (pf_offset field)
      in if getPtrKind opType = DataPtrKind_Thin
         then Inr (thin_value (Field_getDataPtrType field True ptrTypeFlags) ptrValue)
         else if te_pod E (getTargetType opType)
         then Inr (lean_value (Field_getDataPtrType field True (lean_flags ptrTypeFlags)) ptrValue
                    (setLeanDataPtrValidator E opValue))
         else
           (case checkDataPtrRange unsafeRgn E bad opValue of
              Inl e \<Rightarrow> Inl e
            | Inr u \<Rightarrow>
                Inr (lean_value (Field_getDataPtrType field True (lean_flags (ptrTypeFlags OR PtrTypeFlag_Safe)))
                      ptrValue (setLeanDataPtrRange opValue ptrValue (te_size E (pf_type field))))))"

text \<open>A union member has the address of the union. For a normal reference the code casts the whole
  pointer structure to an address, which LLVM rejects.\<close>

definition getUnionField :: "tenv \<Rightarrow> dval \<Rightarrow> ptr_field \<Rightarrow> ptr_error + dval" where
  "getUnionField E opValue field =
     (let opType = v_type opValue;
          ptrTypeFlags = calcFieldPtrFlags (ptr_flags opType) field
      in if \<not> is_ref opType then Inl CompileError
         else if getPtrKind opType = DataPtrKind_Thin
         then Inr (thin_value (Field_getDataPtrType field True ptrTypeFlags) (v_p opValue))
         else if getPtrKind opType = DataPtrKind_Lean
         then
           (case getLeanDataPtrValidator E opValue of
              None \<Rightarrow> Inl CompileError
            | Some l \<Rightarrow> Inr (lean_value (Field_getDataPtrType field True ptrTypeFlags) (v_p opValue) l))
         else Inl CompileError)"

text \<open>A field of a class object \<open>p\<close> in its box: the object is checked for null.\<close>

definition getClassField :: "tenv \<Rightarrow> nat \<Rightarrow> addr \<Rightarrow> 32 word \<Rightarrow> ptr_field \<Rightarrow> ptr_error + dval" where
  "getClassField E box p opFlags field =
     (let ptrTypeFlags = calcFieldPtrFlags opFlags field OR PtrTypeFlag_Safe;
          ptrValue = p + of_nat (pf_offset field)
      in if p = 0 then Inl NullAccess
         else Inr (lean_value (Field_getDataPtrType field True (lean_flags ptrTypeFlags)) ptrValue
                (LeanDataPtrValidator (OriginClass box) (Some (ptrValue, False)) (te_size E (pf_type field)) None)))"

text \<open>Indexing an array reference: a constant index of a safe reference is checked by the
  compiler; a variable index makes the reference unsafe, so that its use is checked.\<close>

definition arrayIndexOperator ::
  "tenv \<Rightarrow> dval \<Rightarrow> jty \<Rightarrow> nat \<Rightarrow> bool \<Rightarrow> addr \<Rightarrow> ptr_error + dval" where
  "arrayIndexOperator E opValue1 elementType elementCount isConst idx =
     (let opType1 = v_type opValue1;
          flags = ptr_flags opType1 AND PtrTypeFlag_All;
          ptrTypeFlags = (if is_safe flags \<and> \<not> isConst then flags AND NOT PtrTypeFlag_Safe else flags);
          p = v_p opValue1 + idx * of_nat (te_size E elementType);
          ptrKind = getPtrKind opType1
      in if \<not> is_ref opType1 then Inl CompileError
         else if is_safe flags \<and> isConst \<and> (sint idx < 0 \<or> sint idx \<ge> int elementCount) then Inl CompileError
         else if ptrKind = DataPtrKind_Thin
         then Inr (thin_value (getDataPtrType elementType True ptrTypeFlags) p)
         else if ptrKind = DataPtrKind_Lean
         then
           (case getLeanDataPtrValidator E opValue1 of
              None \<Rightarrow> Inl CompileError
            | Some l \<Rightarrow> Inr (lean_value (getDataPtrType elementType True ptrTypeFlags) p l))
         else
           Inr (lean_value (getDataPtrType elementType True (lean_flags ptrTypeFlags)) p
                 (setLeanDataPtrValidator E opValue1)))"

definition dataPtrIncrementOperator :: "tenv \<Rightarrow> dval \<Rightarrow> addr \<Rightarrow> ptr_error + dval" where
  "dataPtrIncrementOperator E opValue1 delta =
     (let opType = v_type opValue1;
          resultType = getUnsafePtrType opType;
          n = te_size E (getTargetType opType);
          ptrKind = getPtrKind opType
      in if is_ref opType \<or> te_abstract E (getTargetType opType) then Inl CompileError
         else if ptrKind = DataPtrKind_Thin then Inr (thin_value resultType (v_p opValue1 + delta * of_nat n))
         else if ptrKind = DataPtrKind_Lean
         then Inr (lean_value resultType (v_p opValue1 + delta * of_nat n) (setLeanDataPtrValidator E opValue1))
         else
           Inr (normal_value resultType
                 (v_p opValue1 + delta * of_nat (if n \<noteq> 0 then n else 1)) (v_validator opValue1)))"

text \<open>The difference of two pointers, in elements: the code divides with the sign at run time, and
  as an unsigned number for constants.\<close>

definition dataPtrDifference :: "nat \<Rightarrow> addr \<Rightarrow> addr \<Rightarrow> addr" where
  "dataPtrDifference n p1 p2 = word_of_int (sint (p1 - p2) sdiv int (if n = 0 then 1 else n))"

definition constDataPtrDifference :: "nat \<Rightarrow> addr \<Rightarrow> addr \<Rightarrow> addr" where
  "constDataPtrDifference n p1 p2 = (p1 - p2) div of_nat (if n = 0 then 1 else n)"

text \<open>Address and indirection only change the type. A thread-local variable has no address.\<close>

definition unOpAddr :: "dval \<Rightarrow> ptr_error + dval" where
  "unOpAddr opValue =
     (let t = v_type opValue
      in if (case v_variable opValue of Some va \<Rightarrow> va_tls va | None \<Rightarrow> False) \<or> \<not> is_ref t then Inl CompileError
         else Inr (opValue\<lparr>v_type := getDataPtrType (getTargetType t) False (ptr_flags t AND PtrTypeFlag_All)\<rparr>))"

definition unOpIndir :: "dval \<Rightarrow> ptr_error + dval" where
  "unOpIndir opValue =
     (let t = v_type opValue
      in if is_ref t then Inl CompileError
         else Inr (opValue\<lparr>v_type := getDataPtrType (getTargetType t) True (ptr_flags t AND PtrTypeFlag_All)\<rparr>))"

definition prepareArrayRef :: "tenv \<Rightarrow> dval \<Rightarrow> jty \<Rightarrow> ptr_error + dval" where
  "prepareArrayRef E value elementType =
     (let t = v_type value;
          resultType = getDataPtrType elementType False (ptr_flags t AND PtrTypeFlag_All)
      in if getPtrKind t = DataPtrKind_Normal then Inr (value\<lparr>v_type := resultType\<rparr>)
         else if getPtrKind t = DataPtrKind_Thin then Inr (thin_value resultType (v_p value))
         else
           (case getLeanDataPtrValidator E value of
              None \<Rightarrow> Inl CompileError
            | Some l \<Rightarrow> Inr (lean_value resultType (v_p value) l)))"

text \<open>The \<^verbatim>\<open>this\<close> pointer of a method, split into a lean pointer.\<close>

definition makeLeanDataPtr :: "dval \<Rightarrow> ptr_error + dval" where
  "makeLeanDataPtr value =
     (let t = v_type value
      in if getPtrKind t \<noteq> DataPtrKind_Normal then Inl CompileError
         else Inr (lean_value (getDataPtrType (getTargetType t) False (lean_flags (ptr_flags t AND PtrTypeFlag_All)))
                (v_p value) (LeanDataPtrValidator (OriginValidator (v_validator value)) None 0 None)))"

section \<open>Casts\<close>

text \<open>The five casts: the check of a cast to a safe pointer is that of the source type.\<close>

definition safe_check :: "bool \<Rightarrow> tenv \<Rightarrow> (nat \<Rightarrow> bool) \<Rightarrow> dval \<Rightarrow> jty \<Rightarrow> ptr_error + unit" where
  "safe_check unsafeRgn E bad opValue type =
     (if is_safe (ptr_flags type) then checkDataPtrRange unsafeRgn E bad opValue else Inr ())"

definition Cast_DataPtr_Normal2Normal ::
  "bool \<Rightarrow> tenv \<Rightarrow> (nat \<Rightarrow> bool) \<Rightarrow> dval \<Rightarrow> jty \<Rightarrow> ptr_error + dval" where
  "Cast_DataPtr_Normal2Normal unsafeRgn E bad opValue type =
     (case safe_check unsafeRgn E bad opValue type of
        Inl e \<Rightarrow> Inl e
      | Inr u \<Rightarrow>
          (case Cast_DataPtr_getOffset E (v_type opValue) type of
             Inl k \<Rightarrow> Inl CompileError
           | Inr ofs \<Rightarrow> Inr (opValue\<lparr>v_type := type, v_p := v_p opValue + of_nat ofs\<rparr>)))"

definition Cast_DataPtr_Lean2Normal ::
  "bool \<Rightarrow> tenv \<Rightarrow> (nat \<Rightarrow> bool) \<Rightarrow> dval \<Rightarrow> jty \<Rightarrow> ptr_error + dval" where
  "Cast_DataPtr_Lean2Normal unsafeRgn E bad opValue type =
     (case Cast_DataPtr_getOffset E (v_type opValue) type of
        Inl k \<Rightarrow> Inl CompileError
      | Inr ofs \<Rightarrow>
          (case safe_check unsafeRgn E bad opValue type of
             Inl e \<Rightarrow> Inl e
           | Inr u \<Rightarrow>
               (case getLeanDataPtrValidator E opValue of
                  None \<Rightarrow> Inl CompileError
                | Some l \<Rightarrow>
                    (case getValidatorValue E l of
                       Inl e \<Rightarrow> Inl e
                     | Inr vd \<Rightarrow> Inr (normal_value type (v_p opValue + of_nat ofs) vd)))))"

definition Cast_DataPtr_2Thin ::
  "bool \<Rightarrow> tenv \<Rightarrow> (nat \<Rightarrow> bool) \<Rightarrow> dval \<Rightarrow> jty \<Rightarrow> ptr_error + dval" where
  "Cast_DataPtr_2Thin unsafeRgn E bad opValue type =
     (case safe_check unsafeRgn E bad opValue type of
        Inl e \<Rightarrow> Inl e
      | Inr u \<Rightarrow>
          (case Cast_DataPtr_getOffset E (v_type opValue) type of
             Inl k \<Rightarrow> Inl CompileError
           | Inr ofs \<Rightarrow> Inr (thin_value type (v_p opValue + of_nat ofs))))"

definition Cast_DataPtr_Thin2Thin :: "tenv \<Rightarrow> dval \<Rightarrow> jty \<Rightarrow> ptr_error + dval" where
  "Cast_DataPtr_Thin2Thin E opValue type =
     (if is_safe (ptr_flags type) \<and> \<not> is_safe (ptr_flags (v_type opValue)) then Inl CompileError
      else
        (case Cast_DataPtr_getOffset E (v_type opValue) type of
           Inl k \<Rightarrow> Inl CompileError
         | Inr ofs \<Rightarrow> Inr (thin_value type (v_p opValue + of_nat ofs))))"

text \<open>The operator is chosen by the kinds of the two pointers; there is none to a lean pointer and
  none from a thin one to a fat one. An array reference decays first; a reference to a string
  calls a library function.\<close>

definition castDataPtr2 ::
  "bool \<Rightarrow> tenv \<Rightarrow> (nat \<Rightarrow> bool) \<Rightarrow> dval \<Rightarrow> jty \<Rightarrow> ptr_error + dval" where
  "castDataPtr2 unsafeRgn E bad opValue type =
     (let i = getPtrKind (v_type opValue); j = getPtrKind type
      in if i = DataPtrKind_Normal \<and> j = DataPtrKind_Normal
         then Cast_DataPtr_Normal2Normal unsafeRgn E bad opValue type
         else if i = DataPtrKind_Normal \<and> j = DataPtrKind_Thin
         then Cast_DataPtr_2Thin unsafeRgn E bad opValue type
         else if i = DataPtrKind_Lean \<and> j = DataPtrKind_Normal
         then Cast_DataPtr_Lean2Normal unsafeRgn E bad opValue type
         else if i = DataPtrKind_Lean \<and> j = DataPtrKind_Thin
         then Cast_DataPtr_2Thin unsafeRgn E bad opValue type
         else if i = DataPtrKind_Thin \<and> j = DataPtrKind_Thin
         then Cast_DataPtr_Thin2Thin E opValue type
         else Inl CompileError)"

definition castDataPtr ::
  "bool \<Rightarrow> tenv \<Rightarrow> (nat \<Rightarrow> bool) \<Rightarrow> dval \<Rightarrow> jty \<Rightarrow> ptr_error + dval" where
  "castDataPtr unsafeRgn E bad opValue type =
     (if is_ref (v_type opValue) then
        (case getTargetType (v_type opValue) of
           ArrayT elementType n \<Rightarrow>
             (case prepareArrayRef E opValue elementType of
                Inl e \<Rightarrow> Inl e
              | Inr ptrValue \<Rightarrow> castDataPtr2 unsafeRgn E bad ptrValue type)
         | PrimT k \<Rightarrow> if k = StringT then Inl NotModelled else castDataPtr2 unsafeRgn E bad opValue type
         | t \<Rightarrow> castDataPtr2 unsafeRgn E bad opValue type)
      else castDataPtr2 unsafeRgn E bad opValue type)"

section \<open>Expressions\<close>

text \<open>A chain of operators on a pointer, as in \<^verbatim>\<open>(&a[i].f)[j]\<close>.\<close>

datatype ptr_op =
    OpField nat
  | OpUnionField nat
  | OpIndex bool addr
  | OpIncrement addr
  | OpAddr
  | OpIndir
  | OpArrayRef
  | OpCast jty
  | OpMakeLean

fun apply_ptr_op :: "bool \<Rightarrow> tenv \<Rightarrow> (nat \<Rightarrow> bool) \<Rightarrow> ptr_op \<Rightarrow> dval \<Rightarrow> ptr_error + dval" where
  "apply_ptr_op u E bad (OpField i) v =
     (let fs = te_fields E (getTargetType (v_type v))
      in if i < length fs then getStructField u E bad v (fs ! i) else Inl CompileError)"
| "apply_ptr_op u E bad (OpUnionField i) v =
     (let fs = te_fields E (getTargetType (v_type v))
      in if i < length fs then getUnionField E v (fs ! i) else Inl CompileError)"
| "apply_ptr_op u E bad (OpIndex isConst idx) v =
     (case getTargetType (v_type v) of
        ArrayT t n \<Rightarrow> arrayIndexOperator E v t n isConst idx
      | t \<Rightarrow> Inl CompileError)"
| "apply_ptr_op u E bad (OpIncrement delta) v = dataPtrIncrementOperator E v delta"
| "apply_ptr_op u E bad OpAddr v = unOpAddr v"
| "apply_ptr_op u E bad OpIndir v = unOpIndir v"
| "apply_ptr_op u E bad OpArrayRef v =
     (case getTargetType (v_type v) of
        ArrayT t n \<Rightarrow> if is_ref (v_type v) then prepareArrayRef E v t else Inl CompileError
      | t \<Rightarrow> Inl CompileError)"
| "apply_ptr_op u E bad (OpCast type) v = castDataPtr u E bad v type"
| "apply_ptr_op u E bad OpMakeLean v = makeLeanDataPtr v"

primrec eval_ptr :: "bool \<Rightarrow> tenv \<Rightarrow> (nat \<Rightarrow> bool) \<Rightarrow> ptr_op list \<Rightarrow> dval \<Rightarrow> ptr_error + dval" where
  "eval_ptr u E bad [] v = Inr v"
| "eval_ptr u E bad (op # ops) v =
     (case apply_ptr_op u E bad op v of Inl e \<Rightarrow> Inl e | Inr w \<Rightarrow> eval_ptr u E bad ops w)"

end
