(* ===== verification/PtrThms.thy ===== *)
theory PtrThms
  imports PtrOps
begin

text \<open>
  Every access through a pointer that the operators of \<open>PtrOps\<close> derive from a good one stays inside
  the range of the validator of that pointer.
\<close>

section \<open>Flags\<close>

lemma flag_parts [flag_simps]:
  "getDataPtrKindFromFlags (lean_flags f) = DataPtrKind_Lean"
  "is_safe (lean_flags f) \<longleftrightarrow> is_safe f"
  "getConstKindFromFlags (lean_flags f) = getConstKindFromFlags f"
  "getDataPtrKindFromFlags (f AND PtrTypeFlag_All) = getDataPtrKindFromFlags f"
  "is_safe (f AND PtrTypeFlag_All) \<longleftrightarrow> is_safe f"
  "getConstKindFromFlags (f AND PtrTypeFlag_All) = getConstKindFromFlags f"
  "getDataPtrKindFromFlags (f AND NOT PtrTypeFlag_Safe) = getDataPtrKindFromFlags f"
  "\<not> is_safe (f AND NOT PtrTypeFlag_Safe)"
  "getConstKindFromFlags (f AND NOT PtrTypeFlag_Safe) = getConstKindFromFlags f"
  "getDataPtrKindFromFlags (f OR PtrTypeFlag_Safe) = getDataPtrKindFromFlags f"
  "is_safe (f OR PtrTypeFlag_Safe)"
  "getConstKindFromFlags (f OR PtrTypeFlag_Safe) = getConstKindFromFlags f"
  by (simp_all add: flag_defs getDataPtrKindFromFlags_def is_safe_def getConstKindFromFlags_def lean_flags_def
      bit.conj_disj_distrib2 and.assoc)

lemma ptr_kinds_distinct [flag_simps]:
  "DataPtrKind_Lean \<noteq> DataPtrKind_Normal" "DataPtrKind_Lean \<noteq> DataPtrKind_Thin"
  "DataPtrKind_Normal \<noteq> DataPtrKind_Thin" "DataPtrKind_Normal \<noteq> DataPtrKind_Lean"
  "DataPtrKind_Thin \<noteq> DataPtrKind_Normal" "DataPtrKind_Thin \<noteq> DataPtrKind_Lean"
  by (simp_all add: flag_defs)

lemma table_at_cases: "table_at z table i j = z \<or> (\<exists>row\<in>set table. table_at z table i j \<in> set row)"
  unfolding table_at_def by (metis nth_mem)

lemma field_const_cases:
  "table_at ConstKind_None fieldConstKindTable i j
     \<in> {ConstKind_None, ConstKind_Const, ConstKind_MaybeConst, ConstKind_AutoConstX, ConstKind_ReadOnlyX}"
  using table_at_cases [of ConstKind_None fieldConstKindTable i j] by (auto simp: fieldConstKindTable_def)

lemma field_flags:
  "is_safe (calcFieldPtrFlags f field) \<longleftrightarrow> is_safe f \<or> is_safe (pf_ptrTypeFlags field)"
  "getDataPtrKindFromFlags (calcFieldPtrFlags f field) =
     getDataPtrKindFromFlags f OR getDataPtrKindFromFlags (pf_ptrTypeFlags field)"
  "getConstKindFromFlags (calcFieldPtrFlags f field) =
     table_at ConstKind_None fieldConstKindTable
       (if pf_mutable field then 0 else const_index (getConstKindFromFlags f))
       (const_index (getConstKindFromFlags (pf_ptrTypeFlags field)))"
proof -
  define c where "c = table_at ConstKind_None fieldConstKindTable
       (if pf_mutable field then 0 else const_index (getConstKindFromFlags f))
       (const_index (getConstKindFromFlags (pf_ptrTypeFlags field)))"
  have cases: "c \<in> {ConstKind_None, ConstKind_Const, ConstKind_MaybeConst, ConstKind_AutoConstX, ConstKind_ReadOnlyX}"
    unfolding c_def by (rule field_const_cases)
  have c: "c AND PtrTypeFlag_Safe = 0" "c AND PtrTypeFlag_PtrKindMask = 0" "c AND PtrTypeFlag_ConstKindMask = c"
    using cases by (auto simp: flag_defs)
  have flags: "calcFieldPtrFlags f field =
      ((f OR pf_ptrTypeFlags field) AND PtrTypeFlag_All AND NOT PtrTypeFlag_ConstKindMask) OR c"
    by (simp add: calcFieldPtrFlags_def c_def Let_def)
  have "((f OR g) AND PtrTypeFlag_All AND NOT PtrTypeFlag_ConstKindMask) AND PtrTypeFlag_Safe =
      (f AND PtrTypeFlag_Safe) OR (g AND PtrTypeFlag_Safe)"
    and "((f OR g) AND PtrTypeFlag_All AND NOT PtrTypeFlag_ConstKindMask) AND PtrTypeFlag_PtrKindMask =
      (f AND PtrTypeFlag_PtrKindMask) OR (g AND PtrTypeFlag_PtrKindMask)"
    and "((f OR g) AND PtrTypeFlag_All AND NOT PtrTypeFlag_ConstKindMask) AND PtrTypeFlag_ConstKindMask = 0" for g
    by (simp_all add: flag_defs bit.conj_disj_distrib2 and.assoc)
  then show "is_safe (calcFieldPtrFlags f field) \<longleftrightarrow> is_safe f \<or> is_safe (pf_ptrTypeFlags field)"
    and "getDataPtrKindFromFlags (calcFieldPtrFlags f field) =
     getDataPtrKindFromFlags f OR getDataPtrKindFromFlags (pf_ptrTypeFlags field)"
    and "getConstKindFromFlags (calcFieldPtrFlags f field) = table_at ConstKind_None fieldConstKindTable
       (if pf_mutable field then 0 else const_index (getConstKindFromFlags f))
       (const_index (getConstKindFromFlags (pf_ptrTypeFlags field)))"
    unfolding c_def [symmetric] unfolding flags is_safe_def getDataPtrKindFromFlags_def
    by (simp_all add: bit.conj_disj_distrib2 c or_eq_0_iff getConstKindFromFlags_def)
qed

section \<open>Ranges\<close>

definition within :: "validator \<Rightarrow> addr \<Rightarrow> nat \<Rightarrow> bool" where
  "within vd p n \<longleftrightarrow> unat (vd_rangeBegin vd) \<le> unat p \<and> unat p + n \<le> unat (vd_rangeEnd vd)"

text \<open>A validator for a part of the range of another, on the same box.\<close>

definition narrows :: "validator \<Rightarrow> validator option \<Rightarrow> bool" where
  "narrows vd vo \<longleftrightarrow> (case vo of
     None \<Rightarrow> False
   | Some vd0 \<Rightarrow> vd_targetBox vd = vd_targetBox vd0 \<and>
       unat (vd_rangeBegin vd0) \<le> unat (vd_rangeBegin vd) \<and> unat (vd_rangeEnd vd) \<le> unat (vd_rangeEnd vd0))"

text \<open>The validator of a value, and the good values below a validator \<open>vo\<close>: normal or lean pointers
  whose validator narrows \<open>vo\<close>, whose static range is the range of the validator, and which lie in
  it when their type is safe.\<close>

definition validator_of :: "tenv \<Rightarrow> dval \<Rightarrow> ptr_error + validator option" where
  "validator_of E v =
     (if getPtrKind (v_type v) = DataPtrKind_Normal then Inr (v_validator v)
      else (case getLeanDataPtrValidator E v of None \<Rightarrow> Inl CompileError | Some l \<Rightarrow> getValidatorValue E l))"

definition target_size :: "tenv \<Rightarrow> dval \<Rightarrow> nat" where
  "target_size E v = te_size E (getTargetType (v_type v))"

definition static_range_ok :: "tenv \<Rightarrow> lean \<Rightarrow> bool" where
  "static_range_ok E l \<longleftrightarrow>
     (\<not> isDynamicRange l \<and> \<not> hasValidatorValue l \<longrightarrow>
       (\<exists>vd same. getValidatorValue E l = Inr (Some vd) \<and> ln_rangeBeginValue l = Some (vd_rangeBegin vd, same) \<and>
         unat (vd_rangeEnd vd) = unat (vd_rangeBegin vd) + ln_rangeLength l))"

definition good_shape :: "tenv \<Rightarrow> dval \<Rightarrow> bool" where
  "good_shape E v \<longleftrightarrow>
     (if getPtrKind (v_type v) = DataPtrKind_Normal then v_variable v = None \<and> v_lean v = None
      else getPtrKind (v_type v) = DataPtrKind_Lean \<and> (v_variable v = None \<or> v_lean v = None) \<and>
        (\<exists>l. getLeanDataPtrValidator E v = Some l \<and> static_range_ok E l))"

definition good_below :: "tenv \<Rightarrow> validator option \<Rightarrow> dval \<Rightarrow> bool" where
  "good_below E vo v \<longleftrightarrow>
     good_shape E v \<and>
     (\<forall>vd. validator_of E v = Inr (Some vd) \<longrightarrow> narrows vd vo) \<and>
     (is_safe (ptr_flags (v_type v)) \<longrightarrow>
       (\<exists>vd. validator_of E v = Inr (Some vd) \<and> within vd (v_p v) (target_size E v)))"

definition dval_ok :: "tenv \<Rightarrow> dval \<Rightarrow> bool" where
  "dval_ok E v \<longleftrightarrow> (\<exists>vo. validator_of E v = Inr vo \<and> good_below E vo v)"

text \<open>The end of an access does not wrap around, and arrays have elements
  (\<^verbatim>\<open>UserArrayType::calcLayout\<close> rejects others).\<close>

fun arrays_ok :: "jty \<Rightarrow> bool" where
  "arrays_ok (ArrayT t n) \<longleftrightarrow> 0 < n \<and> arrays_ok t"
| "arrays_ok t \<longleftrightarrow> True"

definition ptr_fits :: "tenv \<Rightarrow> dval \<Rightarrow> bool" where
  "ptr_fits E v \<longleftrightarrow> unat (v_p v) + target_size E v < 2 ^ 64 \<and> arrays_ok (getTargetType (v_type v))"

lemma ptr_fits_code [code]:
  "ptr_fits E v \<longleftrightarrow> uint (v_p v) + int (target_size E v) < 18446744073709551616 \<and> arrays_ok (getTargetType (v_type v))"
proof -
  have "int (unat (v_p v) + target_size E v) < int (2 ^ 64) \<longleftrightarrow> unat (v_p v) + target_size E v < 2 ^ 64"
    by (simp only: of_nat_less_iff)
  moreover have "int (unat (v_p v) + target_size E v) = uint (v_p v) + int (target_size E v)"
    by (simp only: uint_nat of_nat_add)
  moreover have "int (2 ^ 64) = 18446744073709551616" by simp
  ultimately show ?thesis by (simp only: ptr_fits_def)
qed

lemma addr_bound: "unat (p :: addr) < 2 ^ 64"
proof -
  have "unat p < 2 ^ LENGTH(64)" by (rule unsigned_less)
  then show ?thesis by simp
qed

lemma unat_add_fits: "unat p + n < 2 ^ 64 \<Longrightarrow> unat (p + of_nat n :: addr) = unat p + n"
  by (simp add: unat_word_ariths unat_of_nat mod_add_right_eq)

section \<open>Checks\<close>

lemma direct_sound:
  assumes "tryCheckDataPtrRangeDirect p b (len - n) = Inr ()" and "n \<le> len" and "unat b + len < 2 ^ 64"
  shows "unat b \<le> unat p \<and> unat p + n \<le> unat b + len"
proof -
  have e: "unat (b + of_nat (len - n)) = unat b + (len - n)" using assms(2,3) by (intro unat_add_fits) simp
  have "b \<le> p" and "p \<le> b + of_nat (len - n)"
    using assms(1) by (auto simp: tryCheckDataPtrRangeDirect_def Let_def not_less split: if_splits)
  then show ?thesis using e assms(2) by (simp add: word_le_nat_alt)
qed

lemma indirect_sound:
  assumes "tryCheckDataPtrRangeIndirect bad p n vo = Inr ()" and "unat p + n < 2 ^ 64"
  obtains vd where "vo = Some vd" and "within vd p n" and "p \<noteq> 0" and "\<not> bad (vd_targetBox vd)"
proof -
  obtain vd where vd: "vo = Some vd" "p \<noteq> 0" "\<not> bad (vd_targetBox vd)"
    "vd_rangeBegin vd \<le> p" "p + of_nat n \<le> vd_rangeEnd vd"
    using assms(1) by (auto simp: tryCheckDataPtrRangeIndirect_def Let_def not_less split: option.splits if_splits)
  then have "within vd p n" using unat_add_fits [OF assms(2)] by (simp add: within_def word_le_nat_alt)
  then show ?thesis using that vd by blast
qed

lemma ptr_kind_cases:
  assumes "good_shape E v"
  obtains "getPtrKind (v_type v) = DataPtrKind_Normal" "v_variable v = None" "v_lean v = None"
  | l where "getPtrKind (v_type v) = DataPtrKind_Lean" "getLeanDataPtrValidator E v = Some l" "static_range_ok E l"
      "v_variable v = None \<or> v_lean v = None"
  using assms unfolding good_shape_def by (cases "getPtrKind (v_type v) = DataPtrKind_Normal") auto

lemma variable_lean_value: "getValidatorValue E (prepareLeanDataPtrValidator E va) = Inr (Some (variable_validator E va))"
  by (simp add: prepareLeanDataPtrValidator_def narrowValidator_def)

lemma validator_of_lean:
  "getPtrKind (v_type v) = DataPtrKind_Lean \<Longrightarrow> getLeanDataPtrValidator E v = Some l \<Longrightarrow>
    validator_of E v = getValidatorValue E l"
  by (simp add: validator_of_def flag_simps)

lemma validator_of_normal:
  "getPtrKind (v_type v) = DataPtrKind_Normal \<Longrightarrow> validator_of E v = Inr (v_validator v)"
  by (simp add: validator_of_def)

text \<open>A check that passes puts the access inside the range of the validator.\<close>

lemma check_sound:
  assumes good: "good_below E vo v" and fits: "ptr_fits E v" and ok: "checkDataPtrRange False E bad v = Inr ()"
  shows "\<exists>vd. validator_of E v = Inr (Some vd) \<and> within vd (v_p v) (target_size E v)"
proof (cases "is_safe (ptr_flags (v_type v))")
  case True
  then show ?thesis using good by (simp add: good_below_def)
next
  case unsafe: False
  have shape: "good_shape E v" using good by (simp add: good_below_def)
  have fit: "unat (v_p v) + target_size E v < 2 ^ 64" using fits by (simp add: ptr_fits_def)
  from shape show ?thesis
  proof (cases rule: ptr_kind_cases)
    case 1
    then have "tryCheckDataPtrRangeIndirect bad (v_p v) (target_size E v) (v_validator v) = Inr ()"
      using ok unsafe by (simp add: checkDataPtrRange_def Let_def flag_simps target_size_def)
    then show ?thesis using indirect_sound [OF _ fit] validator_of_normal [OF 1(1)] by metis
  next
    case (2 l)
    note val = validator_of_lean [OF 2(1,2)]
    show ?thesis
    proof (cases "isDynamicRange l \<or> hasValidatorValue l")
      case True
      then obtain vd where "getValidatorValue E l = Inr vd"
        "tryCheckDataPtrRangeIndirect bad (v_p v) (target_size E v) vd = Inr ()"
        using ok unsafe 2 by (auto simp: checkDataPtrRange_def Let_def flag_simps target_size_def split: sum.splits)
      then show ?thesis using indirect_sound [OF _ fit] val by metis
    next
      case False
      then obtain vd same where vd: "getValidatorValue E l = Inr (Some vd)"
        "ln_rangeBeginValue l = Some (vd_rangeBegin vd, same)"
        "unat (vd_rangeEnd vd) = unat (vd_rangeBegin vd) + ln_rangeLength l"
        using 2(3) by (auto simp: static_range_ok_def)
      have n: "target_size E v \<le> ln_rangeLength l"
        and d: "tryCheckDataPtrRangeDirect (v_p v) (vd_rangeBegin vd) (ln_rangeLength l - target_size E v) = Inr ()"
        using ok unsafe 2 False vd(2)
        by (auto simp: checkDataPtrRange_def Let_def flag_simps target_size_def not_less split: if_splits)
      have "unat (vd_rangeBegin vd) + ln_rangeLength l < 2 ^ 64" using vd(3) addr_bound [of "vd_rangeEnd vd"] by simp
      from direct_sound [OF d n this] show ?thesis using vd(1,3) val by (simp add: within_def)
    qed
  qed
qed

section \<open>Operators keep values good\<close>

lemma set_lean:
  assumes "good_shape E v"
  shows "getValidatorValue E (setLeanDataPtrValidator E v) = validator_of E v"
    and "static_range_ok E (setLeanDataPtrValidator E v)"
  using assms
  by (cases rule: ptr_kind_cases;
      simp add: setLeanDataPtrValidator_def getLeanDataPtrValidator_def validator_of_def originOf_def
        narrowValidator_def static_range_ok_def isDynamicRange_def flag_simps)+

lemma origin_value:
  assumes "good_shape E v"
  shows "createValidator E (originOf v) rb len = narrowValidator rb len (validator_of E v)"
  using assms
proof (cases rule: ptr_kind_cases)
  case 1
  then show ?thesis by (simp add: originOf_def validator_of_def)
next
  case (2 l)
  show ?thesis
  proof (cases "v_variable v")
    case None
    then show ?thesis using 2 validator_of_lean [OF 2(1,2)]
      by (auto simp: originOf_def getLeanDataPtrValidator_def split: option.splits)
  next
    case (Some va)
    then show ?thesis using 2 validator_of_lean [OF 2(1,2)] variable_lean_value
      by (auto simp: originOf_def getLeanDataPtrValidator_def)
  qed
qed

lemma good_leanI:
  assumes "getPtrKind t = DataPtrKind_Lean" and "static_range_ok E l"
    and "\<And>vd. getValidatorValue E l = Inr (Some vd) \<Longrightarrow> narrows vd vo"
    and "is_safe (ptr_flags t) \<Longrightarrow> \<exists>vd. getValidatorValue E l = Inr (Some vd) \<and> within vd p (te_size E (getTargetType t))"
  shows "good_below E vo (lean_value t p l)"
  using assms
  by (simp add: good_below_def good_shape_def validator_of_def lean_value_def getLeanDataPtrValidator_def
      flag_simps target_size_def)

lemma good_belowD:
  assumes "good_below E vo v"
  shows "good_shape E v" and "\<And>vd. validator_of E v = Inr (Some vd) \<Longrightarrow> narrows vd vo"
    and "is_safe (ptr_flags (v_type v)) \<Longrightarrow>
      \<exists>vd. validator_of E v = Inr (Some vd) \<and> within vd (v_p v) (target_size E v)"
  using assms by (auto simp: good_below_def)

lemma within_part:
  assumes "within vd p n" and "ofs + k \<le> n"
  shows "within vd (p + of_nat ofs) k"
proof -
  have "unat p + ofs < 2 ^ 64 \<or> (ofs = 0 \<and> k = 0)" 
    using assms addr_bound [of "vd_rangeEnd vd"] addr_bound [of p] by (auto simp: within_def)
  then show ?thesis using assms unat_add_fits [of p ofs] by (auto simp: within_def)
qed

lemma ptr_type_simps [simp]:
  "ptr_flags (getDataPtrType t r f) = f" "getTargetType (getDataPtrType t r f) = t"
  "is_ref (getDataPtrType t r f) = r"
  "ptr_flags (Field_getDataPtrType field r f) = f" "getTargetType (Field_getDataPtrType field r f) = pf_type field"
  "is_ref (Field_getDataPtrType field r f) = r"
  by (simp_all add: getDataPtrType_def Field_getDataPtrType_def)

lemma retype_simps [simp]:
  "getLeanDataPtrValidator E (v\<lparr>v_type := t\<rparr>) = getLeanDataPtrValidator E v"
  "getLeanDataPtrValidator E (v\<lparr>v_type := t, v_p := p\<rparr>) = getLeanDataPtrValidator E v"
  by (cases "v_lean v"; simp add: getLeanDataPtrValidator_def)+

lemma good_retype:
  assumes "good_below E vo v" and "getPtrKind t = getPtrKind (v_type v)"
    and "is_safe (ptr_flags t) \<Longrightarrow> is_safe (ptr_flags (v_type v))"
    and "te_size E (getTargetType t) \<le> target_size E v"
  shows "good_below E vo (v\<lparr>v_type := t\<rparr>)"
  using assms
  by (fastforce simp: good_below_def good_shape_def validator_of_def target_size_def within_def split: option.splits)

lemma narrow_part:
  assumes "within vd p n" and "narrows vd vo"
  defines "vd' \<equiv> createDataPtrValidator (vd_targetBox vd) p n"
  shows "narrows vd' vo" and "within vd' p n" and "unat (vd_rangeEnd vd') = unat p + n" and "vd_rangeBegin vd' = p"
proof -
  have "unat p + n < 2 ^ 64" using assms(1) addr_bound [of "vd_rangeEnd vd"] by (auto simp: within_def)
  then have e: "unat (p + of_nat n) = unat p + n" by (rule unat_add_fits)
  show "narrows vd' vo" "within vd' p n" "unat (vd_rangeEnd vd') = unat p + n" "vd_rangeBegin vd' = p"
    using assms e by (auto simp: createDataPtrValidator_def narrows_def within_def split: option.splits)
qed

lemma field_type_kind:
  assumes "tenv_ok E" and "f \<in> set (te_fields E t)"
  shows "getDataPtrKindFromFlags (calcFieldPtrFlags flags f) = getDataPtrKindFromFlags flags"
    and "is_safe (calcFieldPtrFlags flags f) \<longleftrightarrow> is_safe flags"
  using tenv_okD(11,12) [OF assms] by (simp_all add: field_flags)

lemma not_thin: "good_below E vo v \<Longrightarrow> getPtrKind (v_type v) \<noteq> DataPtrKind_Thin"
  unfolding good_below_def good_shape_def by (metis ptr_kinds_distinct(2,3))

lemma getStructField_good:
  assumes E: "tenv_ok E" and good: "good_below E vo v" and fits: "ptr_fits E v"
    and f: "f \<in> set (te_fields E (getTargetType (v_type v)))" and w: "getStructField False E bad v f = Inr w"
  shows "good_below E vo w"
proof (cases "te_pod E (getTargetType (v_type v))")
  case True
  have sz: "pf_offset f + te_size E (pf_type f) \<le> target_size E v"
    using tenv_okD(10) [OF E f] by (simp add: target_size_def)
  have w: "w = lean_value (Field_getDataPtrType f True (lean_flags (calcFieldPtrFlags (ptr_flags (v_type v)) f)))
      (v_p v + of_nat (pf_offset f)) (setLeanDataPtrValidator E v)"
    using w True not_thin [OF good] by (simp add: getStructField_def Let_def)
  show ?thesis
    unfolding w using good_belowD [OF good] set_lean [OF good_belowD(1) [OF good]] within_part [OF _ sz]
    by (intro good_leanI) (auto simp: getPtrKind_def flag_simps field_type_kind [OF E f])
next
  case False
  have ok: "checkDataPtrRange False E bad v = Inr ()"
    using w False not_thin [OF good] by (auto simp: getStructField_def Let_def split: sum.splits)
  define p where "p = v_p v + of_nat (pf_offset f)"
  define n where "n = te_size E (pf_type f)"
  have w: "w = lean_value (Field_getDataPtrType f True
      (lean_flags (calcFieldPtrFlags (ptr_flags (v_type v)) f OR PtrTypeFlag_Safe))) p (setLeanDataPtrRange v p n)"
    using w False not_thin [OF good] ok by (simp add: getStructField_def Let_def p_def n_def)
  obtain vd where vd: "validator_of E v = Inr (Some vd)" "within vd (v_p v) (target_size E v)"
    using check_sound [OF good fits ok] by blast
  have part: "within vd p n"
    using within_part [OF vd(2)] tenv_okD(10) [OF E f] by (simp add: target_size_def p_def n_def)
  note narrow = narrow_part [OF part good_belowD(2) [OF good vd(1)]]
  have val: "getValidatorValue E (setLeanDataPtrRange v p n) = Inr (Some (createDataPtrValidator (vd_targetBox vd) p n))"
    using vd(1) by (simp add: setLeanDataPtrRange_def origin_value [OF good_belowD(1) [OF good]] narrowValidator_def)
  show ?thesis
    unfolding w
  proof (rule good_leanI)
    show "static_range_ok E (setLeanDataPtrRange v p n)"
      using narrow(3,4) by (auto simp: static_range_ok_def val) (auto simp: setLeanDataPtrRange_def)
  qed (use narrow val in \<open>auto simp: getPtrKind_def flag_simps n_def\<close>)
qed

lemma lean_kind:
  assumes "good_below E vo v" and "getPtrKind (v_type v) = DataPtrKind_Lean" and "getLeanDataPtrValidator E v = Some l"
  shows "static_range_ok E l" and "getValidatorValue E l = validator_of E v"
  using assms by (auto simp: good_below_def good_shape_def flag_simps validator_of_lean split: if_splits)

lemma getUnionField_good:
  assumes E: "tenv_ok E" and good: "good_below E vo v"
    and f: "f \<in> set (te_fields E (getTargetType (v_type v)))" and w: "getUnionField E v f = Inr w"
  shows "good_below E vo w"
proof -
  obtain l where l: "getPtrKind (v_type v) = DataPtrKind_Lean" "getLeanDataPtrValidator E v = Some l"
    "w = lean_value (Field_getDataPtrType f True (calcFieldPtrFlags (ptr_flags (v_type v)) f)) (v_p v) l"
    using w not_thin [OF good] by (auto simp: getUnionField_def Let_def split: if_splits option.splits)
  have sz: "te_size E (pf_type f) \<le> target_size E v" using tenv_okD(10) [OF E f] by (simp add: target_size_def)
  show ?thesis
    unfolding l(3) using good_belowD [OF good] lean_kind [OF good l(1,2)] l(1) sz
    by (intro good_leanI) (auto simp: getPtrKind_def field_type_kind [OF E f] within_def)
qed

lemma index_offset:
  assumes "0 \<le> sint (idx :: addr)" and "sint idx < int n" and "within vd p (n * k)"
  shows "within vd (p + idx * of_nat k) k"
proof -
  define i where "i = nat (sint idx)"
  have i: "idx = of_nat i" "i < n"
    using assms(1,2) by (simp_all add: i_def)
  have "i * k + k \<le> n * k" using i(2) by (metis Suc_leI mult_Suc mult_le_mono1 add.commute)
  from within_part [OF assms(3) this] show ?thesis by (simp add: i(1))
qed

lemma arrayIndexOperator_good:
  assumes E: "tenv_ok E" and good: "good_below E vo v" and t: "getTargetType (v_type v) = ArrayT t n"
    and w: "arrayIndexOperator E v t n isConst idx = Inr w"
  shows "good_below E vo w"
proof -
  define flags where "flags = ptr_flags (v_type v) AND PtrTypeFlag_All"
  define f where "f = (if is_safe flags \<and> \<not> isConst then flags AND NOT PtrTypeFlag_Safe else flags)"
  define p where "p = v_p v + idx * of_nat (te_size E t)"
  have kind: "getDataPtrKindFromFlags f = getPtrKind (v_type v)"
    by (simp add: f_def flags_def flag_simps getPtrKind_def)
  obtain l g where l: "w = lean_value (getDataPtrType t True g) p l" "static_range_ok E l"
    "getValidatorValue E l = validator_of E v" "getDataPtrKindFromFlags g = DataPtrKind_Lean" "is_safe g \<longleftrightarrow> is_safe f"
  proof (cases "getPtrKind (v_type v) = DataPtrKind_Lean")
    case True
    then obtain l where "getLeanDataPtrValidator E v = Some l" "w = lean_value (getDataPtrType t True f) p l"
      using w not_thin [OF good]
      by (auto simp: arrayIndexOperator_def Let_def f_def flags_def p_def split: if_splits option.splits)
    then show ?thesis using that lean_kind [OF good True] kind True by simp
  next
    case False
    then have "w = lean_value (getDataPtrType t True (lean_flags f)) p (setLeanDataPtrValidator E v)"
      using w not_thin [OF good] by (auto simp: arrayIndexOperator_def Let_def f_def flags_def p_def split: if_splits)
    then show ?thesis using that set_lean [OF good_belowD(1) [OF good]] by (simp add: flag_simps)
  qed
  have "\<exists>vd. getValidatorValue E l = Inr (Some vd) \<and> within vd p (te_size E t)" if "is_safe g"
  proof -
    have safe: "is_safe flags" "isConst" using that l(5) by (auto simp: f_def flag_simps split: if_splits)
    then obtain vd where vd: "validator_of E v = Inr (Some vd)" "within vd (v_p v) (target_size E v)"
      using good_belowD(3) [OF good] by (auto simp: flags_def flag_simps)
    have "0 \<le> sint idx" "sint idx < int n"
      using w safe by (auto simp: arrayIndexOperator_def Let_def flags_def split: if_splits)
    then show ?thesis
      using index_offset [of idx n vd "v_p v" "te_size E t"] vd l(3) tenv_okD(6) [OF E]
      by (auto simp: target_size_def t p_def)
  qed
  then show ?thesis
    unfolding l(1) using l(2-4) good_belowD(2) [OF good] by (intro good_leanI) (auto simp: getPtrKind_def)
qed

lemma unsafe_type:
  "getPtrKind (getUnsafePtrType t) = getPtrKind t" "\<not> is_safe (ptr_flags (getUnsafePtrType t))"
  by (simp_all add: getUnsafePtrType_def getPtrKind_def flag_simps and.assoc [symmetric])

lemma good_normalI:
  assumes "getPtrKind t = DataPtrKind_Normal" and "\<And>vd. vdo = Some vd \<Longrightarrow> narrows vd vo"
    and "is_safe (ptr_flags t) \<Longrightarrow> \<exists>vd. vdo = Some vd \<and> within vd p (te_size E (getTargetType t))"
  shows "good_below E vo (normal_value t p vdo)"
  using assms by (simp add: good_below_def good_shape_def validator_of_def normal_value_def target_size_def)

lemma dataPtrIncrementOperator_good:
  assumes good: "good_below E vo v" and w: "dataPtrIncrementOperator E v delta = Inr w"
  shows "good_below E vo w"
proof (cases "getPtrKind (v_type v) = DataPtrKind_Lean")
  case True
  then obtain p where "w = lean_value (getUnsafePtrType (v_type v)) p (setLeanDataPtrValidator E v)"
    using w by (auto simp: dataPtrIncrementOperator_def Let_def flag_simps split: if_splits)
  then show ?thesis
    using set_lean [OF good_belowD(1) [OF good]] good_belowD(2) [OF good] True
    by (auto intro!: good_leanI simp: unsafe_type)
next
  case False
  then have kind: "getPtrKind (v_type v) = DataPtrKind_Normal"
    using good_belowD(1) [OF good] by (auto simp: good_shape_def split: if_splits)
  then obtain p where "w = normal_value (getUnsafePtrType (v_type v)) p (v_validator v)"
    using w by (auto simp: dataPtrIncrementOperator_def Let_def flag_simps split: if_splits)
  then show ?thesis
    using good_belowD(2) [OF good] kind by (auto intro!: good_normalI simp: unsafe_type validator_of_def)
qed

lemma unOp_good:
  assumes good: "good_below E vo v" and w: "unOpAddr v = Inr w \<or> unOpIndir v = Inr w"
  shows "good_below E vo w"
proof -
  obtain r where "w = v\<lparr>v_type := getDataPtrType (getTargetType (v_type v)) r (ptr_flags (v_type v) AND PtrTypeFlag_All)\<rparr>"
    using w by (auto simp: unOpAddr_def unOpIndir_def Let_def split: if_splits)
  then show ?thesis by (auto intro!: good_retype [OF good] simp: getPtrKind_def flag_simps target_size_def)
qed

lemma prepareArrayRef_good:
  assumes E: "tenv_ok E" and good: "good_below E vo v" and t: "getTargetType (v_type v) = ArrayT t n" and n: "0 < n"
    and w: "prepareArrayRef E v t = Inr w"
  shows "good_below E vo w" and "v_p w = v_p v" and "target_size E w \<le> target_size E v"
    and "getTargetType (v_type w) = t"
proof -
  let ?t = "getDataPtrType t False (ptr_flags (v_type v) AND PtrTypeFlag_All)"
  have sz: "te_size E t \<le> target_size E v" using tenv_okD(6) [OF E] n by (simp add: target_size_def t)
  have "good_below E vo w \<and> v_p w = v_p v \<and> target_size E w \<le> target_size E v \<and> getTargetType (v_type w) = t"
  proof (cases "getPtrKind (v_type v) = DataPtrKind_Normal")
    case True
    then have w: "w = v\<lparr>v_type := ?t\<rparr>" using w by (simp add: prepareArrayRef_def Let_def)
    have "good_below E vo (v\<lparr>v_type := ?t\<rparr>)"
      by (rule good_retype [OF good]) (use sz in \<open>auto simp: getPtrKind_def flag_simps target_size_def\<close>)
    then show ?thesis using sz by (simp add: w target_size_def)
  next
    case False
    then obtain l where l: "getLeanDataPtrValidator E v = Some l" "w = lean_value ?t (v_p v) l"
      using w not_thin [OF good] by (auto simp: prepareArrayRef_def Let_def split: if_splits option.splits)
    have kind: "getPtrKind (v_type v) = DataPtrKind_Lean"
      using False good_belowD(1) [OF good] by (auto simp: good_shape_def split: if_splits)
    have "good_below E vo (lean_value ?t (v_p v) l)"
      using good_belowD [OF good] lean_kind [OF good kind l(1)] kind sz
      by (intro good_leanI) (auto simp: getPtrKind_def flag_simps within_def)
    then show ?thesis using sz l(2) by (simp add: lean_value_def target_size_def)
  qed
  then show "good_below E vo w" "v_p w = v_p v" "target_size E w \<le> target_size E v" "getTargetType (v_type w) = t"
    by simp_all
qed

lemma makeLeanDataPtr_good:
  assumes good: "good_below E vo v" and w: "makeLeanDataPtr v = Inr w"
  shows "good_below E vo w"
proof -
  let ?l = "LeanDataPtrValidator (OriginValidator (v_validator v)) None 0 None"
  have kind: "getPtrKind (v_type v) = DataPtrKind_Normal" and
    w: "w = lean_value (getDataPtrType (getTargetType (v_type v)) False (lean_flags (ptr_flags (v_type v) AND PtrTypeFlag_All)))
      (v_p v) ?l"
    using w by (auto simp: makeLeanDataPtr_def Let_def split: if_splits)
  show ?thesis
    unfolding w using good_belowD [OF good] validator_of_normal [OF kind, of E]
    by (intro good_leanI)
      (auto simp: getPtrKind_def flag_simps static_range_ok_def isDynamicRange_def narrowValidator_def target_size_def)
qed

section \<open>Casts\<close>

lemma first_some_Some: "first_some f xs = Some y \<Longrightarrow> \<exists>x\<in>set xs. f x = Some y"
  by (induction xs) (auto split: option.splits)

lemma find_Some_mem: "find P xs = Some x \<Longrightarrow> x \<in> set xs \<and> P x"
  by (auto simp: find_Some_iff)

text \<open>A base type lies inside the struct.\<close>

lemma base_inside:
  assumes E: "tenv_ok E"
  shows "findBaseTypeTraverseImpl n E self type = Some ofs \<Longrightarrow> ofs + te_size E type \<le> te_size E self"
proof (induction n arbitrary: self ofs)
  case (Suc n)
  show ?case
  proof (cases "find (\<lambda>slot. te_signature E (fst slot) = te_signature E type) (te_bases E self)")
    case (Some slot)
    obtain b o' where slot: "slot = (b, o')" by (cases slot)
    have mem: "(b, o') \<in> set (te_bases E self)" and sg: "te_signature E b = te_signature E type"
      using find_Some_mem [OF Some] by (simp_all add: slot)
    have "ofs \<le> o'" using Suc.prems Some tenv_okD(7) [OF E mem] by (auto simp: slot split: if_splits)
    then show ?thesis using tenv_okD(9) [OF E mem] tenv_okD(1) [OF E mem sg] by simp
  next
    case None
    then obtain b o' o'' where mem: "(b, o') \<in> set (te_bases E self)"
      and "findBaseTypeTraverseImpl n E b type = Some o''" "ofs = o'' + o'"
      using Suc.prems first_some_Some by fastforce
    then show ?thesis using Suc.IH tenv_okD(9) [OF E mem] by fastforce
  qed
qed simp

lemma getOffset_inside:
  assumes E: "tenv_ok E" and r: "Cast_DataPtr_getOffset E t u = Inr ofs"
    and sz: "te_size E (getTargetType u) \<le> te_size E (getTargetType t)"
  shows "ofs + te_size E (getTargetType u) \<le> te_size E (getTargetType t)"
proof (cases "ofs = 0")
  case False
  then have "findBaseTypeTraverse E (getTargetType t) (getTargetType u) = Some ofs"
    using r by (auto simp: Cast_DataPtr_getOffset_def Let_def split: if_splits option.splits)
  then show ?thesis using base_inside [OF E] by (auto simp: findBaseTypeTraverse_def simp del: findBaseTypeTraverseImpl.simps split: if_splits)
qed (use sz in simp)

lemma cast_within:
  assumes E: "tenv_ok E" and good: "good_below E vo v" and fits: "unat (v_p v) + target_size E v < 2 ^ 64"
    and check: "safe_check False E bad v u = Inr ()" and ofs: "Cast_DataPtr_getOffset E (v_type v) u = Inr ofs"
    and sz: "is_safe (ptr_flags u) \<Longrightarrow> te_size E (getTargetType u) \<le> target_size E v"
    and arr: "arrays_ok (getTargetType (v_type v))"
    and safe: "is_safe (ptr_flags u)"
  shows "\<exists>vd. validator_of E v = Inr (Some vd) \<and> within vd (v_p v + of_nat ofs) (te_size E (getTargetType u))"
proof -
  have "checkDataPtrRange False E bad v = Inr ()" using check safe by (simp add: safe_check_def)
  moreover have "ptr_fits E v" using fits arr by (simp add: ptr_fits_def)
  ultimately obtain vd where "validator_of E v = Inr (Some vd)" "within vd (v_p v) (target_size E v)"
    using check_sound [OF good] by blast
  then show ?thesis
    using within_part getOffset_inside [OF E ofs] sz [OF safe] by (auto simp: target_size_def)
qed

lemma castDataPtr2_good:
  assumes E: "tenv_ok E" and good: "good_below E vo v" and fits: "unat (v_p v) + target_size E v < 2 ^ 64"
    and arr: "arrays_ok (getTargetType (v_type v))"
    and sz: "is_safe (ptr_flags u) \<Longrightarrow> te_size E (getTargetType u) \<le> target_size E v"
    and fat: "getPtrKind u \<noteq> DataPtrKind_Thin" and w: "castDataPtr2 False E bad v u = Inr w"
  shows "good_below E vo w"
proof (cases "getPtrKind (v_type v) = DataPtrKind_Normal")
  case True
  then have u: "getPtrKind u = DataPtrKind_Normal" and w: "Cast_DataPtr_Normal2Normal False E bad v u = Inr w"
    using w fat by (auto simp: castDataPtr2_def Let_def flag_simps split: if_splits)
  then obtain ofs where c: "safe_check False E bad v u = Inr ()" "Cast_DataPtr_getOffset E (v_type v) u = Inr ofs"
    "w = v\<lparr>v_type := u, v_p := v_p v + of_nat ofs\<rparr>"
    by (auto simp: Cast_DataPtr_Normal2Normal_def split: sum.splits)
  have "v_variable v = None" "v_lean v = None" using good_belowD(1) [OF good] True by (auto simp: good_shape_def)
  then have "w = normal_value u (v_p v + of_nat ofs) (v_validator v)" using c(3) by (simp add: normal_value_def)
  then show ?thesis
    using good_belowD(2) [OF good] cast_within [OF E good fits c(1,2) sz arr] validator_of_normal [OF True] u
    by (auto intro!: good_normalI)
next
  case False
  then have kind: "getPtrKind (v_type v) = DataPtrKind_Lean"
    using good_belowD(1) [OF good] by (auto simp: good_shape_def split: if_splits)
  then have u: "getPtrKind u = DataPtrKind_Normal" and w: "Cast_DataPtr_Lean2Normal False E bad v u = Inr w"
    using w fat by (auto simp: castDataPtr2_def Let_def flag_simps split: if_splits)
  then obtain ofs l vdo where c: "safe_check False E bad v u = Inr ()" "Cast_DataPtr_getOffset E (v_type v) u = Inr ofs"
    "getLeanDataPtrValidator E v = Some l" "getValidatorValue E l = Inr vdo"
    "w = normal_value u (v_p v + of_nat ofs) vdo"
    by (auto simp: Cast_DataPtr_Lean2Normal_def split: sum.splits option.splits)
  then show ?thesis
    using good_belowD(2) [OF good] cast_within [OF E good fits c(1,2) sz arr] validator_of_lean [OF kind c(3)] u
    by (auto intro!: good_normalI)
qed

text \<open>The casts that keep values good: to fat pointers, and to a safe pointer only when its target
  is no larger than the source. The size of an array reference that decays is that of an element.\<close>

definition source_size :: "tenv \<Rightarrow> dval \<Rightarrow> nat" where
  "source_size E v =
     (case getTargetType (v_type v) of
        ArrayT t n \<Rightarrow> if is_ref (v_type v) then te_size E t else target_size E v
      | _ \<Rightarrow> target_size E v)"

fun op_ok :: "tenv \<Rightarrow> ptr_op \<Rightarrow> dval \<Rightarrow> bool" where
  "op_ok E (OpCast u) v \<longleftrightarrow> getPtrKind u \<noteq> DataPtrKind_Thin \<and>
     (is_safe (ptr_flags u) \<longrightarrow> te_size E (getTargetType u) \<le> source_size E v)"
| "op_ok E op v \<longleftrightarrow> True"

lemma castDataPtr_good:
  assumes E: "tenv_ok E" and good: "good_below E vo v" and fits: "ptr_fits E v"
    and op: "op_ok E (OpCast u) v" and w: "castDataPtr False E bad v u = Inr w"
  shows "good_below E vo w"
proof (cases "is_ref (v_type v) \<and> (\<exists>t n. getTargetType (v_type v) = ArrayT t n)")
  case True
  then obtain t n where t: "is_ref (v_type v)" "getTargetType (v_type v) = ArrayT t n" by blast
  then obtain v' where v': "prepareArrayRef E v t = Inr v'" "castDataPtr2 False E bad v' u = Inr w"
    using w by (auto simp: castDataPtr_def split: sum.splits)
  have n: "0 < n" using fits t(2) by (simp add: ptr_fits_def)
  note a = prepareArrayRef_good [OF E good t(2) n v'(1)]
  show ?thesis
  proof (rule castDataPtr2_good [OF E a(1) _ _ _ _ v'(2)])
    show "unat (v_p v') + target_size E v' < 2 ^ 64" using fits a(2,3) by (simp add: ptr_fits_def)
    show "arrays_ok (getTargetType (v_type v'))" using fits t(2) by (simp add: ptr_fits_def a(4))
    show "te_size E (getTargetType u) \<le> target_size E v'" if "is_safe (ptr_flags u)"
      using op that t by (simp add: source_size_def target_size_def a(4))
    show "getPtrKind u \<noteq> DataPtrKind_Thin" using op by simp
  qed
next
  case False
  then have w: "castDataPtr2 False E bad v u = Inr w"
    using w by (auto simp: castDataPtr_def split: if_splits jty.splits)
  show ?thesis
    by (rule castDataPtr2_good [OF E good _ _ _ _ w])
      (use fits op False in \<open>auto simp: ptr_fits_def source_size_def split: jty.splits\<close>)
qed

section \<open>Chains of operators\<close>

lemma apply_ptr_op_good:
  assumes E: "tenv_ok E" and good: "good_below E vo v" and fits: "ptr_fits E v" and op: "op_ok E op v"
    and w: "apply_ptr_op False E bad op v = Inr w"
  shows "good_below E vo w"
proof (cases op)
  case (OpField i)
  then show ?thesis using w getStructField_good [OF E good fits nth_mem] by (auto simp: Let_def split: if_splits)
next
  case (OpUnionField i)
  then show ?thesis using w getUnionField_good [OF E good nth_mem] by (auto simp: Let_def split: if_splits)
next
  case (OpIndex c i)
  then show ?thesis using w arrayIndexOperator_good [OF E good] by (auto split: jty.splits)
next
  case (OpIncrement d)
  then show ?thesis using w dataPtrIncrementOperator_good [OF good] by simp
next
  case OpArrayRef
  then show ?thesis using w prepareArrayRef_good(1) [OF E good] fits
    by (auto simp: ptr_fits_def split: jty.splits if_splits)
next
  case (OpCast u)
  then show ?thesis using w op castDataPtr_good [OF E good fits] by simp
next
  case OpMakeLean
  then show ?thesis using w makeLeanDataPtr_good [OF good] by simp
qed (use w unOp_good [OF good] in auto)

text \<open>A condition on every operator of a chain, at the value it is applied to. A property that an
  operator keeps under its condition holds at the end of the chain.\<close>

primrec chain_ok ::
  "bool \<Rightarrow> tenv \<Rightarrow> (nat \<Rightarrow> bool) \<Rightarrow> (ptr_op \<Rightarrow> dval \<Rightarrow> bool) \<Rightarrow> ptr_op list \<Rightarrow> dval \<Rightarrow> bool" where
  "chain_ok u E bad ok [] v \<longleftrightarrow> True"
| "chain_ok u E bad ok (op # ops) v \<longleftrightarrow> ok op v \<and>
     (case apply_ptr_op u E bad op v of Inl e \<Rightarrow> True | Inr w \<Rightarrow> chain_ok u E bad ok ops w)"

locale op_chain =
  fixes u :: bool and E :: tenv and bad :: "nat \<Rightarrow> bool"
    and kept :: "dval \<Rightarrow> bool" and ok :: "ptr_op \<Rightarrow> dval \<Rightarrow> bool"
  assumes keeps: "kept v \<Longrightarrow> ok op v \<Longrightarrow> apply_ptr_op u E bad op v = Inr w \<Longrightarrow> kept w"
begin

lemma eval_keeps: "kept v \<Longrightarrow> chain_ok u E bad ok ops v \<Longrightarrow> eval_ptr u E bad ops v = Inr w \<Longrightarrow> kept w"
proof (induction ops arbitrary: v)
  case (Cons op ops)
  then obtain v' where v': "apply_ptr_op u E bad op v = Inr v'" "eval_ptr u E bad ops v' = Inr w"
    by (auto split: sum.splits)
  have "kept v'" using Cons.prems(1,2) by (intro keeps [OF _ _ v'(1)]) simp_all
  then show ?case using Cons.IH [of v'] Cons.prems(2) v' by simp
qed simp

end

text \<open>No value of the chain ends beyond the address space, arrays have elements, and the casts are
  \<open>op_ok\<close>.\<close>

definition ptr_op_ok :: "tenv \<Rightarrow> ptr_op \<Rightarrow> dval \<Rightarrow> bool" where
  "ptr_op_ok E op v \<longleftrightarrow> ptr_fits E v \<and> op_ok E op v"

interpretation range_chain: op_chain False E bad "\<lambda>v. tenv_ok E \<and> good_below E vo v" "ptr_op_ok E" for E bad vo
  by unfold_locales (auto simp: ptr_op_ok_def intro: apply_ptr_op_good)

lemma eval_ptr_good:
  assumes "tenv_ok E" and "dval_ok E v" and "validator_of E v = Inr vo"
    and "chain_ok False E bad (ptr_op_ok E) ops v" and "eval_ptr False E bad ops v = Inr w"
  shows "good_below E vo w"
  using range_chain.eval_keeps [of E vo v bad ops w] assms by (auto simp: dval_ok_def)

lemma access_within:
  assumes good: "good_below E vo w" "ptr_fits E w" and p: "prepareDataPtr False E bad w = Inr p"
  shows "\<exists>vd. vo = Some vd \<and> within vd p (te_size E (getTargetType (v_type w)))"
proof -
  have "checkDataPtrRange False E bad w = Inr ()" and [simp]: "p = v_p w"
    using p by (auto simp: prepareDataPtr_def split: sum.splits)
  then obtain vd where vd: "validator_of E w = Inr (Some vd)" "within vd p (target_size E w)"
    using check_sound [OF good] by auto
  then show ?thesis
    using good_belowD(2) [OF good(1) vd(1)] by (auto simp: narrows_def within_def target_size_def split: option.splits)
qed

text \<open>C5: memory safety of data pointers, outside unsafe regions (the first argument of
  \<open>chain_ok\<close>, \<open>eval_ptr\<close> and \<open>prepareDataPtr\<close> is \<open>False\<close>). Take a good value, which is a variable, a field
  of a class object or a normal pointer, with its validator \<open>vo\<close>, and a chain of field accesses,
  indexing, increments, address and indirection operators, array decays and casts, such that no
  pointer of the chain, the last one included, has a target that ends beyond the address space, no
  cast is to a thin pointer, and no cast to a safe pointer enlarges the target (what happens otherwise
  is \<open>safe_cast_escapes\<close> and \<open>range_checks_agree\<close>). When the chain and the check of a load or store
  succeed, the access lies inside the range of \<open>vo\<close>: fields keep or narrow the range, arithmetic
  makes a pointer unsafe, and what is safe is in range.\<close>

theorem pointer_access_in_bounds:
  assumes E: "tenv_ok E" and v: "dval_ok E v" "validator_of E v = Inr vo" and ops: "chain_ok False E bad (ptr_op_ok E) ops v"
    and w: "eval_ptr False E bad ops v = Inr w" "ptr_fits E w" and p: "prepareDataPtr False E bad w = Inr p"
  shows "\<exists>vd. vo = Some vd \<and> within vd p (te_size E (getTargetType (v_type w)))"
  by (rule access_within [OF eval_ptr_good [OF E v ops w(1)] w(2) p])

section \<open>Good values to start with\<close>

text \<open>A variable is a good value as long as it lies in the address space.\<close>

lemma setVariable_ok:
  assumes fits: "unat (va_addr va) + te_size E (va_type va) < 2 ^ 64" and flags: "getDataPtrKindFromFlags flags = 0"
  shows "dval_ok E (setVariable va flags)"
    and "validator_of E (setVariable va flags) = Inr (Some (variable_validator E va))"
proof -
  let ?v = "setVariable va flags"
  have e: "unat (va_addr va + of_nat (te_size E (va_type va))) = unat (va_addr va) + te_size E (va_type va)"
    by (rule unat_add_fits [OF fits])
  have f: "(f OR DataPtrKind_Lean) AND PtrTypeFlag_Safe = f AND PtrTypeFlag_Safe"
    "(f OR DataPtrKind_Lean) AND PtrTypeFlag_PtrKindMask = (f AND PtrTypeFlag_PtrKindMask) OR DataPtrKind_Lean" for f
    by (simp_all add: flag_defs bit.conj_disj_distrib2)
  have kind: "getPtrKind (v_type ?v) = DataPtrKind_Lean"
    using flags flag_parts(10) [of flags] by (simp add: setVariable_def getPtrKind_def getDataPtrKindFromFlags_def f)
  have l: "getLeanDataPtrValidator E ?v = Some (prepareLeanDataPtrValidator E va)"
    by (simp add: setVariable_def getLeanDataPtrValidator_def)
  show val: "validator_of E ?v = Inr (Some (variable_validator E va))"
    using validator_of_lean [OF kind l] variable_lean_value by simp
  have "static_range_ok E (prepareLeanDataPtrValidator E va)"
    using e variable_lean_value [of E va]
    by (auto simp: static_range_ok_def variable_validator_def createDataPtrValidator_def)
      (auto simp: prepareLeanDataPtrValidator_def)
  moreover have "within (variable_validator E va) (v_p ?v) (target_size E ?v)"
    using e by (simp add: within_def variable_validator_def createDataPtrValidator_def setVariable_def target_size_def)
  ultimately show "dval_ok E ?v"
    using kind l val by (auto simp: dval_ok_def good_below_def good_shape_def flag_simps narrows_def setVariable_def)
qed

text \<open>So is a field of a class object in its box, and any normal pointer that is not safe.\<close>

lemma getClassField_ok:
  assumes w: "getClassField E box p flags field = Inr w"
    and fits: "unat (p + of_nat (pf_offset field)) + te_size E (pf_type field) < 2 ^ 64"
  shows "dval_ok E w"
proof -
  define q where "q = p + of_nat (pf_offset field)"
  define n where "n = te_size E (pf_type field)"
  let ?l = "LeanDataPtrValidator (OriginClass box) (Some (q, False)) n None"
  have e: "unat (q + of_nat n) = unat q + n" using fits by (intro unat_add_fits) (simp add: q_def n_def)
  have val: "getValidatorValue E ?l = Inr (Some (createDataPtrValidator box q n))"
    by (simp add: createClassFieldValidator_def)
  have w: "w = lean_value (Field_getDataPtrType field True (lean_flags (calcFieldPtrFlags flags field OR PtrTypeFlag_Safe))) q ?l"
    using w by (simp add: getClassField_def Let_def q_def n_def split: if_splits)
  have "good_below E (Some (createDataPtrValidator box q n)) w"
    unfolding w using e val
    by (intro good_leanI)
      (auto simp: getPtrKind_def flag_simps static_range_ok_def narrows_def within_def createDataPtrValidator_def n_def)
  moreover have "validator_of E w = Inr (Some (createDataPtrValidator box q n))"
    using val unfolding w by (simp add: validator_of_def lean_value_def getLeanDataPtrValidator_def getPtrKind_def flag_simps
      flag_simps)
  ultimately show ?thesis by (auto simp: dval_ok_def)
qed

lemma normal_ok:
  assumes "getPtrKind t = DataPtrKind_Normal" and "\<not> is_safe (ptr_flags t)"
  shows "dval_ok E (normal_value t p vd)"
proof -
  have "good_below E vd (normal_value t p vd)" using assms by (intro good_normalI) (auto simp: narrows_def)
  then show ?thesis using assms(1) by (auto simp: dval_ok_def validator_of_def normal_value_def)
qed

end
