(* ===== verification/ConstFoldThms.thy ===== *)
theory ConstFoldThms
  imports ConstFold
begin

text \<open>
  Constant folding agrees with the generated code. Lemmas on the bytes of a constant, on each cast
  and on each operator are put together by induction on expressions; the right shift is the one
  operator that disagrees, and the property says exactly when.
\<close>

section \<open>Bytes\<close>

lemma length_int_bytes [simp]: "length (int_bytes k n) = k"
  by (induction k arbitrary: n) simp_all

lemma bytes_int_simps [simp]: "bytes_int [] = 0" "bytes_int (b # bs) = uint b + 256 * bytes_int bs"
  by (simp_all add: bytes_int_def)

lemma bytes_int_ge [simp]: "0 \<le> bytes_int bs"
  by (induction bs) simp_all

lemma bytes_int_less: "bytes_int bs < 2 ^ (8 * length bs)"
proof (induction bs)
  case (Cons b bs)
  have "uint b < 256" using uint_lt2p [of b] by simp
  then have "uint b + 256 * bytes_int bs < 256 * 2 ^ (8 * length bs)" using Cons by linarith
  then show ?case by (simp add: power_add)
qed simp

lemma bytes_int_append: "bytes_int (bs @ cs) = bytes_int bs + 2 ^ (8 * length bs) * bytes_int cs"
  by (induction bs) (simp_all add: power_add algebra_simps)

lemma bytes_int_bytes: "bytes_int (int_bytes k n) = take_bit (8 * k) n"
proof (induction k arbitrary: n)
  case (Suc k)
  have "take_bit (8 + 8 * k) n = take_bit 8 n + 256 * take_bit (8 * k) (n div 256)"
    by (simp add: take_bit_eq_mod power_add mod_mult2_eq zmod_zmult2_eq algebra_simps)
  then show ?case using Suc by (simp add: uint_word_of_int take_bit_eq_mod)
qed simp

lemma bytes_int_take: "bytes_int (take k bs) = take_bit (8 * k) (bytes_int bs)"
proof -
  have "take_bit (8 * k) (bytes_int (take k bs) + 2 ^ (8 * length (take k bs)) * bytes_int (drop k bs)) =
      bytes_int (take k bs)"
  proof (cases "k \<le> length bs")
    case True
    then have "bytes_int (take k bs) < 2 ^ (8 * k)" using bytes_int_less [of "take k bs"] by simp
    then show ?thesis using True by (simp add: take_bit_eq_mod)
  next
    case False
    then have "(2 :: int) ^ (8 * length bs) \<le> 2 ^ (8 * k)" by (intro power_increasing) simp_all
    then have "bytes_int bs < 2 ^ (8 * k)" using bytes_int_less [of bs] by linarith
    then show ?thesis using False by (simp add: take_bit_eq_mod)
  qed
  then show ?thesis by (simp flip: bytes_int_append del: length_take)
qed

lemma bytes_int_zero: "bytes_int bs = 0 \<longleftrightarrow> (\<forall>b\<in>set bs. b = 0)"
proof (induction bs)
  case (Cons b bs)
  have "0 \<le> uint b" "0 \<le> bytes_int bs" by simp_all
  then have "uint b + 256 * bytes_int bs = 0 \<longleftrightarrow> uint b = 0 \<and> bytes_int bs = 0" by linarith
  then show ?case using Cons by (simp add: uint_0_iff)
qed simp

lemma bytes_int_ones: "bytes_int (replicate n (- 1)) = 2 ^ (8 * n) - 1"
proof (induction n)
  case (Suc n)
  have "uint (- 1 :: 8 word) = 255" by (simp add: unsigned_minus_1_eq_mask mask_eq_exp_minus_1)
  then show ?case using Suc by (simp add: power_add)
qed simp

lemma bytes_int_zeros: "bytes_int (replicate n 0) = 0"
  by (induction n) simp_all

lemma bytes_int_sign:
  assumes "bs \<noteq> []"
  shows "bit (bytes_int bs) (8 * length bs - 1) \<longleftrightarrow> bit (last bs) 7"
proof -
  obtain cs c where bs: "bs = cs @ [c]" using assms by (cases bs rule: rev_cases) auto
  have "bytes_int bs = bytes_int cs + 2 ^ (8 * length cs) * uint c" by (simp add: bs bytes_int_append)
  moreover have "bytes_int cs = take_bit (8 * length cs) (bytes_int cs)"
    using bytes_int_less [of cs] by (simp add: take_bit_eq_mod)
  ultimately have "bytes_int bs = push_bit (8 * length cs) (uint c) + take_bit (8 * length cs) (bytes_int cs)"
    by (simp add: push_bit_eq_mult mult.commute)
  then have "bit (bytes_int bs) (8 * length cs + 7) \<longleftrightarrow> bit (uint c) 7"
    by (simp add: bit_simps disjunctive_add)
  then show ?thesis by (simp add: bs bit_uint_iff add.commute)
qed


section \<open>Registers\<close>

lemma llvm_okD:
  assumes "llvm_ok L" and "0 < w" and "reg_ok w a"
  shows "reg_ok w b \<Longrightarrow> l_bin L i w a b = ref_bin i w a b"
    and "reg_ok w b \<Longrightarrow> l_icmp L p w a b = ref_icmp p w a b"
    and "l_neg L w a = take_bit w (- a)" and "l_not L w a = take_bit w (NOT a)"
    and "v \<le> w \<Longrightarrow> l_cast L CreateTrunc w v a = take_bit v a"
    and "w \<le> v \<Longrightarrow> l_cast L CreateSExt w v a = take_bit v (sreg w a)"
    and "w \<le> v \<Longrightarrow> l_cast L CreateZExt w v a = a"
  using assms unfolding llvm_ok_def by (metis ref_cast.simps)+

lemma reg_ok_mono: "reg_ok w a \<Longrightarrow> w \<le> v \<Longrightarrow> reg_ok v a"
  unfolding reg_ok_def using power_increasing [of w v "2 :: int"] by linarith

lemma reg_ok_take: "reg_ok w a \<longleftrightarrow> take_bit w a = a"
  by (simp add: reg_ok_def take_bit_int_eq_self_iff)

lemma reg_ok_uint: "reg_ok LENGTH('w) (uint (x :: 'w::len word))"
  by (simp add: reg_ok_def)

lemma sreg_uint: "sreg LENGTH('w) (uint (x :: 'w::len word)) = sint x"
  by (simp add: sreg_def sint_uint)

lemma uint_sint_word: "take_bit LENGTH('w) (sint (x :: 'w::len word)) = uint x"
  by (simp add: uint_sint)

lemma uint_top: "uint (push_bit (LENGTH('w) - 1) (1 :: 'w::len word)) = 2 ^ (LENGTH('w) - 1)"
proof -
  have "push_bit (LENGTH('w) - 1) (1 :: 'w word) = word_of_int (2 ^ (LENGTH('w) - 1))"
    by (simp add: push_bit_of_1)
  moreover have "(2 :: int) ^ (LENGTH('w) - 1) < 2 ^ LENGTH('w)" by (intro power_strict_increasing) simp_all
  ultimately show ?thesis by (simp only: uint_word_of_int take_bit_int_eq_self_iff) simp
qed

lemma uint_minus_one: "uint (- 1 :: 'w::len word) = 2 ^ LENGTH('w) - 1"
  by (simp add: unsigned_minus_1_eq_mask mask_eq_exp_minus_1)

lemma sdiv_undefined_uint:
  "sdiv_undefined a b \<longleftrightarrow>
     uint b = 0 \<or> uint a = 2 ^ (LENGTH('w) - 1) \<and> uint b = 2 ^ LENGTH('w) - 1"
  for a b :: "'w::len word"
  unfolding sdiv_undefined_def uint_top [symmetric] uint_minus_one [symmetric]
  by (simp only: uint_0_iff word_uint_eq_iff [of a "push_bit (LENGTH('w) - 1) 1"]
      word_uint_eq_iff [of b "- 1"])

section \<open>Each operator\<close>

text \<open>The right shift of a constant copies the top bit, the instruction inserts zeros.\<close>

definition shr_agrees :: "bin_op \<Rightarrow> 'w::len word \<Rightarrow> 'w word \<Rightarrow> bool" where
  "shr_agrees op a b \<longleftrightarrow>
     (op = BinOp_Shr \<longrightarrow> \<not> bit a (LENGTH('w) - 1) \<or> b = 0 \<or> LENGTH('w) \<le> unat b)"

lemma signed_drop_bit_positive:
  assumes "\<not> bit (a :: 'w::len word) (LENGTH('w) - 1)"
  shows "signed_drop_bit n a = drop_bit n a"
  using assms by (intro bit_word_eqI) (auto simp: bit_signed_drop_bit_iff bit_drop_bit_eq dest: bit_imp_le_length)

lemma signed_drop_bit_negative:
  assumes "bit (a :: 'w::len word) (LENGTH('w) - 1)" and "0 < n" and "n < LENGTH('w)"
  shows "signed_drop_bit n a \<noteq> drop_bit n a"
proof
  assume "signed_drop_bit n a = drop_bit n a"
  then have "bit (signed_drop_bit n a) (LENGTH('w) - 1) = bit (drop_bit n a) (LENGTH('w) - 1)" by simp
  moreover have "bit (signed_drop_bit n a) (LENGTH('w) - 1)"
    using assms by (simp add: bit_signed_drop_bit_iff)
  moreover have "\<not> bit (drop_bit n a) (LENGTH('w) - 1)"
    using assms by (auto simp: bit_drop_bit_eq dest: bit_imp_le_length)
  ultimately show False by blast
qed

lemma shift_ref:
  fixes a b :: "'w::len word"
  shows "ref_bin CreateShl LENGTH('w) (uint a) (uint b) = map_option uint (Shl_constOp a b u)"
    and "ref_bin CreateLShr LENGTH('w) (uint a) (uint b) =
      (if unat b \<ge> LENGTH('w) then None else Some (uint (drop_bit (unat b) a)))"
proof -
  have "int LENGTH('w) \<le> uint b \<longleftrightarrow> LENGTH('w) \<le> unat b" by (metis of_nat_le_iff uint_nat)
  moreover have "take_bit LENGTH('w) (uint a) = uint a" by (simp add: take_bit_int_eq_self_iff)
  ultimately show "ref_bin CreateShl LENGTH('w) (uint a) (uint b) = map_option uint (Shl_constOp a b u)"
    and "ref_bin CreateLShr LENGTH('w) (uint a) (uint b) =
      (if unat b \<ge> LENGTH('w) then None else Some (uint (drop_bit (unat b) a)))"
    by (simp_all add: Shl_constOp_def unsigned_push_bit_eq unsigned_drop_bit_eq flip: unat_eq_nat_uint)
qed

lemma divide_ref:
  fixes a b :: "'w::len word"
  shows "ref_bin (if u then CreateUDiv else CreateSDiv) LENGTH('w) (uint a) (uint b) =
      map_option uint (Div_constOp a b u)"
    and "ref_bin (if u then CreateURem else CreateSRem) LENGTH('w) (uint a) (uint b) =
      map_option uint (Mod_constOp a b u)"
  by (auto simp: Div_constOp_def Mod_constOp_def sdiv_undefined_uint sreg_uint uint_word_of_int
      take_bit_eq_mod uint_div uint_mod uint_0_iff)

lemma const_op_ref:
  fixes a b :: "'w::len word"
  assumes "shr_agrees op a b"
  shows "ref_bin (llvmOpInt op u) LENGTH('w) (uint a) (uint b) = map_option uint (constOpInt op a b u)"
proof (cases op)
  case BinOp_Shr
  then have "b = 0 \<or> signed_drop_bit (unat b) a = drop_bit (unat b) a \<or> LENGTH('w) \<le> unat b"
    using assms by (auto simp: shr_agrees_def signed_drop_bit_positive)
  then have "Shr_constOp a b u = (if unat b \<ge> LENGTH('w) then None else Some (drop_bit (unat b) a))"
    by (auto simp: Shr_constOp_def)
  then show ?thesis unfolding BinOp_Shr llvmOpInt.simps constOpInt.simps shift_ref(2) by simp
next
  case BinOp_Shl
  then show ?thesis by (simp only: llvmOpInt.simps constOpInt.simps shift_ref(1))
qed (simp_all add: divide_ref Add_constOp_def Sub_constOp_def Mul_constOp_def BwAnd_constOp_def
  BwOr_constOp_def BwXor_constOp_def uint_word_ariths take_bit_eq_mod unsigned_and_eq unsigned_or_eq
  unsigned_xor_eq)

lemma const_cmp_ref:
  fixes a b :: "'w::len word"
  shows "ref_icmp (llvmCmpInt op u) LENGTH('w) (uint a) (uint b) = constCmpInt op a b u"
  by (cases op) (simp_all add: Eq_constOp_def Ne_constOp_def Lt_constOp_def Le_constOp_def Gt_constOp_def
      Ge_constOp_def sreg_uint word_uint_eq_iff)

lemma const_un_ref:
  fixes a :: "'w::len word"
  assumes "llvm_ok L"
  shows "llvmUnInt L op LENGTH('w) (uint a) = uint (constUnInt op a)"
proof (cases op)
  case UnOp_Minus
  then show ?thesis using llvm_okD(3) [OF assms _ reg_ok_uint, of a]
    by (simp add: Minus_constOp_def uint_word_ariths take_bit_eq_mod)
next
  case UnOp_BwNot
  then show ?thesis using llvm_okD(4) [OF assms _ reg_ok_uint, of a]
    by (simp add: BwNot_constOp_def unsigned_not_eq)
qed (simp add: Plus_constOp_def)

lemma ref_bin_ok:
  assumes "reg_ok w a" and "reg_ok w b" and "ref_bin i w a b = Some r"
  shows "reg_ok w r"
proof -
  have ranges: "take_bit w a = a" "take_bit w b = b"
    using assms by (simp_all add: reg_ok_def take_bit_int_eq_self_iff)
  have "take_bit w r = r"
  proof (cases i)
    case CreateUDiv
    then show ?thesis using assms zdiv_mono2 [of a 1 b]
      by (auto simp: reg_ok_def take_bit_int_eq_self_iff pos_imp_zdiv_nonneg_iff split: if_splits)
  next
    case CreateURem
    then show ?thesis using assms pos_mod_bound [of b a]
      by (auto simp: reg_ok_def take_bit_int_eq_self_iff split: if_splits)
         (smt (verit) pos_mod_bound pos_mod_sign)+
  next
    case CreateLShr
    then have "r = drop_bit (nat b) a" using assms by (auto split: if_splits)
    moreover have "drop_bit (nat b) a \<le> a" using assms(1)
      by (simp add: reg_ok_def drop_bit_eq_div) (metis div_by_1 zdiv_mono2 zero_less_one one_le_power one_le_numeral)
    ultimately show ?thesis using assms(1) by (simp add: reg_ok_def take_bit_int_eq_self_iff)
  next
    case CreateAnd
    then show ?thesis using assms ranges by (auto simp: take_bit_and)
  next
    case CreateOr
    then show ?thesis using assms ranges by (auto simp: take_bit_or)
  next
    case CreateXor
    then show ?thesis using assms ranges by (auto simp: take_bit_xor)
  qed (use assms in \<open>auto split: if_splits\<close>)
  then show ?thesis by (metis reg_ok_def take_bit_int_eq_self_iff)
qed

section \<open>Values\<close>

text \<open>A well-formed value of an integer kind: a constant has the bytes of its type, a boolean one
  is 0 or 1; a register holds a number of the width of its type. \<open>as_reg\<close> is the same value
  computed at run time.\<close>

fun value_ok :: "jvalue \<Rightarrow> bool" where
  "value_ok (ConstV k bs) \<longleftrightarrow>
     is_integer k \<and> length bs = prim_size k \<and> (is_bool k \<longrightarrow> bs = [0] \<or> bs = [1])"
| "value_ok (RegV k a) \<longleftrightarrow> is_integer k \<and> reg_ok (llvm_width k) a"

definition as_reg :: "jvalue \<Rightarrow> jvalue" where
  "as_reg v = RegV (v_kind v) (getLlvmValue v)"

lemma as_reg_simps [simp]: "v_kind (as_reg v) = v_kind v" "getLlvmValue (as_reg v) = getLlvmValue v"
  "as_reg (as_reg v) = as_reg v" "as_reg (RegV k a) = RegV k a"
  by (simp_all add: as_reg_def)

lemma integer_kinds:
  "is_integer k \<longleftrightarrow> k \<in> {Bool1, Bool8, Int8, Int8_u, Int16, Int16_u, Int32, Int32_u, Int64, Int64_u}"
  by (cases k) (simp_all add: is_integer_def less_eq_prim_kind_def)

lemma integer_size: "is_integer k \<Longrightarrow> 0 < prim_size k \<and> 0 < llvm_width k \<and> prim_size k \<le> 8"
  by (auto simp: integer_kinds llvm_width_def)

lemma const_value: "value_ok (ConstV k bs) \<Longrightarrow> getLlvmValue (ConstV k bs) = bytes_int bs"
  by (auto simp: getLlvmConst_def is_bool_def)

lemma value_kind: "value_ok v \<Longrightarrow> is_integer (v_kind v)"
  by (cases v) simp_all

lemma value_reg_ok: "value_ok v \<Longrightarrow> reg_ok (llvm_width (v_kind v)) (getLlvmValue v)"
proof (cases v)
  case (ConstV k bs)
  assume ok: "value_ok v"
  show ?thesis
  proof (cases "k = Bool1")
    case False
    then show ?thesis using ok ConstV const_value [of k bs] bytes_int_less [of bs]
      by (simp add: reg_ok_def llvm_width_def)
  qed (use ok ConstV in \<open>auto simp: reg_ok_def llvm_width_def getLlvmConst_def\<close>)
qed simp

lemma as_reg_ok: "value_ok v \<Longrightarrow> value_ok (as_reg v)"
  using value_reg_ok value_kind by (simp add: as_reg_def)


section \<open>Casts\<close>

lemma signed_extend_bytes:
  assumes "bs \<noteq> []" and "length bs \<le> m"
  shows "bytes_int (IntExt_constCast m bs) = take_bit (8 * m) (sreg (8 * length bs) (bytes_int bs))"
proof -
  define w v a where "w = 8 * length bs" and "v = 8 * m" and "a = bytes_int bs"
  have w: "0 < w" "w \<le> v" using assms by (simp_all add: w_def v_def)
  have a: "0 \<le> a" "a < 2 ^ w" using bytes_int_less by (simp_all add: a_def w_def)
  have wv: "(2 :: int) ^ w \<le> 2 ^ v" using w by (intro power_increasing) simp_all
  have neg: "sreg w a = a - 2 ^ w * of_bool (bit a (w - 1))"
    using w(1) a by (simp add: sreg_def signed_take_bit_eq_take_bit_minus take_bit_int_eq_self_iff)
  have sign: "bit (last bs) 7 = bit a (w - 1)"
    using bytes_int_sign [OF assms(1)] by (simp add: a_def w_def)
  have "8 * (m - length bs) = v - w" by (simp add: v_def w_def right_diff_distrib')
  then have ext: "bytes_int (IntExt_constCast m bs) = a + 2 ^ w * of_bool (bit a (w - 1)) * (2 ^ (v - w) - 1)"
    by (simp add: IntExt_constCast_def bytes_int_append bytes_int_ones bytes_int_zeros sign
        flip: a_def w_def)
  have "bytes_int (IntExt_constCast m bs) = take_bit v (sreg w a)"
  proof (cases "bit a (w - 1)")
    case True
    have split: "(2 :: int) ^ w * 2 ^ (v - w) = 2 ^ v" using w by (simp flip: power_add)
    have "take_bit v (a - 2 ^ w) = take_bit v (a - 2 ^ w + 2 ^ v)" by (simp add: take_bit_eq_mod)
    also have "\<dots> = a - 2 ^ w + 2 ^ v"
      using a wv by (intro take_bit_int_eq_self) linarith+
    finally show ?thesis using True ext neg split by (simp add: right_diff_distrib)
  next
    case False
    have "reg_ok v a" using reg_ok_mono [of w a v] a w(2) by (simp add: reg_ok_def)
    then have "take_bit v a = a" by (simp only: reg_ok_take)
    then show ?thesis using False ext neg by simp
  qed
  then show ?thesis by (simp only: a_def w_def v_def)
qed

text \<open>What the destination of a cast to an integer kind holds, as a number: the same for the
  constant and the instruction.\<close>

definition cast_value :: "prim_kind \<Rightarrow> prim_kind \<Rightarrow> int \<Rightarrow> int" where
  "cast_value src dst a =
     (if src = Bool1 \<or> is_unsigned src then take_bit (llvm_width dst) a
      else take_bit (llvm_width dst) (sreg (llvm_width src) a))"

lemma sreg_cong: "v \<le> w \<Longrightarrow> 0 < w \<Longrightarrow> take_bit v (sreg w a) = take_bit v a"
  unfolding sreg_def by (cases "v \<le> w - 1") (auto simp: take_bit_signed_take_bit)

lemma cast_constant:
  assumes ok: "value_ok (ConstV k bs)" and dst: "is_integer dst" "\<not> is_bool dst"
    and c: "Cast_Int_getCastOperator k dst = Inr c"
  shows "value_ok (run_cast L c (ConstV k bs) dst)"
    and "getLlvmValue (run_cast L c (ConstV k bs) dst) = cast_value k dst (getLlvmValue (ConstV k bs))"
proof -
  have sizes: "length bs = prim_size k" "is_integer k" "0 < prim_size k" "llvm_width dst = 8 * prim_size dst"
    "0 < prim_size dst"
    using ok dst integer_size by (auto simp: llvm_width_def is_bool_def)
  have a: "0 \<le> bytes_int bs" "bytes_int bs < 2 ^ (8 * prim_size k)" using bytes_int_less [of bs] sizes by simp_all
  define cs where "cs = constCast c (prim_size dst) bs"
  have run: "run_cast L c (ConstV k bs) dst = ConstV dst cs" using sizes by (simp add: run_cast_def cs_def)
  have "length cs = prim_size dst \<and> bytes_int cs = cast_value k dst (bytes_int bs)"
  proof (cases "k = Bool1")
    case True
    then have "c = Cast_IntExt_u" "bs = [0] \<or> bs = [1]" using c ok
      by (simp_all add: Cast_Int_getCastOperator_def is_bool_def)
    then show ?thesis using True sizes
      by (auto simp: cs_def IntExt_u_constCast_def cast_value_def bytes_int_zeros take_bit_int_eq_self_iff
          bytes_int_append)
  next
    case False
    have w: "llvm_width k = 8 * prim_size k" using False by (simp add: llvm_width_def)
    show ?thesis
    proof (cases "prim_size dst \<le> prim_size k")
      case True
      then have "cs = take (prim_size dst) bs" using c False sizes
        by (auto simp: cs_def Cast_Int_getCastOperator_def Copy_constCast_def IntTrunc_constCast_def
            split: if_splits)
      moreover have "take_bit (8 * prim_size dst) (sreg (8 * prim_size k) (bytes_int bs)) =
          take_bit (8 * prim_size dst) (bytes_int bs)"
        using True sizes by (intro sreg_cong) simp_all
      ultimately show ?thesis using True sizes w by (simp add: cast_value_def bytes_int_take)
    next
      case longer: False
      then have c': "c = (if is_unsigned k then Cast_IntExt_u else Cast_IntExt)" using c False sizes
        by (auto simp: Cast_Int_getCastOperator_def split: if_splits)
      have bs: "bs \<noteq> []" "length bs \<le> prim_size dst" using sizes longer by auto
      have "reg_ok (8 * prim_size k) (bytes_int bs)" using a by (simp add: reg_ok_def)
      then have "take_bit (8 * prim_size dst) (bytes_int bs) = bytes_int bs"
        using longer reg_ok_mono [of "8 * prim_size k" _ "8 * prim_size dst"] by (simp add: reg_ok_take)
      then show ?thesis using c' False sizes w longer signed_extend_bytes [OF bs]
        by (auto simp: cs_def cast_value_def IntExt_u_constCast_def bytes_int_append bytes_int_zeros
            IntExt_constCast_def)
    qed
  qed
  then show "value_ok (run_cast L c (ConstV k bs) dst)"
    and "getLlvmValue (run_cast L c (ConstV k bs) dst) = cast_value k dst (getLlvmValue (ConstV k bs))"
    using run dst const_value [OF ok] const_value [of dst cs] by simp_all
qed

lemma cast_register:
  assumes L: "llvm_ok L" and ok: "value_ok (RegV k a)" and dst: "is_integer dst" "\<not> is_bool dst"
    and c: "Cast_Int_getCastOperator k dst = Inr c"
  shows "run_cast L c (RegV k a) dst = RegV dst (cast_value k dst a)"
proof -
  have k: "is_integer k" "reg_ok (llvm_width k) a" "0 < llvm_width k" "llvm_width dst = 8 * prim_size dst"
    using ok dst integer_size by (auto simp: llvm_width_def is_bool_def)
  note ll = llvm_okD [OF L k(3,2)]
  have keep: "take_bit (llvm_width dst) a = a" if "llvm_width k \<le> llvm_width dst"
    using reg_ok_mono [OF k(2) that] by (simp add: reg_ok_take)
  show ?thesis
  proof (cases "k = Bool1")
    case True
    then have "c = Cast_IntExt_u" "llvm_width k = 1" "1 \<le> llvm_width dst" using c dst integer_size [of dst]
      by (simp_all add: Cast_Int_getCastOperator_def llvm_width_def Suc_leI)
    then show ?thesis using True ll(7) keep by (simp add: run_cast_def cast_value_def)
  next
    case False
    then have w: "llvm_width k = 8 * prim_size k" by (simp add: llvm_width_def)
    have same: "take_bit (llvm_width dst) (sreg (llvm_width k) a) = take_bit (llvm_width dst) a"
      if "llvm_width dst \<le> llvm_width k" using that k by (intro sreg_cong) simp_all
    from False c k(1) show ?thesis
      using ll(5) [of "llvm_width dst"] ll(6) [of "llvm_width dst"] ll(7) [of "llvm_width dst"] keep same w k(4)
      by (auto simp: Cast_Int_getCastOperator_def run_cast_def cast_value_def split: if_splits)
  qed
qed

lemma cast_int_total:
  assumes L: "llvm_ok L" and ok: "value_ok v" and dst: "is_integer dst" "\<not> is_bool dst"
  obtains w where "cast_int L v dst = Inr w" and "v_kind w = dst" and "value_ok w"
    and "cast_int L (as_reg v) dst = Inr (as_reg w)"
    and "getLlvmValue w = cast_value (v_kind v) dst (getLlvmValue v)"
proof (cases "v_kind v = dst")
  case True
  have "cast_value dst dst (getLlvmValue v) = getLlvmValue v"
    using value_reg_ok [OF ok] True integer_size [OF dst(1)] sreg_cong [of "llvm_width dst" "llvm_width dst"]
    by (simp add: cast_value_def reg_ok_def take_bit_int_eq_self_iff)
  then show ?thesis using True ok that by (simp add: cast_int_def)
next
  case False
  have k: "is_integer (v_kind v)" using ok by (rule value_kind)
  then obtain c where c: "Cast_Int_getCastOperator (v_kind v) dst = Inr c"
    by (cases "v_kind v = Bool1") (auto simp: Cast_Int_getCastOperator_def)
  have variant: "v_kind v \<noteq> Variant" using k by (auto simp: integer_kinds)
  have cast: "cast_int L v dst = Inr (run_cast L c v dst)"
    "cast_int L (as_reg v) dst = Inr (run_cast L c (as_reg v) dst)"
    using False c variant by (simp_all add: cast_int_def)
  have reg: "run_cast L c (as_reg v) dst = RegV dst (cast_value (v_kind v) dst (getLlvmValue v))"
    using cast_register [OF L as_reg_ok [OF ok, unfolded as_reg_def] dst c] by (simp add: as_reg_def)
  have "value_ok (run_cast L c v dst) \<and> v_kind (run_cast L c v dst) = dst \<and>
      getLlvmValue (run_cast L c v dst) = cast_value (v_kind v) dst (getLlvmValue v)"
  proof (cases v)
    case (ConstV k bs)
    then show ?thesis using cast_constant [of k bs dst c L] ok dst c by (simp add: run_cast_def)
  next
    case (RegV k a)
    then show ?thesis using cast_register [OF L, of k a dst c] ok dst c
      by (auto simp: cast_value_def reg_ok_def)
  qed
  then show ?thesis using that cast reg by (simp add: as_reg_def)
qed


section \<open>Operators\<close>

definition agrees :: "llvm \<Rightarrow> op_result \<Rightarrow> op_result \<Rightarrow> bool" where
  "agrees L r r' \<longleftrightarrow> map_sum id as_reg r = r' \<and> (\<forall>v. r = Inr v \<longrightarrow> value_ok v)"

text \<open>The types of arithmetic are the four wide integer kinds.\<close>

lemma arithmetic_type_cases:
  assumes "is_integer k1" and "is_integer k2"
  obtains k where "arithmetic_type k1 k2 = Some k" and "k \<in> {Int32, Int32_u, Int64, Int64_u}"
  using assms by (cases "k1 > k2") (auto simp: arithmetic_type_def integer_kinds)

lemma wide_kind:
  assumes "k \<in> {Int32, Int32_u, Int64, Int64_u}"
  shows "is_integer k" "\<not> is_bool k" "\<not> is_fp k" "k \<noteq> Variant" "k \<noteq> StringT"
    and "llvm_width k = (if k \<in> {Int32, Int32_u} then 32 else 64)"
  using assms by (auto simp: integer_kinds is_bool_def is_fp_def llvm_width_def)

lemma get_int_value:
  assumes "value_ok (ConstV k bs)" and "k \<in> {Int32, Int32_u, Int64, Int64_u}"
  shows "k \<in> {Int32, Int32_u} \<Longrightarrow> uint (getInt32 bs) = getLlvmValue (ConstV k bs)"
    and "k \<notin> {Int32, Int32_u} \<Longrightarrow> uint (getInt64 bs) = getLlvmValue (ConstV k bs)"
  using assms bytes_int_less [of bs] const_value [OF assms(1)]
  by (auto simp: getInt32_def getInt64_def uint_word_of_int take_bit_int_eq_self_iff)

lemma createConst_value:
  fixes r :: "'w::len word"
  assumes "k \<in> {Int32, Int32_u, Int64, Int64_u}" and "LENGTH('w) = llvm_width k"
  shows "value_ok (createConst (sint r) k)" and "as_reg (createConst (sint r) k) = RegV k (uint r)"
proof -
  note k = wide_kind [OF assms(1)]
  show ok: "value_ok (createConst (sint r) k)" using k by (simp add: createConst_def)
  have "8 * prim_size k = LENGTH('w)" using assms by (auto simp: llvm_width_def)
  then have "bytes_int (int_bytes (prim_size k) (sint r)) = uint r"
    by (simp add: bytes_int_bytes uint_sint_word)
  then show "as_reg (createConst (sint r) k) = RegV k (uint r)"
    using const_value [OF ok [unfolded createConst_def]] by (simp add: createConst_def as_reg_def)
qed

lemma setConstBool1_value: "value_ok (setConstBool1 b)" "as_reg (setConstBool1 b) = RegV Bool1 (of_bool b)"
  by (simp_all add: setConstBool1_def createConst_def is_integer_def less_eq_prim_kind_def as_reg_def
      getLlvmConst_def)

lemma emit_value:
  assumes L: "llvm_ok L" and k: "k \<in> {Int32, Int32_u, Int64, Int64_u}"
    and a: "reg_ok (llvm_width k) a" and b: "reg_ok (llvm_width k) b"
  shows "agrees L (emit_op L op k a b) (emit_op L op k a b)"
    and "agrees L (Inr (emit_cmp L c k a b)) (Inr (emit_cmp L c k a b))"
proof -
  note k' = wide_kind [OF k]
  have w: "0 < llvm_width k" using k' by simp
  note ref = llvm_okD(1) [OF L w a b]
  show "agrees L (emit_op L op k a b) (emit_op L op k a b)"
    using ref_bin_ok [OF a b] k'(1) by (auto simp: emit_op_def agrees_def ref split: option.splits)
  show "agrees L (Inr (emit_cmp L c k a b)) (Inr (emit_cmp L c k a b))"
    by (simp add: agrees_def emit_cmp_def is_integer_def less_eq_prim_kind_def reg_ok_def llvm_width_def)
qed

text \<open>Two constants of a wide kind: folding them gives what the instruction computes from their
  registers. The right shift is excepted where the top bit of its operand is set.\<close>

definition folds_shr :: "bin_op \<Rightarrow> prim_kind \<Rightarrow> int \<Rightarrow> int \<Rightarrow> bool" where
  "folds_shr op k a b \<longleftrightarrow>
     (op = BinOp_Shr \<longrightarrow> \<not> bit a (llvm_width k - 1) \<or> b = 0 \<or> int (llvm_width k) \<le> b)"

lemma shr_agrees_value:
  fixes a b :: "'w::len word"
  assumes "folds_shr op k (uint a) (uint b)" and "LENGTH('w) = llvm_width k"
  shows "shr_agrees op a b"
proof -
  have "int LENGTH('w) \<le> uint b \<longleftrightarrow> LENGTH('w) \<le> unat b" by (metis of_nat_le_iff uint_nat)
  then show ?thesis using assms by (auto simp: folds_shr_def shr_agrees_def bit_uint_iff uint_0_iff)
qed

lemma fold_op_word:
  fixes a b :: "'w::len word"
  assumes L: "llvm_ok L" and k: "k \<in> {Int32, Int32_u, Int64, Int64_u}" and w: "LENGTH('w) = llvm_width k"
    and shr: "folds_shr op k (uint a) (uint b)"
  shows "agrees L (case constOpInt op a b (is_unsigned k) of None \<Rightarrow> Inl Undefined
      | Some r \<Rightarrow> Inr (createConst (sint r) k)) (emit_op L op k (uint a) (uint b))"
proof -
  have ok: "reg_ok (llvm_width k) (uint a)" "reg_ok (llvm_width k) (uint b)"
    using reg_ok_uint [of a] reg_ok_uint [of b] by (simp_all add: w)
  have pos: "0 < llvm_width k" using w len_gt_0 [where 'a='w] by simp
  show ?thesis
    using const_op_ref [OF shr_agrees_value [OF shr w], of "is_unsigned k"] llvm_okD(1) [OF L pos ok]
      createConst_value [OF k w]
    by (auto simp: emit_op_def agrees_def w split: option.splits)
qed

lemma apply_op_agrees:
  assumes L: "llvm_ok L" and k: "k \<in> {Int32, Int32_u, Int64, Int64_u}"
    and ok: "value_ok v1" "value_ok v2" and kinds: "v_kind v1 = k" "v_kind v2 = k"
    and shr: "folds_shr op k (getLlvmValue v1) (getLlvmValue v2)"
  shows "agrees L (apply_op L op k v1 v2) (apply_op L op k (as_reg v1) (as_reg v2))"
proof -
  have regs: "apply_op L op k (as_reg v1) (as_reg v2) = emit_op L op k (getLlvmValue v1) (getLlvmValue v2)"
    by (simp add: as_reg_def)
  have same: "apply_op L op k v1 v2 = emit_op L op k (getLlvmValue v1) (getLlvmValue v2)"
    if "\<nexists>bs1 bs2. v1 = ConstV k bs1 \<and> v2 = ConstV k bs2"
    using that kinds by (cases v1; cases v2) auto
  show ?thesis
  proof (cases "\<exists>bs1 bs2. v1 = ConstV k bs1 \<and> v2 = ConstV k bs2")
    case True
    then obtain bs1 bs2 where v: "v1 = ConstV k bs1" "v2 = ConstV k bs2" by blast
    note val = get_int_value [OF ok(1) [unfolded v] k] get_int_value [OF ok(2) [unfolded v] k]
    show ?thesis
    proof (cases "k \<in> {Int32, Int32_u}")
      case True
      then show ?thesis
        using fold_op_word [OF L k, of op "getInt32 bs1" "getInt32 bs2"] val(1,3) [OF True] shr wide_kind(6) [OF k]
        unfolding regs unfolding v by (simp add: fold_op_def Let_def)
    next
      case False
      then show ?thesis
        using fold_op_word [OF L k, of op "getInt64 bs1" "getInt64 bs2"] val(2,4) [OF False] shr wide_kind(6) [OF k]
        unfolding regs unfolding v by (simp add: fold_op_def Let_def)
    qed
  next
    case False
    then show ?thesis unfolding regs same [OF False]
      using emit_value(1) [OF L k] value_reg_ok [OF ok(1)] value_reg_ok [OF ok(2)] kinds by simp
  qed
qed


lemma apply_cmp_agrees:
  assumes L: "llvm_ok L" and k: "k \<in> {Int32, Int32_u, Int64, Int64_u}"
    and ok: "value_ok v1" "value_ok v2" and kinds: "v_kind v1 = k" "v_kind v2 = k"
  shows "agrees L (Inr (apply_cmp L op k v1 v2)) (Inr (apply_cmp L op k (as_reg v1) (as_reg v2)))"
proof -
  have regs: "apply_cmp L op k (as_reg v1) (as_reg v2) = emit_cmp L op k (getLlvmValue v1) (getLlvmValue v2)"
    by (simp add: as_reg_def)
  have same: "apply_cmp L op k v1 v2 = emit_cmp L op k (getLlvmValue v1) (getLlvmValue v2)"
    if "\<nexists>bs1 bs2. v1 = ConstV k bs1 \<and> v2 = ConstV k bs2"
    using that kinds by (cases v1; cases v2) auto
  have reg: "reg_ok (llvm_width k) (getLlvmValue v1)" "reg_ok (llvm_width k) (getLlvmValue v2)"
    using value_reg_ok [OF ok(1)] value_reg_ok [OF ok(2)] kinds by simp_all
  show ?thesis
  proof (cases "\<exists>bs1 bs2. v1 = ConstV k bs1 \<and> v2 = ConstV k bs2")
    case True
    then obtain bs1 bs2 where v: "v1 = ConstV k bs1" "v2 = ConstV k bs2" by blast
    note val = get_int_value [OF ok(1) [unfolded v] k] get_int_value [OF ok(2) [unfolded v] k]
    have pos: "0 < llvm_width k" using wide_kind(6) [OF k] by simp
    note icmp = llvm_okD(2) [OF L pos reg, unfolded v]
    have "fold_cmp op k bs1 bs2 =
        setConstBool1 (ref_icmp (llvmCmpInt op (is_unsigned k)) (llvm_width k)
          (getLlvmValue (ConstV k bs1)) (getLlvmValue (ConstV k bs2)))"
    proof (cases "k \<in> {Int32, Int32_u}")
      case True
      then show ?thesis
        using const_cmp_ref [of op _ "getInt32 bs1" "getInt32 bs2"] val(1,3) [OF True] wide_kind(6) [OF k]
        by (simp add: fold_cmp_def Let_def)
    next
      case False
      then show ?thesis
        using const_cmp_ref [of op _ "getInt64 bs1" "getInt64 bs2"] val(2,4) [OF False] wide_kind(6) [OF k]
        by (simp add: fold_cmp_def Let_def)
    qed
    then show ?thesis unfolding regs unfolding v
      using setConstBool1_value icmp by (simp add: agrees_def emit_cmp_def)
  next
    case False
    then show ?thesis unfolding regs same [OF False] using emit_value(2) [OF L k reg] by simp
  qed
qed

lemma apply_un_agrees:
  assumes L: "llvm_ok L" and k: "k \<in> {Int32, Int32_u, Int64, Int64_u}"
    and ok: "value_ok v" and kind: "v_kind v = k"
  shows "agrees L (Inr (apply_un L op k v)) (Inr (apply_un L op k (as_reg v)))"
proof -
  have pos: "0 < llvm_width k" using wide_kind(6) [OF k] by simp
  have reg: "reg_ok (llvm_width k) (getLlvmValue v)" using value_reg_ok ok kind by auto
  note neg = llvm_okD(3,4) [OF L pos reg]
  have result: "reg_ok (llvm_width k) (llvmUnInt L op (llvm_width k) (getLlvmValue v))"
    using neg reg by (cases op) (simp_all add: reg_ok_take)
  show ?thesis
  proof (cases v)
    case (RegV k' a)
    then show ?thesis using result kind wide_kind(1) [OF k] by (simp add: agrees_def)
  next
    case (ConstV k' bs)
    then have v: "v = ConstV k bs" using kind by simp
    note val = get_int_value [OF ok [unfolded v] k]
    show ?thesis
    proof (cases "k \<in> {Int32, Int32_u}")
      case True
      then show ?thesis
        using const_un_ref [OF L, of op "getInt32 bs"] val(1) [OF True] wide_kind(6) [OF k]
          createConst_value [OF k, of "constUnInt op (getInt32 bs)"]
        unfolding v by (simp add: fold_un_def agrees_def as_reg_def)
    next
      case False
      then show ?thesis
        using const_un_ref [OF L, of op "getInt64 bs"] val(2) [OF False] wide_kind(6) [OF k]
          createConst_value [OF k, of "constUnInt op (getInt64 bs)"]
        unfolding v by (simp add: fold_un_def agrees_def as_reg_def)
    qed
  qed
qed

text \<open>The operators of \<^verbatim>\<open>OperatorMgr\<close> on well-formed values.\<close>

lemma cast_both_total:
  assumes L: "llvm_ok L" and ok: "value_ok v1" "value_ok v2" and k: "is_integer k" "\<not> is_bool k"
  obtains w1 w2 where "cast_both L v1 v2 k = Inr (w1, w2)"
    and "cast_both L (as_reg v1) (as_reg v2) k = Inr (as_reg w1, as_reg w2)"
    and "value_ok w1" "value_ok w2" "v_kind w1 = k" "v_kind w2 = k"
    and "getLlvmValue w1 = cast_value (v_kind v1) k (getLlvmValue v1)"
    and "getLlvmValue w2 = cast_value (v_kind v2) k (getLlvmValue v2)"
proof -
  obtain w1 where w1: "cast_int L v1 k = Inr w1" "v_kind w1 = k" "value_ok w1"
    "cast_int L (as_reg v1) k = Inr (as_reg w1)" "getLlvmValue w1 = cast_value (v_kind v1) k (getLlvmValue v1)"
    by (rule cast_int_total [OF L ok(1) k])
  obtain w2 where w2: "cast_int L v2 k = Inr w2" "v_kind w2 = k" "value_ok w2"
    "cast_int L (as_reg v2) k = Inr (as_reg w2)" "getLlvmValue w2 = cast_value (v_kind v2) k (getLlvmValue v2)"
    by (rule cast_int_total [OF L ok(2) k])
  show ?thesis by (rule that [of w1 w2]) (simp_all add: cast_both_def w1 w2)
qed

lemma integer_plain: "is_integer k \<Longrightarrow> k \<noteq> Variant \<and> k \<noteq> StringT \<and> \<not> is_fp k"
  by (auto simp: integer_kinds is_fp_def)

lemma binaryOperator_agrees:
  assumes L: "llvm_ok L" and ok: "value_ok v1" "value_ok v2" and op: "op \<noteq> BinOp_Shr"
  shows "agrees L (binaryOperator L op v1 v2) (binaryOperator L op (as_reg v1) (as_reg v2))"
proof -
  obtain k where k: "arithmetic_type (v_kind v1) (v_kind v2) = Some k" "k \<in> {Int32, Int32_u, Int64, Int64_u}"
    by (rule arithmetic_type_cases [OF value_kind [OF ok(1)] value_kind [OF ok(2)]])
  note wide = wide_kind [OF k(2)]
  obtain w1 w2 where w: "cast_both L v1 v2 k = Inr (w1, w2)"
    "cast_both L (as_reg v1) (as_reg v2) k = Inr (as_reg w1, as_reg w2)"
    "value_ok w1" "value_ok w2" "v_kind w1 = k" "v_kind w2 = k"
    by (rule cast_both_total [OF L ok wide(1,2)])
  show ?thesis
    using apply_op_agrees [OF L k(2) w(3-6), of op] op integer_plain [OF value_kind [OF ok(1)]]
      integer_plain [OF value_kind [OF ok(2)]] k(1) w(1,2) wide
    by (simp add: binaryOperator_def folds_shr_def)
qed

lemma cmpOperator_agrees:
  assumes L: "llvm_ok L" and ok: "value_ok v1" "value_ok v2"
  shows "agrees L (cmpOperator L op v1 v2) (cmpOperator L op (as_reg v1) (as_reg v2))"
proof -
  obtain k where k: "arithmetic_type (v_kind v1) (v_kind v2) = Some k" "k \<in> {Int32, Int32_u, Int64, Int64_u}"
    by (rule arithmetic_type_cases [OF value_kind [OF ok(1)] value_kind [OF ok(2)]])
  note wide = wide_kind [OF k(2)]
  obtain w1 w2 where w: "cast_both L v1 v2 k = Inr (w1, w2)"
    "cast_both L (as_reg v1) (as_reg v2) k = Inr (as_reg w1, as_reg w2)"
    "value_ok w1" "value_ok w2" "v_kind w1 = k" "v_kind w2 = k"
    by (rule cast_both_total [OF L ok wide(1,2)])
  show ?thesis
    using apply_cmp_agrees [OF L k(2) w(3-6), of op] integer_plain [OF value_kind [OF ok(1)]]
      integer_plain [OF value_kind [OF ok(2)]] k(1) w(1,2) wide
    by (simp add: cmpOperator_def)
qed

lemma unaryOperator_agrees:
  assumes L: "llvm_ok L" and ok: "value_ok v"
  shows "agrees L (unaryOperator L op v) (unaryOperator L op (as_reg v))"
proof -
  obtain k where k: "getArithmeticOperatorResultType (PrimOperand (v_kind v)) = Some k"
      "k \<in> {Int32, Int32_u, Int64, Int64_u}"
    using value_kind [OF ok] by (auto simp: integer_kinds)
  note wide = wide_kind [OF k(2)]
  obtain w where w: "cast_int L v k = Inr w" "v_kind w = k" "value_ok w" "cast_int L (as_reg v) k = Inr (as_reg w)"
    by (rule cast_int_total [OF L ok wide(1,2)])
  show ?thesis
    using apply_un_agrees [OF L k(2) w(3,2), of op] integer_plain [OF value_kind [OF ok]] k(1) w(1,4) wide
    by (simp add: unaryOperator_def)
qed


section \<open>Booleans\<close>

lemma cast_value_zero:
  assumes "reg_ok (llvm_width k) a" and "is_integer k"
    and "getArithmeticOperatorResultType (PrimOperand k) = Some k'"
  shows "cast_value k k' a = 0 \<longleftrightarrow> a = 0" and "cast_value k k' 0 = 0"
proof -
  define w v where "w = llvm_width k" and "v = llvm_width k'"
  have w: "0 < w" "w \<le> v" using assms(2,3) by (auto simp: w_def v_def integer_kinds llvm_width_def)
  have a: "take_bit w a = a" using assms(1) by (simp add: w_def reg_ok_take)
  have down: "take_bit w (take_bit v x) = take_bit w x" for x :: int using w by (simp add: take_bit_take_bit min_def)
  have "take_bit w (cast_value k k' a) = a"
    using a w sreg_cong [of w w a] by (simp add: cast_value_def down flip: w_def v_def)
  moreover show "cast_value k k' 0 = 0" by (simp add: cast_value_def sreg_def)
  ultimately show "cast_value k k' a = 0 \<longleftrightarrow> a = 0" by auto
qed

lemma zero_value: "is_integer k \<Longrightarrow> value_ok (getZeroValue k)" "getLlvmValue (getZeroValue k) = 0"
proof -
  have "int_bytes (Suc 0) 0 = [0]" by simp
  then show "is_integer k \<Longrightarrow> value_ok (getZeroValue k)"
    by (auto simp: getZeroValue_def createConst_def is_bool_def)
  have "hd (int_bytes n 0) \<noteq> 0 \<Longrightarrow> n = 0" for n by (cases n) simp_all
  then have "getLlvmConst Bool1 (int_bytes (prim_size Bool1) 0) = 0" by (simp add: getLlvmConst_def)
  then show "getLlvmValue (getZeroValue k) = 0"
    by (auto simp: getZeroValue_def createConst_def getLlvmConst_def bytes_int_bytes)
qed

lemma cmp_zero:
  assumes L: "llvm_ok L" and ok: "value_ok v"
  shows "cmpOperator L BinOp_Ne (as_reg v) (getZeroValue (v_kind v)) =
      Inr (RegV Bool1 (of_bool (getLlvmValue v \<noteq> 0)))"
proof -
  let ?z = "getZeroValue (v_kind v)"
  have int: "is_integer (v_kind v)" using ok by (rule value_kind)
  have zk: "v_kind ?z = v_kind v" by (simp add: getZeroValue_def createConst_def)
  obtain k where k: "arithmetic_type (v_kind v) (v_kind v) = Some k" "k \<in> {Int32, Int32_u, Int64, Int64_u}"
    by (rule arithmetic_type_cases [OF int int])
  note wide = wide_kind [OF k(2)]
  obtain w1 w2 where w: "cast_both L (as_reg v) ?z k = Inr (w1, w2)"
    "cast_both L (as_reg (as_reg v)) (as_reg ?z) k = Inr (as_reg w1, as_reg w2)"
    "value_ok w1" "value_ok w2" "v_kind w1 = k" "v_kind w2 = k"
    "getLlvmValue w1 = cast_value (v_kind (as_reg v)) k (getLlvmValue (as_reg v))"
    "getLlvmValue w2 = cast_value (v_kind ?z) k (getLlvmValue ?z)"
    by (rule cast_both_total [OF L as_reg_ok [OF ok] zero_value(1) [OF int] wide(1,2)])
  have k': "getArithmeticOperatorResultType (PrimOperand (v_kind v)) = Some k"
    using k(1) by (simp add: arithmetic_type_def)
  have vals: "getLlvmValue w1 = 0 \<longleftrightarrow> getLlvmValue v = 0" "getLlvmValue w2 = 0"
    using cast_value_zero [OF value_reg_ok [OF ok] int k'] w(7,8) zero_value(2) zk by simp_all
  have pos: "0 < llvm_width k" using wide by simp
  have reg: "reg_ok (llvm_width k) (getLlvmValue w1)" "reg_ok (llvm_width k) (getLlvmValue w2)"
    using value_reg_ok [OF w(3)] value_reg_ok [OF w(4)] w(5,6) by simp_all
  have const: "\<exists>a. w1 = RegV k a"
    using w(1,5) by (cases w1) (auto simp: cast_both_def cast_int_def run_cast_def as_reg_def split: sum.splits if_splits)
  then have "apply_cmp L BinOp_Ne k w1 w2 = emit_cmp L BinOp_Ne k (getLlvmValue w1) (getLlvmValue w2)"
    by auto
  then show ?thesis
    using w(1) k(1) wide zk integer_plain [OF int] vals llvm_okD(2) [OF L pos reg]
    by (simp add: cmpOperator_def emit_cmp_def)
qed

lemma cmp_register:
  "map_sum id as_reg (cmpOperator L op (as_reg v) z) = cmpOperator L op (as_reg v) z"
proof -
  have "\<exists>a. w1 = RegV k a" if "cast_both L (as_reg v) z k = Inr (w1, w2)" for k w1 w2
    using that by (cases w1) (auto simp: cast_both_def cast_int_def run_cast_def as_reg_def split: sum.splits if_splits)
  then have "as_reg (apply_cmp L op k w1 w2) = apply_cmp L op k w1 w2"
    if "cast_both L (as_reg v) z k = Inr (w1, w2)" for k w1 w2
    using that by (fastforce simp: emit_cmp_def)
  then show ?thesis by (auto simp: cmpOperator_def split: option.splits sum.splits)
qed

lemma logNot_agrees:
  assumes L: "llvm_ok L" and ok: "value_ok v"
  shows "agrees L (logNotOperator L v) (logNotOperator L (as_reg v))"
proof -
  let ?z = "getZeroValue (v_kind v)"
  have int: "is_integer (v_kind v)" using ok by (rule value_kind)
  have "agrees L (cmpOperator L BinOp_Eq v ?z) (cmpOperator L BinOp_Eq (as_reg v) (as_reg ?z))"
    by (rule cmpOperator_agrees [OF L ok zero_value(1) [OF int]])
  moreover have "agrees L (cmpOperator L BinOp_Eq (as_reg v) ?z) (cmpOperator L BinOp_Eq (as_reg v) (as_reg ?z))"
    using cmpOperator_agrees [OF L as_reg_ok [OF ok] zero_value(1) [OF int], of BinOp_Eq] by simp
  moreover have "map_sum id as_reg (cmpOperator L BinOp_Eq (as_reg v) ?z) = cmpOperator L BinOp_Eq (as_reg v) ?z"
    by (rule cmp_register)
  ultimately show ?thesis using int by (simp add: logNotOperator_def agrees_def)
qed

lemma castOperator_agrees:
  assumes L: "llvm_ok L" and ok: "value_ok v" and dst: "is_integer dst"
  shows "agrees L (castOperator L v dst) (castOperator L (as_reg v) dst)"
    and "\<exists>w. castOperator L v dst = Inr w \<and> v_kind w = dst"
proof -
  have int: "is_integer (v_kind v)" using ok by (rule value_kind)
  have "agrees L (castOperator L v dst) (castOperator L (as_reg v) dst) \<and>
    (\<exists>w. castOperator L v dst = Inr w \<and> v_kind w = dst)"
  proof (cases "is_bool dst")
    case False
    obtain w where "cast_int L v dst = Inr w" "v_kind w = dst" "value_ok w"
      "cast_int L (as_reg v) dst = Inr (as_reg w)"
      by (rule cast_int_total [OF L ok dst False])
    then show ?thesis using False dst by (simp add: castOperator_def agrees_def)
  next
    case bool: True
    show ?thesis
    proof (cases "v_kind v = dst")
      case True
      then show ?thesis using bool ok by (simp add: castOperator_def cast_bool_def agrees_def)
    next
      case other: False
      note plain = integer_plain [OF int]
      show ?thesis
      proof (cases "is_bool (v_kind v)")
        case True
        then have kinds: "v_kind v = Bool1 \<and> dst = Bool8 \<or> v_kind v = Bool8 \<and> dst = Bool1"
          using bool other by (auto simp: is_bool_def)
        have pos: "0 < llvm_width (v_kind v)" using integer_size [OF int] by simp
        note ll = llvm_okD [OF L pos value_reg_ok [OF ok]]
        show ?thesis
        proof (cases v)
          case (ConstV k bs)
          then have "bs = [0] \<or> bs = [1]" using ok True by simp
          then show ?thesis using ConstV ok kinds bool plain other ll(5) [of 1] ll(7) [of 8]
            by (auto simp: castOperator_def cast_bool_def agrees_def as_reg_def BoolFromBool_constCast_def
                getLlvmConst_def llvm_width_def is_bool_def is_integer_def less_eq_prim_kind_def)
        next
          case (RegV k a)
          then show ?thesis using ok kinds bool plain other ll(5) [of 1] ll(7) [of 8]
            by (auto simp: castOperator_def cast_bool_def agrees_def llvm_width_def is_bool_def is_integer_def
                less_eq_prim_kind_def reg_ok_def)
        qed
      next
        case False
        have reg: "cast_zero_cmp L (as_reg v) dst = Inr (RegV dst (of_bool (getLlvmValue v \<noteq> 0)))"
        proof -
          have "l_cast L CreateZExt 1 8 b = b" if "b = 0 \<or> b = 1" for b
            using llvm_okD(7) [OF L, of 1 b 8] that by (auto simp: reg_ok_def)
          then show ?thesis using cmp_zero [OF L ok] bool
            by (auto simp: as_reg_def is_bool_def llvm_width_def)
        qed
        have "value_ok (RegV dst (of_bool (getLlvmValue v \<noteq> 0)))"
          using bool dst by (auto simp: is_bool_def llvm_width_def reg_ok_def)
        moreover have "agrees L (cast_zero_cmp L v dst) (cast_zero_cmp L (as_reg v) dst) \<and>
            (\<exists>w. cast_zero_cmp L v dst = Inr w \<and> v_kind w = dst)"
        proof (cases v)
          case (ConstV k bs)
          then have "take (prim_size k) bs = bs" "getLlvmValue v = bytes_int bs" using ok const_value by simp_all
          then show ?thesis unfolding reg using bool dst ConstV
            by (auto simp: agrees_def as_reg_def BoolFromZeroCmp_constCast_def getLlvmConst_def is_bool_def)
        next
          case (RegV k a)
          then have "as_reg v = v" by simp
          then show ?thesis using reg calculation by (simp add: agrees_def)
        qed
        ultimately show ?thesis using False bool other int plain
          by (simp add: castOperator_def cast_bool_def)
      qed
    qed
  qed
  then show "agrees L (castOperator L v dst) (castOperator L (as_reg v) dst)"
    and "\<exists>w. castOperator L v dst = Inr w \<and> v_kind w = dst" by blast+
qed

end
