(* ===== verification/ConstFoldExpr.thy ===== *)
theory ConstFoldExpr
  imports ConstFoldThms
begin

text \<open>
  The properties of the operators: on whole expressions, computing constants in the compiler cannot
  be told from computing them at run time, every well-formed expression has the type that the mode
  without code generation predicts, and the right shift is the one exception to the first.
\<close>

text \<open>Expressions over integers and booleans, with well-formed operands and casts to such types;
  the same expression with every constant moved into a register; and expressions without \<^verbatim>\<open>>>\<close>.\<close>

fun expr_ok :: "jexpr \<Rightarrow> bool" where
  "expr_ok (Operand v) \<longleftrightarrow> value_ok v"
| "expr_ok (Unary op e) \<longleftrightarrow> expr_ok e"
| "expr_ok (LogNot e) \<longleftrightarrow> expr_ok e"
| "expr_ok (Binary op e1 e2) \<longleftrightarrow> expr_ok e1 \<and> expr_ok e2"
| "expr_ok (Compare op e1 e2) \<longleftrightarrow> expr_ok e1 \<and> expr_ok e2"
| "expr_ok (Cast k e) \<longleftrightarrow> is_integer k \<and> expr_ok e"

fun at_run_time :: "jexpr \<Rightarrow> jexpr" where
  "at_run_time (Operand v) = Operand (as_reg v)"
| "at_run_time (Unary op e) = Unary op (at_run_time e)"
| "at_run_time (LogNot e) = LogNot (at_run_time e)"
| "at_run_time (Binary op e1 e2) = Binary op (at_run_time e1) (at_run_time e2)"
| "at_run_time (Compare op e1 e2) = Compare op (at_run_time e1) (at_run_time e2)"
| "at_run_time (Cast k e) = Cast k (at_run_time e)"

fun no_shr :: "jexpr \<Rightarrow> bool" where
  "no_shr (Operand v) \<longleftrightarrow> True"
| "no_shr (Unary op e) \<longleftrightarrow> no_shr e"
| "no_shr (LogNot e) \<longleftrightarrow> no_shr e"
| "no_shr (Binary op e1 e2) \<longleftrightarrow> op \<noteq> BinOp_Shr \<and> no_shr e1 \<and> no_shr e2"
| "no_shr (Compare op e1 e2) \<longleftrightarrow> no_shr e1 \<and> no_shr e2"
| "no_shr (Cast k e) \<longleftrightarrow> no_shr e"

text \<open>Results that agree are the same error, or a well-formed value and its register.\<close>

lemma agreesE:
  assumes "agrees L r r'"
  obtains x where "r = Inl x" "r' = Inl x"
  | v where "r = Inr v" "r' = Inr (as_reg v)" "value_ok v"
  using assms by (cases r) (auto simp: agrees_def)

lemma agrees_error [simp]: "agrees L (Inl x) (Inl x)"
  by (simp add: agrees_def)

lemma agrees_bind:
  assumes "agrees L r r'" and "\<And>v. value_ok v \<Longrightarrow> agrees L (f v) (f (as_reg v))"
  shows "agrees L (case r of Inl x \<Rightarrow> Inl x | Inr v \<Rightarrow> f v) (case r' of Inl x \<Rightarrow> Inl x | Inr v \<Rightarrow> f v)"
  using assms(1)
proof (cases rule: agreesE)
  case (1 x)
  then show ?thesis by (simp add: agrees_def)
next
  case (2 v)
  then show ?thesis using assms(2) by simp
qed

lemma agrees_bind2:
  assumes "agrees L r1 r1'" and "agrees L r2 r2'"
    and "\<And>v1 v2. value_ok v1 \<Longrightarrow> value_ok v2 \<Longrightarrow> agrees L (f v1 v2) (f (as_reg v1) (as_reg v2))"
  shows "agrees L (case r1 of Inl x \<Rightarrow> Inl x | Inr v1 \<Rightarrow> case r2 of Inl x \<Rightarrow> Inl x | Inr v2 \<Rightarrow> f v1 v2)
    (case r1' of Inl x \<Rightarrow> Inl x | Inr v1 \<Rightarrow> case r2' of Inl x \<Rightarrow> Inl x | Inr v2 \<Rightarrow> f v1 v2)"
  by (rule agreesE [OF assms(1)]; rule agreesE [OF assms(2)]) (simp_all add: assms(3))

lemma eval_agrees:
  assumes L: "llvm_ok L"
  shows "expr_ok e \<Longrightarrow> no_shr e \<Longrightarrow> agrees L (eval L e) (eval L (at_run_time e))"
proof (induction e)
  case (Operand v)
  then show ?case by (simp add: agrees_def)
next
  case (Unary op e)
  then show ?case by (auto intro!: agrees_bind unaryOperator_agrees [OF L])
next
  case (LogNot e)
  then show ?case by (auto intro!: agrees_bind logNot_agrees [OF L])
next
  case (Binary op e1 e2)
  then show ?case by (auto intro!: agrees_bind2 binaryOperator_agrees [OF L])
next
  case (Compare op e1 e2)
  then show ?case by (auto intro!: agrees_bind2 cmpOperator_agrees [OF L])
next
  case (Cast k e)
  then show ?case by (auto intro!: agrees_bind castOperator_agrees(1) [OF L])
qed

text \<open>C19: Constant folding is faithful. An expression of integer and boolean constants and run-time
  values, without right shifts, has the same outcome whether its constant parts are computed by the
  compiler or by the generated code: the same error, or a value of the same type with the same
  bits.\<close>

theorem constant_folding:
  assumes "llvm_ok L" and "expr_ok e" and "no_shr e"
  shows "map_sum id as_reg (eval L e) = eval L (at_run_time e)"
  using eval_agrees [OF assms] by (simp add: agrees_def)

section \<open>Right shifts\<close>

lemma shr_fold_word:
  fixes a b :: "'w::len word"
  assumes L: "llvm_ok L" and k: "k \<in> {Int32, Int32_u, Int64, Int64_u}" and w: "LENGTH('w) = llvm_width k"
    and range: "unat b < LENGTH('w)"
  shows "map_sum id as_reg (case constOpInt BinOp_Shr a b u of None \<Rightarrow> Inl Undefined
        | Some r \<Rightarrow> Inr (createConst (sint r) k)) = emit_op L BinOp_Shr k (uint a) (uint b) \<longleftrightarrow>
      \<not> bit (uint a) (llvm_width k - 1) \<or> uint b = 0"
proof -
  have pos: "0 < llvm_width k" using w len_gt_0 [where 'a='w] by simp
  have reg: "reg_ok (llvm_width k) (uint a)" "reg_ok (llvm_width k) (uint b)"
    using reg_ok_uint [of a] reg_ok_uint [of b] by (simp_all add: w)
  have emit: "emit_op L BinOp_Shr k (uint a) (uint b) = Inr (RegV k (uint (drop_bit (unat b) a)))"
    unfolding emit_op_def llvmOpInt.simps llvm_okD(1) [OF L pos reg] using shift_ref(2) [of a b] range
    by (simp only: w) simp
  have fold: "map_sum id as_reg (case constOpInt BinOp_Shr a b u of None \<Rightarrow> Inl Undefined
        | Some r \<Rightarrow> Inr (createConst (sint r) k)) = Inr (RegV k (uint (signed_drop_bit (unat b) a)))"
    using range createConst_value(2) [OF k w] by (simp add: Shr_constOp_def)
  have "signed_drop_bit (unat b) a = drop_bit (unat b) a \<longleftrightarrow> \<not> bit a (LENGTH('w) - 1) \<or> b = 0"
    using signed_drop_bit_positive [of a "unat b"] signed_drop_bit_negative [of a "unat b"] range
    by (cases "b = 0") (auto simp: unat_gt_0)
  then show ?thesis unfolding emit fold by (simp add: word_uint_eq_iff [symmetric] bit_uint_iff uint_0_iff flip: w)
qed

lemma wide_arithmetic: "k \<in> {Int32, Int32_u, Int64, Int64_u} \<Longrightarrow> arithmetic_type k k = Some k"
  by (auto simp: arithmetic_type_def)

lemma binaryOperator_wide:
  assumes k: "k \<in> {Int32, Int32_u, Int64, Int64_u}" and "v_kind v1 = k" and "v_kind v2 = k"
  shows "binaryOperator L op v1 v2 = apply_op L op k v1 v2"
  using assms wide_kind(1-5) [OF k]
  by (simp add: binaryOperator_def wide_arithmetic [OF k] cast_both_def cast_int_def)

text \<open>The right shift of two constants of a wide integer type, by a count below its width, gives
  what the generated code gives exactly if the top bit of the left operand is clear or the count is
  zero: the compiler shifts arithmetically whatever the signedness, the code always logically.\<close>

theorem shr_folding:
  assumes L: "llvm_ok L" and k: "k \<in> {Int32, Int32_u, Int64, Int64_u}"
    and ok: "value_ok (ConstV k bs)" "value_ok (ConstV k cs)"
    and range: "getLlvmValue (ConstV k cs) < int (llvm_width k)"
  shows "map_sum id as_reg (binaryOperator L BinOp_Shr (ConstV k bs) (ConstV k cs)) =
      binaryOperator L BinOp_Shr (as_reg (ConstV k bs)) (as_reg (ConstV k cs)) \<longleftrightarrow>
    \<not> bit (getLlvmValue (ConstV k bs)) (llvm_width k - 1) \<or> getLlvmValue (ConstV k cs) = 0"
proof -
  note val = get_int_value [OF ok(1) k] get_int_value [OF ok(2) k]
  have op: "binaryOperator L BinOp_Shr (ConstV k bs) (ConstV k cs) = fold_op BinOp_Shr k bs cs"
    "binaryOperator L BinOp_Shr (as_reg (ConstV k bs)) (as_reg (ConstV k cs)) =
      emit_op L BinOp_Shr k (getLlvmValue (ConstV k bs)) (getLlvmValue (ConstV k cs))"
    using binaryOperator_wide [OF k] by (simp_all add: as_reg_def)
  have small: "unat x < n" if "uint x < int n" for x :: "'w::len word" and n
    using that by (simp only: uint_nat of_nat_less_iff)
  show ?thesis
  proof (cases "k \<in> {Int32, Int32_u}")
    case True
    then have w: "LENGTH(32) = llvm_width k" using wide_kind(6) [OF k] by simp
    have "uint (getInt32 cs) < int LENGTH(32)" using range val(3) [OF True] w by simp
    from shr_fold_word [OF L k w small [OF this], of "getInt32 bs" "is_unsigned k"] True show ?thesis
      unfolding op val(1,3) [OF True, symmetric] fold_op_def by (simp only: if_True Let_def simp_thms)
  next
    case False
    then have w: "LENGTH(64) = llvm_width k" using wide_kind(6) [OF k] by simp
    have "uint (getInt64 cs) < int LENGTH(64)" using range val(4) [OF False] w by simp
    from shr_fold_word [OF L k w small [OF this], of "getInt64 bs" "is_unsigned k"] False show ?thesis
      unfolding op val(2,4) [OF False, symmetric] fold_op_def by (simp only: if_False Let_def simp_thms)
  qed
qed

section \<open>Types\<close>

definition typed :: "prim_kind \<Rightarrow> op_result \<Rightarrow> bool" where
  "typed k r \<longleftrightarrow> (case r of Inl x \<Rightarrow> x = Undefined | Inr v \<Rightarrow> v_kind v = k \<and> value_ok v)"

lemma apply_op_typed:
  assumes L: "llvm_ok L" and k: "k \<in> {Int32, Int32_u, Int64, Int64_u}"
    and ok: "value_ok v1" "value_ok v2" and kinds: "v_kind v1 = k" "v_kind v2 = k"
  shows "typed k (apply_op L op k v1 v2)"
proof -
  have emit: "typed k (emit_op L op k (getLlvmValue v1) (getLlvmValue v2))"
    using emit_value(1) [OF L k, of "getLlvmValue v1" "getLlvmValue v2" op] value_reg_ok [OF ok(1)]
      value_reg_ok [OF ok(2)] unfolding kinds
    by (auto simp: typed_def agrees_def emit_op_def split: option.splits)
  have "v_kind (createConst n k) = k" for n by (simp add: createConst_def)
  then have "typed k (fold_op op k bs cs)" for bs cs
    using createConst_value(1) [OF k, where 'w=32] createConst_value(1) [OF k, where 'w=64] wide_kind(6) [OF k]
    by (auto simp: typed_def fold_op_def Let_def split: option.splits)
  then show ?thesis using emit by (cases v1; cases v2) auto
qed

lemma binaryOperator_typed:
  assumes L: "llvm_ok L" and ok: "value_ok v1" "value_ok v2"
  obtains k where "arithmetic_type (v_kind v1) (v_kind v2) = Some k" and "is_integer k"
    and "typed k (binaryOperator L op v1 v2)"
proof -
  obtain k where k: "arithmetic_type (v_kind v1) (v_kind v2) = Some k" "k \<in> {Int32, Int32_u, Int64, Int64_u}"
    by (rule arithmetic_type_cases [OF value_kind [OF ok(1)] value_kind [OF ok(2)]])
  note wide = wide_kind [OF k(2)]
  obtain w1 w2 where w: "cast_both L v1 v2 k = Inr (w1, w2)"
    "value_ok w1" "value_ok w2" "v_kind w1 = k" "v_kind w2 = k"
    by (rule cast_both_total [OF L ok wide(1,2)])
  show ?thesis
    by (rule that [OF k(1) wide(1)])
       (use apply_op_typed [OF L k(2) w(2-5), of op] integer_plain [OF value_kind [OF ok(1)]]
          integer_plain [OF value_kind [OF ok(2)]] k(1) w(1) wide in \<open>simp add: binaryOperator_def\<close>)
qed

lemma cmpOperator_typed:
  assumes L: "llvm_ok L" and ok: "value_ok v1" "value_ok v2"
  shows "typed Bool1 (cmpOperator L op v1 v2)"
proof -
  obtain k where k: "arithmetic_type (v_kind v1) (v_kind v2) = Some k" "k \<in> {Int32, Int32_u, Int64, Int64_u}"
    by (rule arithmetic_type_cases [OF value_kind [OF ok(1)] value_kind [OF ok(2)]])
  note wide = wide_kind [OF k(2)]
  obtain w1 w2 where w: "cast_both L v1 v2 k = Inr (w1, w2)"
    by (rule cast_both_total [OF L ok wide(1,2)])
  have "v_kind (apply_cmp L op k w1 w2) = Bool1"
    by (cases w1; cases w2) (simp_all add: fold_cmp_def emit_cmp_def setConstBool1_def createConst_def Let_def)
  moreover have "cmpOperator L op v1 v2 = Inr (apply_cmp L op k w1 w2)"
    using integer_plain [OF value_kind [OF ok(1)]] integer_plain [OF value_kind [OF ok(2)]] k(1) w wide
    by (simp add: cmpOperator_def)
  ultimately show ?thesis using cmpOperator_agrees [OF L ok, of op] by (simp add: typed_def agrees_def)
qed

lemma unaryOperator_typed:
  assumes L: "llvm_ok L" and ok: "value_ok v"
  obtains k where "getArithmeticOperatorResultType (PrimOperand (v_kind v)) = Some k" and "is_integer k"
    and "typed k (unaryOperator L op v)"
proof -
  obtain k where k: "getArithmeticOperatorResultType (PrimOperand (v_kind v)) = Some k"
      "k \<in> {Int32, Int32_u, Int64, Int64_u}"
    using value_kind [OF ok] by (auto simp: integer_kinds)
  note wide = wide_kind [OF k(2)]
  obtain w where w: "cast_int L v k = Inr w" "v_kind w = k" "value_ok w" "cast_int L (as_reg v) k = Inr (as_reg w)"
    by (rule cast_int_total [OF L ok wide(1,2)])
  have "v_kind (apply_un L op k w) = k" by (cases w) (simp_all add: fold_un_def createConst_def)
  moreover have "unaryOperator L op v = Inr (apply_un L op k w)"
    using integer_plain [OF value_kind [OF ok]] k(1) w(1) wide by (simp add: unaryOperator_def)
  ultimately show ?thesis using that [OF k(1) wide(1)] unaryOperator_agrees [OF L ok, of op]
    by (simp add: typed_def agrees_def)
qed

lemma typedE:
  assumes "typed k r"
  obtains "r = Inl Undefined" | v where "r = Inr v" "v_kind v = k" "value_ok v"
  using assms by (cases r) (auto simp: typed_def)

lemma typed_undefined [simp]: "typed k (Inl Undefined)"
  by (simp add: typed_def)

lemma typed_bind:
  assumes "typed k r" and "\<And>v. v_kind v = k \<Longrightarrow> value_ok v \<Longrightarrow> typed k' (f v)"
  shows "typed k' (case r of Inl x \<Rightarrow> Inl x | Inr v \<Rightarrow> f v)"
  using assms(1) by (cases rule: typedE) (simp_all add: assms(2))

lemma typed_bind2:
  assumes "typed k1 r1" and "typed k2 r2"
    and "\<And>v1 v2. v_kind v1 = k1 \<Longrightarrow> value_ok v1 \<Longrightarrow> v_kind v2 = k2 \<Longrightarrow> value_ok v2 \<Longrightarrow> typed k' (f v1 v2)"
  shows "typed k' (case r1 of Inl x \<Rightarrow> Inl x | Inr v1 \<Rightarrow> case r2 of Inl x \<Rightarrow> Inl x | Inr v2 \<Rightarrow> f v1 v2)"
  by (rule typed_bind [OF assms(1)], rule typed_bind [OF assms(2)]) (rule assms(3))

lemma logNot_typed: "llvm_ok L \<Longrightarrow> value_ok v \<Longrightarrow> typed Bool1 (logNotOperator L v)"
  using cmpOperator_typed [OF _ _ zero_value(1)] value_kind by (simp add: logNotOperator_def)

lemma castOperator_typed: "llvm_ok L \<Longrightarrow> value_ok v \<Longrightarrow> is_integer k \<Longrightarrow> typed k (castOperator L v k)"
  using castOperator_agrees [of L v k] by (auto simp: typed_def agrees_def)

text \<open>The types of operations on two integer kinds.\<close>

lemma arithmetic_typed:
  assumes "llvm_ok L" and "is_integer k1" and "is_integer k2"
  obtains k where "arithmetic_type k1 k2 = Some k" and "is_integer k"
    and "\<And>v1 v2. v_kind v1 = k1 \<Longrightarrow> value_ok v1 \<Longrightarrow> v_kind v2 = k2 \<Longrightarrow> value_ok v2 \<Longrightarrow>
      typed k (binaryOperator L op v1 v2)"
proof -
  obtain k where k: "arithmetic_type k1 k2 = Some k" "k \<in> {Int32, Int32_u, Int64, Int64_u}"
    by (rule arithmetic_type_cases [OF assms(2,3)])
  show ?thesis
  proof (rule that [OF k(1) wide_kind(1) [OF k(2)]])
    fix v1 v2
    assume v: "v_kind v1 = k1" "value_ok v1" "v_kind v2 = k2" "value_ok v2"
    then show "typed k (binaryOperator L op v1 v2)"
      using binaryOperator_typed [OF assms(1) v(2,4), of op] k(1) by auto
  qed
qed

lemma promotion_typed:
  assumes "llvm_ok L" and "is_integer k'"
  obtains k where "getArithmeticOperatorResultType (PrimOperand k') = Some k" and "is_integer k"
    and "\<And>v. v_kind v = k' \<Longrightarrow> value_ok v \<Longrightarrow> typed k (unaryOperator L op v)"
proof -
  obtain k where k: "getArithmeticOperatorResultType (PrimOperand k') = Some k" "is_integer k"
    using assms(2) by (auto simp: integer_kinds)
  show ?thesis
  proof (rule that [OF k])
    fix v
    assume "v_kind v = k'" "value_ok v"
    then show "typed k (unaryOperator L op v)"
      using unaryOperator_typed [OF assms(1), of v op] k(1) by auto
  qed
qed

text \<open>C21: Operators are type safe. A well-formed expression over integers and booleans has the type
  that the mode without code generation computes for it; its evaluation gives a well-formed value
  of that type, and the only failures are divisions and shifts that are undefined.\<close>

theorem operator_types:
  assumes L: "llvm_ok L" and "expr_ok e"
  shows "\<exists>k. expr_type e = Some k \<and> is_integer k \<and>
    (case eval L e of Inl x \<Rightarrow> x = Undefined | Inr v \<Rightarrow> v_kind v = k \<and> value_ok v)"
  unfolding typed_def [symmetric] using assms(2)
proof (induction e)
  case (Operand v)
  then show ?case using value_kind by (simp add: typed_def)
next
  case (Unary op e)
  then obtain k' where e: "expr_type e = Some k'" "is_integer k'" "typed k' (eval L e)" by auto
  from promotion_typed [OF L e(2)] obtain k where "getArithmeticOperatorResultType (PrimOperand k') = Some k"
    "is_integer k" "\<And>v. v_kind v = k' \<Longrightarrow> value_ok v \<Longrightarrow> typed k (unaryOperator L op v)" by blast
  with e show ?case by (auto intro!: typed_bind)
next
  case (LogNot e)
  then show ?case by (auto intro!: typed_bind logNot_typed [OF L] simp: integer_kinds)
next
  case (Binary op e1 e2)
  then obtain k1 k2 where e: "expr_type e1 = Some k1" "is_integer k1" "typed k1 (eval L e1)"
    "expr_type e2 = Some k2" "is_integer k2" "typed k2 (eval L e2)" by auto
  from arithmetic_typed [OF L e(2,5)] obtain k where "arithmetic_type k1 k2 = Some k" "is_integer k"
    "\<And>v1 v2. v_kind v1 = k1 \<Longrightarrow> value_ok v1 \<Longrightarrow> v_kind v2 = k2 \<Longrightarrow> value_ok v2 \<Longrightarrow>
      typed k (binaryOperator L op v1 v2)" by blast
  with e show ?case by (auto intro!: typed_bind2)
next
  case (Compare op e1 e2)
  then obtain k1 k2 where e: "expr_type e1 = Some k1" "typed k1 (eval L e1)"
    "expr_type e2 = Some k2" "typed k2 (eval L e2)" by auto
  then show ?case by (auto intro!: typed_bind2 [OF e(2,4)] cmpOperator_typed [OF L] simp: integer_kinds)
next
  case (Cast k e)
  then show ?case by (auto intro!: typed_bind castOperator_typed [OF L])
qed

section \<open>Witnesses\<close>

text \<open>\<^verbatim>\<open>(int8_t)200 + x\<close> for a 16-bit unsigned \<^verbatim>\<open>x\<close> of 3, and the shift \<^verbatim>\<open>0x80000000u >> 1\<close>.\<close>

definition sum_example :: jexpr where
  "sum_example =
     Binary BinOp_Add (Cast Int8 (Operand (ConstV Int32 [200, 0, 0, 0]))) (Operand (RegV Int16_u 3))"

lemma sum_example_ok: "expr_ok sum_example" "no_shr sum_example"
  by (simp_all add: sum_example_def is_integer_def less_eq_prim_kind_def is_bool_def reg_ok_def llvm_width_def)

theorem constant_folding_witness:
  "map_sum id as_reg (eval llvm_ref sum_example) = eval llvm_ref (at_run_time sum_example)"
  by (rule constant_folding [OF llvm_ref_ok sum_example_ok])

lemma sum_example_type: "expr_type sum_example = Some Int32"
  by (simp add: sum_example_def arithmetic_type_def less_prim_kind_def)

theorem operator_types_witness:
  "is_integer Int32 \<and>
   (case eval llvm_ref sum_example of Inl x \<Rightarrow> x = Undefined | Inr v \<Rightarrow> v_kind v = Int32 \<and> value_ok v)"
  using operator_types [OF llvm_ref_ok sum_example_ok(1)] sum_example_type by auto

lemma shift_example_ok:
  "value_ok (ConstV Int32_u [0, 0, 0, 128])" "value_ok (ConstV Int32_u [1, 0, 0, 0])"
  by (simp_all add: is_integer_def less_eq_prim_kind_def is_bool_def)

theorem shr_folding_witness:
  "map_sum id as_reg (binaryOperator llvm_ref BinOp_Shr (ConstV Int32_u [0, 0, 0, 128]) (ConstV Int32_u [1, 0, 0, 0])) \<noteq>
   binaryOperator llvm_ref BinOp_Shr (as_reg (ConstV Int32_u [0, 0, 0, 128])) (as_reg (ConstV Int32_u [1, 0, 0, 0]))"
proof -
  have "getLlvmValue (ConstV Int32_u [0, 0, 0, 128]) = 2147483648" "getLlvmValue (ConstV Int32_u [1, 0, 0, 0]) = 1"
    by (simp_all add: getLlvmConst_def)
  then show ?thesis
    using shr_folding [OF llvm_ref_ok _ shift_example_ok] by (simp add: llvm_width_def bit_iff_odd)
qed

end
