(* ===== verification/BitFields.thy ===== *)
theory BitFields
  imports ConstFoldExpr
begin

text \<open>
  Bit fields (\<^verbatim>\<open>OperatorMgr::extractBitField\<close> and \<^verbatim>\<open>mergeBitField\<close> in
  \<^verbatim>\<open>jnc_ct_OperatorMgr_DataRef.cpp\<close>). A load shifts the storage unit and masks it, a store merges
  the shifted value into the unit; both are written with the operators of \<open>ConstFold\<close>, so that
  they run in the compiler for constants and in the generated code otherwise. The result is
  described bit by bit, for constants and registers alike: reading a field never depends on the
  disagreement of the right shifts, and writing one is exact for the field itself but not for its
  neighbours.
\<close>

definition bf_type :: "prim_kind \<Rightarrow> prim_kind" where
  "bf_type baseType = (if prim_size baseType \<le> 4 then Int32_u else Int64_u)"

definition overrideType :: "jvalue \<Rightarrow> prim_kind \<Rightarrow> jvalue" where
  "overrideType v k = (case v of ConstV k' bs \<Rightarrow> ConstV k bs | RegV k' a \<Rightarrow> RegV k a)"

definition rbind :: "op_result \<Rightarrow> (jvalue \<Rightarrow> op_result) \<Rightarrow> op_result" where
  "rbind r f = (case r of Inl x \<Rightarrow> Inl x | Inr v \<Rightarrow> f v)"

text \<open>A mask of 64 bits is an undefined shift of the compiler.\<close>

definition extendSign :: "llvm \<Rightarrow> prim_kind \<Rightarrow> nat \<Rightarrow> jvalue \<Rightarrow> op_result" where
  "extendSign L type bitCount value =
     rbind (binaryOperator L BinOp_BwAnd (createConst (2 ^ (bitCount - 1)) type) value) (\<lambda>signBitValue.
     rbind (binaryOperator L BinOp_Sub signBitValue (createConst 1 type)) (\<lambda>signExtValue.
     rbind (unaryOperator L UnOp_BwNot signExtValue) (\<lambda>signExtValue.
     binaryOperator L BinOp_BwOr value signExtValue)))"

definition extractBitField :: "llvm \<Rightarrow> jvalue \<Rightarrow> prim_kind \<Rightarrow> nat \<Rightarrow> nat \<Rightarrow> op_result" where
  "extractBitField L rawValue baseType bitOffset bitCount =
     (let type = bf_type baseType in
      if bitCount \<ge> 64 then Inl Undefined
      else
        rbind (binaryOperator L BinOp_Shr (overrideType rawValue baseType) (createConst (int bitOffset) type)) (\<lambda>value.
        rbind (binaryOperator L BinOp_BwAnd value (createConst (2 ^ bitCount - 1) type)) (\<lambda>value.
        rbind (if is_unsigned baseType then Inr value else extendSign L type bitCount value) (\<lambda>value.
        castOperator L value baseType))))"

definition mergeBitField :: "llvm \<Rightarrow> jvalue \<Rightarrow> jvalue \<Rightarrow> prim_kind \<Rightarrow> nat \<Rightarrow> nat \<Rightarrow> op_result" where
  "mergeBitField L rawValue rawShadowValue baseType bitOffset bitCount =
     (let type = bf_type baseType;
          mask = push_bit bitOffset (2 ^ bitCount - 1) :: int in
      if bitCount \<ge> 64 then Inl Undefined
      else
        rbind (binaryOperator L BinOp_Shl (overrideType rawValue baseType) (createConst (int bitOffset) type)) (\<lambda>value.
        rbind (binaryOperator L BinOp_BwAnd value (createConst mask type)) (\<lambda>resultValue.
        rbind (binaryOperator L BinOp_BwAnd (overrideType rawShadowValue baseType) (createConst (NOT mask) type)) (\<lambda>shadowValue.
        rbind (binaryOperator L BinOp_BwOr value shadowValue) (\<lambda>value.
        castOperator L value baseType)))))"

section \<open>Operators as numbers\<close>

text \<open>On a constant of the wide unsigned type, or with one as second operand, an operator has a
  value that does not depend on which operands are constants.\<close>

lemma binaryOperator_value:
  assumes L: "llvm_ok L" and ok: "value_ok v1" "value_ok v2" and op: "op \<noteq> BinOp_Shr"
    and k: "arithmetic_type (v_kind v1) (v_kind v2) = Some k"
    and r: "ref_bin (llvmOpInt op (is_unsigned k)) (llvm_width k)
      (cast_value (v_kind v1) k (getLlvmValue v1)) (cast_value (v_kind v2) k (getLlvmValue v2)) = Some r"
  obtains v where "binaryOperator L op v1 v2 = Inr v" and "v_kind v = k" and "value_ok v" and "getLlvmValue v = r"
proof -
  have k': "k \<in> {Int32, Int32_u, Int64, Int64_u}"
    using arithmetic_type_cases [OF value_kind [OF ok(1)] value_kind [OF ok(2)]] k by (metis option.inject)
  note wide = wide_kind [OF k']
  obtain w1 w2 where w: "cast_both L v1 v2 k = Inr (w1, w2)" "value_ok w1" "value_ok w2" "v_kind w1 = k" "v_kind w2 = k"
    "getLlvmValue w1 = cast_value (v_kind v1) k (getLlvmValue v1)"
    "getLlvmValue w2 = cast_value (v_kind v2) k (getLlvmValue v2)"
    by (rule cast_both_total [OF L ok wide(1,2)])
  have op': "binaryOperator L op v1 v2 = apply_op L op k w1 w2"
    using integer_plain [OF value_kind [OF ok(1)]] integer_plain [OF value_kind [OF ok(2)]] k w(1) wide
    by (simp add: binaryOperator_def)
  have pos: "0 < llvm_width k" using wide by simp
  have reg: "reg_ok (llvm_width k) (getLlvmValue w1)" "reg_ok (llvm_width k) (getLlvmValue w2)"
    using value_reg_ok [OF w(2)] value_reg_ok [OF w(3)] w(4,5) by simp_all
  have "apply_op L op k (as_reg w1) (as_reg w2) = Inr (RegV k r)"
    using r llvm_okD(1) [OF L pos reg] w(6,7) by (simp add: as_reg_def emit_op_def)
  moreover have "agrees L (apply_op L op k w1 w2) (apply_op L op k (as_reg w1) (as_reg w2))"
    using op by (intro apply_op_agrees [OF L k' w(2-5)]) (simp add: folds_shr_def)
  ultimately obtain v where "apply_op L op k w1 w2 = Inr v" "as_reg v = RegV k r" "value_ok v"
    by (auto elim!: agreesE)
  then show ?thesis using that [of v] op' by (simp add: as_reg_def)
qed

text \<open>The two right shifts agree below the width.\<close>

lemma shr_word_bits:
  fixes a b :: "'w::len word"
  assumes k: "k \<in> {Int32, Int32_u, Int64, Int64_u}" and w: "LENGTH('w) = llvm_width k"
    and b: "uint b = int n" "n < llvm_width k"
  obtains v where "(case constOpInt BinOp_Shr a b u of None \<Rightarrow> Inl Undefined
      | Some r \<Rightarrow> Inr (createConst (sint r) k)) = Inr v"
    and "value_ok v" and "v_kind v = k"
    and "\<And>i. i + n < llvm_width k \<Longrightarrow> bit (getLlvmValue v) i = bit (uint a) (i + n)"
proof -
  have n: "unat b = n" using b(1) by (metis of_nat_eq_iff uint_nat)
  let ?v = "createConst (sint (signed_drop_bit n a)) k"
  have val: "getLlvmValue ?v = uint (signed_drop_bit n a)"
    using createConst_value(2) [OF k w] by (simp add: as_reg_def)
  show ?thesis
  proof (rule that [of ?v])
    show "value_ok ?v" by (rule createConst_value(1) [OF k w])
    show "v_kind ?v = k" by (simp add: createConst_def)
    show "(case constOpInt BinOp_Shr a b u of None \<Rightarrow> Inl Undefined
      | Some r \<Rightarrow> Inr (createConst (sint r) k)) = Inr ?v"
      using b(2) w n by (simp add: Shr_constOp_def)
    show "bit (getLlvmValue ?v) i = bit (uint a) (i + n)" if "i + n < llvm_width k" for i
      using that w unfolding val by (auto simp: bit_uint_iff bit_signed_drop_bit_iff add.commute)
  qed
qed

lemma shr_bits:
  assumes L: "llvm_ok L" and ok: "value_ok v1" "value_ok v2"
    and k: "arithmetic_type (v_kind v1) (v_kind v2) = Some k"
    and n: "cast_value (v_kind v2) k (getLlvmValue v2) = int n" "n < llvm_width k"
  obtains v where "binaryOperator L BinOp_Shr v1 v2 = Inr v" and "v_kind v = k" and "value_ok v"
    and "\<And>i. i + n < llvm_width k \<Longrightarrow>
      bit (getLlvmValue v) i = bit (cast_value (v_kind v1) k (getLlvmValue v1)) (i + n)"
proof -
  have k': "k \<in> {Int32, Int32_u, Int64, Int64_u}"
    using arithmetic_type_cases [OF value_kind [OF ok(1)] value_kind [OF ok(2)]] k by (metis option.inject)
  note wide = wide_kind [OF k']
  obtain w1 w2 where w: "cast_both L v1 v2 k = Inr (w1, w2)" "value_ok w1" "value_ok w2" "v_kind w1 = k" "v_kind w2 = k"
    "getLlvmValue w1 = cast_value (v_kind v1) k (getLlvmValue v1)"
    "getLlvmValue w2 = cast_value (v_kind v2) k (getLlvmValue v2)"
    by (rule cast_both_total [OF L ok wide(1,2)])
  have op: "binaryOperator L BinOp_Shr v1 v2 = apply_op L BinOp_Shr k w1 w2"
    using integer_plain [OF value_kind [OF ok(1)]] integer_plain [OF value_kind [OF ok(2)]] k w(1) wide
    by (simp add: binaryOperator_def)
  show ?thesis
  proof (cases "\<exists>bs cs. w1 = ConstV k bs \<and> w2 = ConstV k cs")
    case True
    then obtain bs cs where v: "w1 = ConstV k bs" "w2 = ConstV k cs" by blast
    note val = get_int_value [OF w(2) [unfolded v] k'] get_int_value [OF w(3) [unfolded v] k']
    have a: "getLlvmValue (ConstV k bs) = cast_value (v_kind v1) k (getLlvmValue v1)"
      and b: "getLlvmValue (ConstV k cs) = int n" using w(6,7) v n by simp_all
    show ?thesis
    proof (cases "k \<in> {Int32, Int32_u}")
      case True
      then have len: "LENGTH(32) = llvm_width k" using wide(6) by simp
      obtain r where r: "fold_op BinOp_Shr k bs cs = Inr r" "value_ok r" "v_kind r = k"
        "\<And>i. i + n < llvm_width k \<Longrightarrow> bit (getLlvmValue r) i = bit (uint (getInt32 bs)) (i + n)"
        using shr_word_bits [OF k' len val(3) [OF True, unfolded b] n(2), of "getInt32 bs" "is_unsigned k"] True
        unfolding fold_op_def Let_def by (metis (no_types, lifting))
      show ?thesis by (rule that [of r]) (use r op v val(1) [OF True] a in simp_all)
    next
      case False
      then have len: "LENGTH(64) = llvm_width k" using wide(6) by simp
      obtain r where r: "fold_op BinOp_Shr k bs cs = Inr r" "value_ok r" "v_kind r = k"
        "\<And>i. i + n < llvm_width k \<Longrightarrow> bit (getLlvmValue r) i = bit (uint (getInt64 bs)) (i + n)"
        using shr_word_bits [OF k' len val(4) [OF False, unfolded b] n(2), of "getInt64 bs" "is_unsigned k"] False
        unfolding fold_op_def Let_def by (metis (no_types, lifting))
      show ?thesis by (rule that [of r]) (use r op v val(2) [OF False] a in simp_all)
    qed
  next
    case False
    then have emit: "apply_op L BinOp_Shr k w1 w2 = emit_op L BinOp_Shr k (getLlvmValue w1) (getLlvmValue w2)"
      using w(4,5) by (cases w1; cases w2) auto
    have pos: "0 < llvm_width k" using wide by simp
    have reg: "reg_ok (llvm_width k) (getLlvmValue w1)" "reg_ok (llvm_width k) (getLlvmValue w2)"
      using value_reg_ok [OF w(2)] value_reg_ok [OF w(3)] w(4,5) by simp_all
    have result: "apply_op L BinOp_Shr k w1 w2 = Inr (RegV k (drop_bit n (getLlvmValue w1)))"
      using llvm_okD(1) [OF L pos reg] n w(7) unfolding emit by (simp add: emit_op_def)
    then have "value_ok (RegV k (drop_bit n (getLlvmValue w1)))"
      using apply_op_typed [OF L k' w(2-5), of BinOp_Shr] by (simp add: typed_def)
    then show ?thesis
      by (intro that [of "RegV k (drop_bit n (getLlvmValue w1))"])
         (simp_all add: op result w(6) bit_drop_bit_eq add.commute)
  qed
qed

section \<open>The type of the masks\<close>

text \<open>The integer kinds a field can have as its type.\<close>

definition int_base :: "prim_kind \<Rightarrow> bool" where
  "int_base k \<longleftrightarrow> is_integer k \<and> \<not> is_bool k"

lemma bf_type_facts:
  assumes "int_base k"
  shows "bf_type k \<in> {Int32, Int32_u, Int64, Int64_u}" "is_unsigned (bf_type k)" "bf_type k \<noteq> Bool1"
    "arithmetic_type k (bf_type k) = Some (bf_type k)" "arithmetic_type (bf_type k) (bf_type k) = Some (bf_type k)"
    "getArithmeticOperatorResultType (PrimOperand (bf_type k)) = Some (bf_type k)"
    "llvm_width k \<le> llvm_width (bf_type k)" "0 < llvm_width k" "llvm_width (bf_type k) \<le> 64"
  using assms by (auto simp: int_base_def integer_kinds is_bool_def bf_type_def is_unsigned_def
      arithmetic_type_def less_prim_kind_def llvm_width_def)

lemma createConst_bits:
  assumes "k \<in> {Int32, Int32_u, Int64, Int64_u}"
  shows "value_ok (createConst n k)" and "v_kind (createConst n k) = k"
    and "getLlvmValue (createConst n k) = take_bit (llvm_width k) n"
proof -
  show ok: "value_ok (createConst n k)" using wide_kind [OF assms] by (simp add: createConst_def)
  show "v_kind (createConst n k) = k" by (simp add: createConst_def)
  have "k \<noteq> Bool1" using assms by auto
  then show "getLlvmValue (createConst n k) = take_bit (llvm_width k) n"
    using const_value [OF ok [unfolded createConst_def]] by (simp add: createConst_def bytes_int_bytes llvm_width_def)
qed

lemma cast_same:
  assumes "is_unsigned k" and "reg_ok (llvm_width k) a"
  shows "cast_value k k a = a"
  using assms by (simp add: cast_value_def reg_ok_take)

lemma cast_low_bits:
  assumes "int_base k" and "i < llvm_width k" and "llvm_width k \<le> llvm_width k'"
  shows "bit (cast_value k k' a) i = bit a i"
proof (cases "i = llvm_width k - 1")
  case True
  then show ?thesis using assms by (auto simp: cast_value_def bit_take_bit_iff sreg_def bit_signed_take_bit_iff)
next
  case False
  then have "i < llvm_width k - 1" using assms by simp
  then show ?thesis
    using assms by (auto simp: cast_value_def bit_take_bit_iff sreg_def bit_signed_take_bit_iff min_def)
qed

section \<open>Reading a field\<close>

text \<open>The number a field of \<open>c\<close> bits at offset \<open>ofs\<close> holds, in the width of its type.\<close>

definition field_value :: "prim_kind \<Rightarrow> nat \<Rightarrow> nat \<Rightarrow> int \<Rightarrow> int" where
  "field_value base ofs c a =
     (if is_unsigned base then take_bit c (drop_bit ofs a)
      else take_bit (llvm_width base) (signed_take_bit (c - 1) (drop_bit ofs a)))"

lemma override_same: "v_kind v = k \<Longrightarrow> overrideType v k = v"
  by (cases v) (simp_all add: overrideType_def)

text \<open>On two values of the unsigned type of the masks, an operator is its LLVM counterpart.\<close>

lemma mask_op:
  assumes L: "llvm_ok L" and base: "int_base base"
    and v: "value_ok v1" "value_ok v2" "v_kind v1 = bf_type base" "v_kind v2 = bf_type base"
    and op: "op \<noteq> BinOp_Shr"
    and r: "ref_bin (llvmOpInt op True) (llvm_width (bf_type base)) (getLlvmValue v1) (getLlvmValue v2) = Some r"
  obtains v where "binaryOperator L op v1 v2 = Inr v" and "v_kind v = bf_type base" and "value_ok v"
    and "getLlvmValue v = r"
proof -
  note bf = bf_type_facts [OF base]
  have kind: "arithmetic_type (v_kind v1) (v_kind v2) = Some (bf_type base)" using v bf by simp
  have same: "cast_value (v_kind v1) (bf_type base) (getLlvmValue v1) = getLlvmValue v1"
    "cast_value (v_kind v2) (bf_type base) (getLlvmValue v2) = getLlvmValue v2"
    using cast_same [OF bf(2)] value_reg_ok [OF v(1)] value_reg_ok [OF v(2)] v by simp_all
  have r': "ref_bin (llvmOpInt op (is_unsigned (bf_type base))) (llvm_width (bf_type base))
      (cast_value (v_kind v1) (bf_type base) (getLlvmValue v1))
      (cast_value (v_kind v2) (bf_type base) (getLlvmValue v2)) = Some r"
    using r same bf(2) by simp
  show ?thesis by (rule binaryOperator_value [OF L v(1,2) op kind r']) (rule that)
qed

lemma offset_fits: "n < w \<Longrightarrow> take_bit w (int n) = int n"
proof -
  assume "n < w"
  then have "n < 2 ^ w" using less_exp [of n] power_increasing [of n w "2 :: nat"] by linarith
  then show ?thesis by (intro take_bit_int_eq_self) (simp_all add: of_nat_less_numeral_power_cancel_iff)
qed

lemma take_bit_ones: "c \<le> w \<Longrightarrow> take_bit w (2 ^ c - 1) = (2 ^ c - 1 :: int)"
proof -
  assume "c \<le> w"
  then have "(2 :: int) ^ c \<le> 2 ^ w" by (intro power_increasing) simp_all
  then show ?thesis by (intro take_bit_int_eq_self) (simp, linarith)
qed

lemma extend_sign_bits:
  fixes f :: int
  assumes f: "take_bit c f = f" and c: "0 < c" "c \<le> w"
  shows "f OR take_bit w (NOT (take_bit w ((2 ^ (c - 1) AND f) - 1))) = take_bit w (signed_take_bit (c - 1) f)"
proof (cases "bit f (c - 1)")
  case True
  have "2 ^ (c - 1) AND f = 2 ^ (c - 1)" using True by (intro bit_eqI) (auto simp: bit_simps)
  then have "take_bit w ((2 ^ (c - 1) AND f) - 1) = mask (c - 1)"
    using c take_bit_ones [of "c - 1" w] by (simp add: mask_eq_exp_minus_1)
  moreover have "bit f i \<Longrightarrow> i < w" for i
    using arg_cong [OF f, of "\<lambda>x. bit x i"] c by (auto simp: bit_take_bit_iff)
  moreover have "bit f i \<Longrightarrow> i \<le> c - 1" for i
    using arg_cong [OF f, of "\<lambda>x. bit x i"] by (auto simp: bit_take_bit_iff)
  ultimately show ?thesis using c True
    by (intro bit_eqI) (auto simp: bit_simps min_def not_le)
next
  case False
  have "2 ^ (c - 1) AND f = 0" using False by (intro bit_eqI) (auto simp: bit_simps)
  moreover have "take_bit w (NOT (take_bit w (- 1))) = (0 :: int)" by (intro bit_eqI) (auto simp: bit_simps)
  moreover have "bit f i \<Longrightarrow> i < c" for i using arg_cong [OF f, of "\<lambda>x. bit x i"] by (auto simp: bit_take_bit_iff)
  ultimately show ?thesis using c False
    by (intro bit_eqI) (auto simp: bit_simps min_def not_le, metis Suc_pred le_less_Suc_eq)
qed

lemma extendSign_value:
  assumes L: "llvm_ok L" and base: "int_base base" and v: "value_ok v" "v_kind v = bf_type base"
    and f: "take_bit c (getLlvmValue v) = getLlvmValue v" and c: "0 < c" "c \<le> llvm_width base"
  obtains r where "extendSign L (bf_type base) c v = Inr r" and "v_kind r = bf_type base" and "value_ok r"
    and "getLlvmValue r = take_bit (llvm_width (bf_type base)) (signed_take_bit (c - 1) (getLlvmValue v))"
proof -
  let ?k = "bf_type base" and ?f = "getLlvmValue v"
  let ?w = "llvm_width ?k"
  note bf = bf_type_facts [OF base]
  note const = createConst_bits [OF bf(1)]
  have w: "c \<le> ?w" "0 < ?w" using c bf(7,8) by simp_all
  have "c - 1 < ?w" using w c by simp
  then have one: "take_bit ?w (2 ^ (c - 1)) = (2 :: int) ^ (c - 1)" by (simp add: take_bit_int_eq_self)
  obtain s where s: "binaryOperator L BinOp_BwAnd (createConst (2 ^ (c - 1)) ?k) v = Inr s"
    "v_kind s = ?k" "value_ok s" "getLlvmValue s = 2 ^ (c - 1) AND ?f"
    by (rule mask_op [OF L base const(1) v(1) const(2) v(2), of BinOp_BwAnd "2 ^ (c - 1)" "2 ^ (c - 1) AND ?f"])
       (simp_all only: const(3) one llvmOpInt.simps ref_bin.simps bin_op.distinct not_False_eq_True)
  obtain t where t: "binaryOperator L BinOp_Sub s (createConst 1 ?k) = Inr t"
    "v_kind t = ?k" "value_ok t" "getLlvmValue t = take_bit ?w ((2 ^ (c - 1) AND ?f) - 1)"
    by (rule mask_op [OF L base s(3) const(1) [of 1] s(2) const(2), of BinOp_Sub])
       (use w(2) in \<open>simp_all add: const(3) s(4)\<close>)
  have pos: "0 < ?w" by (rule w(2))
  obtain n where n: "unaryOperator L UnOp_BwNot t = Inr n" "v_kind n = ?k" "value_ok n"
    "getLlvmValue n = take_bit ?w (NOT (getLlvmValue t))"
  proof -
    have plain: "?k \<noteq> Variant" "\<not> is_fp ?k" using wide_kind [OF bf(1)] by simp_all
    have un: "unaryOperator L UnOp_BwNot x = Inr (apply_un L UnOp_BwNot ?k x)" if "v_kind x = ?k" for x
      using that bf(6) plain by (simp add: unaryOperator_def cast_int_def)
    have "as_reg (apply_un L UnOp_BwNot ?k t) = apply_un L UnOp_BwNot ?k (as_reg t)"
      "value_ok (apply_un L UnOp_BwNot ?k t)"
      using apply_un_agrees [OF L bf(1) t(3,2), of UnOp_BwNot] by (simp_all add: agrees_def)
    moreover have "reg_ok ?w (getLlvmValue t)" using value_reg_ok [OF t(3)] t(2) by simp
    ultimately show ?thesis using that un [OF t(2)] llvm_okD(4) [OF L pos] by (auto simp: as_reg_def)
  qed
  obtain r where r: "binaryOperator L BinOp_BwOr v n = Inr r" "v_kind r = ?k" "value_ok r"
    "getLlvmValue r = ?f OR getLlvmValue n"
    by (rule mask_op [OF L base v(1) n(3) v(2) n(2), of BinOp_BwOr]) simp_all
  show ?thesis
  proof (rule that [of r])
    show "extendSign L ?k c v = Inr r" by (simp only: extendSign_def rbind_def s(1) t(1) n(1) r(1) sum.case)
    show "v_kind r = ?k" "value_ok r" by (rule r)+
    show "getLlvmValue r = take_bit ?w (signed_take_bit (c - 1) ?f)"
      unfolding r(4) n(4) t(4) by (rule extend_sign_bits [OF f c(1) w(1)])
  qed
qed

text \<open>Reading a bit field that lies within its storage unit, whether the unit is a constant or a
  run-time value, gives a value of the type of the field: its bits, zero-extended for an unsigned
  type and sign-extended otherwise.\<close>

lemma extract_value:
  assumes L: "llvm_ok L" and base: "int_base base" and v: "value_ok v" "v_kind v = base"
    and c: "0 < c" "ofs + c \<le> llvm_width base" "c < 64"
  obtains r where "extractBitField L v base ofs c = Inr r" and "v_kind r = base" and "value_ok r"
    and "getLlvmValue r = field_value base ofs c (getLlvmValue v)"
proof -
  let ?k = "bf_type base" and ?a = "getLlvmValue v"
  let ?w = "llvm_width ?k" and ?f = "take_bit c (drop_bit ofs ?a)"
  note bf = bf_type_facts [OF base]
  note const = createConst_bits [OF bf(1)]
  have w: "c \<le> ?w" "ofs < ?w" "c \<le> llvm_width base" using c bf(7) by simp_all
  have ofs: "cast_value ?k ?k (getLlvmValue (createConst (int ofs) ?k)) = int ofs"
    using bf(2) offset_fits [OF w(2)] by (simp add: const(3) cast_value_def)
  have kind: "arithmetic_type (v_kind v) (v_kind (createConst (int ofs) ?k)) = Some ?k"
    using v(2) bf(4) const(2) by simp
  obtain s where s: "binaryOperator L BinOp_Shr v (createConst (int ofs) ?k) = Inr s" "v_kind s = ?k" "value_ok s"
    and bits: "\<And>i. i + ofs < ?w \<Longrightarrow> bit (getLlvmValue s) i = bit (cast_value base ?k ?a) (i + ofs)"
    by (rule shr_bits [OF L v(1) const(1) kind]) (use ofs w(2) v(2) const(2) in auto)
  have field: "getLlvmValue s AND (2 ^ c - 1) = ?f"
  proof (rule bit_eqI)
    fix i
    have "bit (getLlvmValue s) i = bit ?a (i + ofs)" if "i < c"
      using that bits [of i] cast_low_bits [OF base, of "i + ofs" ?k ?a] c bf(7) by simp
    then show "bit (getLlvmValue s AND (2 ^ c - 1)) i = bit ?f i"
      by (auto simp: bit_simps add.commute simp flip: mask_eq_exp_minus_1)
  qed
  obtain f where f: "binaryOperator L BinOp_BwAnd s (createConst (2 ^ c - 1) ?k) = Inr f"
    "v_kind f = ?k" "value_ok f" "getLlvmValue f = ?f"
    by (rule mask_op [OF L base s(3) const(1) [of "2 ^ c - 1"] s(2) const(2), of BinOp_BwAnd])
       (simp_all add: const(3) take_bit_ones w(1) field)
  define g where "g = (if is_unsigned base then ?f else take_bit ?w (signed_take_bit (c - 1) ?f))"
  obtain e where e: "(if is_unsigned base then Inr f else extendSign L ?k c f) = Inr e"
    "v_kind e = ?k" "value_ok e" "getLlvmValue e = g"
  proof (cases "is_unsigned base")
    case True
    then show ?thesis using that f by (simp add: g_def)
  next
    case False
    show ?thesis
      by (rule extendSign_value [OF L base f(3,2) _ c(1) w(3)]) (use False f(4) that in \<open>simp_all add: g_def\<close>)
  qed
  obtain r where r: "cast_int L e base = Inr r" "v_kind r = base" "value_ok r"
    "getLlvmValue r = cast_value ?k base g"
    by (rule cast_int_total [OF L e(3), of base]) (use base e(2,4) that in \<open>simp_all add: int_base_def\<close>)
  have "cast_value ?k base g = field_value base ofs c ?a"
  proof -
    have unsigned: "cast_value ?k base g = take_bit (llvm_width base) g" using bf(2) by (simp add: cast_value_def)
    show ?thesis
    proof (cases "is_unsigned base")
      case True
      then show ?thesis using w(3) unfolding unsigned by (simp add: g_def field_value_def take_bit_take_bit min_def)
    next
      case False
      have "signed_take_bit (c - 1) ?f = signed_take_bit (c - 1) (drop_bit ofs ?a)"
        using c(1) by (intro bit_eqI) (auto simp: bit_simps min_def)
      then show ?thesis using False bf(7) unfolding unsigned
        by (simp add: g_def field_value_def take_bit_take_bit min_absorb1)
    qed
  qed
  moreover have "extractBitField L v base ofs c = Inr r"
    using c(3) s(1) f(1) e(1) r(1) base
    by (simp add: extractBitField_def Let_def rbind_def override_same [OF v(2)] castOperator_def int_base_def)
  ultimately show ?thesis using that r by simp
qed

section \<open>Writing a field\<close>

definition merged :: "nat \<Rightarrow> nat \<Rightarrow> nat \<Rightarrow> int \<Rightarrow> int \<Rightarrow> int" where
  "merged w ofs c x sh = take_bit w (push_bit ofs x OR (sh AND NOT (push_bit ofs (2 ^ c - 1))))"

lemma merge_value:
  assumes L: "llvm_ok L" and base: "int_base base" and v: "value_ok v" "v_kind v = base"
    and sh: "value_ok sh" "v_kind sh = base" and c: "0 < c" "ofs + c \<le> llvm_width base" "c < 64"
  obtains r where "mergeBitField L v sh base ofs c = Inr r" and "v_kind r = base" and "value_ok r"
    and "getLlvmValue r = merged (llvm_width base) ofs c (getLlvmValue v) (getLlvmValue sh)"
proof -
  let ?k = "bf_type base" and ?x = "getLlvmValue v" and ?s = "getLlvmValue sh"
  let ?w = "llvm_width ?k" and ?mask = "push_bit ofs (2 ^ c - 1) :: int"
  note bf = bf_type_facts [OF base]
  note const = createConst_bits [OF bf(1)]
  have w: "ofs < ?w" using c bf(7) by simp
  have ofs: "take_bit ?w (int ofs) = int ofs" by (rule offset_fits [OF w])
  have unsigned: "cast_value ?k ?k a = take_bit ?w a" for a using bf(2) by (simp add: cast_value_def)
  have up: "arithmetic_type (v_kind u) (v_kind (createConst n ?k)) = Some ?k" if "v_kind u = base" for u n
    using that bf(4) const(2) by simp
  obtain p where p: "binaryOperator L BinOp_Shl v (createConst (int ofs) ?k) = Inr p" "v_kind p = ?k" "value_ok p"
    "getLlvmValue p = take_bit ?w (push_bit ofs (cast_value base ?k ?x))"
    by (rule binaryOperator_value [OF L v(1) const(1) [of "int ofs"] _ up [OF v(2)], of BinOp_Shl])
       (use ofs w v(2) that in \<open>simp_all add: const(2,3) unsigned\<close>)
  obtain q where q: "binaryOperator L BinOp_BwAnd p (createConst ?mask ?k) = Inr q"
    by (rule mask_op [OF L base p(3) const(1) [of ?mask] p(2) const(2), of BinOp_BwAnd]) simp_all
  obtain t where t: "binaryOperator L BinOp_BwAnd sh (createConst (NOT ?mask) ?k) = Inr t" "v_kind t = ?k"
    "value_ok t" "getLlvmValue t = cast_value base ?k ?s AND take_bit ?w (NOT ?mask)"
    by (rule binaryOperator_value [OF L sh(1) const(1) [of "NOT ?mask"] _ up [OF sh(2)], of BinOp_BwAnd])
       (use sh(2) that in \<open>simp_all add: const(2,3) unsigned\<close>)
  obtain u where u: "binaryOperator L BinOp_BwOr p t = Inr u" "v_kind u = ?k" "value_ok u"
    "getLlvmValue u = getLlvmValue p OR getLlvmValue t"
    by (rule mask_op [OF L base p(3) t(3) p(2) t(2), of BinOp_BwOr]) simp_all
  obtain r where r: "cast_int L u base = Inr r" "v_kind r = base" "value_ok r"
    "getLlvmValue r = cast_value ?k base (getLlvmValue u)"
    by (rule cast_int_total [OF L u(3), of base]) (use base u(2) that in \<open>simp_all add: int_base_def\<close>)
  have "cast_value ?k base (getLlvmValue u) = merged (llvm_width base) ofs c ?x ?s"
  proof (rule bit_eqI)
    fix i
    have low: "bit (cast_value base ?k a) j = bit a j" if "j < llvm_width base" for a j
      using cast_low_bits [OF base that bf(7)] .
    show "bit (cast_value ?k base (getLlvmValue u)) i = bit (merged (llvm_width base) ofs c ?x ?s) i"
    proof (cases "i < llvm_width base")
      case True
      then show ?thesis using low [of i] low [of "i - ofs"] bf(2,7)
        by (auto simp: cast_value_def u(4) p(4) t(4) merged_def bit_simps)
    next
      case False
      then show ?thesis using bf(2) by (simp add: cast_value_def merged_def bit_simps)
    qed
  qed
  moreover have "mergeBitField L v sh base ofs c = Inr r"
    using c(3) p(1) q t(1) u(1) r(1) base
    by (simp add: mergeBitField_def Let_def rbind_def override_same [OF v(2)] override_same [OF sh(2)]
        castOperator_def int_base_def)
  ultimately show ?thesis using that r by simp
qed

section \<open>The properties\<close>

text \<open>The numbers a field of \<open>c\<close> bits can hold, in the width of its type.\<close>

definition in_field :: "prim_kind \<Rightarrow> nat \<Rightarrow> int \<Rightarrow> bool" where
  "in_field base c x \<longleftrightarrow>
     (if is_unsigned base then x < 2 ^ c
      else - (2 ^ (c - 1)) \<le> sreg (llvm_width base) x \<and> sreg (llvm_width base) x < 2 ^ (c - 1))"

lemma field_value_range:
  assumes "reg_ok (llvm_width base) x" and "0 < llvm_width base" and "0 < c" and "in_field base c x"
  shows "field_value base 0 c x = x"
proof (cases "is_unsigned base")
  case True
  then show ?thesis using assms by (simp add: field_value_def in_field_def take_bit_int_eq_self reg_ok_def)
next
  case False
  let ?w = "llvm_width base"
  have x: "take_bit ?w x = x" using assms(1) by (simp add: reg_ok_take)
  have s: "signed_take_bit (c - 1) (sreg ?w x) = sreg ?w x"
    using assms(4) False by (simp add: in_field_def signed_take_bit_int_eq_self_iff)
  have "take_bit ?w (sreg ?w x) = x" using sreg_cong [of ?w ?w x] assms(2) x by simp
  moreover have "take_bit ?w (signed_take_bit (c - 1) x) = take_bit ?w (signed_take_bit (c - 1) (sreg ?w x))"
  proof (cases "c - 1 \<le> ?w - 1")
    case True
    then have "signed_take_bit (c - 1) (sreg ?w x) = signed_take_bit (c - 1) x"
      by (intro bit_eqI) (simp add: sreg_def bit_signed_take_bit_iff min_def)
    then show ?thesis by simp
  next
    case False
    have "bit (sreg ?w x) i = bit x i" if "i < ?w" for i
    proof -
      have "min i (?w - 1) = i" using that by simp
      then show ?thesis by (simp add: sreg_def bit_signed_take_bit_iff)
    qed
    then show ?thesis using False
      by (intro bit_eqI) (auto simp: bit_take_bit_iff bit_signed_take_bit_iff min_def)
  qed
  ultimately show ?thesis using s False by (simp add: field_value_def)
qed

lemma field_of_merged:
  assumes "0 < c" and "ofs + c \<le> llvm_width base"
  shows "field_value base ofs c (merged (llvm_width base) ofs c x sh) = field_value base 0 c x"
proof -
  have bits: "bit (drop_bit ofs (merged (llvm_width base) ofs c x sh)) i = bit x i" if "i < c" for i
    using that assms by (auto simp: merged_def bit_simps simp flip: mask_eq_exp_minus_1)
  have unsigned: "take_bit c (drop_bit ofs (merged (llvm_width base) ofs c x sh)) = take_bit c x"
    by (rule bit_eqI) (use bits in \<open>auto simp: bit_take_bit_iff\<close>)
  have signed: "signed_take_bit (c - 1) (drop_bit ofs (merged (llvm_width base) ofs c x sh)) = signed_take_bit (c - 1) x"
    by (rule bit_eqI) (use bits assms(1) in \<open>simp add: bit_signed_take_bit_iff\<close>)
  show ?thesis by (simp only: field_value_def unsigned signed drop_bit_0 id_apply)
qed

text \<open>C20: storing into a bit field of less than 64 bits and reading it back. Whatever the unit held,
  and whether the value and the unit are constants or run-time values, the field then reads as the
  value that was stored if the field can hold it, and as its low bits, extended, if not. (A field of 64
  bits, which is legal, is left out: its mask is a shift by the width of the word.)\<close>

theorem bit_field_roundtrip:
  assumes L: "llvm_ok L" and base: "int_base base" and v: "value_ok v" "v_kind v = base"
    and sh: "value_ok sh" "v_kind sh = base" and c: "0 < c" "ofs + c \<le> llvm_width base" "c < 64"
  shows "\<exists>m r. mergeBitField L v sh base ofs c = Inr m \<and> extractBitField L m base ofs c = Inr r \<and>
    v_kind r = base \<and> value_ok r \<and> getLlvmValue r = field_value base 0 c (getLlvmValue v) \<and>
    (in_field base c (getLlvmValue v) \<longrightarrow> getLlvmValue r = getLlvmValue v)"
proof -
  obtain m where m: "mergeBitField L v sh base ofs c = Inr m" "v_kind m = base" "value_ok m"
    "getLlvmValue m = merged (llvm_width base) ofs c (getLlvmValue v) (getLlvmValue sh)"
    by (rule merge_value [OF L base v sh c])
  obtain r where r: "extractBitField L m base ofs c = Inr r" "v_kind r = base" "value_ok r"
    "getLlvmValue r = field_value base ofs c (getLlvmValue m)"
    by (rule extract_value [OF L base m(3,2) c])
  have "reg_ok (llvm_width base) (getLlvmValue v)" using value_reg_ok [OF v(1)] v(2) by simp
  then show ?thesis
    using m(1) r field_of_merged [OF c(1,2)] field_value_range [OF _ bf_type_facts(8) [OF base] c(1)] m(4)
    by simp
qed

lemma less_power_bits:
  fixes x :: int
  shows "take_bit w x < 2 ^ c \<longleftrightarrow> (\<forall>i. c \<le> i \<longrightarrow> i < w \<longrightarrow> \<not> bit x i)"
proof
  assume "take_bit w x < 2 ^ c"
  then have "take_bit c (take_bit w x) = take_bit w x" by (intro take_bit_int_eq_self) simp_all
  then have eq: "bit (take_bit c (take_bit w x)) i = bit (take_bit w x) i" for i by simp
  show "\<forall>i. c \<le> i \<longrightarrow> i < w \<longrightarrow> \<not> bit x i"
  proof (intro allI impI)
    fix i assume "c \<le> i" "i < w"
    then show "\<not> bit x i" using eq [of i] by (simp add: bit_take_bit_iff)
  qed
next
  assume high: "\<forall>i. c \<le> i \<longrightarrow> i < w \<longrightarrow> \<not> bit x i"
  have "take_bit w x = take_bit c (take_bit w x)"
    by (rule bit_eqI) (use high in \<open>auto simp: bit_take_bit_iff not_less [symmetric]\<close>)
  then show "take_bit w x < 2 ^ c" by (rule ord_eq_less_trans) (rule take_bit_int_less_exp)
qed

text \<open>The other bits of the unit.\<close>

lemma merged_outside:
  assumes "i < w" and "i \<notin> {ofs..<ofs + c}"
  shows "bit (merged w ofs c x sh) i \<longleftrightarrow> bit sh i \<or> ofs + c \<le> i \<and> bit x (i - ofs)"
  using assms by (auto simp: merged_def bit_simps simp flip: mask_eq_exp_minus_1)

text \<open>C22: Storing into a bit field leaves every other bit of its unit as it was, for every content of
  the unit, exactly if the stored value has no bits above the field (within the unit). The code
  does not enforce that: it computes the masked value, but merges the unmasked one.\<close>

theorem merge_neighbours:
  assumes L: "llvm_ok L" and base: "int_base base" and v: "value_ok v" "v_kind v = base"
    and c: "0 < c" "ofs + c \<le> llvm_width base" "c < 64"
  shows "(\<forall>sh. value_ok sh \<longrightarrow> v_kind sh = base \<longrightarrow>
      (\<exists>m. mergeBitField L v sh base ofs c = Inr m \<and>
        (\<forall>i<llvm_width base. i \<notin> {ofs..<ofs + c} \<longrightarrow> bit (getLlvmValue m) i = bit (getLlvmValue sh) i))) \<longleftrightarrow>
    take_bit (llvm_width base - ofs) (getLlvmValue v) < 2 ^ c"
proof -
  let ?w = "llvm_width base" and ?x = "getLlvmValue v"
  have fits: "take_bit (?w - ofs) ?x < 2 ^ c \<longleftrightarrow> (\<forall>i. c \<le> i \<longrightarrow> i < ?w - ofs \<longrightarrow> \<not> bit ?x i)"
    by (rule less_power_bits)
  have merge: "(\<exists>m. mergeBitField L v sh base ofs c = Inr m \<and>
        (\<forall>i<?w. i \<notin> {ofs..<ofs + c} \<longrightarrow> bit (getLlvmValue m) i = bit (getLlvmValue sh) i)) \<longleftrightarrow>
      (\<forall>i<?w. ofs + c \<le> i \<longrightarrow> bit ?x (i - ofs) \<longrightarrow> bit (getLlvmValue sh) i)"
    if sh: "value_ok sh" "v_kind sh = base" for sh
  proof -
    obtain m where m: "mergeBitField L v sh base ofs c = Inr m"
      "getLlvmValue m = merged ?w ofs c ?x (getLlvmValue sh)"
      by (rule merge_value [OF L base v sh c])
    show ?thesis using m(1) by (auto simp: m(2) merged_outside)
  qed
  have zero: "value_ok (RegV base 0)" using base by (simp add: int_base_def reg_ok_def)
  show ?thesis
  proof
    assume all: "\<forall>sh. value_ok sh \<longrightarrow> v_kind sh = base \<longrightarrow>
      (\<exists>m. mergeBitField L v sh base ofs c = Inr m \<and>
        (\<forall>i<?w. i \<notin> {ofs..<ofs + c} \<longrightarrow> bit (getLlvmValue m) i = bit (getLlvmValue sh) i))"
    have kind: "v_kind (RegV base 0) = base" by simp
    have "\<forall>i<?w. ofs + c \<le> i \<longrightarrow> bit ?x (i - ofs) \<longrightarrow> bit (getLlvmValue (RegV base 0)) i"
      by (rule iffD1 [OF merge [OF zero kind]]) (rule all [rule_format, OF zero kind])
    then have none: "\<forall>i<?w. ofs + c \<le> i \<longrightarrow> \<not> bit ?x (i - ofs)" by simp
    have "\<not> bit ?x i" if "c \<le> i" "i < ?w - ofs" for i using none that by (auto dest!: spec [of _ "i + ofs"])
    then show "take_bit (?w - ofs) ?x < 2 ^ c" unfolding fits by blast
  next
    assume "take_bit (?w - ofs) ?x < 2 ^ c"
    then have none: "\<forall>i<?w. ofs + c \<le> i \<longrightarrow> \<not> bit ?x (i - ofs)" unfolding fits by auto
    then show "\<forall>sh. value_ok sh \<longrightarrow> v_kind sh = base \<longrightarrow>
      (\<exists>m. mergeBitField L v sh base ofs c = Inr m \<and>
        (\<forall>i<?w. i \<notin> {ofs..<ofs + c} \<longrightarrow> bit (getLlvmValue m) i = bit (getLlvmValue sh) i))"
      using merge by blast
  qed
qed

section \<open>Witnesses\<close>

lemma bf_example_ok:
  "int_base Int32" "value_ok (ConstV Int32 [255, 255, 255, 255])" "value_ok (RegV Int32 48)"
  "value_ok (ConstV Int32 [0, 0, 0, 0])"
  by (simp_all add: int_base_def is_integer_def less_eq_prim_kind_def is_bool_def reg_ok_def llvm_width_def)

text \<open>-1 stored into the low four bits of a unit.\<close>

theorem bit_field_roundtrip_witness:
  "\<exists>m r. mergeBitField llvm_ref (ConstV Int32 [255, 255, 255, 255]) (RegV Int32 48) Int32 0 4 = Inr m \<and>
    extractBitField llvm_ref m Int32 0 4 = Inr r \<and> getLlvmValue r = 4294967295"
proof -
  have x: "getLlvmValue (ConstV Int32 [255, 255, 255, 255]) = 4294967295" by (simp add: getLlvmConst_def)
  have "sreg 32 4294967295 = - 1" by (simp add: sreg_def signed_take_bit_eq_take_bit_minus take_bit_eq_mod bit_iff_odd)
  then have "in_field Int32 4 4294967295" by (simp add: in_field_def is_unsigned_def llvm_width_def)
  then show ?thesis
    using bit_field_roundtrip [OF llvm_ref_ok bf_example_ok(1,2) _ bf_example_ok(3), of 4 0] x
    by (auto simp: llvm_width_def)
qed

text \<open>That store does not leave the neighbours alone: some unit is changed outside the field.\<close>

theorem merge_neighbours_witness:
  "\<not> (\<forall>sh. value_ok sh \<longrightarrow> v_kind sh = Int32 \<longrightarrow>
      (\<exists>m. mergeBitField llvm_ref (ConstV Int32 [255, 255, 255, 255]) sh Int32 0 4 = Inr m \<and>
        (\<forall>i<llvm_width Int32. i \<notin> {0..<0 + 4} \<longrightarrow> bit (getLlvmValue m) i = bit (getLlvmValue sh) i)))"
proof -
  have x: "getLlvmValue (ConstV Int32 [255, 255, 255, 255]) = 4294967295" by (simp add: getLlvmConst_def)
  show ?thesis
    using merge_neighbours [OF llvm_ref_ok bf_example_ok(1,2), of 4 0] x by (simp add: llvm_width_def)
qed

end
