(* ===== verification/PtrMemory.thy ===== *)
theory PtrMemory
  imports PtrThms BitFields
begin

text \<open>
  Loads and stores through data references (\<^verbatim>\<open>OperatorMgr::loadDataRef\<close> and \<^verbatim>\<open>storeDataRef\<close> in
  \<^verbatim>\<open>jnc_ct_OperatorMgr_DataRef.cpp\<close>) on a memory of bytes: the constness check, the range check of
  \<open>PtrOps\<close>, byte swapping, and the bit fields of \<open>BitFields\<close>. The theorems: a store changes nothing
  outside the range of the validator, a load returns what was stored, and what is not writable
  stays so along a chain of operators, except through the fields the table forgets.
\<close>

section \<open>Memory\<close>

type_synonym memory = "addr \<Rightarrow> 8 word"

definition load_bytes :: "memory \<Rightarrow> addr \<Rightarrow> nat \<Rightarrow> 8 word list" where
  "load_bytes m p n = map (\<lambda>i. m (p + of_nat i)) [0..<n]"

primrec store_bytes :: "memory \<Rightarrow> addr \<Rightarrow> 8 word list \<Rightarrow> memory" where
  "store_bytes m p [] = m"
| "store_bytes m p (b # bs) = (store_bytes m (p + 1) bs)(p := b)"

fun bit_offset :: "jty \<Rightarrow> nat" where
  "bit_offset (PtrT k r f bo bc t) = bo"
| "bit_offset t = 0"

fun bit_count :: "jty \<Rightarrow> nat" where
  "bit_count (PtrT k r f bo bc t) = bc"
| "bit_count t = 0"

definition swap_order :: "jty \<Rightarrow> nat \<Rightarrow> 8 word list \<Rightarrow> 8 word list" where
  "swap_order type n bs = (if ptr_flags type AND PtrTypeFlag_BigEndian \<noteq> 0 \<and> 2 \<le> n then rev bs else bs)"

definition is_bit_field :: "jty \<Rightarrow> bool" where
  "is_bit_field type \<longleftrightarrow> ptr_flags type AND PtrTypeFlag_BitField \<noteq> 0"

text \<open>The bytes of a register of a primitive kind, and the result of a bit field operator in bytes.\<close>

definition bytes_reg :: "prim_kind \<Rightarrow> 8 word list \<Rightarrow> jvalue" where
  "bytes_reg k bs = RegV k (bytes_int bs)"

definition result_bytes :: "prim_kind \<Rightarrow> op_result \<Rightarrow> ptr_error + 8 word list" where
  "result_bytes k r = (case r of Inl e \<Rightarrow> Inl CompileError | Inr v \<Rightarrow> Inr (int_bytes (prim_size k) (getLlvmValue v)))"

definition loadDataRef ::
  "llvm \<Rightarrow> bool \<Rightarrow> tenv \<Rightarrow> (nat \<Rightarrow> bool) \<Rightarrow> dval \<Rightarrow> memory \<Rightarrow> ptr_error + 8 word list" where
  "loadDataRef L unsafeRgn E bad opValue m =
     (let type = v_type opValue; n = target_size E opValue
      in case prepareDataPtr unsafeRgn E bad opValue of
           Inl e \<Rightarrow> Inl e
         | Inr p \<Rightarrow>
             (let bs = swap_order type n (load_bytes m p n)
              in if is_bit_field type then
                   (case getTargetType type of
                      PrimT k \<Rightarrow> result_bytes k (extractBitField L (bytes_reg k bs) k (bit_offset type) (bit_count type))
                    | t \<Rightarrow> Inl NotModelled)
                 else Inr bs))"

text \<open>\<open>src\<close> is the source value after its cast to the type of the location.\<close>

definition storeDataRef ::
  "llvm \<Rightarrow> bool \<Rightarrow> tenv \<Rightarrow> (nat \<Rightarrow> bool) \<Rightarrow> dval \<Rightarrow> 8 word list \<Rightarrow> memory \<Rightarrow> ptr_error + memory" where
  "storeDataRef L unsafeRgn E bad dstValue src m =
     (let type = v_type dstValue; n = target_size E dstValue
      in if ptr_flags type AND PtrTypeFlag_ConstKindMask \<noteq> 0 then Inl CompileError
         else
           (case prepareDataPtr unsafeRgn E bad dstValue of
              Inl e \<Rightarrow> Inl e
            | Inr p \<Rightarrow>
                (case (if is_bit_field type then
                        (case getTargetType type of
                           PrimT k \<Rightarrow>
                             result_bytes k (mergeBitField L (bytes_reg k src)
                               (bytes_reg k (swap_order type n (load_bytes m p n))) k (bit_offset type) (bit_count type))
                         | t \<Rightarrow> Inl NotModelled)
                      else Inr src) of
                   Inl e \<Rightarrow> Inl e
                 | Inr bs \<Rightarrow> Inr (store_bytes m p (swap_order type n bs)))))"

lemma load_bytes_length [simp]: "length (load_bytes m p n) = n"
  by (simp add: load_bytes_def)

lemma store_bytes_other: "(\<And>i. i < length bs \<Longrightarrow> q \<noteq> p + of_nat i) \<Longrightarrow> store_bytes m p bs q = m q"
proof (induction bs arbitrary: p)
  case (Cons b bs)
  have "q \<noteq> p" using Cons.prems [of 0] by simp
  moreover have "store_bytes m (p + 1) bs q = m q"
    by (rule Cons.IH) (use Cons.prems [of "Suc _"] in \<open>simp add: algebra_simps\<close>)
  ultimately show ?case by simp
qed simp

lemma store_bytes_at:
  "i < length bs \<Longrightarrow> length bs \<le> 2 ^ 64 \<Longrightarrow> store_bytes m p bs (p + of_nat i) = bs ! i"
proof (induction bs arbitrary: p i)
  case (Cons b bs)
  show ?case
  proof (cases i)
    case (Suc j)
    have "(of_nat i :: addr) \<noteq> 0"
      using Suc Cons.prems by (simp add: word_of_nat_eq_0_iff del: of_nat_Suc) (use nat_dvd_not_less in auto)
    then have "p + of_nat i \<noteq> p" by simp
    moreover have "store_bytes m (p + 1) bs (p + 1 + of_nat j) = bs ! j" using Cons Suc by simp
    ultimately show ?thesis using Suc by (simp add: algebra_simps)
  qed simp
qed simp

lemma load_store_bytes: "length bs \<le> 2 ^ 64 \<Longrightarrow> load_bytes (store_bytes m p bs) p (length bs) = bs"
  by (rule nth_equalityI) (simp_all add: load_bytes_def store_bytes_at)

lemma swap_order_twice [simp]: "swap_order t n (swap_order t n bs) = bs"
  by (simp add: swap_order_def)

lemma swap_order_length [simp]: "length (swap_order t n bs) = length bs"
  by (simp add: swap_order_def)

section \<open>Stores\<close>

lemma result_bytes_length: "result_bytes k r = Inr bs \<Longrightarrow> length bs = prim_size k"
  by (auto simp: result_bytes_def length_int_bytes split: sum.splits)

lemma storeDataRef_cases:
  assumes E: "tenv_ok E" and s: "storeDataRef L u E bad v src m = Inr m'" and len: "length src = target_size E v"
  obtains p bs where "prepareDataPtr u E bad v = Inr p" and "ptr_flags (v_type v) AND PtrTypeFlag_ConstKindMask = 0"
    and "m' = store_bytes m p bs" and "length bs = target_size E v"
proof -
  obtain p bs where p: "prepareDataPtr u E bad v = Inr p" "ptr_flags (v_type v) AND PtrTypeFlag_ConstKindMask = 0"
    and m': "m' = store_bytes m p (swap_order (v_type v) (target_size E v) bs)"
    and bs: "(if is_bit_field (v_type v) then (case getTargetType (v_type v) of
        PrimT k \<Rightarrow> result_bytes k (mergeBitField L (bytes_reg k src)
          (bytes_reg k (swap_order (v_type v) (target_size E v) (load_bytes m p (target_size E v)))) k
          (bit_offset (v_type v)) (bit_count (v_type v)))
      | t \<Rightarrow> Inl NotModelled) else Inr src) = Inr bs"
    using s by (fastforce simp: storeDataRef_def Let_def split: if_splits sum.splits)
  have "length bs = target_size E v"
    using bs len tenv_okD(5) [OF E] result_bytes_length
    by (auto simp: target_size_def split: if_splits jty.splits)
  then show ?thesis using that [OF p(1,2) m'] by simp
qed

text \<open>C6: a store, outside unsafe regions, through a pointer that a chain of operators derives from a
  good value with the validator \<open>vo\<close>, changes no byte outside the range of \<open>vo\<close>, whatever the type of
  the location (bit fields and big-endian locations rewrite their storage unit); and it happens only
  when that type has no kind of const. The conditions are those of \<open>pointer_access_in_bounds\<close>: no
  target of the chain ends beyond the address space, no cast to a thin pointer, no cast to a safe
  pointer that enlarges the target. The value stored has the type of the location already.\<close>

theorem store_stays_in_range:
  assumes E: "tenv_ok E" and v: "dval_ok E v" "validator_of E v = Inr vo" and ops: "chain_ok False E bad (ptr_op_ok E) ops v"
    and w: "eval_ptr False E bad ops v = Inr w" "ptr_fits E w" and len: "length src = target_size E w"
    and s: "storeDataRef L False E bad w src m = Inr m'"
  shows "\<exists>vd. vo = Some vd \<and> getConstKind (v_type w) = ConstKind_None \<and>
    (\<forall>q. m' q \<noteq> m q \<longrightarrow> unat (vd_rangeBegin vd) \<le> unat q \<and> unat q < unat (vd_rangeEnd vd))"
proof -
  obtain p bs where p: "prepareDataPtr False E bad w = Inr p" "ptr_flags (v_type w) AND PtrTypeFlag_ConstKindMask = 0"
    "m' = store_bytes m p bs" "length bs = target_size E w"
    by (rule storeDataRef_cases [OF E s len])
  obtain vd where vd: "vo = Some vd" "within vd p (target_size E w)"
    using access_within [OF eval_ptr_good [OF E v ops w(1)] w(2) p(1)] by (auto simp: target_size_def)
  have "unat (vd_rangeBegin vd) \<le> unat q \<and> unat q < unat (vd_rangeEnd vd)" if "m' q \<noteq> m q" for q
  proof -
    have "\<exists>i<length bs. q = p + of_nat i"
    proof (rule ccontr)
      assume "\<not> ?thesis"
      then have "store_bytes m p bs q = m q" by (intro store_bytes_other) blast
      then show False using that p(3) by simp
    qed
    then obtain i where i: "i < length bs" "q = p + of_nat i" by blast
    have "unat q = unat p + i"
      using i vd(2) p(4) addr_bound [of "vd_rangeEnd vd"] unat_add_fits [of p i] by (auto simp: within_def)
    then show ?thesis using i(1) vd(2) p(4) by (auto simp: within_def)
  qed
  then show ?thesis using vd(1) p(2) by (auto simp: getConstKind_def getConstKindFromFlags_def ConstKind_None_def)
qed

text \<open>C18: what a store puts through a reference, a load through the same reference reads. A location
  that is not a bit field gives the bytes that were stored, in either byte order; a bit field of less
  than 64 bits gives the value truncated to its bits, with the sign extended if its type is signed
  (\<open>field_value\<close>), whatever the other bits of the storage unit hold.\<close>

theorem store_load_roundtrip:
  assumes L: "llvm_ok L" and E: "tenv_ok E" and len: "length src = target_size E v" "target_size E v \<le> 2 ^ 64"
    and bf: "is_bit_field (v_type v) \<Longrightarrow> getTargetType (v_type v) = PrimT k \<and> int_base k \<and>
      0 < bit_count (v_type v) \<and> bit_count (v_type v) < 64 \<and>
      bit_offset (v_type v) + bit_count (v_type v) \<le> llvm_width k"
    and s: "storeDataRef L u E bad v src m = Inr m'"
  shows "loadDataRef L u E bad v m' =
    Inr (if is_bit_field (v_type v)
         then int_bytes (prim_size k) (field_value k 0 (bit_count (v_type v)) (bytes_int src))
         else src)"
proof (cases "is_bit_field (v_type v)")
  case False
  then obtain p where p: "prepareDataPtr u E bad v = Inr p"
    "m' = store_bytes m p (swap_order (v_type v) (target_size E v) src)"
    using s by (auto simp: storeDataRef_def Let_def split: if_splits sum.splits)
  have "load_bytes m' p (target_size E v) = swap_order (v_type v) (target_size E v) src"
    using load_store_bytes [of "swap_order (v_type v) (target_size E v) src" m p] len p(2) by simp
  then show ?thesis using False p(1) by (simp add: loadDataRef_def Let_def)
next
  case True
  let ?bo = "bit_offset (v_type v)" and ?bc = "bit_count (v_type v)" and ?n = "target_size E v"
  have k: "getTargetType (v_type v) = PrimT k" "int_base k" and c: "0 < ?bc" "?bo + ?bc \<le> llvm_width k" "?bc < 64"
    using bf [OF True] by auto
  have n: "?n = prim_size k" using tenv_okD(5) [OF E] by (simp add: target_size_def k(1))
  have reg: "value_ok (bytes_reg k bs)" "v_kind (bytes_reg k bs) = k" "getLlvmValue (bytes_reg k bs) = bytes_int bs"
    if "length bs = prim_size k" for bs
    using k(2) bytes_int_less [of bs] that
    by (auto simp: bytes_reg_def reg_ok_def llvm_width_def int_base_def is_bool_def)
  obtain p bs where p: "prepareDataPtr u E bad v = Inr p" "m' = store_bytes m p (swap_order (v_type v) ?n bs)"
    and bs: "result_bytes k (mergeBitField L (bytes_reg k src)
      (bytes_reg k (swap_order (v_type v) ?n (load_bytes m p ?n))) k ?bo ?bc) = Inr bs"
    using s True k(1) by (auto simp: storeDataRef_def Let_def split: if_splits sum.splits)
  define sh where "sh = bytes_reg k (swap_order (v_type v) ?n (load_bytes m p ?n))"
  have sh: "value_ok sh" "v_kind sh = k" unfolding sh_def using reg n by simp_all
  have src: "length src = prim_size k" using len(1) n by simp
  obtain r where r: "mergeBitField L (bytes_reg k src) sh k ?bo ?bc = Inr r" "value_ok r" "v_kind r = k"
    "getLlvmValue r = merged (llvm_width k) ?bo ?bc (bytes_int src) (getLlvmValue sh)"
    using merge_value [OF L k(2) reg(1,2) [OF src] sh c] reg(3) [OF src] by metis
  have bs': "bs = int_bytes (prim_size k) (getLlvmValue r)" using bs r(1) by (simp add: result_bytes_def sh_def)
  have ok: "reg_ok (8 * prim_size k) (getLlvmValue r)"
    using value_reg_ok [OF r(2)] r(3) k(2) by (auto simp: llvm_width_def int_base_def is_bool_def)
  have blen: "length bs = ?n" by (simp add: bs' n length_int_bytes)
  have val: "getLlvmValue (bytes_reg k bs) = getLlvmValue r"
    using ok [unfolded reg_ok_take] reg(3) [of bs] blen n by (simp add: bs' bytes_int_bytes)
  have load: "swap_order (v_type v) ?n (load_bytes m' p ?n) = bs"
    using load_store_bytes [of "swap_order (v_type v) ?n bs" m p] len(2) p(2) blen by simp
  obtain e where e: "extractBitField L (bytes_reg k bs) k ?bo ?bc = Inr e"
    "getLlvmValue e = field_value k ?bo ?bc (getLlvmValue (bytes_reg k bs))"
    using extract_value [OF L k(2) reg(1,2) c] blen n by metis
  have "field_value k ?bo ?bc (getLlvmValue (bytes_reg k bs)) = field_value k 0 ?bc (bytes_int src)"
    unfolding val r(4) by (rule field_of_merged [OF c(1,2)])
  then show ?thesis using True p(1) k(1) load e by (simp add: loadDataRef_def Let_def result_bytes_def)
qed

section \<open>Const\<close>

definition const_protected :: "jty \<Rightarrow> bool" where
  "const_protected t \<longleftrightarrow> getConstKind t \<in> {ConstKind_Const, ConstKind_MaybeConst, ConstKind_AutoConstX}"

lemma const_index_inj:
  assumes "const_index (getConstKindFromFlags f) = const_index (getConstKindFromFlags g)"
  shows "getConstKindFromFlags f = getConstKindFromFlags g"
proof -
  have shifted: "push_bit 16 (drop_bit 16 (getConstKindFromFlags h)) = getConstKindFromFlags h" for h
    by (rule bit_eqI) (auto simp: getConstKindFromFlags_def bit_simps)
  have "drop_bit 16 (getConstKindFromFlags f) = drop_bit 16 (getConstKindFromFlags g)"
    using assms unfolding const_index_def by (rule unsigned_word_eqI)
  then show ?thesis using shifted [of f] shifted [of g] by metis
qed

lemma protected_index: "const_protected t \<longleftrightarrow> const_index (getConstKind t) \<in> {1, 2, 3}"
proof -
  have "getConstKindFromFlags f = getConstKindFromFlags g \<longleftrightarrow>
      const_index (getConstKindFromFlags f) = const_index (getConstKindFromFlags g)" for f g
    using const_index_inj by metis
  from this [of _ ConstKind_Const] this [of _ ConstKind_MaybeConst] this [of _ ConstKind_AutoConstX]
  show ?thesis
    by (simp add: const_protected_def getConstKind_def)
      (simp add: getConstKindFromFlags_def flag_defs const_index_def)
qed

lemma const_kept_by_cast:
  assumes "const_protected t" and "calcCastKindFromConstCast (getConstKind t) (getConstKind u) \<noteq> CastKind_None"
  shows "const_protected u"
proof -
  have "const_index (getConstKind t) \<in> {1, 2, 3}" using assms(1) by (simp add: protected_index)
  moreover have "j \<in> {1, 2, 3}" if "table_at CastKind_None castKindTable i j \<noteq> CastKind_None" "i \<in> {1, 2, 3}" for i j
    using that by (auto simp: table_at_def castKindTable_def less_Suc_eq nth_Cons' split: if_splits)
  ultimately show ?thesis using assms(2) by (simp add: protected_index calcCastKindFromConstCast_def)
qed

text \<open>The operators that keep the constness of a location: all but a field declared mutable, and a
  field without a constness of its own of a \<^verbatim>\<open>const\<close> structure. The dual kinds of a field have
  been resolved.\<close>

definition field_keeps_const :: "jty \<Rightarrow> ptr_field \<Rightarrow> bool" where
  "field_keeps_const t field \<longleftrightarrow>
     \<not> pf_mutable field \<and> const_index (getConstKindFromFlags (pf_ptrTypeFlags field)) < 5 \<and>
     \<not> (getConstKind t = ConstKind_Const \<and> getConstKindFromFlags (pf_ptrTypeFlags field) = ConstKind_None)"

fun op_keeps_const :: "tenv \<Rightarrow> ptr_op \<Rightarrow> dval \<Rightarrow> bool" where
  "op_keeps_const E (OpField i) v \<longleftrightarrow> field_keeps_const (v_type v) (te_fields E (getTargetType (v_type v)) ! i)"
| "op_keeps_const E (OpUnionField i) v \<longleftrightarrow> field_keeps_const (v_type v) (te_fields E (getTargetType (v_type v)) ! i)"
| "op_keeps_const E op v \<longleftrightarrow> True"

lemma field_const_kept:
  assumes t: "const_protected t" and f: "field_keeps_const t field"
    and u: "getConstKind u = getConstKindFromFlags (calcFieldPtrFlags (ptr_flags t) field)"
  shows "const_protected u"
proof -
  let ?i = "const_index (getConstKind t)" and ?j = "const_index (getConstKindFromFlags (pf_ptrTypeFlags field))"
  have i: "?i \<in> {1, 2, 3}" using t by (simp add: protected_index)
  have "?i = 1 \<Longrightarrow> getConstKind t = ConstKind_Const"
    using const_index_inj [of "ptr_flags t" ConstKind_Const]
    by (simp add: getConstKind_def) (simp add: getConstKindFromFlags_def flag_defs const_index_def)
  moreover have "?j = 0 \<Longrightarrow> getConstKindFromFlags (pf_ptrTypeFlags field) = ConstKind_None"
    using const_index_inj [of "pf_ptrTypeFlags field" ConstKind_None]
    by (simp add: getConstKindFromFlags_def flag_defs const_index_def)
  ultimately have j: "?j < 5" "\<not> (?i = 1 \<and> ?j = 0)" using f by (auto simp: field_keeps_const_def)
  have "table_at ConstKind_None fieldConstKindTable ?i ?j
      \<in> {ConstKind_Const, ConstKind_MaybeConst, ConstKind_AutoConstX}"
    using i j by (auto simp: table_at_def fieldConstKindTable_def less_Suc_eq nth_Cons')
  then show ?thesis using f u by (simp add: const_protected_def field_flags field_keeps_const_def getConstKind_def)
qed

lemma const_flag_parts:
  "const_protected (getDataPtrType t r f) \<longleftrightarrow>
     getConstKindFromFlags f \<in> {ConstKind_Const, ConstKind_MaybeConst, ConstKind_AutoConstX}"
  "const_protected t \<longleftrightarrow>
     getConstKindFromFlags (ptr_flags t) \<in> {ConstKind_Const, ConstKind_MaybeConst, ConstKind_AutoConstX}"
  by (simp_all add: const_protected_def getConstKind_def)

lemma prepareArrayRef_const: "prepareArrayRef E v t = Inr w \<Longrightarrow> const_protected (v_type w) \<longleftrightarrow> const_protected (v_type v)"
  by (auto simp: prepareArrayRef_def Let_def const_flag_parts flag_simps thin_value_def lean_value_def
      split: if_splits option.splits)

lemma castDataPtr2_const:
  assumes "const_protected (v_type v)" and "castDataPtr2 u E bad v t = Inr w"
  shows "const_protected (v_type w)"
proof -
  have "\<exists>ofs. Cast_DataPtr_getOffset E (v_type v) t = Inr ofs" and w: "v_type w = t"
    using assms(2)
    by (auto simp: castDataPtr2_def Let_def Cast_DataPtr_Normal2Normal_def Cast_DataPtr_Lean2Normal_def
        Cast_DataPtr_2Thin_def Cast_DataPtr_Thin2Thin_def thin_value_def normal_value_def
        split: if_splits sum.splits option.splits)
  then have "calcCastKindFromConstCast (getConstKind (v_type v)) (getConstKind t) \<noteq> CastKind_None"
    by (auto simp: Cast_DataPtr_getOffset_def Let_def)
  then show ?thesis using const_kept_by_cast [OF assms(1)] w by simp
qed

lemma castDataPtr_const:
  assumes "const_protected (v_type v)" and "castDataPtr u E bad v t = Inr w"
  shows "const_protected (v_type w)"
proof (cases "castDataPtr2 u E bad v t = Inr w")
  case True
  then show ?thesis by (rule castDataPtr2_const [OF assms(1)])
next
  case False
  then obtain e x where "prepareArrayRef E v e = Inr x" "castDataPtr2 u E bad x t = Inr w"
    using assms(2) by (auto simp: castDataPtr_def split: if_splits jty.splits sum.splits)
  then show ?thesis using castDataPtr2_const [of x] prepareArrayRef_const [of E v e x] assms(1) by simp
qed

lemma apply_ptr_op_const:
  assumes v: "const_protected (v_type v)" and op: "op_keeps_const E op v" and w: "apply_ptr_op u E bad op v = Inr w"
  shows "const_protected (v_type w)"
proof (cases op)
  case (OpField i)
  then show ?thesis
    using w op field_const_kept [OF v, of "te_fields E (getTargetType (v_type v)) ! i" "v_type w"]
    by (auto simp: Let_def getStructField_def getConstKind_def flag_simps thin_value_def lean_value_def
        split: if_splits sum.splits)
next
  case (OpUnionField i)
  then show ?thesis
    using w op field_const_kept [OF v, of "te_fields E (getTargetType (v_type v)) ! i" "v_type w"]
    by (auto simp: Let_def getUnionField_def getConstKind_def thin_value_def lean_value_def
        split: if_splits option.splits)
next
  case (OpIndex c i)
  then show ?thesis using v w
    by (auto simp: arrayIndexOperator_def Let_def const_flag_parts flag_simps thin_value_def lean_value_def
        split: if_splits option.splits jty.splits)
next
  case (OpIncrement d)
  then show ?thesis using v w
    by (auto simp: dataPtrIncrementOperator_def getUnsafePtrType_def Let_def const_flag_parts flag_simps
        thin_value_def lean_value_def normal_value_def and.assoc [symmetric] split: if_splits)
next
  case OpArrayRef
  then show ?thesis using v w prepareArrayRef_const by (auto split: if_splits jty.splits)
next
  case (OpCast t)
  then show ?thesis using v w castDataPtr_const by simp
next
  case OpMakeLean
  then show ?thesis using v w
    by (auto simp: makeLeanDataPtr_def Let_def const_flag_parts flag_simps lean_value_def split: if_splits)
qed (use v w in \<open>auto simp: unOpAddr_def unOpIndir_def Let_def const_flag_parts flag_simps split: if_splits\<close>)

interpretation const_chain: op_chain u E bad "\<lambda>v. const_protected (v_type v)" "op_keeps_const E" for u E bad
  by unfold_locales (rule apply_ptr_op_const)

text \<open>C17: what is const stays const. From a location whose type is const, possibly const or
  auto-const, no chain of operators, casts included, in a safe or an unsafe region, reaches a type
  that is not one of the three, and the compiler rejects every store there; the exceptions are
  fields declared mutable and the fields without a constness of their own of a \<^verbatim>\<open>const\<close>
  structure.\<close>

theorem const_stays_const:
  assumes v: "const_protected (v_type v)" and ops: "chain_ok u E bad (op_keeps_const E) ops v"
    and w: "eval_ptr u E bad ops v = Inr w"
  shows "const_protected (v_type w) \<and> storeDataRef L u E bad w src m = Inl CompileError"
proof -
  have w: "const_protected (v_type w)" by (rule const_chain.eval_keeps [OF v ops w])
  then have "getConstKind (v_type w) \<noteq> 0" by (auto simp: const_protected_def flag_defs)
  then show ?thesis
    using w by (simp add: storeDataRef_def getConstKind_def getConstKindFromFlags_def)
qed

text \<open>The second exception is an entry of the table of \<^verbatim>\<open>calcFieldPtrFlags\<close>: a field without a
  constness of its own, reached through a \<^verbatim>\<open>const\<close> pointer, has a type without const, and the
  compiler generates the store.\<close>

theorem field_of_const_is_writable:
  assumes "getConstKind (v_type v) = ConstKind_Const"
    and "getConstKindFromFlags (pf_ptrTypeFlags field) = ConstKind_None"
    and "getStructField u E bad v field = Inr w"
  shows "getConstKind (v_type w) = ConstKind_None"
proof -
  have "table_at ConstKind_None fieldConstKindTable i 0 = ConstKind_None" if "i \<in> {0, 1}" for i
    using that by (auto simp: table_at_def fieldConstKindTable_def)
  then have "getConstKindFromFlags (calcFieldPtrFlags (ptr_flags (v_type v)) field) = ConstKind_None"
    using assms(1,2) by (simp add: field_flags getConstKind_def) (simp add: const_index_def flag_defs)
  then show ?thesis
    using assms(3) by (auto simp: getStructField_def Let_def getConstKind_def flag_simps thin_value_def lean_value_def
        split: if_splits sum.splits)
qed

end
