(* ===== verification/PtrExample.thy ===== *)
theory PtrExample
  imports PtrMemory
begin

text \<open>
  The two range checks compared, the two descriptions of a cast compared, a module with two
  structs on which the properties of data pointers are applied, and the cast that escapes the
  range of its object.
\<close>

section \<open>The two range checks\<close>

text \<open>The direct check (range known to the compiler, shortened by the size of the target) and the
  indirect check (validator at run time), for a box that is not marked invalid, which only the indirect check
  looks at, and a target not longer than the range: they agree as long as the end of the access does
  not wrap around. When it does, the direct check fails, and the indirect check passes exactly
  when the wrapped end is not above the end of the range.\<close>

theorem range_checks_agree:
  assumes box: "\<not> bad (vd_targetBox vd)" and range: "unat (vd_rangeEnd vd) = unat (vd_rangeBegin vd) + len"
    and n: "n \<le> len"
  shows "tryCheckDataPtrRangeIndirect bad p n (Some vd) =
      (if unat p + n < 2 ^ 64 then tryCheckDataPtrRangeDirect p (vd_rangeBegin vd) (len - n)
       else if unat (vd_rangeBegin vd) \<le> unat p \<and> unat p + n - 2 ^ 64 \<le> unat (vd_rangeEnd vd) then Inr ()
       else Inl OutOfRange) \<and>
    (2 ^ 64 \<le> unat p + n \<longrightarrow> tryCheckDataPtrRangeDirect p (vd_rangeBegin vd) (len - n) = Inl OutOfRange)"
proof -
  have len: "unat (vd_rangeBegin vd) + len < 2 ^ 64" using range addr_bound [of "vd_rangeEnd vd"] by simp
  then have d: "unat (vd_rangeBegin vd + of_nat (len - n)) = unat (vd_rangeBegin vd) + (len - n)"
    by (intro unat_add_fits) simp
  show ?thesis
  proof (cases "unat p + n < 2 ^ 64")
    case True
    show ?thesis
      using True n d range unat_add_fits [OF True] box
      by (auto simp: tryCheckDataPtrRangeIndirect_def tryCheckDataPtrRangeDirect_def Let_def word_less_nat_alt)
  next
    case False
    have "n < 2 ^ 64" using n len by simp
    then have e: "unat (p + of_nat n) = unat p + n - 2 ^ 64"
      using False addr_bound [of p] by (simp add: unat_word_ariths unat_of_nat mod_add_right_eq le_mod_geq not_less)
    moreover have "p \<noteq> 0" using False \<open>n < 2 ^ 64\<close> by auto
    moreover have "unat (vd_rangeBegin vd + of_nat (len - n)) < unat p" using d n len False by linarith
    ultimately show ?thesis
      using False box
      by (simp add: tryCheckDataPtrRangeIndirect_def tryCheckDataPtrRangeDirect_def Let_def word_less_nat_alt
          not_less not_le)
  qed
qed

text \<open>C23: the kind of a cast between data pointers and the offset it uses describe the same casts:
  for a pointer, the offset is there exactly when the kind is at least explicit, and otherwise the
  error names the kind; for a reference, a cast that is offered has an offset.\<close>

theorem cast_kind_and_offset:
  assumes E: "tenv_ok E"
  shows "case Cast_DataPtr_getOffset E t u of
      Inl k \<Rightarrow> Cast_DataPtr_getCastKind E t u \<le> CastKind_Dynamic \<and>
        (\<not> is_ref t \<longrightarrow> Cast_DataPtr_getCastKind E t u = k)
    | Inr ofs \<Rightarrow> is_ref t \<or> CastKind_Explicit \<le> Cast_DataPtr_getCastKind E t u"
proof -
  let ?c = "calcCastKindFromConstCast (getConstKind t) (getConstKind u)"
  have c: "?c = CastKind_None \<or> CastKind_Explicit \<le> ?c"
    using table_at_cases [of CastKind_None castKindTable]
    by (fastforce simp: calcCastKindFromConstCast_def castKindTable_def less_eq_cast_kind_def)
  have pod: "is_integer_type x \<Longrightarrow> te_pod E x" "te_pod E (PrimT Void)" "te_pod E (PrimT Int8)" "te_pod E (PrimT Int8_u)" for x
    using tenv_okD(2,3) [OF E] by (auto simp: is_integer_def less_eq_prim_kind_def)
  note defs = Cast_DataPtr_getOffset_def Cast_DataPtr_getCastKind_def Let_def
  let ?s = "getTargetType t" and ?d = "getTargetType u"
  let ?base = "if is_struct ?s then findBaseTypeTraverse E ?s ?d else None"
  consider (const) "?c = CastKind_None" | (same) "?c \<noteq> CastKind_None" "isEqualType E ?s ?d"
    | (fail) "?c \<noteq> CastKind_None" "\<not> isEqualType E ?s ?d" "\<not> (te_layout E ?s \<and> te_layout E ?d)"
    | (any) "?c \<noteq> CastKind_None" "\<not> isEqualType E ?s ?d" "te_layout E ?s \<and> te_layout E ?d"
        "te_abstract E ?d \<or> ?d = PrimT Void \<and> canCastToPod E t u"
    | (other) "?c \<noteq> CastKind_None" "\<not> isEqualType E ?s ?d" "te_layout E ?s \<and> te_layout E ?d"
        "\<not> (te_abstract E ?d \<or> ?d = PrimT Void \<and> canCastToPod E t u)"
    by blast
  then show ?thesis
  proof cases
    case const
    then show ?thesis by (simp add: defs less_eq_cast_kind_def)
  next
    case same
    then show ?thesis using c by (simp add: defs)
  next
    case fail
    then show ?thesis by (simp add: defs less_eq_cast_kind_def)
  next
    case any
    then show ?thesis using c by (simp add: defs)
  next
    case other
    have kind: "Cast_DataPtr_getCastKind E t u =
      (if ?s = PrimT Void \<and> (?d = PrimT Int8 \<or> ?d = PrimT Int8_u) then ?c
       else if is_integer_type ?s \<and> is_integer_type ?d \<and> te_size E ?s = te_size E ?d then ?c
       else if is_struct ?s \<and> findBaseTypeTraverse E ?s ?d \<noteq> None then ?c
       else if is_ref t then CastKind_None
       else if te_pod E ?d \<and> canCastToPod E t u then CastKind_Explicit
       else if is_derivable ?d then CastKind_Dynamic else CastKind_None)"
      by (simp only: defs other simp_thms if_True if_False)
    have offset: "Cast_DataPtr_getOffset E t u =
      (case ?base of Some ofs \<Rightarrow> Inr ofs
       | None \<Rightarrow> if te_pod E ?d \<and> canCastToPod E t u then Inr 0
           else Inl (if is_derivable ?d then CastKind_Dynamic else CastKind_None))"
      by (simp only: defs other simp_thms if_True if_False)
    show ?thesis
    proof (cases "te_pod E ?d \<and> canCastToPod E t u")
      case True
      then show ?thesis using c other(1) unfolding kind offset
        by (simp add: less_eq_cast_kind_def split: option.split)
    next
      case False
      then have "\<not> (?s = PrimT Void \<and> (?d = PrimT Int8 \<or> ?d = PrimT Int8_u))" and
        "\<not> (is_integer_type ?s \<and> is_integer_type ?d)"
        using pod by (auto simp: canCastToPod_def)
      then have kind: "Cast_DataPtr_getCastKind E t u =
        (if is_struct ?s \<and> findBaseTypeTraverse E ?s ?d \<noteq> None then ?c
         else if is_ref t then CastKind_None else if is_derivable ?d then CastKind_Dynamic else CastKind_None)"
        using False unfolding kind by argo
      show ?thesis
      proof (cases "is_struct ?s \<and> findBaseTypeTraverse E ?s ?d \<noteq> None")
        case True
        then show ?thesis using c other(1) unfolding kind offset by auto
      next
        case nobase: False
        then have "?base = None" by auto
        then have "Cast_DataPtr_getOffset E t u = Inl (if is_derivable ?d then CastKind_Dynamic else CastKind_None)"
          using False unfolding offset by simp
        then show ?thesis unfolding kind if_not_P [OF nobase] by (simp add: less_eq_cast_kind_def)
      qed
    qed
  qed
qed

section \<open>A module\<close>

definition ex_S :: jty where "ex_S = NamedT StructK ''S''"
definition ex_N :: jty where "ex_N = NamedT StructK ''N''"
definition ex_field :: "jty \<Rightarrow> nat \<Rightarrow> ptr_field" where
  "ex_field t ofs = \<lparr>pf_type = t, pf_offset = ofs, pf_bitOffset = 0, pf_bitCount = 0, pf_ptrTypeFlags = 0, pf_mutable = False\<rparr>"

fun ex_size :: "jty \<Rightarrow> nat" where
  "ex_size (PrimT k) = prim_size k"
| "ex_size (ArrayT t n) = n * ex_size t"
| "ex_size (NamedT k n) = (if k = StructK \<and> n = ''S'' then 12 else if k = StructK \<and> n = ''N'' then 32 else 0)"
| "ex_size (PtrT k r f bo bc t) = (if k = DataPtrK \<and> getDataPtrKindFromFlags f = DataPtrKind_Normal then 16 else 8)"
| "ex_size t = 0"

fun ex_pod :: "jty \<Rightarrow> bool" where
  "ex_pod (PrimT k) \<longleftrightarrow> k \<noteq> Variant \<and> k \<noteq> StringT"
| "ex_pod (ArrayT t n) \<longleftrightarrow> ex_pod t"
| "ex_pod (NamedT k n) \<longleftrightarrow> k = EnumK \<or> k = StructK \<and> n = ''S''"
| "ex_pod t \<longleftrightarrow> False"

text \<open>\<^verbatim>\<open>struct S { int a; int b[2]; }\<close> and \<^verbatim>\<open>struct N: S { char c[4]; char* p; }\<close>.\<close>

definition ex_env :: tenv where
  "ex_env =
    \<lparr>te_signature = signature lo_bit ix16, te_size = ex_size, te_pod = ex_pod, te_layout = (\<lambda>t. True),
     te_abstract = (\<lambda>t. False), te_bases = (\<lambda>t. if t = ex_N then [(ex_S, 0)] else []),
     te_adapter = (\<lambda>t. False),
     te_fields = (\<lambda>t. if t = ex_S then [ex_field (PrimT Int32) 0, ex_field (ArrayT (PrimT Int32) 2) 4]
       else if t = ex_N then [ex_field (ArrayT (PrimT Int8) 4) 12, ex_field (PtrT DataPtrK False 0 0 0 (PrimT Int8)) 16]
       else []),
     te_rank = (\<lambda>t. if t = ex_N then 1 else 0)\<rparr>"

lemma ptr_prefix_head: "\<exists>c d. ptr_prefix k r flags = [c, d] \<and> c \<in> set ''PR''"
proof -
  have "ptr_kind_index flags \<in> {0, 1, 2, 3}" by (auto simp: ptr_kind_index_bits)
  moreover have "unat (drop_bit 20 flags AND 1) \<in> {0, 1}" by (simp add: class_kind_index)
  ultimately show ?thesis by (cases k; cases r) auto
qed

lemma ex_S_signature:
  assumes "signature lo ix ex_S = signature lo ix u"
  shows "ex_size u = 12"
proof (cases u)
  case (PrimT k)
  then show ?thesis using assms by (cases k) (simp_all add: ex_S_def)
next
  case (NamedT k n)
  then show ?thesis using assms by (cases k) (auto simp: ex_S_def)
next
  case (PtrT k r f bo bc t)
  then show ?thesis using assms ptr_prefix_head [of k r f] by (auto simp: ex_S_def)
qed (use assms in \<open>simp_all add: ex_S_def\<close>)

lemma ex_env_ok: "tenv_ok ex_env"
  unfolding tenv_ok_def
proof (intro conjI allI impI)
  fix t assume "is_integer_type t \<or> t = PrimT Void"
  then show "te_pod ex_env t"
    by (cases t) (auto simp: ex_env_def is_integer_def less_eq_prim_kind_def)
next
  fix t b ofs u assume "(b, ofs) \<in> set (te_bases ex_env t)" "te_signature ex_env b = te_signature ex_env u"
  then show "te_size ex_env b = te_size ex_env u"
    using ex_S_signature by (auto simp: ex_env_def ex_S_def split: if_splits)
qed (auto simp: ex_env_def ex_N_def ex_S_def ex_field_def getDataPtrKindFromFlags_def is_safe_def flag_defs split: if_splits)

definition ex_var :: jvar where
  "ex_var = \<lparr>va_box = 7, va_addr = 0x1000, va_type = ex_N, va_tls = False, va_hasValidator = False\<rparr>"

definition ex_ops :: "ptr_op list" where
  "ex_ops = [OpAddr, OpCast (PtrT DataPtrK False 0 0 0 ex_S), OpIndir, OpField 1, OpIndex False 1]"

definition ex_type :: jty where "ex_type = PtrT DataPtrK True 0x100000 0 0 (PrimT Int32)"

lemma ex_eval:
  "case eval_ptr False ex_env (\<lambda>b. False) ex_ops (setVariable ex_var 0) of
     Inl e \<Rightarrow> False
   | Inr w \<Rightarrow> prepareDataPtr False ex_env (\<lambda>b. False) w = Inr 0x1008 \<and> v_type w = ex_type"
  by code_simp

lemma ex_chain: "chain_ok False ex_env (\<lambda>b. False) (ptr_op_ok ex_env) ex_ops (setVariable ex_var 0)"
  by code_simp

lemma ex_fits: "case eval_ptr False ex_env (\<lambda>b. False) ex_ops (setVariable ex_var 0) of Inl e \<Rightarrow> False | Inr w \<Rightarrow> ptr_fits ex_env w"
  by code_simp

lemma ex_sizes: "te_size ex_env (PrimT k) = prim_size k" "te_size ex_env ex_N = 32" "te_size ex_env ex_S = 12"
  by (simp_all add: ex_env_def ex_N_def ex_S_def)

lemma ex_variable_ok:
  "dval_ok ex_env (setVariable ex_var 0)"
  "validator_of ex_env (setVariable ex_var 0) = Inr (Some (variable_validator ex_env ex_var))"
  by (rule setVariable_ok; simp add: ex_var_def ex_sizes getDataPtrKindFromFlags_def)+

theorem pointer_access_in_bounds_witness:
  "\<exists>w. eval_ptr False ex_env (\<lambda>b. False) ex_ops (setVariable ex_var 0) = Inr w \<and>
    within (variable_validator ex_env ex_var) 0x1008 (te_size ex_env (getTargetType (v_type w)))"
proof -
  obtain w where w: "eval_ptr False ex_env (\<lambda>b. False) ex_ops (setVariable ex_var 0) = Inr w"
    "prepareDataPtr False ex_env (\<lambda>b. False) w = Inr 0x1008" "ptr_fits ex_env w"
    using ex_eval ex_fits by (auto split: sum.splits)
  then show ?thesis using pointer_access_in_bounds [OF ex_env_ok ex_variable_ok ex_chain w(1,3,2)] w(1) by auto
qed

theorem store_stays_in_range_witness:
  "\<exists>w m. eval_ptr False ex_env (\<lambda>b. False) ex_ops (setVariable ex_var 0) = Inr w \<and>
    storeDataRef llvm_ref False ex_env (\<lambda>b. False) w [1, 2, 3, 4] (\<lambda>q. 0) = Inr m \<and> m 0x1008 = 1 \<and> m 0 = 0"
proof -
  obtain w where w: "eval_ptr False ex_env (\<lambda>b. False) ex_ops (setVariable ex_var 0) = Inr w"
    "prepareDataPtr False ex_env (\<lambda>b. False) w = Inr 0x1008" "v_type w = ex_type"
    "ptr_fits ex_env w"
    using ex_eval ex_fits by (auto split: sum.splits)
  have s: "storeDataRef llvm_ref False ex_env (\<lambda>b. False) w [1, 2, 3, 4] (\<lambda>q. 0) =
      Inr (store_bytes (\<lambda>q. 0) 0x1008 [1, 2, 3, 4])"
    using w(2,3) by (simp add: storeDataRef_def ex_type_def flag_defs is_bit_field_def swap_order_def)
  have len: "length [1, 2, 3, 4 :: 8 word] = target_size ex_env w"
    by (simp add: target_size_def w(3) ex_type_def ex_sizes)
  let ?m = "store_bytes (\<lambda>q. 0) 0x1008 [1, 2, 3, 4 :: 8 word]"
  have "?m 0 = 0"
  proof (rule ccontr)
    assume "?m 0 \<noteq> 0"
    then show False
      using store_stays_in_range [OF ex_env_ok ex_variable_ok ex_chain w(1,4) len s]
      by (auto simp: variable_validator_def createDataPtrValidator_def ex_var_def)
  qed
  moreover have "?m 0x1008 = 1" by simp
  ultimately show ?thesis using w(1) s by blast
qed

text \<open>A bit field of eight bits at bit four of a big-endian \<^verbatim>\<open>int\<close>.\<close>

definition ex_bits :: dval where
  "ex_bits = normal_value (PtrT DataPtrK True (PtrTypeFlag_BitField OR PtrTypeFlag_BigEndian) 4 8 (PrimT Int32_u)) 0x1000
     (Some \<lparr>vd_targetBox = 7, vd_rangeBegin = 0x1000, vd_rangeEnd = 0x1004\<rparr>)"

lemma ex_bits_store:
  "case storeDataRef llvm_ref False ex_env (\<lambda>b. False) ex_bits [0x35, 0x12, 0, 0] (\<lambda>q. 0xff) of
     Inl e \<Rightarrow> False
   | Inr m \<Rightarrow> m 0x1003 = 0x5f \<and> m 0x1002 = 0xf3"
  by code_simp

theorem store_load_roundtrip_witness:
  "\<exists>m. storeDataRef llvm_ref False ex_env (\<lambda>b. False) ex_bits [0x35, 0x12, 0, 0] (\<lambda>q. 0xff) = Inr m \<and>
    loadDataRef llvm_ref False ex_env (\<lambda>b. False) ex_bits m = Inr (int_bytes 4 0x35)"
proof -
  obtain m where m: "storeDataRef llvm_ref False ex_env (\<lambda>b. False) ex_bits [0x35, 0x12, 0, 0] (\<lambda>q. 0xff) = Inr m"
    using ex_bits_store by (auto split: sum.splits)
  have v: "v_type ex_bits = PtrT DataPtrK True 0x30000000 4 8 (PrimT Int32_u)"
    by (simp add: ex_bits_def normal_value_def flag_defs)
  have bf: "is_bit_field (v_type ex_bits)" by (simp add: v is_bit_field_def flag_defs)
  have k: "int_base Int32_u" "llvm_width Int32_u = 32" "is_unsigned Int32_u"
    by (simp_all add: int_base_def is_integer_def less_eq_prim_kind_def is_bool_def llvm_width_def is_unsigned_def)
  have f: "field_value Int32_u 0 8 0x1235 = 0x35" by (simp add: field_value_def k(3) take_bit_eq_mod)
  show ?thesis
    using store_load_roundtrip [OF llvm_ref_ok ex_env_ok _ _ _ m, of Int32_u] m k bf f
    by (simp add: target_size_def v ex_sizes)
qed

text \<open>A constant structure seen through a constant base pointer.\<close>

definition ex_const_ops :: "ptr_op list" where
  "ex_const_ops = [OpAddr, OpCast (PtrT DataPtrK False ConstKind_Const 0 0 ex_S), OpIndir]"

theorem const_stays_const_witness:
  "\<exists>w. eval_ptr False ex_env (\<lambda>b. False) ex_const_ops (setVariable ex_var ConstKind_Const) = Inr w \<and>
    storeDataRef llvm_ref False ex_env (\<lambda>b. False) w (replicate 12 0) (\<lambda>q. 0) = Inl CompileError"
proof -
  have "case eval_ptr False ex_env (\<lambda>b. False) ex_const_ops (setVariable ex_var ConstKind_Const) of Inl e \<Rightarrow> False | Inr w \<Rightarrow> True"
    by code_simp
  then obtain w where w: "eval_ptr False ex_env (\<lambda>b. False) ex_const_ops (setVariable ex_var ConstKind_Const) = Inr w"
    by (auto split: sum.splits)
  have ops: "chain_ok False ex_env (\<lambda>b. False) (op_keeps_const ex_env) ex_const_ops (setVariable ex_var ConstKind_Const)" by code_simp
  have "const_protected (v_type (setVariable ex_var ConstKind_Const))" by code_simp
  then show ?thesis using const_stays_const [OF _ ops w] w by blast
qed

text \<open>The field \<^verbatim>\<open>a\<close> of a constant \<^verbatim>\<open>S\<close>: the store is compiled.\<close>

definition ex_const_S :: dval where
  "ex_const_S = setVariable (ex_var\<lparr>va_type := ex_S\<rparr>) ConstKind_Const"

theorem field_of_const_is_writable_witness:
  "\<exists>w m. getConstKind (v_type ex_const_S) = ConstKind_Const \<and>
    getStructField False ex_env (\<lambda>b. False) ex_const_S (ex_field (PrimT Int32) 0) = Inr w \<and>
    getConstKind (v_type w) = ConstKind_None \<and>
    storeDataRef llvm_ref False ex_env (\<lambda>b. False) w [1, 2, 3, 4] (\<lambda>q. 0) = Inr m \<and> m 0x1000 = 1"
proof -
  have "case getStructField False ex_env (\<lambda>b. False) ex_const_S (ex_field (PrimT Int32) 0) of
      Inl e \<Rightarrow> False
    | Inr w \<Rightarrow> (case storeDataRef llvm_ref False ex_env (\<lambda>b. False) w [1, 2, 3, 4] (\<lambda>q. 0) of
        Inl e \<Rightarrow> False | Inr m \<Rightarrow> m 0x1000 = 1)"
    by code_simp
  then obtain w m where w: "getStructField False ex_env (\<lambda>b. False) ex_const_S (ex_field (PrimT Int32) 0) = Inr w"
    "storeDataRef llvm_ref False ex_env (\<lambda>b. False) w [1, 2, 3, 4] (\<lambda>q. 0) = Inr m" "m 0x1000 = 1"
    by (auto split: sum.splits)
  have c: "getConstKind (v_type ex_const_S) = ConstKind_Const" by code_simp
  have "getConstKind (v_type w) = ConstKind_None"
    by (rule field_of_const_is_writable [OF c _ w(1)]) (simp add: ex_field_def getConstKindFromFlags_def flag_defs)
  then show ?thesis using c w by blast
qed

text \<open>A target of eight bytes one below the end of the address space.\<close>

theorem range_checks_agree_witness:
  "tryCheckDataPtrRangeIndirect (\<lambda>b. False) 0xffffffffffffffff 8
     (Some \<lparr>vd_targetBox = 7, vd_rangeBegin = 0x1000, vd_rangeEnd = 0x1020\<rparr>) = Inr () \<and>
   tryCheckDataPtrRangeDirect 0xffffffffffffffff 0x1000 24 = Inl OutOfRange"
  using range_checks_agree [of "\<lambda>b. False" "\<lparr>vd_targetBox = 7, vd_rangeBegin = 0x1000, vd_rangeEnd = 0x1020\<rparr>" 32 8
      "0xffffffffffffffff"] by simp

theorem cast_kind_and_offset_witness:
  "Cast_DataPtr_getOffset ex_env (getDataPtrType ex_N False 0) (getDataPtrType ex_S False 0) = Inr 0 \<and>
    CastKind_Explicit \<le> Cast_DataPtr_getCastKind ex_env (getDataPtrType ex_N False 0) (getDataPtrType ex_S False 0)"
proof -
  have "case Cast_DataPtr_getOffset ex_env (getDataPtrType ex_N False 0) (getDataPtrType ex_S False 0) of
      Inl k \<Rightarrow> False | Inr ofs \<Rightarrow> ofs = 0" by code_simp
  then have "Cast_DataPtr_getOffset ex_env (getDataPtrType ex_N False 0) (getDataPtrType ex_S False 0) = Inr 0"
    by (auto split: sum.splits)
  then show ?thesis
    using cast_kind_and_offset [OF ex_env_ok, of "getDataPtrType ex_N False 0" "getDataPtrType ex_S False 0"] by simp
qed

section \<open>What escapes\<close>

text \<open>A cast to a safe pointer checks the range of the source type. So a good pointer to one byte
  casts to a safe pointer to eight, no later check is made, and a load of eight bytes is let
  through although seven of them are outside the object.\<close>

definition ex_char :: dval where
  "ex_char = normal_value (PtrT DataPtrK False 0 0 0 (PrimT Int8)) 0x1000
     (Some \<lparr>vd_targetBox = 7, vd_rangeBegin = 0x1000, vd_rangeEnd = 0x1001\<rparr>)"

definition escape_ops :: "ptr_op list" where
  "escape_ops = [OpCast (PtrT DataPtrK False PtrTypeFlag_Safe 0 0 (PrimT Int64)), OpIndir]"

theorem safe_cast_escapes:
  "dval_ok ex_env ex_char \<and>
   validator_of ex_env ex_char = Inr (Some \<lparr>vd_targetBox = 7, vd_rangeBegin = 0x1000, vd_rangeEnd = 0x1001\<rparr>) \<and>
   (\<exists>w. eval_ptr False ex_env (\<lambda>b. False) escape_ops ex_char = Inr w \<and>
     prepareDataPtr False ex_env (\<lambda>b. False) w = Inr 0x1000 \<and> te_size ex_env (getTargetType (v_type w)) = 8)"
proof -
  have "case eval_ptr False ex_env (\<lambda>b. False) escape_ops ex_char of Inl e \<Rightarrow> False
    | Inr w \<Rightarrow> prepareDataPtr False ex_env (\<lambda>b. False) w = Inr 0x1000 \<and> te_size ex_env (getTargetType (v_type w)) = 8"
    by code_simp
  moreover have "dval_ok ex_env ex_char"
    unfolding ex_char_def by (rule normal_ok; simp add: getPtrKind_def getDataPtrKindFromFlags_def flag_defs is_safe_def)
  moreover have "validator_of ex_env ex_char = Inr (Some \<lparr>vd_targetBox = 7, vd_rangeBegin = 0x1000, vd_rangeEnd = 0x1001\<rparr>)"
    by (simp add: validator_of_def ex_char_def normal_value_def getPtrKind_def getDataPtrKindFromFlags_def flag_defs)
  ultimately show ?thesis by (auto split: sum.splits)
qed

text \<open>The difference of two pointers to \<^verbatim>\<open>int\<close>, the first four bytes below the second: minus one at
  run time, not so for constants.\<close>

lemma constant_difference_differs:
  "dataPtrDifference 4 0x1000 0x1004 = - 1 \<and> constDataPtrDifference 4 0x1000 0x1004 = 0x3fffffffffffffff"
  by code_simp

end
