(* ===== verification/WebSocketFrame.thy ===== *)
theory WebSocketFrame
  imports Prelude
begin

text \<open>
  WebSocket frames (\<^verbatim>\<open>src/jnc_ext/jnc_io_websocket\<close>): building a frame
  (\<^verbatim>\<open>buildWebSocketFrame\<close>, \<^verbatim>\<open>mask\<close> of \<^verbatim>\<open>jnc_io_WebSocketFrame\<close>) and the incremental parser
  (\<^verbatim>\<open>jnc_io_WebSocketFrameParser.cpp\<close>). A buffer is a list of bytes. Parameters: the rounding
  \<open>al4\<close> to a multiple of four and the byte swaps \<open>sw16\<close>, \<open>sw64\<close> of the axl library, and the
  random key. Words are stored least significant byte first.
\<close>

type_synonym byte = "8 word"

section \<open>Words in memory\<close>

definition store_le :: "nat \<Rightarrow> 'a::len word \<Rightarrow> byte list" where
  "store_le n w = map (\<lambda>i. ucast (drop_bit (8 * i) w)) [0..<n]"

fun load_le :: "byte list \<Rightarrow> 'a::len word" where
  "load_le [] = 0"
| "load_le (b # bs) = ucast b OR push_bit 8 (load_le bs)"

definition al4_ok :: "(nat \<Rightarrow> nat) \<Rightarrow> bool" where
  "al4_ok al4 \<longleftrightarrow> (\<forall>n. n + 4 \<le> 2 ^ 64 \<longrightarrow> 4 dvd al4 n \<and> n \<le> al4 n)"

text \<open>A byte swap reverses the bytes of a word.\<close>

definition swap_ok :: "nat \<Rightarrow> ('a::len word \<Rightarrow> 'a word) \<Rightarrow> bool" where
  "swap_ok n sw \<longleftrightarrow> (\<forall>w. store_le n (sw w) = rev (store_le n w))"

section \<open>Frames\<close>

datatype ws_opcode_class = DataOpcode | ControlOpcode | UnknownOpcode

text \<open>The two bytes of \<^verbatim>\<open>WebSocketFrameHdr\<close>: opcode, reserved bits and \<^verbatim>\<open>fin\<close>; length code and
  mask flag.\<close>

record ws_frame =
  m_opcode :: nat
  m_reserved :: nat
  m_fin :: bool
  m_lengthCode :: nat
  m_mask :: bool
  m_payloadLength :: nat
  m_maskKey :: "32 word"
  m_payload :: "byte list"

definition frame_clear :: ws_frame where
  "frame_clear = \<lparr>m_opcode = 0, m_reserved = 0, m_fin = False, m_lengthCode = 0, m_mask = False,
     m_payloadLength = 0, m_maskKey = 0, m_payload = []\<rparr>"

definition hdr_bytes :: "nat \<Rightarrow> bool \<Rightarrow> nat \<Rightarrow> bool \<Rightarrow> byte list" where
  "hdr_bytes opcode fin lengthCode isMasked =
     [of_nat (opcode mod 16 + (if fin then 128 else 0)),
      of_nat (lengthCode mod 128 + (if isMasked then 128 else 0))]"

definition set_hdr :: "byte list \<Rightarrow> ws_frame \<Rightarrow> ws_frame" where
  "set_hdr bs f =
     (let b0 = unat (bs ! 0); b1 = unat (bs ! 1)
      in f\<lparr>m_opcode := b0 mod 16, m_reserved := b0 div 16 mod 8, m_fin := (b0 div 128 = 1),
           m_lengthCode := b1 mod 128, m_mask := (b1 div 128 = 1)\<rparr>)"

section \<open>Masking\<close>

text \<open>\<^verbatim>\<open>mask(buffer, size, key)\<close> works on whole words, so it writes past \<open>size\<close> when that is not a
  multiple of four; a write past the memory of the buffer is \<open>None\<close>.\<close>

function mask_words :: "nat \<Rightarrow> nat \<Rightarrow> 32 word \<Rightarrow> byte list \<Rightarrow> byte list option" where
  "mask_words i sz key mem =
     (if i < sz then
        (if i + 4 \<le> length mem
         then mask_words (i + 4) sz key
                (take i mem @ store_le 4 (load_le (take 4 (drop i mem)) XOR key) @ drop (i + 4) mem)
         else None)
      else Some mem)"
  by pat_completeness auto
termination by (relation "measure (\<lambda>(i, sz, key, mem). sz - i)") auto

declare mask_words.simps [simp del]

text \<open>\<^verbatim>\<open>mask\<close> of an array: memory for whole words is reserved first. What the reserved bytes hold
  does not matter.\<close>

definition mask_array :: "(nat \<Rightarrow> nat) \<Rightarrow> byte list \<Rightarrow> 32 word \<Rightarrow> byte list option" where
  "mask_array al4 buffer key =
     (let sz = length buffer
      in map_option (take sz) (mask_words 0 sz key (buffer @ replicate (al4 sz - sz) 0)))"

section \<open>Building\<close>

definition write_at :: "nat \<Rightarrow> byte list \<Rightarrow> byte list \<Rightarrow> byte list" where
  "write_at i bs mem = take i mem @ bs @ drop (i + length bs) mem"

definition buildWebSocketFrame ::
  "(nat \<Rightarrow> nat) \<Rightarrow> (16 word \<Rightarrow> 16 word) \<Rightarrow> (64 word \<Rightarrow> 64 word) \<Rightarrow> byte list \<Rightarrow> nat \<Rightarrow> bool \<Rightarrow> bool
   \<Rightarrow> byte list \<Rightarrow> byte list option" where
  "buildWebSocketFrame al4 sw16 sw64 random opcode isFinal isMasked payload =
     (let payloadSize = length payload;
          reserveSize = 2 + 8 + 4 + al4 payloadSize;
          buffer = replicate reserveSize 0;
          (lengthCode, ext) =
            (if payloadSize < 126 then (payloadSize, [])
             else if payloadSize < 65536 then (126, store_le 2 (sw16 (of_nat payloadSize)))
             else (127, store_le 8 (sw64 (of_nat payloadSize))));
          buffer1 = write_at 2 ext (write_at 0 (hdr_bytes opcode isFinal lengthCode isMasked) buffer);
          p = 2 + length ext
      in if \<not> isMasked then Some (take (p + payloadSize) (write_at p payload buffer1))
         else
           (let buffer2 = write_at p random buffer1;
                key = load_le (take 4 (drop p buffer2));
                q = p + 4;
                buffer3 = write_at q payload buffer2
            in case mask_words 0 payloadSize key (drop q buffer3) of
                 None \<Rightarrow> None
               | Some masked \<Rightarrow> Some (take (q + payloadSize) (take q buffer3 @ masked))))"

section \<open>Parsing\<close>

datatype ws_state = Header | PayloadLength16 | PayloadLength64 | MaskKey | Payload | Completed

datatype ws_error = FragmentedControl | UnknownOpcodeError | PayloadTooLarge | MemoryOverrun

record ws_parser =
  p_frame :: ws_frame
  p_buffer :: "byte list"
  p_state :: ws_state

definition new_parser :: "ws_frame \<Rightarrow> ws_parser" where
  "new_parser f = \<lparr>p_frame = f, p_buffer = [], p_state = Header\<rparr>"

definition parser_reset :: "ws_parser \<Rightarrow> ws_parser" where
  "parser_reset P = P\<lparr>p_state := Header, p_buffer := []\<rparr>"

text \<open>\<^verbatim>\<open>bufferUntil\<close>: the buffer, and what is left of the input.\<close>

definition bufferUntil :: "byte list \<Rightarrow> nat \<Rightarrow> byte list \<Rightarrow> byte list \<times> byte list" where
  "bufferUntil buffer targetSize p =
     (let copySize = min (targetSize - length buffer) (length p)
      in (buffer @ take copySize p, drop copySize p))"

definition getPayloadState :: "ws_frame \<Rightarrow> ws_state" where
  "getPayloadState f = (if m_payloadLength f \<noteq> 0 then Payload else Completed)"

definition getMaskState :: "ws_frame \<Rightarrow> ws_state" where
  "getMaskState f = (if m_mask f then MaskKey else getPayloadState f)"

definition opcode_class :: "nat \<Rightarrow> ws_opcode_class" where
  "opcode_class n =
     (if n \<in> {0, 1, 2} then DataOpcode else if n \<in> {8, 9, 10} then ControlOpcode else UnknownOpcode)"

definition MaxPayloadLength :: nat where
  "MaxPayloadLength = 0x7fffffffffffffff"

text \<open>One turn of the loop: it fails, returns because the input is used up, or goes on.\<close>

datatype ws_step = Fail ws_error ws_parser | Return ws_parser | Continue ws_parser "byte list"

definition parse_header :: "ws_parser \<Rightarrow> byte list \<Rightarrow> ws_step" where
  "parse_header P p =
     (let (buf, p') = bufferUntil (p_buffer P) 2 p; P1 = P\<lparr>p_buffer := buf\<rparr>
      in if length buf < 2 then Return P1
         else
           (let f = set_hdr buf frame_clear; P2 = P1\<lparr>p_frame := f\<rparr>
            in if opcode_class (m_opcode f) = UnknownOpcode then Fail UnknownOpcodeError P2
               else if opcode_class (m_opcode f) = ControlOpcode \<and> \<not> m_fin f then Fail FragmentedControl P2
               else
                 (let (f', st) =
                        (if m_lengthCode f = 126 then (f, PayloadLength16)
                         else if m_lengthCode f = 127 then (f, PayloadLength64)
                         else (let f1 = f\<lparr>m_payloadLength := m_lengthCode f\<rparr> in (f1, getMaskState f1)))
                  in Continue (P2\<lparr>p_frame := f', p_state := st, p_buffer := []\<rparr>) p')))"

definition parse_length16 :: "(16 word \<Rightarrow> 16 word) \<Rightarrow> ws_parser \<Rightarrow> byte list \<Rightarrow> ws_step" where
  "parse_length16 sw16 P p =
     (let (buf, p') = bufferUntil (p_buffer P) 2 p
      in if length buf < 2 then Return (P\<lparr>p_buffer := buf\<rparr>)
         else (let f = (p_frame P)\<lparr>m_payloadLength := unat (sw16 (load_le buf))\<rparr>
               in Continue (P\<lparr>p_frame := f, p_state := getMaskState f, p_buffer := []\<rparr>) p'))"

definition parse_length64 :: "(64 word \<Rightarrow> 64 word) \<Rightarrow> ws_parser \<Rightarrow> byte list \<Rightarrow> ws_step" where
  "parse_length64 sw64 P p =
     (let (buf, p') = bufferUntil (p_buffer P) 8 p; P1 = P\<lparr>p_buffer := buf\<rparr>
      in if length buf < 8 then Return P1
         else
           (let payloadLength = unat (sw64 (load_le buf))
            in if payloadLength > MaxPayloadLength then Fail PayloadTooLarge P1
               else (let f = (p_frame P)\<lparr>m_payloadLength := payloadLength\<rparr>
                     in Continue (P\<lparr>p_frame := f, p_state := getMaskState f, p_buffer := []\<rparr>) p')))"

definition parse_maskKey :: "ws_parser \<Rightarrow> byte list \<Rightarrow> ws_step" where
  "parse_maskKey P p =
     (let (buf, p') = bufferUntil (p_buffer P) 4 p
      in if length buf < 4 then Return (P\<lparr>p_buffer := buf\<rparr>)
         else (let f = (p_frame P)\<lparr>m_maskKey := load_le buf\<rparr>
               in Continue (P\<lparr>p_frame := f, p_state := getPayloadState f, p_buffer := []\<rparr>) p'))"

definition parse_payload :: "(nat \<Rightarrow> nat) \<Rightarrow> ws_parser \<Rightarrow> byte list \<Rightarrow> ws_step" where
  "parse_payload al4 P p =
     (let f = p_frame P;
          (buf, p') = bufferUntil (m_payload f) (m_payloadLength f) p;
          P1 = P\<lparr>p_frame := f\<lparr>m_payload := buf\<rparr>\<rparr>
      in if length buf < m_payloadLength f then Return P1
         else if \<not> m_mask f then Continue (P1\<lparr>p_state := Completed\<rparr>) p'
         else
           (case mask_array al4 buf (m_maskKey f) of
              None \<Rightarrow> Fail MemoryOverrun P1
            | Some buf' \<Rightarrow> Continue (P1\<lparr>p_frame := f\<lparr>m_payload := buf'\<rparr>, p_state := Completed\<rparr>) p'))"

text \<open>The code's functions that the parser calls.\<close>

record ws_env =
  w_al4 :: "nat \<Rightarrow> nat"
  w_sw16 :: "16 word \<Rightarrow> 16 word"
  w_sw64 :: "64 word \<Rightarrow> 64 word"

definition parse_step :: "ws_env \<Rightarrow> ws_parser \<Rightarrow> byte list \<Rightarrow> ws_step" where
  "parse_step W P p =
     (case p_state P of
        Header \<Rightarrow> parse_header P p
      | PayloadLength16 \<Rightarrow> parse_length16 (w_sw16 W) P p
      | PayloadLength64 \<Rightarrow> parse_length64 (w_sw64 W) P p
      | MaskKey \<Rightarrow> parse_maskKey P p
      | Payload \<Rightarrow> parse_payload (w_al4 W) P p
      | Completed \<Rightarrow> Return P)"

fun state_rank :: "ws_state \<Rightarrow> nat" where
  "state_rank Header = 4"
| "state_rank PayloadLength16 = 3"
| "state_rank PayloadLength64 = 3"
| "state_rank MaskKey = 2"
| "state_rank Payload = 1"
| "state_rank Completed = 0"

lemma state_rank_mask:
  "state_rank (getMaskState f) < 3" "state_rank (getMaskState f) < 4" "state_rank (getPayloadState f) < 2"
  by (simp_all add: getMaskState_def getPayloadState_def)

lemma parse_step_rank:
  assumes "parse_step W P p = Continue P' p'"
  shows "state_rank (p_state P') < state_rank (p_state P)"
  using assms state_rank_mask
  by (cases "p_state P")
    (auto simp: parse_step_def parse_header_def parse_length16_def parse_length64_def parse_maskKey_def
      parse_payload_def Let_def split: prod.splits if_splits option.splits)

text \<open>\<^verbatim>\<open>WebSocketFrameParser::parse\<close>: how many bytes were taken, or an error (the code's \<open>-1\<close>).\<close>

function parse_loop :: "ws_env \<Rightarrow> ws_parser \<Rightarrow> byte list \<Rightarrow> (ws_error + byte list) \<times> ws_parser" where
  "parse_loop W P p =
     (if p = [] \<or> p_state P = Completed then (Inr p, P)
      else
        (case parse_step W P p of
           Fail e P' \<Rightarrow> (Inl e, P')
         | Return P' \<Rightarrow> (Inr [], P')
         | Continue P' p' \<Rightarrow> parse_loop W P' p'))"
  by pat_completeness auto
termination
  by (relation "measure (\<lambda>(W, P, p). state_rank (p_state P))") (auto dest: parse_step_rank)

declare parse_loop.simps [simp del]

definition parse :: "ws_env \<Rightarrow> ws_parser \<Rightarrow> byte list \<Rightarrow> (ws_error + nat) \<times> ws_parser" where
  "parse W P p =
     (case parse_loop W P p of
        (Inl e, P') \<Rightarrow> (Inl e, P')
      | (Inr rest, P') \<Rightarrow> (Inr (length p - length rest), P'))"

section \<open>Chunks\<close>

text \<open>What a caller of the parser keeps: the parser, the bytes not taken once the frame is
  complete, and the error that ended it.\<close>

record ws_stream =
  st_parser :: ws_parser
  st_rest :: "byte list"
  st_error :: "ws_error option"

definition feed :: "ws_env \<Rightarrow> ws_stream \<Rightarrow> byte list \<Rightarrow> ws_stream" where
  "feed W s xs =
     (if st_error s \<noteq> None then s
      else
        (case parse_loop W (st_parser s) (st_rest s @ xs) of
           (Inl e, P) \<Rightarrow> \<lparr>st_parser = P, st_rest = [], st_error = Some e\<rparr>
         | (Inr rest, P) \<Rightarrow> \<lparr>st_parser = P, st_rest = rest, st_error = None\<rparr>))"

lemma parse_loop_nil [simp]: "parse_loop W P [] = (Inr [], P)"
  by (simp add: parse_loop.simps)

lemma parse_loop_completed [simp]: "p_state P = Completed \<Longrightarrow> parse_loop W P p = (Inr p, P)"
  by (simp add: parse_loop.simps)

lemma bufferUntil_append:
  assumes "bufferUntil buf t p = (buf1, p1)"
  shows "length buf1 < t \<Longrightarrow> p1 = [] \<and> bufferUntil buf t (p @ q) = bufferUntil buf1 t q"
    and "\<not> length buf1 < t \<Longrightarrow> bufferUntil buf t (p @ q) = (buf1, p1 @ q)"
  using assms by (auto simp: bufferUntil_def Let_def min_def split: if_splits)

text \<open>A step on the first part of the input either stops there, with the state from which the rest
  is handled as the whole would be, or does what it does on the whole.\<close>

lemma parse_step_append:
  "(case parse_step W P p of
      Fail e P' \<Rightarrow> parse_step W P (p @ q) = Fail e P'
    | Return P' \<Rightarrow> p_state P' = p_state P \<and> parse_step W P (p @ q) = parse_step W P' q
    | Continue P' p' \<Rightarrow> parse_step W P (p @ q) = Continue P' (p' @ q))"
proof (cases "p_state P")
  case Header
  obtain buf1 p1 where b: "bufferUntil (p_buffer P) 2 p = (buf1, p1)" by fastforce
  show ?thesis using bufferUntil_append [OF b, of q] b Header
    by (cases "length buf1 < 2") (auto simp: parse_step_def parse_header_def Let_def split: prod.split)
next
  case PayloadLength16
  obtain buf1 p1 where b: "bufferUntil (p_buffer P) 2 p = (buf1, p1)" by fastforce
  show ?thesis using bufferUntil_append [OF b, of q] b PayloadLength16
    by (cases "length buf1 < 2") (auto simp: parse_step_def parse_length16_def Let_def split: prod.split)
next
  case PayloadLength64
  obtain buf1 p1 where b: "bufferUntil (p_buffer P) 8 p = (buf1, p1)" by fastforce
  show ?thesis using bufferUntil_append [OF b, of q] b PayloadLength64
    by (cases "length buf1 < 8") (auto simp: parse_step_def parse_length64_def Let_def split: prod.split)
next
  case MaskKey
  obtain buf1 p1 where b: "bufferUntil (p_buffer P) 4 p = (buf1, p1)" by fastforce
  show ?thesis using bufferUntil_append [OF b, of q] b MaskKey
    by (cases "length buf1 < 4") (auto simp: parse_step_def parse_maskKey_def Let_def split: prod.split)
next
  case Payload
  obtain buf1 p1 where b: "bufferUntil (m_payload (p_frame P)) (m_payloadLength (p_frame P)) p = (buf1, p1)"
    by fastforce
  show ?thesis using bufferUntil_append [OF b, of q] b Payload
    by (cases "length buf1 < m_payloadLength (p_frame P)")
      (auto simp: parse_step_def parse_payload_def Let_def split: prod.split option.split)
next
  case Completed
  then show ?thesis by (simp add: parse_step_def)
qed

lemma parse_loop_append:
  "parse_loop W P (p @ q) =
     (case parse_loop W P p of
        (Inl e, P') \<Rightarrow> (Inl e, P')
      | (Inr rest, P') \<Rightarrow> parse_loop W P' (rest @ q))"
proof (induction W P p rule: parse_loop.induct)
  case (1 W P p)
  show ?case
  proof (cases "p = [] \<or> p_state P = Completed")
    case True
    then show ?thesis by auto
  next
    case False
    note A = parse_step_append [of W P p q]
    show ?thesis
    proof (cases "parse_step W P p")
      case (Fail e P')
      then show ?thesis using False A by (simp add: parse_loop.simps [of W P])
    next
      case (Return P')
      then have "parse_loop W P p = (Inr [], P')" using False by (subst parse_loop.simps) simp
      then show ?thesis using False A Return
        by (cases "q = []") (simp_all add: parse_loop.simps [of W P "p @ q"] parse_loop.simps [of W P' q])
    next
      case (Continue P' p')
      then show ?thesis using False A "1.IH" [OF False Continue] by (simp add: parse_loop.simps [of W P])
    qed
  qed
qed

text \<open>A stream in a state between two calls: nothing is left unless the frame is complete.\<close>

definition stream_ok :: "ws_stream \<Rightarrow> bool" where
  "stream_ok s \<longleftrightarrow> st_error s = None \<longrightarrow> st_rest s = [] \<or> p_state (st_parser s) = Completed"

lemma parse_loop_rest:
  "parse_loop W P p = (Inr rest, P') \<Longrightarrow> rest = [] \<or> p_state P' = Completed"
proof (induction W P p rule: parse_loop.induct)
  case (1 W P p)
  then show ?case by (subst (asm) (2) parse_loop.simps) (auto split: if_splits ws_step.splits)
qed

lemma feed_ok: "stream_ok (feed W s xs)" if "stream_ok s"
  using that parse_loop_rest by (auto simp: feed_def stream_ok_def split: prod.split sum.split)

lemma feed_nil: "stream_ok s \<Longrightarrow> feed W s [] = s"
  by (cases s) (auto simp: feed_def stream_ok_def)

lemma feed_append:
  assumes "stream_ok s"
  shows "feed W s (xs @ ys) = feed W (feed W s xs) ys"
proof (cases "st_error s = None")
  case True
  then show ?thesis
    by (simp add: feed_def parse_loop_append [of W _ "st_rest s @ xs" ys, simplified]
        split: prod.split sum.split)
qed (simp add: feed_def)

interpretation ws: chunk_parser "feed W" stream_ok for W
  by unfold_locales (simp_all add: feed_ok feed_nil feed_append)

end
