(* ===== verification/WebSocketRoundtrip.thy ===== *)
theory WebSocketRoundtrip
  imports WebSocketFrame
begin

text \<open>
  The wire format of WebSocket frames as RFC 6455 gives it, and the proof that the builder
  produces it and the parser reads it, in whatever chunks it arrives.
\<close>

section \<open>The wire format\<close>

definition be :: "nat \<Rightarrow> 'a::len word \<Rightarrow> byte list" where
  "be n w = rev (store_le n w)"

definition xor_key :: "byte list \<Rightarrow> byte list \<Rightarrow> byte list" where
  "xor_key key d = map (\<lambda>j. d ! j XOR key ! (j mod 4)) [0..<length d]"

definition length_code :: "nat \<Rightarrow> nat" where
  "length_code n = (if n < 126 then n else if n < 65536 then 126 else 127)"

definition length_ext :: "nat \<Rightarrow> byte list" where
  "length_ext n =
     (if n < 126 then [] else if n < 65536 then be 2 (of_nat n :: 16 word) else be 8 (of_nat n :: 64 word))"

text \<open>The two bytes of the header, bit by bit as the figure of section 5.2 of the RFC draws them, most
  significant bit first: FIN, three reserved bits and the four bits of the opcode; MASK and the seven
  bits of the payload length. Nothing of the builder is used here.\<close>

definition bits_be :: "nat \<Rightarrow> nat \<Rightarrow> bool list" where
  "bits_be n k = map (bit k) (rev [0..<n])"

definition byte_of_bits :: "bool list \<Rightarrow> byte" where
  "byte_of_bits bs = of_nat (foldl (\<lambda>n b. 2 * n + of_bool b) 0 bs)"

definition wire_header :: "nat \<Rightarrow> bool \<Rightarrow> nat \<Rightarrow> bool \<Rightarrow> byte list" where
  "wire_header opcode fin code masked =
     [byte_of_bits ([fin, False, False, False] @ bits_be 4 opcode), byte_of_bits (masked # bits_be 7 code)]"

definition wire_frame :: "nat \<Rightarrow> bool \<Rightarrow> byte list option \<Rightarrow> byte list \<Rightarrow> byte list" where
  "wire_frame opcode fin key payload =
     wire_header opcode fin (length_code (length payload)) (key \<noteq> None) @ length_ext (length payload) @
     (case key of None \<Rightarrow> payload | Some k \<Rightarrow> k @ xor_key k payload)"

text \<open>The frame the parser is to hold at the end.\<close>

definition frame_of :: "nat \<Rightarrow> bool \<Rightarrow> byte list option \<Rightarrow> byte list \<Rightarrow> ws_frame" where
  "frame_of opcode fin key payload =
     \<lparr>m_opcode = opcode, m_reserved = 0, m_fin = fin, m_lengthCode = length_code (length payload),
      m_mask = (key \<noteq> None), m_payloadLength = length payload,
      m_maskKey = (case key of None \<Rightarrow> 0 | Some k \<Rightarrow> load_le k), m_payload = payload\<rparr>"

definition frame_valid :: "nat \<Rightarrow> bool \<Rightarrow> byte list option \<Rightarrow> byte list \<Rightarrow> bool" where
  "frame_valid opcode fin key payload \<longleftrightarrow>
     opcode_class opcode \<noteq> UnknownOpcode \<and> (opcode_class opcode = ControlOpcode \<longrightarrow> fin) \<and>
     (\<forall>k. key = Some k \<longrightarrow> length k = 4) \<and> length payload \<le> MaxPayloadLength"

definition env_ok :: "ws_env \<Rightarrow> bool" where
  "env_ok W \<longleftrightarrow> al4_ok (w_al4 W) \<and> swap_ok 2 (w_sw16 W) \<and> swap_ok 8 (w_sw64 W)"

section \<open>Words and bytes\<close>

lemma store_le_length [simp]: "length (store_le n w) = n"
  by (simp add: store_le_def)

lemma store_le_nth [simp]: "i < n \<Longrightarrow> store_le n w ! i = ucast (drop_bit (8 * i) w)"
  by (simp add: store_le_def)

lemma bit_load_le:
  "bit (load_le bs :: 'a::len word) n \<longleftrightarrow>
     n < LENGTH('a) \<and> n div 8 < length bs \<and> bit (bs ! (n div 8)) (n mod 8)"
proof (induction bs arbitrary: n)
  case (Cons b bs)
  show ?case
  proof (cases "n < 8")
    case True
    then show ?thesis by (auto simp: bit_simps)
  next
    case False
    then have d: "n div 8 = Suc ((n - 8) div 8)" "n mod 8 = (n - 8) mod 8"
      using le_div_geq [of 8 n] le_mod_geq [of 8 n] by auto
    have "\<not> bit b n" using False bit_length [of b n] by auto
    then show ?thesis using False Cons.IH [of "n - 8"] bit_length [of b n]
      by (auto simp: bit_simps d)
  qed
qed simp

lemma load_store: "8 * n = LENGTH('a) \<Longrightarrow> load_le (store_le n w) = (w :: 'a::len word)"
proof (rule bit_word_eqI)
  fix m
  assume n: "8 * n = LENGTH('a)" and m: "m < LENGTH('a)"
  have "m div 8 < n" using n m by linarith
  moreover have "8 * (m div 8) + m mod 8 = m" by simp
  ultimately show "bit (load_le (store_le n w) :: 'a word) m = bit w m"
    using m by (simp add: bit_load_le bit_simps)
qed

lemma store_load:
  assumes "8 * length bs \<le> LENGTH('a)"
  shows "store_le (length bs) (load_le bs :: 'a::len word) = bs"
proof (rule nth_equalityI)
  fix i
  assume "i < length (store_le (length bs) (load_le bs :: 'a word))"
  then have i: "i < length bs" by simp
  have "ucast (drop_bit (8 * i) (load_le bs :: 'a word)) = bs ! i"
  proof (rule bit_word_eqI)
    fix m
    assume m: "m < LENGTH(8)"
    then have "(8 * i + m) div 8 = i" "(8 * i + m) mod 8 = m" "8 * i + m < LENGTH('a)"
      using i assms by auto
    then show "bit (ucast (drop_bit (8 * i) (load_le bs :: 'a word)) :: byte) m = bit (bs ! i) m"
      using m i by (simp add: bit_simps bit_load_le)
  qed
  then show "store_le (length bs) (load_le bs :: 'a word) ! i = bs ! i" using i by simp
qed simp

lemma swap_be:
  fixes v :: "'a::len word"
  assumes "swap_ok n sw" and "8 * n = LENGTH('a)"
  shows "sw (load_le (be n v)) = v" and "store_le n (sw v) = be n v"
proof -
  have "store_le n (load_le (be n v) :: 'a word) = be n v"
    using store_load [of "be n v", where 'a = 'a] assms(2) by (simp add: be_def)
  then have "store_le n (sw (load_le (be n v))) = store_le n v"
    using assms(1) by (simp add: swap_ok_def be_def)
  then show "sw (load_le (be n v)) = v" using load_store [OF assms(2)] by metis
  show "store_le n (sw v) = be n v" using assms(1) by (simp add: swap_ok_def be_def)
qed

section \<open>Masking\<close>

lemma store_xor_nth:
  assumes "length bs = 4" and "d < 4"
  shows "store_le 4 (load_le bs XOR (key :: 32 word)) ! d = bs ! d XOR store_le 4 key ! d"
proof -
  have e: "store_le 4 (load_le bs :: 32 word) = bs"
    using store_load [of bs, where 'a = 32] assms by simp
  have "store_le 4 (load_le bs XOR key) ! d = store_le 4 (load_le bs :: 32 word) ! d XOR store_le 4 key ! d"
    using assms(2) by (simp add: drop_bit_xor unsigned_xor_eq)
  then show ?thesis by (simp only: e)
qed

lemma mask_words_ok:
  assumes "4 dvd i" and "4 dvd m" and "n \<le> m" and "m \<le> length mem"
  shows "\<exists>mem'. mask_words i n key mem = Some mem' \<and> length mem' = length mem \<and>
    (\<forall>j < i. j < length mem \<longrightarrow> mem' ! j = mem ! j) \<and>
    (\<forall>j. i \<le> j \<and> j < n \<longrightarrow> mem' ! j = mem ! j XOR store_le 4 key ! (j mod 4))"
  using assms
proof (induction i n key mem rule: mask_words.induct)
  case (1 i n key mem)
  show ?case
  proof (cases "i < n")
    case True
    obtain q r where q: "i = 4 * q" "m = 4 * r" using "1.prems"(1,2) by (auto elim!: dvdE)
    have i4: "i + 4 \<le> m" using True "1.prems"(3) q by presburger
    let ?w = "store_le 4 (load_le (take 4 (drop i mem)) XOR key)"
    let ?mem = "take i mem @ ?w @ drop (i + 4) mem"
    have len: "length ?mem = length mem" using i4 "1.prems"(4) by simp
    have l4: "length (take 4 (drop i mem)) = 4" using i4 "1.prems"(4) by simp
    have nth: "?mem ! j = (if i \<le> j \<and> j < i + 4 then mem ! j XOR store_le 4 key ! (j mod 4) else mem ! j)"
      if "j < length mem" for j
    proof -
      have "j mod 4 = j - i" if "i \<le> j" "j < i + 4"
        using that q(1) by presburger
      then show ?thesis
        using that store_xor_nth [OF l4, of "j - i" key] i4 "1.prems"(4)
        by (auto simp: nth_append)
    qed
    have "4 dvd i + 4" using "1.prems"(1) by simp
    moreover have "i + 4 \<le> length mem" using i4 "1.prems"(4) by simp
    ultimately obtain mem' where m': "mask_words (i + 4) n key ?mem = Some mem'" "length mem' = length ?mem"
      "\<forall>j < i + 4. j < length ?mem \<longrightarrow> mem' ! j = ?mem ! j"
      "\<forall>j. i + 4 \<le> j \<and> j < n \<longrightarrow> mem' ! j = ?mem ! j XOR store_le 4 key ! (j mod 4)"
      using "1.IH" [OF True] "1.prems" len by auto
    have "mask_words i n key mem = Some mem'"
      using True \<open>i + 4 \<le> length mem\<close> m'(1) by (simp add: mask_words.simps [of i])
    moreover have "mem' ! j = mem ! j XOR store_le 4 key ! (j mod 4)" if "i \<le> j" "j < n" for j
      using m'(3,4) nth that len "1.prems"(3,4) by (cases "j < i + 4") (simp_all del: store_le_nth)
    moreover have "mem' ! j = mem ! j" if "j < i" "j < length mem" for j
      using m'(3) nth that len by simp
    ultimately show ?thesis using m'(2) len by simp
  next
    case False
    then show ?thesis using mask_words.simps [of i] by auto
  qed
qed

lemma xor_key_length [simp]: "length (xor_key k d) = length d"
  by (simp add: xor_key_def)

lemma xor_key_twice: "xor_key k (xor_key k d) = d"
  by (rule nth_equalityI) (simp_all add: xor_key_def xor.assoc)

lemma al4_bounds:
  assumes "al4_ok al4" and "n \<le> MaxPayloadLength"
  shows "4 dvd al4 n" and "n \<le> al4 n"
  using assms by (auto simp: al4_ok_def MaxPayloadLength_def)

text \<open>Where whole words are reserved, masking combines each byte with its byte of the key.\<close>

lemma mask_words_take:
  assumes "4 dvd m" and "length d \<le> m" and "m \<le> length (d @ e)" and "length k = 4"
  shows "\<exists>mem. mask_words 0 (length d) (load_le k) (d @ e) = Some mem \<and> length mem = length (d @ e) \<and>
    take (length d) mem = xor_key k d"
proof -
  have "store_le 4 (load_le k :: 32 word) = k" using store_load [of k, where 'a = 32] assms(4) by simp
  with mask_words_ok [of 0 m "length d" "d @ e" "load_le k"] assms
  obtain mem where m: "mask_words 0 (length d) (load_le k) (d @ e) = Some mem" "length mem = length (d @ e)"
    "\<forall>j. 0 \<le> j \<and> j < length d \<longrightarrow> mem ! j = (d @ e) ! j XOR k ! (j mod 4)"
    by auto
  then have "take (length d) mem = xor_key k d"
    by (intro nth_equalityI) (auto simp: xor_key_def nth_append)
  then show ?thesis using m(1,2) by blast
qed

lemma mask_array_ok:
  assumes "al4_ok al4" and "length d \<le> MaxPayloadLength" and "length k = 4"
  shows "mask_array al4 d (load_le k) = Some (xor_key k d)"
proof -
  note b = al4_bounds [OF assms(1,2)]
  have "al4 (length d) \<le> length (d @ replicate (al4 (length d) - length d) 0)" using b(2) by simp
  from mask_words_take [OF b this assms(3)] show ?thesis by (auto simp: mask_array_def Let_def)
qed

section \<open>A concrete environment\<close>

definition al4_up :: "nat \<Rightarrow> nat" where
  "al4_up n = (n + 3) div 4 * 4"

definition swap_bytes :: "nat \<Rightarrow> 'a::len word \<Rightarrow> 'a word" where
  "swap_bytes n w = load_le (rev (store_le n w))"

definition env_le :: ws_env where
  "env_le = \<lparr>w_al4 = al4_up, w_sw16 = swap_bytes 2, w_sw64 = swap_bytes 8\<rparr>"

lemma swap_bytes_ok:
  assumes "8 * n = LENGTH('a::len)"
  shows "swap_ok n (swap_bytes n :: 'a word \<Rightarrow> 'a word)"
  using store_load [of "rev (store_le n w)" for w :: "'a word", where 'a = 'a] assms
  by (simp add: swap_ok_def swap_bytes_def)

lemma env_le_ok: "env_ok env_le"
proof -
  have "n \<le> al4_up n" for n unfolding al4_up_def by presburger
  then show ?thesis by (simp add: env_ok_def env_le_def swap_bytes_ok al4_ok_def al4_up_def)
qed

section \<open>The builder\<close>

lemma write_at_append:
  "length a = i \<Longrightarrow> write_at i bs (a @ mem) = a @ bs @ drop (length bs) mem"
  by (simp add: write_at_def)

lemma write_at_0: "write_at 0 bs mem = bs @ drop (length bs) mem"
  by (simp add: write_at_def)

text \<open>The bit fields of \<^verbatim>\<open>WebSocketFrameHdr\<close> that the builder fills in are these bits.\<close>

lemma foldl_bits_be:
  "foldl (\<lambda>n b. 2 * n + of_bool b) a (bits_be n k) = 2 ^ n * a + take_bit n k" for a :: nat
  by (induction n arbitrary: a) (simp_all add: bits_be_def take_bit_Suc_from_most algebra_simps)

lemma wire_header_hdr: "wire_header opcode fin code masked = hdr_bytes opcode fin code masked"
  unfolding wire_header_def hdr_bytes_def byte_of_bits_def foldl_append foldl_Cons foldl_Nil foldl_bits_be
  by (simp add: take_bit_eq_mod add.commute)

lemma wire_frame_hdr:
  "wire_frame opcode fin key payload =
     hdr_bytes opcode fin (length_code (length payload)) (key \<noteq> None) @ length_ext (length payload) @
     (case key of None \<Rightarrow> payload | Some k \<Rightarrow> k @ xor_key k payload)"
  by (simp only: wire_frame_def wire_header_hdr)

lemma hdr_length [simp]: "length (hdr_bytes a b c d) = 2"
  by (simp add: hdr_bytes_def)

lemma be_length [simp]: "length (be n w) = n"
  by (simp add: be_def)

lemma length_ext_length: "length (length_ext n) \<le> 8"
  by (simp add: length_ext_def)

lemma build_length:
  assumes "swap_ok 2 (sw16 :: 16 word \<Rightarrow> 16 word)" and "swap_ok 8 (sw64 :: 64 word \<Rightarrow> 64 word)"
  shows "(if n < 126 then (n, [])
          else if n < 65536 then (126, store_le 2 (sw16 (of_nat n)))
          else (127, store_le 8 (sw64 (of_nat n)))) = (length_code n, length_ext n)"
  using swap_be(2) [OF assms(1)] swap_be(2) [OF assms(2)] by (simp add: length_code_def length_ext_def)

text \<open>C40: building a frame gives exactly the bytes of the wire format of RFC 6455 (header, extended
  length, masking key and masked payload, see \<open>wire_frame\<close>), with the random bytes as the masking key;
  in particular masking in whole words never writes past the
  reserved memory.\<close>

theorem buildWebSocketFrame_wire:
  assumes "env_ok W" and "length payload \<le> MaxPayloadLength" and "length random = 4"
  shows "buildWebSocketFrame (w_al4 W) (w_sw16 W) (w_sw64 W) random opcode isFinal isMasked payload =
    Some (wire_frame opcode isFinal (if isMasked then Some random else None) payload)"
proof -
  let ?n = "length payload" and ?al = "w_al4 W (length payload)"
  let ?h = "hdr_bytes opcode isFinal (length_code ?n) isMasked" and ?e = "length_ext ?n"
  have ok: "al4_ok (w_al4 W)" "swap_ok 2 (w_sw16 W)" "swap_ok 8 (w_sw64 W)" using assms(1) by (simp_all add: env_ok_def)
  note b = al4_bounds [OF ok(1) assms(2)] and len = build_length [OF ok(2,3), of ?n]
  let ?r = "replicate (12 + ?al - length ?e) (0 :: byte)"
  have buf: "write_at 2 ?e (write_at 0 ?h (replicate (2 + 8 + 4 + ?al) 0)) = (?h @ ?e) @ ?r"
    using length_ext_length [of ?n] by (simp add: write_at_0 write_at_append)
  show ?thesis
  proof (cases isMasked)
    case False
    have w: "write_at (2 + length ?e) payload ((?h @ ?e) @ ?r) = (?h @ ?e) @ payload @ drop ?n ?r"
      by (rule write_at_append) simp
    show ?thesis
      unfolding buildWebSocketFrame_def len Let_def prod.case buf w using False by (simp add: wire_frame_hdr)
  next
    case True
    let ?t = "drop (4 + ?n) ?r"
    have w: "write_at (2 + length ?e) random ((?h @ ?e) @ ?r) = (?h @ ?e) @ random @ drop 4 ?r"
      unfolding assms(3) [symmetric] by (rule write_at_append) simp
    have w2: "write_at (2 + length ?e + 4) payload ((?h @ ?e) @ random @ drop 4 ?r) = (?h @ ?e @ random) @ payload @ ?t"
      using write_at_append [of "?h @ ?e @ random" "2 + length ?e + 4" payload "drop 4 ?r"] assms(3)
      by (simp add: add.commute)
    have "?al \<le> length (payload @ ?t)" using b length_ext_length [of ?n] by simp
    from mask_words_take [OF b this assms(3)] obtain mem where
      m: "mask_words 0 ?n (load_le random) (payload @ ?t) = Some mem" "length mem = length (payload @ ?t)"
      "take ?n mem = xor_key random payload" by blast
    have key: "take 4 (drop (2 + length ?e) ((?h @ ?e) @ random @ drop 4 ?r)) = random"
      using assms(3) by simp
    have split: "drop (2 + length ?e + 4) ((?h @ ?e @ random) @ payload @ ?t) = payload @ ?t"
      "take (2 + length ?e + 4) ((?h @ ?e @ random) @ payload @ ?t) = ?h @ ?e @ random"
      using assms(3) by simp_all
    show ?thesis
      unfolding buildWebSocketFrame_def len Let_def prod.case buf w w2 key split m(1)
      using True m(3) assms(3) by (simp add: wire_frame_hdr)
  qed
qed

theorem buildWebSocketFrame_wire_witness:
  "buildWebSocketFrame al4_up (swap_bytes 2) (swap_bytes 8) [0x37, 0xfa, 0x21, 0x3d] 1 True True [0x48, 0x65, 0x6c, 0x6c, 0x6f] =
     Some [0x81, 0x85, 0x37, 0xfa, 0x21, 0x3d, 0x7f, 0x9f, 0x4d, 0x51, 0x58]"
proof -
  have "wire_frame 1 True (Some [0x37, 0xfa, 0x21, 0x3d]) [0x48, 0x65, 0x6c, 0x6c, 0x6f] =
    [0x81, 0x85, 0x37, 0xfa, 0x21, 0x3d, 0x7f, 0x9f, 0x4d, 0x51, 0x58]"
    by code_simp
  then show ?thesis
    using buildWebSocketFrame_wire [OF env_le_ok, of "[0x48, 0x65, 0x6c, 0x6c, 0x6f]" "[0x37, 0xfa, 0x21, 0x3d]" 1 True True]
    by (simp add: env_le_def MaxPayloadLength_def)
qed

section \<open>The parser\<close>

lemma bufferUntil_exact:
  assumes "length xs = t" and "t \<noteq> 0"
  shows "bufferUntil [] t (xs @ ys) = (xs, ys)"
  using assms by (simp add: bufferUntil_def Let_def)

lemma parse_loop_Continue:
  assumes "parse_step W P p = Continue P' p'" and "p \<noteq> []" and "p_state P \<noteq> Completed"
  shows "parse_loop W P p = parse_loop W P' p'"
  using assms by (subst parse_loop.simps) simp

definition finished :: "ws_parser \<Rightarrow> byte list \<Rightarrow> ws_parser" where
  "finished P payload = P\<lparr>p_frame := (p_frame P)\<lparr>m_payload := payload\<rparr>, p_state := Completed\<rparr>"

lemma parse_payload_all:
  assumes "env_ok W" and "p_state P = getPayloadState (p_frame P)" and "m_payload (p_frame P) = []"
    and "m_payloadLength (p_frame P) = length d" and "length d \<le> MaxPayloadLength"
    and "if m_mask (p_frame P) then m_maskKey (p_frame P) = load_le k \<and> length k = 4 \<and> e = xor_key k d else e = d"
  shows "parse_loop W P (d @ r) = (Inr r, finished P e)"
proof (cases "d = []")
  case True
  then have "e = []" using assms(6) by (auto simp: xor_key_def split: if_splits)
  then have "finished P e = P" using assms(2-4) True by (simp add: finished_def getPayloadState_def)
  then show ?thesis using True assms(2,4) by (simp add: getPayloadState_def)
next
  case False
  then have st: "p_state P = Payload" using assms(2,4) by (simp add: getPayloadState_def)
  have "al4_ok (w_al4 W)" using assms(1) by (simp add: env_ok_def)
  note m = mask_array_ok [OF this assms(5)]
  have "parse_step W P (d @ r) = Continue (finished P e) r"
    using st assms(3,4,6) False bufferUntil_exact [of d "length d" r] m [of k]
    by (simp add: parse_step_def parse_payload_def finished_def Let_def split: if_splits)
  then show ?thesis using parse_loop_Continue False st by (simp add: finished_def)
qed

lemma parse_mask_all:
  assumes "env_ok W" and "p_state P = getMaskState (p_frame P)" and "m_payload (p_frame P) = []" and "p_buffer P = []"
    and "m_payloadLength (p_frame P) = length d" and "length d \<le> MaxPayloadLength"
    and "m_mask (p_frame P) = (key \<noteq> None)" and "\<forall>k. key = Some k \<longrightarrow> length k = 4"
  shows "parse_loop W P ((case key of None \<Rightarrow> d | Some k \<Rightarrow> k @ xor_key k d) @ r) =
    (Inr r, finished (P\<lparr>p_frame := (p_frame P)\<lparr>m_maskKey := (case key of None \<Rightarrow> m_maskKey (p_frame P)
       | Some k \<Rightarrow> load_le k)\<rparr>\<rparr>) d)"
proof (cases key)
  case None
  then show ?thesis
    using parse_payload_all [OF assms(1) _ assms(3,5,6), of "[]" d] assms(2,7) by (simp add: getMaskState_def)
next
  case (Some k)
  have k: "length k = 4" using assms(8) Some by simp
  let ?P = "P\<lparr>p_frame := (p_frame P)\<lparr>m_maskKey := load_le k\<rparr>, p_state := getPayloadState (p_frame P)\<rparr>"
  have st: "p_state P = MaskKey" using assms(2,7) Some by (simp add: getMaskState_def)
  have "parse_step W P (k @ xor_key k d @ r) = Continue ?P (xor_key k d @ r)"
    using st k assms(4) bufferUntil_exact [OF k, of "xor_key k d @ r"]
    by (simp add: parse_step_def parse_maskKey_def Let_def getPayloadState_def)
  then have "parse_loop W P (k @ xor_key k d @ r) = parse_loop W ?P (xor_key k d @ r)"
    using k st by (intro parse_loop_Continue) auto
  also have "\<dots> = (Inr r, finished ?P d)"
    using assms(1,3,5,6,7) Some k
      parse_payload_all [of W ?P "xor_key k d" k d r]
    by (simp add: getPayloadState_def xor_key_twice)
  finally show ?thesis using Some by (simp add: finished_def)
qed

lemma unat_byte: "m < 256 \<Longrightarrow> unat (of_nat m :: byte) = m"
  by (simp add: unat_of_nat)

lemma flag_bits:
  assumes "x < m" and "m dvd 128" and "0 < m"
  shows "(x + (if b then 128 else 0)) mod m = x" and "((x + (if b then 128 else (0::nat))) div 128 = 1) = (b \<or> x div 128 = 1)"
proof -
  obtain q where q: "128 = m * q" using assms(2) by (rule dvdE)
  show "(x + (if b then 128 else 0)) mod m = x" using assms(1) unfolding q by simp
  have "x < 128" using assms dvd_imp_le [of m 128] by simp
  then show "((x + (if b then 128 else (0::nat))) div 128 = 1) = (b \<or> x div 128 = 1)" by auto
qed

lemma parse_hdr:
  assumes "opcode < 16" and "code < 128"
  shows "set_hdr (hdr_bytes opcode fin code msk) frame_clear =
    \<lparr>m_opcode = opcode, m_reserved = 0, m_fin = fin, m_lengthCode = code, m_mask = msk,
     m_payloadLength = 0, m_maskKey = 0, m_payload = []\<rparr>"
proof -
  let ?x = "opcode mod 16 + (if fin then 128 else 0)" and ?y = "code mod 128 + (if msk then 128 else 0)"
  have m: "opcode mod 16 < 16" "code mod 128 < 128" by simp_all
  have l: "x < 128 \<Longrightarrow> x + (if b then 128 else 0) < 256" for x :: nat and b by simp
  have "?x < 256" using m(1) by (intro l) linarith
  moreover have "?y < 256" using m(2) by (intro l)
  ultimately have u: "unat (of_nat ?x :: byte) = ?x" "unat (of_nat ?y :: byte) = ?y" by (simp_all only: unat_byte)
  have x: "?x mod 16 = opcode" "(?x div 128 = 1) = fin" "?y mod 128 = code" "(?y div 128 = 1) = msk"
    using flag_bits [of opcode 16 fin] flag_bits [of code 128 msk] assms by simp_all
  have "(opcode + 128) div 16 = 8" using assms(1) by (intro div_nat_eqI) simp_all
  then have r: "?x div 16 mod 8 = 0" using assms(1) by simp
  show ?thesis
    unfolding set_hdr_def hdr_bytes_def frame_clear_def Let_def nth_Cons_0 One_nat_def nth_Cons_Suc u x [unfolded One_nat_def] r
    by simp
qed

text \<open>The two bytes of the header and the extended length lead to the state after them.\<close>

definition after_length :: "nat \<Rightarrow> bool \<Rightarrow> bool \<Rightarrow> nat \<Rightarrow> ws_parser" where
  "after_length opcode fin msk n =
     (let f = \<lparr>m_opcode = opcode, m_reserved = 0, m_fin = fin, m_lengthCode = length_code n, m_mask = msk,
               m_payloadLength = n, m_maskKey = 0, m_payload = []\<rparr>
      in \<lparr>p_frame = f, p_buffer = [], p_state = getMaskState f\<rparr>)"

lemma unat_length:
  "n < 65536 \<Longrightarrow> unat (of_nat n :: 16 word) = n"
  "n \<le> MaxPayloadLength \<Longrightarrow> unat (of_nat n :: 64 word) = n"
  by (simp_all add: unat_of_nat MaxPayloadLength_def)

lemma parse_length_all:
  assumes "env_ok W" and "opcode_class opcode \<noteq> UnknownOpcode" and "opcode_class opcode = ControlOpcode \<longrightarrow> fin"
    and "n \<le> MaxPayloadLength"
  shows "parse_loop W (new_parser f) (hdr_bytes opcode fin (length_code n) msk @ length_ext n @ r) =
    parse_loop W (after_length opcode fin msk n) r"
proof -
  let ?h = "hdr_bytes opcode fin (length_code n) msk"
  have op: "opcode < 16" using assms(2) by (auto simp: opcode_class_def split: if_splits)
  have code: "length_code n < 128" by (simp add: length_code_def)
  have sw: "swap_ok 2 (w_sw16 W)" "swap_ok 8 (w_sw64 W)" using assms(1) by (simp_all add: env_ok_def)
  have ne: "?h @ xs \<noteq> []" for xs by (simp add: hdr_bytes_def)
  note H = bufferUntil_exact [OF hdr_length, of opcode fin "length_code n" msk] parse_hdr [OF op code, of fin msk]
  note step = parse_step_def parse_header_def new_parser_def after_length_def Let_def
  consider "n < 126" | "126 \<le> n" "n < 65536" | "65536 \<le> n" by linarith
  then show ?thesis
  proof cases
    case 1
    then have "parse_step W (new_parser f) (?h @ r) = Continue (after_length opcode fin msk n) r"
      using assms(2,3) H by (simp add: step length_code_def)
    then show ?thesis
      using 1 parse_loop_Continue [OF _ ne] by (simp add: length_ext_def new_parser_def)
  next
    case 2
    let ?P = "\<lparr>p_frame = (p_frame (after_length opcode fin msk n))\<lparr>m_payloadLength := 0\<rparr>, p_buffer = [],
      p_state = PayloadLength16\<rparr>"
    have e: "length_ext n = be 2 (of_nat n :: 16 word)" using 2 by (simp add: length_ext_def)
    have "parse_step W (new_parser f) (?h @ length_ext n @ r) = Continue ?P (length_ext n @ r)"
      using assms(2,3) H 2 by (simp add: step length_code_def)
    then have "parse_loop W (new_parser f) (?h @ length_ext n @ r) = parse_loop W ?P (length_ext n @ r)"
      using parse_loop_Continue [OF _ ne] by (simp add: new_parser_def)
    moreover have "parse_step W ?P (length_ext n @ r) = Continue (after_length opcode fin msk n) r"
      using bufferUntil_exact [of "length_ext n" 2 r] 2 swap_be(1) [OF sw(1), of "of_nat n"] unat_length(1) [of n]
      by (simp add: e step parse_length16_def)
    moreover have "length_ext n @ r \<noteq> []" using e be_length [of 2 "of_nat n :: 16 word"] by fastforce
    ultimately show ?thesis using parse_loop_Continue [of W ?P] by simp
  next
    case 3
    let ?P = "\<lparr>p_frame = (p_frame (after_length opcode fin msk n))\<lparr>m_payloadLength := 0\<rparr>, p_buffer = [],
      p_state = PayloadLength64\<rparr>"
    have e: "length_ext n = be 8 (of_nat n :: 64 word)" using 3 by (simp add: length_ext_def)
    have "parse_step W (new_parser f) (?h @ length_ext n @ r) = Continue ?P (length_ext n @ r)"
      using assms(2,3) H 3 by (simp add: step length_code_def)
    then have "parse_loop W (new_parser f) (?h @ length_ext n @ r) = parse_loop W ?P (length_ext n @ r)"
      using parse_loop_Continue [OF _ ne] by (simp add: new_parser_def)
    moreover have "parse_step W ?P (length_ext n @ r) = Continue (after_length opcode fin msk n) r"
      using bufferUntil_exact [of "length_ext n" 8 r] 3 swap_be(1) [OF sw(2), of "of_nat n"] unat_length(2) [of n] assms(4)
      by (simp add: e step parse_length64_def)
    moreover have "length_ext n @ r \<noteq> []" using e be_length [of 8 "of_nat n :: 64 word"] by fastforce
    ultimately show ?thesis using parse_loop_Continue [of W ?P] by simp
  qed
qed

lemma parse_wire:
  assumes "env_ok W" and "frame_valid opcode fin key payload"
  shows "parse_loop W (new_parser f) (wire_frame opcode fin key payload @ r) =
    (Inr r, \<lparr>p_frame = frame_of opcode fin key payload, p_buffer = [], p_state = Completed\<rparr>)"
proof -
  let ?P = "after_length opcode fin (key \<noteq> None) (length payload)"
  have "parse_loop W ?P ((case key of None \<Rightarrow> payload | Some k \<Rightarrow> k @ xor_key k payload) @ r) =
    (Inr r, finished (?P\<lparr>p_frame := (p_frame ?P)\<lparr>m_maskKey := (case key of None \<Rightarrow> m_maskKey (p_frame ?P)
       | Some k \<Rightarrow> load_le k)\<rparr>\<rparr>) payload)"
    using assms by (intro parse_mask_all) (simp_all add: after_length_def Let_def frame_valid_def)
  then show ?thesis
    using parse_length_all [OF assms(1), of opcode fin "length payload" f "key \<noteq> None"] assms(2)
    by (simp add: wire_frame_hdr frame_valid_def after_length_def finished_def frame_of_def Let_def
        split: option.split)
qed

text \<open>C34: the parser, fed the wire format of a valid frame in any chunks, completes with that frame
  (opcode, flags, lengths, key and the unmasked payload), and what follows the frame is left over.\<close>

theorem parser_reads_wire:
  assumes "env_ok W" and "frame_valid opcode fin key payload"
    and "concat chunks = wire_frame opcode fin key payload @ rest"
  shows "foldl (feed W) \<lparr>st_parser = new_parser f, st_rest = [], st_error = None\<rparr> chunks =
    \<lparr>st_parser = \<lparr>p_frame = frame_of opcode fin key payload, p_buffer = [], p_state = Completed\<rparr>,
     st_rest = rest, st_error = None\<rparr>"
proof -
  have "stream_ok \<lparr>st_parser = new_parser f, st_rest = [], st_error = None\<rparr>" by (simp add: stream_ok_def)
  from ws.feed_concat [OF this] show ?thesis
    using parse_wire [OF assms(1,2)] assms(3) by (simp add: feed_def)
qed

theorem parser_reads_wire_witness:
  "foldl (feed env_le) \<lparr>st_parser = new_parser frame_clear, st_rest = [], st_error = None\<rparr>
     [[0x81], [0x85, 0x37, 0xfa], [0x21, 0x3d, 0x7f, 0x9f, 0x4d], [0x51, 0x58, 0x89]] =
   \<lparr>st_parser = \<lparr>p_frame = frame_of 1 True (Some [0x37, 0xfa, 0x21, 0x3d]) [0x48, 0x65, 0x6c, 0x6c, 0x6f],
      p_buffer = [], p_state = Completed\<rparr>, st_rest = [0x89], st_error = None\<rparr>"
proof (rule parser_reads_wire [OF env_le_ok])
  show "frame_valid 1 True (Some [0x37, 0xfa, 0x21, 0x3d]) [0x48, 0x65, 0x6c, 0x6c, 0x6f]"
    by (simp add: frame_valid_def opcode_class_def MaxPayloadLength_def)
  show "concat [[0x81], [0x85, 0x37, 0xfa], [0x21, 0x3d, 0x7f, 0x9f, 0x4d], [0x51, 0x58, 0x89]] =
    wire_frame 1 True (Some [0x37, 0xfa, 0x21, 0x3d]) [0x48, 0x65, 0x6c, 0x6c, 0x6f] @ [0x89]"
    by code_simp
qed

end
