(* ===== verification/WebSocketHandshake.thy ===== *)
theory WebSocketHandshake
  imports WebSocketFrame
begin

text \<open>
  The opening handshake of a WebSocket (\<^verbatim>\<open>src/jnc_ext/jnc_io_websocket\<close>): the table of headers
  (\<^verbatim>\<open>jnc_io_WebSocketHandshakeHeaders\<close>), requests and responses
  (\<^verbatim>\<open>jnc_io_WebSocketHandshake.cpp\<close>) and the incremental parser
  (\<^verbatim>\<open>jnc_io_WebSocketHandshakeParser.cpp\<close>). Strings are lists of characters. What the code takes
  from the axl library and OpenSSL and cannot be read here is a record of parameters: which
  characters count as white space when a string is trimmed, the folding of case, the key under
  which a hash table of strings files a name, base64 and SHA-1.
\<close>

section \<open>Strings\<close>

record hs_env =
  e_space :: "char \<Rightarrow> bool"
  e_lower :: "char \<Rightarrow> char"
  e_key :: "string \<Rightarrow> string"
  e_encode :: "byte list \<Rightarrow> string"
  e_decode :: "string \<Rightarrow> byte list"
  e_sha1 :: "string \<Rightarrow> byte list"

definition str_find :: "char \<Rightarrow> string \<Rightarrow> nat option" where
  "str_find c s = (let n = length (takeWhile (\<lambda>x. x \<noteq> c) s) in if n < length s then Some n else None)"

definition trim_left :: "hs_env \<Rightarrow> string \<Rightarrow> string" where
  "trim_left E s = dropWhile (e_space E) s"

definition trim_right :: "hs_env \<Rightarrow> string \<Rightarrow> string" where
  "trim_right E s = rev (dropWhile (e_space E) (rev s))"

definition trim :: "hs_env \<Rightarrow> string \<Rightarrow> string" where
  "trim E s = trim_right E (trim_left E s)"

definition same_ignore_case :: "hs_env \<Rightarrow> string \<Rightarrow> string \<Rightarrow> bool" where
  "same_ignore_case E s t \<longleftrightarrow> map (e_lower E) s = map (e_lower E) t"

definition is_prefix :: "string \<Rightarrow> string \<Rightarrow> bool" where
  "is_prefix p s \<longleftrightarrow> take (length p) s = p"

text \<open>What a string passed with \<^verbatim>\<open>%s\<close> prints, and \<^verbatim>\<open>strtoul\<close> of the C library with base 10.\<close>

definition c_str :: "string \<Rightarrow> string" where
  "c_str s = takeWhile (\<lambda>c. c \<noteq> CHR 0x00) s"

definition c_isspace :: "char \<Rightarrow> bool" where
  "c_isspace c \<longleftrightarrow> c \<in> set [CHR '' '', CHR 0x09, CHR 0x0A, CHR 0x0B, CHR 0x0C, CHR 0x0D]"

definition strtoul :: "string \<Rightarrow> nat" where
  "strtoul s =
     (let s1 = dropWhile c_isspace s;
          neg = (s1 \<noteq> [] \<and> hd s1 = CHR ''-'');
          s2 = (if s1 \<noteq> [] \<and> (hd s1 = CHR ''-'' \<or> hd s1 = CHR ''+'') then tl s1 else s1);
          v = dec_value (takeWhile is_digit s2)
      in if v \<ge> 2 ^ 64 then 2 ^ 64 - 1 else if neg then szt (2 ^ 64 - v) else v)"

definition crlf :: string where
  "crlf = [CHR 0x0D, CHR 0x0A]"

section \<open>Headers\<close>

datatype std_header = UserAgent | Host | Origin | Connection | Upgrade | WebSocketVersion
  | WebSocketExtension | WebSocketProtocol | WebSocketKey | WebSocketAccept

definition std_header_map :: "(string \<times> std_header) list" where
  "std_header_map =
     [(''User-Agent'', UserAgent), (''Host'', Host), (''Origin'', Origin), (''Connection'', Connection),
      (''Upgrade'', Upgrade), (''Sec-WebSocket-Version'', WebSocketVersion),
      (''Sec-WebSocket-Extensions'', WebSocketExtension), (''Sec-WebSocket-Protocol'', WebSocketProtocol),
      (''Sec-WebSocket-Key'', WebSocketKey), (''Sec-WebSocket-Accept'', WebSocketAccept)]"

definition find_std :: "hs_env \<Rightarrow> string \<Rightarrow> std_header option" where
  "find_std E name = map_option snd (find (\<lambda>e. same_ignore_case E (fst e) name) std_header_map)"

text \<open>The list and the array of the extra values hold the same values in the same order: one
  field stands for both. A header is a place in the array of headers.\<close>

record ws_header =
  h_nameIdx :: nat
  h_name :: string
  h_firstValue :: string
  h_extra :: "string list"

record ws_headers =
  hs_nameCount :: nat
  hs_map :: "string \<Rightarrow> nat option"
  hs_array :: "ws_header list"
  hs_std :: "std_header \<Rightarrow> nat option"

definition headers_clear :: ws_headers where
  "headers_clear = \<lparr>hs_nameCount = 0, hs_map = Map.empty, hs_array = [], hs_std = Map.empty\<rparr>"

definition header_add :: "string \<Rightarrow> ws_header \<Rightarrow> ws_header" where
  "header_add v h = (if h_firstValue h = [] then h\<lparr>h_firstValue := v\<rparr> else h\<lparr>h_extra := h_extra h @ [v]\<rparr>)"

definition add_header :: "hs_env \<Rightarrow> string \<Rightarrow> string \<Rightarrow> ws_headers \<Rightarrow> nat \<times> ws_headers" where
  "add_header E name v H =
     (case hs_map H (e_key E name) of
        Some i \<Rightarrow> (i, H\<lparr>hs_array := (hs_array H)[i := header_add v (hs_array H ! i)]\<rparr>)
      | None \<Rightarrow>
          (let i = length (hs_array H);
               h = \<lparr>h_nameIdx = i, h_name = name, h_firstValue = [], h_extra = []\<rparr>
           in (i, H\<lparr>hs_map := (hs_map H)(e_key E name \<mapsto> i),
                    hs_array := hs_array H @ [header_add v h],
                    hs_nameCount := i + 1,
                    hs_std := (case find_std E name of None \<Rightarrow> hs_std H | Some sh \<Rightarrow> (hs_std H)(sh \<mapsto> i))\<rparr>)))"

definition add_headers :: "hs_env \<Rightarrow> ws_headers \<Rightarrow> ws_headers \<Rightarrow> ws_headers" where
  "add_headers E src H =
     foldl (\<lambda>H h. let (i, H1) = add_header E (h_name h) (h_firstValue h) H
                  in H1\<lparr>hs_array := (hs_array H1)[i := foldl (\<lambda>d v. header_add v d) (hs_array H1 ! i) (h_extra h)]\<rparr>)
       H (hs_array src)"

definition getName :: "ws_headers \<Rightarrow> nat \<Rightarrow> string" where
  "getName H i = (if i < length (hs_array H) then h_name (hs_array H ! i) else [])"

definition getValueCount :: "ws_headers \<Rightarrow> nat \<Rightarrow> nat" where
  "getValueCount H i = (if i < length (hs_array H) then length (h_extra (hs_array H ! i)) + 1 else 0)"

definition getFirstValue :: "ws_headers \<Rightarrow> nat \<Rightarrow> string" where
  "getFirstValue H i = (if i < length (hs_array H) then h_firstValue (hs_array H ! i) else [])"

text \<open>Reading the array of extra values out of its bounds is \<open>None\<close>.\<close>

definition getValue :: "ws_headers \<Rightarrow> nat \<Rightarrow> nat \<Rightarrow> string option" where
  "getValue H nameIdx valueIdx =
     (if nameIdx \<ge> length (hs_array H) then Some []
      else
        (let h = hs_array H ! nameIdx
         in if valueIdx > length (h_extra h) then Some []
            else if valueIdx = 0 then Some (h_firstValue h)
            else if valueIdx < length (h_extra h) then Some (h_extra h ! valueIdx)
            else None))"

definition findName :: "hs_env \<Rightarrow> ws_headers \<Rightarrow> string \<Rightarrow> nat option" where
  "findName E H name = map_option (\<lambda>i. h_nameIdx (hs_array H ! i)) (hs_map H (e_key E name))"

definition findValue :: "hs_env \<Rightarrow> ws_headers \<Rightarrow> string \<Rightarrow> string" where
  "findValue E H name =
     (case hs_map H (e_key E name) of None \<Rightarrow> [] | Some i \<Rightarrow> h_firstValue (hs_array H ! i))"

definition format_header :: "string \<Rightarrow> string \<Rightarrow> ws_header \<Rightarrow> string" where
  "format_header delimiter eol h =
     c_str (h_name h) @ '': '' @ c_str (h_firstValue h) @ crlf @
     concat (map (\<lambda>v. h_name h @ delimiter @ v @ eol) (h_extra h))"

definition appendFormat :: "ws_headers \<Rightarrow> string \<Rightarrow> string \<Rightarrow> string \<Rightarrow> string" where
  "appendFormat H s delimiter eol = foldl (\<lambda>s h. s @ format_header delimiter eol h) s (hs_array H)"

section \<open>Requests and responses\<close>

record ws_handshake =
  hd_httpVersion :: "32 word"
  hd_statusCode :: "32 word"
  hd_headers :: ws_headers
  hd_resource :: string
  hd_reasonPhrase :: string
  hd_rawData :: string

definition new_handshake :: ws_handshake where
  "new_handshake = \<lparr>hd_httpVersion = 0, hd_statusCode = 0, hd_headers = headers_clear,
     hd_resource = [], hd_reasonPhrase = [], hd_rawData = []\<rparr>"

definition handshake_clear :: "ws_handshake \<Rightarrow> ws_handshake" where
  "handshake_clear h = h\<lparr>hd_resource := [], hd_reasonPhrase := [], hd_rawData := [], hd_statusCode := 0,
     hd_headers := headers_clear\<rparr>"

definition add_all :: "hs_env \<Rightarrow> (string \<times> string) list \<Rightarrow> ws_headers \<Rightarrow> ws_headers" where
  "add_all E kvs H = foldl (\<lambda>H (k, v). snd (add_header E k v H)) H kvs"

definition finalizeBuild :: "hs_env \<Rightarrow> string \<Rightarrow> ws_headers option \<Rightarrow> ws_handshake \<Rightarrow> string \<times> ws_handshake" where
  "finalizeBuild E s extra h =
     (let H = (case extra of None \<Rightarrow> hd_headers h | Some x \<Rightarrow> add_headers E x (hd_headers h));
          s' = appendFormat H s '': '' crlf @ crlf
      in (s', h\<lparr>hd_headers := H, hd_rawData := s'\<rparr>))"

definition buildRequest ::
  "hs_env \<Rightarrow> string \<Rightarrow> string \<Rightarrow> string \<Rightarrow> ws_headers option \<Rightarrow> ws_handshake \<Rightarrow> string \<times> ws_handshake" where
  "buildRequest E resource host key extra h =
     finalizeBuild E (''GET '' @ c_str resource @ '' HTTP/1.1'' @ crlf) extra
       (h\<lparr>hd_httpVersion := 0x0101, hd_resource := resource,
          hd_headers := add_all E [(''Host'', host), (''Connection'', ''Upgrade''), (''Upgrade'', ''websocket''),
            (''Sec-WebSocket-Version'', ''13''), (''Sec-WebSocket-Key'', key)] (hd_headers h)\<rparr>)"

definition calc_key_hash :: "hs_env \<Rightarrow> string \<Rightarrow> byte list" where
  "calc_key_hash E key = e_sha1 E (key @ ''258EAFA5-E914-47DA-95CA-C5AB0DC85B11'')"

text \<open>A request without the key header (a null pointer in the code) gives \<open>None\<close>.\<close>

definition buildResponse ::
  "hs_env \<Rightarrow> nat \<Rightarrow> string \<Rightarrow> ws_handshake \<Rightarrow> ws_headers option \<Rightarrow> ws_handshake \<Rightarrow> (string \<times> ws_handshake) option" where
  "buildResponse E statusCode reasonPhrase req extra h =
     (case hs_std (hd_headers req) WebSocketKey of
        None \<Rightarrow> None
      | Some i \<Rightarrow>
          (let acceptKey = e_encode E (calc_key_hash E (h_firstValue (hs_array (hd_headers req) ! i)))
           in Some (finalizeBuild E (''HTTP/1.1 '' @ format_d statusCode @ '' '' @ c_str reasonPhrase @ crlf) extra
             (h\<lparr>hd_httpVersion := 0x0101, hd_statusCode := 101, hd_reasonPhrase := reasonPhrase,
                hd_headers := add_all E [(''Connection'', ''Upgrade''), (''Upgrade'', ''websocket''),
                  (''Sec-WebSocket-Version'', ''13''), (''Sec-WebSocket-Accept'', acceptKey)] (hd_headers h)\<rparr>))))"

section \<open>The parser\<close>

datatype hs_state = RequestLine | ResponseLine | HeaderLine | HsCompleted

datatype hs_error = LineTooLong | MissingResource | UnexpectedVerb | MissingVersion | VersionPrefix
  | MissingStatusCode | MissingReasonPhrase | InvalidHeaderLine | UnsupportedVersion
  | NotSwitching "32 word" string | MissingHeaders | MissingUpgrade | UnexpectedUpgrade
  | BadAcceptFormat | AcceptMismatch

record hs_parser =
  hp_handshake :: ws_handshake
  hp_line :: string
  hp_state :: hs_state
  hp_key :: string

text \<open>\<^verbatim>\<open>findInCsvStringIgnoreCase\<close> as it is written: the rest of the string is taken from the place
  \<open>i + 1\<close>, where \<open>i\<close> counts the elements.\<close>

lemma trim_left_length: "length (trim_left E s) \<le> length s"
  by (simp add: trim_left_def length_dropWhile_le)

lemma str_find_some: "str_find c s = Some n \<Longrightarrow> n < length s"
  by (auto simp: str_find_def Let_def split: if_splits)

function find_csv :: "hs_env \<Rightarrow> string \<Rightarrow> string \<Rightarrow> nat \<Rightarrow> nat option" where
  "find_csv E s v i =
     (case str_find (CHR '','') s of
        None \<Rightarrow> (if same_ignore_case E s v then Some i else None)
      | Some delim \<Rightarrow>
          (if same_ignore_case E (trim_right E (take delim s)) v then Some i
           else find_csv E (trim_left E (drop (i + 1) s)) v (i + 1)))"
  by pat_completeness auto
termination
proof (relation "measure (\<lambda>(E, s, v, i). length s)", goal_cases)
  case (2 E s v i delim)
  then show ?case using str_find_some [OF 2(1)] trim_left_length [of E "drop (i + 1) s"] by auto
qed simp

declare find_csv.simps [simp del]

definition findInCsvStringIgnoreCase :: "hs_env \<Rightarrow> string \<Rightarrow> string \<Rightarrow> nat option" where
  "findInCsvStringIgnoreCase E s v = find_csv E s v 0"

definition new_hs_parser :: "ws_handshake \<Rightarrow> string \<Rightarrow> hs_parser" where
  "new_hs_parser h key =
     \<lparr>hp_handshake = handshake_clear h, hp_line = [],
      hp_state = (if key = [] then RequestLine else ResponseLine), hp_key = key\<rparr>"

definition MaxLineLength :: nat where
  "MaxLineLength = 8 * 1024"

definition bufferLine :: "hs_parser \<Rightarrow> string \<Rightarrow> (hs_error + nat) \<times> hs_parser" where
  "bufferLine P p =
     (let sz = (case str_find (CHR 0x0A) p of None \<Rightarrow> length p | Some lf \<Rightarrow> lf + 1)
      in if length (hp_line P) + sz > MaxLineLength then (Inl LineTooLong, P)
         else (Inr sz, P\<lparr>hp_line := hp_line P @ take sz p\<rparr>))"

text \<open>A line is read or an error is given.\<close>

type_synonym hs_result = "hs_error option \<times> hs_parser"

definition set_handshake :: "(ws_handshake \<Rightarrow> ws_handshake) \<Rightarrow> hs_parser \<Rightarrow> hs_parser" where
  "set_handshake f P = P\<lparr>hp_handshake := f (hp_handshake P)\<rparr>"

definition parse_version :: "hs_parser \<Rightarrow> hs_parser" where
  "parse_version P =
     (let line = drop (length ''HTTP/'') (hp_line P);
          P1 = set_handshake (\<lambda>h. h\<lparr>hd_httpVersion := push_bit 8 (of_nat (strtoul line))\<rparr>) (P\<lparr>hp_line := line\<rparr>)
      in case str_find (CHR ''.'') line of
           None \<Rightarrow> P1
         | Some delim \<Rightarrow>
             (let line' = drop (delim + 1) line
              in set_handshake (\<lambda>h. h\<lparr>hd_httpVersion := hd_httpVersion h OR of_nat (strtoul line')\<rparr>)
                   (P1\<lparr>hp_line := line'\<rparr>)))"

definition parseRequestLine :: "hs_env \<Rightarrow> hs_parser \<Rightarrow> hs_result" where
  "parseRequestLine E P =
     (case str_find (CHR '' '') (hp_line P) of
        None \<Rightarrow> (Some MissingResource, P)
      | Some delim \<Rightarrow>
          if take delim (hp_line P) \<noteq> ''GET'' then (Some UnexpectedVerb, P)
          else
            (let line1 = trim_left E (drop (delim + 1) (hp_line P)); P1 = P\<lparr>hp_line := line1\<rparr>
             in case str_find (CHR '' '') line1 of
                  None \<Rightarrow> (Some MissingVersion, P1)
                | Some delim \<Rightarrow>
                    (let P2 = set_handshake (\<lambda>h. h\<lparr>hd_resource := take delim line1\<rparr>) P1;
                         line2 = trim_left E (drop (delim + 1) line1);
                         P3 = P2\<lparr>hp_line := line2\<rparr>
                     in if \<not> is_prefix ''HTTP/'' line2 then (Some VersionPrefix, P3)
                        else (None, (parse_version P3)\<lparr>hp_state := HeaderLine\<rparr>))))"

definition parse_status :: "hs_env \<Rightarrow> hs_parser \<Rightarrow> hs_result" where
  "parse_status E P =
     (case str_find (CHR '' '') (hp_line P) of
        None \<Rightarrow> (Some MissingStatusCode, P)
      | Some delim \<Rightarrow>
          (let line = trim_left E (drop (delim + 1) (hp_line P));
               P1 = set_handshake (\<lambda>h. h\<lparr>hd_statusCode := of_nat (strtoul line)\<rparr>) (P\<lparr>hp_line := line\<rparr>)
           in case str_find (CHR '' '') line of
                None \<Rightarrow> (Some MissingReasonPhrase, P1)
              | Some delim \<Rightarrow>
                  (let line' = trim_left E (drop (delim + 1) line)
                   in (None, set_handshake (\<lambda>h. h\<lparr>hd_reasonPhrase := line'\<rparr>)
                         (P1\<lparr>hp_line := line', hp_state := HeaderLine\<rparr>)))))"

definition parseResponseLine :: "hs_env \<Rightarrow> hs_parser \<Rightarrow> hs_result" where
  "parseResponseLine E P =
     (if \<not> is_prefix ''HTTP/'' (hp_line P) then (Some VersionPrefix, P) else parse_status E (parse_version P))"

definition std_value :: "ws_headers \<Rightarrow> std_header \<Rightarrow> string option" where
  "std_value H sh = map_option (\<lambda>i. h_firstValue (hs_array H ! i)) (hs_std H sh)"

definition verifyAccept :: "hs_env \<Rightarrow> hs_parser \<Rightarrow> hs_error option" where
  "verifyAccept E P =
     (let accept = the (std_value (hd_headers (hp_handshake P)) WebSocketAccept);
          acceptHash = e_decode E accept
      in if length acceptHash \<noteq> 20 then Some BadAcceptFormat
         else if take 20 acceptHash \<noteq> take 20 (calc_key_hash E (hp_key P)) then Some AcceptMismatch
         else None)"

definition required_headers :: "string \<Rightarrow> std_header list" where
  "required_headers key =
     (if key \<noteq> [] then [Connection, Upgrade, WebSocketAccept]
      else [Host, Connection, Upgrade, WebSocketVersion, WebSocketKey])"

text \<open>The checks of \<^verbatim>\<open>finalize\<close>, in order: the first that fails is the error.\<close>

definition check_handshake :: "hs_env \<Rightarrow> hs_parser \<Rightarrow> hs_error option" where
  "check_handshake E P =
     (let h = hp_handshake P; H = hd_headers h
      in if hd_httpVersion h < 0x0101 then Some UnsupportedVersion
         else if hp_key P \<noteq> [] \<and> hd_statusCode h \<noteq> 101
         then Some (NotSwitching (hd_statusCode h) (hd_reasonPhrase h))
         else if \<exists>sh\<in>set (required_headers (hp_key P)). std_value H sh = None then Some MissingHeaders
         else if findInCsvStringIgnoreCase E (the (std_value H Connection)) ''upgrade'' = None
         then Some MissingUpgrade
         else if \<not> same_ignore_case E (the (std_value H Upgrade)) ''websocket'' then Some UnexpectedUpgrade
         else if hp_key P \<noteq> [] then verifyAccept E P
         else None)"

definition finalize :: "hs_env \<Rightarrow> hs_parser \<Rightarrow> hs_result" where
  "finalize E P =
     (case check_handshake E P of
        Some e \<Rightarrow> (Some e, P)
      | None \<Rightarrow> (None, P\<lparr>hp_state := HsCompleted\<rparr>))"

definition parseHeaderLine :: "hs_env \<Rightarrow> hs_parser \<Rightarrow> hs_result" where
  "parseHeaderLine E P =
     (if hp_line P = [] then finalize E P
      else
        (case str_find (CHR '':'') (hp_line P) of
           None \<Rightarrow> (Some InvalidHeaderLine, P)
         | Some delim \<Rightarrow>
             (let key = trim_right E (take delim (hp_line P));
                  v = trim_left E (drop (delim + 1) (hp_line P))
              in (None, set_handshake (\<lambda>h. h\<lparr>hd_headers := snd (add_header E key v (hd_headers h))\<rparr>) P))))"

definition parse_line :: "hs_env \<Rightarrow> hs_parser \<Rightarrow> hs_result" where
  "parse_line E P =
     (case hp_state P of
        RequestLine \<Rightarrow> parseRequestLine E P
      | ResponseLine \<Rightarrow> parseResponseLine E P
      | HeaderLine \<Rightarrow> parseHeaderLine E P
      | HsCompleted \<Rightarrow> (None, P))"

text \<open>The loop of \<^verbatim>\<open>parse\<close>: the input not used, or an error.\<close>

lemma bufferLine_progress: "bufferLine P p = (Inr n, P') \<Longrightarrow> p \<noteq> [] \<Longrightarrow> 0 < n"
  by (auto simp: bufferLine_def Let_def split: option.splits if_splits)

function hs_loop :: "hs_env \<Rightarrow> hs_parser \<Rightarrow> string \<Rightarrow> (hs_error + string) \<times> hs_parser" where
  "hs_loop E P p =
     (if p = [] \<or> hp_state P = HsCompleted then (Inr p, P)
      else
        (case bufferLine P p of
           (Inl e, P1) \<Rightarrow> (Inl e, P1)
         | (Inr n, P1) \<Rightarrow>
             if last (hp_line P1) \<noteq> CHR 0x0A then (Inr (drop n p), P1)
             else
               (case parse_line E (P1\<lparr>hp_line := trim E (hp_line P1)\<rparr>) of
                  (Some e, P2) \<Rightarrow> (Inl e, P2)
                | (None, P2) \<Rightarrow> hs_loop E (P2\<lparr>hp_line := []\<rparr>) (drop n p))))"
  by pat_completeness auto
termination
  by (relation "measure (\<lambda>(E, P, p). length p)") (auto dest!: bufferLine_progress [OF sym])

declare hs_loop.simps [simp del]

definition hs_parse :: "hs_env \<Rightarrow> hs_parser \<Rightarrow> string \<Rightarrow> (hs_error + nat) \<times> hs_parser" where
  "hs_parse E P p =
     (case hs_loop E P p of
        (Inl e, P') \<Rightarrow> (Inl e, P')
      | (Inr rest, P') \<Rightarrow>
          (let n = length p - length rest
           in (Inr n, set_handshake (\<lambda>h. h\<lparr>hd_rawData := hd_rawData h @ take n p\<rparr>) P')))"

end
