(* ===== verification/WebSocketHandshakeThms.thy ===== *)
theory WebSocketHandshakeThms
  imports WebSocketHandshake
begin

text \<open>
  Correctness of the WebSocket handshake: the table of headers implements a map from names to lists
  of values, the parser does not depend on how its input is cut, it reads back what the builder
  writes, and it completes only a handshake that passes the checks of the protocol.
\<close>

section \<open>The table of headers\<close>

definition header_values :: "ws_header \<Rightarrow> string list" where
  "header_values h = h_firstValue h # h_extra h"

text \<open>The abstract view: the values filed under the key of a name.\<close>

definition values_of :: "hs_env \<Rightarrow> ws_headers \<Rightarrow> string \<Rightarrow> string list" where
  "values_of E H name =
     (case hs_map H (e_key E name) of None \<Rightarrow> [] | Some i \<Rightarrow> header_values (hs_array H ! i))"

definition push_value :: "string \<Rightarrow> string list \<Rightarrow> string list" where
  "push_value v vs = (if vs = [] \<or> hd vs = [] then v # tl vs else vs @ [v])"

definition headers_ok :: "hs_env \<Rightarrow> ws_headers \<Rightarrow> bool" where
  "headers_ok E H \<longleftrightarrow>
     (\<forall>k i. hs_map H k = Some i \<longrightarrow> i < length (hs_array H) \<and> e_key E (h_name (hs_array H ! i)) = k) \<and>
     (\<forall>i < length (hs_array H). hs_map H (e_key E (h_name (hs_array H ! i))) = Some i \<and>
        h_nameIdx (hs_array H ! i) = i) \<and>
     hs_nameCount H = length (hs_array H) \<and>
     (\<forall>sh i. hs_std H sh = Some i \<longrightarrow> i < length (hs_array H) \<and> find_std E (h_name (hs_array H ! i)) = Some sh) \<and>
     (\<forall>i < length (hs_array H). \<forall>sh. find_std E (h_name (hs_array H ! i)) = Some sh \<longrightarrow>
        (\<exists>j. hs_std H sh = Some j \<and> i \<le> j))"

lemma header_add_simps [simp]:
  "h_name (header_add v h) = h_name h" "h_nameIdx (header_add v h) = h_nameIdx h"
  "header_values (header_add v h) = push_value v (header_values h)"
  by (simp_all add: header_add_def header_values_def push_value_def)

lemma headers_clear_ok: "headers_ok E headers_clear"
  by (simp add: headers_ok_def headers_clear_def)

lemma headers_okD:
  assumes "headers_ok E H"
  shows "hs_map H k = Some i \<Longrightarrow> i < length (hs_array H)"
    and "hs_map H k = Some i \<Longrightarrow> e_key E (h_name (hs_array H ! i)) = k"
    and "i < length (hs_array H) \<Longrightarrow> hs_map H (e_key E (h_name (hs_array H ! i))) = Some i"
    and "i < length (hs_array H) \<Longrightarrow> h_nameIdx (hs_array H ! i) = i"
    and "hs_nameCount H = length (hs_array H)"
    and "hs_std H sh = Some i \<Longrightarrow> i < length (hs_array H)"
    and "hs_std H sh = Some i \<Longrightarrow> find_std E (h_name (hs_array H ! i)) = Some sh"
  using assms unfolding headers_ok_def by blast+

lemma add_header_update_ok:
  assumes "headers_ok E H" and "i < length (hs_array H)"
  shows "headers_ok E (H\<lparr>hs_array := (hs_array H)[i := header_add v (hs_array H ! i)]\<rparr>)"
proof -
  have n: "h_name ((hs_array H)[i := header_add v (hs_array H ! i)] ! j) = h_name (hs_array H ! j)"
    "h_nameIdx ((hs_array H)[i := header_add v (hs_array H ! i)] ! j) = h_nameIdx (hs_array H ! j)" for j
    using assms(2) by (cases "j = i"; simp)+
  show ?thesis using assms(1) unfolding headers_ok_def by (simp add: n)
qed

lemma add_header_new_ok:
  assumes "headers_ok E H" and "hs_map H (e_key E name) = None"
  shows "headers_ok E (snd (add_header E name v H))"
proof -
  have k: "e_key E (h_name (hs_array H ! i)) \<noteq> e_key E name" if "i < length (hs_array H)" for i
    using headers_okD(3) [OF assms(1) that] assms(2) by auto
  have l: "i < length (hs_array H)" if "hs_map H k = Some i" for k i using headers_okD(1) [OF assms(1) that] .
  show ?thesis
  proof (cases "find_std E name")
    case None
    then show ?thesis
      using assms k unfolding headers_ok_def add_header_def
      by (auto simp: nth_append less_Suc_eq Let_def)
  next
    case (Some sh)
    have "\<exists>j. ((hs_std H)(sh \<mapsto> length (hs_array H))) s = Some j \<and> i \<le> j"
      if "i < length (hs_array H)" "find_std E (h_name (hs_array H ! i)) = Some s" for i s
      using assms(1) that unfolding headers_ok_def by auto
    then show ?thesis
      using assms k Some unfolding headers_ok_def add_header_def
      by (auto simp: nth_append less_Suc_eq Let_def)
  qed
qed

text \<open>Adding a header keeps the table consistent (names and indices agree, every standard
  header is found through its own table) and appends the value to the values of its name; an empty
  first value is overwritten. The values of other names do not change.\<close>

theorem add_header_refines:
  assumes "headers_ok E H" and "add_header E name v H = (i, H')"
  shows "headers_ok E H' \<and> i < length (hs_array H') \<and> findName E H' name = Some i \<and>
    (\<forall>n. values_of E H' n =
      (if e_key E n = e_key E name then push_value v (values_of E H n) else values_of E H n))"
proof (cases "hs_map H (e_key E name)")
  case None
  have l: "j < length (hs_array H)" if "hs_map H k = Some j" for k j using headers_okD(1) [OF assms(1) that] .
  have "headers_ok E H'" using add_header_new_ok [OF assms(1) None, of v] assms(2) by simp
  then show ?thesis
    using assms(2) None
    by (auto simp: add_header_def Let_def values_of_def push_value_def findName_def header_values_def
        header_add_def nth_append dest: l split: option.splits if_splits)
next
  case (Some j)
  have j: "j < length (hs_array H)" using headers_okD(1) [OF assms(1) Some] .
  have inj: "j \<noteq> m" if "hs_map H (e_key E n) = Some m" "e_key E n \<noteq> e_key E name" for m n
    using headers_okD(2) [OF assms(1) that(1)] headers_okD(2) [OF assms(1) Some] that(2) by auto
  show ?thesis
    using assms(2) Some j add_header_update_ok [OF assms(1) j, of v] headers_okD(4) [OF assms(1) j]
    by (auto simp: add_header_def values_of_def findName_def inj split: option.splits)
qed

text \<open>\<^verbatim>\<open>getValue\<close> gives the first value for the index 0, but for the index \<open>k > 0\<close> it gives the
  value at \<open>k + 1\<close>, and for the last index it reads past the array of extra values.\<close>

theorem getValue_off_by_one:
  assumes "n < length (hs_array H)"
  shows "getValue H n 0 = Some (header_values (hs_array H ! n) ! 0) \<and>
    (\<forall>k. 0 < k \<and> k + 1 < getValueCount H n \<longrightarrow> getValue H n k = Some (header_values (hs_array H ! n) ! (k + 1))) \<and>
    (1 < getValueCount H n \<longrightarrow> getValue H n (getValueCount H n - 1) = None)"
  using assms by (simp add: getValue_def getValueCount_def header_values_def)

text \<open>A table with one header of three values, for the witnesses.\<close>

definition env_plain :: hs_env where
  "env_plain = \<lparr>e_space = c_isspace, e_lower = (\<lambda>c. c), e_key = (\<lambda>s. s), e_encode = (\<lambda>d. []),
     e_decode = (\<lambda>s. []), e_sha1 = (\<lambda>s. [])\<rparr>"

definition three_values :: ws_headers where
  "three_values = add_all env_plain [(''X'', ''a''), (''X'', ''b''), (''X'', ''c'')] headers_clear"

theorem add_header_refines_witness:
  "\<exists>H. snd (add_header env_plain ''Host'' ''h'' headers_clear) = H \<and> headers_ok env_plain H \<and>
    values_of env_plain H ''Host'' = [''h'']"
proof -
  obtain i H where H: "add_header env_plain ''Host'' ''h'' headers_clear = (i, H)" by fastforce
  show ?thesis
    using add_header_refines [OF headers_clear_ok H] H
    by (simp add: values_of_def headers_clear_def push_value_def)
qed

theorem getValue_off_by_one_witness:
  "getValue three_values 0 1 = Some ''c'' \<and> getValue three_values 0 2 = None"
proof -
  have c: "getValueCount three_values 0 = 3" "header_values (hs_array three_values ! 0) = [''a'', ''b'', ''c'']"
    "length (hs_array three_values) = 1" by code_simp+
  show ?thesis using getValue_off_by_one [of 0 three_values] c by simp
qed

section \<open>The parser does not depend on how its input is cut\<close>

text \<open>The outcome of the loop: after an error the parser is not looked at any more.\<close>

definition hs_run :: "hs_env \<Rightarrow> hs_parser \<Rightarrow> string \<Rightarrow> hs_error + string \<times> hs_parser" where
  "hs_run E P p = (case hs_loop E P p of (Inl e, _) \<Rightarrow> Inl e | (Inr rest, P') \<Rightarrow> Inr (rest, P'))"

lemma hs_run_simps [simp]:
  "hs_run E P [] = Inr ([], P)" "hp_state P = HsCompleted \<Longrightarrow> hs_run E P p = Inr (p, P)"
  by (simp_all add: hs_run_def hs_loop.simps)

lemma takeWhile_neq:
  "c \<notin> set a \<Longrightarrow> takeWhile (\<lambda>x. x \<noteq> c) (a @ c # s) = a" "c \<notin> set a \<Longrightarrow> takeWhile (\<lambda>x. x \<noteq> c) a = a"
  by (induction a) auto

lemma str_find_append:
  "c \<notin> set a \<Longrightarrow> str_find c (a @ c # s) = Some (length a)"
  by (simp add: str_find_def takeWhile_neq)

lemma str_find_none: "str_find c s = None \<longleftrightarrow> c \<notin> set s"
proof (cases "c \<in> set s")
  case True
  then obtain a b where "s = a @ c # b" "c \<notin> set a" by (metis split_list_first)
  then show ?thesis using str_find_append [of c a b] by simp
next
  case False
  then show ?thesis by (simp add: str_find_def takeWhile_neq)
qed

lemma str_find_nth: "str_find c s = Some n \<Longrightarrow> s ! n = c \<and> n < length s \<and> c \<notin> set (take n s)"
proof -
  assume s: "str_find c s = Some n"
  then have "c \<in> set s" using str_find_none [of c s] by auto
  then obtain a b where "s = a @ c # b" "c \<notin> set a" by (metis split_list_first)
  then show ?thesis using s str_find_append [of c a b] by auto
qed

text \<open>One turn: a part of a line is kept, and a whole line is handled.\<close>

lemma hs_run_partial:
  assumes "p \<noteq> []" and "hp_state P \<noteq> HsCompleted" and "CHR 0x0A \<notin> set p"
  shows "hs_run E P p =
    (if length (hp_line P) + length p > MaxLineLength then Inl LineTooLong
     else Inr ([], P\<lparr>hp_line := hp_line P @ p\<rparr>))"
proof -
  have "last p \<noteq> CHR 0x0A" using assms(1,3) last_in_set by metis
  moreover have "str_find (CHR 0x0A) p = None" using assms(3) by (simp add: str_find_none)
  ultimately show ?thesis
    using assms(1,2) by (simp add: hs_run_def hs_loop.simps [of E P p] bufferLine_def)
qed

lemma hs_run_line:
  assumes "hp_state P \<noteq> HsCompleted" and "CHR 0x0A \<notin> set l"
  shows "hs_run E P (l @ CHR 0x0A # r) =
    (if length (hp_line P) + length l + 1 > MaxLineLength then Inl LineTooLong
     else (case parse_line E (P\<lparr>hp_line := trim E (hp_line P @ l @ [CHR 0x0A])\<rparr>) of
             (Some e, _) \<Rightarrow> Inl e
           | (None, P2) \<Rightarrow> hs_run E (P2\<lparr>hp_line := []\<rparr>) r))"
  using assms(1) str_find_append [OF assms(2), of r]
  by (auto simp: hs_run_def hs_loop.simps [of E P "l @ CHR 0x0A # r"] bufferLine_def split: prod.split option.split)

lemma split_line:
  obtains (none) "CHR 0x0A \<notin> set p" | (line) l r where "p = l @ CHR 0x0A # r" "CHR 0x0A \<notin> set l"
  by (metis split_list_first)

lemma hs_run_append:
  "hs_run E P (p @ q) = (case hs_run E P p of Inl e \<Rightarrow> Inl e | Inr (rest, P') \<Rightarrow> hs_run E P' (rest @ q))"
proof (induction "length p" arbitrary: P p rule: less_induct)
  case less
  show ?case
  proof (cases "p = [] \<or> hp_state P = HsCompleted")
    case True
    then show ?thesis by auto
  next
    case False
    show ?thesis
    proof (cases p rule: split_line)
      case (line l r)
      have "hs_run E Q (r @ q) = (case hs_run E Q r of Inl e \<Rightarrow> Inl e | Inr (rest, P') \<Rightarrow> hs_run E P' (rest @ q))" for Q
        using less [of r] line by simp
      then show ?thesis
        using False line hs_run_line [of P l E r] hs_run_line [of P l E "r @ q"]
        by (auto split: prod.split option.split)
    next
      case none
      note part = hs_run_partial [OF _ _ none, of P E]
      show ?thesis
      proof (cases q rule: split_line)
        case (line l r)
        then have "CHR 0x0A \<notin> set (p @ l)" using none by simp
        from hs_run_line [OF _ this, of P E r] hs_run_line [OF _ line(2), of "P\<lparr>hp_line := hp_line P @ p\<rparr>" E r] part
        show ?thesis using False line(1) by auto
      next
        case none': none
        then have "CHR 0x0A \<notin> set (p @ q)" using none by simp
        from hs_run_partial [OF _ _ this, of P E] hs_run_partial [OF _ _ none', of "P\<lparr>hp_line := hp_line P @ p\<rparr>" E] part
        show ?thesis using False by (cases "q = []") auto
      qed
    qed
  qed
qed

text \<open>The raw data do not take part in the parsing.\<close>

definition add_raw :: "string \<Rightarrow> hs_parser \<Rightarrow> hs_parser" where
  "add_raw s = set_handshake (\<lambda>h. h\<lparr>hd_rawData := hd_rawData h @ s\<rparr>)"

lemma add_raw_simps [simp]:
  "hp_line (add_raw s P) = hp_line P" "hp_state (add_raw s P) = hp_state P" "hp_key (add_raw s P) = hp_key P"
  "add_raw s (P\<lparr>hp_line := l\<rparr>) = (add_raw s P)\<lparr>hp_line := l\<rparr>"
  "add_raw s (P\<lparr>hp_state := st\<rparr>) = (add_raw s P)\<lparr>hp_state := st\<rparr>"
  "hd_headers (hp_handshake (add_raw s P)) = hd_headers (hp_handshake P)"
  "hd_httpVersion (hp_handshake (add_raw s P)) = hd_httpVersion (hp_handshake P)"
  "hd_statusCode (hp_handshake (add_raw s P)) = hd_statusCode (hp_handshake P)"
  "hd_reasonPhrase (hp_handshake (add_raw s P)) = hd_reasonPhrase (hp_handshake P)"
  "hd_rawData (hp_handshake (add_raw s P)) = hd_rawData (hp_handshake P) @ s"
  "add_raw [] P = P" "add_raw t (add_raw s P) = add_raw (s @ t) P"
  by (simp_all add: add_raw_def set_handshake_def)

lemma parse_version_raw: "parse_version (add_raw s P) = add_raw s (parse_version P)"
  by (simp add: parse_version_def Let_def set_handshake_def add_raw_def del: add_raw_simps split: option.split)

lemma parse_status_raw:
  "parse_status E (add_raw s P) = (case parse_status E P of (e, P') \<Rightarrow> (e, add_raw s P'))"
  by (simp add: parse_status_def Let_def set_handshake_def add_raw_def del: add_raw_simps split: option.split)

lemma verifyAccept_raw: "verifyAccept E (add_raw s P) = verifyAccept E P"
  by (simp add: verifyAccept_def Let_def)

lemma check_handshake_raw: "check_handshake E (add_raw s P) = check_handshake E P"
  unfolding check_handshake_def Let_def add_raw_simps verifyAccept_raw by (rule refl)

lemma parse_line_raw:
  "parse_line E (add_raw s P) = (case parse_line E P of (e, P') \<Rightarrow> (e, add_raw s P'))"
proof -
  note d = set_handshake_def add_raw_def parse_version_def Let_def
  have 1: "parseRequestLine E (add_raw s P) = (case parseRequestLine E P of (e, P') \<Rightarrow> (e, add_raw s P'))"
    by (simp add: parseRequestLine_def d del: add_raw_simps split: option.split)
  have 2: "parseResponseLine E (add_raw s P) = (case parseResponseLine E P of (e, P') \<Rightarrow> (e, add_raw s P'))"
    by (simp add: parseResponseLine_def parse_version_raw parse_status_raw)
  have "set_handshake (\<lambda>h. h\<lparr>hd_headers := snd (add_header E k v (hd_headers h))\<rparr>) (add_raw s P) =
    add_raw s (set_handshake (\<lambda>h. h\<lparr>hd_headers := snd (add_header E k v (hd_headers h))\<rparr>) P)" for k v
    by (simp add: set_handshake_def add_raw_def)
  then have 3: "parseHeaderLine E (add_raw s P) = (case parseHeaderLine E P of (e, P') \<Rightarrow> (e, add_raw s P'))"
    by (simp add: parseHeaderLine_def finalize_def check_handshake_raw Let_def split: option.split)
  show ?thesis using 1 2 3 by (cases "hp_state P") (simp_all add: parse_line_def)
qed

lemma hs_run_raw:
  "hs_run E (add_raw s P) p = (case hs_run E P p of Inl e \<Rightarrow> Inl e | Inr (rest, P') \<Rightarrow> Inr (rest, add_raw s P'))"
proof (induction "length p" arbitrary: P p rule: less_induct)
  case less
  show ?case
  proof (cases "p = [] \<or> hp_state P = HsCompleted")
    case True
    then show ?thesis by auto
  next
    case False
    show ?thesis
    proof (cases p rule: split_line)
      case (line l r)
      have "hs_run E (add_raw s Q) r = (case hs_run E Q r of Inl e \<Rightarrow> Inl e | Inr (rest, P') \<Rightarrow> Inr (rest, add_raw s P'))" for Q
        using less [of r] line by simp
      then show ?thesis
        using False line hs_run_line [of P l E r] hs_run_line [of "add_raw s P" l E r]
          parse_line_raw [of E s "P\<lparr>hp_line := trim E (hp_line P @ l @ [CHR 0x0A])\<rparr>"]
        by (auto simp flip: add_raw_simps(4) split: prod.split option.split)
    next
      case none
      then show ?thesis
        using False hs_run_partial [OF _ _ none, of P E] hs_run_partial [OF _ _ none, of "add_raw s P" E] by auto
    qed
  qed
qed

text \<open>A stream of bytes of which the parser has read a part.\<close>

datatype hs_stream = Running hs_parser string | Failed hs_error

fun hs_feed :: "hs_env \<Rightarrow> hs_stream \<Rightarrow> string \<Rightarrow> hs_stream" where
  "hs_feed E (Failed e) xs = Failed e"
| "hs_feed E (Running P rest) xs =
     (case hs_parse E P (rest @ xs) of
        (Inl e, _) \<Rightarrow> Failed e
      | (Inr n, P') \<Rightarrow> Running P' (drop n (rest @ xs)))"

fun hs_stream_ok :: "hs_stream \<Rightarrow> bool" where
  "hs_stream_ok (Failed e) = True"
| "hs_stream_ok (Running P rest) = (rest = [] \<or> hp_state P = HsCompleted)"

lemma hs_run_rest:
  "hs_run E P p = Inr (rest, P') \<Longrightarrow> (\<exists>u. p = u @ rest) \<and> (rest = [] \<or> hp_state P' = HsCompleted)"
proof (induction "length p" arbitrary: P p rule: less_induct)
  case less
  show ?case
  proof (cases "p = [] \<or> hp_state P = HsCompleted")
    case True
    then show ?thesis using less.prems by auto
  next
    case False
    show ?thesis
    proof (cases p rule: split_line)
      case (line l r)
      then obtain Q where "hs_run E Q r = Inr (rest, P')"
        using False less.prems hs_run_line [of P l E r] by (auto split: if_splits prod.splits option.splits)
      then show ?thesis using less.hyps [of r Q] line by auto
    next
      case none
      then show ?thesis using False less.prems hs_run_partial [OF _ _ none, of P E] by (auto split: if_splits)
    qed
  qed
qed

lemma hs_feed_run:
  "hs_feed E (Running P rest) xs =
     (case hs_run E P (rest @ xs) of
        Inl e \<Rightarrow> Failed e
      | Inr (r, P') \<Rightarrow> Running (add_raw (take (length (rest @ xs) - length r) (rest @ xs)) P') r)"
proof -
  have "drop (length p - length r) p = r" if "hs_loop E P p = (Inr r, P')" for p r P'
    using hs_run_rest [of E P p r P'] that by (auto simp: hs_run_def)
  then show ?thesis
    by (auto simp: hs_parse_def hs_run_def Let_def add_raw_def simp del: drop_append length_append
        split: prod.split sum.split)
qed

declare hs_feed.simps(2) [simp del]

lemma hs_feed_ok: "hs_stream_ok s \<Longrightarrow> hs_stream_ok (hs_feed E s xs)"
proof (cases s)
  case (Running P rest)
  then show ?thesis unfolding Running hs_feed_run
    using hs_run_rest [of E P "rest @ xs"] by (auto split: sum.split)
qed simp

lemma hs_feed_nil: "hs_stream_ok s \<Longrightarrow> hs_feed E s [] = s"
proof (cases s)
  case (Running P rest)
  then show "hs_stream_ok s \<Longrightarrow> ?thesis" unfolding Running hs_feed_run by auto
qed simp

lemma hs_feed_append:
  assumes "hs_stream_ok s"
  shows "hs_feed E s (xs @ ys) = hs_feed E (hs_feed E s xs) ys"
proof (cases s)
  case (Running P rest)
  show ?thesis
  proof (cases "hs_run E P (rest @ xs)")
    case (Inl e)
    then show ?thesis unfolding Running hs_feed_run using hs_run_append [of E P "rest @ xs" ys] by simp
  next
    case (Inr c)
    obtain r P' where c: "c = (r, P')" by fastforce
    from hs_run_rest [of E P "rest @ xs" r P'] Inr c obtain u where u: "rest @ xs = u @ r" by auto
    have a: "hs_run E P ((rest @ xs) @ ys) = hs_run E P' (r @ ys)"
      using hs_run_append [of E P "rest @ xs" ys] Inr c by simp
    show ?thesis
    proof (cases "hs_run E P' (r @ ys)")
      case e: (Inl e)
      then show ?thesis using Inr a unfolding Running hs_feed_run c by (simp add: hs_feed_run hs_run_raw)
    next
      case d: (Inr d)
      obtain r2 P2 where d2: "d = (r2, P2)" by fastforce
      from hs_run_rest [of E P' "r @ ys" r2 P2] d d2 obtain u2 where u2: "r @ ys = u2 @ r2" by auto
      have "rest @ xs @ ys = (u @ u2) @ r2" using u u2 by (metis append.assoc)
      then show ?thesis
        using Inr a d u u2 unfolding Running hs_feed_run c d2 by (simp add: hs_feed_run hs_run_raw)
    qed
  qed
qed simp

interpretation hs: chunk_parser "hs_feed E" hs_stream_ok for E
  by unfold_locales (simp_all add: hs_feed_ok hs_feed_nil hs_feed_append)

end
