(* ===== verification/WebSocketHandshakeRoundtrip.thy ===== *)
theory WebSocketHandshakeRoundtrip
  imports WebSocketHandshakeThms
begin

text \<open>
  The handshake the parser completes passes the checks of the protocol, and a request or response
  written by the builder is read back, whatever the chunks. Also what the search for a value in a
  list separated by commas really does.
\<close>

section \<open>Completed handshakes are checked\<close>

definition hs_checked :: "hs_env \<Rightarrow> hs_parser \<Rightarrow> bool" where
  "hs_checked E P \<longleftrightarrow> (hp_state P = HsCompleted \<longrightarrow> check_handshake E P = None)"

lemma set_handshake_fields [simp]:
  "hp_line (set_handshake f P) = hp_line P" "hp_state (set_handshake f P) = hp_state P"
  "hp_key (set_handshake f P) = hp_key P"
  by (simp_all add: set_handshake_def)

lemma parse_version_fields [simp]:
  "hp_state (parse_version P) = hp_state P" "hp_key (parse_version P) = hp_key P"
  by (simp_all add: parse_version_def Let_def split: option.split)

lemma check_handshake_cong:
  "hp_handshake P = hp_handshake Q \<Longrightarrow> hp_key P = hp_key Q \<Longrightarrow> check_handshake E P = check_handshake E Q"
  unfolding check_handshake_def verifyAccept_def Let_def by (simp only:)

lemma parse_line_checked:
  assumes "parse_line E P = (None, P')" and "hp_state P \<noteq> HsCompleted"
  shows "hs_checked E P' \<and> hp_key P' = hp_key P"
proof (cases "hp_state P")
  case RequestLine
  then show ?thesis using assms(1)
    by (auto simp: parse_line_def parseRequestLine_def Let_def hs_checked_def split: option.splits if_splits)
next
  case ResponseLine
  then show ?thesis using assms(1)
    by (auto simp: parse_line_def parseResponseLine_def parse_status_def Let_def hs_checked_def split: option.splits if_splits)
next
  case HeaderLine
  have "check_handshake E (P\<lparr>hp_state := HsCompleted\<rparr>) = check_handshake E P"
    by (rule check_handshake_cong) simp_all
  then show ?thesis using assms HeaderLine
    by (auto simp: parse_line_def parseHeaderLine_def finalize_def Let_def hs_checked_def split: option.splits if_splits)
qed (use assms in simp)

lemma hs_run_checked:
  "hs_run E P p = Inr (rest, P') \<Longrightarrow> hs_checked E P \<Longrightarrow> hs_checked E P' \<and> hp_key P' = hp_key P"
proof (induction "length p" arbitrary: P p rule: less_induct)
  case less
  show ?case
  proof (cases "p = [] \<or> hp_state P = HsCompleted")
    case True
    then show ?thesis using less.prems by auto
  next
    case False
    show ?thesis
    proof (cases p rule: split_line)
      case none
      then show ?thesis using False less.prems hs_run_partial [OF _ _ none, of P E]
        by (auto simp: hs_checked_def split: if_splits)
    next
      case (line l r)
      let ?Q = "P\<lparr>hp_line := trim E (hp_line P @ l @ [CHR 0x0A])\<rparr>"
      obtain P2 where P2: "parse_line E ?Q = (None, P2)" "hs_run E (P2\<lparr>hp_line := []\<rparr>) r = Inr (rest, P')"
        using False less.prems(1) line hs_run_line [of P l E r] by (auto split: if_splits prod.splits option.splits)
      have c: "hs_checked E P2" "hp_key P2 = hp_key P" using parse_line_checked [OF P2(1)] False by simp_all
      have "check_handshake E (P2\<lparr>hp_line := []\<rparr>) = check_handshake E P2" by (rule check_handshake_cong) simp_all
      then have "hs_checked E (P2\<lparr>hp_line := []\<rparr>)" using c(1) by (simp add: hs_checked_def)
      then show ?thesis using less.hyps [of r "P2\<lparr>hp_line := []\<rparr>"] P2(2) line c(2) by simp
    qed
  qed
qed

text \<open>C36: when the parser completes, whatever it was fed, the handshake has a version not below 1.1
  (the test is \<open>< 0x0101\<close>, so later versions pass) and the headers the protocol requires; a response
  also has the status 101, and its accept header decodes to the hash of the key it was waited for with.\<close>

theorem completed_handshake_checked:
  assumes "foldl (hs_feed E) (Running (new_hs_parser h0 key) []) chunks = Running P rest"
    and "hp_state P = HsCompleted"
  shows "hp_key P = key \<and> 0x0101 \<le> hd_httpVersion (hp_handshake P) \<and>
    (\<forall>sh\<in>set (required_headers key). std_value (hd_headers (hp_handshake P)) sh \<noteq> None) \<and>
    (key \<noteq> [] \<longrightarrow> hd_statusCode (hp_handshake P) = 101 \<and>
      (\<exists>v. std_value (hd_headers (hp_handshake P)) WebSocketAccept = Some v \<and>
        e_decode E v = take 20 (calc_key_hash E key) \<and> length (e_decode E v) = 20))"
proof -
  let ?P0 = "new_hs_parser h0 key"
  have "hs_feed E (Running ?P0 []) (concat chunks) = Running P rest"
    using hs.feed_concat [of "Running ?P0 []" E chunks] assms(1) by simp
  then obtain P1 u where P1: "hs_run E ?P0 (concat chunks) = Inr (rest, P1)" "P = add_raw u P1"
    by (auto simp: hs_feed_run split: sum.splits)
  have "hs_checked E ?P0" by (simp add: hs_checked_def new_hs_parser_def)
  from hs_run_checked [OF P1(1) this] P1(2) assms(2)
  have c: "check_handshake E P = None" and k: "hp_key P = key"
    by (simp_all add: hs_checked_def check_handshake_raw new_hs_parser_def)
  have v: "\<not> hd_httpVersion (hp_handshake P) < 0x0101"
    and s: "key = [] \<or> hd_statusCode (hp_handshake P) = 101"
    and r: "\<forall>sh\<in>set (required_headers key). std_value (hd_headers (hp_handshake P)) sh \<noteq> None"
    and a: "key = [] \<or> verifyAccept E P = None"
    using c k unfolding check_handshake_def Let_def by (simp_all split: if_splits)
  have "\<exists>v. std_value (hd_headers (hp_handshake P)) WebSocketAccept = Some v \<and>
        e_decode E v = take 20 (calc_key_hash E key) \<and> length (e_decode E v) = 20" if "key \<noteq> []"
    using a r that k by (auto simp: verifyAccept_def required_headers_def Let_def split: if_splits)
  then show ?thesis using v s r k by auto
qed

section \<open>The laws of the environment\<close>

text \<open>White space is at least a space and the two characters of a line end, and at most what the C
  library calls so; on ASCII, case folding is the usual one; names filed under one key differ in
  case only. Base64 decodes what it encodes and writes no white space, and a hash has 20 bytes.\<close>

definition ascii_lower :: "char \<Rightarrow> char" where
  "ascii_lower c = (if 65 \<le> (of_char c :: nat) \<and> (of_char c :: nat) \<le> 90 then char_of ((of_char c :: nat) + 32) else c)"

definition is_ascii :: "string \<Rightarrow> bool" where
  "is_ascii s \<longleftrightarrow> (\<forall>c\<in>set s. (of_char c :: nat) < 128)"

definition hs_env_ok :: "hs_env \<Rightarrow> bool" where
  "hs_env_ok E \<longleftrightarrow>
     e_space E (CHR '' '') \<and> e_space E (CHR 0x0D) \<and> e_space E (CHR 0x0A) \<and>
     (\<forall>c. e_space E c \<longrightarrow> c_isspace c) \<and>
     (\<forall>c. (of_char c :: nat) < 128 \<longrightarrow> e_lower E c = ascii_lower c) \<and>
     (\<forall>s t. e_key E s = e_key E t \<longrightarrow> same_ignore_case E s t) \<and>
     (\<forall>d. e_decode E (e_encode E d) = d \<and> (d \<noteq> [] \<longrightarrow> e_encode E d \<noteq> [])) \<and>
     (\<forall>d. \<forall>c\<in>set (e_encode E d). \<not> c_isspace c \<and> c \<noteq> CHR 0x00) \<and>
     (\<forall>d. length (e_encode E d) \<le> 2 * length d + 4) \<and>
     (\<forall>s. length (e_sha1 E s) = 20)"

lemma lower_ascii:
  "hs_env_ok E \<Longrightarrow> is_ascii s \<Longrightarrow> map (e_lower E) s = map ascii_lower s"
  by (simp add: hs_env_ok_def is_ascii_def)

lemma same_ascii:
  "hs_env_ok E \<Longrightarrow> is_ascii s \<Longrightarrow> is_ascii t \<Longrightarrow> same_ignore_case E s t \<longleftrightarrow> map ascii_lower s = map ascii_lower t"
  by (simp add: same_ignore_case_def lower_ascii)

lemma space_cases: "hs_env_ok E \<Longrightarrow> \<not> c_isspace c \<Longrightarrow> \<not> e_space E c"
  by (auto simp: hs_env_ok_def)

section \<open>Lists separated by commas\<close>

lemma trim_left_id: "s = [] \<or> \<not> e_space E (hd s) \<Longrightarrow> trim_left E s = s"
  by (cases s) (auto simp: trim_left_def)

lemma trim_right_id: "s = [] \<or> \<not> e_space E (last s) \<Longrightarrow> trim_right E s = s"
  by (cases s rule: rev_cases) (auto simp: trim_right_def)

lemma find_csv_last:
  assumes "CHR '','' \<notin> set a"
  shows "find_csv E a v i = (if same_ignore_case E a v then Some i else None)"
  using assms by (simp add: find_csv.simps [of E a] str_find_none [THEN iffD2])

text \<open>In a list of one element the search is right; in a longer one the rest of the list is cut at
  a wrong place, so ``keep-alive, Upgrade'' does not contain ``upgrade'' (a client that sends it is
  turned away), and ``a,bupgrade'' does.\<close>

theorem connection_list_search:
  assumes "hs_env_ok E"
  shows "(\<forall>s v. CHR '','' \<notin> set s \<longrightarrow>
      findInCsvStringIgnoreCase E s v = (if same_ignore_case E s v then Some 0 else None)) \<and>
    findInCsvStringIgnoreCase E ''keep-alive, Upgrade'' ''upgrade'' = None \<and>
    findInCsvStringIgnoreCase E ''a,bupgrade'' ''upgrade'' = Some 2"
proof -
  note same = same_ascii [OF assms]
  have ns: "\<not> e_space E c" if "\<not> c_isspace c" for c using space_cases [OF assms that] .
  have sp: "e_space E (CHR '' '')" using assms by (simp add: hs_env_ok_def)
  have ns': "\<forall>c\<in>set ''keplivUgradbu,-''. \<not> e_space E c"
    by (intro ballI ns) (auto simp: c_isspace_def)
  note ev = findInCsvStringIgnoreCase_def find_csv.simps str_find_def Let_def trim_left_def trim_right_def same
    is_ascii_def ascii_lower_def sp ns' [simplified]
  have "findInCsvStringIgnoreCase E s v = (if same_ignore_case E s v then Some 0 else None)" if "CHR '','' \<notin> set s" for s v
    using find_csv_last [OF that] by (simp add: findInCsvStringIgnoreCase_def)
  moreover have "findInCsvStringIgnoreCase E ''keep-alive, Upgrade'' ''upgrade'' = None" by (simp add: ev)
  moreover have "findInCsvStringIgnoreCase E ''a,bupgrade'' ''upgrade'' = Some 2" by (simp add: ev)
  ultimately show ?thesis by blast
qed

section \<open>Lines\<close>

definition ok_value :: "hs_env \<Rightarrow> string \<Rightarrow> bool" where
  "ok_value E v \<longleftrightarrow> v \<noteq> [] \<and> CHR 0x0A \<notin> set v \<and> CHR 0x00 \<notin> set v \<and> \<not> e_space E (hd v) \<and> \<not> e_space E (last v)"

definition ok_name :: "hs_env \<Rightarrow> string \<Rightarrow> bool" where
  "ok_name E n \<longleftrightarrow> ok_value E n \<and> CHR '':'' \<notin> set n"

lemma trim_line:
  assumes "hs_env_ok E" and "x = [] \<or> \<not> e_space E (hd x) \<and> \<not> e_space E (last x)"
  shows "trim E (x @ [CHR 0x0D, CHR 0x0A]) = x"
proof -
  have sp: "e_space E (CHR 0x0D)" "e_space E (CHR 0x0A)" using assms(1) by (simp_all add: hs_env_ok_def)
  show ?thesis
  proof (cases "x = []")
    case False
    then have "trim_left E (x @ [CHR 0x0D, CHR 0x0A]) = x @ [CHR 0x0D, CHR 0x0A]"
      using assms(2) by (intro trim_left_id) simp
    then show ?thesis using trim_right_id [of x E] assms(2) sp False by (simp add: trim_def trim_right_def)
  qed (simp add: trim_def trim_left_def trim_right_def sp)
qed

lemma c_str_id: "CHR 0x00 \<notin> set s \<Longrightarrow> c_str s = s"
  by (simp add: c_str_def takeWhile_neq)

text \<open>A line that ends as the protocol wants it.\<close>

lemma run_crlf_line:
  assumes "hs_env_ok E" and "x = [] \<or> \<not> e_space E (hd x) \<and> \<not> e_space E (last x)" and "CHR 0x0A \<notin> set x"
    and "length x + 2 \<le> MaxLineLength" and "hp_line P = []" and "hp_state P \<noteq> HsCompleted"
  shows "hs_run E P (x @ crlf @ r) =
    (case parse_line E (P\<lparr>hp_line := x\<rparr>) of
       (Some e, _) \<Rightarrow> Inl e
     | (None, P2) \<Rightarrow> hs_run E (P2\<lparr>hp_line := []\<rparr>) r)"
  using hs_run_line [OF assms(6), of "x @ [CHR 0x0D]" E r] trim_line [OF assms(1,2)] assms(3-5)
  by (simp add: crlf_def)

definition set_headers :: "(ws_headers \<Rightarrow> ws_headers) \<Rightarrow> hs_parser \<Rightarrow> hs_parser" where
  "set_headers f = set_handshake (\<lambda>h. h\<lparr>hd_headers := f (hd_headers h)\<rparr>)"

lemma set_headers_simps [simp]:
  "hp_line (set_headers f P) = hp_line P" "hp_state (set_headers f P) = hp_state P"
  "set_headers g (set_headers f P) = set_headers (\<lambda>H. g (f H)) P"
  by (simp_all add: set_headers_def set_handshake_def)

lemma run_header_line:
  assumes "hs_env_ok E" and "ok_name E n" and "ok_value E v" and "length n + length v + 4 \<le> MaxLineLength"
    and "hp_line P = []" and "hp_state P = HeaderLine"
  shows "hs_run E P (n @ '': '' @ v @ crlf @ r) = hs_run E (set_headers (\<lambda>H. snd (add_header E n v H)) P) r"
proof -
  let ?x = "n @ '': '' @ v"
  have x: "?x = [] \<or> \<not> e_space E (hd ?x) \<and> \<not> e_space E (last ?x)" "CHR 0x0A \<notin> set ?x" "length ?x + 2 \<le> MaxLineLength"
    using assms(2-4) by (simp_all add: ok_name_def ok_value_def)
  have f: "str_find (CHR '':'') ?x = Some (length n)"
    using str_find_append [of "CHR '':''" n "'' '' @ v"] assms(2) by (simp add: ok_name_def)
  have sp: "e_space E (CHR '' '')" using assms(1) by (simp add: hs_env_ok_def)
  have "trim_right E n = n" "trim_left E ('' '' @ v) = v"
    using assms(2,3) sp trim_right_id [of n E] trim_left_id [of v E] by (simp_all add: ok_name_def ok_value_def trim_left_def)
  then have "parse_line E (P\<lparr>hp_line := ?x\<rparr>) =
      (None, (set_headers (\<lambda>H. snd (add_header E n v H)) P)\<lparr>hp_line := ?x\<rparr>)"
    using assms(6) f by (simp add: parse_line_def parseHeaderLine_def set_headers_def set_handshake_def)
  then show ?thesis
    using run_crlf_line [OF assms(1) x assms(5), of r] assms(5,6)
    by (cases P) (simp add: set_headers_def set_handshake_def)
qed

definition header_lines :: "(string \<times> string) list \<Rightarrow> string" where
  "header_lines kvs = concat (map (\<lambda>(k, v). k @ '': '' @ v @ crlf) kvs)"

definition ok_headers :: "hs_env \<Rightarrow> (string \<times> string) list \<Rightarrow> bool" where
  "ok_headers E kvs \<longleftrightarrow>
     (\<forall>(k, v)\<in>set kvs. ok_name E k \<and> ok_value E v \<and> length k + length v + 4 \<le> MaxLineLength)"

lemma add_all_Cons: "add_all E ((k, v) # kvs) = (\<lambda>H. add_all E kvs (snd (add_header E k v H)))"
  by (rule ext) (simp add: add_all_def)

lemma run_header_lines:
  assumes "hs_env_ok E" and "ok_headers E kvs" and "hp_line P = []" and "hp_state P = HeaderLine"
  shows "hs_run E P (header_lines kvs @ r) = hs_run E (set_headers (add_all E kvs) P) r"
  using assms(2-4)
proof (induction kvs arbitrary: P)
  case Nil
  then show ?case by (simp add: header_lines_def add_all_def set_headers_def set_handshake_def)
next
  case (Cons kv kvs)
  obtain k v where kv: "kv = (k, v)" by fastforce
  have "hs_run E P (header_lines (kv # kvs) @ r) =
      hs_run E (set_headers (\<lambda>H. snd (add_header E k v H)) P) (header_lines kvs @ r)"
    using run_header_line [OF assms(1), of k v P "header_lines kvs @ r"] Cons.prems kv
    by (simp add: header_lines_def ok_headers_def)
  also have "\<dots> = hs_run E (set_headers (add_all E (kv # kvs)) P) r"
    using Cons.IH [of "set_headers (\<lambda>H. snd (add_header E k v H)) P"] Cons.prems kv
    by (simp add: ok_headers_def add_all_Cons)
  finally show ?case .
qed

section \<open>The headers the builder writes\<close>

lemma keys_distinct:
  assumes "hs_env_ok E" and "\<forall>n\<in>set ns. is_ascii n" and "distinct (map (map ascii_lower) ns)"
  shows "distinct (map (e_key E) ns)"
proof -
  have "map ascii_lower a = map ascii_lower b" if "a \<in> set ns" "b \<in> set ns" "e_key E a = e_key E b" for a b
  proof -
    have "same_ignore_case E a b" using assms(1) that(3) by (simp add: hs_env_ok_def)
    then show ?thesis using same_ascii [OF assms(1)] assms(2) that(1,2) by blast
  qed
  moreover have "inj_on (map ascii_lower) (set ns)" "distinct ns" using assms(3) by (simp_all add: distinct_map)
  ultimately show ?thesis unfolding distinct_map by (meson inj_on_def)
qed

lemma find_std_ascii:
  assumes "hs_env_ok E" and "is_ascii a"
  shows "find_std E a = map_option snd (find (\<lambda>e. map ascii_lower (fst e) = map ascii_lower a) std_header_map)"
proof -
  have "\<forall>e\<in>set std_header_map. is_ascii (fst e)" by code_simp
  then have "find (\<lambda>e. same_ignore_case E (fst e) a) std_header_map =
      find (\<lambda>e. map ascii_lower (fst e) = map ascii_lower a) std_header_map"
    using same_ascii [OF assms(1) _ assms(2)] by (intro find_cong) auto
  then show ?thesis by (simp add: find_std_def)
qed

lemma find_std_names:
  assumes "hs_env_ok E"
  shows "find_std E ''Host'' = Some Host" "find_std E ''Connection'' = Some Connection"
    "find_std E ''Upgrade'' = Some Upgrade" "find_std E ''Sec-WebSocket-Version'' = Some WebSocketVersion"
    "find_std E ''Sec-WebSocket-Key'' = Some WebSocketKey" "find_std E ''Sec-WebSocket-Accept'' = Some WebSocketAccept"
  by (subst find_std_ascii [OF assms]; code_simp)+

lemma same_names:
  assumes "hs_env_ok E"
  shows "same_ignore_case E ''Upgrade'' ''upgrade''" "same_ignore_case E ''websocket'' ''websocket''"
  by (subst same_ascii [OF assms]; code_simp)+

lemma appendFormat_concat:
  "appendFormat H s d eol = s @ concat (map (format_header d eol) (hs_array H))"
proof -
  have "foldl (\<lambda>s h. s @ format_header d eol h) s hs = s @ concat (map (format_header d eol) hs)" for hs s
    by (induction hs arbitrary: s) simp_all
  then show ?thesis by (simp add: appendFormat_def)
qed

text \<open>When all names are new and different, every header has a place of its own.\<close>

lemma add_all_new:
  assumes "distinct (map (e_key E) (map fst kvs))" and "\<forall>k\<in>set (map fst kvs). hs_map H (e_key E k) = None"
  shows "map (\<lambda>h. (h_name h, h_firstValue h, h_extra h)) (hs_array (add_all E kvs H)) =
      map (\<lambda>h. (h_name h, h_firstValue h, h_extra h)) (hs_array H) @ map (\<lambda>(k, v). (k, v, [])) kvs"
    and "hs_std (add_all E kvs H) = foldl (\<lambda>m (i, k). case find_std E k of None \<Rightarrow> m | Some sh \<Rightarrow> m(sh \<mapsto> i)) (hs_std H)
      (enumerate (length (hs_array H)) (map fst kvs))"
proof -
  have "map (\<lambda>h. (h_name h, h_firstValue h, h_extra h)) (hs_array (add_all E kvs H)) =
      map (\<lambda>h. (h_name h, h_firstValue h, h_extra h)) (hs_array H) @ map (\<lambda>(k, v). (k, v, [])) kvs \<and>
    hs_std (add_all E kvs H) = foldl (\<lambda>m (i, k). case find_std E k of None \<Rightarrow> m | Some sh \<Rightarrow> m(sh \<mapsto> i)) (hs_std H)
      (enumerate (length (hs_array H)) (map fst kvs))"
    using assms
  proof (induction kvs arbitrary: H)
    case Nil
    then show ?case by (simp add: add_all_def)
  next
    case (Cons kv kvs)
    obtain k v where kv: "kv = (k, v)" by fastforce
    let ?H = "snd (add_header E k v H)"
    have n: "hs_map H (e_key E k) = None" using Cons.prems(2) kv by simp
    have "hs_map ?H (e_key E x) = None" if "x \<in> set (map fst kvs)" for x
    proof -
      have "e_key E x \<noteq> e_key E k" using Cons.prems(1) kv that by (metis image_eqI list.simps(9) distinct.simps(2) fst_conv list.set_map)
      then show ?thesis using Cons.prems(2) that n by (auto simp: add_header_def Let_def)
    qed
    then have "\<forall>k\<in>set (map fst kvs). hs_map ?H (e_key E k) = None" by blast
    from Cons.IH [OF _ this] Cons.prems(1) kv n show ?case
      by (simp add: add_all_Cons add_header_def header_add_def Let_def split: option.split)
  qed
  then show "map (\<lambda>h. (h_name h, h_firstValue h, h_extra h)) (hs_array (add_all E kvs H)) =
      map (\<lambda>h. (h_name h, h_firstValue h, h_extra h)) (hs_array H) @ map (\<lambda>(k, v). (k, v, [])) kvs"
    and "hs_std (add_all E kvs H) = foldl (\<lambda>m (i, k). case find_std E k of None \<Rightarrow> m | Some sh \<Rightarrow> m(sh \<mapsto> i)) (hs_std H)
      (enumerate (length (hs_array H)) (map fst kvs))"
    by blast+
qed

lemma add_all_clear:
  assumes "hs_env_ok E" and "\<forall>n\<in>set (map fst kvs). is_ascii n" and "distinct (map (map ascii_lower) (map fst kvs))"
  defines "H \<equiv> add_all E kvs headers_clear"
  shows "\<forall>kv\<in>set kvs. CHR 0x00 \<notin> set (fst kv) \<and> CHR 0x00 \<notin> set (snd kv) \<Longrightarrow>
      appendFormat H s '': '' crlf = s @ header_lines kvs"
    and "hs_std H = foldl (\<lambda>m (i, k). case find_std E k of None \<Rightarrow> m | Some sh \<Rightarrow> m(sh \<mapsto> i)) Map.empty
      (enumerate 0 (map fst kvs))"
    and "i < length kvs \<Longrightarrow> h_firstValue (hs_array H ! i) = snd (kvs ! i)"
proof -
  note A = add_all_new [OF keys_distinct [OF assms(1-3)], of headers_clear]
  have a: "map (\<lambda>h. (h_name h, h_firstValue h, h_extra h)) (hs_array H) = map (\<lambda>(k, v). (k, v, [])) kvs"
    using A(1) by (simp add: H_def headers_clear_def)
  then have l: "length (hs_array H) = length kvs" by (rule map_eq_imp_length_eq)
  have n: "h_name (hs_array H ! i) = fst (kvs ! i) \<and> h_firstValue (hs_array H ! i) = snd (kvs ! i) \<and>
      h_extra (hs_array H ! i) = []" if "i < length kvs" for i
    using arg_cong [OF a, of "\<lambda>xs. xs ! i"] that l by (simp add: split_beta)
  then show "i < length kvs \<Longrightarrow> h_firstValue (hs_array H ! i) = snd (kvs ! i)" by simp
  show "hs_std H = foldl (\<lambda>m (i, k). case find_std E k of None \<Rightarrow> m | Some sh \<Rightarrow> m(sh \<mapsto> i)) Map.empty
      (enumerate 0 (map fst kvs))"
    using A(2) by (simp add: H_def headers_clear_def)
  show "appendFormat H s '': '' crlf = s @ header_lines kvs"
    if nz: "\<forall>kv\<in>set kvs. CHR 0x00 \<notin> set (fst kv) \<and> CHR 0x00 \<notin> set (snd kv)"
  proof -
    have "map (format_header '': '' crlf) (hs_array H) = map (\<lambda>(k, v). k @ '': '' @ v @ crlf) kvs"
      using n nz l by (intro nth_equalityI) (simp_all add: format_header_def c_str_id split_beta)
    then show ?thesis by (simp add: appendFormat_concat header_lines_def)
  qed
qed

section \<open>Round trips\<close>

text \<open>Once the first line and the headers are read, an empty line completes the handshake.\<close>

lemma run_end:
  assumes "hs_env_ok E" and "hp_state P = HeaderLine" and "hp_line P = []" and "check_handshake E P = None"
  shows "hs_run E P (crlf @ r) = Inr (r, P\<lparr>hp_state := HsCompleted\<rparr>)"
  using run_crlf_line [OF assms(1), of "[]" P r] assms(2-4)
  by (cases P) (simp add: parse_line_def parseHeaderLine_def finalize_def MaxLineLength_def)

lemma version_line:
  "is_digit (CHR ''1'')" "strtoul (CHR ''1'' # CHR ''.'' # s) = 1"
  "strtoul (CHR ''1'' # CHR '' '' # s) = 1" "strtoul ''1'' = 1"
  "strtoul (CHR ''1'' # CHR ''0'' # CHR ''1'' # CHR '' '' # s) = 101"
  by (simp_all add: strtoul_def c_isspace_def is_digit_def dec_value_def)

lemma run_request_line:
  assumes "hs_env_ok E" and "ok_value E resource" and "CHR '' '' \<notin> set resource" and "length resource \<le> 8000"
    and "hp_line P = []" and "hp_state P = RequestLine"
  shows "hs_run E P (''GET '' @ resource @ '' HTTP/1.1'' @ crlf @ r) =
    hs_run E (P\<lparr>hp_handshake := (hp_handshake P)\<lparr>hd_resource := resource, hd_httpVersion := 0x0101\<rparr>,
      hp_state := HeaderLine\<rparr>) r"
proof -
  let ?x = "''GET '' @ resource @ '' HTTP/1.1''"
  have ns: "\<not> e_space E (CHR ''G'')" "\<not> e_space E (CHR ''1'')" "\<not> e_space E (CHR ''H'')"
    by (rule space_cases [OF assms(1)]; simp add: c_isspace_def)+
  have x: "?x = [] \<or> \<not> e_space E (hd ?x) \<and> \<not> e_space E (last ?x)" "CHR 0x0A \<notin> set ?x" "length ?x + 2 \<le> MaxLineLength"
    using assms(2,4) ns by (simp_all add: ok_value_def MaxLineLength_def)
  have f: "str_find (CHR '' '') (resource @ CHR '' '' # s) = Some (length resource)" for s
    using str_find_append [OF assms(3)] .
  have g: "str_find (CHR '' '') (''GET'' @ CHR '' '' # s) = Some 3" for s
    using str_find_append [of "CHR '' ''" "''GET''" s] by simp
  have t: "trim_left E (resource @ s) = resource @ s" "trim_left E ''HTTP/1.1'' = ''HTTP/1.1''" for s
    using assms(2) ns by (auto intro!: trim_left_id simp: ok_value_def)
  have v: "parse_version (Q\<lparr>hp_line := ''HTTP/1.1''\<rparr>) =
      Q\<lparr>hp_handshake := (hp_handshake Q)\<lparr>hd_httpVersion := 0x0101\<rparr>, hp_line := ''1''\<rparr>" for Q
    by (simp add: parse_version_def str_find_def set_handshake_def version_line)
  have "parse_line E (P\<lparr>hp_line := ?x\<rparr>) =
     (None, P\<lparr>hp_handshake := (hp_handshake P)\<lparr>hd_resource := resource, hd_httpVersion := 0x0101\<rparr>, hp_line := ''1'',
        hp_state := HeaderLine\<rparr>)"
    using assms(6) f g t by (simp add: parse_line_def parseRequestLine_def set_handshake_def is_prefix_def v)
  then show ?thesis
    using run_crlf_line [OF assms(1) x assms(5), of r] assms(5,6) by (cases P) simp
qed

lemma hs_feed_all:
  assumes "hs_run E (new_hs_parser h0 key) (concat chunks) = Inr (rest, P)" and "concat chunks = s @ rest"
  shows "foldl (hs_feed E) (Running (new_hs_parser h0 key) []) chunks = Running (add_raw s P) rest"
  using hs.feed_concat [of "Running (new_hs_parser h0 key) []" E chunks] assms by (simp add: hs_feed_run)

lemma request_read_back:
  assumes "hs_env_ok E"
    and "ok_value E resource" and "CHR '' '' \<notin> set resource" and "ok_value E host" and "ok_value E key"
    and "length resource \<le> 8000" and "length host \<le> 8000" and "length key \<le> 8000"
    and "buildRequest E resource host key None new_handshake = (s, h)" and "concat chunks = s @ rest"
  shows "foldl (hs_feed E) (Running (new_hs_parser h0 []) []) chunks =
    Running \<lparr>hp_handshake = h, hp_line = [], hp_state = HsCompleted, hp_key = []\<rparr> rest"
proof -
  let ?kvs = "[(''Host'', host), (''Connection'', ''Upgrade''), (''Upgrade'', ''websocket''),
      (''Sec-WebSocket-Version'', ''13''), (''Sec-WebSocket-Key'', key)]"
  let ?H = "add_all E ?kvs headers_clear"
  have na: "\<forall>n\<in>set (map fst ?kvs). is_ascii n" by simp code_simp
  have nd: "distinct (map (map ascii_lower) (map fst ?kvs))" by simp
  note C = add_all_clear [OF assms(1) na nd]
  have ns: "\<not> e_space E c" if "\<not> c_isspace c" for c using space_cases [OF assms(1) that] .
  have nz: "CHR 0x00 \<notin> set resource" "CHR 0x00 \<notin> set host" "CHR 0x00 \<notin> set key" using assms(2,4,5) by (simp_all add: ok_value_def)
  let ?s0 = "''GET '' @ resource @ '' HTTP/1.1'' @ crlf"
  have s: "s = ?s0 @ header_lines ?kvs @ crlf" "h = new_handshake\<lparr>hd_httpVersion := 0x0101, hd_resource := resource,
      hd_headers := ?H, hd_rawData := s\<rparr>"
    using assms(9) C(1) [of ?s0] nz by (auto simp: buildRequest_def finalizeBuild_def Let_def c_str_id new_handshake_def)
  let ?P0 = "new_hs_parser h0 []"
  let ?P1 = "?P0\<lparr>hp_handshake := (hp_handshake ?P0)\<lparr>hd_resource := resource, hd_httpVersion := 0x0101\<rparr>, hp_state := HeaderLine\<rparr>"
  let ?P2 = "set_headers (add_all E ?kvs) ?P1"
  have ok: "ok_headers E ?kvs"
    using assms(4,5,7,8) by (simp add: ok_headers_def ok_name_def ok_value_def MaxLineLength_def ns c_isspace_def)
  note std = find_std_names [OF assms(1)]
  have val: "std_value ?H Host = Some host" "std_value ?H Connection = Some ''Upgrade''" "std_value ?H Upgrade = Some ''websocket''"
    "std_value ?H WebSocketVersion = Some ''13''" "std_value ?H WebSocketKey = Some key"
    using C(3) [of 0] C(3) [of "Suc 0"] C(3) [of "Suc (Suc 0)"] C(3) [of "Suc (Suc (Suc 0))"]
      C(3) [of "Suc (Suc (Suc (Suc 0)))"] by (simp_all add: std_value_def C(2) std)
  have hd: "hd_headers (hp_handshake ?P2) = ?H"
    by (simp add: set_headers_def set_handshake_def new_hs_parser_def handshake_clear_def)
  note same = same_names [OF assms(1)]
  have csv: "findInCsvStringIgnoreCase E ''Upgrade'' ''upgrade'' = Some 0"
    using find_csv_last [of "''Upgrade''" E "''upgrade''" 0] same(1) by (simp add: findInCsvStringIgnoreCase_def)
  have v: "hd_httpVersion (hp_handshake ?P2) = 0x0101" "hp_key ?P2 = []"
    by (simp_all add: set_headers_def set_handshake_def new_hs_parser_def)
  have chk: "check_handshake E ?P2 = None"
    unfolding check_handshake_def hd v Let_def using val csv same by (simp add: required_headers_def)
  have "hs_run E ?P0 (concat chunks) = hs_run E ?P1 (header_lines ?kvs @ crlf @ rest)"
    unfolding assms(10) s(1) append_assoc using assms(1-3,6) by (intro run_request_line) (simp_all add: new_hs_parser_def)
  also have "\<dots> = hs_run E ?P2 (crlf @ rest)"
    by (rule run_header_lines [OF assms(1) ok]) (simp_all add: new_hs_parser_def)
  also have "\<dots> = Inr (rest, ?P2\<lparr>hp_state := HsCompleted\<rparr>)"
    using chk by (intro run_end [OF assms(1)]) (simp_all add: new_hs_parser_def)
  finally have "hs_run E ?P0 (concat chunks) = Inr (rest, ?P2\<lparr>hp_state := HsCompleted\<rparr>)" .
  from hs_feed_all [OF this assms(10)] show ?thesis
    unfolding s(2)
    by (simp add: add_raw_def set_headers_def set_handshake_def new_hs_parser_def handshake_clear_def new_handshake_def)
qed

text \<open>C37: the parser, fed in any chunks a request that the builder wrote, completes with the
  handshake the builder built (version, resource, headers and raw data), and leaves the bytes after it.\<close>

theorem request_roundtrip:
  assumes "hs_env_ok E"
    and "ok_value E resource" and "CHR '' '' \<notin> set resource" and "ok_value E host" and "ok_value E key"
    and "length resource \<le> 8000" and "length host \<le> 8000" and "length key \<le> 8000"
    and "buildRequest E resource host key None new_handshake = (s, h)" and "concat chunks = s @ rest"
  shows "foldl (hs_feed E) (Running (new_hs_parser h0 []) []) chunks =
    Running \<lparr>hp_handshake = h, hp_line = [], hp_state = HsCompleted, hp_key = []\<rparr> rest"
  using assms by (rule request_read_back)

lemma run_status_line:
  assumes "hs_env_ok E" and "ok_value E reason" and "length reason \<le> 8000"
    and "hp_line P = []" and "hp_state P = ResponseLine"
  shows "hs_run E P (''HTTP/1.1 101 '' @ reason @ crlf @ r) =
    hs_run E (P\<lparr>hp_handshake := (hp_handshake P)\<lparr>hd_httpVersion := 0x0101, hd_statusCode := 101, hd_reasonPhrase := reason\<rparr>,
      hp_state := HeaderLine\<rparr>) r"
proof -
  let ?x = "''HTTP/1.1 101 '' @ reason"
  have ns: "\<not> e_space E (CHR ''1'')" "\<not> e_space E (CHR ''H'')"
    by (rule space_cases [OF assms(1)]; simp add: c_isspace_def)+
  have x: "?x = [] \<or> \<not> e_space E (hd ?x) \<and> \<not> e_space E (last ?x)" "CHR 0x0A \<notin> set ?x" "length ?x + 2 \<le> MaxLineLength"
    using assms(2,3) ns by (simp_all add: ok_value_def MaxLineLength_def)
  have t: "trim_left E reason = reason" "trim_left E (''101 '' @ reason) = ''101 '' @ reason"
    using assms(2) ns by (auto intro!: trim_left_id simp: ok_value_def)
  have v: "parse_version (Q\<lparr>hp_line := ?x\<rparr>) =
      Q\<lparr>hp_handshake := (hp_handshake Q)\<lparr>hd_httpVersion := 0x0101\<rparr>, hp_line := ''1 101 '' @ reason\<rparr>" for Q
    by (simp add: parse_version_def str_find_def set_handshake_def version_line)
  have "parse_line E (P\<lparr>hp_line := ?x\<rparr>) =
     (None, P\<lparr>hp_handshake := (hp_handshake P)\<lparr>hd_httpVersion := 0x0101, hd_statusCode := 101, hd_reasonPhrase := reason\<rparr>,
        hp_line := reason, hp_state := HeaderLine\<rparr>)"
    unfolding parse_line_def parseResponseLine_def v using assms(5) t
    by (simp add: is_prefix_def parse_status_def str_find_def set_handshake_def version_line)
  then show ?thesis
    using run_crlf_line [OF assms(1) x assms(4), of r] assms(4,5) by (cases P) simp
qed

text \<open>C38: the response that a server builds for a request with a key is accepted by the client that
  sent the key, in any chunks: the parser completes with the handshake the server built.\<close>

theorem response_roundtrip:
  assumes "hs_env_ok E" and "ok_value E reason" and "length reason \<le> 8000" and "key \<noteq> []"
    and "std_value (hd_headers req) WebSocketKey = Some key"
    and "buildResponse E 101 reason req None new_handshake = Some (s, h)" and "concat chunks = s @ rest"
  shows "foldl (hs_feed E) (Running (new_hs_parser h0 key) []) chunks =
    Running \<lparr>hp_handshake = h, hp_line = [], hp_state = HsCompleted, hp_key = key\<rparr> rest"
proof -
  let ?a = "e_encode E (calc_key_hash E key)"
  let ?kvs = "[(''Connection'', ''Upgrade''), (''Upgrade'', ''websocket''),
      (''Sec-WebSocket-Version'', ''13''), (''Sec-WebSocket-Accept'', ?a)]"
  let ?H = "add_all E ?kvs headers_clear"
  have na: "\<forall>n\<in>set (map fst ?kvs). is_ascii n" by simp code_simp
  have nd: "distinct (map (map ascii_lower) (map fst ?kvs))" by simp
  note C = add_all_clear [OF assms(1) na nd] and std = find_std_names [OF assms(1)]
  have ns: "\<not> e_space E c" if "\<not> c_isspace c" for c using space_cases [OF assms(1) that] .
  have hash: "length (calc_key_hash E key) = 20" using assms(1) by (simp add: hs_env_ok_def calc_key_hash_def)
  then have "calc_key_hash E key \<noteq> []" by auto
  with assms(1) have enc: "?a \<noteq> []" "\<forall>c\<in>set ?a. \<not> c_isspace c \<and> c \<noteq> CHR 0x00" "e_decode E ?a = calc_key_hash E key"
    "length ?a \<le> 2 * length (calc_key_hash E key) + 4"
    unfolding hs_env_ok_def by blast+
  have a: "ok_value E ?a" using enc(1,2) ns by (auto simp: ok_value_def c_isspace_def)
  let ?s0 = "''HTTP/1.1 101 '' @ reason @ crlf"
  have "dec_digits 101 = ''101''" by code_simp
  then have f: "format_d 101 = ''101''" by (simp add: format_d_small)
  have s: "s = ?s0 @ header_lines ?kvs @ crlf" "h = new_handshake\<lparr>hd_httpVersion := 0x0101, hd_statusCode := 101,
      hd_reasonPhrase := reason, hd_headers := ?H, hd_rawData := s\<rparr>"
  proof -
    obtain i where i: "hs_std (hd_headers req) WebSocketKey = Some i" "h_firstValue (hs_array (hd_headers req) ! i) = key"
      using assms(5) by (auto simp: std_value_def)
    have r: "c_str reason = reason" using assms(2) by (simp add: c_str_id ok_value_def)
    have "appendFormat ?H ?s0 '': '' crlf = ?s0 @ header_lines ?kvs"
      using a by (intro C(1)) (simp add: ok_value_def)
    then have "finalizeBuild E ?s0 None (new_handshake\<lparr>hd_httpVersion := 0x0101, hd_statusCode := 101,
        hd_reasonPhrase := reason, hd_headers := ?H\<rparr>) = (s, h)"
      using assms(6) i f r by (simp add: buildResponse_def new_handshake_def)
    then show "s = ?s0 @ header_lines ?kvs @ crlf" "h = new_handshake\<lparr>hd_httpVersion := 0x0101, hd_statusCode := 101,
        hd_reasonPhrase := reason, hd_headers := ?H, hd_rawData := s\<rparr>"
      using \<open>appendFormat ?H ?s0 '': '' crlf = _\<close> by (auto simp: finalizeBuild_def Let_def)
  qed
  let ?P0 = "new_hs_parser h0 key"
  let ?P1 = "?P0\<lparr>hp_handshake := (hp_handshake ?P0)\<lparr>hd_httpVersion := 0x0101, hd_statusCode := 101,
    hd_reasonPhrase := reason\<rparr>, hp_state := HeaderLine\<rparr>"
  let ?P2 = "set_headers (add_all E ?kvs) ?P1"
  have ok: "ok_headers E ?kvs"
    using a enc(4) hash by (simp add: ok_headers_def ok_name_def ok_value_def MaxLineLength_def ns c_isspace_def)
  have val: "std_value ?H Connection = Some ''Upgrade''" "std_value ?H Upgrade = Some ''websocket''"
    "std_value ?H WebSocketAccept = Some ?a"
    using C(3) [of 0] C(3) [of "Suc 0"] C(3) [of "Suc (Suc (Suc 0))"] by (simp_all add: std_value_def C(2) std)
  have hd: "hd_headers (hp_handshake ?P2) = ?H"
    by (simp add: set_headers_def set_handshake_def new_hs_parser_def handshake_clear_def)
  note same = same_names [OF assms(1)]
  have csv: "findInCsvStringIgnoreCase E ''Upgrade'' ''upgrade'' = Some 0"
    using find_csv_last [of "''Upgrade''" E "''upgrade''" 0] same(1) by (simp add: findInCsvStringIgnoreCase_def)
  have v: "hd_httpVersion (hp_handshake ?P2) = 0x0101" "hp_key ?P2 = key" "hd_statusCode (hp_handshake ?P2) = 101"
    by (simp_all add: set_headers_def set_handshake_def new_hs_parser_def)
  have "verifyAccept E ?P2 = None"
    unfolding verifyAccept_def hd v(2) Let_def using val(3) enc(3) hash by simp
  then have chk: "check_handshake E ?P2 = None"
    unfolding check_handshake_def hd v Let_def using val csv same assms(4) by (simp add: required_headers_def)
  have "hs_run E ?P0 (concat chunks) = hs_run E ?P1 (header_lines ?kvs @ crlf @ rest)"
    unfolding assms(7) s(1) append_assoc using assms(1-4) by (intro run_status_line) (simp_all add: new_hs_parser_def)
  also have "\<dots> = hs_run E ?P2 (crlf @ rest)"
    by (rule run_header_lines [OF assms(1) ok]) (simp_all add: new_hs_parser_def)
  also have "\<dots> = Inr (rest, ?P2\<lparr>hp_state := HsCompleted\<rparr>)"
    using chk by (intro run_end [OF assms(1)]) (simp_all add: new_hs_parser_def)
  finally have "hs_run E ?P0 (concat chunks) = Inr (rest, ?P2\<lparr>hp_state := HsCompleted\<rparr>)" .
  from hs_feed_all [OF this assms(7)] show ?thesis
    unfolding s(2)
    by (simp add: add_raw_def set_headers_def set_handshake_def new_hs_parser_def handshake_clear_def new_handshake_def)
qed

section \<open>A concrete environment\<close>

text \<open>A code of bytes as letters stands for base64, and a constant for the hash.\<close>

definition letter :: "nat \<Rightarrow> char" where
  "letter n = char_of (97 + n)"

definition encode_letters :: "byte list \<Rightarrow> string" where
  "encode_letters d = concat (map (\<lambda>b. [letter (unat b div 16), letter (unat b mod 16)]) d)"

fun decode_letters :: "string \<Rightarrow> byte list" where
  "decode_letters (a # b # s) = of_nat ((of_char a - 97) * 16 + (of_char b - 97)) # decode_letters s"
| "decode_letters s = []"

definition env_ascii :: hs_env where
  "env_ascii = \<lparr>e_space = c_isspace, e_lower = ascii_lower, e_key = (\<lambda>s. s), e_encode = encode_letters,
     e_decode = decode_letters, e_sha1 = (\<lambda>s. replicate 20 (of_nat (length s)))\<rparr>"

lemma letter_value: "n < 16 \<Longrightarrow> (of_char (letter n) :: nat) = 97 + n"
  by (simp add: letter_def of_char_of)

lemma letters_inverse: "decode_letters (encode_letters d) = d"
proof (induction d)
  case (Cons b d)
  have "unat b < 2 ^ LENGTH(8)" by (rule unsigned_less)
  then have "unat b div 16 < 16" by (simp add: less_mult_imp_div_less)
  moreover have "unat b div 16 * 16 + unat b mod 16 = unat b" by simp
  ultimately show ?case using Cons by (simp add: encode_letters_def letter_value)
qed (simp add: encode_letters_def)

lemma env_ascii_ok: "hs_env_ok env_ascii"
proof -
  have l: "\<not> c_isspace (letter n) \<and> letter n \<noteq> CHR 0x00" if "n < 16" for n
  proof -
    have "\<forall>n\<in>set [0..<16]. \<not> c_isspace (letter n) \<and> letter n \<noteq> CHR 0x00" by code_simp
    then show ?thesis using that by simp
  qed
  have b: "unat (b :: byte) div 16 < 16" for b
  proof -
    have "unat b < 2 ^ LENGTH(8)" by (rule unsigned_less)
    then show ?thesis by (simp add: less_mult_imp_div_less)
  qed
  have "\<forall>c\<in>set (encode_letters d). \<not> c_isspace c \<and> c \<noteq> CHR 0x00" for d
    using l b by (auto simp: encode_letters_def)
  moreover have "length (encode_letters d) = 2 * length d" for d
    by (induction d) (simp_all add: encode_letters_def)
  moreover have "d \<noteq> [] \<longrightarrow> encode_letters d \<noteq> []" for d by (cases d) (simp_all add: encode_letters_def)
  ultimately show ?thesis
    by (simp add: hs_env_ok_def env_ascii_def letters_inverse same_ignore_case_def c_isspace_def)
qed

theorem connection_list_search_witness:
  "findInCsvStringIgnoreCase env_ascii ''keep-alive, Upgrade'' ''upgrade'' = None"
  using connection_list_search [OF env_ascii_ok] by blast

theorem request_roundtrip_witness:
  "\<exists>s h. buildRequest env_ascii ''/chat'' ''example.com'' ''a2V5'' None new_handshake = (s, h) \<and>
    foldl (hs_feed env_ascii) (Running (new_hs_parser new_handshake []) []) [take 7 s, drop 7 s, ''xyz''] =
      Running \<lparr>hp_handshake = h, hp_line = [], hp_state = HsCompleted, hp_key = []\<rparr> ''xyz''"
proof -
  obtain s h where b: "buildRequest env_ascii ''/chat'' ''example.com'' ''a2V5'' None new_handshake = (s, h)" by fastforce
  have v: "ok_value env_ascii ''/chat''" "ok_value env_ascii ''example.com''" "ok_value env_ascii ''a2V5''"
    by (simp_all add: ok_value_def env_ascii_def c_isspace_def)
  show ?thesis
    using b request_roundtrip [OF env_ascii_ok v(1) _ v(2,3) _ _ _ b, of "[take 7 s, drop 7 s, ''xyz'']" "''xyz''" new_handshake]
    by simp
qed

theorem response_roundtrip_witness:
  "\<exists>req s h. snd (buildRequest env_ascii ''/chat'' ''example.com'' ''a2V5'' None new_handshake) = req \<and>
    buildResponse env_ascii 101 ''Switching Protocols'' req None new_handshake = Some (s, h) \<and>
    foldl (hs_feed env_ascii) (Running (new_hs_parser new_handshake ''a2V5'') []) [s] =
      Running \<lparr>hp_handshake = h, hp_line = [], hp_state = HsCompleted, hp_key = ''a2V5''\<rparr> []"
proof -
  define req where "req = snd (buildRequest env_ascii ''/chat'' ''example.com'' ''a2V5'' None new_handshake)"
  have k: "std_value (hd_headers req) WebSocketKey = Some ''a2V5''"
    unfolding req_def by code_simp
  then obtain s h where b: "buildResponse env_ascii 101 ''Switching Protocols'' req None new_handshake = Some (s, h)"
    by (auto simp: buildResponse_def std_value_def Let_def finalizeBuild_def)
  have v: "ok_value env_ascii ''Switching Protocols''" by (simp add: ok_value_def env_ascii_def c_isspace_def)
  have "foldl (hs_feed env_ascii) (Running (new_hs_parser new_handshake ''a2V5'') []) [s] =
      Running \<lparr>hp_handshake = h, hp_line = [], hp_state = HsCompleted, hp_key = ''a2V5''\<rparr> []"
    using response_roundtrip [OF env_ascii_ok v _ _ k b, of "[s]" "[]" new_handshake] by simp
  with b show ?thesis unfolding req_def by blast
qed

theorem completed_handshake_checked_witness:
  "\<exists>s h P. buildRequest env_ascii ''/chat'' ''example.com'' ''a2V5'' None new_handshake = (s, h) \<and>
    hs_feed env_ascii (Running (new_hs_parser new_handshake []) []) s = Running P [] \<and>
    0x0101 \<le> hd_httpVersion (hp_handshake P)"
proof -
  obtain s h where b: "buildRequest env_ascii ''/chat'' ''example.com'' ''a2V5'' None new_handshake = (s, h)" by fastforce
  let ?P = "\<lparr>hp_handshake = h, hp_line = [], hp_state = HsCompleted, hp_key = []\<rparr>"
  have v: "ok_value env_ascii ''/chat''" "ok_value env_ascii ''example.com''" "ok_value env_ascii ''a2V5''"
    by (simp_all add: ok_value_def env_ascii_def c_isspace_def)
  have "foldl (hs_feed env_ascii) (Running (new_hs_parser new_handshake []) []) [s] = Running ?P []"
    using request_read_back [OF env_ascii_ok v(1) _ v(2,3) _ _ _ b, of "[s]" "[]" new_handshake] by simp
  with completed_handshake_checked [OF this] b show ?thesis by simp
qed

end
