(* ===== verification/WebSocketState.thy ===== *)
theory WebSocketState
  imports WebSocketRoundtrip WebSocketHandshakeRoundtrip
begin

text \<open>
  The state machine of a WebSocket connection (\<^verbatim>\<open>jnc_io_WebSocketState.cpp\<close>): it parses the
  handshake, then frames, and assembles fragmented messages. The parsers write into the handshake and
  the frame of the machine: before a call they get them, after it the machine has what they hold.
  The assertions on the state (misuse by the caller) are not modelled.
\<close>

section \<open>The machine\<close>

datatype wm_state = Idle | WaitingHandshake | WaitingHandshakeResponse | HandshakeReady
  | HandshakeResponseReady | Connected | ControlFrameReady | MessageReady

text \<open>\<^verbatim>\<open>WebSocketFrameOpcode_Undefined\<close> is \<open>None\<close>.\<close>

record ws_message =
  msg_opcode :: "nat option"
  msg_frameCount :: nat
  msg_payload :: "byte list"

definition message_clear :: ws_message where
  "message_clear = \<lparr>msg_opcode = None, msg_frameCount = 0, msg_payload = []\<rparr>"

record ws_machine =
  w_state :: wm_state
  w_handshakeParser :: "hs_parser option"
  w_frameParser :: "ws_parser option"
  w_handshake :: ws_handshake
  w_frame :: ws_frame
  w_message :: ws_message
  w_handshakeKey :: string

definition new_machine :: ws_machine where
  "new_machine = \<lparr>w_state = Idle, w_handshakeParser = None, w_frameParser = None, w_handshake = new_handshake,
     w_frame = frame_clear, w_message = message_clear, w_handshakeKey = []\<rparr>"

definition setHandshake :: "ws_handshake \<Rightarrow> string \<Rightarrow> ws_machine \<Rightarrow> ws_machine" where
  "setHandshake h key m =
     m\<lparr>w_handshakeParser := None, w_frameParser := None, w_handshake := h, w_frame := frame_clear,
       w_message := message_clear, w_handshakeKey := key,
       w_state := (if key = [] then WaitingHandshake else WaitingHandshakeResponse)\<rparr>"

definition setConnectedState :: "ws_machine \<Rightarrow> ws_machine" where
  "setConnectedState m =
     m\<lparr>w_frameParser := map_option parser_reset (w_frameParser m), w_frame := frame_clear,
       w_message := message_clear, w_state := Connected\<rparr>"

datatype wm_error = HandshakeError hs_error | FrameError ws_error | NoInitialFrame | IncompleteMessage

definition processFrame :: "ws_machine \<Rightarrow> wm_error option \<times> ws_machine" where
  "processFrame m =
     (let f = w_frame m; g = w_message m
      in if m_opcode f \<ge> 8 then (None, m\<lparr>w_state := ControlFrameReady\<rparr>)
         else if m_opcode f = 0 \<and> msg_opcode g = None then (Some NoInitialFrame, m)
         else if m_opcode f \<noteq> 0 \<and> msg_opcode g \<noteq> None then (Some IncompleteMessage, m)
         else
           (let g' = (if m_opcode f = 0
                      then g\<lparr>msg_frameCount := msg_frameCount g + 1, msg_payload := msg_payload g @ m_payload f\<rparr>
                      else \<lparr>msg_opcode = Some (m_opcode f), msg_frameCount = 1, msg_payload = m_payload f\<rparr>);
                m' = m\<lparr>w_message := g'\<rparr>
            in (None, if m_fin f then m'\<lparr>w_state := MessageReady\<rparr> else m')))"

text \<open>The frame parser of the machine, made at the first use, on the machine's frame.\<close>

definition get_parser :: "ws_machine \<Rightarrow> ws_parser" where
  "get_parser m =
     (case w_frameParser m of None \<Rightarrow> new_parser (w_frame m) | Some P \<Rightarrow> P\<lparr>p_frame := w_frame m\<rparr>)"

definition put_parser :: "ws_parser \<Rightarrow> ws_machine \<Rightarrow> ws_machine" where
  "put_parser P m = m\<lparr>w_frameParser := Some P, w_frame := p_frame P\<rparr>"

definition fresh :: "ws_parser \<Rightarrow> bool" where
  "fresh P \<longleftrightarrow> p_state P = Header \<and> p_buffer P = []"

text \<open>A frame takes at least the two bytes of its header.\<close>

lemma bufferUntil_length: "bufferUntil buf t p = (b, q) \<Longrightarrow> length q \<le> length p"
  by (auto simp: bufferUntil_def Let_def)

lemma parse_step_length:
  "parse_step W P p = Continue P' q \<Longrightarrow> length q \<le> length p \<and> (fresh P \<and> p \<noteq> [] \<longrightarrow> length q < length p)"
  by (cases "p_state P"; cases p)
    (auto simp: parse_step_def parse_header_def parse_length16_def parse_length64_def parse_maskKey_def
      parse_payload_def fresh_def bufferUntil_def Let_def split: if_splits option.splits)

lemma parse_loop_length: "parse_loop W P p = (Inr rest, P') \<Longrightarrow> length rest \<le> length p"
proof (induction W P p rule: parse_loop.induct)
  case (1 W P p)
  show ?case
  proof (cases "p = [] \<or> p_state P = Completed")
    case True
    then show ?thesis using "1.prems" by auto
  next
    case False
    then show ?thesis
      using "1.prems" "1.IH" [OF False] parse_step_length [of W P p]
      by (auto simp: parse_loop.simps [of W P p] split: ws_step.splits intro: order_trans)
  qed
qed

lemma parse_loop_progress:
  assumes "parse_loop W P p = (Inr rest, P')" and "fresh P" and "p \<noteq> []" and "p_state P' = Completed"
  shows "length rest < length p"
proof -
  have "p_state P \<noteq> Completed" using assms(2) by (simp add: fresh_def)
  then show ?thesis
    using assms parse_step_length [of W P p] parse_loop_length
    by (fastforce simp: parse_loop.simps [of W P p] split: ws_step.splits dest: parse_loop_length
        intro: le_less_trans)
qed

lemma processFrame_parser:
  "processFrame m = (r, m') \<Longrightarrow> w_frameParser m' = w_frameParser m \<and> w_frame m' = w_frame m"
  by (auto simp: processFrame_def Let_def split: if_splits)

definition loop_measure :: "ws_machine \<Rightarrow> byte list \<Rightarrow> nat" where
  "loop_measure m p = 2 * length p + (if fresh (get_parser m) then 0 else 1)"

lemma frames_decrease:
  assumes l: "parse_loop W (get_parser m) p = (Inr rest, P)" and c: "p_state P = Completed" and p: "p \<noteq> []"
    and m': "processFrame (put_parser (parser_reset P) m) = (None, m')"
  shows "loop_measure m' rest < loop_measure m p"
proof -
  have f: "fresh (get_parser m')"
    using processFrame_parser [OF m'] by (simp add: put_parser_def get_parser_def fresh_def parser_reset_def)
  show ?thesis
  proof (cases "fresh (get_parser m)")
    case True
    then show ?thesis using parse_loop_progress [OF l True p c] f by (simp add: loop_measure_def)
  next
    case False
    then show ?thesis using parse_loop_length [OF l] f by (simp add: loop_measure_def)
  qed
qed

function frames_loop :: "ws_env \<Rightarrow> ws_machine \<Rightarrow> byte list \<Rightarrow> (wm_error + byte list) \<times> ws_machine" where
  "frames_loop W m p =
     (if p = [] \<or> w_state m \<noteq> Connected then (Inr p, m)
      else
        (case parse_loop W (get_parser m) p of
           (Inl e, P) \<Rightarrow> (Inl (FrameError e), put_parser P m)
         | (Inr rest, P) \<Rightarrow>
             if p_state P \<noteq> Completed then (Inr [], put_parser P m)
             else
               (case processFrame (put_parser (parser_reset P) m) of
                  (Some e, m') \<Rightarrow> (Inl e, m')
                | (None, m') \<Rightarrow> frames_loop W m' rest)))"
  by pat_completeness auto
termination
  by (relation "measure (\<lambda>(W, m, p). loop_measure m p)")
    (simp, metis frames_decrease in_measure case_prod_conv)

declare frames_loop.simps [simp del]

text \<open>Bytes as the characters the handshake parser reads.\<close>

definition chars :: "byte list \<Rightarrow> string" where
  "chars p = map (\<lambda>b. char_of (unat b)) p"

definition ready_state :: "wm_state \<Rightarrow> wm_state" where
  "ready_state s = (if s = WaitingHandshake then HandshakeReady else HandshakeResponseReady)"

definition get_hs_parser :: "ws_machine \<Rightarrow> hs_parser" where
  "get_hs_parser m =
     (case w_handshakeParser m of
        None \<Rightarrow> new_hs_parser (w_handshake m) (w_handshakeKey m)
      | Some P \<Rightarrow> P\<lparr>hp_handshake := w_handshake m\<rparr>)"

definition machine_parse ::
  "hs_env \<Rightarrow> ws_env \<Rightarrow> ws_machine \<Rightarrow> byte list \<Rightarrow> (wm_error + nat) \<times> ws_machine" where
  "machine_parse E W m p =
     (if w_state m = WaitingHandshake \<or> w_state m = WaitingHandshakeResponse then
        (case hs_parse E (get_hs_parser m) (chars p) of
           (Inl e, P) \<Rightarrow> (Inl (HandshakeError e), m\<lparr>w_handshakeParser := Some P, w_handshake := hp_handshake P\<rparr>)
         | (Inr n, P) \<Rightarrow>
             (if hp_state P = HsCompleted
              then (Inr n, m\<lparr>w_state := ready_state (w_state m), w_handshakeParser := None, w_handshake := hp_handshake P\<rparr>)
              else (Inr n, m\<lparr>w_handshakeParser := Some P, w_handshake := hp_handshake P\<rparr>)))
      else
        (case frames_loop W m p of
           (Inl e, m') \<Rightarrow> (Inl e, m')
         | (Inr rest, m') \<Rightarrow> (Inr (length p - length rest), m')))"

section \<open>Messages\<close>

text \<open>A machine between two frames, with a message of which some frames have come.\<close>

definition between_frames :: "ws_machine \<Rightarrow> bool" where
  "between_frames m \<longleftrightarrow> w_state m = Connected \<and> fresh (get_parser m)"

definition after_frame :: "ws_frame \<Rightarrow> ws_machine \<Rightarrow> ws_machine" where
  "after_frame f m = m\<lparr>w_frameParser := Some (parser_reset \<lparr>p_frame = f, p_buffer = [], p_state = Completed\<rparr>), w_frame := f\<rparr>"

lemma frames_loop_frame:
  assumes "env_ok W" and "frame_valid opcode fin key payload" and "between_frames m"
  shows "frames_loop W m (wire_frame opcode fin key payload @ r) =
    (case processFrame (after_frame (frame_of opcode fin key payload) m) of
       (Some e, m') \<Rightarrow> (Inl e, m')
     | (None, m') \<Rightarrow> frames_loop W m' r)"
proof -
  have new: "get_parser m = new_parser (p_frame (get_parser m))"
    using assms(3) by (cases "get_parser m") (simp add: between_frames_def fresh_def new_parser_def)
  have "wire_frame opcode fin key payload \<noteq> []" by (simp add: wire_frame_hdr hdr_bytes_def)
  then show ?thesis
    using parse_wire [OF assms(1,2), of "p_frame (get_parser m)" r] assms(3)
    by (subst frames_loop.simps, subst new)
      (simp add: between_frames_def put_parser_def after_frame_def parser_reset_def)
qed

lemma after_frame_between [simp]:
  "get_parser (after_frame f m) = \<lparr>p_frame = f, p_buffer = [], p_state = Header\<rparr>"
  "w_frame (after_frame f m) = f" "w_message (after_frame f m) = w_message m" "w_state (after_frame f m) = w_state m"
  by (simp_all add: after_frame_def get_parser_def parser_reset_def)

text \<open>The frames of a message: the first has the opcode, the others continue it, the last is final.\<close>

fun continuation_frames :: "(byte list option \<times> byte list) list \<Rightarrow> byte list" where
  "continuation_frames [] = []"
| "continuation_frames ((k, d) # fs) = wire_frame 0 (fs = []) k d @ continuation_frames fs"

definition message_frames :: "nat \<Rightarrow> (byte list option \<times> byte list) list \<Rightarrow> byte list" where
  "message_frames opcode fs =
     (case fs of [] \<Rightarrow> [] | (k, d) # gs \<Rightarrow> wire_frame opcode (gs = []) k d @ continuation_frames gs)"

definition fragments_ok :: "(byte list option \<times> byte list) list \<Rightarrow> bool" where
  "fragments_ok fs \<longleftrightarrow> (\<forall>(k, d)\<in>set fs. (\<forall>b. k = Some b \<longrightarrow> length b = 4) \<and> length d \<le> MaxPayloadLength)"

lemma continuation_frames_read:
  assumes "env_ok W" and "fragments_ok fs" and "fs \<noteq> []" and "between_frames m" and "msg_opcode (w_message m) = Some opcode"
  shows "\<exists>m'. frames_loop W m (continuation_frames fs @ r) = (Inr r, m') \<and> w_state m' = MessageReady \<and>
    w_message m' = \<lparr>msg_opcode = Some opcode, msg_frameCount = msg_frameCount (w_message m) + length fs,
      msg_payload = msg_payload (w_message m) @ concat (map snd fs)\<rparr>"
  using assms(2-5)
proof (induction fs arbitrary: m)
  case (Cons f fs)
  obtain k d where f: "f = (k, d)" by fastforce
  have v: "frame_valid 0 (fs = []) k d"
    using Cons.prems(1) f by (simp add: frame_valid_def fragments_ok_def opcode_class_def)
  let ?m = "after_frame (frame_of 0 (fs = []) k d) m"
  let ?g = "(w_message m)\<lparr>msg_frameCount := msg_frameCount (w_message m) + 1, msg_payload := msg_payload (w_message m) @ d\<rparr>"
  have p: "processFrame ?m = (None, (if fs = [] then ?m\<lparr>w_message := ?g, w_state := MessageReady\<rparr> else ?m\<lparr>w_message := ?g\<rparr>))"
    using Cons.prems(4) by (simp add: processFrame_def frame_of_def Let_def)
  note step = frames_loop_frame [OF assms(1) v Cons.prems(3), of "continuation_frames fs @ r"]
  show ?case
  proof (cases "fs = []")
    case True
    then show ?thesis using step p f Cons.prems(4) by (cases "w_message m") (simp add: frames_loop.simps [of W _ r])
  next
    case False
    have "between_frames (?m\<lparr>w_message := ?g\<rparr>)"
      using Cons.prems(3) by (simp add: between_frames_def fresh_def get_parser_def after_frame_def parser_reset_def)
    from Cons.IH [OF _ False this] Cons.prems(1,4) False step p f show ?thesis
      by (simp add: fragments_ok_def)
  qed
qed simp

text \<open>C35: the frames of a message, one or many, masked or not, make the machine ready with one message:
  the opcode of the first frame, the number of frames and the payloads in order; what follows the
  last frame is not read.\<close>

theorem message_reassembled:
  assumes "env_ok W" and "fragments_ok fs" and "fs \<noteq> []" and "opcode = 1 \<or> opcode = 2"
    and "between_frames m" and "w_message m = message_clear"
  shows "\<exists>m'. machine_parse E W m (message_frames opcode fs @ r) = (Inr (length (message_frames opcode fs)), m') \<and>
    w_state m' = MessageReady \<and>
    w_message m' = \<lparr>msg_opcode = Some opcode, msg_frameCount = length fs, msg_payload = concat (map snd fs)\<rparr>"
proof -
  obtain k d gs where f: "fs = (k, d) # gs" using assms(3) by (cases fs) auto
  have v: "frame_valid opcode (gs = []) k d"
    using assms(2,4) f by (auto simp: frame_valid_def fragments_ok_def opcode_class_def)
  let ?m = "after_frame (frame_of opcode (gs = []) k d) m"
  let ?g = "\<lparr>msg_opcode = Some opcode, msg_frameCount = 1, msg_payload = d\<rparr>"
  have p: "processFrame ?m = (None, (if gs = [] then ?m\<lparr>w_message := ?g, w_state := MessageReady\<rparr> else ?m\<lparr>w_message := ?g\<rparr>))"
    using assms(4,6) by (auto simp: processFrame_def frame_of_def Let_def message_clear_def)
  have c: "w_state m = Connected" using assms(5) by (simp add: between_frames_def)
  note step = frames_loop_frame [OF assms(1) v assms(5), of "continuation_frames gs @ r"]
  have "\<exists>m'. frames_loop W m (message_frames opcode fs @ r) = (Inr r, m') \<and> w_state m' = MessageReady \<and>
    w_message m' = \<lparr>msg_opcode = Some opcode, msg_frameCount = length fs, msg_payload = concat (map snd fs)\<rparr>"
  proof (cases "gs = []")
    case True
    then show ?thesis using step p f by (simp add: message_frames_def frames_loop.simps [of W _ r])
  next
    case False
    have "between_frames (?m\<lparr>w_message := ?g\<rparr>)"
      using assms(5) by (simp add: between_frames_def fresh_def get_parser_def after_frame_def parser_reset_def)
    from continuation_frames_read [OF assms(1) _ False this, of opcode r] assms(2) False step p f show ?thesis
      by (simp add: message_frames_def fragments_ok_def)
  qed
  then show ?thesis using c by (auto simp: machine_parse_def)
qed

text \<open>A control frame between the fragments of a message is read, but the call that returns to the
  connected state clears the message: the next fragment is an error, so the message is lost.\<close>

theorem control_frame_drops_fragments:
  assumes "env_ok W" and "fragments_ok [(k1, d1), (k2, d2), (k3, d3)]" and "opcode = 1 \<or> opcode = 2"
    and "between_frames m" and "w_message m = message_clear"
  shows "\<exists>m1 m2. machine_parse E W m (wire_frame opcode False k1 d1 @ wire_frame 9 True k2 d2) =
      (Inr (length (wire_frame opcode False k1 d1 @ wire_frame 9 True k2 d2)), m1) \<and>
    w_state m1 = ControlFrameReady \<and> msg_payload (w_message m1) = d1 \<and>
    machine_parse E W (setConnectedState m1) (wire_frame 0 True k3 d3) = (Inl NoInitialFrame, m2)"
proof -
  have v: "frame_valid opcode False k1 d1" "frame_valid 9 True k2 d2" "frame_valid 0 True k3 d3"
    using assms(2,3) by (auto simp: frame_valid_def fragments_ok_def opcode_class_def)
  let ?m = "after_frame (frame_of opcode False k1 d1) m"
  let ?n = "?m\<lparr>w_message := \<lparr>msg_opcode = Some opcode, msg_frameCount = 1, msg_payload = d1\<rparr>\<rparr>"
  let ?c = "(after_frame (frame_of 9 True k2 d2) ?n)\<lparr>w_state := ControlFrameReady\<rparr>"
  have p: "processFrame ?m = (None, ?n)" "processFrame (after_frame (frame_of 9 True k2 d2) ?n) = (None, ?c)"
    using assms(3,5) by (auto simp: processFrame_def frame_of_def Let_def message_clear_def)
  have c: "w_state m = Connected" and b: "between_frames ?n"
    using assms(4) by (simp_all add: between_frames_def fresh_def get_parser_def after_frame_def parser_reset_def)
  have 1: "frames_loop W m (wire_frame opcode False k1 d1 @ wire_frame 9 True k2 d2) = (Inr [], ?c)"
    using frames_loop_frame [OF assms(1) v(1) assms(4)] frames_loop_frame [OF assms(1) v(2) b, of "[]"] p
    by (simp add: frames_loop.simps [of W _ "[]"])
  let ?d = "setConnectedState ?c"
  have d: "between_frames ?d" "w_message ?d = message_clear" "w_state ?d = Connected"
    by (simp_all add: between_frames_def fresh_def get_parser_def setConnectedState_def after_frame_def parser_reset_def)
  obtain m2 where "processFrame (after_frame (frame_of 0 True k3 d3) ?d) = (Some NoInitialFrame, m2)"
    using d(2) by (auto simp: processFrame_def frame_of_def Let_def message_clear_def)
  then have "frames_loop W ?d (wire_frame 0 True k3 d3) = (Inl NoInitialFrame, m2)"
    using frames_loop_frame [OF assms(1) v(3) d(1), of "[]"] by simp
  then have 2: "machine_parse E W ?d (wire_frame 0 True k3 d3) = (Inl NoInitialFrame, m2)"
    using d(3) by (simp add: machine_parse_def)
  show ?thesis
    by (rule exI [of _ ?c], rule exI [of _ m2]) (use 1 2 c in \<open>simp add: machine_parse_def\<close>)
qed

definition connected_machine :: ws_machine where
  "connected_machine = setConnectedState new_machine"

lemma connected_machine_between: "between_frames connected_machine" "w_message connected_machine = message_clear"
  by (simp_all add: connected_machine_def new_machine_def setConnectedState_def between_frames_def fresh_def
      get_parser_def new_parser_def)

theorem message_reassembled_witness:
  "\<exists>m'. machine_parse env_ascii env_le connected_machine (message_frames 1 [(None, [72, 105]), (None, [33])] @ [0x81]) =
      (Inr (length (message_frames 1 [(None, [72, 105]), (None, [33])])), m') \<and> w_state m' = MessageReady \<and>
    w_message m' = \<lparr>msg_opcode = Some 1, msg_frameCount = 2, msg_payload = [72, 105, 33]\<rparr>"
  using message_reassembled [OF env_le_ok _ _ _ connected_machine_between, of "[(None, [72, 105]), (None, [33])]" 1 env_ascii "[0x81]"]
  by (simp add: fragments_ok_def MaxPayloadLength_def numeral_2_eq_2)

theorem control_frame_drops_fragments_witness:
  "\<exists>m1 m2. machine_parse env_ascii env_le connected_machine ([0x01, 0x01, 72] @ [0x89, 0x00]) = (Inr 5, m1) \<and>
    w_state m1 = ControlFrameReady \<and>
    machine_parse env_ascii env_le (setConnectedState m1) [0x80, 0x01, 105] = (Inl NoInitialFrame, m2)"
proof -
  have w: "wire_frame 1 False None [72] = [0x01, 0x01, 72]" "wire_frame 9 True None [] = [0x89, 0x00]"
    "wire_frame 0 True None [105] = [0x80, 0x01, 105]" by code_simp+
  show ?thesis
    using control_frame_drops_fragments [OF env_le_ok _ _ connected_machine_between, of None "[72]" None "[]" None "[105]" 1 env_ascii] w
    by (auto simp: fragments_ok_def MaxPayloadLength_def)
qed

section \<open>The handshake\<close>

text \<open>C39: a machine that waits for a handshake and gets the request a client built becomes ready with
  exactly the handshake the client built, takes the bytes of the request and no more, and after
  \<^verbatim>\<open>setConnectedState\<close> is ready for frames.\<close>

theorem machine_handshake_ready:
  assumes "hs_env_ok E"
    and "ok_value E resource" and "CHR '' '' \<notin> set resource" and "ok_value E host" and "ok_value E key"
    and "length resource \<le> 8000" and "length host \<le> 8000" and "length key \<le> 8000"
    and "buildRequest E resource host key None new_handshake = (s, h)" and "chars p = s" 
  shows "\<exists>m'. machine_parse E W (setHandshake h0 [] m) (p @ r) = (Inr (length p), m') \<and>
    w_state m' = HandshakeReady \<and> w_handshake m' = h \<and> between_frames (setConnectedState m') \<and>
    w_message (setConnectedState m') = message_clear"
proof -
  have c: "concat [chars (p @ r)] = s @ chars r" using assms(10) by (simp add: chars_def)
  have f: "hs_feed E (Running (new_hs_parser h0 []) []) (chars (p @ r)) =
      Running \<lparr>hp_handshake = h, hp_line = [], hp_state = HsCompleted, hp_key = []\<rparr> (chars r)"
    using request_read_back [OF assms(1-9) c, of h0] by simp
  obtain n where n: "hs_parse E (new_hs_parser h0 []) (chars (p @ r)) =
      (Inr n, \<lparr>hp_handshake = h, hp_line = [], hp_state = HsCompleted, hp_key = []\<rparr>)"
    "drop n (chars (p @ r)) = chars r" "n \<le> length (chars (p @ r))"
    using f by (auto simp: hs_feed.simps hs_parse_def Let_def split: prod.splits sum.splits)
  have "length (drop n (chars (p @ r))) = length r" using n(2) by (simp add: chars_def)
  then have "n = length p" using n(3) by (simp add: chars_def)
  with n(1) have "machine_parse E W (setHandshake h0 [] m) (p @ r) =
      (Inr (length p), (setHandshake h0 [] m)\<lparr>w_state := HandshakeReady, w_handshakeParser := None, w_handshake := h\<rparr>)"
    by (simp add: machine_parse_def setHandshake_def get_hs_parser_def ready_state_def)
  then show ?thesis
    by (auto simp: setConnectedState_def between_frames_def fresh_def get_parser_def new_parser_def setHandshake_def)
qed

theorem machine_handshake_ready_witness:
  "\<exists>s h m'. buildRequest env_ascii ''/chat'' ''example.com'' ''a2V5'' None new_handshake = (s, h) \<and>
    machine_parse env_ascii env_le (setHandshake new_handshake [] new_machine) (map (\<lambda>c. of_nat (of_char c)) s @ [0x81]) =
      (Inr (length s), m') \<and> w_handshake m' = h"
proof -
  obtain s h where b: "buildRequest env_ascii ''/chat'' ''example.com'' ''a2V5'' None new_handshake = (s, h)" by fastforce
  have v: "ok_value env_ascii ''/chat''" "ok_value env_ascii ''example.com''" "ok_value env_ascii ''a2V5''"
    by (simp_all add: ok_value_def env_ascii_def c_isspace_def)
  have "chars (map (\<lambda>c. of_nat (of_char c)) s) = s"
  proof -
    have "(of_char c :: nat) < 256" for c
      using mod_less_divisor [of 256 "of_char c"] by simp
    then have "unat (of_nat (of_char c) :: byte) = (of_char c :: nat)" for c by (intro unat_byte)
    then show ?thesis by (simp add: chars_def comp_def)
  qed
  from machine_handshake_ready [OF env_ascii_ok v(1) _ v(2,3) _ _ _ b this, of env_le new_handshake new_machine "[0x81]"] b
  show ?thesis by auto
qed

end
