(* ===== verification/GcHandshake.thy ===== *)
theory GcHandshake
  imports Prelude
begin

text \<open>
  Stopping the world (\<^verbatim>\<open>src/jnc_rt/jnc_rt_GcHeap.cpp\<close>): the threads of a runtime as a step relation
  over the shared state of \<^verbatim>\<open>GcHeap\<close>, for the mode of simple safe points
  (\<^verbatim>\<open>Flag_SimpleSafePoint\<close>; the guard page modes differ in the system calls only). A step is one
  access to shared state: taking the lock, a test or an update under it, an atomic decrement, a wait
  on an event. What the collector does with the stopped world is in other theories.
\<close>

section \<open>The state\<close>

type_synonym tid = nat

datatype gc_state = GcIdle | StopTheWorld | GcMark | BuildDestructGraph | GcSweep | ResumeTheWorld

text \<open>What a thread calls; \<open>AllocEnd\<close> is the second half of an allocation that collected first.\<close>

datatype gc_op = Register | Unregister | EnterWait | LeaveWait | EnterNoCollect | LeaveNoCollect bool
  | Collect | SetTriggers | Alloc | AllocEnd | Abort

datatype gc_kind = CollectOnly | CollectForAlloc | AbortAll

text \<open>Where a thread is. The flag of an operation is the result of the test for a mutator thread at
  the entry of \<^verbatim>\<open>waitIdleAndLock\<close>; a safe point is followed by the operation it interrupts, if any.\<close>

datatype gc_pc = Running
  | Locking gc_op bool | Checking gc_op bool
  | AwaitIdle gc_op bool | Relocking gc_op bool | Rechecking gc_op bool
  | Body gc_op bool
  | AtSafePoint "gc_op option" | ParkSet "gc_op option" | ParkDec "gc_op option" | ParkWait "gc_op option"
  | ParkLeave "gc_op option"
  | StopWait gc_kind nat | Stopped gc_kind nat | ResumeWait gc_kind nat | Finishing gc_kind

record mutator_thread =
  mt_isSafePoint :: bool
  mt_waitLevel :: nat
  mt_noCollectLevel :: nat

record gc =
  g_state :: gc_state
  g_lock :: "tid option"
  g_abort :: bool
  g_idleEvent :: bool
  g_resumeEvent :: bool
  g_handshakeEvent :: bool
  g_waitingCount :: nat
  g_noCollectCount :: nat
  g_handshakeCount :: int
  g_threads :: "tid list"
  g_mt :: "tid \<Rightarrow> mutator_thread"
  g_pc :: "tid \<Rightarrow> gc_pc"

definition goto :: "tid \<Rightarrow> gc_pc \<Rightarrow> gc \<Rightarrow> gc" where
  "goto t p s = s\<lparr>g_pc := (g_pc s)(t := p)\<rparr>"

definition unlock :: "gc \<Rightarrow> gc" where
  "unlock s = s\<lparr>g_lock := None\<rparr>"

definition set_wait :: "tid \<Rightarrow> nat \<Rightarrow> gc \<Rightarrow> gc" where
  "set_wait t n s = s\<lparr>g_mt := (g_mt s)(t := (g_mt s t)\<lparr>mt_waitLevel := n\<rparr>)\<rparr>"

definition set_noCollect :: "tid \<Rightarrow> nat \<Rightarrow> gc \<Rightarrow> gc" where
  "set_noCollect t n s = s\<lparr>g_mt := (g_mt s)(t := (g_mt s t)\<lparr>mt_noCollectLevel := n\<rparr>)\<rparr>"

definition set_safe :: "tid \<Rightarrow> bool \<Rightarrow> gc \<Rightarrow> gc" where
  "set_safe t b s = s\<lparr>g_mt := (g_mt s)(t := (g_mt s t)\<lparr>mt_isSafePoint := b\<rparr>)\<rparr>"

abbreviation "waitLevel s t \<equiv> mt_waitLevel (g_mt s t)"
abbreviation "noCollectLevel s t \<equiv> mt_noCollectLevel (g_mt s t)"

text \<open>\<^verbatim>\<open>thread && !thread->m_waitRegionLevel\<close>: the thread is registered and not in a wait region.\<close>

definition is_mutator :: "gc \<Rightarrow> tid \<Rightarrow> bool" where
  "is_mutator s t \<longleftrightarrow> t \<in> set (g_threads s) \<and> waitLevel s t = 0"

section \<open>Operations under the lock\<close>

text \<open>\<^verbatim>\<open>stopTheWorld_l\<close> up to the wait for the handshake: the lock is released.\<close>

definition stopTheWorld_l :: "tid \<Rightarrow> bool \<Rightarrow> gc_kind \<Rightarrow> gc \<Rightarrow> gc" where
  "stopTheWorld_l t isMutator kind s =
     (let n = length (g_threads s) - g_waitingCount s;
          handshakeCount = (if isMutator then n - 1 else n);
          s1 = unlock (s\<lparr>g_state := StopTheWorld, g_idleEvent := False\<rparr>)
      in if handshakeCount = 0 then goto t (Stopped kind 0) s1
         else goto t (StopWait kind handshakeCount)
                (s1\<lparr>g_resumeEvent := False, g_handshakeCount := int handshakeCount\<rparr>))"

definition registerMutatorThread :: "tid \<Rightarrow> gc \<Rightarrow> gc" where
  "registerMutatorThread t s =
     unlock (s\<lparr>g_threads := g_threads s @ [t],
       g_mt := (g_mt s)(t := \<lparr>mt_isSafePoint = False, mt_waitLevel = 0, mt_noCollectLevel = 0\<rparr>)\<rparr>)"

definition unregisterMutatorThread :: "tid \<Rightarrow> gc \<Rightarrow> gc" where
  "unregisterMutatorThread t s =
     unlock (s\<lparr>g_waitingCount := (if waitLevel s t \<noteq> 0 then g_waitingCount s - 1 else g_waitingCount s),
       g_noCollectCount := (if noCollectLevel s t \<noteq> 0 then g_noCollectCount s - 1 else g_noCollectCount s),
       g_threads := removeAll t (g_threads s)\<rparr>)"

definition enterWaitRegion :: "tid \<Rightarrow> gc \<Rightarrow> gc" where
  "enterWaitRegion t s = unlock (set_wait t 1 (s\<lparr>g_waitingCount := g_waitingCount s + 1\<rparr>))"

definition leaveWaitRegion :: "tid \<Rightarrow> gc \<Rightarrow> gc" where
  "leaveWaitRegion t s = unlock (set_wait t 0 (s\<lparr>g_waitingCount := g_waitingCount s - 1\<rparr>))"

definition enterNoCollectRegion :: "tid \<Rightarrow> gc \<Rightarrow> gc" where
  "enterNoCollectRegion t s = unlock (set_noCollect t 1 (s\<lparr>g_noCollectCount := g_noCollectCount s + 1\<rparr>))"

text \<open>\<open>trig\<close>: one of the size triggers of \<^verbatim>\<open>isCollectionTriggered_l\<close> is exceeded.\<close>

definition leaveNoCollectRegion :: "tid \<Rightarrow> bool \<Rightarrow> bool \<Rightarrow> bool \<Rightarrow> gc \<Rightarrow> gc" where
  "leaveNoCollectRegion t canCollectNow isMutator trig s =
     (let s1 = set_noCollect t 0 (s\<lparr>g_noCollectCount := g_noCollectCount s - 1\<rparr>)
      in if canCollectNow \<and> g_noCollectCount s1 = 0 \<and> trig then stopTheWorld_l t isMutator CollectOnly s1
         else goto t Running (unlock s1))"

definition gc_body :: "tid \<Rightarrow> gc_op \<Rightarrow> bool \<Rightarrow> bool \<Rightarrow> gc \<Rightarrow> gc" where
  "gc_body t op isMutator trig s =
     (case op of
        Register \<Rightarrow> goto t Running (registerMutatorThread t s)
      | Unregister \<Rightarrow> goto t Running (unregisterMutatorThread t s)
      | EnterWait \<Rightarrow> goto t Running (enterWaitRegion t s)
      | LeaveWait \<Rightarrow> goto t Running (leaveWaitRegion t s)
      | EnterNoCollect \<Rightarrow> goto t Running (enterNoCollectRegion t s)
      | LeaveNoCollect now \<Rightarrow> leaveNoCollectRegion t now isMutator trig s
      | Collect \<Rightarrow>
          if g_noCollectCount s = 0 then stopTheWorld_l t isMutator CollectOnly s else goto t Running (unlock s)
      | SetTriggers \<Rightarrow>
          if g_noCollectCount s = 0 \<and> trig then stopTheWorld_l t isMutator CollectOnly s
          else goto t Running (unlock s)
      | Alloc \<Rightarrow>
          if g_noCollectCount s = 0 \<and> trig then stopTheWorld_l t isMutator CollectForAlloc s
          else goto t Running (unlock s)
      | AllocEnd \<Rightarrow> goto t Running (unlock s)
      | Abort \<Rightarrow> stopTheWorld_l t isMutator AbortAll s)"

text \<open>What the code asserts of a call, and the calls that only change the level of a nested region.\<close>

definition may_call :: "gc \<Rightarrow> tid \<Rightarrow> gc_op \<Rightarrow> bool" where
  "may_call s t op =
     (case op of
        Register \<Rightarrow> t \<notin> set (g_threads s)
      | Unregister \<Rightarrow> t \<in> set (g_threads s)
      | EnterWait \<Rightarrow> is_mutator s t
      | LeaveWait \<Rightarrow> t \<in> set (g_threads s) \<and> waitLevel s t = 1
      | EnterNoCollect \<Rightarrow> is_mutator s t \<and> noCollectLevel s t = 0
      | LeaveNoCollect now \<Rightarrow> is_mutator s t \<and> noCollectLevel s t = 1
      | Alloc \<Rightarrow> is_mutator s t
      | AllocEnd \<Rightarrow> False
      | _ \<Rightarrow> True)"

definition nested :: "gc \<Rightarrow> tid \<Rightarrow> gc \<Rightarrow> bool" where
  "nested s t s' \<longleftrightarrow> t \<in> set (g_threads s) \<and>
     ((waitLevel s t > 0 \<and> s' = set_wait t (waitLevel s t + 1) s) \<or>
      (waitLevel s t > 1 \<and> s' = set_wait t (waitLevel s t - 1) s) \<or>
      (waitLevel s t = 0 \<and> noCollectLevel s t > 0 \<and> s' = set_noCollect t (noCollectLevel s t + 1) s) \<or>
      (waitLevel s t = 0 \<and> noCollectLevel s t > 1 \<and> s' = set_noCollect t (noCollectLevel s t - 1) s))"

definition resume_pc :: "gc_op option \<Rightarrow> gc_pc" where
  "resume_pc k = (case k of None \<Rightarrow> Running | Some op \<Rightarrow> Locking op True)"

text \<open>An atomic decrement of the handshake count; the last one signals the event.\<close>

definition handshake_dec :: "gc \<Rightarrow> gc" where
  "handshake_dec s =
     (let n = g_handshakeCount s - 1
      in s\<lparr>g_handshakeCount := n, g_handshakeEvent := (if n = 0 then True else g_handshakeEvent s)\<rparr>)"

definition begin_resume :: "tid \<Rightarrow> gc_kind \<Rightarrow> nat \<Rightarrow> gc \<Rightarrow> gc" where
  "begin_resume t kind n s =
     (if n = 0 then goto t (Finishing kind) s
      else goto t (ResumeWait kind n)
             (s\<lparr>g_handshakeCount := int n, g_state := ResumeTheWorld, g_resumeEvent := True\<rparr>))"

definition next_phase :: "gc_state \<Rightarrow> gc_state \<Rightarrow> bool" where
  "next_phase a b \<longleftrightarrow>
     (a = StopTheWorld \<and> b = GcMark) \<or> (a = GcMark \<and> (b = BuildDestructGraph \<or> b = GcSweep)) \<or>
     (a = BuildDestructGraph \<and> b = GcSweep)"

section \<open>Steps\<close>

inductive gc_step :: "gc \<Rightarrow> gc \<Rightarrow> bool" where
  call: "g_pc s t = Running \<Longrightarrow> may_call s t op \<Longrightarrow> gc_step s (goto t (Locking op (is_mutator s t)) s)"
| region: "g_pc s t = Running \<Longrightarrow> nested s t s' \<Longrightarrow> gc_step s s'"
| safe_point: "g_pc s t = Running \<Longrightarrow> is_mutator s t \<Longrightarrow> gc_step s (goto t (AtSafePoint None) s)"
| lock: "g_pc s t = Locking op im \<Longrightarrow> g_lock s = None \<Longrightarrow>
    gc_step s (goto t (Checking op im) (s\<lparr>g_lock := Some t\<rparr>))"
| check_idle: "g_pc s t = Checking op im \<Longrightarrow> g_state s = GcIdle \<Longrightarrow> gc_step s (goto t (Body op im) s)"
| check_other: "g_pc s t = Checking op False \<Longrightarrow> g_state s \<noteq> GcIdle \<Longrightarrow>
    gc_step s (goto t (AwaitIdle op False) (unlock s))"
| check_stop: "g_pc s t = Checking op True \<Longrightarrow> g_state s = StopTheWorld \<Longrightarrow>
    gc_step s (goto t (AtSafePoint (Some op)) (unlock s))"
| check_phase: "g_pc s t = Checking op True \<Longrightarrow> g_state s \<noteq> StopTheWorld \<Longrightarrow> g_state s \<noteq> GcIdle \<Longrightarrow>
    gc_step s (goto t (AwaitIdle op True) (unlock (set_wait t 1 (s\<lparr>g_waitingCount := g_waitingCount s + 1\<rparr>))))"
| await_idle: "g_pc s t = AwaitIdle op im \<Longrightarrow> g_idleEvent s \<Longrightarrow> gc_step s (goto t (Relocking op im) s)"
| relock: "g_pc s t = Relocking op im \<Longrightarrow> g_lock s = None \<Longrightarrow>
    gc_step s (goto t (Rechecking op im) (s\<lparr>g_lock := Some t\<rparr>))"
| recheck_other: "g_pc s t = Rechecking op im \<Longrightarrow> g_state s \<noteq> GcIdle \<Longrightarrow>
    gc_step s (goto t (AwaitIdle op im) (unlock s))"
| recheck_idle: "g_pc s t = Rechecking op False \<Longrightarrow> g_state s = GcIdle \<Longrightarrow> gc_step s (goto t (Body op False) s)"
| recheck_idle_mutator: "g_pc s t = Rechecking op True \<Longrightarrow> g_state s = GcIdle \<Longrightarrow>
    gc_step s (goto t (Body op True) (set_wait t 0 (s\<lparr>g_waitingCount := g_waitingCount s - 1\<rparr>)))"
| body: "g_pc s t = Body op im \<Longrightarrow> gc_step s (gc_body t op im trig s)"
| safe_point_pass: "g_pc s t = AtSafePoint k \<Longrightarrow> g_state s \<noteq> StopTheWorld \<Longrightarrow> gc_step s (goto t (resume_pc k) s)"
| safe_point_stop: "g_pc s t = AtSafePoint k \<Longrightarrow> g_state s = StopTheWorld \<Longrightarrow> gc_step s (goto t (ParkSet k) s)"
| park_set: "g_pc s t = ParkSet k \<Longrightarrow> gc_step s (goto t (ParkDec k) (set_safe t True s))"
| park_dec: "g_pc s t = ParkDec k \<Longrightarrow> gc_step s (goto t (ParkWait k) (handshake_dec s))"
| park_resume: "g_pc s t = ParkWait k \<Longrightarrow> g_resumeEvent s \<Longrightarrow> gc_step s (goto t (ParkLeave k) (set_safe t False s))"
| park_leave: "g_pc s t = ParkLeave k \<Longrightarrow> gc_step s (goto t (resume_pc k) (handshake_dec s))"
| park_throw: "g_pc s t = ParkLeave k \<Longrightarrow> g_abort s \<Longrightarrow> gc_step s (goto t Running (handshake_dec s))"
| stopped: "g_pc s t = StopWait kind n \<Longrightarrow> g_handshakeEvent s \<Longrightarrow>
    gc_step s (goto t (Stopped kind n) (s\<lparr>g_handshakeEvent := False\<rparr>))"
| phase: "g_pc s t = Stopped kind n \<Longrightarrow> kind \<noteq> AbortAll \<Longrightarrow> next_phase (g_state s) st \<Longrightarrow>
    gc_step s (s\<lparr>g_state := st\<rparr>)"
| abort: "g_pc s t = Stopped AbortAll n \<Longrightarrow> gc_step s (begin_resume t AbortAll n (s\<lparr>g_abort := True\<rparr>))"
| resume: "g_pc s t = Stopped kind n \<Longrightarrow> kind \<noteq> AbortAll \<Longrightarrow> g_state s = GcSweep \<Longrightarrow>
    gc_step s (begin_resume t kind n s)"
| resumed: "g_pc s t = ResumeWait kind n \<Longrightarrow> g_handshakeEvent s \<Longrightarrow>
    gc_step s (goto t (Finishing kind) (s\<lparr>g_handshakeEvent := False\<rparr>))"
| finish: "g_pc s t = Finishing kind \<Longrightarrow> g_lock s = None \<Longrightarrow>
    gc_step s (goto t (if kind = CollectForAlloc then Locking AllocEnd (is_mutator s t) else Running)
      (s\<lparr>g_state := GcIdle, g_idleEvent := True\<rparr>))"

definition gc_init :: "gc \<Rightarrow> bool" where
  "gc_init s \<longleftrightarrow>
     g_state s = GcIdle \<and> g_lock s = None \<and> g_idleEvent s \<and> \<not> g_handshakeEvent s \<and> g_waitingCount s = 0 \<and>
     g_noCollectCount s = 0 \<and> g_handshakeCount s = 0 \<and> g_threads s = [] \<and> (\<forall>t. g_pc s t = Running)"

section \<open>The steps as a function\<close>

text \<open>What a schedule leaves open: the call a running thread makes, the change of a nested level, whether a
  trigger is exceeded, whether an aborted thread unwinds, and the next phase of a collection.\<close>

datatype choice = Call gc_op | Nest bool bool | SafePoint | Go bool | Throw | Phase gc_state

fun nest :: "bool \<Rightarrow> bool \<Rightarrow> tid \<Rightarrow> gc \<Rightarrow> gc" where
  "nest True up t s = set_wait t (if up then waitLevel s t + 1 else waitLevel s t - 1) s"
| "nest False up t s = set_noCollect t (if up then noCollectLevel s t + 1 else noCollectLevel s t - 1) s"

definition may_nest :: "bool \<Rightarrow> bool \<Rightarrow> tid \<Rightarrow> gc \<Rightarrow> bool" where
  "may_nest w up t s \<longleftrightarrow> t \<in> set (g_threads s) \<and>
     (if w then waitLevel s t > (if up then 0 else 1)
      else waitLevel s t = 0 \<and> noCollectLevel s t > (if up then 0 else 1))"

definition guarded :: "bool \<Rightarrow> 'a \<Rightarrow> 'a option" where
  "guarded b x = (if b then Some x else None)"

definition gc_next :: "tid \<Rightarrow> choice \<Rightarrow> gc \<Rightarrow> gc option" where
  "gc_next t ch s =
     (case g_pc s t of
        Running \<Rightarrow>
          (case ch of
             Call op \<Rightarrow> guarded (may_call s t op) (goto t (Locking op (is_mutator s t)) s)
           | Nest w up \<Rightarrow> guarded (may_nest w up t s) (nest w up t s)
           | SafePoint \<Rightarrow> guarded (is_mutator s t) (goto t (AtSafePoint None) s)
           | _ \<Rightarrow> None)
      | Locking op im \<Rightarrow> guarded (g_lock s = None) (goto t (Checking op im) (s\<lparr>g_lock := Some t\<rparr>))
      | Checking op im \<Rightarrow>
          Some (if g_state s = GcIdle then goto t (Body op im) s
            else if \<not> im then goto t (AwaitIdle op False) (unlock s)
            else if g_state s = StopTheWorld then goto t (AtSafePoint (Some op)) (unlock s)
            else goto t (AwaitIdle op True) (unlock (set_wait t 1 (s\<lparr>g_waitingCount := g_waitingCount s + 1\<rparr>))))
      | AwaitIdle op im \<Rightarrow> guarded (g_idleEvent s) (goto t (Relocking op im) s)
      | Relocking op im \<Rightarrow> guarded (g_lock s = None) (goto t (Rechecking op im) (s\<lparr>g_lock := Some t\<rparr>))
      | Rechecking op im \<Rightarrow>
          Some (if g_state s \<noteq> GcIdle then goto t (AwaitIdle op im) (unlock s)
            else if im then goto t (Body op True) (set_wait t 0 (s\<lparr>g_waitingCount := g_waitingCount s - 1\<rparr>))
            else goto t (Body op False) s)
      | Body op im \<Rightarrow> (case ch of Go trig \<Rightarrow> Some (gc_body t op im trig s) | _ \<Rightarrow> None)
      | AtSafePoint k \<Rightarrow> Some (if g_state s = StopTheWorld then goto t (ParkSet k) s else goto t (resume_pc k) s)
      | ParkSet k \<Rightarrow> Some (goto t (ParkDec k) (set_safe t True s))
      | ParkDec k \<Rightarrow> Some (goto t (ParkWait k) (handshake_dec s))
      | ParkWait k \<Rightarrow> guarded (g_resumeEvent s) (goto t (ParkLeave k) (set_safe t False s))
      | ParkLeave k \<Rightarrow>
          (if ch = Throw then guarded (g_abort s) (goto t Running (handshake_dec s))
           else Some (goto t (resume_pc k) (handshake_dec s)))
      | StopWait kind n \<Rightarrow> guarded (g_handshakeEvent s) (goto t (Stopped kind n) (s\<lparr>g_handshakeEvent := False\<rparr>))
      | Stopped kind n \<Rightarrow>
          (if kind = AbortAll then Some (begin_resume t AbortAll n (s\<lparr>g_abort := True\<rparr>))
           else case ch of
             Phase st \<Rightarrow> guarded (next_phase (g_state s) st) (s\<lparr>g_state := st\<rparr>)
           | _ \<Rightarrow> guarded (g_state s = GcSweep) (begin_resume t kind n s))
      | ResumeWait kind n \<Rightarrow> guarded (g_handshakeEvent s) (goto t (Finishing kind) (s\<lparr>g_handshakeEvent := False\<rparr>))
      | Finishing kind \<Rightarrow>
          guarded (g_lock s = None)
            (goto t (if kind = CollectForAlloc then Locking AllocEnd (is_mutator s t) else Running)
              (s\<lparr>g_state := GcIdle, g_idleEvent := True\<rparr>)))"

lemma guarded_Some [simp]: "guarded b x = Some y \<longleftrightarrow> b \<and> x = y"
  by (simp add: guarded_def)

lemma nested_iff: "nested s t s' \<longleftrightarrow> (\<exists>w up. may_nest w up t s \<and> s' = nest w up t s)"
proof
  assume n: "nested s t s'"
  have "may_nest True True t s \<and> s' = nest True True t s \<or> may_nest True False t s \<and> s' = nest True False t s \<or>
    may_nest False True t s \<and> s' = nest False True t s \<or> may_nest False False t s \<and> s' = nest False False t s"
    using n unfolding nested_def may_nest_def by simp
  then show "\<exists>w up. may_nest w up t s \<and> s' = nest w up t s" by blast
next
  assume "\<exists>w up. may_nest w up t s \<and> s' = nest w up t s"
  then obtain w up where "may_nest w up t s" "s' = nest w up t s" by blast
  then show "nested s t s'" by (cases w; cases up) (simp_all add: nested_def may_nest_def)
qed

lemma finish_pc: "g_pc s t = Finishing kind \<Longrightarrow> g_lock s = None \<Longrightarrow> kind = CollectForAlloc \<Longrightarrow>
    gc_step s (goto t (Locking AllocEnd (is_mutator s t)) (s\<lparr>g_state := GcIdle, g_idleEvent := True\<rparr>))"
  "g_pc s t = Finishing kind \<Longrightarrow> g_lock s = None \<Longrightarrow> kind \<noteq> CollectForAlloc \<Longrightarrow>
    gc_step s (goto t Running (s\<lparr>g_state := GcIdle, g_idleEvent := True\<rparr>))"
  using gc_step.finish [of s t kind] by simp_all

lemma nest_step: "g_pc s t = Running \<Longrightarrow> may_nest w up t s \<Longrightarrow> gc_step s (nest w up t s)"
  by (rule gc_step.region [of s t]) (auto simp: nested_iff)

lemma gc_next_step: "gc_next t ch s = Some s' \<Longrightarrow> gc_step s s'"
  apply (cases "g_pc s t")
  apply (simp_all add: gc_next_def split: if_splits choice.splits del: One_nat_def)
  apply (auto intro: gc_step.intros(1,3-26) nest_step finish_pc simp del: One_nat_def)
  done

lemma gc_step_next: "gc_step s s' \<Longrightarrow> \<exists>t ch. gc_next t ch s = Some s'"
proof (induction rule: gc_step.induct)
  case (call s t op)
  then show ?case by (intro exI [of _ t] exI [of _ "Call op"]) (simp add: gc_next_def)
next
  case (region s t s')
  then obtain w up where "may_nest w up t s" "s' = nest w up t s" unfolding nested_iff by blast
  then have "gc_next t (Nest w up) s = Some s'" using region by (simp add: gc_next_def)
  then show ?case by blast
next
  case (safe_point s t)
  then show ?case by (intro exI [of _ t] exI [of _ "SafePoint"]) (simp add: gc_next_def)
next
  case (lock s t op im)
  then show ?case by (intro exI [of _ t] exI [of _ "Go False"]) (simp add: gc_next_def)
next
  case (check_idle s t op im)
  then show ?case by (intro exI [of _ t] exI [of _ "Go False"]) (simp add: gc_next_def)
next
  case (check_other s t op)
  then show ?case by (intro exI [of _ t] exI [of _ "Go False"]) (simp add: gc_next_def)
next
  case (check_stop s t op)
  then show ?case by (intro exI [of _ t] exI [of _ "Go False"]) (simp add: gc_next_def)
next
  case (check_phase s t op)
  then show ?case by (intro exI [of _ t] exI [of _ "Go False"]) (simp add: gc_next_def)
next
  case (await_idle s t op im)
  then show ?case by (intro exI [of _ t] exI [of _ "Go False"]) (simp add: gc_next_def)
next
  case (relock s t op im)
  then show ?case by (intro exI [of _ t] exI [of _ "Go False"]) (simp add: gc_next_def)
next
  case (recheck_other s t op im)
  then show ?case by (intro exI [of _ t] exI [of _ "Go False"]) (simp add: gc_next_def)
next
  case (recheck_idle s t op)
  then show ?case by (intro exI [of _ t] exI [of _ "Go False"]) (simp add: gc_next_def)
next
  case (recheck_idle_mutator s t op)
  then show ?case by (intro exI [of _ t] exI [of _ "Go False"]) (simp add: gc_next_def)
next
  case (body s t op im trig)
  then show ?case by (intro exI [of _ t] exI [of _ "Go trig"]) (simp add: gc_next_def)
next
  case (safe_point_pass s t k)
  then show ?case by (intro exI [of _ t] exI [of _ "Go False"]) (simp add: gc_next_def)
next
  case (safe_point_stop s t k)
  then show ?case by (intro exI [of _ t] exI [of _ "Go False"]) (simp add: gc_next_def)
next
  case (park_set s t k)
  then show ?case by (intro exI [of _ t] exI [of _ "Go False"]) (simp add: gc_next_def)
next
  case (park_dec s t k)
  then show ?case by (intro exI [of _ t] exI [of _ "Go False"]) (simp add: gc_next_def)
next
  case (park_resume s t k)
  then show ?case by (intro exI [of _ t] exI [of _ "Go False"]) (simp add: gc_next_def)
next
  case (park_leave s t k)
  then show ?case by (intro exI [of _ t] exI [of _ "Go False"]) (simp add: gc_next_def)
next
  case (park_throw s t k)
  then show ?case by (intro exI [of _ t] exI [of _ "Throw"]) (simp add: gc_next_def)
next
  case (stopped s t kind n)
  then show ?case by (intro exI [of _ t] exI [of _ "Go False"]) (simp add: gc_next_def)
next
  case (phase s t kind n st)
  then show ?case by (intro exI [of _ t] exI [of _ "Phase st"]) (simp add: gc_next_def)
next
  case (abort s t n)
  then show ?case by (intro exI [of _ t] exI [of _ "Go False"]) (simp add: gc_next_def)
next
  case (resume s t kind n)
  then show ?case by (intro exI [of _ t] exI [of _ "Go False"]) (simp add: gc_next_def)
next
  case (resumed s t kind n)
  then show ?case by (intro exI [of _ t] exI [of _ "Go False"]) (simp add: gc_next_def)
next
  case (finish s t kind)
  then show ?case by (intro exI [of _ t] exI [of _ "Go False"]) (simp add: gc_next_def)
qed

fun gc_run :: "(tid \<times> choice) list \<Rightarrow> gc \<Rightarrow> gc option" where
  "gc_run [] s = Some s"
| "gc_run ((t, ch) # sched) s = (case gc_next t ch s of None \<Rightarrow> None | Some s' \<Rightarrow> gc_run sched s')"

lemma gc_run_steps: "gc_run sched s = Some s' \<Longrightarrow> gc_step\<^sup>*\<^sup>* s s'"
  by (induction sched s rule: gc_run.induct)
    (auto split: option.splits dest!: gc_next_step intro: converse_rtranclp_into_rtranclp)

text \<open>The heap after \<^verbatim>\<open>startup\<close>, and schedules of a thread.\<close>

definition gc_start :: gc where
  "gc_start = \<lparr>g_state = GcIdle, g_lock = None, g_abort = False, g_idleEvent = True, g_resumeEvent = False,
     g_handshakeEvent = False, g_waitingCount = 0, g_noCollectCount = 0, g_handshakeCount = 0, g_threads = [],
     g_mt = (\<lambda>t. \<lparr>mt_isSafePoint = False, mt_waitLevel = 0, mt_noCollectLevel = 0\<rparr>), g_pc = (\<lambda>t. Running)\<rparr>"

lemma gc_start_init: "gc_init gc_start"
  by (simp add: gc_init_def gc_start_def)

definition calls :: "tid \<Rightarrow> gc_op \<Rightarrow> (tid \<times> choice) list" where
  "calls t op = [(t, Call op), (t, Go False), (t, Go False), (t, Go False)]"

definition parks :: "tid \<Rightarrow> (tid \<times> choice) list" where
  "parks t = [(t, SafePoint), (t, Go False), (t, Go False), (t, Go False)]"

end
