(* ===== verification/GcHandshakeInv.thy ===== *)
theory GcHandshakeInv
  imports GcHandshake
begin

text \<open>
  The invariant of the handshake between the collector and the mutator threads: who holds the lock,
  what the counters count, and, for each phase of a collection, where the mutators are.
\<close>

section \<open>Positions of a thread\<close>

fun coll :: "gc_pc \<Rightarrow> bool" where
  "coll (StopWait k n) = True"
| "coll (Stopped k n) = True"
| "coll (ResumeWait k n) = True"
| "coll (Finishing k) = True"
| "coll _ = False"

fun holds :: "gc_pc \<Rightarrow> bool" where
  "holds (Checking op im) = True"
| "holds (Rechecking op im) = True"
| "holds (Body op im) = True"
| "holds _ = False"

fun parking :: "gc_pc \<Rightarrow> bool" where
  "parking (ParkSet k) = True"
| "parking (ParkDec k) = True"
| "parking _ = False"

fun parked :: "gc_pc \<Rightarrow> bool" where
  "parked (ParkWait k) = True"
| "parked _ = False"

fun leaving :: "gc_pc \<Rightarrow> bool" where
  "leaving (ParkLeave k) = True"
| "leaving _ = False"

fun at_body :: "gc_pc \<Rightarrow> bool" where
  "at_body (Body op im) = True"
| "at_body _ = False"

definition plain :: "gc_pc \<Rightarrow> bool" where
  "plain p \<longleftrightarrow> \<not> coll p \<and> \<not> parking p \<and> \<not> parked p \<and> \<not> leaving p"

section \<open>The invariant\<close>

definition op_ok :: "gc \<Rightarrow> tid \<Rightarrow> gc_op \<Rightarrow> bool \<Rightarrow> bool" where
  "op_ok s t op im =
     (case op of
        Register \<Rightarrow> t \<notin> set (g_threads s)
      | Unregister \<Rightarrow> t \<in> set (g_threads s)
      | EnterWait \<Rightarrow> im
      | LeaveWait \<Rightarrow> \<not> im \<and> t \<in> set (g_threads s) \<and> waitLevel s t = 1
      | EnterNoCollect \<Rightarrow> im \<and> noCollectLevel s t = 0
      | LeaveNoCollect now \<Rightarrow> im \<and> noCollectLevel s t = 1
      | Alloc \<Rightarrow> im
      | _ \<Rightarrow> True)"

definition at_entry :: "gc \<Rightarrow> tid \<Rightarrow> gc_op \<Rightarrow> bool \<Rightarrow> bool" where
  "at_entry s t op im \<longleftrightarrow> im = is_mutator s t \<and> op_ok s t op im"

definition at_wait :: "gc \<Rightarrow> tid \<Rightarrow> gc_op \<Rightarrow> bool \<Rightarrow> bool" where
  "at_wait s t op im \<longleftrightarrow>
     (if im then t \<in> set (g_threads s) \<and> waitLevel s t = 1 else \<not> is_mutator s t) \<and> op_ok s t op im"

definition at_park :: "gc \<Rightarrow> tid \<Rightarrow> gc_op option \<Rightarrow> bool" where
  "at_park s t k \<longleftrightarrow> is_mutator s t \<and> (\<forall>op. k = Some op \<longrightarrow> op_ok s t op True)"

fun pc_ok :: "gc \<Rightarrow> tid \<Rightarrow> gc_pc \<Rightarrow> bool" where
  "pc_ok s t (Locking op im) = at_entry s t op im"
| "pc_ok s t (Checking op im) = at_entry s t op im"
| "pc_ok s t (Body op im) = (at_entry s t op im \<and> g_state s = GcIdle)"
| "pc_ok s t (AwaitIdle op im) = at_wait s t op im"
| "pc_ok s t (Relocking op im) = at_wait s t op im"
| "pc_ok s t (Rechecking op im) = at_wait s t op im"
| "pc_ok s t (AtSafePoint k) = at_park s t k"
| "pc_ok s t (ParkSet k) = at_park s t k"
| "pc_ok s t (ParkDec k) = at_park s t k"
| "pc_ok s t (ParkWait k) = at_park s t k"
| "pc_ok s t (ParkLeave k) = at_park s t k"
| "pc_ok s t _ = True"

definition others :: "gc \<Rightarrow> tid \<Rightarrow> tid set" where
  "others s c = {t. is_mutator s t \<and> t \<noteq> c}"

definition owing :: "gc \<Rightarrow> tid \<Rightarrow> tid set" where
  "owing s c = {t. is_mutator s t \<and> t \<noteq> c \<and> \<not> parked (g_pc s t)}"

definition in_park :: "gc \<Rightarrow> tid set" where
  "in_park s = {t. parked (g_pc s t) \<or> leaving (g_pc s t)}"

definition no_park :: "gc \<Rightarrow> bool" where
  "no_park s \<longleftrightarrow> (\<forall>t. \<not> parking (g_pc s t) \<and> \<not> parked (g_pc s t) \<and> \<not> leaving (g_pc s t))"

fun coll_ok :: "gc \<Rightarrow> tid \<Rightarrow> gc_pc \<Rightarrow> bool" where
  "coll_ok s c (StopWait k n) =
     (g_state s = StopTheWorld \<and> 0 < n \<and> n = card (others s c) \<and> \<not> g_resumeEvent s \<and>
      g_handshakeCount s = int (card (owing s c)) \<and> (g_handshakeEvent s \<longleftrightarrow> g_handshakeCount s = 0) \<and>
      (\<forall>t. \<not> leaving (g_pc s t)))"
| "coll_ok s c (Stopped k n) =
     (g_state s \<in> {StopTheWorld, GcMark, BuildDestructGraph, GcSweep} \<and> \<not> g_handshakeEvent s \<and>
      n = card (others s c) \<and> (\<forall>t\<in>others s c. parked (g_pc s t)) \<and> (0 < n \<longrightarrow> \<not> g_resumeEvent s) \<and>
      (\<forall>t. \<not> leaving (g_pc s t) \<and> \<not> parking (g_pc s t)))"
| "coll_ok s c (ResumeWait k n) =
     (g_state s = ResumeTheWorld \<and> g_resumeEvent s \<and> g_handshakeCount s = int (card (in_park s)) \<and>
      (g_handshakeEvent s \<longleftrightarrow> g_handshakeCount s = 0) \<and> (\<forall>t. \<not> parking (g_pc s t)))"
| "coll_ok s c (Finishing k) = (g_state s \<noteq> GcIdle \<and> \<not> g_handshakeEvent s \<and> no_park s \<and>
     (g_state s \<noteq> ResumeTheWorld \<longrightarrow> others s c = {}))"
| "coll_ok s c _ = True"

definition quiet :: "gc \<Rightarrow> bool" where
  "quiet s \<longleftrightarrow> g_state s = GcIdle \<and> no_park s \<and> \<not> g_handshakeEvent s"

definition counts_ok :: "gc \<Rightarrow> bool" where
  "counts_ok s \<longleftrightarrow> distinct (g_threads s) \<and>
     g_waitingCount s = card {t \<in> set (g_threads s). waitLevel s t \<noteq> 0} \<and>
     g_noCollectCount s = card {t \<in> set (g_threads s). noCollectLevel s t \<noteq> 0}"

definition gc_inv :: "gc \<Rightarrow> bool" where
  "gc_inv s \<longleftrightarrow> counts_ok s \<and>
     (\<forall>t. holds (g_pc s t) \<longleftrightarrow> g_lock s = Some t) \<and>
     (g_idleEvent s \<longleftrightarrow> g_state s = GcIdle) \<and>
     (\<forall>t. pc_ok s t (g_pc s t)) \<and>
     (\<forall>t u. coll (g_pc s t) \<and> coll (g_pc s u) \<longrightarrow> t = u) \<and>
     (\<forall>c. coll (g_pc s c) \<longrightarrow> coll_ok s c (g_pc s c)) \<and>
     ((\<forall>c. \<not> coll (g_pc s c)) \<longrightarrow> quiet s)"

lemmas gc_updates = goto_def unlock_def set_wait_def set_noCollect_def set_safe_def

section \<open>Counting threads\<close>

lemma card_flip_in:
  assumes "finite A" and "t \<in> A" and "\<not> P t" and "Q t" and "\<And>u. u \<noteq> t \<Longrightarrow> Q u = P u"
  shows "card {u \<in> A. Q u} = Suc (card {u \<in> A. P u})"
proof -
  have "Q u \<longleftrightarrow> u = t \<or> P u" for u using assms(4,5) by (cases "u = t") auto
  then have "{u \<in> A. Q u} = insert t {u \<in> A. P u}" using assms(2) by auto
  then show ?thesis using assms(1,3) by simp
qed

lemma card_flip_out:
  assumes "finite A" and "t \<in> A" and "P t" and "\<not> Q t" and "\<And>u. u \<noteq> t \<Longrightarrow> Q u = P u"
  shows "card {u \<in> A. P u} = Suc (card {u \<in> A. Q u})"
  using card_flip_in [of A t Q P] assms by simp

lemma finite_mutators [simp]: "finite (others s c)" "finite (owing s c)"
  by (rule finite_subset [of _ "set (g_threads s)"]; auto simp: others_def owing_def is_mutator_def)+

text \<open>A step of one thread leaves what concerns the others as it was.\<close>

definition local_step :: "tid \<Rightarrow> gc \<Rightarrow> gc \<Rightarrow> bool" where
  "local_step t s s' \<longleftrightarrow> (\<forall>u. u \<noteq> t \<longrightarrow> g_pc s' u = g_pc s u \<and> g_mt s' u = g_mt s u \<and>
     (u \<in> set (g_threads s') \<longleftrightarrow> u \<in> set (g_threads s)))"

definition same_phase :: "gc \<Rightarrow> gc \<Rightarrow> bool" where
  "same_phase s s' \<longleftrightarrow> g_state s' = g_state s \<and> g_resumeEvent s' = g_resumeEvent s \<and>
     g_handshakeEvent s' = g_handshakeEvent s \<and> g_handshakeCount s' = g_handshakeCount s"

lemma pc_ok_local:
  assumes "local_step t s s'" and "u \<noteq> t" and "pc_ok s u (g_pc s u)" and "g_state s' = g_state s \<or> \<not> at_body (g_pc s u)"
  shows "pc_ok s' u (g_pc s' u)"
proof -
  have e: "g_pc s' u = g_pc s u" "g_mt s' u = g_mt s u" "u \<in> set (g_threads s') \<longleftrightarrow> u \<in> set (g_threads s)"
    using assms(1,2) by (auto simp: local_step_def)
  have o: "op_ok s' u op im = op_ok s u op im" for op im by (simp add: op_ok_def e split: gc_op.split)
  have m: "is_mutator s' u = is_mutator s u" by (simp add: is_mutator_def e)
  show ?thesis
    using assms(3,4) unfolding e(1)
    by (cases "g_pc s u") (simp_all add: at_entry_def at_wait_def at_park_def e m o)
qed

lemma coll_ok_plain:
  assumes "local_step t s s'" and "same_phase s s'" and "plain (g_pc s t)" and "plain (g_pc s' t)" and "c \<noteq> t"
    and "is_mutator s' t = is_mutator s t \<or> g_state s = ResumeTheWorld" and "coll_ok s c (g_pc s c)"
  shows "coll_ok s' c (g_pc s' c)"
proof -
  have e: "g_pc s' u = (if u = t then g_pc s' t else g_pc s u)" for u using assms(1) by (simp add: local_step_def)
  have m: "is_mutator s' u = is_mutator s u" if "g_state s \<noteq> ResumeTheWorld" for u
    using assms(1,6) that by (cases "u = t") (auto simp: local_step_def is_mutator_def)
  have p: "parked (g_pc s' u) = parked (g_pc s u)" "leaving (g_pc s' u) = leaving (g_pc s u)"
    "parking (g_pc s' u) = parking (g_pc s u)" for u
    using assms(3,4) by (auto simp: e [of u] plain_def)
  have ph: "g_state s' = g_state s" "g_resumeEvent s' = g_resumeEvent s"
    "g_handshakeEvent s' = g_handshakeEvent s" "g_handshakeCount s' = g_handshakeCount s"
    using assms(2) by (simp_all add: same_phase_def)
  have c: "g_pc s' c = g_pc s c" using e assms(5) by simp
  show ?thesis
    using assms(7) unfolding c
    by (cases "g_pc s c") (auto simp: ph p m others_def owing_def in_park_def no_park_def)
qed

lemma quiet_plain:
  assumes "local_step t s s'" and "same_phase s s'" and "plain (g_pc s' t)" and "quiet s"
  shows "quiet s'"
proof -
  have "parking (g_pc s' u) = False" "parked (g_pc s' u) = False" "leaving (g_pc s' u) = False" for u
    using assms(1,3,4) by (cases "u = t"; simp add: local_step_def quiet_def no_park_def plain_def)+
  then show ?thesis using assms(2,4) by (simp add: quiet_def no_park_def same_phase_def)
qed

text \<open>The invariant after a step of a thread that is neither the collector nor parked.\<close>

lemma inv_plain:
  assumes inv: "gc_inv s" and "local_step t s s'" and "same_phase s s'" and "g_idleEvent s' = g_idleEvent s"
    and "plain (g_pc s t)" and "plain (g_pc s' t)"
    and "is_mutator s' t = is_mutator s t \<or> g_state s \<in> {GcIdle, ResumeTheWorld}"
    and "counts_ok s'" and "pc_ok s' t (g_pc s' t)"
    and "\<forall>u. holds (g_pc s' u) \<longleftrightarrow> g_lock s' = Some u"
  shows "gc_inv s'"
proof -
  have e: "g_pc s' u = (if u = t then g_pc s' t else g_pc s u)" for u using assms(2) by (simp add: local_step_def)
  have c: "coll (g_pc s' u) = coll (g_pc s u)" for u using assms(5,6) by (simp add: e [of u] plain_def)
  have st: "g_state s' = g_state s" using assms(3) by (simp add: same_phase_def)
  have nt: "u \<noteq> t" if "coll (g_pc s u)" for u using that assms(5) by (auto simp: plain_def)
  have g: "coll_ok s' u (g_pc s' u)" if "coll (g_pc s u)" for u
  proof (rule coll_ok_plain [OF assms(2,3,5,6)])
    show "u \<noteq> t" "coll_ok s u (g_pc s u)" using that nt inv by (auto simp: gc_inv_def)
    then show "is_mutator s' t = is_mutator s t \<or> g_state s = ResumeTheWorld"
      using assms(7) that by (cases "g_pc s u") auto
  qed
  have "pc_ok s' u (g_pc s' u)" for u
    using pc_ok_local [OF assms(2), of u] inv assms(9) st by (cases "u = t") (auto simp: gc_inv_def)
  then show ?thesis
    using inv c g quiet_plain [OF assms(2,3,6)] st assms(4,8,10) by (simp add: gc_inv_def)
qed

section \<open>Steps while the world is stopped\<close>

lemma inv_stopped:
  assumes inv: "gc_inv s" and l: "local_step t s s'" and c: "coll (g_pc s c)"
    and "t = c \<or> \<not> coll (g_pc s t)" and "coll (g_pc s' t) = coll (g_pc s t)"
    and "counts_ok s'" and "pc_ok s' t (g_pc s' t)" and "\<forall>u. holds (g_pc s' u) \<longleftrightarrow> g_lock s' = Some u"
    and "g_state s' \<noteq> GcIdle" and "g_idleEvent s' = g_idleEvent s" and "coll_ok s' c (g_pc s' c)"
  shows "gc_inv s'"
proof -
  have e: "u \<noteq> t \<Longrightarrow> g_pc s' u = g_pc s u" for u using l by (simp add: local_step_def)
  have co: "coll (g_pc s' u) = coll (g_pc s u)" for u using e assms(5) by (cases "u = t") auto
  have u: "u = c" if "coll (g_pc s u)" for u using inv c that by (auto simp: gc_inv_def)
  have st: "g_state s \<noteq> GcIdle" using inv c by (cases "g_pc s c") (auto simp: gc_inv_def dest!: spec [of _ c])
  have "\<not> at_body (g_pc s u)" for u
    using inv st by (cases "g_pc s u") (auto simp: gc_inv_def dest!: spec [of _ u])
  then have "pc_ok s' u (g_pc s' u)" for u
    using pc_ok_local [OF l, of u] inv assms(7) by (cases "u = t") (auto simp: gc_inv_def)
  then show ?thesis
    using inv co u c st assms(6,8-11) by (auto simp: gc_inv_def)
qed

text \<open>What the invariant says of the collector when a thread is in the code of a safe point.\<close>

lemma inv_coll:
  assumes "gc_inv s" and "g_state s \<noteq> GcIdle \<or> parking (g_pc s t) \<or> parked (g_pc s t) \<or> leaving (g_pc s t)"
  obtains c where "coll (g_pc s c)" and "coll_ok s c (g_pc s c)"
  using assms unfolding gc_inv_def quiet_def no_park_def by blast

lemma inv_pc: "gc_inv s \<Longrightarrow> pc_ok s t (g_pc s t)"
  by (simp add: gc_inv_def)

lemma inv_lock: "gc_inv s \<Longrightarrow> holds (g_pc s u) \<longleftrightarrow> g_lock s = Some u"
  by (simp add: gc_inv_def)

lemma inv_facts: "gc_inv s \<Longrightarrow> counts_ok s" "gc_inv s \<Longrightarrow> g_idleEvent s \<longleftrightarrow> g_state s = GcIdle"
  by (simp_all add: gc_inv_def)

lemma inv_coll_ok: "gc_inv s \<Longrightarrow> coll (g_pc s c) \<Longrightarrow> coll_ok s c (g_pc s c)"
  by (simp add: gc_inv_def)

lemma park_collector:
  assumes "gc_inv s" and "parking (g_pc s t) \<or> (g_state s = StopTheWorld \<and> is_mutator s t \<and> plain (g_pc s t))"
  obtains c k n where "g_pc s c = StopWait k n" and "c \<noteq> t" and "coll_ok s c (StopWait k n)"
proof -
  have "g_state s \<noteq> GcIdle \<or> parking (g_pc s t) \<or> parked (g_pc s t) \<or> leaving (g_pc s t)" using assms(2) by auto
  then obtain c where c: "coll (g_pc s c)" "coll_ok s c (g_pc s c)" by (rule inv_coll [OF assms(1)])
  have t: "c \<noteq> t" using c(1) assms(2) by (cases "g_pc s t") (auto simp: plain_def)
  have m: "is_mutator s t" using assms(2) inv_pc [OF assms(1), of t] by (cases "g_pc s t") (auto simp: at_park_def)
  have "\<exists>k n. g_pc s c = StopWait k n"
    using c t m assms(2) by (cases "g_pc s c") (auto simp: others_def no_park_def plain_def)
  then show ?thesis using that c(2) t by metis
qed

lemma leave_collector:
  assumes "gc_inv s" and "leaving (g_pc s t) \<or> (parked (g_pc s t) \<and> g_resumeEvent s)"
  obtains c k n where "g_pc s c = ResumeWait k n" and "c \<noteq> t" and "coll_ok s c (ResumeWait k n)"
proof -
  have "g_state s \<noteq> GcIdle \<or> parking (g_pc s t) \<or> parked (g_pc s t) \<or> leaving (g_pc s t)" using assms(2) by auto
  then obtain c where c: "coll (g_pc s c)" "coll_ok s c (g_pc s c)" by (rule inv_coll [OF assms(1)])
  have t: "c \<noteq> t" using c(1) assms(2) by (cases "g_pc s t") auto
  have m: "is_mutator s t" using assms(2) inv_pc [OF assms(1), of t] by (cases "g_pc s t") (auto simp: at_park_def)
  then have "t \<in> others s c" using t by (simp add: others_def)
  then have "0 < card (others s c)" by (auto simp: card_gt_0_iff)
  then have "\<exists>k n. g_pc s c = ResumeWait k n"
    using c t m assms(2) by (cases "g_pc s c") (auto simp: others_def no_park_def)
  then show ?thesis using that c(2) t by metis
qed

lemma counts_goto [simp]: "counts_ok (goto t p s) = counts_ok s"
  by (simp add: counts_ok_def goto_def)

lemma goto_fields [simp]:
  "g_state (goto t p s) = g_state s" "g_lock (goto t p s) = g_lock s" "g_idleEvent (goto t p s) = g_idleEvent s"
  "g_resumeEvent (goto t p s) = g_resumeEvent s" "g_handshakeEvent (goto t p s) = g_handshakeEvent s"
  "g_handshakeCount (goto t p s) = g_handshakeCount s" "g_threads (goto t p s) = g_threads s"
  "g_waitingCount (goto t p s) = g_waitingCount s" "g_noCollectCount (goto t p s) = g_noCollectCount s"
  "g_mt (goto t p s) = g_mt s" "is_mutator (goto t p s) u = is_mutator s u"
  "g_pc (goto t p s) u = (if u = t then p else g_pc s u)"
  by (simp_all add: goto_def is_mutator_def)

lemma at_goto [simp]:
  "op_ok (goto t p s) u op im = op_ok s u op im" "at_entry (goto t p s) u op im = at_entry s u op im"
  "at_wait (goto t p s) u op im = at_wait s u op im" "at_park (goto t p s) u k = at_park s u k"
  by (simp_all add: at_entry_def at_wait_def at_park_def op_ok_def split: gc_op.split)

lemma pc_ok_goto [simp]: "pc_ok (goto t p s) u q = pc_ok s u q"
  by (cases q) simp_all

lemma park_pc_ok:
  "at_park s t k \<Longrightarrow> pc_ok s t (resume_pc k)"
  by (auto simp: resume_pc_def at_park_def at_entry_def split: option.split)

lemma inv_safe_point_stop:
  assumes inv: "gc_inv s" and p: "g_pc s t = AtSafePoint k" and "g_state s = StopTheWorld"
  shows "gc_inv (goto t (ParkSet k) s)"
proof -
  have k: "at_park s t k" using inv_pc [OF inv, of t] p by simp
  obtain c kd n where c: "g_pc s c = StopWait kd n" "c \<noteq> t" "coll_ok s c (StopWait kd n)"
    using park_collector [OF inv, of t] assms(3) k p by (auto simp: at_park_def plain_def)
  have "owing (goto t (ParkSet k) s) c = owing s c" "others (goto t (ParkSet k) s) c = others s c"
    using p by (auto simp: owing_def others_def)
  then show ?thesis
    using c k p assms(3) inv_lock [OF inv] inv_lock [OF inv, of t] inv_facts [OF inv]
    by (intro inv_stopped [OF inv, of t _ c]) (simp_all add: local_step_def pc_ok_goto)
qed

text \<open>Updates that do not move a thread.\<close>

lemma set_safe_fields [simp]:
  "g_state (set_safe t b s) = g_state s" "g_lock (set_safe t b s) = g_lock s"
  "g_idleEvent (set_safe t b s) = g_idleEvent s" "g_resumeEvent (set_safe t b s) = g_resumeEvent s"
  "g_handshakeEvent (set_safe t b s) = g_handshakeEvent s" "g_handshakeCount (set_safe t b s) = g_handshakeCount s"
  "g_waitingCount (set_safe t b s) = g_waitingCount s" "g_noCollectCount (set_safe t b s) = g_noCollectCount s"
  "g_threads (set_safe t b s) = g_threads s" "g_pc (set_safe t b s) = g_pc s"
  "waitLevel (set_safe t b s) u = waitLevel s u" "noCollectLevel (set_safe t b s) u = noCollectLevel s u"
  "u \<noteq> t \<Longrightarrow> g_mt (set_safe t b s) u = g_mt s u"
  by (simp_all add: set_safe_def)

lemma set_safe_same [simp]:
  "is_mutator (set_safe t b s) u = is_mutator s u" "counts_ok (set_safe t b s) = counts_ok s"
  "at_park (set_safe t b s) u k = at_park s u k"
  by (simp_all add: is_mutator_def counts_ok_def at_park_def op_ok_def split: gc_op.split)

lemma dec_fields [simp]:
  "g_state (handshake_dec s) = g_state s" "g_lock (handshake_dec s) = g_lock s" "g_idleEvent (handshake_dec s) = g_idleEvent s"
  "g_resumeEvent (handshake_dec s) = g_resumeEvent s" "g_threads (handshake_dec s) = g_threads s"
  "g_waitingCount (handshake_dec s) = g_waitingCount s" "g_noCollectCount (handshake_dec s) = g_noCollectCount s"
  "g_pc (handshake_dec s) = g_pc s" "g_mt (handshake_dec s) = g_mt s"
  "g_handshakeCount (handshake_dec s) = g_handshakeCount s - 1"
  "g_handshakeEvent (handshake_dec s) = (g_handshakeCount s = 1 \<or> g_handshakeEvent s)"
  by (simp_all add: handshake_dec_def Let_def)

lemma dec_same [simp]:
  "is_mutator (handshake_dec s) u = is_mutator s u" "counts_ok (handshake_dec s) = counts_ok s"
  "at_park (handshake_dec s) u k = at_park s u k"
  by (simp_all add: is_mutator_def counts_ok_def at_park_def op_ok_def split: gc_op.split)

lemma inv_park_set:
  assumes inv: "gc_inv s" and p: "g_pc s t = ParkSet k"
  shows "gc_inv (goto t (ParkDec k) (set_safe t True s))" (is "gc_inv ?s'")
proof -
  have k: "at_park s t k" using inv_pc [OF inv, of t] p by simp
  obtain c kd n where c: "g_pc s c = StopWait kd n" "c \<noteq> t" "coll_ok s c (StopWait kd n)"
    using park_collector [OF inv, of t] p by auto
  have "owing ?s' c = owing s c" "others ?s' c = others s c" using p by (auto simp: owing_def others_def)
  then show ?thesis
    using c k p inv_lock [OF inv] inv_lock [OF inv, of t] inv_facts [OF inv]
    by (intro inv_stopped [OF inv, of t _ c]) (simp_all add: local_step_def)
qed

lemma inv_park_dec:
  assumes inv: "gc_inv s" and p: "g_pc s t = ParkDec k"
  shows "gc_inv (goto t (ParkWait k) (handshake_dec s))" (is "gc_inv ?s'")
proof -
  have k: "at_park s t k" using inv_pc [OF inv, of t] p by simp
  obtain c kd n where c: "g_pc s c = StopWait kd n" "c \<noteq> t" "coll_ok s c (StopWait kd n)"
    using park_collector [OF inv, of t] p by auto
  have "t \<in> owing s c" using k c(2) p by (simp add: owing_def at_park_def)
  moreover have o: "owing ?s' c = owing s c - {t}" "others ?s' c = others s c"
    using p by (auto simp: owing_def others_def)
  ultimately have "card (owing s c) = Suc (card (owing ?s' c))" using card_Suc_Diff1 [of "owing s c" t] by simp
  then show ?thesis
    using c k p o(2) inv_lock [OF inv] inv_lock [OF inv, of t] inv_facts [OF inv]
    by (intro inv_stopped [OF inv, of t _ c]) (simp_all add: local_step_def)
qed

lemma inv_park_resume:
  assumes inv: "gc_inv s" and p: "g_pc s t = ParkWait k" and "g_resumeEvent s"
  shows "gc_inv (goto t (ParkLeave k) (set_safe t False s))" (is "gc_inv ?s'")
proof -
  have k: "at_park s t k" using inv_pc [OF inv, of t] p by simp
  obtain c kd n where c: "g_pc s c = ResumeWait kd n" "c \<noteq> t" "coll_ok s c (ResumeWait kd n)"
    using leave_collector [OF inv, of t] p assms(3) by auto
  have "in_park ?s' = in_park s" using p by (auto simp: in_park_def)
  then show ?thesis
    using c k p inv_lock [OF inv] inv_lock [OF inv, of t] inv_facts [OF inv]
    by (intro inv_stopped [OF inv, of t _ c]) (simp_all add: local_step_def)
qed

lemma finite_in_park: "gc_inv s \<Longrightarrow> finite (in_park s)"
proof (rule finite_subset)
  assume inv: "gc_inv s"
  show "in_park s \<subseteq> set (g_threads s)"
  proof
    fix t
    assume "t \<in> in_park s"
    then show "t \<in> set (g_threads s)"
      using inv_pc [OF inv, of t] by (cases "g_pc s t") (auto simp: in_park_def at_park_def is_mutator_def)
  qed
qed simp

lemma inv_park_leave:
  assumes inv: "gc_inv s" and p: "g_pc s t = ParkLeave k" and q: "q = resume_pc k \<or> q = Running"
  shows "gc_inv (goto t q (handshake_dec s))" (is "gc_inv ?s'")
proof -
  have k: "at_park s t k" using inv_pc [OF inv, of t] p by simp
  then have ok: "pc_ok (handshake_dec s) t q" using q park_pc_ok [of "handshake_dec s" t k] by auto
  have pl: "plain q" "\<not> holds q" using q by (auto simp: resume_pc_def plain_def split: option.splits)
  obtain c kd n where c: "g_pc s c = ResumeWait kd n" "c \<noteq> t" "coll_ok s c (ResumeWait kd n)"
    using leave_collector [OF inv, of t] p by auto
  have "t \<in> in_park s" using p by (simp add: in_park_def)
  moreover have "in_park ?s' = in_park s - {t}" using pl by (auto simp: in_park_def plain_def)
  ultimately have "card (in_park s) = Suc (card (in_park ?s'))"
    using card_Suc_Diff1 [OF finite_in_park [OF inv], of t] by simp
  then show ?thesis
    using c ok pl p inv_lock [OF inv] inv_lock [OF inv, of t] inv_facts [OF inv]
    by (intro inv_stopped [OF inv, of t _ c]) (simp_all add: local_step_def plain_def)
qed

section \<open>Steps of the collector\<close>

lemma others_subset_parked:
  assumes inv: "gc_inv s" and "g_pc s c = Stopped k n"
  shows "in_park s = others s c" and "finite (in_park s)" and "card (in_park s) = n"
proof -
  have c: "coll_ok s c (Stopped k n)" using inv_coll_ok [OF inv, of c] assms(2) by simp
  show e: "in_park s = others s c"
  proof
    show "in_park s \<subseteq> others s c"
    proof
      fix t
      assume t: "t \<in> in_park s"
      then have "t \<noteq> c" using assms(2) by (auto simp: in_park_def)
      then show "t \<in> others s c"
        using t inv_pc [OF inv, of t] by (cases "g_pc s t") (auto simp: in_park_def at_park_def others_def)
    qed
    show "others s c \<subseteq> in_park s" using c by (auto simp: in_park_def)
  qed
  show "finite (in_park s)" by (simp add: e)
  show "card (in_park s) = n" using c by (simp add: e)
qed

lemma inv_stopped_event:
  assumes inv: "gc_inv s" and p: "g_pc s c = StopWait k n" and "g_handshakeEvent s"
  shows "gc_inv (goto c (Stopped k n) (s\<lparr>g_handshakeEvent := False\<rparr>))" (is "gc_inv ?s'")
proof -
  have ok: "coll_ok s c (StopWait k n)" using inv_coll_ok [OF inv, of c] p by simp
  then have "g_handshakeCount s = int (card (owing s c)) \<and> g_handshakeCount s = 0"
    using assms(3) by (simp del: of_nat_eq_0_iff card_eq_0_iff card_0_eq)
  then have "card (owing s c) = 0" by linarith
  moreover have "finite (owing s c)" by (rule finite_subset [of _ "set (g_threads s)"]) (auto simp: owing_def others_def is_mutator_def)
  ultimately have o: "owing s c = {}" by simp
  have np: "\<not> parking (g_pc s t)" for t
  proof
    assume t: "parking (g_pc s t)"
    then have "is_mutator s t" using inv_pc [OF inv, of t] by (cases "g_pc s t") (auto simp: at_park_def)
    moreover have "t \<noteq> c" "\<not> parked (g_pc s t)" using t p by (cases "g_pc s t"; auto)+
    ultimately show False using o by (auto simp: owing_def)
  qed
  have "others ?s' c = others s c" "\<forall>t\<in>others s c. parked (g_pc s t)"
    using o by (auto simp: others_def owing_def is_mutator_def)
  then show ?thesis
    using ok np p inv_lock [OF inv] inv_lock [OF inv, of c] inv_facts [OF inv]
    by (intro inv_stopped [OF inv, of c _ c])
      (auto simp: local_step_def counts_ok_def others_def)
qed

lemma inv_phase:
  assumes inv: "gc_inv s" and p: "g_pc s c = Stopped k n" and "next_phase (g_state s) st"
  shows "gc_inv (s\<lparr>g_state := st\<rparr>)"
proof -
  have ok: "coll_ok s c (Stopped k n)" using inv_coll_ok [OF inv, of c] p by simp
  show ?thesis
    using ok p assms(3) inv_lock [OF inv] inv_facts [OF inv]
    by (intro inv_stopped [OF inv, of c _ c])
      (auto simp: local_step_def counts_ok_def others_def is_mutator_def next_phase_def)
qed

lemma inv_begin_resume:
  assumes inv: "gc_inv s" and p: "g_pc s c = Stopped k n"
  shows "gc_inv (begin_resume c k n (s\<lparr>g_abort := a\<rparr>))" (is "gc_inv ?s'")
proof -
  have ok: "coll_ok s c (Stopped k n)" using inv_coll_ok [OF inv, of c] p by simp
  note P = others_subset_parked [OF inv p]
  show ?thesis
  proof (cases "n = 0")
    case True
    then have "in_park s = {}" using P by simp
    then have np: "\<not> parked (g_pc s t)" "\<not> leaving (g_pc s t)" for t by (auto simp: in_park_def)
    have "others s c = {}" using P \<open>in_park s = {}\<close> by simp
    then have oth: "others ?s' c = {}" using True by (simp add: begin_resume_def others_def is_mutator_def)
    show ?thesis
      using ok np oth p True inv_lock [OF inv] inv_lock [OF inv, of c] inv_facts [OF inv]
      by (intro inv_stopped [OF inv, of c _ c])
        (auto simp: local_step_def counts_ok_def begin_resume_def no_park_def)
  next
    case False
    have "in_park ?s' = in_park s" using p False by (auto simp: in_park_def begin_resume_def)
    then show ?thesis
      using ok p P False inv_lock [OF inv] inv_lock [OF inv, of c] inv_facts [OF inv]
      by (intro inv_stopped [OF inv, of c _ c])
        (auto simp: local_step_def counts_ok_def begin_resume_def)
  qed
qed

lemma inv_resumed:
  assumes inv: "gc_inv s" and p: "g_pc s c = ResumeWait k n" and "g_handshakeEvent s"
  shows "gc_inv (goto c (Finishing k) (s\<lparr>g_handshakeEvent := False\<rparr>))"
proof -
  have ok: "coll_ok s c (ResumeWait k n)" using inv_coll_ok [OF inv, of c] p by simp
  then have "g_handshakeCount s = int (card (in_park s)) \<and> g_handshakeCount s = 0"
    using assms(3) by (simp del: of_nat_eq_0_iff card_eq_0_iff card_0_eq)
  then have "card (in_park s) = 0" by linarith
  then have "in_park s = {}" using finite_in_park [OF inv] by simp
  then show ?thesis
    using ok p inv_lock [OF inv] inv_lock [OF inv, of c] inv_facts [OF inv]
    by (intro inv_stopped [OF inv, of c _ c])
      (auto simp: local_step_def counts_ok_def no_park_def in_park_def)
qed

text \<open>The end of a collection: nobody is the collector any more.\<close>

lemma inv_finish:
  assumes inv: "gc_inv s" and p: "g_pc s c = Finishing k"
    and q: "q = Running \<or> q = Locking AllocEnd (is_mutator s c)"
  shows "gc_inv (goto c q (s\<lparr>g_state := GcIdle, g_idleEvent := True\<rparr>))" (is "gc_inv ?s'")
proof -
  have ok: "coll_ok s c (Finishing k)" using inv_coll_ok [OF inv, of c] p by simp
  have l: "local_step c s ?s'" by (simp add: local_step_def)
  have u: "\<not> coll (g_pc s t)" if "t \<noteq> c" for t using inv that p by (auto simp: gc_inv_def)
  have nb: "\<not> at_body (g_pc s t)" for t
    using ok inv_pc [OF inv, of t] by (cases "g_pc s t") auto
  have "pc_ok ?s' t (g_pc ?s' t)" for t
    using pc_ok_local [OF l, of t] inv_pc [OF inv, of t] nb q
    by (cases "t = c") (auto simp: at_entry_def op_ok_def is_mutator_def)
  moreover have "no_park ?s'" using ok q by (auto simp: no_park_def)
  ultimately show ?thesis
    using ok q u p inv_lock [OF inv] inv_lock [OF inv, of c] inv_facts [OF inv]
    by (auto simp: gc_inv_def counts_ok_def quiet_def)
qed

section \<open>Stopping the world\<close>

lemma card_split:
  "finite A \<Longrightarrow> card A = card {t \<in> A. P t} + card {t \<in> A. \<not> P t}"
proof -
  assume f: "finite A"
  have "A = {t \<in> A. P t} \<union> {t \<in> A. \<not> P t}" by blast
  moreover have "card ({t \<in> A. P t} \<union> {t \<in> A. \<not> P t}) = card {t \<in> A. P t} + card {t \<in> A. \<not> P t}"
    using f by (intro card_Un_disjoint) auto
  ultimately show ?thesis by simp
qed

lemma mutator_count:
  assumes "counts_ok s"
  shows "length (g_threads s) - g_waitingCount s = card {t. is_mutator s t}"
proof -
  have "length (g_threads s) = card (set (g_threads s))" using assms by (simp add: counts_ok_def distinct_card)
  also have "\<dots> = card {t \<in> set (g_threads s). waitLevel s t \<noteq> 0} + card {t \<in> set (g_threads s). \<not> waitLevel s t \<noteq> 0}"
    by (rule card_split) simp
  finally show ?thesis using assms by (simp add: counts_ok_def is_mutator_def)
qed

lemma inv_stop:
  assumes inv: "gc_inv s" and l: "local_step t s s1" and co: "counts_ok s1" and p: "at_body (g_pc s t)"
    and same: "g_state s1 = g_state s" "g_lock s1 = g_lock s" "g_idleEvent s1 = g_idleEvent s"
      "g_handshakeEvent s1 = g_handshakeEvent s" and im: "im = is_mutator s1 t"
  shows "gc_inv (stopTheWorld_l t im kind s1)" (is "gc_inv ?s'")
proof -
  have idle: "g_state s = GcIdle" using inv_pc [OF inv, of t] p by (cases "g_pc s t") auto
  have nc: "\<not> coll (g_pc s c)" for c using inv_coll_ok [OF inv, of c] idle by (cases "g_pc s c") auto
  then have q: "quiet s" using inv by (auto simp: gc_inv_def)
  have "holds (g_pc s t)" using p by (cases "g_pc s t") auto
  then have lk: "g_lock s = Some t" using inv_lock [OF inv, of t] by simp
  have m: "finite {u. is_mutator s1 u}" by (rule finite_subset [of _ "set (g_threads s1)"]) (auto simp: is_mutator_def)
  define N where "N = card (others s1 t)"
  have "{u. is_mutator s1 u} = (if im then insert t (others s1 t) else others s1 t)" using im by (auto simp: others_def)
  moreover have "t \<notin> others s1 t" by (simp add: others_def)
  ultimately have n: "(if im then length (g_threads s1) - g_waitingCount s1 - 1 else length (g_threads s1) - g_waitingCount s1) = N"
    using mutator_count [OF co] by (cases im) (simp_all add: N_def)
  have e: "g_pc s1 u = g_pc s u" if "u \<noteq> t" for u using l that by (simp add: local_step_def)
  let ?u = "if N = 0 then Stopped kind 0 else StopWait kind N"
  have pc: "g_pc ?s' u = (if u = t then ?u else g_pc s u)" for u
    using e by (simp add: stopTheWorld_l_def n Let_def unlock_def goto_def)
  have f: "g_state ?s' = StopTheWorld" "g_lock ?s' = None" "g_idleEvent ?s' = False" "g_handshakeEvent ?s' = False"
    "g_threads ?s' = g_threads s1" "g_mt ?s' = g_mt s1" "g_waitingCount ?s' = g_waitingCount s1" "g_noCollectCount ?s' = g_noCollectCount s1"
    "0 < N \<Longrightarrow> \<not> g_resumeEvent ?s'" "0 < N \<Longrightarrow> g_handshakeCount ?s' = int N"
    using q same by (simp_all add: stopTheWorld_l_def n Let_def unlock_def goto_def quiet_def)
  have l': "local_step t s ?s'" using l pc by (auto simp: local_step_def f)
  have pk: "\<not> parking (g_pc ?s' u)" "\<not> parked (g_pc ?s' u)" "\<not> leaving (g_pc ?s' u)" for u
    using q by (auto simp: pc quiet_def no_park_def)
  have mu: "is_mutator ?s' u = is_mutator s1 u" for u by (simp add: is_mutator_def f)
  then have o: "others ?s' t = others s1 t" "owing ?s' t = others s1 t" using pk by (auto simp: others_def owing_def)
  have fo: "finite (others s1 t)" by (rule finite_subset [OF _ m]) (auto simp: others_def)
  have c: "coll_ok ?s' t ?u"
  proof (cases "N = 0")
    case True
    then have "others s1 t = {}" using fo by (simp add: N_def)
    then show ?thesis using True o pk f(1,4) by simp
  next
    case False
    then show ?thesis using o pk f(1,4,9,10) by (simp add: N_def [symmetric])
  qed
  have hb: "u = t" if "holds (g_pc s u)" for u using inv_lock [OF inv, of u] that lk by simp
  have "pc_ok ?s' u (g_pc ?s' u)" for u
  proof (cases "u = t")
    case False
    then have "\<not> at_body (g_pc s u)" using hb [of u] by (cases "g_pc s u") auto
    then show ?thesis using pc_ok_local [OF l' False inv_pc [OF inv]] by simp
  qed (simp add: pc)
  moreover have "holds (g_pc ?s' u) \<longleftrightarrow> g_lock ?s' = Some u" for u using hb by (auto simp: pc f)
  moreover have "counts_ok ?s'" using co by (simp add: counts_ok_def f)
  moreover have cu: "coll (g_pc ?s' u) \<longleftrightarrow> u = t" for u using nc by (simp add: pc)
  moreover have "coll_ok ?s' t (g_pc ?s' t)" using c by (simp only: pc refl if_True)
  moreover have "g_idleEvent ?s' = (g_state ?s' = GcIdle)" by (simp add: f)
  ultimately show ?thesis by (simp add: gc_inv_def)
qed

section \<open>Every step keeps the invariant\<close>

lemma busy_collector:
  assumes inv: "gc_inv s" and "is_mutator s t" and "plain (g_pc s t)"
    and "g_state s \<noteq> GcIdle" and "g_state s \<noteq> StopTheWorld"
  shows "g_state s = ResumeTheWorld"
proof -
  obtain c where c: "coll (g_pc s c)" "coll_ok s c (g_pc s c)" using inv_coll [OF inv] assms(4) by blast
  then have "t \<noteq> c" using assms(3) by (auto simp: plain_def)
  then have "t \<in> others s c" using assms(2) by (simp add: others_def)
  then show ?thesis using c assms(3,5) by (cases "g_pc s c") (auto simp: plain_def)
qed

lemma plain_simps [simp]:
  "plain Running" "plain (Locking op im)" "plain (Checking op im)" "plain (AwaitIdle op im)" "plain (Relocking op im)"
  "plain (Rechecking op im)" "plain (Body op im)" "plain (AtSafePoint k)" "plain (resume_pc k)"
  "\<not> holds (resume_pc k)"
  by (simp_all add: plain_def resume_pc_def split: option.split)

text \<open>A step that moves one thread and may take or release the lock.\<close>

lemma inv_move:
  assumes inv: "gc_inv s" and "plain (g_pc s t)" and "plain p" and "pc_ok s t p"
    and "lk = g_lock s \<and> holds p = holds (g_pc s t) \<or> lk = Some t \<and> g_lock s = None \<and> holds p
      \<or> lk = None \<and> g_lock s = Some t \<and> \<not> holds p"
  shows "gc_inv (goto t p (s\<lparr>g_lock := lk\<rparr>))" (is "gc_inv ?s'")
proof -
  have m: "is_mutator (s\<lparr>g_lock := lk\<rparr>) u = is_mutator s u" for u by (simp add: is_mutator_def)
  have o: "op_ok (s\<lparr>g_lock := lk\<rparr>) u op im = op_ok s u op im" for u op im
    by (simp add: op_ok_def split: gc_op.split)
  have k: "pc_ok (s\<lparr>g_lock := lk\<rparr>) u q = pc_ok s u q" for u q
    by (cases q) (simp_all add: at_entry_def at_wait_def at_park_def m o)
  have h: "holds (g_pc s u) \<longleftrightarrow> g_lock s = Some u" for u using inv by (simp add: gc_inv_def)
  have "holds (g_pc ?s' u) \<longleftrightarrow> g_lock ?s' = Some u" for u using assms(5) h by auto
  then show ?thesis
    using assms(2-4) k inv_facts [OF inv]
    by (intro inv_plain [OF inv, of t]) (simp_all add: local_step_def same_phase_def m counts_ok_def)
qed

text \<open>A step that also changes the levels of the thread and the counters.\<close>

lemma counts_set_wait:
  assumes "counts_ok s" and "t \<in> set (g_threads s)"
  shows "waitLevel s t = 0 \<Longrightarrow> n \<noteq> 0 \<Longrightarrow> counts_ok (set_wait t n (s\<lparr>g_waitingCount := g_waitingCount s + 1\<rparr>))"
    and "waitLevel s t \<noteq> 0 \<Longrightarrow> counts_ok (set_wait t 0 (s\<lparr>g_waitingCount := g_waitingCount s - 1\<rparr>))"
    and "waitLevel s t \<noteq> 0 \<Longrightarrow> n \<noteq> 0 \<Longrightarrow> counts_ok (set_wait t n s)"
proof -
  let ?A = "set (g_threads s)"
  let ?w = "\<lambda>m u. mt_waitLevel (((g_mt s)(t := (g_mt s t)\<lparr>mt_waitLevel := m\<rparr>)) u)"
  have n: "mt_noCollectLevel (((g_mt s)(t := (g_mt s t)\<lparr>mt_waitLevel := m\<rparr>)) u) = noCollectLevel s u" for m u by simp
  { assume "waitLevel s t = 0" "n \<noteq> 0"
    then have "card {u \<in> ?A. ?w n u \<noteq> 0} = Suc (card {u \<in> ?A. waitLevel s u \<noteq> 0})"
      using assms(2) by (intro card_flip_in) auto
    then show "counts_ok (set_wait t n (s\<lparr>g_waitingCount := g_waitingCount s + 1\<rparr>))"
      using assms(1) by (simp add: counts_ok_def set_wait_def n del: fun_upd_apply) }
  { assume "waitLevel s t \<noteq> 0"
    then have "card {u \<in> ?A. waitLevel s u \<noteq> 0} = Suc (card {u \<in> ?A. ?w 0 u \<noteq> 0})"
      using assms(2) by (intro card_flip_out [where t = t]) auto
    then show "counts_ok (set_wait t 0 (s\<lparr>g_waitingCount := g_waitingCount s - 1\<rparr>))"
      using assms(1) by (simp add: counts_ok_def set_wait_def n del: fun_upd_apply) }
  { assume "waitLevel s t \<noteq> 0" "n \<noteq> 0"
    then have "{u \<in> ?A. ?w n u \<noteq> 0} = {u \<in> ?A. waitLevel s u \<noteq> 0}" by auto
    then show "counts_ok (set_wait t n s)"
      using assms(1) by (simp add: counts_ok_def set_wait_def n del: fun_upd_apply) }
qed

lemma counts_set_noCollect:
  assumes "counts_ok s" and "t \<in> set (g_threads s)"
  shows "noCollectLevel s t = 0 \<Longrightarrow> n \<noteq> 0 \<Longrightarrow> counts_ok (set_noCollect t n (s\<lparr>g_noCollectCount := g_noCollectCount s + 1\<rparr>))"
    and "noCollectLevel s t \<noteq> 0 \<Longrightarrow> counts_ok (set_noCollect t 0 (s\<lparr>g_noCollectCount := g_noCollectCount s - 1\<rparr>))"
    and "noCollectLevel s t \<noteq> 0 \<Longrightarrow> n \<noteq> 0 \<Longrightarrow> counts_ok (set_noCollect t n s)"
proof -
  let ?A = "set (g_threads s)"
  let ?w = "\<lambda>m u. mt_noCollectLevel (((g_mt s)(t := (g_mt s t)\<lparr>mt_noCollectLevel := m\<rparr>)) u)"
  have n: "mt_waitLevel (((g_mt s)(t := (g_mt s t)\<lparr>mt_noCollectLevel := m\<rparr>)) u) = waitLevel s u" for m u by simp
  { assume "noCollectLevel s t = 0" "n \<noteq> 0"
    then have "card {u \<in> ?A. ?w n u \<noteq> 0} = Suc (card {u \<in> ?A. noCollectLevel s u \<noteq> 0})"
      using assms(2) by (intro card_flip_in) auto
    then show "counts_ok (set_noCollect t n (s\<lparr>g_noCollectCount := g_noCollectCount s + 1\<rparr>))"
      using assms(1) by (simp add: counts_ok_def set_noCollect_def n del: fun_upd_apply) }
  { assume "noCollectLevel s t \<noteq> 0"
    then have "card {u \<in> ?A. noCollectLevel s u \<noteq> 0} = Suc (card {u \<in> ?A. ?w 0 u \<noteq> 0})"
      using assms(2) by (intro card_flip_out [where t = t]) auto
    then show "counts_ok (set_noCollect t 0 (s\<lparr>g_noCollectCount := g_noCollectCount s - 1\<rparr>))"
      using assms(1) by (simp add: counts_ok_def set_noCollect_def n del: fun_upd_apply) }
  { assume "noCollectLevel s t \<noteq> 0" "n \<noteq> 0"
    then have "{u \<in> ?A. ?w n u \<noteq> 0} = {u \<in> ?A. noCollectLevel s u \<noteq> 0}" by auto
    then show "counts_ok (set_noCollect t n s)"
      using assms(1) by (simp add: counts_ok_def set_noCollect_def n del: fun_upd_apply) }
qed

lemma counts_register:
  assumes "counts_ok s" and "t \<notin> set (g_threads s)"
  shows "counts_ok (registerMutatorThread t s)"
proof -
  let ?mt = "(g_mt s)(t := \<lparr>mt_isSafePoint = False, mt_waitLevel = 0, mt_noCollectLevel = 0\<rparr>)"
  have "{u \<in> set (g_threads s @ [t]). mt_waitLevel (?mt u) \<noteq> 0} = {u \<in> set (g_threads s). waitLevel s u \<noteq> 0}"
    "{u \<in> set (g_threads s @ [t]). mt_noCollectLevel (?mt u) \<noteq> 0} = {u \<in> set (g_threads s). noCollectLevel s u \<noteq> 0}"
    using assms(2) by auto
  then show ?thesis
    using assms by (simp add: counts_ok_def registerMutatorThread_def unlock_def del: fun_upd_apply set_append)
qed

lemma card_remove:
  assumes "finite A" and "t \<in> A"
  shows "card {u \<in> A - {t}. P u} = (if P t then card {u \<in> A. P u} - 1 else card {u \<in> A. P u})"
proof -
  have "{u \<in> A - {t}. P u} = {u \<in> A. P u} - {t}" by auto
  then show ?thesis using assms by (simp add: card_Diff_singleton_if)
qed

lemma counts_unregister:
  assumes "counts_ok s" and "t \<in> set (g_threads s)"
  shows "counts_ok (unregisterMutatorThread t s)"
  using assms by (auto simp: counts_ok_def unregisterMutatorThread_def unlock_def distinct_removeAll card_remove
      simp del: Diff_iff)

text \<open>The updates under the lock, on the fields they leave alone.\<close>

lemma level_fields [simp]:
  "g_pc (set_wait t n s) = g_pc s" "g_pc (set_noCollect t n s) = g_pc s" "g_pc (unlock s) = g_pc s"
  "g_threads (set_wait t n s) = g_threads s" "g_threads (set_noCollect t n s) = g_threads s" "g_threads (unlock s) = g_threads s"
  "g_lock (set_wait t n s) = g_lock s" "g_lock (set_noCollect t n s) = g_lock s" "g_lock (unlock s) = None"
  "g_state (set_wait t n s) = g_state s" "g_state (set_noCollect t n s) = g_state s" "g_state (unlock s) = g_state s"
  "g_idleEvent (set_wait t n s) = g_idleEvent s" "g_idleEvent (set_noCollect t n s) = g_idleEvent s" "g_idleEvent (unlock s) = g_idleEvent s"
  "same_phase s (set_wait t n s') = same_phase s s'" "same_phase s (set_noCollect t n s') = same_phase s s'"
  "same_phase s (unlock s') = same_phase s s'" "same_phase s (goto t p s') = same_phase s s'"
  "g_mt (set_wait t n s) = (g_mt s)(t := (g_mt s t)\<lparr>mt_waitLevel := n\<rparr>)"
  "g_mt (set_noCollect t n s) = (g_mt s)(t := (g_mt s t)\<lparr>mt_noCollectLevel := n\<rparr>)" "g_mt (unlock s) = g_mt s"
  by (simp_all add: set_wait_def set_noCollect_def unlock_def same_phase_def)

lemma same_phase_update [simp]:
  "same_phase s s" "same_phase s (s\<lparr>g_waitingCount := n\<rparr>)" "same_phase s (s\<lparr>g_noCollectCount := n\<rparr>)"
  by (simp_all add: same_phase_def)

lemma counts_unlock [simp]: "counts_ok (unlock s) = counts_ok s"
  by (simp add: counts_ok_def unlock_def)

definition done_by :: "tid \<Rightarrow> gc \<Rightarrow> gc \<Rightarrow> bool" where
  "done_by t s s1 \<longleftrightarrow> counts_ok s1 \<and> same_phase s s1 \<and> g_idleEvent s1 = g_idleEvent s \<and> g_pc s1 = g_pc s \<and>
     (\<forall>u. u \<noteq> t \<longrightarrow> g_mt s1 u = g_mt s u \<and> (u \<in> set (g_threads s1) \<longleftrightarrow> u \<in> set (g_threads s)))"

lemma inv_done:
  assumes inv: "gc_inv s" and p: "g_pc s t = Body op im" and d: "done_by t s s1"
  shows "gc_inv (goto t Running (unlock s1))"
proof -
  have "g_lock s = Some t" using inv_lock [OF inv, of t] p by simp
  then have "holds (g_pc s u) \<longleftrightarrow> u = t" for u using inv_lock [OF inv, of u] by auto
  then show ?thesis
    using d p inv_pc [OF inv, of t]
    by (intro inv_plain [OF inv, of t]) (simp_all add: done_by_def local_step_def)
qed

lemma done_fields:
  assumes inv: "gc_inv s" and p: "g_pc s t = Body op im"
  shows "done_by t s s"
    and "op = EnterWait \<Longrightarrow> done_by t s (set_wait t 1 (s\<lparr>g_waitingCount := g_waitingCount s + 1\<rparr>))"
    and "op = LeaveWait \<Longrightarrow> done_by t s (set_wait t 0 (s\<lparr>g_waitingCount := g_waitingCount s - 1\<rparr>))"
    and "op = EnterNoCollect \<Longrightarrow> done_by t s (set_noCollect t 1 (s\<lparr>g_noCollectCount := g_noCollectCount s + 1\<rparr>))"
    and "op = LeaveNoCollect now \<Longrightarrow> done_by t s (set_noCollect t 0 (s\<lparr>g_noCollectCount := g_noCollectCount s - 1\<rparr>))"
    and "op = Register \<Longrightarrow> done_by t s (registerMutatorThread t s)"
    and "op = Unregister \<Longrightarrow> done_by t s (unregisterMutatorThread t s)"
proof -
  have e: "at_entry s t op im" using inv_pc [OF inv, of t] p by simp
  have co: "counts_ok s" by (rule inv_facts [OF inv])
  note defs = done_by_def at_entry_def op_ok_def is_mutator_def
  show "done_by t s s" using co by (simp add: defs)
  show "op = EnterWait \<Longrightarrow> done_by t s (set_wait t 1 (s\<lparr>g_waitingCount := g_waitingCount s + 1\<rparr>))"
    using e counts_set_wait(1) [OF co, of t 1] by (auto simp: defs)
  show "op = LeaveWait \<Longrightarrow> done_by t s (set_wait t 0 (s\<lparr>g_waitingCount := g_waitingCount s - 1\<rparr>))"
    using e counts_set_wait(2) [OF co, of t] by (auto simp: defs)
  show "op = EnterNoCollect \<Longrightarrow> done_by t s (set_noCollect t 1 (s\<lparr>g_noCollectCount := g_noCollectCount s + 1\<rparr>))"
    using e counts_set_noCollect(1) [OF co, of t 1] by (auto simp: defs)
  show "op = LeaveNoCollect now \<Longrightarrow> done_by t s (set_noCollect t 0 (s\<lparr>g_noCollectCount := g_noCollectCount s - 1\<rparr>))"
    using e counts_set_noCollect(2) [OF co, of t] by (auto simp: defs)
  show "op = Register \<Longrightarrow> done_by t s (registerMutatorThread t s)"
    using e counts_register [OF co, of t] by (auto simp: defs same_phase_def registerMutatorThread_def unlock_def)
  show "op = Unregister \<Longrightarrow> done_by t s (unregisterMutatorThread t s)"
    using e counts_unregister [OF co, of t] by (auto simp: defs same_phase_def unregisterMutatorThread_def unlock_def)
qed

lemma unlock_unlock [simp]: "unlock (unlock s) = unlock s"
  by (simp add: unlock_def)

lemma inv_body:
  assumes inv: "gc_inv s" and p: "g_pc s t = Body op im"
  shows "gc_inv (gc_body t op im trig s)"
proof -
  note d = done_fields [OF inv p]
  note fin = inv_done [OF inv p]
  have e: "at_entry s t op im" using inv_pc [OF inv, of t] p by simp
  have stop: "gc_inv (stopTheWorld_l t im kind s)" for kind
    using inv p e by (intro inv_stop [OF inv, of t]) (simp_all add: local_step_def inv_facts at_entry_def)
  let ?n = "set_noCollect t 0 (s\<lparr>g_noCollectCount := g_noCollectCount s - 1\<rparr>)"
  have stop2: "gc_inv (stopTheWorld_l t im CollectOnly ?n)" if "op = LeaveNoCollect now" for now
    using d(5) [OF that] p e
    by (intro inv_stop [OF inv, of t]) (simp_all add: local_step_def done_by_def at_entry_def is_mutator_def set_noCollect_def)
  have r: "registerMutatorThread t s = unlock (registerMutatorThread t s)"
    "unregisterMutatorThread t s = unlock (unregisterMutatorThread t s)"
    by (simp_all add: registerMutatorThread_def unregisterMutatorThread_def)
  show ?thesis
    using fin [OF d(1)] fin [OF d(2)] fin [OF d(3)] fin [OF d(4)] fin [OF d(5)] fin [OF d(6)] fin [OF d(7)] stop stop2
    by (cases op)
      (simp_all add: gc_body_def enterWaitRegion_def leaveWaitRegion_def enterNoCollectRegion_def leaveNoCollectRegion_def
        r [symmetric] Let_def)
qed

end
