(* ===== verification/GcHandshakeThms.thy ===== *)
theory GcHandshakeThms
  imports GcHandshakeInv
begin

text \<open>
  The handshake of \<^verbatim>\<open>GcHeap\<close> is correct: the invariant is kept by every step, so it holds in every
  reachable state; from it follow that a stopped world is stopped, that the counters count and that
  no handshake is lost.
\<close>

section \<open>Steps of mutators\<close>

lemma inv_goto:
  assumes inv: "gc_inv s" and "plain (g_pc s t)" and "plain p" and "pc_ok s t p" and "holds p = holds (g_pc s t)"
  shows "gc_inv (goto t p s)"
  using inv_move [OF inv assms(2-4), of "g_lock s"] assms(5) by simp

lemma inv_take:
  assumes inv: "gc_inv s" and "plain (g_pc s t)" and "plain p" and "pc_ok s t p" and "holds p" and "g_lock s = None"
  shows "gc_inv (goto t p (s\<lparr>g_lock := Some t\<rparr>))"
  using inv_move [OF inv assms(2-4), of "Some t"] assms(5,6) by simp

lemma inv_release:
  assumes inv: "gc_inv s" and "plain (g_pc s t)" and "plain p" and "pc_ok s t p" and "\<not> holds p" and "holds (g_pc s t)"
  shows "gc_inv (goto t p (unlock s))"
  using inv_move [OF inv assms(2-4), of None] assms(5,6) inv_lock [OF inv, of t] by (simp add: unlock_def)

lemma inv_region:
  assumes inv: "gc_inv s" and p: "g_pc s t = Running" and n: "nested s t s'"
  shows "gc_inv s'"
proof -
  have co: "counts_ok s" by (rule inv_facts [OF inv])
  have t: "t \<in> set (g_threads s)" using n by (simp add: nested_def)
  have "g_pc s' = g_pc s" "same_phase s s'" "g_idleEvent s' = g_idleEvent s" "g_lock s' = g_lock s"
    "local_step t s s'" "counts_ok s'" "is_mutator s' t = is_mutator s t"
    using n counts_set_wait(3) [OF co t] counts_set_noCollect(3) [OF co t]
    by (auto simp: nested_def same_phase_def is_mutator_def local_step_def set_wait_def set_noCollect_def)
  then show ?thesis
    using p inv_lock [OF inv] by (intro inv_plain [OF inv, of t]) simp_all
qed

lemma inv_check_phase:
  assumes inv: "gc_inv s" and p: "g_pc s t = Checking op True" and st: "g_state s \<noteq> StopTheWorld" "g_state s \<noteq> GcIdle"
  shows "gc_inv (goto t (AwaitIdle op True) (unlock (set_wait t 1 (s\<lparr>g_waitingCount := g_waitingCount s + 1\<rparr>))))"
    (is "gc_inv ?s'")
proof -
  have e: "at_entry s t op True" using inv_pc [OF inv, of t] p by simp
  then have m: "t \<in> set (g_threads s)" "waitLevel s t = 0" by (auto simp: at_entry_def is_mutator_def)
  have r: "g_state s = ResumeTheWorld"
    using busy_collector [OF inv, of t] p st m by (simp add: is_mutator_def)
  have lk: "g_lock s = Some t" using inv_lock [OF inv, of t] p by simp
  have h: "holds (g_pc s u) \<longleftrightarrow> u = t" for u using inv_lock [OF inv, of u] lk by auto
  have "at_wait ?s' t op True"
    using e m by (auto simp: at_wait_def at_entry_def op_ok_def is_mutator_def set_wait_def unlock_def split: gc_op.splits)
  then show ?thesis
    using p r h counts_set_wait(1) [OF inv_facts(1) [OF inv] m, of 1]
    by (intro inv_plain [OF inv, of t]) (simp_all add: local_step_def)
qed

lemma inv_recheck_idle_mutator:
  assumes inv: "gc_inv s" and p: "g_pc s t = Rechecking op True" and st: "g_state s = GcIdle"
  shows "gc_inv (goto t (Body op True) (set_wait t 0 (s\<lparr>g_waitingCount := g_waitingCount s - 1\<rparr>)))" (is "gc_inv ?s'")
proof -
  have e: "at_wait s t op True" using inv_pc [OF inv, of t] p by simp
  then have m: "t \<in> set (g_threads s)" "waitLevel s t \<noteq> 0" by (auto simp: at_wait_def)
  have "at_entry ?s' t op True"
    using e m by (auto simp: at_wait_def at_entry_def op_ok_def is_mutator_def set_wait_def split: gc_op.splits)
  then show ?thesis
    using p st inv_lock [OF inv] inv_lock [OF inv, of t] counts_set_wait(2) [OF inv_facts(1) [OF inv] m]
    by (intro inv_plain [OF inv, of t]) (simp_all add: local_step_def)
qed

section \<open>All steps\<close>

lemma gc_step_inv: "gc_step s s' \<Longrightarrow> gc_inv s \<Longrightarrow> gc_inv s'"
proof (induction rule: gc_step.induct)
  case (call s t op)
  then have "at_entry s t op (is_mutator s t)"
    by (cases op) (simp_all add: at_entry_def may_call_def op_ok_def is_mutator_def)
  then show ?case using call by (intro inv_goto) simp_all
next
  case (region s t s')
  show ?case by (rule inv_region [OF region(3,1,2)])
next
  case (safe_point s t)
  then show ?case by (intro inv_goto) (simp_all add: at_park_def)
next
  case (lock s t op im)
  then show ?case using inv_pc [of s t] by (intro inv_take) simp_all
next
  case (check_idle s t op im)
  then show ?case using inv_pc [of s t] by (intro inv_goto) simp_all
next
  case (check_other s t op)
  then show ?case using inv_pc [of s t] by (intro inv_release) (auto simp: at_entry_def at_wait_def)
next
  case (check_stop s t op)
  then show ?case using inv_pc [of s t] by (intro inv_release) (auto simp: at_entry_def at_park_def)
next
  case (check_phase s t op)
  then show ?case by (intro inv_check_phase)
next
  case (await_idle s t op im)
  then show ?case using inv_pc [of s t] by (intro inv_goto) simp_all
next
  case (relock s t op im)
  then show ?case using inv_pc [of s t] by (intro inv_take) simp_all
next
  case (recheck_other s t op im)
  then show ?case using inv_pc [of s t] by (intro inv_release) simp_all
next
  case (recheck_idle s t op)
  then show ?case using inv_pc [of s t] by (intro inv_goto) (auto simp: at_entry_def at_wait_def)
next
  case (recheck_idle_mutator s t op)
  then show ?case by (intro inv_recheck_idle_mutator)
next
  case (body s t op im trig)
  then show ?case by (intro inv_body)
next
  case (safe_point_pass s t k)
  then show ?case using inv_pc [of s t] park_pc_ok [of s t k] by (intro inv_goto) simp_all
next
  case (safe_point_stop s t k)
  then show ?case by (intro inv_safe_point_stop)
next
  case (park_set s t k)
  then show ?case by (intro inv_park_set)
next
  case (park_dec s t k)
  then show ?case by (intro inv_park_dec)
next
  case (park_resume s t k)
  then show ?case by (intro inv_park_resume)
next
  case (park_leave s t k)
  then show ?case using inv_park_leave [of s t k] by simp
next
  case (park_throw s t k)
  then show ?case using inv_park_leave [of s t k] by simp
next
  case (stopped s t kind n)
  then show ?case by (intro inv_stopped_event)
next
  case (phase s t kind n st)
  then show ?case by (intro inv_phase)
next
  case (abort s t n)
  then show ?case by (intro inv_begin_resume)
next
  case (resume s t kind n)
  then show ?case using inv_begin_resume [of s t kind n "g_abort s"] by simp
next
  case (resumed s t kind n)
  then show ?case by (intro inv_resumed)
next
  case (finish s t kind)
  then show ?case by (intro inv_finish) simp_all
qed

lemma gc_init_inv: "gc_init s \<Longrightarrow> gc_inv s"
  by (simp add: gc_init_def gc_inv_def counts_ok_def quiet_def no_park_def)

interpretation gc: step_invariant gc_init gc_step gc_inv
  by unfold_locales (rule gc_init_inv gc_step_inv; assumption)+

section \<open>What holds in every reachable state\<close>

lemma parked_iff: "parked p \<longleftrightarrow> (\<exists>k. p = ParkWait k)"
  by (cases p) auto

lemma stopped_others:
  assumes inv: "gc_inv s" and "g_state s \<in> {GcMark, BuildDestructGraph, GcSweep}"
  shows "\<exists>c. ((\<exists>k n. g_pc s c = Stopped k n) \<or> (\<exists>k. g_pc s c = Finishing k)) \<and>
    (\<forall>t. t \<noteq> c \<longrightarrow> \<not> coll (g_pc s t)) \<and>
    (\<forall>t\<in>set (g_threads s). t \<noteq> c \<longrightarrow> waitLevel s t \<noteq> 0 \<or> (\<exists>k. g_pc s t = ParkWait k))"
proof -
  have "g_state s \<noteq> GcIdle \<or> parking (g_pc s t) \<or> parked (g_pc s t) \<or> leaving (g_pc s t)" for t using assms(2) by auto
  then obtain c where c: "coll (g_pc s c)" "coll_ok s c (g_pc s c)" by (rule inv_coll [OF inv])
  have w: "waitLevel s t \<noteq> 0 \<or> (\<exists>k. g_pc s t = ParkWait k)" if "t \<in> set (g_threads s)" "t \<noteq> c" for t
    unfolding parked_iff [symmetric] using c assms(2) that by (cases "g_pc s c") (auto simp: others_def is_mutator_def)
  have o: "\<not> coll (g_pc s t)" if "t \<noteq> c" for t using inv c(1) that unfolding gc_inv_def by blast
  have "(\<exists>k n. g_pc s c = Stopped k n) \<or> (\<exists>k. g_pc s c = Finishing k)"
    using c assms(2) by (cases "g_pc s c") auto
  then show ?thesis using o w by (intro exI [of _ c] conjI) simp_all
qed

text \<open>C1: While the collector marks, builds the destruction graph or sweeps, the world is stopped: exactly one
  thread is inside a collection, and it is the collector, past the handshake (\<open>Stopped\<close>, or \<open>Finishing\<close> when
  there was no thread to stop); every other registered mutator thread is either in a wait region or
  parked at a safe point, waiting for the world to resume.\<close>

theorem world_stopped:
  assumes "gc_init s0" and "gc_step\<^sup>*\<^sup>* s0 s" and "g_state s \<in> {GcMark, BuildDestructGraph, GcSweep}"
  shows "\<exists>c. ((\<exists>k n. g_pc s c = Stopped k n) \<or> (\<exists>k. g_pc s c = Finishing k)) \<and>
    (\<forall>t. t \<noteq> c \<longrightarrow> \<not> coll (g_pc s t)) \<and>
    (\<forall>t\<in>set (g_threads s). t \<noteq> c \<longrightarrow> waitLevel s t \<noteq> 0 \<or> (\<exists>k. g_pc s t = ParkWait k))"
  by (rule stopped_others [OF gc.reachable_inv [OF assms(1,2)] assms(3)])

text \<open>Two threads register, the first collects and the second parks: the heap is marked with one thread parked.\<close>

definition two_threads :: "(tid \<times> choice) list" where
  "two_threads = calls 0 Register @ calls 1 Register @ calls 0 Collect @ parks 1 @ [(0, Go False), (0, Phase GcMark)]"

definition marking :: gc where
  "marking = the (gc_run two_threads gc_start)"

lemma marking_facts:
  "gc_run two_threads gc_start \<noteq> None" "g_state marking = GcMark" "g_threads marking = [0, 1]"
  "g_pc marking 0 = Stopped CollectOnly 1" "g_pc marking 1 = ParkWait None" "waitLevel marking 1 = 0"
  by code_simp+

lemma marking_wait: "g_waitingCount marking = 0"
  by code_simp

lemma marking_reached: "gc_step\<^sup>*\<^sup>* gc_start marking"
  using marking_facts(1) by (intro gc_run_steps [of two_threads]) (auto simp: marking_def)

theorem world_stopped_witness:
  "g_state marking = GcMark \<and> g_threads marking = [0, 1] \<and> g_pc marking 0 = Stopped CollectOnly 1 \<and>
   (\<exists>c. ((\<exists>k n. g_pc marking c = Stopped k n) \<or> (\<exists>k. g_pc marking c = Finishing k)) \<and>
    (\<forall>t. t \<noteq> c \<longrightarrow> \<not> coll (g_pc marking t)) \<and>
    (\<forall>t\<in>set (g_threads marking). t \<noteq> c \<longrightarrow> waitLevel marking t \<noteq> 0 \<or> (\<exists>k. g_pc marking t = ParkWait k)))"
proof -
  have m: "g_state marking \<in> {GcMark, BuildDestructGraph, GcSweep}" by (simp add: marking_facts(2))
  show ?thesis using world_stopped [OF gc_start_init marking_reached m] marking_facts(2-4) by blast
qed

text \<open>C26: The handshake counts down exactly. While the collector waits for the world to stop, the handshake count
  is the number of running mutators that have not yet parked, and the event is signalled if and only if it
  is zero; while it waits for the world to resume, the count is the number of threads still at the safe point.
  So the count is never negative and the wake-up of the collector is never lost or early.\<close>

theorem handshake_exact:
  assumes "gc_init s0" and "gc_step\<^sup>*\<^sup>* s0 s"
  shows "(g_pc s c = StopWait kind n \<longrightarrow>
      g_handshakeCount s = int (card {t. is_mutator s t \<and> t \<noteq> c \<and> (\<forall>k. g_pc s t \<noteq> ParkWait k)}) \<and>
      (g_handshakeEvent s \<longleftrightarrow> g_handshakeCount s = 0)) \<and>
    (g_pc s c = ResumeWait kind n \<longrightarrow>
      g_handshakeCount s = int (card {t. \<exists>k. g_pc s t = ParkWait k \<or> g_pc s t = ParkLeave k}) \<and>
      (g_handshakeEvent s \<longleftrightarrow> g_handshakeCount s = 0))"
proof -
  have inv: "gc_inv s" by (rule gc.reachable_inv [OF assms])
  have l: "leaving p \<longleftrightarrow> (\<exists>k. p = ParkLeave k)" for p by (cases p) auto
  have o: "owing s c = {t. is_mutator s t \<and> t \<noteq> c \<and> (\<forall>k. g_pc s t \<noteq> ParkWait k)}"
    by (simp add: owing_def parked_iff)
  have i: "in_park s = {t. \<exists>k. g_pc s t = ParkWait k \<or> g_pc s t = ParkLeave k}" by (auto simp: in_park_def parked_iff l)
  show ?thesis using inv_coll_ok [OF inv, of c] by (auto simp: o [symmetric] i [symmetric])
qed

text \<open>The same run, just before the second thread parks.\<close>

definition stopping :: gc where
  "stopping = the (gc_run (calls 0 Register @ calls 1 Register @ calls 0 Collect) gc_start)"

lemma stopping_facts:
  "gc_run (calls 0 Register @ calls 1 Register @ calls 0 Collect) gc_start \<noteq> None"
  "g_pc stopping 0 = StopWait CollectOnly 1" "g_handshakeCount stopping = 1" "\<not> g_handshakeEvent stopping"
  by code_simp+

lemma stopping_reached: "gc_step\<^sup>*\<^sup>* gc_start stopping"
  using stopping_facts(1)
  by (intro gc_run_steps [of "calls 0 Register @ calls 1 Register @ calls 0 Collect"]) (auto simp: stopping_def)

theorem handshake_exact_witness:
  "g_pc stopping 0 = StopWait CollectOnly 1 \<and>
   card {t. is_mutator stopping t \<and> t \<noteq> 0 \<and> (\<forall>k. g_pc stopping t \<noteq> ParkWait k)} = 1"
  using handshake_exact [OF gc_start_init stopping_reached, of 0 CollectOnly 1] stopping_facts by simp

text \<open>The counters of the heap count: in every reachable state the waiting count is the number of registered
  threads in a wait region and the no-collect count the number of those in a no-collect region; two threads
  never hold the lock; and there are never two collectors at a time.\<close>

theorem counters_exact:
  assumes "gc_init s0" and "gc_step\<^sup>*\<^sup>* s0 s"
  shows "distinct (g_threads s) \<and>
    g_waitingCount s = card {t \<in> set (g_threads s). waitLevel s t \<noteq> 0} \<and>
    g_noCollectCount s = card {t \<in> set (g_threads s). noCollectLevel s t \<noteq> 0} \<and>
    g_waitingCount s \<le> length (g_threads s) \<and>
    (\<forall>t u. g_pc s t = Body op im \<longrightarrow> g_pc s u = Body op' im' \<longrightarrow> t = u) \<and>
    (\<forall>t u. g_pc s t = Stopped k n \<longrightarrow> g_pc s u = Stopped k' n' \<longrightarrow> t = u)"
proof -
  have inv: "gc_inv s" by (rule gc.reachable_inv [OF assms])
  have c: "distinct (g_threads s)" "g_waitingCount s = card {t \<in> set (g_threads s). waitLevel s t \<noteq> 0}"
    "g_noCollectCount s = card {t \<in> set (g_threads s). noCollectLevel s t \<noteq> 0}"
    using inv_facts(1) [OF inv] by (auto simp: counts_ok_def)
  have "g_waitingCount s \<le> card (set (g_threads s))" unfolding c(2) by (rule card_mono) auto
  moreover have "t = u" if "g_pc s t = Body op im" "g_pc s u = Body op' im'" for t u
    using inv_lock [OF inv, of t] inv_lock [OF inv, of u] that by simp
  moreover have "t = u" if "g_pc s t = Stopped k n" "g_pc s u = Stopped k' n'" for t u
    using inv that unfolding gc_inv_def by (metis coll.simps(2))
  ultimately show ?thesis using c distinct_card [OF c(1)] by auto
qed

theorem counters_exact_witness:
  "g_waitingCount marking = card {t \<in> set (g_threads marking). waitLevel marking t \<noteq> 0} \<and> g_waitingCount marking = 0"
  using counters_exact [OF gc_start_init marking_reached, of Alloc False Alloc False] marking_facts(3,6)
  by (simp add: marking_wait)

section \<open>An exception out of a no-collect region\<close>

text \<open>\<^verbatim>\<open>Runtime::uninitializeCallSite\<close> restores the two levels of the thread from the snapshot of the call
  site; it does not touch the counters of the heap.\<close>

definition restoreSnapshot :: "tid \<Rightarrow> nat \<Rightarrow> nat \<Rightarrow> gc \<Rightarrow> gc" where
  "restoreSnapshot t noCollectRegionLevel waitRegionLevel s =
     set_wait t waitRegionLevel (set_noCollect t noCollectRegionLevel s)"

text \<open>C27: An exception that leaves an outermost call site from inside a no-collect region disables garbage
  collection: after the snapshot is restored and the thread is unregistered, the no-collect count exceeds
  the number of threads in such a region by one, and a call of \<^verbatim>\<open>collect\<close> under the lock does nothing,
  even when no thread is in a no-collect region.\<close>

theorem unwind_disables_collection:
  assumes "gc_init s0" and "gc_step\<^sup>*\<^sup>* s0 s" and "t \<in> set (g_threads s)" and "noCollectLevel s t \<noteq> 0"
    and "s' = unregisterMutatorThread t (restoreSnapshot t 0 (waitLevel s t) s)"
  shows "g_noCollectCount s' = Suc (card {u \<in> set (g_threads s'). noCollectLevel s' u \<noteq> 0})
    \<and> gc_body u Collect im trig s' = goto u Running (unlock s')"
proof -
  have "counts_ok s" by (rule inv_facts [OF gc.reachable_inv [OF assms(1,2)]])
  then have d: "g_noCollectCount s = card {u \<in> set (g_threads s). noCollectLevel s u \<noteq> 0}" by (simp add: counts_ok_def)
  have t: "set (g_threads s') = set (g_threads s) - {t}"
    "g_noCollectCount s' = g_noCollectCount s" "u \<noteq> t \<Longrightarrow> g_mt s' u = g_mt s u" for u
    unfolding assms(5) by (simp_all add: unregisterMutatorThread_def restoreSnapshot_def unlock_def set_wait_def set_noCollect_def)
  have "{u \<in> set (g_threads s'). noCollectLevel s' u \<noteq> 0} = {u \<in> set (g_threads s). noCollectLevel s u \<noteq> 0} - {t}"
    using t by auto
  moreover have "t \<in> {u \<in> set (g_threads s). noCollectLevel s u \<noteq> 0}" using assms(3,4) by simp
  ultimately have "g_noCollectCount s' = Suc (card {u \<in> set (g_threads s'). noCollectLevel s' u \<noteq> 0})"
    using d t(2) card_Suc_Diff1 [of "{u \<in> set (g_threads s). noCollectLevel s u \<noteq> 0}" t] by simp
  then show ?thesis by (simp add: gc_body_def)
qed

text \<open>A thread registers and enters a no-collect region.\<close>

definition in_region :: gc where
  "in_region = the (gc_run (calls 0 Register @ calls 0 EnterNoCollect) gc_start)"

lemma in_region_facts:
  "gc_run (calls 0 Register @ calls 0 EnterNoCollect) gc_start \<noteq> None"
  "0 \<in> set (g_threads in_region)" "noCollectLevel in_region 0 = 1"
  "g_threads (unregisterMutatorThread 0 (restoreSnapshot 0 0 (waitLevel in_region 0) in_region)) = []"
  by code_simp+

lemma in_region_reached: "gc_step\<^sup>*\<^sup>* gc_start in_region"
  using in_region_facts(1)
  by (intro gc_run_steps [of "calls 0 Register @ calls 0 EnterNoCollect"]) (auto simp: in_region_def)

theorem unwind_disables_collection_witness:
  "g_noCollectCount (unregisterMutatorThread 0 (restoreSnapshot 0 0 (waitLevel in_region 0) in_region)) = 1"
proof -
  have "noCollectLevel in_region 0 \<noteq> 0" by (simp add: in_region_facts(3))
  from unwind_disables_collection [OF gc_start_init in_region_reached in_region_facts(2) this refl]
  show ?thesis by (simp only: in_region_facts(4)) simp
qed

end
