(* ===== verification/GcHandshakeLive.thy ===== *)
theory GcHandshakeLive
  imports GcHandshakeThms
begin

text \<open>
  No reachable state of the handshake is a dead end: a collection that has begun can always be
  completed. The running mutators reach a safe point and park, the collector wakes up, the parked threads
  leave, and the heap is idle again.
\<close>

section \<open>Releasing the lock\<close>

lemma free_lock:
  assumes inv: "gc_inv s" and c: "coll (g_pc s c)"
  obtains s1 where "gc_step\<^sup>*\<^sup>* s s1" and "g_lock s1 = None" and "g_state s1 = g_state s"
    and "\<And>t. \<not> holds (g_pc s t) \<Longrightarrow> g_pc s1 t = g_pc s t"
    and "g_state s = StopTheWorld \<Longrightarrow> owing s1 c = owing s c \<and> is_mutator s1 = is_mutator s"
proof (cases "g_lock s")
  case None
  then show ?thesis using that [of s] by simp
next
  case (Some u)
  have ni: "g_state s \<noteq> GcIdle" using inv_coll_ok [OF inv c] c by (cases "g_pc s c") auto
  have h: "holds (g_pc s u)" using inv_lock [OF inv, of u] Some by simp
  note found = that
  have step: thesis if "gc_step s (goto u p (unlock s1))" "g_state s1 = g_state s" "g_pc s1 = g_pc s"
    "g_state s = StopTheWorld \<Longrightarrow> is_mutator s1 = is_mutator s" "\<not> parked p" for p s1
  proof (rule found [of "goto u p (unlock s1)"])
    have m: "is_mutator (unlock s1) = is_mutator s1" by (simp add: fun_eq_iff is_mutator_def)
    show "gc_step\<^sup>*\<^sup>* s (goto u p (unlock s1))" using that(1) by blast
    show "\<And>t. \<not> holds (g_pc s t) \<Longrightarrow> g_pc (goto u p (unlock s1)) t = g_pc s t" using that(3) h by auto
    assume "g_state s = StopTheWorld"
    then show "owing (goto u p (unlock s1)) c = owing s c \<and> is_mutator (goto u p (unlock s1)) = is_mutator s"
      using that(3-5) h m by (cases "g_pc s u") (auto simp: owing_def fun_eq_iff)
  qed (use that(2) in simp_all)
  show ?thesis
  proof (cases "g_pc s u")
    case (Checking op im)
    show ?thesis
    proof (cases im)
      case False
      then show ?thesis using step [of "AwaitIdle op False" s] gc_step.check_other [of s u op] Checking ni by simp
    next
      case True
      show ?thesis
      proof (cases "g_state s = StopTheWorld")
        case True
        then show ?thesis using step [of "AtSafePoint (Some op)" s] gc_step.check_stop [of s u op] Checking \<open>im\<close> by simp
      next
        case False
        then show ?thesis
          using step [of "AwaitIdle op True" "set_wait u 1 (s\<lparr>g_waitingCount := g_waitingCount s + 1\<rparr>)"]
            gc_step.check_phase [of s u op] Checking \<open>im\<close> ni by simp
      qed
    qed
  next
    case (Rechecking op im)
    then show ?thesis using step [of "AwaitIdle op im" s] gc_step.recheck_other [of s u op im] ni by simp
  next
    case (Body op im)
    then show ?thesis using inv_pc [OF inv, of u] ni by simp
  qed (use h in simp_all)
qed

section \<open>Stopping\<close>

definition near :: "tid \<Rightarrow> tid \<Rightarrow> gc \<Rightarrow> gc \<Rightarrow> bool" where
  "near c t s s' \<longleftrightarrow> gc_step\<^sup>*\<^sup>* s s' \<and> g_pc s' c = g_pc s c \<and> g_state s' = g_state s \<and>
     owing s' c - {t} = owing s c - {t} \<and> is_mutator s' t = is_mutator s t"

lemma near_trans: "near c t s s1 \<Longrightarrow> near c t s1 s2 \<Longrightarrow> near c t s s2"
  unfolding near_def using rtranclp_trans [of gc_step s s1 s2] by argo

lemma near_steps: "near c t s s' \<Longrightarrow> gc_step\<^sup>*\<^sup>* s s'"
  by (simp add: near_def)

lemma near_step:
  assumes "gc_step s (goto t p s1)" and "t \<noteq> c" and "g_pc s1 = g_pc s" and "g_state s1 = g_state s"
    and "\<And>u. is_mutator s1 u = is_mutator s u"
  shows "near c t s (goto t p s1)"
  using assms by (auto simp: near_def owing_def)

lemma reach_park:
  assumes t: "t \<noteq> c" and st: "g_state s = StopTheWorld" and p: "g_pc s t = AtSafePoint k \<or> g_pc s t = ParkSet k \<or> g_pc s t = ParkDec k"
  shows "\<exists>s'. near c t s s' \<and> parked (g_pc s' t)"
proof -
  have d: "\<exists>s'. near c t s s' \<and> parked (g_pc s' t)" if "g_pc s t = ParkDec k" for s
    using near_step [OF gc_step.park_dec [OF that] t] by (intro exI [of _ "goto t (ParkWait k) (handshake_dec s)"]) simp
  have e: "\<exists>s'. near c t s s' \<and> parked (g_pc s' t)" if "g_pc s t = ParkSet k" for s
    using near_step [OF gc_step.park_set [OF that] t] d [of "goto t (ParkDec k) (set_safe t True s)"]
    by (auto intro: near_trans)
  have f: "\<exists>s'. near c t s s' \<and> parked (g_pc s' t)" if "g_pc s t = AtSafePoint k" "g_state s = StopTheWorld" for s
    using near_step [OF gc_step.safe_point_stop [OF that] t] e [of "goto t (ParkSet k) s"]
    by (auto intro: near_trans)
  show ?thesis using p st d e f by blast
qed

lemma mutator_parks:
  assumes inv: "gc_inv s" and p: "g_pc s c = StopWait kd n" and t: "t \<in> owing s c"
  shows "\<exists>s'. near c t s s' \<and> parked (g_pc s' t)"
proof -
  have ok: "g_state s = StopTheWorld" "\<And>u. \<not> leaving (g_pc s u)" using inv_coll_ok [OF inv, of c] p by simp_all
  have m: "is_mutator s t" "t \<noteq> c" "\<not> parked (g_pc s t)" using t by (auto simp: owing_def)
  have nc: "\<not> coll (g_pc s t)" using inv m(2) p unfolding gc_inv_def by (metis coll.simps(1))
  have at: "\<exists>s'. near c t s s' \<and> parked (g_pc s' t)"
    if "near c t s s1" "g_pc s1 t = AtSafePoint k" for s1 k
  proof -
    have "g_state s1 = StopTheWorld" using that(1) ok(1) by (simp add: near_def)
    then show ?thesis using reach_park [OF m(2), of s1 k] that near_trans [OF that(1)] by blast
  qed
  have chk: "\<exists>s'. near c t s s' \<and> parked (g_pc s' t)"
    if n: "near c t s s1" and q: "g_pc s1 t = Checking op True" for s1 op
  proof -
    have "near c t s1 (goto t (AtSafePoint (Some op)) (unlock s1))"
      using n q ok(1)
      by (intro near_step [OF gc_step.check_stop [of s1 t op]] m(2)) (simp_all add: near_def is_mutator_def)
    then show ?thesis using at [of "goto t (AtSafePoint (Some op)) (unlock s1)"] near_trans [OF n] by simp
  qed
  have r: "near c t s s" by (simp add: near_def)
  show ?thesis
  proof (cases "g_pc s t")
    case Running
    then show ?thesis using near_step [OF gc_step.safe_point [of s t] m(2)] m(1) at by simp
  next
    case (Locking op im)
    then have im: "im" using inv_pc [OF inv, of t] m(1) by (simp add: at_entry_def)
    have c: "coll (g_pc s c)" using p by simp
    obtain s1 where s1: "gc_step\<^sup>*\<^sup>* s s1" "g_lock s1 = None" "g_state s1 = g_state s"
      "\<And>t. \<not> holds (g_pc s t) \<Longrightarrow> g_pc s1 t = g_pc s t" "owing s1 c = owing s c" "is_mutator s1 = is_mutator s"
      using free_lock [OF inv c] ok(1) by metis
    then have n: "near c t s s1" using p by (simp add: near_def)
    have "near c t s1 (goto t (Checking op True) (s1\<lparr>g_lock := Some t\<rparr>))"
      using s1(2,4) Locking im by (intro near_step [OF gc_step.lock [of s1 t op True]] m(2)) (simp_all add: is_mutator_def)
    then show ?thesis using chk [of "goto t (Checking op True) (s1\<lparr>g_lock := Some t\<rparr>)"] near_trans [OF n] by simp
  next
    case (Checking op im)
    then show ?thesis using inv_pc [OF inv, of t] m(1) chk [OF r] by (simp add: at_entry_def)
  next
    case (AtSafePoint k)
    then show ?thesis using at [OF r] by simp
  next
    case (ParkSet k)
    then show ?thesis using reach_park [OF m(2) ok(1)] by blast
  next
    case (ParkDec k)
    then show ?thesis using reach_park [OF m(2) ok(1)] by blast
  next
    case (AwaitIdle op im)
    then show ?thesis using inv_pc [OF inv, of t] m(1) by (cases im) (simp_all add: at_wait_def is_mutator_def)
  next
    case (Relocking op im)
    then show ?thesis using inv_pc [OF inv, of t] m(1) by (cases im) (simp_all add: at_wait_def is_mutator_def)
  next
    case (Rechecking op im)
    then show ?thesis using inv_pc [OF inv, of t] m(1) by (cases im) (simp_all add: at_wait_def is_mutator_def)
  next
    case (Body op im)
    then show ?thesis using inv_pc [OF inv, of t] ok(1) by simp
  qed (use m nc ok(2) [of t] in simp_all)
qed

lemma world_stops:
  assumes "gc_inv s" and "g_pc s c = StopWait kd n"
  shows "\<exists>s'. gc_step\<^sup>*\<^sup>* s s' \<and> g_pc s' c = Stopped kd n"
  using assms
proof (induction "card (owing s c)" arbitrary: s rule: less_induct)
  case less
  have ok: "coll_ok s c (StopWait kd n)" using inv_coll_ok [OF less.prems(1), of c] less.prems(2) by simp
  show ?case
  proof (cases "owing s c = {}")
    case True
    then have "g_handshakeEvent s" using ok by simp
    then show ?thesis using gc_step.stopped [OF less.prems(2)] by (auto intro!: exI r_into_rtranclp)
  next
    case False
    then obtain t where t: "t \<in> owing s c" by blast
    then obtain s1 where s1: "near c t s s1" "parked (g_pc s1 t)" using mutator_parks [OF less.prems] by blast
    then have "owing s1 c = owing s c - {t}" by (auto simp: near_def owing_def)
    then have "card (owing s1 c) < card (owing s c)" using t by (simp only: card_Diff1_less finite_mutators)
    moreover have "gc_inv s1" using s1(1) gc.steps_inv [OF _ less.prems(1)] by (simp add: near_def)
    moreover have "g_pc s1 c = StopWait kd n" using s1(1) less.prems(2) by (simp add: near_def)
    ultimately obtain s' where "gc_step\<^sup>*\<^sup>* s1 s'" "g_pc s' c = Stopped kd n" using less.hyps by blast
    then show ?thesis using s1(1) by (auto simp: near_def intro: rtranclp_trans)
  qed
qed

section \<open>Resuming\<close>

lemma finishing_idle:
  assumes inv: "gc_inv s" and p: "g_pc s c = Finishing kd"
  shows "\<exists>s'. gc_step\<^sup>*\<^sup>* s s' \<and> g_state s' = GcIdle"
proof -
  have "coll (g_pc s c)" using p by simp
  then obtain s1 where s1: "gc_step\<^sup>*\<^sup>* s s1" "g_lock s1 = None" "g_pc s1 c = g_pc s c"
    using free_lock [OF inv] p by (metis holds.simps(16))
  then have "gc_step s1 (goto c (if kd = CollectForAlloc then Locking AllocEnd (is_mutator s1 c) else Running)
      (s1\<lparr>g_state := GcIdle, g_idleEvent := True\<rparr>))"
    using p by (intro gc_step.finish) simp_all
  then show ?thesis using s1(1) by (intro exI conjI) (erule (1) rtranclp.rtrancl_into_rtrancl, simp)
qed

text \<open>A thread in the code of a safe point leaves it once the world resumes.\<close>

lemma parked_leaves:
  assumes "g_pc s c = ResumeWait kd n" and "g_resumeEvent s" and t: "t \<in> in_park s"
  shows "\<exists>s'. gc_step\<^sup>*\<^sup>* s s' \<and> g_pc s' c = ResumeWait kd n \<and> in_park s' = in_park s - {t}"
proof -
  have tc: "t \<noteq> c" using t assms(1) by (auto simp: in_park_def)
  have q: "\<not> parked (resume_pc k)" "\<not> leaving (resume_pc k)" for k by (simp_all add: resume_pc_def split: option.split)
  have leave: "\<exists>s'. gc_step\<^sup>*\<^sup>* s s' \<and> g_pc s' c = ResumeWait kd n \<and> in_park s' = in_park s - {t}"
    if "g_pc s t = ParkLeave k" "g_pc s c = ResumeWait kd n" for s k
  proof (intro exI conjI)
    show "gc_step\<^sup>*\<^sup>* s (goto t (resume_pc k) (handshake_dec s))" using gc_step.park_leave [OF that(1)] by blast
    show "in_park (goto t (resume_pc k) (handshake_dec s)) = in_park s - {t}" using q by (auto simp: in_park_def)
  qed (use that tc in simp)
  show ?thesis
  proof (cases "g_pc s t")
    case (ParkWait k)
    let ?s1 = "goto t (ParkLeave k) (set_safe t False s)"
    have s1: "gc_step s ?s1" by (rule gc_step.park_resume [OF ParkWait assms(2)])
    have "in_park ?s1 = in_park s" using t by (auto simp: in_park_def)
    moreover obtain s' where "gc_step\<^sup>*\<^sup>* ?s1 s'" "g_pc s' c = ResumeWait kd n" "in_park s' = in_park ?s1 - {t}"
      using leave [of ?s1 k] assms(1) tc by auto
    ultimately show ?thesis using s1 by (metis converse_rtranclp_into_rtranclp)
  next
    case (ParkLeave k)
    then show ?thesis using leave assms(1) by blast
  qed (use t in \<open>simp_all add: in_park_def\<close>)
qed

lemma world_resumes:
  assumes "gc_inv s" and "g_pc s c = ResumeWait kd n"
  shows "\<exists>s'. gc_step\<^sup>*\<^sup>* s s' \<and> g_pc s' c = Finishing kd"
  using assms
proof (induction "card (in_park s)" arbitrary: s rule: less_induct)
  case less
  have ok: "coll_ok s c (ResumeWait kd n)" using inv_coll_ok [OF less.prems(1), of c] less.prems(2) by simp
  show ?case
  proof (cases "in_park s = {}")
    case True
    then have "g_handshakeEvent s" using ok by simp
    then show ?thesis using gc_step.resumed [OF less.prems(2)] by (auto intro!: exI r_into_rtranclp)
  next
    case False
    then obtain t where t: "t \<in> in_park s" by blast
    then obtain s1 where s1: "gc_step\<^sup>*\<^sup>* s s1" "g_pc s1 c = ResumeWait kd n" "in_park s1 = in_park s - {t}"
      using parked_leaves [OF less.prems(2) _ t] ok by (metis coll_ok.simps(3))
    have "card (in_park s1) < card (in_park s)"
      unfolding s1(3) using finite_in_park [OF less.prems(1)] t by (rule card_Diff1_less)
    then obtain s' where "gc_step\<^sup>*\<^sup>* s1 s'" "g_pc s' c = Finishing kd"
      using less.hyps [OF _ gc.steps_inv [OF s1(1) less.prems(1)] s1(2)] by blast
    then show ?thesis using s1(1) by (auto intro: rtranclp_trans)
  qed
qed

section \<open>The phases of a stopped world\<close>

lemma next_phases:
  assumes "g_pc s c = Stopped kd n" and "kd \<noteq> AbortAll" and "g_state s \<in> {StopTheWorld, GcMark, BuildDestructGraph, GcSweep}"
  shows "gc_step\<^sup>*\<^sup>* s (s\<lparr>g_state := GcSweep\<rparr>)"
proof -
  have ph: "gc_step u (u\<lparr>g_state := st\<rparr>)" if "g_pc u = g_pc s" "next_phase (g_state u) st" for u st
    using that assms by (intro gc_step.phase [of u c kd n]) simp_all
  have a: "gc_step\<^sup>*\<^sup>* (s\<lparr>g_state := GcMark\<rparr>) (s\<lparr>g_state := GcSweep\<rparr>)"
    using ph [of "s\<lparr>g_state := GcMark\<rparr>" GcSweep] by (auto simp: next_phase_def)
  consider "g_state s = StopTheWorld" | "g_state s = GcMark" | "g_state s = BuildDestructGraph" | "g_state s = GcSweep"
    using assms(3) by auto
  then show ?thesis
  proof cases
    case 1
    then have "gc_step s (s\<lparr>g_state := GcMark\<rparr>)" using ph [of s GcMark] by (simp add: next_phase_def)
    then show ?thesis using a by (rule converse_rtranclp_into_rtranclp)
  next
    case 2
    then show ?thesis using ph [of s GcSweep] by (auto simp: next_phase_def)
  next
    case 3
    then show ?thesis using ph [of s GcSweep] by (auto simp: next_phase_def)
  next
    case 4
    then have "s\<lparr>g_state := GcSweep\<rparr> = s" by (cases s) simp
    then show ?thesis by simp
  qed
qed

lemma begins_resume:
  assumes inv: "gc_inv s" and p: "g_pc s c = Stopped kd n"
  shows "\<exists>s' a. gc_step\<^sup>*\<^sup>* s (begin_resume c kd n (s'\<lparr>g_abort := a\<rparr>))"
proof (cases "kd = AbortAll")
  case True
  then show ?thesis using gc_step.abort [of s c n] p by blast
next
  case False
  let ?s = "s\<lparr>g_state := GcSweep\<rparr>"
  have "gc_step\<^sup>*\<^sup>* s ?s" using inv_coll_ok [OF inv, of c] p False by (intro next_phases [of s c kd n]) simp_all
  moreover have "gc_step ?s (begin_resume c kd n ?s)" using p False by (intro gc_step.resume [of ?s c kd n]) simp_all
  ultimately have "gc_step\<^sup>*\<^sup>* s (begin_resume c kd n (?s\<lparr>g_abort := g_abort s\<rparr>))" by simp
  then show ?thesis by blast
qed

text \<open>C25: No reachable state of the handshake is a dead end. Whatever the threads have done so far, from every
  reachable state, in the middle of a collection or of an abort, a continuation leads back to the idle
  state: the collector cannot be left waiting for a mutator that can no longer reach a safe point, nor
  a parked thread for an event that was already consumed.\<close>

theorem collection_completes:
  assumes "gc_init s0" and "gc_step\<^sup>*\<^sup>* s0 s"
  shows "\<exists>s'. gc_step\<^sup>*\<^sup>* s s' \<and> g_state s' = GcIdle"
proof (cases "g_state s = GcIdle")
  case False
  have inv: "gc_inv s" by (rule gc.reachable_inv [OF assms])
  have idle: "\<exists>s'. gc_step\<^sup>*\<^sup>* s s' \<and> g_state s' = GcIdle" if "gc_step\<^sup>*\<^sup>* s s1" "g_pc s1 c = Finishing kd" for s1 c kd
    using finishing_idle [OF gc.steps_inv [OF that(1) inv] that(2)] that(1) by (blast intro: rtranclp_trans)
  have res: "\<exists>s'. gc_step\<^sup>*\<^sup>* s s' \<and> g_state s' = GcIdle" if "gc_step\<^sup>*\<^sup>* s s1" "g_pc s1 c = ResumeWait kd n" for s1 c kd n
    using world_resumes [OF gc.steps_inv [OF that(1) inv] that(2)] that(1) idle by (blast intro: rtranclp_trans)
  have sto: "\<exists>s'. gc_step\<^sup>*\<^sup>* s s' \<and> g_state s' = GcIdle" if st: "gc_step\<^sup>*\<^sup>* s s1" "g_pc s1 c = Stopped kd n" for s1 c kd n
  proof -
    obtain s2 a where "gc_step\<^sup>*\<^sup>* s1 (begin_resume c kd n (s2\<lparr>g_abort := a\<rparr>))"
      using begins_resume [OF gc.steps_inv [OF st(1) inv] st(2)] by blast
    then have "gc_step\<^sup>*\<^sup>* s (begin_resume c kd n (s2\<lparr>g_abort := a\<rparr>))" using st(1) by (rule rtranclp_trans [rotated])
    then show ?thesis using idle [of _ c kd] res [of _ c kd n] by (cases "n = 0") (auto simp: begin_resume_def)
  qed
  have "g_state s \<noteq> GcIdle \<or> parking (g_pc s t) \<or> parked (g_pc s t) \<or> leaving (g_pc s t)" for t using False by simp
  then obtain c where "coll (g_pc s c)" by (rule inv_coll [OF inv])
  then show ?thesis
  proof (cases "g_pc s c")
    case (StopWait kd n)
    then show ?thesis using world_stops [OF inv] sto by blast
  next
    case (Stopped kd n)
    then show ?thesis using sto by blast
  next
    case (ResumeWait kd n)
    then show ?thesis using res by blast
  next
    case (Finishing kd)
    then show ?thesis using idle by blast
  qed simp_all
qed blast

theorem collection_completes_witness: "\<exists>s'. gc_step\<^sup>*\<^sup>* marking s' \<and> g_state s' = GcIdle"
  by (rule collection_completes [OF gc_start_init marking_reached])

end
