(* ===== verification/TarjanInv.thy ===== *)
theory TarjanInv
  imports Main
begin

text \<open>
  The invariant of Tarjan's algorithm, over an abstract state: the edges \<open>E\<close>, the edges \<open>X u\<close> of a node that have
  been followed, the indices and low links, the stack of nodes without a component, the nodes of the search
  path, the nodes \<open>D\<close> that have a component, and the nodes \<open>K\<close> from which the search was started.
\<close>

section \<open>The invariant\<close>

abbreviation ix :: "(nat \<Rightarrow> nat option) \<Rightarrow> nat \<Rightarrow> nat" where
  "ix I v \<equiv> the (I v)"

definition falling :: "(nat \<Rightarrow> nat option) \<Rightarrow> nat list \<Rightarrow> bool" where
  "falling I vs \<longleftrightarrow> sorted_wrt (\<lambda>a b. ix I b < ix I a) vs"

text \<open>The node of the search path below which \<open>u\<close> was discovered.\<close>

definition owner :: "(nat \<Rightarrow> nat option) \<Rightarrow> nat list \<Rightarrow> nat \<Rightarrow> nat \<Rightarrow> bool" where
  "owner I F u f \<longleftrightarrow> f \<in> set F \<and> ix I f \<le> ix I u \<and> (\<forall>f'\<in>set F. ix I f' \<le> ix I u \<longrightarrow> ix I f' \<le> ix I f)"

definition stack_inv :: "(nat \<Rightarrow> nat option) \<Rightarrow> nat list \<Rightarrow> nat list \<Rightarrow> nat set \<Rightarrow> nat \<Rightarrow> bool" where
  "stack_inv I S F D c \<longleftrightarrow>
     dom I = set S \<union> D \<and> set S \<inter> D = {} \<and> set F \<subseteq> set S \<and> falling I S \<and> falling I F \<and>
     (\<forall>v\<in>dom I. ix I v < c) \<and> inj_on (ix I) (dom I)"

definition edge_inv :: "(nat \<times> nat) set \<Rightarrow> (nat \<Rightarrow> nat set) \<Rightarrow> (nat \<Rightarrow> nat option) \<Rightarrow> nat list \<Rightarrow> nat list \<Rightarrow> nat set \<Rightarrow> bool" where
  "edge_inv E X I S F D \<longleftrightarrow>
     (\<forall>u\<in>set S. X u \<subseteq> E `` {u} \<inter> dom I) \<and> (\<forall>u\<in>set S - set F. X u = E `` {u}) \<and> E `` D \<subseteq> D"

definition reach_inv :: "(nat \<times> nat) set \<Rightarrow> nat set \<Rightarrow> (nat \<Rightarrow> nat option) \<Rightarrow> nat list \<Rightarrow> nat list \<Rightarrow> bool" where
  "reach_inv E K I S F \<longleftrightarrow>
     (\<forall>u\<in>set S. \<exists>f\<in>set F. ix I f \<le> ix I u \<and> (u, f) \<in> E\<^sup>*) \<and>
     (\<forall>u\<in>set S. \<forall>f\<in>set F. ix I f \<le> ix I u \<longrightarrow> (f, u) \<in> E\<^sup>*) \<and>
     (\<forall>v\<in>dom I. \<exists>k\<in>K. (k, v) \<in> E\<^sup>*)"

definition low_inv :: "(nat \<times> nat) set \<Rightarrow> (nat \<Rightarrow> nat set) \<Rightarrow> (nat \<Rightarrow> nat option) \<Rightarrow> (nat \<Rightarrow> nat option) \<Rightarrow> nat list \<Rightarrow> nat list \<Rightarrow> bool" where
  "low_inv E X I L S F \<longleftrightarrow>
     (\<forall>u\<in>set S. \<exists>w\<in>set S. L u = I w \<and> ix I w \<le> ix I u \<and> (u, w) \<in> E\<^sup>*) \<and>
     (\<forall>u\<in>set S. \<forall>w\<in>X u \<inter> set S. \<forall>f. owner I F u f \<longrightarrow> ix L f \<le> ix I w)"

definition tinv where
  "tinv E K X I L S F D c \<longleftrightarrow>
     stack_inv I S F D c \<and> edge_inv E X I S F D \<and> reach_inv E K I S F \<and> low_inv E X I L S F"

lemma tinv_init: "tinv E {} X (\<lambda>_. None) L [] [] {} 0"
  by (simp add: tinv_def stack_inv_def edge_inv_def reach_inv_def low_inv_def falling_def)

lemma falling_Cons: "falling I (v # vs) \<longleftrightarrow> (\<forall>u\<in>set vs. ix I u < ix I v) \<and> falling I vs"
  by (simp add: falling_def)

lemma falling_distinct: "falling I vs \<Longrightarrow> distinct vs"
  by (induction vs) (auto simp: falling_Cons)

lemma falling_cong: "(\<And>u. u \<in> set vs \<Longrightarrow> I u = J u) \<Longrightarrow> falling I vs \<longleftrightarrow> falling J vs"
  by (induction vs) (auto simp: falling_def)

lemma falling_upd: "falling I vs \<Longrightarrow> v \<notin> set vs \<Longrightarrow> falling (I(v := x)) vs"
  using falling_cong [of vs I "I(v := x)"] by fastforce

lemma owner_top: "falling I (p # F) \<Longrightarrow> owner I (p # F) p f \<longleftrightarrow> f = p"
  by (fastforce simp: owner_def falling_Cons)

text \<open>With the top of the path gone, its nodes belong to the next one.\<close>

lemma owner_next:
  assumes "falling I (p # q # F)" and "owner I (q # F) u f"
  shows "owner I (p # q # F) u f \<or> f = q \<and> owner I (p # q # F) u p"
proof (cases "ix I p \<le> ix I u")
  case True
  then have "ix I q \<le> ix I u" "\<forall>f'\<in>set F. ix I f' < ix I q" using assms(1) by (auto simp: falling_Cons)
  then have "f = q" using assms(2) by (fastforce simp: owner_def)
  moreover have "owner I (p # q # F) u p" using True assms(1) by (fastforce simp: owner_def falling_Cons)
  ultimately show ?thesis by blast
next
  case False
  then show ?thesis using assms(2) by (auto simp: owner_def)
qed

section \<open>Steps\<close>

lemma tinv_discover:
  assumes inv: "tinv E K X I L S F D c" and v: "I v = None"
    and X': "(F = [] \<and> X' = X(v := {})) \<or> (\<exists>p F'. F = p # F' \<and> (p, v) \<in> E \<and> X' = X(v := {}, p := insert v (X p)))"
  shows "tinv E (if F = [] then insert v K else K) X' (I(v := Some c)) (L(v := Some c)) (v # S) (v # F) D (c + 1)"
proof -
  let ?I = "I(v := Some c)"
  have st: "dom I = set S \<union> D" "set S \<inter> D = {}" "set F \<subseteq> set S" "falling I S" "falling I F" "\<forall>u\<in>dom I. ix I u < c"
    "inj_on (ix I) (dom I)"
    using inv unfolding tinv_def stack_inv_def by blast+
  have vn: "v \<notin> set S" "v \<notin> set F" "v \<notin> D" using v st(1,3) by (auto simp: domIff)
  have c: "ix I u < c" if "u \<in> set S" for u using st(1,6) that by blast
  have ne: "u \<noteq> v" if "u \<in> set S" for u using that vn by blast
  have fS: "falling ?I S" "falling ?I F"
    using st(4,5) vn falling_upd by blast+
  have s1: "stack_inv ?I (v # S) (v # F) D (c + 1)"
    using st vn c fS by (auto simp: stack_inv_def falling_Cons inj_on_def less_Suc_eq dest: ne)
  have E: "\<forall>u\<in>set S. X u \<subseteq> E `` {u} \<inter> dom I" "\<forall>u\<in>set S - set F. X u = E `` {u}" "E `` D \<subseteq> D"
    using inv by (simp_all add: tinv_def edge_inv_def)
  have s2: "edge_inv E X' ?I (v # S) (v # F) D"
    unfolding edge_inv_def
  proof (intro conjI ballI)
    fix u assume "u \<in> set (v # S)"
    then have "u = v \<or> u \<in> set S \<and> u \<noteq> v" using ne by auto
    then have "X u \<subseteq> E `` {u} \<inter> dom I \<or> u = v" using E(1) by blast
    then show "X' u \<subseteq> E `` {u} \<inter> dom ?I" using X' vn(2) by (elim disjE exE conjE) auto
  next
    fix u assume u: "u \<in> set (v # S) - set (v # F)"
    then have "X u = E `` {u}" using E(2) by simp
    moreover have "X' u = X u" using X' u by (elim disjE exE conjE) simp_all
    ultimately show "X' u = E `` {u}" by simp
  qed (use E(3) in blast)
  have R: "\<forall>u\<in>set S. \<exists>f\<in>set F. ix I f \<le> ix I u \<and> (u, f) \<in> E\<^sup>*"
    "\<forall>u\<in>set S. \<forall>f\<in>set F. ix I f \<le> ix I u \<longrightarrow> (f, u) \<in> E\<^sup>*" "\<forall>v\<in>dom I. \<exists>k\<in>K. (k, v) \<in> E\<^sup>*"
    using inv by (simp_all add: tinv_def reach_inv_def)
  have up: "(f, v) \<in> E\<^sup>*" if f: "f \<in> set F" for f
  proof -
    obtain p F' where p: "F = p # F'" "(p, v) \<in> E" using X' f by auto
    have "p \<in> set S" "ix I f \<le> ix I p" using p(1) st(3,5) f by (auto simp: falling_Cons)
    then have "(f, p) \<in> E\<^sup>*" using R(2) f by blast
    then show ?thesis using p(2) by simp
  qed
  have s3: "reach_inv E (if F = [] then insert v K else K) ?I (v # S) (v # F)"
    unfolding reach_inv_def
  proof (intro conjI)
    show "\<forall>u\<in>set (v # S). \<exists>f\<in>set (v # F). ix ?I f \<le> ix ?I u \<and> (u, f) \<in> E\<^sup>*"
    proof
      fix u assume "u \<in> set (v # S)"
      then consider "u = v" | "u \<in> set S" "u \<noteq> v" using ne by auto
      then show "\<exists>f\<in>set (v # F). ix ?I f \<le> ix ?I u \<and> (u, f) \<in> E\<^sup>*"
      proof cases
        case 2
        then obtain f where "f \<in> set F" "ix I f \<le> ix I u" "(u, f) \<in> E\<^sup>*" using R(1) by blast
        then show ?thesis using vn 2 by (intro bexI [of _ f]) auto
      qed auto
    qed
    show "\<forall>u\<in>set (v # S). \<forall>f\<in>set (v # F). ix ?I f \<le> ix ?I u \<longrightarrow> (f, u) \<in> E\<^sup>*"
      using R(2) up c vn by (auto simp: fun_upd_def dest!: leD)
    show "\<forall>u\<in>dom ?I. \<exists>k\<in>if F = [] then insert v K else K. (k, u) \<in> E\<^sup>*"
    proof
      fix u assume u: "u \<in> dom ?I"
      show "\<exists>k\<in>if F = [] then insert v K else K. (k, u) \<in> E\<^sup>*"
      proof (cases "u = v \<and> F \<noteq> []")
        case True
        then obtain p where p: "p \<in> set F" by (cases F) auto
        then obtain k where "k \<in> K" "(k, p) \<in> E\<^sup>*" using R(3) st(1,3) by blast
        then show ?thesis using up [OF p] True by (auto intro: rtrancl_trans)
      qed (use u R(3) in \<open>auto split: if_splits\<close>)
    qed
  qed
  have W: "\<forall>u\<in>set S. \<exists>w\<in>set S. L u = I w \<and> ix I w \<le> ix I u \<and> (u, w) \<in> E\<^sup>*"
    "\<forall>u\<in>set S. \<forall>w\<in>X u \<inter> set S. \<forall>f. owner I F u f \<longrightarrow> ix L f \<le> ix I w"
    using inv by (simp_all add: tinv_def low_inv_def)
  have own: "owner I F u f" if "owner ?I (v # F) u f" "u \<in> set S" for u f
    using that c [OF that(2)] vn ne [OF that(2)] by (auto simp: owner_def split: if_splits)
  have low: "ix L f \<le> ix I f" if "f \<in> set S" for f using W(1) that by fastforce
  have s4: "low_inv E X' ?I (L(v := Some c)) (v # S) (v # F)"
    unfolding low_inv_def
  proof (intro conjI ballI allI impI)
    fix u assume "u \<in> set (v # S)"
    then consider "u = v" | "u \<in> set S" "u \<noteq> v" using ne by auto
    then show "\<exists>w\<in>set (v # S). (L(v := Some c)) u = ?I w \<and> ix ?I w \<le> ix ?I u \<and> (u, w) \<in> E\<^sup>*"
    proof cases
      case 2
      then obtain w where "w \<in> set S" "L u = I w" "ix I w \<le> ix I u" "(u, w) \<in> E\<^sup>*" using W(1) by blast
      then show ?thesis using ne 2 by (intro bexI [of _ w]) auto
    qed auto
  next
    fix u w f
    assume u: "u \<in> set (v # S)" and w: "w \<in> X' u \<inter> set (v # S)" and f: "owner ?I (v # F) u f"
    have uv: "u \<noteq> v" using w X' vn by (auto split: if_splits)
    then have uS: "u \<in> set S" using u by simp
    have o: "owner I F u f" by (rule own [OF f uS])
    then have fS': "f \<in> set S" "f \<noteq> v" "f \<in> set F" "ix I f \<le> ix I u" using st(3) vn by (auto simp: owner_def)
    show "ix (L(v := Some c)) f \<le> ix ?I w"
    proof (cases "w = v")
      case True
      then show ?thesis using low [OF fS'(1)] c [OF fS'(1)] fS'(2) by simp
    next
      case False
      then have "w \<in> X u \<inter> set S" using w X' uv by (auto split: if_splits)
      then show ?thesis using W(2) uS o False fS'(2) by simp
    qed
  qed
  show ?thesis unfolding tinv_def using s1 s2 s3 s4 by blast
qed

text \<open>An edge to a node that has a component, and one to a node on the stack.\<close>

lemma tinv_edge_done:
  assumes inv: "tinv E K X I L S (p # F) D c" and w: "(p, w) \<in> E" "w \<in> D"
  shows "tinv E K (X(p := insert w (X p))) I L S (p # F) D c"
proof -
  have "w \<notin> set S" "w \<in> dom I" "p \<in> set S" using inv w by (auto simp: tinv_def stack_inv_def)
  then show ?thesis using inv w by (auto simp: tinv_def edge_inv_def low_inv_def)
qed

lemma on_stack: "tinv E K X I L S F D c \<Longrightarrow> u \<in> set S \<Longrightarrow> I u = Some (ix I u)"
  unfolding tinv_def stack_inv_def by (metis UnCI domD option.sel)

lemma low_upd:
  assumes inv: "tinv E K X I L S F D c" and p: "p \<in> set S" and w: "w \<in> set S" "(p, w) \<in> E\<^sup>*"
  shows "\<exists>w'\<in>set S. (L(p := Some (min (ix L p) (ix I w)))) p = I w' \<and> ix I w' \<le> ix I p \<and> (p, w') \<in> E\<^sup>*"
proof -
  obtain r where r: "r \<in> set S" "L p = I r" "ix I r \<le> ix I p" "(p, r) \<in> E\<^sup>*"
    using inv p unfolding tinv_def low_inv_def by blast
  have d: "I r = Some (ix I r)" "I w = Some (ix I w)" using on_stack [OF inv] r(1) w(1) by simp_all
  show ?thesis
  proof (cases "ix I w \<le> ix I r")
    case True
    then have "ix I w \<le> ix I p" using r(3) by simp
    then show ?thesis using True w d r by (intro bexI [of _ w]) (simp_all add: min_def)
  next
    case False
    then show ?thesis using w d r by (intro bexI [of _ r]) (simp_all add: min_def)
  qed
qed

text \<open>Lowering the low link of a node of the path to the index of a node it reaches.\<close>

lemma tinv_lower:
  assumes inv: "tinv E K X I L S F D c" and p: "p \<in> set S" and w: "w \<in> set S" "(p, w) \<in> E\<^sup>*"
  shows "tinv E K X I (L(p := Some (min (ix L p) (ix I w)))) S F D c"
proof -
  let ?L = "L(p := Some (min (ix L p) (ix I w)))"
  have le: "ix ?L f \<le> ix L f" for f by simp
  have W: "\<forall>u\<in>set S. \<exists>w\<in>set S. L u = I w \<and> ix I w \<le> ix I u \<and> (u, w) \<in> E\<^sup>*"
    "\<forall>u\<in>set S. \<forall>w\<in>X u \<inter> set S. \<forall>f. owner I F u f \<longrightarrow> ix L f \<le> ix I w"
    using inv by (simp_all add: tinv_def low_inv_def)
  have 1: "\<exists>w\<in>set S. ?L u = I w \<and> ix I w \<le> ix I u \<and> (u, w) \<in> E\<^sup>*" if "u \<in> set S" for u
    using low_upd [OF inv p w] W(1) that by (cases "u = p") simp_all
  have 2: "ix ?L f \<le> ix I x" if "u \<in> set S" "x \<in> X u \<inter> set S" "owner I F u f" for u x f
    using W(2) that le_trans [OF le] by blast
  have "low_inv E X I ?L S F" unfolding low_inv_def using 1 2 by blast
  then show ?thesis using inv by (simp add: tinv_def)
qed

lemma tinv_edge_stack:
  assumes inv: "tinv E K X I L S (p # F) D c" and w: "(p, w) \<in> E" "w \<in> set S"
  shows "tinv E K (X(p := insert w (X p))) I (L(p := Some (min (ix L p) (ix I w)))) S (p # F) D c"
proof -
  let ?L = "L(p := Some (min (ix L p) (ix I w)))"
  have st: "p \<in> set S" "falling I (p # F)" "w \<in> dom I" using inv w(2) unfolding tinv_def stack_inv_def by auto
  have inv': "tinv E K X I ?L S (p # F) D c" by (rule tinv_lower [OF inv st(1) w(2)]) (simp add: w(1) r_into_rtrancl)
  have e: "edge_inv E (X(p := insert w (X p))) I S (p # F) D"
    using inv' w st by (auto simp: tinv_def edge_inv_def)
  have "low_inv E X I ?L S (p # F)" using inv' by (simp add: tinv_def)
  then have "low_inv E (X(p := insert w (X p))) I ?L S (p # F)"
    using owner_top [OF st(2)] by (auto simp: low_inv_def)
  then show ?thesis using inv' e by (simp add: tinv_def)
qed

text \<open>A node whose edges have all been followed leaves the path; it has reached a lower node.\<close>

lemma below_top:
  assumes "tinv E K X I L S (p # F) D c" and "w \<in> set S" and "ix I w < ix I p"
  obtains f where "f \<in> set F" "ix I f \<le> ix I w" "(w, f) \<in> E\<^sup>*"
proof -
  have "\<exists>f\<in>set (p # F). ix I f \<le> ix I w \<and> (w, f) \<in> E\<^sup>*" using assms(1,2) unfolding tinv_def reach_inv_def by blast
  then show ?thesis using that assms(3) by auto
qed

lemma tinv_leave:
  assumes inv: "tinv E K X I L S (p # F) D c" and full: "X p = E `` {p}" and low: "L p \<noteq> I p"
  shows "\<exists>q F'. F = q # F' \<and> tinv E K X I (L(q := Some (min (ix L q) (ix L p)))) S F D c"
proof -
  have st: "falling I (p # F)" "set (p # F) \<subseteq> set S" "inj_on (ix I) (dom I)" "set S \<subseteq> dom I"
    using inv unfolding tinv_def stack_inv_def by blast+
  have W: "\<forall>u\<in>set S. \<exists>w\<in>set S. L u = I w \<and> ix I w \<le> ix I u \<and> (u, w) \<in> E\<^sup>*"
    "\<forall>u\<in>set S. \<forall>w\<in>X u \<inter> set S. \<forall>f. owner I (p # F) u f \<longrightarrow> ix L f \<le> ix I w"
    using inv by (simp_all add: tinv_def low_inv_def)
  have pS: "p \<in> set S" using st(2) by simp
  obtain w where w: "w \<in> set S" "L p = I w" "ix I w \<le> ix I p" "(p, w) \<in> E\<^sup>*" using W(1) pS by blast
  have "ix I w \<noteq> ix I p" using low w(2) on_stack [OF inv w(1)] on_stack [OF inv pS] by metis
  then have lt: "ix I w < ix I p" using w(3) by simp
  obtain f where f: "f \<in> set F" "ix I f \<le> ix I w" "(w, f) \<in> E\<^sup>*" using below_top [OF inv w(1) lt] by blast
  then obtain q F' where q: "F = q # F'" by (cases F) auto
  have qS: "q \<in> set S" "p \<noteq> q" using st(1,2) q by (auto simp: falling_Cons)
  have R: "\<forall>u\<in>set S. \<exists>f\<in>set (p # F). ix I f \<le> ix I u \<and> (u, f) \<in> E\<^sup>*"
    "\<forall>u\<in>set S. \<forall>f\<in>set (p # F). ix I f \<le> ix I u \<longrightarrow> (f, u) \<in> E\<^sup>*" "\<forall>v\<in>dom I. \<exists>k\<in>K. (k, v) \<in> E\<^sup>*"
    using inv unfolding tinv_def reach_inv_def by blast+
  have qp: "(q, p) \<in> E\<^sup>*" using R(2) pS st(1) q by (auto simp: falling_Cons)
  have r: "reach_inv E K I S F"
    unfolding reach_inv_def
  proof (intro conjI)
    show "\<forall>u\<in>set S. \<exists>f\<in>set F. ix I f \<le> ix I u \<and> (u, f) \<in> E\<^sup>*"
    proof
      fix u assume "u \<in> set S"
      then obtain h where h: "h \<in> set (p # F)" "ix I h \<le> ix I u" "(u, h) \<in> E\<^sup>*" using R(1) by blast
      show "\<exists>f\<in>set F. ix I f \<le> ix I u \<and> (u, f) \<in> E\<^sup>*"
      proof (cases "h = p")
        case True
        then have "(u, f) \<in> E\<^sup>*" using h(3) w(4) f(3) by (meson rtrancl_trans)
        then show ?thesis using f(1,2) lt h(2) True by (intro bexI [of _ f]) auto
      qed (use h in auto)
    qed
    show "\<forall>u\<in>set S. \<forall>f\<in>set F. ix I f \<le> ix I u \<longrightarrow> (f, u) \<in> E\<^sup>*" using R(2) by simp
    show "\<forall>v\<in>dom I. \<exists>k\<in>K. (k, v) \<in> E\<^sup>*" by (rule R(3))
  qed
  have e: "edge_inv E X I S F D" using inv full by (auto simp: tinv_def edge_inv_def)
  have s: "stack_inv I S F D c" using inv by (auto simp: tinv_def stack_inv_def falling_Cons)
  let ?L = "L(q := Some (min (ix L q) (ix I w)))"
  have lw: "\<forall>u\<in>set S. \<exists>w\<in>set S. ?L u = I w \<and> ix I w \<le> ix I u \<and> (u, w) \<in> E\<^sup>*"
    using low_upd [OF inv qS(1) w(1) rtrancl_trans [OF qp w(4)]] W(1) by (metis (no_types, lifting) fun_upd_other)
  have "ix ?L g \<le> ix I x" if "u \<in> set S" "x \<in> X u \<inter> set S" "owner I F u g" for u x g
  proof -
    have "owner I (p # F) u g \<or> g = q \<and> owner I (p # F) u p" using owner_next [of I p q F'] st(1) that(3) q by simp
    then have "ix L g \<le> ix I x \<or> g = q \<and> ix L p \<le> ix I x" using W(2) that(1,2) by blast
    then show ?thesis using w(2) by auto
  qed
  then have "low_inv E X I ?L S F" using lw unfolding low_inv_def by blast
  then show ?thesis using q r e s w(2) by (auto simp: tinv_def)
qed

text \<open>The root of a component: what is above it on the stack is the component.\<close>

lemma tinv_close:
  assumes inv: "tinv E K X I L S (p # F) D c" and full: "X p = E `` {p}" and low: "L p = I p"
    and S: "S = T @ S'" and T: "set T = {u \<in> set S. ix I p \<le> ix I u}"
  shows "tinv E K X I L S' F (D \<union> set T) c" and "E `` set T \<subseteq> set T \<union> D"
    and "\<forall>u\<in>set T. \<forall>v\<in>set T. (u, v) \<in> E\<^sup>*" and "F \<noteq> [] \<Longrightarrow> ix L (hd F) \<le> ix L p"
proof -
  have st: "falling I (p # F)" "set (p # F) \<subseteq> set S" "inj_on (ix I) (dom I)" "dom I = set S \<union> D" "set S \<inter> D = {}"
    "falling I S" "\<forall>v\<in>dom I. ix I v < c"
    using inv unfolding tinv_def stack_inv_def by blast+
  have W: "\<forall>u\<in>set S. \<exists>w\<in>set S. L u = I w \<and> ix I w \<le> ix I u \<and> (u, w) \<in> E\<^sup>*"
    "\<forall>u\<in>set S. \<forall>w\<in>X u \<inter> set S. \<forall>f. owner I (p # F) u f \<longrightarrow> ix L f \<le> ix I w"
    using inv by (simp_all add: tinv_def low_inv_def)
  have R: "\<forall>u\<in>set S. \<exists>f\<in>set (p # F). ix I f \<le> ix I u \<and> (u, f) \<in> E\<^sup>*"
    "\<forall>u\<in>set S. \<forall>f\<in>set (p # F). ix I f \<le> ix I u \<longrightarrow> (f, u) \<in> E\<^sup>*" "\<forall>v\<in>dom I. \<exists>k\<in>K. (k, v) \<in> E\<^sup>*"
    using inv unfolding tinv_def reach_inv_def by blast+
  have X: "\<forall>u\<in>set S. X u \<subseteq> E `` {u} \<inter> dom I" "\<forall>u\<in>set S - set (p # F). X u = E `` {u}" "E `` D \<subseteq> D"
    using inv by (simp_all add: tinv_def edge_inv_def)
  have pS: "p \<in> set S" using st(2) by simp
  have dS: "distinct S" using st(6) by (rule falling_distinct)
  have S': "set S' = {u \<in> set S. ix I u < ix I p}" using T dS unfolding S by force
  have FS: "set F \<subseteq> set S'" using st(1,2) S' by (auto simp: falling_Cons)
  have oT: "owner I (p # F) u p" if "u \<in> set T" for u
    using that T st(1) by (fastforce simp: owner_def falling_Cons)
  have allX: "X u = E `` {u}" if "u \<in> set T" for u
  proof (cases "u = p")
    case False
    have "u \<notin> set F" using that T FS S' by auto
    then show ?thesis using X(2) that T False by auto
  qed (use full in simp)
  show cl: "E `` set T \<subseteq> set T \<union> D"
  proof
    fix w assume "w \<in> E `` set T"
    then obtain u where u: "u \<in> set T" "w \<in> X u" using allX by auto
    have uS: "u \<in> set S" using u(1) T by blast
    have "w \<in> set S \<union> D" using X(1) uS u(2) st(4) by blast
    then show "w \<in> set T \<union> D"
    proof
      assume w: "w \<in> set S"
      then have "ix L p \<le> ix I w" using W(2) uS u(2) oT [OF u(1)] by blast
      then show ?thesis using low w T by simp
    qed simp
  qed
  have toP: "(u, p) \<in> E\<^sup>*" if u: "u \<in> set T" for u
  proof -
    obtain f where f: "f \<in> set (p # F)" "(u, f) \<in> E\<^sup>*" using R(1) u T by blast
    have "ix I f \<le> ix I p" using f(1) st(1) by (auto simp: falling_Cons)
    then have "(f, p) \<in> E\<^sup>*" using R(2) pS f(1) by blast
    then show ?thesis using f(2) by (rule rtrancl_trans [rotated])
  qed
  have "(p, v) \<in> E\<^sup>*" if "v \<in> set T" for v using R(2) that T by auto
  then show "\<forall>u\<in>set T. \<forall>v\<in>set T. (u, v) \<in> E\<^sup>*" using toP by (meson rtrancl_trans)
  have lowF: "ix L f \<le> ix I f" if "f \<in> set S" for f using W(1) that by fastforce
  show "ix L (hd F) \<le> ix L p" if "F \<noteq> []"
    using that lowF [of "hd F"] st(1,2) low by (cases F) (auto simp: falling_Cons)
  have fs: "falling I S'" using st(6) unfolding S falling_def by (simp add: sorted_wrt_append)
  have s1: "stack_inv I S' F (D \<union> set T) c"
    unfolding stack_inv_def using st FS S dS fs by (auto simp: falling_Cons)
  have s2: "edge_inv E X I S' F (D \<union> set T)"
    unfolding edge_inv_def using X S' cl by (auto simp: domIff)
  have s3: "reach_inv E K I S' F"
    unfolding reach_inv_def
  proof (intro conjI)
    show "\<forall>u\<in>set S'. \<exists>f\<in>set F. ix I f \<le> ix I u \<and> (u, f) \<in> E\<^sup>*" using R(1) S' by fastforce
    show "\<forall>u\<in>set S'. \<forall>f\<in>set F. ix I f \<le> ix I u \<longrightarrow> (f, u) \<in> E\<^sup>*" using R(2) S' by simp
    show "\<forall>v\<in>dom I. \<exists>k\<in>K. (k, v) \<in> E\<^sup>*" by (rule R(3))
  qed
  have o: "owner I (p # F) u f" if "owner I F u f" "u \<in> set S'" for u f
    using that S' by (auto simp: owner_def)
  have "\<exists>w\<in>set S'. L u = I w \<and> ix I w \<le> ix I u \<and> (u, w) \<in> E\<^sup>*" if "u \<in> set S'" for u
  proof -
    have u: "u \<in> set S" "ix I u < ix I p" using that S' by auto
    then obtain w where w: "w \<in> set S" "L u = I w" "ix I w \<le> ix I u" "(u, w) \<in> E\<^sup>*" using W(1) by blast
    then show ?thesis using u S' by (intro bexI [of _ w]) auto
  qed
  moreover have "ix L f \<le> ix I w" if "u \<in> set S'" "w \<in> X u \<inter> set S'" "owner I F u f" for u w f
    using W(2) o [OF that(3,1)] that(1,2) S' by blast
  ultimately have s4: "low_inv E X I L S' F" unfolding low_inv_def by blast
  show "tinv E K X I L S' F (D \<union> set T) c" unfolding tinv_def using s1 s2 s3 s4 by blast
qed

end
