(* ===== verification/GcMark.thy ===== *)
theory GcMark
  imports Prelude "HOL-Library.While_Combinator"
begin

text \<open>
  Marking (\<^verbatim>\<open>src/jnc_rt/jnc_rt_GcHeap.cpp\<close> and the methods \<^verbatim>\<open>markGcRoots\<close> of the types
  under \<^verbatim>\<open>src/jnc_ct/jnc_ct_TypeMgr\<close>): the types as far as the collector reads them, the memory
  it reads, and every operation that marks a box, for the state \<^verbatim>\<open>State_Mark\<close>. Addresses are 64-bit words.
\<close>

section \<open>Types\<close>

type_synonym addr = "64 word"

datatype class_kind = NormalClass | FunctionClosure | PropertyClosure

text \<open>A scalar type: plain data, a thin pointer (the type of a root that is itself a heap variable or a
  validator), a fat data pointer, a pointer to an object, a function or property pointer, a string. The flag
  of a pointer type is \<^verbatim>\<open>true\<close> for a weak pointer.\<close>

datatype thin_target = ToValidator | ToClass | ToData

datatype scalar = GPod addr | GThinPtr thin_target | GDataPtr | GClassPtr bool | GFunctionPtr bool
  | GPropertyPtr bool | GString

text \<open>A struct has its size, base types and fields with their offsets; a class has in addition its kind,
  whether it has a destructor, and for a closure class the index of the field of the \<^verbatim>\<open>this\<close> argument.\<close>

datatype gtype = GScalar scalar | GVariant
  | GArray gtype nat
  | GStruct addr "(addr \<times> gtype) list" "(addr \<times> gtype) list"
  | GClass class_kind addr bool "(addr \<times> gtype) list" "(addr \<times> gtype) list" "nat option"

definition scalar_size :: "scalar \<Rightarrow> addr" where
  "scalar_size c =
     (case c of GPod n \<Rightarrow> n | GThinPtr t \<Rightarrow> 8 | GDataPtr \<Rightarrow> 16 | GClassPtr w \<Rightarrow> 8 | GFunctionPtr w \<Rightarrow> 16
      | GPropertyPtr w \<Rightarrow> 16 | GString \<Rightarrow> 40)"

fun gsize :: "gtype \<Rightarrow> addr" where
  "gsize (GScalar c) = scalar_size c"
| "gsize GVariant = 56"
| "gsize (GArray t n) = gsize t * of_nat n"
| "gsize (GStruct n bs fs) = n"
| "gsize (GClass k n d bs fs a) = n"

definition is_class :: "gtype \<Rightarrow> bool" where
  "is_class t = (case t of GClass k n d bs fs a \<Rightarrow> True | _ \<Rightarrow> False)"

text \<open>\<^verbatim>\<open>TypeFlag_Pod\<close> and \<^verbatim>\<open>TypeFlag_GcRoot\<close>, as the layouts compute them. The fields of a struct decide
  whether it is plain data, its base types do not; an array takes the flags of its innermost element type, and
  that of plain data first.\<close>

fun pod :: "gtype \<Rightarrow> bool" and pods :: "(addr \<times> gtype) list \<Rightarrow> bool" where
  "pod (GScalar c) = (case c of GPod n \<Rightarrow> True | _ \<Rightarrow> False)"
| "pod GVariant = False"
| "pod (GArray t n) = pod t"
| "pod (GStruct n bs fs) = pods fs"
| "pod (GClass k n d bs fs a) = False"
| "pods [] = True"
| "pods ((off, t) # ts) = (pod t \<and> pods ts)"

definition scalar_gcroot :: "scalar \<Rightarrow> bool" where
  "scalar_gcroot c = (case c of GPod n \<Rightarrow> False | GThinPtr t \<Rightarrow> False | _ \<Rightarrow> True)"

fun gcroot :: "gtype \<Rightarrow> bool" and gcroots :: "(addr \<times> gtype) list \<Rightarrow> bool" where
  "gcroot (GScalar c) = scalar_gcroot c"
| "gcroot GVariant = True"
| "gcroot (GArray t n) = (\<not> pod t \<and> gcroot t)"
| "gcroot (GStruct n bs fs) = (gcroots bs \<or> gcroots fs)"
| "gcroot (GClass k n d bs fs a) = (gcroots bs \<or> gcroots fs)"
| "gcroots [] = False"
| "gcroots ((off, t) # ts) = (gcroot t \<or> gcroots ts)"

section \<open>Memory and marks\<close>

datatype box_flag = WeakMark | DataMark | ClassMark | ClosureWeakMark | Destructing | Invalid
  | StaticBox | DynamicArray | Detached | CallSiteLocal

definition MarkMask :: "box_flag set" where
  "MarkMask = {WeakMark, DataMark, ClassMark, ClosureWeakMark}"

text \<open>What the collector reads and does not write: the pointer stored at an address, the type stored in a
  variant, the type and the root offset of a box.\<close>

record gcmem =
  ld :: "addr \<Rightarrow> addr"
  vtype :: "addr \<Rightarrow> gtype option"
  btype :: "addr \<Rightarrow> gtype"
  rootOffset :: "addr \<Rightarrow> addr"

text \<open>What it writes: the flags of the boxes and the current array of roots to scan.\<close>

record mstate =
  fl :: "addr \<Rightarrow> box_flag set"
  markRoots :: "(addr \<times> gtype) list"

definition set_flags :: "addr \<Rightarrow> box_flag set \<Rightarrow> mstate \<Rightarrow> mstate" where
  "set_flags b F s = s\<lparr>fl := (fl s)(b := fl s b \<union> F)\<rparr>"

definition push_root :: "addr \<Rightarrow> gtype \<Rightarrow> mstate \<Rightarrow> mstate" where
  "push_root p t s = s\<lparr>markRoots := markRoots s @ [(p, t)]\<rparr>"

text \<open>The headers: a \<^verbatim>\<open>Box\<close> takes 16 bytes and a \<^verbatim>\<open>DataBox\<close> 48; \<^verbatim>\<open>m_box\<close> of an interface header and
  the second half of a fat pointer are at offset 8.\<close>

definition iface_of :: "addr \<Rightarrow> addr" where
  "iface_of b = b + 16"

definition data_of :: "addr \<Rightarrow> addr" where
  "data_of b = b + 48"

definition m_box :: "gcmem \<Rightarrow> addr \<Rightarrow> addr" where
  "m_box m iface = ld m (iface + 8)"

definition getDynamicArrayElementCount :: "gcmem \<Rightarrow> addr \<Rightarrow> nat" where
  "getDynamicArrayElementCount m b = unat ((ld m (b + 40) - ld m (b + 32)) div gsize (btype m b))"

section \<open>Marking a box\<close>

definition weakMark :: "gcmem \<Rightarrow> addr \<Rightarrow> mstate \<Rightarrow> mstate" where
  "weakMark m b s =
     (let s1 = set_flags b {WeakMark} s
      in if rootOffset m b \<noteq> 0 then set_flags (b - rootOffset m b) {WeakMark} s1 else s1)"

definition addRootArray :: "addr \<Rightarrow> gtype \<Rightarrow> nat \<Rightarrow> mstate \<Rightarrow> mstate" where
  "addRootArray p0 t count s =
     s\<lparr>markRoots := markRoots s @ map (\<lambda>i. (p0 + gsize t * of_nat i, t)) [0..<count]\<rparr>"

definition markData :: "gcmem \<Rightarrow> addr \<Rightarrow> mstate \<Rightarrow> mstate" where
  "markData m b s =
     (let s1 = weakMark m b s; t = btype m b
      in if DataMark \<in> fl s1 b then s1
         else let s2 = set_flags b {DataMark} s1
           in if \<not> gcroot t \<or> Invalid \<in> fl s2 b then s2
              else if is_class t then push_root b t s2
              else if DynamicArray \<notin> fl s2 b then push_root (data_of b) t s2
              else addRootArray (data_of b) t (getDynamicArrayElementCount m b) s2)"

definition markDataPtr :: "gcmem \<Rightarrow> addr \<Rightarrow> mstate \<Rightarrow> mstate" where
  "markDataPtr m p s =
     (let validator = ld m (p + 8)
      in if validator = 0 then s else markData m (ld m (validator + 8)) (weakMark m (ld m validator) s))"

text \<open>The class fields embedded in an object, those of the base classes first.\<close>

fun markClassFields :: "gtype \<Rightarrow> addr \<Rightarrow> mstate \<Rightarrow> mstate"
  and markBases :: "(addr \<times> gtype) list \<Rightarrow> addr \<Rightarrow> mstate \<Rightarrow> mstate"
  and markFields :: "(addr \<times> gtype) list \<Rightarrow> addr \<Rightarrow> mstate \<Rightarrow> mstate" where
  "markClassFields (GClass k n d bs fs a) = (\<lambda>iface s. markFields fs iface (markBases bs iface s))"
| "markClassFields _ = (\<lambda>iface s. s)"
| "markBases [] = (\<lambda>iface s. s)"
| "markBases ((off, t) # bs) = (\<lambda>iface s.
     markBases bs iface (if is_class t then markClassFields t (iface + off) s else s))"
| "markFields [] = (\<lambda>iface s. s)"
| "markFields ((off, t) # fs) = (\<lambda>iface s.
     markFields fs iface
       (if is_class t \<and> ClassMark \<notin> fl s (iface + off)
        then markClassFields t (iface_of (iface + off)) (set_flags (iface + off) {ClassMark, DataMark, WeakMark} s)
        else s))"

definition markClass :: "gcmem \<Rightarrow> addr \<Rightarrow> mstate \<Rightarrow> mstate" where
  "markClass m b s =
     (if ClassMark \<in> fl s b then s
      else let t = btype m b;
               s1 = markClassFields t (iface_of b) (weakMark m b s);
               s2 = set_flags b {ClassMark, DataMark} s1
           in if gcroot t \<and> Invalid \<notin> fl s2 b then push_root b t s2 else s2)"

definition addRoot :: "gcmem \<Rightarrow> addr \<Rightarrow> gtype \<Rightarrow> mstate \<Rightarrow> mstate" where
  "addRoot m p t s =
     (if gcroot t then push_root p t s
      else case t of
        GScalar (GThinPtr ToValidator) \<Rightarrow> weakMark m (ld m p) s
      | GScalar (GThinPtr ToClass) \<Rightarrow> markClass m (p - 16) s
      | GScalar (GThinPtr ToData) \<Rightarrow> markData m (p - 48) s
      | _ \<Rightarrow> s)"

definition class_fields :: "gtype \<Rightarrow> (addr \<times> gtype) list" where
  "class_fields t = (case t of GClass k n d bs fs a \<Rightarrow> fs | _ \<Rightarrow> [])"

definition thisArgFieldIdx :: "gtype \<Rightarrow> nat option" where
  "thisArgFieldIdx t = (case t of GClass k n d bs fs a \<Rightarrow> a | _ \<Rightarrow> None)"

text \<open>The roots of a closure that is only weakly reachable: its \<^verbatim>\<open>this\<close> argument as a weak pointer, then
  the other fields that are roots.\<close>

definition closure_roots :: "gtype \<Rightarrow> nat \<Rightarrow> addr \<Rightarrow> (addr \<times> gtype) list" where
  "closure_roots t i p0 =
     (p0 + fst (class_fields t ! i), GScalar (GClassPtr True)) #
     [(p0 + fst (class_fields t ! j), snd (class_fields t ! j)).
       j \<leftarrow> [0..<length (class_fields t)], j \<noteq> i, gcroot (snd (class_fields t ! j))]"

definition weakMarkClosureClass :: "gcmem \<Rightarrow> addr \<Rightarrow> mstate \<Rightarrow> mstate" where
  "weakMarkClosureClass m b s =
     (if ClassMark \<in> fl s b \<or> ClosureWeakMark \<in> fl s b then s
      else case thisArgFieldIdx (btype m b) of
        None \<Rightarrow> markClass m b s
      | Some i \<Rightarrow>
          let s1 = set_flags b {ClosureWeakMark} (weakMark m b s)
          in s1\<lparr>markRoots := markRoots s1 @ closure_roots (btype m b) i (iface_of b)\<rparr>)"

section \<open>Scanning a root\<close>

definition is_class_kind :: "class_kind \<Rightarrow> gtype \<Rightarrow> bool" where
  "is_class_kind k t = (case t of GClass k' n d bs fs a \<Rightarrow> k' = k | _ \<Rightarrow> False)"

text \<open>A function or property pointer: the closure is at offset 8.\<close>

definition mark_closure_ptr :: "gcmem \<Rightarrow> class_kind \<Rightarrow> bool \<Rightarrow> addr \<Rightarrow> mstate \<Rightarrow> mstate" where
  "mark_closure_ptr m kind weak p s =
     (let closure = ld m (p + 8); b = m_box m closure
      in if closure = 0 then s
         else if \<not> weak then markClass m b s
         else if is_class_kind kind (btype m b) then weakMarkClosureClass m b s
         else weakMark m b s)"

definition mark_class_ptr :: "gcmem \<Rightarrow> bool \<Rightarrow> addr \<Rightarrow> mstate \<Rightarrow> mstate" where
  "mark_class_ptr m weak p s =
     (let iface = ld m p
      in if iface = 0 then s else if weak then weakMark m (m_box m iface) s else markClass m (m_box m iface) s)"

definition mark_scalar :: "gcmem \<Rightarrow> scalar \<Rightarrow> addr \<Rightarrow> mstate \<Rightarrow> mstate" where
  "mark_scalar m c p s =
     (case c of
        GDataPtr \<Rightarrow> markDataPtr m p s
      | GClassPtr w \<Rightarrow> mark_class_ptr m w p s
      | GFunctionPtr w \<Rightarrow> mark_closure_ptr m FunctionClosure w p s
      | GPropertyPtr w \<Rightarrow> mark_closure_ptr m PropertyClosure w p s
      | GString \<Rightarrow> markDataPtr m (p + 16) (markDataPtr m p s)
      | _ \<Rightarrow> s)"

text \<open>\<^verbatim>\<open>markGcRoots\<close> of each type, and \<^verbatim>\<open>markGcRootsImpl\<close> of a class; \<open>variant\<close> is what scanning a
  variant does.\<close>

type_synonym scan = "gcmem \<Rightarrow> (addr \<Rightarrow> mstate \<Rightarrow> mstate) \<Rightarrow> addr \<Rightarrow> mstate \<Rightarrow> mstate"

fun mgr :: "gtype \<Rightarrow> scan" and mgr_impl :: "gtype \<Rightarrow> scan"
  and mgr_bases :: "(addr \<times> gtype) list \<Rightarrow> scan" and mgr_fields :: "(addr \<times> gtype) list \<Rightarrow> scan" where
  "mgr (GScalar c) = (\<lambda>m variant p s. mark_scalar m c p s)"
| "mgr GVariant = (\<lambda>m variant p s. variant p s)"
| "mgr (GArray t n) = (\<lambda>m variant p s. addRootArray p t n s)"
| "mgr (GStruct n bs fs) = (\<lambda>m variant p s. mgr_fields fs m variant p (mgr_fields bs m variant p s))"
| "mgr (GClass k n d bs fs a) = (\<lambda>m variant p s.
     let b = m_box m (iface_of p)
     in if b = 0 then s else if Invalid \<in> fl s b then s
        else mgr_impl (GClass k n d bs fs a) m variant (iface_of p) s)"
| "mgr_impl (GClass k n d bs fs a) = (\<lambda>m variant iface s.
     mgr_fields fs m variant iface (mgr_bases bs m variant iface s))"
| "mgr_impl _ = (\<lambda>m variant iface s. s)"
| "mgr_bases [] = (\<lambda>m variant iface s. s)"
| "mgr_bases ((off, t) # bs) = (\<lambda>m variant iface s.
     mgr_bases bs m variant iface
       (if \<not> gcroot t then s
        else if is_class t then mgr_impl t m variant (iface + off) s else mgr t m variant (iface + off) s))"
| "mgr_fields [] = (\<lambda>m variant p s. s)"
| "mgr_fields ((off, t) # fs) = (\<lambda>m variant p s.
     mgr_fields fs m variant p (if gcroot t then mgr t m variant (p + off) s else s))"

text \<open>A variant is scanned by the type it holds, at its own address; that type takes at most
  \<^verbatim>\<open>Variant::DataSize\<close> bytes, so it contains no variant.\<close>

definition markVariant :: "gcmem \<Rightarrow> addr \<Rightarrow> mstate \<Rightarrow> mstate" where
  "markVariant m p s =
     (case vtype m p of None \<Rightarrow> s | Some t \<Rightarrow> if gcroot t then mgr t m (\<lambda>p s. s) p s else s)"

definition markGcRoots :: "gcmem \<Rightarrow> gtype \<Rightarrow> addr \<Rightarrow> mstate \<Rightarrow> mstate" where
  "markGcRoots m t p s = mgr t m (markVariant m) p s"

section \<open>The mark cycle\<close>

text \<open>Breadth first: the current array of roots is scanned while a new one is filled.\<close>

fun scan_roots :: "gcmem \<Rightarrow> (addr \<times> gtype) list \<Rightarrow> mstate \<Rightarrow> mstate" where
  "scan_roots m [] s = s"
| "scan_roots m ((p, t) # rs) s = scan_roots m rs (markGcRoots m t p s)"

definition mark_round :: "gcmem \<Rightarrow> mstate \<Rightarrow> mstate" where
  "mark_round m s = scan_roots m (markRoots s) (s\<lparr>markRoots := []\<rparr>)"

definition runMarkCycle :: "gcmem \<Rightarrow> mstate \<Rightarrow> mstate option" where
  "runMarkCycle m s = while_option (\<lambda>s. markRoots s \<noteq> []) (mark_round m) s"

section \<open>Threads and their roots\<close>

text \<open>A shadow stack frame has a chain of maps; a static map lists slots of the root array of the frame
  with their types, a dynamic map lists boxes.\<close>

datatype frame_map = DynamicMap "addr list" | StaticMap "(nat \<times> gtype) list"

record gcthread =
  th_frames :: "(frame_map list \<times> (nat \<Rightarrow> addr)) list"
  th_tls :: "(addr \<times> gtype) list"
  th_pools :: "addr list"

definition mark_box :: "gcmem \<Rightarrow> addr \<Rightarrow> mstate \<Rightarrow> mstate" where
  "mark_box m b s = (if is_class (btype m b) then markClass m b s else markData m b s)"

definition add_slot :: "gcmem \<Rightarrow> (nat \<Rightarrow> addr) \<Rightarrow> nat \<times> gtype \<Rightarrow> mstate \<Rightarrow> mstate" where
  "add_slot m slots r s = (if slots (fst r) = 0 then s else addRoot m (slots (fst r)) (snd r) s)"

definition add_frame_map :: "gcmem \<Rightarrow> (nat \<Rightarrow> addr) \<Rightarrow> frame_map \<Rightarrow> mstate \<Rightarrow> mstate" where
  "add_frame_map m slots fm s =
     (case fm of DynamicMap bs \<Rightarrow> fold (mark_box m) bs s | StaticMap rs \<Rightarrow> fold (add_slot m slots) rs s)"

definition addShadowStackFrame :: "gcmem \<Rightarrow> frame_map list \<times> (nat \<Rightarrow> addr) \<Rightarrow> mstate \<Rightarrow> mstate" where
  "addShadowStackFrame m f s = fold (add_frame_map m (snd f)) (fst f) s"

definition add_thread :: "gcmem \<Rightarrow> gcthread \<Rightarrow> mstate \<Rightarrow> mstate" where
  "add_thread m th s =
     fold (weakMark m) (th_pools th)
       (fold (\<lambda>(p, t). addRoot m p t) (th_tls th) (fold (addShadowStackFrame m) (th_frames th) s))"

section \<open>A collection\<close>

record gcheap =
  allocBoxes :: "addr list"
  classBoxes :: "addr list"
  destructibleBoxes :: "addr list"
  destructQueue :: "addr list"
  staticRoots :: "(addr \<times> gtype) list"
  h_fl :: "addr \<Rightarrow> box_flag set"

definition unmark :: "gcheap \<Rightarrow> mstate" where
  "unmark h =
     \<lparr>fl = (\<lambda>b. if b \<in> set (allocBoxes h) \<or> b \<in> set (classBoxes h) then h_fl h b - MarkMask else h_fl h b),
      markRoots = []\<rparr>"

definition add_roots :: "gcmem \<Rightarrow> gcthread list \<Rightarrow> gcheap \<Rightarrow> mstate \<Rightarrow> mstate" where
  "add_roots m ths h s =
     fold (\<lambda>iface. markClass m (m_box m iface)) (destructQueue h)
       (fold (add_thread m) ths (fold (\<lambda>(p, t). addRoot m p t) (staticRoots h) s))"

definition class_marked :: "mstate \<Rightarrow> addr \<Rightarrow> bool" where
  "class_marked s b \<longleftrightarrow> ClassMark \<in> fl s b \<or> ClosureWeakMark \<in> fl s b"

section \<open>Priming an object\<close>

text \<open>\<^verbatim>\<open>addClassBox_l\<close>: a class box and the class fields embedded in it, fields before their object.\<close>

fun class_boxes :: "gtype \<Rightarrow> addr \<Rightarrow> addr list"
  and class_boxes_bases :: "(addr \<times> gtype) list \<Rightarrow> addr \<Rightarrow> addr list"
  and class_boxes_fields :: "(addr \<times> gtype) list \<Rightarrow> addr \<Rightarrow> addr list" where
  "class_boxes (GClass k n d bs fs a) = (\<lambda>iface. class_boxes_bases bs iface @ class_boxes_fields fs iface)"
| "class_boxes _ = (\<lambda>iface. [])"
| "class_boxes_bases [] = (\<lambda>iface. [])"
| "class_boxes_bases ((off, t) # bs) = (\<lambda>iface.
     (if is_class t then class_boxes t (iface + off) else []) @ class_boxes_bases bs iface)"
| "class_boxes_fields [] = (\<lambda>iface. [])"
| "class_boxes_fields ((off, t) # fs) = (\<lambda>iface.
     (if is_class t then class_boxes t (iface_of (iface + off)) @ [iface + off] else []) @ class_boxes_fields fs iface)"

definition has_destructor :: "gtype \<Rightarrow> bool" where
  "has_destructor t = (case t of GClass k n d bs fs a \<Rightarrow> d | _ \<Rightarrow> False)"

definition addClassBox_l :: "gcmem \<Rightarrow> addr \<Rightarrow> gcheap \<Rightarrow> gcheap" where
  "addClassBox_l m b h =
     (let bs = class_boxes (btype m b) (iface_of b) @ [b]
      in h\<lparr>classBoxes := classBoxes h @ bs,
           destructibleBoxes := destructibleBoxes h @ filter (\<lambda>b. has_destructor (btype m b)) bs\<rparr>)"

end
