(* ===== verification/DestructGraph.thy ===== *)
theory DestructGraph
  imports GcMark
begin

text \<open>
  The destruction graph (\<^verbatim>\<open>src/jnc_rt/jnc_rt_DestructGraph.cpp\<close>): the nodes and edges it collects, Tarjan's
  algorithm with an explicit stack, and the order in which objects are queued for destruction. A node is
  represented by its index, and the fields of the nodes by functions of the index; the value \<open>-1\<close> of a
  field is \<open>None\<close>. The stacks have their top first.
\<close>

section \<open>Nodes and edges\<close>

text \<open>What a box knows of its node: nothing, its index (\<^verbatim>\<open>BoxFlag_Index\<close>, \<^verbatim>\<open>m_index\<close>), or that the
  map has it (\<^verbatim>\<open>BoxFlag_Map\<close>).\<close>

datatype box_slot = NoSlot | IndexSlot nat | MapSlot

record dgraph =
  d_nodeArray :: "addr list"
  d_nodeMap :: "addr \<Rightarrow> nat option"
  d_slot :: "addr \<Rightarrow> box_slot"
  d_unsortedEdges :: "(nat \<times> nat) list"
  d_sortedEdges :: "(nat \<times> nat) list"
  d_edgeBase :: "nat list"
  d_destructCount :: nat
  d_currentNode :: "nat option"

definition BoxIndexLimit :: nat where
  "BoxIndexLimit = 2 ^ 20"

definition new_node :: "addr \<Rightarrow> dgraph \<Rightarrow> dgraph" where
  "new_node box g =
     (let i = length (d_nodeArray g); g1 = g\<lparr>d_nodeArray := d_nodeArray g @ [box]\<rparr>
      in if i < BoxIndexLimit then g1\<lparr>d_slot := (d_slot g)(box := IndexSlot i)\<rparr>
         else g1\<lparr>d_slot := (d_slot g)(box := MapSlot), d_nodeMap := (d_nodeMap g)(box := Some i)\<rparr>)"

definition getNode :: "addr \<Rightarrow> dgraph \<Rightarrow> nat \<times> dgraph" where
  "getNode box g =
     (case d_slot g box of
        IndexSlot i \<Rightarrow> (i, g)
      | MapSlot \<Rightarrow> (the (d_nodeMap g box), g)
      | NoSlot \<Rightarrow> (length (d_nodeArray g), new_node box g))"

definition add_edge :: "nat \<Rightarrow> nat \<Rightarrow> dgraph \<Rightarrow> dgraph" where
  "add_edge src dst g = (if src \<noteq> dst then g\<lparr>d_unsortedEdges := d_unsortedEdges g @ [(src, dst)]\<rparr> else g)"

definition addEdge :: "nat \<Rightarrow> addr \<Rightarrow> dgraph \<Rightarrow> nat \<times> dgraph" where
  "addEdge parent box g = (let (node, g1) = getNode box g in (node, add_edge parent node g1))"

section \<open>Tarjan's algorithm\<close>

record dfs_frame =
  fr_node :: nat
  fr_edge :: nat
  fr_end :: nat

record tarjan_data =
  tarjanIdx :: "nat \<Rightarrow> nat option"
  lowlinkIdx :: "nat \<Rightarrow> nat option"
  sccIdx :: "nat \<Rightarrow> nat option"
  dfsCounter :: nat
  tarjanStack :: "nat list"
  dfsStack :: "dfs_frame list"
  sccNodes :: "nat list"
  sccBases :: "nat list"

definition tarjan_init :: tarjan_data where
  "tarjan_init = \<lparr>tarjanIdx = (\<lambda>_. None), lowlinkIdx = (\<lambda>_. None), sccIdx = (\<lambda>_. None), dfsCounter = 0,
     tarjanStack = [], dfsStack = [], sccNodes = [], sccBases = []\<rparr>"

text \<open>A node is discovered: it gets the next index and goes on both stacks.\<close>

definition discover :: "dgraph \<Rightarrow> nat \<Rightarrow> tarjan_data \<Rightarrow> tarjan_data" where
  "discover g v s =
     s\<lparr>tarjanIdx := (tarjanIdx s)(v := Some (dfsCounter s)), lowlinkIdx := (lowlinkIdx s)(v := Some (dfsCounter s)),
       dfsCounter := dfsCounter s + 1, tarjanStack := v # tarjanStack s,
       dfsStack := \<lparr>fr_node = v, fr_edge = d_edgeBase g ! v, fr_end = d_edgeBase g ! (v + 1)\<rparr> # dfsStack s\<rparr>"

definition lower :: "nat \<Rightarrow> nat \<Rightarrow> tarjan_data \<Rightarrow> tarjan_data" where
  "lower v k s = s\<lparr>lowlinkIdx := (lowlinkIdx s)(v := Some (min (the (lowlinkIdx s v)) k))\<rparr>"

text \<open>An edge of the node on top.\<close>

definition visit_edge :: "dgraph \<Rightarrow> dfs_frame \<Rightarrow> dfs_frame list \<Rightarrow> tarjan_data \<Rightarrow> tarjan_data" where
  "visit_edge g fr frs s =
     (let dst = snd (d_sortedEdges g ! fr_edge fr);
          s1 = s\<lparr>dfsStack := fr\<lparr>fr_edge := fr_edge fr + 1\<rparr> # frs\<rparr>
      in case tarjanIdx s dst of
           Some k \<Rightarrow> if sccIdx s dst = None then lower (fr_node fr) k s1 else s1
         | None \<Rightarrow> discover g dst s1)"

text \<open>The nodes of a component are popped down to its root.\<close>

fun pop_component :: "nat \<Rightarrow> nat list \<Rightarrow> nat list \<times> nat list" where
  "pop_component v [] = ([], [])"
| "pop_component v (j # st) =
     (if j = v then ([j], st) else let (c, st') = pop_component v st in (j # c, st'))"

definition close_component :: "nat \<Rightarrow> tarjan_data \<Rightarrow> tarjan_data" where
  "close_component v s =
     (let (c, st) = pop_component v (tarjanStack s); k = length (sccBases s)
      in s\<lparr>sccBases := sccBases s @ [length (sccNodes s)], sccNodes := sccNodes s @ c,
           sccIdx := (\<lambda>j. if j \<in> set c then Some k else sccIdx s j), tarjanStack := st\<rparr>)"

definition leave_node :: "dfs_frame \<Rightarrow> dfs_frame list \<Rightarrow> tarjan_data \<Rightarrow> tarjan_data" where
  "leave_node fr frs s =
     (let v = fr_node fr;
          s1 = (if lowlinkIdx s v = tarjanIdx s v then close_component v s else s);
          s2 = s1\<lparr>dfsStack := frs\<rparr>
      in case frs of [] \<Rightarrow> s2 | parent # _ \<Rightarrow> lower (fr_node parent) (the (lowlinkIdx s v)) s2)"

definition tarjan_step :: "dgraph \<Rightarrow> tarjan_data \<Rightarrow> tarjan_data" where
  "tarjan_step g s =
     (case dfsStack s of
        [] \<Rightarrow> s
      | fr # frs \<Rightarrow> if fr_edge fr < fr_end fr then visit_edge g fr frs s else leave_node fr frs s)"

definition tarjan_dfs :: "dgraph \<Rightarrow> tarjan_data \<Rightarrow> tarjan_data option" where
  "tarjan_dfs g s = while_option (\<lambda>s. dfsStack s \<noteq> []) (tarjan_step g) s"

definition tarjan_seed :: "dgraph \<Rightarrow> nat \<Rightarrow> tarjan_data \<Rightarrow> tarjan_data option" where
  "tarjan_seed g i s = (if tarjanIdx s i \<noteq> None then Some s else tarjan_dfs g (discover g i s))"

fun tarjan_seeds :: "dgraph \<Rightarrow> nat list \<Rightarrow> tarjan_data \<Rightarrow> tarjan_data option" where
  "tarjan_seeds g [] s = Some s"
| "tarjan_seeds g (i # is) s = Option.bind (tarjan_seed g i s) (tarjan_seeds g is)"

definition tarjan :: "dgraph \<Rightarrow> tarjan_data option" where
  "tarjan g =
     map_option (\<lambda>s. s\<lparr>sccBases := sccBases s @ [length (sccNodes s)]\<rparr>)
       (tarjan_seeds g [0..<d_destructCount g] tarjan_init)"

section \<open>The order of destruction\<close>

text \<open>A component: its candidates, the latest first when there are several.\<close>

definition emit_component :: "dgraph \<Rightarrow> nat list \<Rightarrow> addr list" where
  "emit_component g c =
     (let cs = filter (\<lambda>k. k < d_destructCount g) c
      in map (\<lambda>k. d_nodeArray g ! k) (if length cs \<le> 1 then cs else rev (sort cs)))"

definition component :: "tarjan_data \<Rightarrow> nat \<Rightarrow> nat list" where
  "component s i = take (sccBases s ! (i + 1) - sccBases s ! i) (drop (sccBases s ! i) (sccNodes s))"

fun emit_from :: "dgraph \<Rightarrow> tarjan_data \<Rightarrow> nat \<Rightarrow> addr list" where
  "emit_from g s 0 = []"
| "emit_from g s (Suc i) = emit_component g (component s i) @ emit_from g s i"

definition emit :: "dgraph \<Rightarrow> tarjan_data \<Rightarrow> addr list \<Rightarrow> addr list" where
  "emit g s destructArray = destructArray @ map iface_of (emit_from g s (length (sccBases s) - 1))"

definition cleanup :: "dgraph \<Rightarrow> dgraph" where
  "cleanup g = g\<lparr>d_slot := (\<lambda>b. if b \<in> set (d_nodeArray g) then NoSlot else d_slot g b), d_nodeArray := [],
     d_nodeMap := (\<lambda>_. None), d_currentNode := None\<rparr>"

end
