(* ===== verification/TarjanRun.thy ===== *)
theory TarjanRun
  imports TarjanInv DestructGraph
begin

text \<open>
  The model of Tarjan's algorithm keeps the invariant, ends, and groups the nodes into components that
  are closed downwards.
\<close>

section \<open>Well-formed graphs\<close>

abbreviation edges :: "dgraph \<Rightarrow> (nat \<times> nat) set" where
  "edges g \<equiv> set (d_sortedEdges g)"

definition reaches :: "dgraph \<Rightarrow> nat \<Rightarrow> nat \<Rightarrow> bool" where
  "reaches g u v \<longleftrightarrow> (u, v) \<in> (edges g)\<^sup>*"

text \<open>The edges of a node lie between its base and the next one.\<close>

definition graph_ok :: "dgraph \<Rightarrow> bool" where
  "graph_ok g \<longleftrightarrow>
     (let n = length (d_nodeArray g); base = (!) (d_edgeBase g)
      in d_destructCount g \<le> n \<and> (\<forall>(u, w)\<in>edges g. u < n \<and> w < n) \<and>
         (\<forall>i<n. base i \<le> base (i + 1) \<and> base (i + 1) \<le> length (d_sortedEdges g)) \<and>
         (\<forall>k<length (d_sortedEdges g). \<forall>i<n. fst (d_sortedEdges g ! k) = i \<longleftrightarrow> base i \<le> k \<and> k < base (i + 1)))"

definition out_edges :: "dgraph \<Rightarrow> nat \<Rightarrow> nat \<Rightarrow> nat set" where
  "out_edges g u e = (\<lambda>k. snd (d_sortedEdges g ! k)) ` {d_edgeBase g ! u..<e}"

lemma out_edges_base [simp]: "out_edges g u (d_edgeBase g ! u) = {}"
  by (simp add: out_edges_def)

lemma out_edges_Suc: "d_edgeBase g ! u \<le> e \<Longrightarrow> out_edges g u (Suc e) = insert (snd (d_sortedEdges g ! e)) (out_edges g u e)"
  by (simp add: out_edges_def atLeastLessThanSuc)

lemma out_edges_all: "graph_ok g \<Longrightarrow> u < length (d_nodeArray g) \<Longrightarrow> out_edges g u (d_edgeBase g ! (u + 1)) = edges g `` {u}"
proof -
  assume g: "graph_ok g" and u: "u < length (d_nodeArray g)"
  have b: "d_edgeBase g ! (u + 1) \<le> length (d_sortedEdges g)" using g u by (simp add: graph_ok_def Let_def)
  have f: "fst (d_sortedEdges g ! k) = u \<longleftrightarrow> d_edgeBase g ! u \<le> k \<and> k < d_edgeBase g ! (u + 1)"
    if "k < length (d_sortedEdges g)" for k
    using g u that by (simp add: graph_ok_def Let_def)
  show ?thesis
  proof (intro equalityI subsetI)
    fix w assume "w \<in> out_edges g u (d_edgeBase g ! (u + 1))"
    then obtain k where k: "d_edgeBase g ! u \<le> k" "k < d_edgeBase g ! (u + 1)" "w = snd (d_sortedEdges g ! k)"
      by (auto simp: out_edges_def)
    then have "d_sortedEdges g ! k = (u, w)" using f [of k] b by (simp add: prod_eq_iff)
    moreover have "k < length (d_sortedEdges g)" using k(2) b by simp
    ultimately show "w \<in> edges g `` {u}" using nth_mem [of k "d_sortedEdges g"] by auto
  next
    fix w assume "w \<in> edges g `` {u}"
    then obtain k where k: "k < length (d_sortedEdges g)" "d_sortedEdges g ! k = (u, w)" by (auto simp: in_set_conv_nth)
    then show "w \<in> out_edges g u (d_edgeBase g ! (u + 1))" using f [of k] by (force simp: out_edges_def)
  qed
qed

section \<open>The invariant of a state\<close>

abbreviation path :: "tarjan_data \<Rightarrow> nat list" where
  "path s \<equiv> map fr_node (dfsStack s)"

fun next_edge :: "dgraph \<Rightarrow> dfs_frame list \<Rightarrow> nat \<Rightarrow> nat" where
  "next_edge g [] u = d_edgeBase g ! (u + 1)"
| "next_edge g (fr # frs) u = (if fr_node fr = u then fr_edge fr else next_edge g frs u)"

definition followed :: "dgraph \<Rightarrow> tarjan_data \<Rightarrow> nat \<Rightarrow> nat set" where
  "followed g s u = out_edges g u (next_edge g (dfsStack s) u)"

definition frames_ok :: "dgraph \<Rightarrow> tarjan_data \<Rightarrow> bool" where
  "frames_ok g s \<longleftrightarrow> dom (tarjanIdx s) \<subseteq> {..<length (d_nodeArray g)} \<and>
     (\<forall>fr\<in>set (dfsStack s). fr_end fr = d_edgeBase g ! (fr_node fr + 1) \<and> d_edgeBase g ! fr_node fr \<le> fr_edge fr \<and>
        fr_edge fr \<le> fr_end fr)"

text \<open>The components closed so far, as lists.\<close>

definition bases :: "nat list list \<Rightarrow> nat list" where
  "bases cs = map (\<lambda>i. length (concat (take i cs))) [0..<length cs]"

definition comps_ok :: "dgraph \<Rightarrow> tarjan_data \<Rightarrow> nat list list \<Rightarrow> bool" where
  "comps_ok g s cs \<longleftrightarrow> sccNodes s = concat cs \<and> sccBases s = bases cs \<and> distinct (concat cs) \<and>
     (\<forall>v k. sccIdx s v = Some k \<longleftrightarrow> k < length cs \<and> v \<in> set (cs ! k)) \<and>
     (\<forall>c\<in>set cs. \<forall>u\<in>set c. \<forall>v\<in>set c. reaches g u v) \<and>
     (\<forall>i<length cs. \<forall>u\<in>set (cs ! i). \<forall>w. (u, w) \<in> edges g \<longrightarrow> (\<exists>j\<le>i. w \<in> set (cs ! j)))"

definition tarjan_inv :: "dgraph \<Rightarrow> nat set \<Rightarrow> tarjan_data \<Rightarrow> bool" where
  "tarjan_inv g K s \<longleftrightarrow>
     tinv (edges g) K (followed g s) (tarjanIdx s) (lowlinkIdx s) (tarjanStack s) (path s) (dom (sccIdx s)) (dfsCounter s) \<and>
     frames_ok g s \<and> (\<exists>cs. comps_ok g s cs)"

lemma length_bases [simp]: "length (bases cs) = length cs"
  by (simp add: bases_def)

lemma bases_snoc: "bases (cs @ [c]) = bases cs @ [length (concat cs)]"
  by (simp add: bases_def)

lemma inv_path:
  assumes "tarjan_inv g K s"
  shows "distinct (path s)" and "set (path s) \<subseteq> set (tarjanStack s)" and "set (tarjanStack s) \<subseteq> dom (tarjanIdx s)"
    and "dom (tarjanIdx s) \<subseteq> {..<length (d_nodeArray g)}" and "falling (tarjanIdx s) (tarjanStack s)"
    and "dom (tarjanIdx s) = set (tarjanStack s) \<union> dom (sccIdx s)" and "set (tarjanStack s) \<inter> dom (sccIdx s) = {}"
proof -
  have st: "stack_inv (tarjanIdx s) (tarjanStack s) (path s) (dom (sccIdx s)) (dfsCounter s)"
    using assms by (simp add: tarjan_inv_def tinv_def)
  then have "falling (tarjanIdx s) (path s)" unfolding stack_inv_def by blast
  then show "distinct (path s)" by (rule falling_distinct)
  show "set (path s) \<subseteq> set (tarjanStack s)" "set (tarjanStack s) \<subseteq> dom (tarjanIdx s)" "falling (tarjanIdx s) (tarjanStack s)"
    "dom (tarjanIdx s) = set (tarjanStack s) \<union> dom (sccIdx s)" "set (tarjanStack s) \<inter> dom (sccIdx s) = {}"
    using st unfolding stack_inv_def by blast+
  show "dom (tarjanIdx s) \<subseteq> {..<length (d_nodeArray g)}" using assms by (simp add: tarjan_inv_def frames_ok_def)
qed

lemma pop_component_split:
  assumes "v \<in> set st" and "pop_component v st = (c, st')"
  shows "st = c @ st' \<and> (\<exists>c'. c = c' @ [v] \<and> v \<notin> set c')"
  using assms
proof (induction st arbitrary: c st')
  case (Cons j st)
  then show ?case by (fastforce split: if_splits prod.splits)
qed simp

section \<open>Steps\<close>

lemma next_edge_other: "u \<notin> fr_node ` set frs \<Longrightarrow> next_edge g frs u = d_edgeBase g ! (u + 1)"
  by (induction frs) auto

lemma visit_edge_facts:
  assumes inv: "tarjan_inv g K s" and g: "graph_ok g" and st: "dfsStack s = fr # frs" and e: "fr_edge fr < fr_end fr"
  defines "dst \<equiv> snd (d_sortedEdges g ! fr_edge fr)"
  shows "(fr_node fr, dst) \<in> edges g" and "dst < length (d_nodeArray g)"
    and "followed g (s\<lparr>dfsStack := fr\<lparr>fr_edge := fr_edge fr + 1\<rparr> # frs\<rparr>) =
      (followed g s)(fr_node fr := insert dst (followed g s (fr_node fr)))"
    and "frames_ok g (s\<lparr>dfsStack := fr\<lparr>fr_edge := fr_edge fr + 1\<rparr> # frs\<rparr>)"
proof -
  let ?p = "fr_node fr"
  have f: "frames_ok g s" using inv by (simp add: tarjan_inv_def)
  have fr: "fr_end fr = d_edgeBase g ! (?p + 1)" "d_edgeBase g ! ?p \<le> fr_edge fr"
    using f st by (auto simp: frames_ok_def)
  have pn: "?p < length (d_nodeArray g)" using inv_path(2-4) [OF inv] st by auto
  have b: "fr_edge fr < length (d_sortedEdges g)"
    using g pn e fr by (auto simp: graph_ok_def Let_def dest!: spec [of _ ?p])
  moreover have "fst (d_sortedEdges g ! fr_edge fr) = ?p" using g pn b fr e by (simp add: graph_ok_def Let_def)
  ultimately show ed: "(?p, dst) \<in> edges g" unfolding dst_def by (metis nth_mem prod.collapse)
  then show "dst < length (d_nodeArray g)" using g by (auto simp: graph_ok_def Let_def)
  show "followed g (s\<lparr>dfsStack := fr\<lparr>fr_edge := fr_edge fr + 1\<rparr> # frs\<rparr>) =
      (followed g s)(?p := insert dst (followed g s ?p))"
    using fr(2) by (rule_tac ext) (simp add: followed_def st out_edges_Suc dst_def)
  show "frames_ok g (s\<lparr>dfsStack := fr\<lparr>fr_edge := fr_edge fr + 1\<rparr> # frs\<rparr>)"
    using f st e by (auto simp: frames_ok_def)
qed

lemma comps_ok_cong:
  "sccNodes s' = sccNodes s \<Longrightarrow> sccBases s' = sccBases s \<Longrightarrow> sccIdx s' = sccIdx s \<Longrightarrow> comps_ok g s' cs \<longleftrightarrow> comps_ok g s cs"
  by (simp add: comps_ok_def)

lemma inv_visit_edge:
  assumes inv: "tarjan_inv g K s" and g: "graph_ok g" and st: "dfsStack s = fr # frs" and e: "fr_edge fr < fr_end fr"
  shows "tarjan_inv g K (visit_edge g fr frs s)"
proof -
  let ?p = "fr_node fr"
  let ?s = "s\<lparr>dfsStack := fr\<lparr>fr_edge := fr_edge fr + 1\<rparr> # frs\<rparr>"
  define dst where "dst = snd (d_sortedEdges g ! fr_edge fr)"
  note v = visit_edge_facts [OF inv g st e, folded dst_def]
  have t: "tinv (edges g) K (followed g s) (tarjanIdx s) (lowlinkIdx s) (tarjanStack s) (?p # map fr_node frs)
      (dom (sccIdx s)) (dfsCounter s)"
    using inv st by (simp add: tarjan_inv_def)
  obtain cs where cs: "comps_ok g s cs" using inv unfolding tarjan_inv_def by blast
  have dom: "dom (tarjanIdx s) = set (tarjanStack s) \<union> dom (sccIdx s)" by (rule inv_path(6) [OF inv])
  show ?thesis
  proof (cases "tarjanIdx s dst")
    case None
    have step: "visit_edge g fr frs s = discover g dst ?s" using None by (simp add: visit_edge_def dst_def Let_def)
    have ne: "?p \<noteq> dst" using None inv_path(2,3) [OF inv] st by auto
    have X: "followed g (discover g dst ?s) = (followed g s)(dst := {}, ?p := insert dst (followed g s ?p))"
      using ne v(3) by (rule_tac ext) (simp add: followed_def discover_def st fun_eq_iff split: if_splits)
    have "tinv (edges g) (if ?p # map fr_node frs = [] then insert dst K else K) (followed g (discover g dst ?s))
        ((tarjanIdx s)(dst := Some (dfsCounter s))) ((lowlinkIdx s)(dst := Some (dfsCounter s))) (dst # tarjanStack s)
        (dst # ?p # map fr_node frs) (dom (sccIdx s)) (dfsCounter s + 1)"
      by (rule tinv_discover [OF t None]) (use v(1) X in simp)
    then have "tinv (edges g) K (followed g (discover g dst ?s)) (tarjanIdx (discover g dst ?s)) (lowlinkIdx (discover g dst ?s))
        (tarjanStack (discover g dst ?s)) (path (discover g dst ?s)) (dom (sccIdx (discover g dst ?s)))
        (dfsCounter (discover g dst ?s))"
      by (simp add: discover_def)
    moreover have "d_edgeBase g ! dst \<le> d_edgeBase g ! Suc dst" using g v(2) by (simp add: graph_ok_def Let_def)
    then have "frames_ok g (discover g dst ?s)" using v(2,4) by (auto simp: frames_ok_def discover_def)
    moreover have "comps_ok g (discover g dst ?s) cs" using cs by (simp add: comps_ok_def discover_def)
    ultimately show ?thesis unfolding tarjan_inv_def step by blast
  next
    case (Some k)
    show ?thesis
    proof (cases "sccIdx s dst")
      case None
      have step: "visit_edge g fr frs s = lower ?p k ?s" using Some None by (simp add: visit_edge_def dst_def Let_def)
      have X: "followed g (lower ?p k ?s) = (followed g s)(?p := insert dst (followed g s ?p))"
        using v(3) by (simp add: followed_def lower_def fun_eq_iff)
      have L: "lowlinkIdx (lower ?p k ?s) = (lowlinkIdx s)(?p := Some (min (ix (lowlinkIdx s) ?p) k))"
        by (simp add: lower_def)
      have "dst \<in> set (tarjanStack s)" using Some None dom by blast
      from tinv_edge_stack [OF t v(1) this]
      have "tinv (edges g) K (followed g (lower ?p k ?s)) (tarjanIdx s) (lowlinkIdx (lower ?p k ?s)) (tarjanStack s)
          (?p # map fr_node frs) (dom (sccIdx s)) (dfsCounter s)"
        unfolding X L using Some by simp
      then show ?thesis using v(4) cs unfolding step by (auto simp: tarjan_inv_def frames_ok_def comps_ok_def lower_def)
    next
      case (Some j)
      have step: "visit_edge g fr frs s = ?s" using \<open>tarjanIdx s dst = Some k\<close> Some by (simp add: visit_edge_def dst_def Let_def)
      have "dst \<in> dom (sccIdx s)" using Some by blast
      from tinv_edge_done [OF t v(1) this]
      have "tinv (edges g) K (followed g ?s) (tarjanIdx s) (lowlinkIdx s) (tarjanStack s) (?p # map fr_node frs)
          (dom (sccIdx s)) (dfsCounter s)"
        unfolding v(3) by simp
      then show ?thesis using v(4) cs unfolding step by (auto simp: tarjan_inv_def comps_ok_def)
    qed
  qed
qed

lemma leave_facts:
  assumes inv: "tarjan_inv g K s" and g: "graph_ok g" and st: "dfsStack s = fr # frs" and e: "\<not> fr_edge fr < fr_end fr"
  shows "followed g s (fr_node fr) = edges g `` {fr_node fr}"
    and "followed g (s\<lparr>dfsStack := frs\<rparr>) = followed g s" and "frames_ok g (s\<lparr>dfsStack := frs\<rparr>)"
proof -
  have f: "frames_ok g s" using inv by (simp add: tarjan_inv_def)
  have "fr_edge fr = d_edgeBase g ! (fr_node fr + 1)" using f st e by (auto simp: frames_ok_def)
  moreover have "fr_node fr < length (d_nodeArray g)" using inv_path(2-4) [OF inv] st by auto
  ultimately show "followed g s (fr_node fr) = edges g `` {fr_node fr}"
    using out_edges_all [OF g] by (simp add: followed_def st)
  have "fr_node fr \<notin> fr_node ` set frs" using inv_path(1) [OF inv] st by simp
  then have "next_edge g frs u = next_edge g (fr # frs) u" for u
    using \<open>fr_edge fr = d_edgeBase g ! (fr_node fr + 1)\<close> next_edge_other [of "fr_node fr" frs g] by auto
  then show "followed g (s\<lparr>dfsStack := frs\<rparr>) = followed g s" by (simp add: followed_def fun_eq_iff st)
  show "frames_ok g (s\<lparr>dfsStack := frs\<rparr>)" using f st by (auto simp: frames_ok_def)
qed

lemma comps_close:
  assumes cs: "comps_ok g s cs" and T: "set T \<inter> dom (sccIdx s) = {}" "distinct T"
    and cl: "edges g `` set T \<subseteq> set T \<union> dom (sccIdx s)" and r: "\<forall>u\<in>set T. \<forall>v\<in>set T. (u, v) \<in> (edges g)\<^sup>*"
  shows "comps_ok g (s\<lparr>sccBases := sccBases s @ [length (sccNodes s)], sccNodes := sccNodes s @ T,
    sccIdx := (\<lambda>j. if j \<in> set T then Some (length (sccBases s)) else sccIdx s j)\<rparr>) (cs @ [T])"
proof -
  have l: "length (sccBases s) = length cs" using cs by (simp add: comps_ok_def bases_def)
  have idx: "sccIdx s v = Some k \<longleftrightarrow> k < length cs \<and> v \<in> set (cs ! k)" for v k using cs by (simp add: comps_ok_def)
  have dom: "v \<in> dom (sccIdx s) \<longleftrightarrow> (\<exists>k<length cs. v \<in> set (cs ! k))" for v using idx by (auto simp: domIff)
  have "v \<in> set (concat cs) \<longleftrightarrow> (\<exists>k<length cs. v \<in> set (cs ! k))" for v
    by (metis UN_iff in_set_conv_nth set_concat)
  then have "dom (sccIdx s) = set (concat cs)" using dom by blast
  then have d: "distinct (concat (cs @ [T]))" using cs T by (auto simp: comps_ok_def)
  have i: "(if v \<in> set T then Some (length cs) else sccIdx s v) = Some k \<longleftrightarrow>
      k < length (cs @ [T]) \<and> v \<in> set ((cs @ [T]) ! k)" for v k
  proof -
    have "v \<notin> set T" if "k < length cs" "v \<in> set (cs ! k)" using that T(1) dom by blast
    then show ?thesis using idx [of v k] by (auto simp: nth_append less_Suc_eq)
  qed
  have o: "\<exists>j\<le>i. w \<in> set ((cs @ [T]) ! j)" if a: "i < length (cs @ [T])" "u \<in> set ((cs @ [T]) ! i)" "(u, w) \<in> edges g" for i u w
  proof (cases "i < length cs")
    case True
    then have "u \<in> set (cs ! i)" using a(2) by (simp add: nth_append)
    then obtain j where "j \<le> i" "w \<in> set (cs ! j)" using cs True a(3) unfolding comps_ok_def by blast
    then show ?thesis using True by (intro exI [of _ j]) (simp add: nth_append)
  next
    case False
    then have "i = length cs" "u \<in> set T" using a by (auto simp: nth_append)
    then have "w \<in> set T \<or> (\<exists>k<length cs. w \<in> set (cs ! k))" using cl a(3) dom by blast
    then show ?thesis using \<open>i = length cs\<close> by (metis le_eq_less_or_eq nth_append nth_append_length)
  qed
  have "sccNodes s = concat cs" "sccBases s = bases cs" "\<forall>c\<in>set cs. \<forall>u\<in>set c. \<forall>v\<in>set c. reaches g u v"
    using cs unfolding comps_ok_def by blast+
  then show ?thesis unfolding comps_ok_def using d i o r by (simp add: l bases_snoc reaches_def split del: if_split cong: if_cong)
qed

lemma inv_leave_node:
  assumes inv: "tarjan_inv g K s" and g: "graph_ok g" and st: "dfsStack s = fr # frs" and e: "\<not> fr_edge fr < fr_end fr"
  shows "tarjan_inv g K (leave_node fr frs s)"
proof -
  let ?p = "fr_node fr"
  note v = leave_facts [OF inv g st e]
  have t: "tinv (edges g) K (followed g s) (tarjanIdx s) (lowlinkIdx s) (tarjanStack s) (?p # map fr_node frs)
      (dom (sccIdx s)) (dfsCounter s)"
    using inv st by (simp add: tarjan_inv_def)
  obtain cs where cs: "comps_ok g s cs" using inv unfolding tarjan_inv_def by blast
  note ip = inv_path [OF inv]
  show ?thesis
  proof (cases "lowlinkIdx s ?p = tarjanIdx s ?p")
    case False
    obtain q F' where q: "map fr_node frs = q # F'" and
      t': "tinv (edges g) K (followed g s) (tarjanIdx s) ((lowlinkIdx s)(q := Some (min (ix (lowlinkIdx s) q) (ix (lowlinkIdx s) ?p))))
        (tarjanStack s) (map fr_node frs) (dom (sccIdx s)) (dfsCounter s)"
      using tinv_leave [OF t v(1) False] by (elim exE conjE) (rule that)
    obtain fq frs' where frs: "frs = fq # frs'" "fr_node fq = q" using q by (cases frs) auto
    have step: "leave_node fr frs s = lower q (ix (lowlinkIdx s) ?p) (s\<lparr>dfsStack := frs\<rparr>)"
      using False frs by (simp add: leave_node_def Let_def)
    have "followed g (leave_node fr frs s) = followed g s"
      using v(2) by (simp add: step lower_def followed_def fun_eq_iff)
    then have "tinv (edges g) K (followed g (leave_node fr frs s)) (tarjanIdx (leave_node fr frs s)) (lowlinkIdx (leave_node fr frs s))
        (tarjanStack (leave_node fr frs s)) (path (leave_node fr frs s)) (dom (sccIdx (leave_node fr frs s)))
        (dfsCounter (leave_node fr frs s))"
      using t' by (simp add: step lower_def)
    moreover have "frames_ok g (leave_node fr frs s)" using v(3) by (auto simp: step lower_def frames_ok_def)
    moreover have "comps_ok g (leave_node fr frs s) cs" using cs by (simp add: step lower_def comps_ok_def)
    ultimately show ?thesis unfolding tarjan_inv_def by blast
  next
    case True
    obtain T S' where T: "pop_component ?p (tarjanStack s) = (T, S')" by fastforce
    have pS: "?p \<in> set (tarjanStack s)" using ip(2) st by simp
    obtain T' where T': "tarjanStack s = T @ S'" "T = T' @ [?p]" using pop_component_split [OF pS T] by blast
    have fall: "falling (tarjanIdx s) (T' @ ?p # S')" using ip(5) T' by simp
    then have above: "set T = {u \<in> set (tarjanStack s). ix (tarjanIdx s) ?p \<le> ix (tarjanIdx s) u}"
      using T' by (auto simp: falling_def sorted_wrt_append)
    note c = tinv_close [OF t v(1) True T'(1) above]
    let ?c = "close_component ?p s"
    have cl: "?c = s\<lparr>sccBases := sccBases s @ [length (sccNodes s)], sccNodes := sccNodes s @ T,
        sccIdx := (\<lambda>j. if j \<in> set T then Some (length (sccBases s)) else sccIdx s j), tarjanStack := S'\<rparr>"
      by (simp add: close_component_def T Let_def)
    have dis: "set T \<inter> dom (sccIdx s) = {}" "distinct T"
      using ip(7) T' falling_distinct [OF ip(5)] by auto
    have cs': "comps_ok g ?c (cs @ [T])"
      by (rule iffD2 [OF comps_ok_cong, rotated 3, OF comps_close [OF cs dis c(2,3)]]) (simp_all add: cl)
    have dom: "dom (sccIdx ?c) = dom (sccIdx s) \<union> set T" by (auto simp: cl)
    have low: "lowlinkIdx (leave_node fr frs s) = lowlinkIdx s"
    proof (cases frs)
      case (Cons fq frs')
      let ?q = "fr_node fq"
      have "ix (lowlinkIdx s) ?q \<le> ix (lowlinkIdx s) ?p" using c(4) Cons by simp
      moreover have "lowlinkIdx s ?q = Some (ix (lowlinkIdx s) ?q)"
      proof -
        have "?q \<in> set (tarjanStack s)" using ip(2) st Cons by simp
        then obtain w where "w \<in> set (tarjanStack s)" "lowlinkIdx s ?q = tarjanIdx s w"
          using t unfolding tinv_def low_inv_def by blast
        then show ?thesis using on_stack [OF t] by (metis option.sel)
      qed
      ultimately show ?thesis using True Cons by (simp add: leave_node_def Let_def lower_def cl fun_eq_iff)
    qed (use True in \<open>simp add: leave_node_def Let_def cl\<close>)
    have rest: "tarjanIdx (leave_node fr frs s) = tarjanIdx s" "tarjanStack (leave_node fr frs s) = S'"
      "dfsStack (leave_node fr frs s) = frs" "sccIdx (leave_node fr frs s) = sccIdx ?c"
      "dfsCounter (leave_node fr frs s) = dfsCounter s" "sccNodes (leave_node fr frs s) = sccNodes ?c"
      "sccBases (leave_node fr frs s) = sccBases ?c"
      using True by (simp_all add: leave_node_def Let_def lower_def cl split: list.split)
    have "followed g (leave_node fr frs s) = followed g (s\<lparr>dfsStack := frs\<rparr>)" by (simp add: followed_def rest fun_eq_iff)
    then have "followed g (leave_node fr frs s) = followed g s" unfolding v(2) .
    then have "tinv (edges g) K (followed g (leave_node fr frs s)) (tarjanIdx (leave_node fr frs s)) (lowlinkIdx (leave_node fr frs s))
        (tarjanStack (leave_node fr frs s)) (path (leave_node fr frs s)) (dom (sccIdx (leave_node fr frs s)))
        (dfsCounter (leave_node fr frs s))"
      using c(1) by (simp add: rest low dom)
    moreover have "frames_ok g (leave_node fr frs s)" using v(3) by (auto simp: rest frames_ok_def)
    moreover have "comps_ok g (leave_node fr frs s) (cs @ [T])" using cs' by (simp add: comps_ok_def rest)
    ultimately show ?thesis unfolding tarjan_inv_def by blast
  qed
qed

lemma inv_step: "tarjan_inv g K s \<Longrightarrow> graph_ok g \<Longrightarrow> tarjan_inv g K (tarjan_step g s)"
  using inv_visit_edge inv_leave_node by (auto simp: tarjan_step_def split: list.split)

end
