(* ===== verification/DestructGraphThms.thy ===== *)
theory DestructGraphThms
  imports TarjanRun "HOL-Library.Multiset"
begin

text \<open>
  Tarjan's algorithm ends with the strongly connected components of the destruction graph, and objects are
  queued in a topological order of the components.
\<close>

section \<open>The search ends\<close>

definition search_order :: "dgraph \<Rightarrow> (tarjan_data \<times> tarjan_data) set" where
  "search_order g = measures [\<lambda>s. length (d_nodeArray g) - card (dom (tarjanIdx s)),
     \<lambda>s. sum_list (map (\<lambda>fr. fr_end fr - fr_edge fr + 1) (dfsStack s))]"

lemma wf_search_order: "wf (search_order g)"
  by (simp add: search_order_def)

lemma card_grows:
  assumes "A \<subseteq> {..<n}" and "v < n" and "v \<notin> A"
  shows "n - card (insert v A) < n - card A"
proof -
  have "A \<subset> {..<n}" using assms by blast
  then have "card A < n" using psubset_card_mono [of "{..<n}" A] by simp
  then show ?thesis using assms finite_subset [OF assms(1)] by simp
qed

lemma step_decreases:
  assumes inv: "tarjan_inv g K s" and g: "graph_ok g" and ne: "dfsStack s \<noteq> []"
  shows "(tarjan_step g s, s) \<in> search_order g"
proof -
  obtain fr frs where st: "dfsStack s = fr # frs" using ne by (cases "dfsStack s") auto
  show ?thesis
  proof (cases "fr_edge fr < fr_end fr")
    case True
    define dst where "dst = snd (d_sortedEdges g ! fr_edge fr)"
    have n: "dst < length (d_nodeArray g)" using visit_edge_facts(2) [OF inv g st True] by (simp add: dst_def)
    have step: "tarjan_step g s = visit_edge g fr frs s" using st True by (simp add: tarjan_step_def)
    show ?thesis
    proof (cases "tarjanIdx s dst")
      case None
      then have "dst \<notin> dom (tarjanIdx s)" by blast
      from card_grows [OF inv_path(4) [OF inv] n this]
      show ?thesis using None by (simp add: step visit_edge_def dst_def Let_def discover_def search_order_def)
    next
      case (Some k)
      then show ?thesis using True st
        by (cases "sccIdx s dst") (auto simp: step visit_edge_def dst_def Let_def lower_def search_order_def)
    qed
  next
    case False
    then show ?thesis using st
      by (simp add: tarjan_step_def leave_node_def Let_def lower_def close_component_def search_order_def
          split: list.split prod.split)
  qed
qed

section \<open>Components are only added\<close>

definition extends :: "tarjan_data \<Rightarrow> tarjan_data \<Rightarrow> bool" where
  "extends s s' \<longleftrightarrow> length (sccBases s) \<le> length (sccBases s') \<and> dom (tarjanIdx s) \<subseteq> dom (tarjanIdx s') \<and>
     (\<forall>v k. sccIdx s v = Some k \<longrightarrow> sccIdx s' v = Some k) \<and>
     (\<forall>v k. sccIdx s v = None \<longrightarrow> sccIdx s' v = Some k \<longrightarrow> length (sccBases s) \<le> k)"

lemma extends_refl [simp]: "extends s s"
  by (simp add: extends_def)

lemma extends_trans: "extends s t \<Longrightarrow> extends t u \<Longrightarrow> extends s u"
  unfolding extends_def by (metis le_trans not_Some_eq subset_trans)

lemma extends_discover: "extends s (discover g v s)"
  by (auto simp: extends_def discover_def)

lemma extends_step:
  assumes inv: "tarjan_inv g K s"
  shows "extends s (tarjan_step g s)"
proof (cases "dfsStack s")
  case (Cons fr frs)
  show ?thesis
  proof (cases "fr_edge fr < fr_end fr")
    case True
    then show ?thesis using Cons
      by (auto simp: tarjan_step_def visit_edge_def Let_def extends_def discover_def lower_def split: option.split)
  next
    case False
    obtain c st where c: "pop_component (fr_node fr) (tarjanStack s) = (c, st)" by fastforce
    have "fr_node fr \<in> set (tarjanStack s)" using inv_path(2) [OF inv] Cons by simp
    then have "set c \<subseteq> set (tarjanStack s)" using pop_component_split [OF _ c] by auto
    then have n: "sccIdx s v = None" if "v \<in> set c" for v using inv_path(7) [OF inv] that by auto
    show ?thesis using False Cons n
      by (auto simp: tarjan_step_def leave_node_def Let_def lower_def close_component_def c extends_def split: list.split)
  qed
qed (simp add: tarjan_step_def)

section \<open>The search from the candidates\<close>

lemma dfs_total:
  assumes inv: "tarjan_inv g K s" and g: "graph_ok g"
  shows "\<exists>t. tarjan_dfs g s = Some t \<and> tarjan_inv g K t \<and> dfsStack t = [] \<and> extends s t"
proof -
  have "\<exists>t. while_option (\<lambda>s. dfsStack s \<noteq> []) (tarjan_step g) s = Some t"
    by (rule wf_rel_while_option_Some [where P = "tarjan_inv g K", OF wf_search_order [of g]])
      (use inv g step_decreases inv_step in auto)
  then obtain t where t: "while_option (\<lambda>s. dfsStack s \<noteq> []) (tarjan_step g) s = Some t" by blast
  have "tarjan_inv g K t \<and> extends s t"
    by (rule while_option_rule [where P = "\<lambda>t. tarjan_inv g K t \<and> extends s t", OF _ t])
      (use inv g inv_step extends_step extends_trans in auto)
  then show ?thesis using t while_option_stop [OF t] by (simp add: tarjan_dfs_def)
qed

lemma inv_more: "tarjan_inv g K s \<Longrightarrow> K \<subseteq> K' \<Longrightarrow> tarjan_inv g K' s"
  unfolding tarjan_inv_def tinv_def reach_inv_def by blast

lemma stack_empty: "tarjan_inv g K s \<Longrightarrow> dfsStack s = [] \<Longrightarrow> tarjanStack s = []"
  by (auto simp: tarjan_inv_def tinv_def reach_inv_def)

lemma inv_discover:
  assumes inv: "tarjan_inv g K s" and g: "graph_ok g" and st: "dfsStack s = []" and i: "tarjanIdx s i = None"
    and n: "i < length (d_nodeArray g)"
  shows "tarjan_inv g (insert i K) (discover g i s)"
proof -
  have t: "tinv (edges g) K (followed g s) (tarjanIdx s) (lowlinkIdx s) (tarjanStack s) [] (dom (sccIdx s)) (dfsCounter s)"
    using inv st by (simp add: tarjan_inv_def)
  have X: "followed g (discover g i s) = (followed g s)(i := {})"
    by (simp add: followed_def discover_def st fun_eq_iff)
  have "tinv (edges g) (insert i K) (followed g (discover g i s)) ((tarjanIdx s)(i := Some (dfsCounter s)))
      ((lowlinkIdx s)(i := Some (dfsCounter s))) (i # tarjanStack s) [i] (dom (sccIdx s)) (dfsCounter s + 1)"
    using tinv_discover [OF t i, of "followed g (discover g i s)"] X by simp
  then have "tinv (edges g) (insert i K) (followed g (discover g i s)) (tarjanIdx (discover g i s))
      (lowlinkIdx (discover g i s)) (tarjanStack (discover g i s)) (path (discover g i s))
      (dom (sccIdx (discover g i s))) (dfsCounter (discover g i s))"
    by (simp add: discover_def st)
  moreover have "d_edgeBase g ! i \<le> d_edgeBase g ! Suc i" using g n by (simp add: graph_ok_def Let_def)
  then have "frames_ok g (discover g i s)"
    using inv st n by (auto simp: tarjan_inv_def frames_ok_def discover_def)
  moreover have "\<exists>cs. comps_ok g (discover g i s) cs"
    using inv by (auto simp: tarjan_inv_def comps_ok_def discover_def)
  ultimately show ?thesis by (simp add: tarjan_inv_def)
qed

lemma seed_total:
  assumes inv: "tarjan_inv g K s" and g: "graph_ok g" and st: "dfsStack s = []" and n: "i < length (d_nodeArray g)"
  obtains t where "tarjan_seed g i s = Some t" and "tarjan_inv g (insert i K) t" and "dfsStack t = []"
    and "extends s t" and "i \<in> dom (tarjanIdx t)"
proof (cases "tarjanIdx s i")
  case None
  obtain t where t: "tarjan_dfs g (discover g i s) = Some t" "tarjan_inv g (insert i K) t" "dfsStack t = []"
    "extends (discover g i s) t"
    using dfs_total [OF inv_discover [OF inv g st None n] g] by blast
  have "extends s t" using extends_discover t(4) by (rule extends_trans)
  moreover have "i \<in> dom (tarjanIdx t)" using t(4) by (auto simp: extends_def discover_def)
  ultimately show ?thesis using that t None by (simp add: tarjan_seed_def)
next
  case (Some k)
  then show ?thesis using that [of s] inv_more [OF inv, of "insert i K"] st by (auto simp: tarjan_seed_def)
qed

lemma seeds_total:
  assumes "tarjan_inv g K s" and g: "graph_ok g" and "dfsStack s = []" and "set is \<subseteq> {..<length (d_nodeArray g)}"
  shows "\<exists>t. tarjan_seeds g is s = Some t \<and> tarjan_inv g (K \<union> set is) t \<and> dfsStack t = [] \<and> extends s t \<and>
    set is \<subseteq> dom (tarjanIdx t)"
  using assms
proof (induction "is" arbitrary: K s)
  case (Cons i "is")
  have n: "i < length (d_nodeArray g)" using Cons.prems(4) by simp
  obtain u where u: "tarjan_seed g i s = Some u" "tarjan_inv g (insert i K) u" "dfsStack u = []" "extends s u"
    "i \<in> dom (tarjanIdx u)"
    using seed_total [OF Cons.prems(1,2,3) n] by metis
  obtain t where t: "tarjan_seeds g is u = Some t" "tarjan_inv g (insert i K \<union> set is) t" "dfsStack t = []" "extends u t"
    "set is \<subseteq> dom (tarjanIdx t)"
    using Cons.IH [OF u(2) g u(3)] Cons.prems(4) by auto
  have "i \<in> dom (tarjanIdx t)" using u(5) t(4) by (auto simp: extends_def)
  then show ?case using u(1) t extends_trans [OF u(4) t(4)] by simp
qed simp

lemma seeds_append: "tarjan_seeds g (xs @ ys) s = Option.bind (tarjan_seeds g xs s) (tarjan_seeds g ys)"
  by (induction xs arbitrary: s) (auto split: bind_splits)

lemma inv_init: "tarjan_inv g {} tarjan_init"
  using tinv_init by (auto simp: tarjan_inv_def tarjan_init_def frames_ok_def comps_ok_def bases_def intro!: exI [of _ "[]"])

section \<open>The components\<close>

definition graph_state :: "dgraph \<Rightarrow> nat list list \<Rightarrow> tarjan_data \<Rightarrow> bool" where
  "graph_state g cs s \<longleftrightarrow> comps_ok g s cs \<and> tarjanStack s = [] \<and> dom (tarjanIdx s) = dom (sccIdx s)"

lemma inv_graph_state: "tarjan_inv g K s \<Longrightarrow> dfsStack s = [] \<Longrightarrow> \<exists>cs. graph_state g cs s"
  using stack_empty [of g K s] inv_path(6) [of g K s] by (auto simp: graph_state_def tarjan_inv_def)

lemma comps_reach:
  assumes "comps_ok g s cs" and "sccIdx s u = Some i" and "reaches g u v"
  shows "\<exists>j\<le>i. sccIdx s v = Some j"
  using assms(3) unfolding reaches_def
proof (induction rule: rtrancl_induct)
  case base
  then show ?case using assms(2) by blast
next
  case (step v w)
  then obtain j where j: "j \<le> i" "sccIdx s v = Some j" by blast
  then have "j < length cs" "v \<in> set (cs ! j)" using assms(1) by (simp_all add: comps_ok_def)
  then obtain k where "k \<le> j" "w \<in> set (cs ! k)" using assms(1) step.hyps(2) unfolding comps_ok_def by blast
  then have "sccIdx s w = Some k" "k \<le> i" using assms(1) \<open>j < length cs\<close> j(1) by (simp_all add: comps_ok_def)
  then show ?case by blast
qed

lemma comps_scc:
  assumes "comps_ok g s cs" and "sccIdx s u = Some i" and "sccIdx s v = Some j"
  shows "i = j \<longleftrightarrow> reaches g u v \<and> reaches g v u"
proof
  assume "i = j"
  then have "i < length cs" "u \<in> set (cs ! i)" "v \<in> set (cs ! i)" using assms by (simp_all add: comps_ok_def)
  then show "reaches g u v \<and> reaches g v u" using assms(1) unfolding comps_ok_def by (meson nth_mem)
next
  assume "reaches g u v \<and> reaches g v u"
  then show "i = j" using comps_reach [OF assms(1,2), of v] comps_reach [OF assms(1,3), of u] assms(2,3) by auto
qed

text \<open>Where the search stands between two candidates.\<close>

lemma tarjan_total:
  assumes g: "graph_ok g"
  shows "\<exists>s cs. tarjan g = Some (s\<lparr>sccBases := sccBases s @ [length (sccNodes s)]\<rparr>) \<and> graph_state g cs s \<and>
    tarjan_inv g {..<d_destructCount g} s \<and> {..<d_destructCount g} \<subseteq> dom (sccIdx s) \<and>
    tarjan_seeds g [0..<d_destructCount g] tarjan_init = Some s"
proof -
  have n: "set [0..<d_destructCount g] \<subseteq> {..<length (d_nodeArray g)}" using g by (auto simp: graph_ok_def Let_def)
  have i: "dfsStack tarjan_init = []" by (simp add: tarjan_init_def)
  obtain t where t: "tarjan_seeds g [0..<d_destructCount g] tarjan_init = Some t" "tarjan_inv g {..<d_destructCount g} t"
    "dfsStack t = []" "{..<d_destructCount g} \<subseteq> dom (tarjanIdx t)"
    using seeds_total [OF inv_init g i n] by (auto simp: atLeast0LessThan)
  obtain cs where cs: "graph_state g cs t" using inv_graph_state [OF t(2,3)] by blast
  have "{..<d_destructCount g} \<subseteq> dom (sccIdx t)" using cs t(4) by (simp add: graph_state_def)
  then have "tarjan g = Some (t\<lparr>sccBases := sccBases t @ [length (sccNodes t)]\<rparr>) \<and> graph_state g cs t \<and>
      tarjan_inv g {..<d_destructCount g} t \<and> {..<d_destructCount g} \<subseteq> dom (sccIdx t) \<and>
      tarjan_seeds g [0..<d_destructCount g] tarjan_init = Some t"
    using t cs by (simp add: tarjan_def)
  then show ?thesis by blast
qed

text \<open>A candidate that no candidate up to \<open>i\<close> reaches gets a later component than \<open>i\<close>.\<close>

lemma later_component:
  assumes g: "graph_ok g" and s: "tarjan_seeds g [0..<d_destructCount g] tarjan_init = Some s"
    and i: "i < j" "j < d_destructCount g" and r: "\<forall>k\<le>i. \<not> reaches g k j"
    and c: "sccIdx s i = Some a" "sccIdx s j = Some b"
  shows "a < b"
proof -
  let ?n = "d_destructCount g"
  have n: "set [0..<Suc i] \<subseteq> {..<length (d_nodeArray g)}" "set [Suc i..<?n] \<subseteq> {..<length (d_nodeArray g)}"
    using g i by (auto simp: graph_ok_def Let_def)
  have di: "dfsStack tarjan_init = []" by (simp add: tarjan_init_def)
  have split: "[0..<?n] = [0..<Suc i] @ [Suc i..<?n]" using i upt_add_eq_append [of 0 "Suc i" "?n - Suc i"] by simp
  obtain u where u: "tarjan_seeds g [0..<Suc i] tarjan_init = Some u" "tarjan_inv g (set [0..<Suc i]) u" "dfsStack u = []"
    "set [0..<Suc i] \<subseteq> dom (tarjanIdx u)"
    using seeds_total [OF inv_init g di n(1)] by auto
  have s': "tarjan_seeds g [Suc i..<?n] u = Some s" using s unfolding split seeds_append u(1) by simp
  have e: "extends u s" using seeds_total [OF u(2) g u(3) n(2)] s' by auto
  obtain cs where cs: "graph_state g cs u" using inv_graph_state [OF u(2,3)] by blast
  have "sccIdx u i \<noteq> None" using u(4) cs by (auto simp: graph_state_def)
  then have a: "sccIdx u i = Some a" using e c(1) unfolding extends_def by (metis not_Some_eq option.inject)
  have "j \<notin> dom (tarjanIdx u)"
  proof
    assume "j \<in> dom (tarjanIdx u)"
    then obtain k where "k \<in> set [0..<Suc i]" "(k, j) \<in> (edges g)\<^sup>*"
      using u(2) unfolding tarjan_inv_def tinv_def reach_inv_def by blast
    then show False using r by (auto simp: reaches_def)
  qed
  then have "sccIdx u j = None" using cs by (auto simp: graph_state_def)
  then have "length (sccBases u) \<le> b" using e c(2) unfolding extends_def by blast
  moreover have "a < length cs" "length (sccBases u) = length cs" using a cs by (simp_all add: graph_state_def comps_ok_def)
  ultimately show ?thesis by simp
qed

section \<open>The order of the queue\<close>

lemma component_nth:
  assumes "sccNodes s = concat cs" and "sccBases s = bases cs @ [length (concat cs)]" and "i < length cs"
  shows "component s i = cs ! i"
proof -
  have b: "(bases cs @ [length (concat cs)]) ! k = length (concat (take k cs))" if "k \<le> length cs" for k
    using that by (auto simp: bases_def nth_append)
  have "concat cs = concat (take i cs) @ cs ! i @ concat (drop (Suc i) cs)"
    using assms(3) by (metis append_assoc append_take_drop_id concat.simps(2) concat_append Cons_nth_drop_Suc)
  moreover have "concat (take (Suc i) cs) = concat (take i cs) @ cs ! i" using assms(3) by (simp add: take_Suc_conv_app_nth)
  ultimately show ?thesis
    using b [of i] b [of "Suc i"] assms by (simp add: component_def)
qed

text \<open>The candidates of a component, as \<^verbatim>\<open>emit\<close> orders them.\<close>

definition ordered :: "dgraph \<Rightarrow> nat list \<Rightarrow> nat list" where
  "ordered g c = rev (sort (filter (\<lambda>k. k < d_destructCount g) c))"

lemma emit_component_ordered: "emit_component g c = map (\<lambda>k. d_nodeArray g ! k) (ordered g c)"
proof -
  have "length cs \<le> 1 \<Longrightarrow> rev (sort cs) = cs" for cs :: "nat list" by (cases cs rule: list.exhaust) auto
  then show ?thesis by (simp add: emit_component_def ordered_def Let_def)
qed

lemma emit_from_comps:
  assumes "\<And>i. i < n \<Longrightarrow> component s i = cs ! i" and "n \<le> length cs"
  shows "emit_from g s n = map (\<lambda>k. d_nodeArray g ! k) (concat (map (ordered g) (rev (take n cs))))"
  using assms by (induction n) (auto simp: take_Suc_conv_app_nth emit_component_ordered)

definition before :: "'a list \<Rightarrow> 'a \<Rightarrow> 'a \<Rightarrow> bool" where
  "before xs a b \<longleftrightarrow> (\<exists>us vs ws. xs = us @ a # vs @ b # ws)"

lemma before_appendI: "a \<in> set xs \<Longrightarrow> b \<in> set ys \<Longrightarrow> before (xs @ ys) a b"
  unfolding before_def by (metis append.assoc append_Cons split_list)

lemma before_more: "before xs a b \<Longrightarrow> before (us @ xs @ ws) a b"
  unfolding before_def by (metis append.assoc append_Cons)

lemma before_concat:
  assumes "i < j" and "j < length xss" and "a \<in> set (xss ! i)" and "b \<in> set (xss ! j)"
  shows "before (concat xss) a b"
proof -
  have "concat xss = concat (take j xss) @ concat (drop j xss)" by (metis append_take_drop_id concat_append)
  moreover have "xss ! i \<in> set (take j xss)" using assms(1,2) by (metis in_set_conv_nth length_take min_less_iff_conj nth_take less_trans)
  then have "a \<in> set (concat (take j xss))" using assms(3) by auto
  moreover have "b \<in> set (concat (drop j xss))" using assms by (auto simp: Cons_nth_drop_Suc [symmetric])
  ultimately show ?thesis using before_appendI by metis
qed

lemma before_sorted: "sorted_wrt P xs \<Longrightarrow> a \<in> set xs \<Longrightarrow> b \<in> set xs \<Longrightarrow> \<not> P b a \<Longrightarrow> a \<noteq> b \<Longrightarrow> before xs a b"
proof (induction xs)
  case (Cons x xs)
  show ?case
  proof (cases "a = x")
    case True
    then have "b \<in> set xs" using Cons.prems by auto
    then show ?thesis using before_appendI [of a "[x]" b xs] True by simp
  next
    case False
    then have "b \<noteq> x" using Cons.prems by auto
    then have "before xs a b" using Cons False by auto
    then show ?thesis using before_more [of xs a b "[x]" "[]"] by simp
  qed
qed simp

lemma order_of_comps:
  assumes c: "comps_ok g s cs" and d: "{..<d_destructCount g} \<subseteq> dom (sccIdx s)"
  defines "order \<equiv> concat (map (ordered g) (rev cs))"
  shows "distinct order" and "set order = {..<d_destructCount g}"
    and "i < d_destructCount g \<Longrightarrow> j < d_destructCount g \<Longrightarrow> sccIdx s i = Some a \<Longrightarrow> sccIdx s j = Some b \<Longrightarrow> b < a \<Longrightarrow> before order i j"
    and "i < d_destructCount g \<Longrightarrow> sccIdx s i = Some a \<Longrightarrow> sccIdx s j = Some a \<Longrightarrow> j < i \<Longrightarrow> before order i j"
proof -
  have cs: "distinct (concat cs)" "\<And>v k. sccIdx s v = Some k \<longleftrightarrow> k < length cs \<and> v \<in> set (cs ! k)"
    using c unfolding comps_ok_def by blast+
  have "mset order = mset (filter (\<lambda>k. k < d_destructCount g) (concat cs))"
    unfolding order_def ordered_def by (induction cs) simp_all
  then have m: "distinct order = distinct (filter (\<lambda>k. k < d_destructCount g) (concat cs))"
    "set order = set (filter (\<lambda>k. k < d_destructCount g) (concat cs))"
    using mset_eq_imp_distinct_iff mset_eq_setD by blast+
  show "distinct order" using m(1) cs(1) by simp
  have "v \<in> set (concat cs)" if "v < d_destructCount g" for v
  proof -
    obtain k where "sccIdx s v = Some k" using d \<open>v < d_destructCount g\<close> by blast
    then have "k < length cs" "v \<in> set (cs ! k)" using cs(2) by simp_all
    then show ?thesis by auto
  qed
  then show "set order = {..<d_destructCount g}" unfolding m(2) by auto
  have o: "v \<in> set (map (ordered g) (rev cs) ! (length cs - Suc k))" if "v < d_destructCount g" "sccIdx s v = Some k" for v k
  proof -
    have k: "k < length cs" "v \<in> set (cs ! k)" using that cs(2) by simp_all
    then have "length cs - Suc k < length cs" "length cs - Suc (length cs - Suc k) = k" by simp_all
    then show ?thesis using k that(1) by (simp add: rev_nth ordered_def)
  qed
  have l: "k < length cs" if "sccIdx s v = Some k" for v k using that cs(2) by simp
  show "before order i j" if "i < d_destructCount g" "j < d_destructCount g" "sccIdx s i = Some a" "sccIdx s j = Some b" "b < a"
    unfolding order_def
    by (rule before_concat [OF _ _ o [OF that(1,3)] o [OF that(2,4)]]) (use l [OF that(3)] l [OF that(4)] that(5) in auto)
  show "before order i j" if a: "i < d_destructCount g" "sccIdx s i = Some a" "sccIdx s j = Some a" "j < i"
  proof -
    let ?c = "ordered g (cs ! a)"
    have "i \<in> set ?c" "j \<in> set ?c" using a cs(2) [of _ a] by (simp_all add: ordered_def)
    moreover have "sorted_wrt (\<lambda>x y. y \<le> x) ?c" by (simp add: ordered_def sorted_wrt_rev)
    ultimately have "before ?c i j" using before_sorted [of "\<lambda>x y. y \<le> x" ?c i j] a(4) by simp
    moreover have "?c \<in> set (map (ordered g) (rev cs))" using l [OF a(2)] by simp
    then obtain xs ys where "map (ordered g) (rev cs) = xs @ ?c # ys" by (meson split_list)
    then have "order = concat xs @ ?c @ concat ys" by (simp add: order_def)
    ultimately show ?thesis using before_more by simp
  qed
qed

text \<open>C31: Tarjan's algorithm ends on every well-formed graph, and computes its strongly connected components:
  every candidate gets one, and two nodes that have one have the same if and only if each reaches the
  other.\<close>

theorem tarjan_components:
  assumes "graph_ok g"
  shows "\<exists>s. tarjan g = Some s \<and> {..<d_destructCount g} \<subseteq> dom (sccIdx s) \<and>
    (\<forall>u\<in>dom (sccIdx s). \<forall>v\<in>dom (sccIdx s). sccIdx s u = sccIdx s v \<longleftrightarrow> reaches g u v \<and> reaches g v u)"
proof -
  obtain s cs where s: "tarjan g = Some (s\<lparr>sccBases := sccBases s @ [length (sccNodes s)]\<rparr>)" "graph_state g cs s"
    "{..<d_destructCount g} \<subseteq> dom (sccIdx s)"
    using tarjan_total [OF assms] by blast
  have "comps_ok g s cs" using s(2) by (simp add: graph_state_def)
  then have "sccIdx s u = sccIdx s v \<longleftrightarrow> reaches g u v \<and> reaches g v u" if "u \<in> dom (sccIdx s)" "v \<in> dom (sccIdx s)" for u v
    using that comps_scc by fastforce
  then show ?thesis using s(1,3) by auto
qed

lemma emit_comps:
  assumes "graph_ok g"
  shows "\<exists>s cs. tarjan g = Some (s\<lparr>sccBases := sccBases s @ [length (sccNodes s)]\<rparr>) \<and> comps_ok g s cs \<and>
    {..<d_destructCount g} \<subseteq> dom (sccIdx s) \<and> tarjan_seeds g [0..<d_destructCount g] tarjan_init = Some s \<and>
    emit g (s\<lparr>sccBases := sccBases s @ [length (sccNodes s)]\<rparr>) q =
      q @ map (\<lambda>k. iface_of (d_nodeArray g ! k)) (concat (map (ordered g) (rev cs)))"
proof -
  obtain s cs where s: "tarjan g = Some (s\<lparr>sccBases := sccBases s @ [length (sccNodes s)]\<rparr>)" "graph_state g cs s"
    "{..<d_destructCount g} \<subseteq> dom (sccIdx s)" "tarjan_seeds g [0..<d_destructCount g] tarjan_init = Some s"
    using tarjan_total [OF assms] by blast
  let ?s = "s\<lparr>sccBases := sccBases s @ [length (sccNodes s)]\<rparr>"
  have c: "comps_ok g s cs" using s(2) by (simp add: graph_state_def)
  have n: "sccNodes ?s = concat cs" "sccBases ?s = bases cs @ [length (concat cs)]" using c by (simp_all add: comps_ok_def)
  have "emit_from g ?s (length cs) = map (\<lambda>k. d_nodeArray g ! k) (concat (map (ordered g) (rev cs)))"
    using emit_from_comps [of "length cs" ?s cs g] component_nth [OF n] by simp
  then have "emit g ?s q = q @ map (\<lambda>k. iface_of (d_nodeArray g ! k)) (concat (map (ordered g) (rev cs)))"
    by (simp add: emit_def n(2) comp_def)
  then show ?thesis using s c by blast
qed

text \<open>C29: Objects are queued for destruction in topological order. Every candidate is queued once, after what
  was in the queue: before the candidates it reaches, unless they reach it too; the candidates of a loop in
  order from the last to the first; and a candidate that no other candidate up to a given one reaches
  before that one, so that unrelated objects are destroyed latest first.\<close>

theorem destruction_order:
  assumes "graph_ok g"
  shows "\<exists>s order. tarjan g = Some s \<and> emit g s q = q @ map (\<lambda>k. iface_of (d_nodeArray g ! k)) order \<and>
    distinct order \<and> set order = {..<d_destructCount g} \<and>
    (\<forall>i<d_destructCount g. \<forall>j<d_destructCount g.
       (reaches g i j \<and> \<not> reaches g j i \<longrightarrow> before order i j) \<and>
       (reaches g i j \<and> reaches g j i \<and> j < i \<longrightarrow> before order i j) \<and>
       (i < j \<and> (\<forall>k\<le>i. \<not> reaches g k j) \<longrightarrow> before order j i))"
proof -
  obtain s cs where s: "tarjan g = Some (s\<lparr>sccBases := sccBases s @ [length (sccNodes s)]\<rparr>)" "comps_ok g s cs"
    "{..<d_destructCount g} \<subseteq> dom (sccIdx s)" "tarjan_seeds g [0..<d_destructCount g] tarjan_init = Some s"
    and e: "emit g (s\<lparr>sccBases := sccBases s @ [length (sccNodes s)]\<rparr>) q =
      q @ map (\<lambda>k. iface_of (d_nodeArray g ! k)) (concat (map (ordered g) (rev cs)))"
    using emit_comps [OF assms] by blast
  note c = s(2)
  let ?order = "concat (map (ordered g) (rev cs))"
  note o = order_of_comps [OF c s(3)]
  have "(reaches g i j \<and> \<not> reaches g j i \<longrightarrow> before ?order i j) \<and>
      (reaches g i j \<and> reaches g j i \<and> j < i \<longrightarrow> before ?order i j) \<and>
      (i < j \<and> (\<forall>k\<le>i. \<not> reaches g k j) \<longrightarrow> before ?order j i)"
    if ij: "i < d_destructCount g" "j < d_destructCount g" for i j
  proof -
    obtain a b where ab: "sccIdx s i = Some a" "sccIdx s j = Some b" using s(3) ij by blast
    have "b < a" if "reaches g i j" "\<not> reaches g j i"
      using comps_reach [OF c ab(1) that(1)] comps_scc [OF c ab] that ab(2) by auto
    moreover have "a = b" if "reaches g i j" "reaches g j i" using comps_scc [OF c ab] that by blast
    moreover have "a < b" if "i < j" "\<forall>k\<le>i. \<not> reaches g k j" using later_component [OF assms s(4) that(1) ij(2) that(2) ab] .
    ultimately show ?thesis using o(3) [OF ij ab] o(3) [OF ij(2,1) ab(2,1)] o(4) [OF ij(1), of a j] ab by auto
  qed
  then show ?thesis using s(1) e o(1,2) by blast
qed

end
