(* ===== verification/DestructBuild.thy ===== *)
theory DestructBuild
  imports DestructGraphThms
begin

text \<open>
  Marking in the state \<^verbatim>\<open>State_BuildDestructGraph\<close>: the operations of \<^verbatim>\<open>GcHeap\<close> that also add edges
  to the destruction graph, and \<^verbatim>\<open>DestructGraph::build\<close>. A root carries the node that was scanned when it
  was found.
\<close>

section \<open>The state\<close>

record bstate =
  b_fl :: "addr \<Rightarrow> box_flag set"
  b_roots :: "(nat \<times> addr \<times> gtype) list"
  b_graph :: dgraph

definition current :: "bstate \<Rightarrow> nat" where
  "current s = the (d_currentNode (b_graph s))"

definition set_current :: "nat \<Rightarrow> bstate \<Rightarrow> bstate" where
  "set_current n s = s\<lparr>b_graph := (b_graph s)\<lparr>d_currentNode := Some n\<rparr>\<rparr>"

definition flags_b :: "addr \<Rightarrow> box_flag set \<Rightarrow> bstate \<Rightarrow> bstate" where
  "flags_b b F s = s\<lparr>b_fl := (b_fl s)(b := b_fl s b \<union> F)\<rparr>"

definition edge_b :: "nat \<Rightarrow> addr \<Rightarrow> bstate \<Rightarrow> nat \<times> bstate" where
  "edge_b parent b s = (let (node, g) = addEdge parent b (b_graph s) in (node, s\<lparr>b_graph := g\<rparr>))"

definition root_b :: "nat \<Rightarrow> addr \<Rightarrow> gtype \<Rightarrow> bstate \<Rightarrow> bstate" where
  "root_b parent p t s = s\<lparr>b_roots := b_roots s @ [(parent, p, t)]\<rparr>"

definition rootArray_b :: "nat \<Rightarrow> addr \<Rightarrow> gtype \<Rightarrow> nat \<Rightarrow> bstate \<Rightarrow> bstate" where
  "rootArray_b parent p0 t n s =
     s\<lparr>b_roots := b_roots s @ map (\<lambda>i. (parent, p0 + gsize t * of_nat i, t)) [0..<n]\<rparr>"

section \<open>Marking a box\<close>

definition weakMark_b :: "gcmem \<Rightarrow> addr \<Rightarrow> bstate \<Rightarrow> bstate" where
  "weakMark_b m b s =
     (let s1 = flags_b b {WeakMark} s
      in if rootOffset m b \<noteq> 0 then flags_b (b - rootOffset m b) {WeakMark} s1 else s1)"

definition markData_b :: "gcmem \<Rightarrow> addr \<Rightarrow> bstate \<Rightarrow> bstate" where
  "markData_b m b s =
     (let s0 = weakMark_b m b s; (node, s1) = edge_b (current s0) b s0; t = btype m b
      in if DataMark \<in> b_fl s1 b then s1
         else let s2 = flags_b b {DataMark} s1
           in if \<not> gcroot t \<or> Invalid \<in> b_fl s2 b then s2
              else if is_class t then root_b node b t s2
              else if DynamicArray \<notin> b_fl s2 b then root_b node (data_of b) t s2
              else rootArray_b node (data_of b) t (getDynamicArrayElementCount m b) s2)"

definition markDataPtr_b :: "gcmem \<Rightarrow> addr \<Rightarrow> bstate \<Rightarrow> bstate" where
  "markDataPtr_b m p s =
     (let validator = ld m (p + 8)
      in if validator = 0 then s else markData_b m (ld m (validator + 8)) (weakMark_b m (ld m validator) s))"

fun markClassFields_b :: "gtype \<Rightarrow> nat \<Rightarrow> addr \<Rightarrow> bstate \<Rightarrow> bstate"
  and markBases_b :: "(addr \<times> gtype) list \<Rightarrow> nat \<Rightarrow> addr \<Rightarrow> bstate \<Rightarrow> bstate"
  and markFields_b :: "(addr \<times> gtype) list \<Rightarrow> nat \<Rightarrow> addr \<Rightarrow> bstate \<Rightarrow> bstate" where
  "markClassFields_b (GClass k n d bs fs a) = (\<lambda>parent iface s. markFields_b fs parent iface (markBases_b bs parent iface s))"
| "markClassFields_b _ = (\<lambda>parent iface s. s)"
| "markBases_b [] = (\<lambda>parent iface s. s)"
| "markBases_b ((off, t) # bs) = (\<lambda>parent iface s.
     markBases_b bs parent iface (if is_class t then markClassFields_b t parent (iface + off) s else s))"
| "markFields_b [] = (\<lambda>parent iface s. s)"
| "markFields_b ((off, t) # fs) = (\<lambda>parent iface s.
     markFields_b fs parent iface
       (if is_class t
        then (case edge_b parent (iface + off) s of (node, s1) \<Rightarrow>
               if ClassMark \<in> b_fl s1 (iface + off) then s1
               else markClassFields_b t node (iface_of (iface + off)) (flags_b (iface + off) {ClassMark, DataMark, WeakMark} s1))
        else s))"

definition markClass_b :: "gcmem \<Rightarrow> addr \<Rightarrow> bstate \<Rightarrow> bstate" where
  "markClass_b m b s =
     (let (node, s0) = edge_b (current s) b s
      in if ClassMark \<in> b_fl s0 b then s0
         else let t = btype m b;
                  s1 = markClassFields_b t node (iface_of b) (weakMark_b m b s0);
                  s2 = flags_b b {ClassMark, DataMark} s1
              in if gcroot t \<and> Invalid \<notin> b_fl s2 b then root_b node b t s2 else s2)"

definition weakMarkClosureClass_b :: "gcmem \<Rightarrow> addr \<Rightarrow> bstate \<Rightarrow> bstate" where
  "weakMarkClosureClass_b m b s =
     (if ClassMark \<in> b_fl s b \<or> ClosureWeakMark \<in> b_fl s b then s
      else case thisArgFieldIdx (btype m b) of
        None \<Rightarrow> markClass_b m b s
      | Some i \<Rightarrow>
          let s1 = flags_b b {ClosureWeakMark} (weakMark_b m b s)
          in s1\<lparr>b_roots := b_roots s1 @ map (\<lambda>r. (current s1, r)) (closure_roots (btype m b) i (iface_of b))\<rparr>)"

section \<open>Scanning a root\<close>

definition mark_closure_ptr_b :: "gcmem \<Rightarrow> class_kind \<Rightarrow> bool \<Rightarrow> addr \<Rightarrow> bstate \<Rightarrow> bstate" where
  "mark_closure_ptr_b m kind weak p s =
     (let closure = ld m (p + 8); b = m_box m closure
      in if closure = 0 then s
         else if \<not> weak then markClass_b m b s
         else if is_class_kind kind (btype m b) then weakMarkClosureClass_b m b s
         else weakMark_b m b s)"

definition mark_class_ptr_b :: "gcmem \<Rightarrow> bool \<Rightarrow> addr \<Rightarrow> bstate \<Rightarrow> bstate" where
  "mark_class_ptr_b m weak p s =
     (let iface = ld m p
      in if iface = 0 then s else if weak then weakMark_b m (m_box m iface) s else markClass_b m (m_box m iface) s)"

definition mark_scalar_b :: "gcmem \<Rightarrow> scalar \<Rightarrow> addr \<Rightarrow> bstate \<Rightarrow> bstate" where
  "mark_scalar_b m c p s =
     (case c of
        GDataPtr \<Rightarrow> markDataPtr_b m p s
      | GClassPtr w \<Rightarrow> mark_class_ptr_b m w p s
      | GFunctionPtr w \<Rightarrow> mark_closure_ptr_b m FunctionClosure w p s
      | GPropertyPtr w \<Rightarrow> mark_closure_ptr_b m PropertyClosure w p s
      | GString \<Rightarrow> markDataPtr_b m (p + 16) (markDataPtr_b m p s)
      | _ \<Rightarrow> s)"

type_synonym scan_b = "gcmem \<Rightarrow> (addr \<Rightarrow> bstate \<Rightarrow> bstate) \<Rightarrow> addr \<Rightarrow> bstate \<Rightarrow> bstate"

fun mgr_b :: "gtype \<Rightarrow> scan_b" and mgr_impl_b :: "gtype \<Rightarrow> scan_b"
  and mgr_bases_b :: "(addr \<times> gtype) list \<Rightarrow> scan_b" and mgr_fields_b :: "(addr \<times> gtype) list \<Rightarrow> scan_b" where
  "mgr_b (GScalar c) = (\<lambda>m variant p s. mark_scalar_b m c p s)"
| "mgr_b GVariant = (\<lambda>m variant p s. variant p s)"
| "mgr_b (GArray t n) = (\<lambda>m variant p s. rootArray_b (current s) p t n s)"
| "mgr_b (GStruct n bs fs) = (\<lambda>m variant p s. mgr_fields_b fs m variant p (mgr_fields_b bs m variant p s))"
| "mgr_b (GClass k n d bs fs a) = (\<lambda>m variant p s.
     let b = m_box m (iface_of p)
     in if b = 0 then s else if Invalid \<in> b_fl s b then s
        else mgr_impl_b (GClass k n d bs fs a) m variant (iface_of p) s)"
| "mgr_impl_b (GClass k n d bs fs a) = (\<lambda>m variant iface s.
     mgr_fields_b fs m variant iface (mgr_bases_b bs m variant iface s))"
| "mgr_impl_b _ = (\<lambda>m variant iface s. s)"
| "mgr_bases_b [] = (\<lambda>m variant iface s. s)"
| "mgr_bases_b ((off, t) # bs) = (\<lambda>m variant iface s.
     mgr_bases_b bs m variant iface
       (if \<not> gcroot t then s
        else if is_class t then mgr_impl_b t m variant (iface + off) s else mgr_b t m variant (iface + off) s))"
| "mgr_fields_b [] = (\<lambda>m variant p s. s)"
| "mgr_fields_b ((off, t) # fs) = (\<lambda>m variant p s.
     mgr_fields_b fs m variant p (if gcroot t then mgr_b t m variant (p + off) s else s))"

definition markVariant_b :: "gcmem \<Rightarrow> addr \<Rightarrow> bstate \<Rightarrow> bstate" where
  "markVariant_b m p s =
     (case vtype m p of None \<Rightarrow> s | Some t \<Rightarrow> if gcroot t then mgr_b t m (\<lambda>p s. s) p s else s)"

definition markGcRoots_b :: "gcmem \<Rightarrow> gtype \<Rightarrow> addr \<Rightarrow> bstate \<Rightarrow> bstate" where
  "markGcRoots_b m t p s = mgr_b t m (markVariant_b m) p s"

fun scan_roots_b :: "gcmem \<Rightarrow> (nat \<times> addr \<times> gtype) list \<Rightarrow> bstate \<Rightarrow> bstate" where
  "scan_roots_b m [] s = s"
| "scan_roots_b m ((parent, p, t) # rs) s = scan_roots_b m rs (markGcRoots_b m t p (set_current parent s))"

definition runMarkCycle_b :: "gcmem \<Rightarrow> bstate \<Rightarrow> bstate option" where
  "runMarkCycle_b m s = while_option (\<lambda>s. b_roots s \<noteq> []) (\<lambda>s. scan_roots_b m (b_roots s) (s\<lparr>b_roots := []\<rparr>)) s"

section \<open>Building the graph\<close>

text \<open>The counting sort of the \<^verbatim>\<open>axl\<close> library: the edges sorted by source, and for every source up to the
  given one the position of its first edge.\<close>

type_synonym count_sort = "(nat \<times> nat) list \<Rightarrow> nat \<Rightarrow> (nat \<times> nat) list \<times> nat list"

text \<open>The first loops: every candidate gets its node.\<close>

definition build_nodes :: "addr list \<Rightarrow> dgraph \<Rightarrow> dgraph" where
  "build_nodes cs g = fold new_node cs (g\<lparr>d_nodeArray := [], d_nodeMap := (\<lambda>_. None), d_unsortedEdges := []\<rparr>)"

definition mark_candidates :: "gcmem \<Rightarrow> nat \<Rightarrow> bstate \<Rightarrow> bstate" where
  "mark_candidates m n s =
     fold (\<lambda>i s. markClass_b m (d_nodeArray (b_graph s) ! i) (set_current i s)) [0..<n] s"

definition build_edges :: "count_sort \<Rightarrow> nat \<Rightarrow> dgraph \<Rightarrow> dgraph" where
  "build_edges countSort n g =
     (let nodeCount = length (d_nodeArray g); (es, base) = countSort (d_unsortedEdges g) (nodeCount - 1)
      in g\<lparr>d_sortedEdges := es, d_edgeBase := base @ [length (d_unsortedEdges g)], d_destructCount := n\<rparr>)"

definition build :: "count_sort \<Rightarrow> gcmem \<Rightarrow> addr list \<Rightarrow> bstate \<Rightarrow> bstate option" where
  "build countSort m cs s =
     map_option (\<lambda>s. s\<lparr>b_graph := build_edges countSort (length cs) (b_graph s)\<rparr>)
       (runMarkCycle_b m (mark_candidates m (length cs) (s\<lparr>b_graph := build_nodes cs (b_graph s)\<rparr>)))"

text \<open>What \<^verbatim>\<open>collect_l\<close> does with the graph.\<close>

definition destruct_order :: "count_sort \<Rightarrow> gcmem \<Rightarrow> addr list \<Rightarrow> bstate \<Rightarrow> addr list \<Rightarrow> (addr list \<times> bstate) option" where
  "destruct_order countSort m cs s q =
     Option.bind (build countSort m cs s)
       (\<lambda>s. map_option (\<lambda>t. (emit (b_graph s) t q, s\<lparr>b_graph := cleanup (b_graph s)\<rparr>)) (tarjan (b_graph s)))"

end
