(* ===== verification/DestructBuildInv.thy ===== *)
theory DestructBuildInv
  imports DestructBuild
begin

text \<open>
  Building the destruction graph marks exactly as marking without the graph does, and leaves a well-formed
  graph whose first nodes are the candidates.
\<close>

section \<open>The nodes\<close>

definition slot_ok :: "dgraph \<Rightarrow> addr \<Rightarrow> bool" where
  "slot_ok g b =
     (case d_slot g b of
        NoSlot \<Rightarrow> b \<notin> set (d_nodeArray g)
      | IndexSlot i \<Rightarrow> i < length (d_nodeArray g) \<and> d_nodeArray g ! i = b
      | MapSlot \<Rightarrow> \<exists>i. d_nodeMap g b = Some i \<and> i < length (d_nodeArray g) \<and> d_nodeArray g ! i = b)"

definition nodes_ok :: "dgraph \<Rightarrow> bool" where
  "nodes_ok g \<longleftrightarrow> distinct (d_nodeArray g) \<and> (\<forall>b. slot_ok g b) \<and>
     (\<forall>(i, j)\<in>set (d_unsortedEdges g). i < length (d_nodeArray g) \<and> j < length (d_nodeArray g))"

text \<open>Nodes and edges are only added.\<close>

definition graph_grows :: "dgraph \<Rightarrow> dgraph \<Rightarrow> bool" where
  "graph_grows g g' \<longleftrightarrow> (\<exists>ns. d_nodeArray g' = d_nodeArray g @ ns) \<and> (\<exists>es. d_unsortedEdges g' = d_unsortedEdges g @ es)"

lemma graph_grows_refl [simp]: "graph_grows g g"
  by (simp add: graph_grows_def)

lemma graph_grows_trans: "graph_grows g h \<Longrightarrow> graph_grows h k \<Longrightarrow> graph_grows g k"
  by (auto simp: graph_grows_def)

lemma graph_grows_nodes:
  assumes "graph_grows g g'"
  shows "i < length (d_nodeArray g) \<Longrightarrow> i < length (d_nodeArray g')"
    and "i < length (d_nodeArray g) \<Longrightarrow> d_nodeArray g' ! i = d_nodeArray g ! i"
    and "e \<in> set (d_unsortedEdges g) \<Longrightarrow> e \<in> set (d_unsortedEdges g')"
    and "length (d_nodeArray g) \<le> length (d_nodeArray g')"
  using assms by (auto simp: graph_grows_def nth_append)

lemma new_node_simps [simp]:
  "d_nodeArray (new_node b g) = d_nodeArray g @ [b]" "d_unsortedEdges (new_node b g) = d_unsortedEdges g"
  "d_currentNode (new_node b g) = d_currentNode g"
  by (simp_all add: new_node_def Let_def)

lemma new_node_ok:
  assumes "nodes_ok g" and "d_slot g b = NoSlot"
  shows "nodes_ok (new_node b g)"
proof -
  have b: "b \<notin> set (d_nodeArray g)" using assms by (auto simp: nodes_ok_def slot_ok_def dest: spec [of _ b])
  have s: "slot_ok (new_node b g) x" for x
  proof (cases "x = b")
    case False
    have "slot_ok g x" using assms(1) by (simp add: nodes_ok_def)
    then show ?thesis using False by (auto simp: slot_ok_def new_node_def Let_def nth_append split: box_slot.splits)
  qed (simp add: slot_ok_def new_node_def Let_def)
  show ?thesis using assms(1) b s by (auto simp: nodes_ok_def)
qed

lemma getNode_ok:
  assumes "nodes_ok g" and "getNode b g = (i, g')"
  shows "nodes_ok g'" and "i < length (d_nodeArray g')" and "d_nodeArray g' ! i = b" and "graph_grows g g'"
    and "d_currentNode g' = d_currentNode g"
proof -
  have s: "slot_ok g b" using assms(1) by (simp add: nodes_ok_def)
  have "nodes_ok g' \<and> i < length (d_nodeArray g') \<and> d_nodeArray g' ! i = b \<and> graph_grows g g' \<and> d_currentNode g' = d_currentNode g"
  proof (cases "d_slot g b")
    case NoSlot
    then have "i = length (d_nodeArray g)" "g' = new_node b g" using assms(2) by (auto simp: getNode_def)
    then show ?thesis using new_node_ok [OF assms(1) NoSlot] by (simp add: graph_grows_def)
  next
    case (IndexSlot x2)
    then show ?thesis using assms s by (auto simp: getNode_def slot_ok_def)
  next
    case MapSlot
    then show ?thesis using assms s by (auto simp: getNode_def slot_ok_def)
  qed
  then show "nodes_ok g'" "i < length (d_nodeArray g')" "d_nodeArray g' ! i = b" "graph_grows g g'"
    "d_currentNode g' = d_currentNode g" by simp_all
qed

lemma addEdge_ok:
  assumes "nodes_ok g" and "n < length (d_nodeArray g)" and "addEdge n b g = (i, g')"
  shows "nodes_ok g'" and "i < length (d_nodeArray g')" and "d_nodeArray g' ! i = b" and "graph_grows g g'"
    and "d_currentNode g' = d_currentNode g" and "i = n \<or> (n, i) \<in> set (d_unsortedEdges g')"
    and "set (d_unsortedEdges g') \<subseteq> insert (n, i) (set (d_unsortedEdges g))"
proof -
  obtain g1 where g1: "getNode b g = (i, g1)" "g' = add_edge n i g1" using assms(3) by (auto simp: addEdge_def split: prod.splits)
  note k = getNode_ok [OF assms(1) g1(1)]
  have n: "n < length (d_nodeArray g1)" by (rule graph_grows_nodes(1) [OF k(4) assms(2)])
  have u: "d_unsortedEdges g1 = d_unsortedEdges g"
    using g1(1) by (auto simp: getNode_def split: box_slot.splits)
  have sl: "slot_ok g' x = slot_ok g1 x" for x
    by (simp add: g1(2) add_edge_def slot_ok_def split: box_slot.split)
  show "nodes_ok g'" using k(1,2) n sl by (auto simp: nodes_ok_def g1(2) add_edge_def)
  show "i < length (d_nodeArray g')" "d_nodeArray g' ! i = b" "d_currentNode g' = d_currentNode g"
    using k by (simp_all add: g1(2) add_edge_def)
  show "graph_grows g g'" using k(4) by (auto simp: graph_grows_def g1(2) add_edge_def)
  show "i = n \<or> (n, i) \<in> set (d_unsortedEdges g')" "set (d_unsortedEdges g') \<subseteq> insert (n, i) (set (d_unsortedEdges g))"
    by (auto simp: g1(2) add_edge_def u)
qed

section \<open>Marking with and without the graph\<close>

definition erase :: "bstate \<Rightarrow> mstate" where
  "erase s = \<lparr>fl = b_fl s, markRoots = map snd (b_roots s)\<rparr>"

lemma erase_simps [simp]: "fl (erase s) = b_fl s" "markRoots (erase s) = map snd (b_roots s)"
  by (simp_all add: erase_def)

definition binv :: "bstate \<Rightarrow> bool" where
  "binv s \<longleftrightarrow> nodes_ok (b_graph s) \<and> d_currentNode (b_graph s) \<noteq> None \<and> current s < length (d_nodeArray (b_graph s)) \<and>
     (\<forall>(n, r)\<in>set (b_roots s). n < length (d_nodeArray (b_graph s)))"

definition graph_step :: "bstate \<Rightarrow> bstate \<Rightarrow> bool" where
  "graph_step s s' \<longleftrightarrow> binv s' \<and> graph_grows (b_graph s) (b_graph s') \<and> d_currentNode (b_graph s') = d_currentNode (b_graph s)"

text \<open>\<open>h\<close> is \<open>k\<close> with the graph.\<close>

definition tracks :: "(bstate \<Rightarrow> bstate) \<Rightarrow> (mstate \<Rightarrow> mstate) \<Rightarrow> bool" where
  "tracks h k \<longleftrightarrow> (\<forall>s. binv s \<longrightarrow> graph_step s (h s) \<and> erase (h s) = k (erase s))"

lemma tracksD: "tracks h k \<Longrightarrow> binv s \<Longrightarrow> graph_step s (h s)" "tracks h k \<Longrightarrow> binv s \<Longrightarrow> erase (h s) = k (erase s)"
  by (simp_all add: tracks_def)

lemma graph_step_trans: "graph_step s t \<Longrightarrow> graph_step t u \<Longrightarrow> graph_step s u"
  by (auto simp: graph_step_def intro: graph_grows_trans)

lemma tracks_id [simp]: "tracks (\<lambda>s. s) (\<lambda>s. s)"
  by (simp add: tracks_def graph_step_def)

lemma tracks_comp: "tracks h k \<Longrightarrow> tracks h' k' \<Longrightarrow> tracks (\<lambda>s. h' (h s)) (\<lambda>s. k' (k s))"
  unfolding tracks_def by (metis graph_step_def graph_step_trans)

lemma tracks_case:
  assumes "\<And>s. P (erase s) \<Longrightarrow> \<exists>h' k'. tracks h' k' \<and> h s = h' s \<and> k (erase s) = k' (erase s)"
    and "\<And>s. \<not> P (erase s) \<Longrightarrow> \<exists>h' k'. tracks h' k' \<and> h s = h' s \<and> k (erase s) = k' (erase s)"
  shows "tracks h k"
  using assms unfolding tracks_def by metis

lemma tracks_flags: "tracks (flags_b b F) (set_flags b F)"
  by (auto simp: tracks_def flags_b_def set_flags_def erase_def graph_step_def binv_def current_def)

lemma tracks_root: "n < length (d_nodeArray (b_graph s)) \<Longrightarrow> binv s \<Longrightarrow>
    graph_step s (root_b n p t s) \<and> erase (root_b n p t s) = push_root p t (erase s)"
  by (auto simp: root_b_def push_root_def erase_def graph_step_def binv_def current_def)

lemma tracks_rootArray: "n < length (d_nodeArray (b_graph s)) \<Longrightarrow> binv s \<Longrightarrow>
    graph_step s (rootArray_b n p t k s) \<and> erase (rootArray_b n p t k s) = addRootArray p t k (erase s)"
  by (auto simp: rootArray_b_def addRootArray_def erase_def graph_step_def binv_def current_def comp_def)

lemma edge_step:
  assumes "binv s" and "n < length (d_nodeArray (b_graph s))" and "edge_b n b s = (i, s')"
  shows "graph_step s s'" and "erase s' = erase s" and "i < length (d_nodeArray (b_graph s'))" and "b_fl s' = b_fl s"
    and "b_roots s' = b_roots s"
proof -
  obtain g where g: "addEdge n b (b_graph s) = (i, g)" "s' = s\<lparr>b_graph := g\<rparr>"
    using assms(3) by (auto simp: edge_b_def split: prod.splits)
  have ok: "nodes_ok (b_graph s)" using assms(1) by (simp add: binv_def)
  note k = addEdge_ok [OF ok assms(2) g(1)]
  show "graph_step s s'"
    using assms(1) k graph_grows_nodes(1) [OF k(4)] by (auto simp: graph_step_def binv_def g(2) current_def)
  show "erase s' = erase s" "i < length (d_nodeArray (b_graph s'))" "b_fl s' = b_fl s" "b_roots s' = b_roots s"
    using k(2) by (simp_all add: g(2) erase_def)
qed

lemma tracks_weakMark: "tracks (weakMark_b m b) (weakMark m b)"
  unfolding weakMark_b_def [abs_def] weakMark_def [abs_def] Let_def
  using tracks_comp [OF tracks_flags tracks_flags] tracks_flags by (cases "rootOffset m b = 0") simp_all

lemma graph_step_inv: "graph_step s s' \<Longrightarrow> binv s'" "graph_step s s' \<Longrightarrow> n < length (d_nodeArray (b_graph s)) \<Longrightarrow>
    n < length (d_nodeArray (b_graph s'))"
  by (auto simp: graph_step_def intro: graph_grows_nodes(1))

lemma current_ok: "binv s \<Longrightarrow> current s < length (d_nodeArray (b_graph s))"
  by (simp add: binv_def)

lemma tracks_markData: "tracks (markData_b m b) (markData m b)"
  unfolding tracks_def
proof (intro allI impI)
  fix s assume s: "binv s"
  define s0 where "s0 = weakMark_b m b s"
  have s0: "graph_step s s0" "erase s0 = weakMark m b (erase s)" using tracksD [OF tracks_weakMark s] by (simp_all add: s0_def)
  obtain n s1 where e: "edge_b (current s0) b s0 = (n, s1)" by fastforce
  note k = edge_step [OF graph_step_inv(1) [OF s0(1)] current_ok [OF graph_step_inv(1) [OF s0(1)]] e]
  have 1: "graph_step s s1" "erase s1 = weakMark m b (erase s)" "n < length (d_nodeArray (b_graph s1))"
    using graph_step_trans [OF s0(1) k(1)] k(2,3) s0(2) by simp_all
  define s2 where "s2 = flags_b b {DataMark} s1"
  have 2: "graph_step s1 s2" "erase s2 = set_flags b {DataMark} (erase s1)"
    using tracksD [OF tracks_flags graph_step_inv(1) [OF 1(1)]] by (simp_all add: s2_def)
  note 3 = graph_step_trans [OF 1(1) 2(1)] graph_step_inv(2) [OF 2(1) 1(3)]
  note r = tracks_root [OF 3(2) graph_step_inv(1) [OF 3(1)]] tracks_rootArray [OF 3(2) graph_step_inv(1) [OF 3(1)]]
  have x: "erase s2 = set_flags b {DataMark} (weakMark m b (erase s))" by (simp add: 1 2)
  have fl: "b_fl s1 = fl (weakMark m b (erase s))" "b_fl s2 = fl (set_flags b {DataMark} (weakMark m b (erase s)))"
    using arg_cong [OF 1(2), of fl] arg_cong [OF x, of fl] by simp_all
  have b: "markData_b m b s = (if DataMark \<in> b_fl s1 b then s1
       else if \<not> gcroot (btype m b) \<or> Invalid \<in> b_fl s2 b then s2
         else if is_class (btype m b) then root_b n b (btype m b) s2
         else if DynamicArray \<notin> b_fl s2 b then root_b n (data_of b) (btype m b) s2
         else rootArray_b n (data_of b) (btype m b) (getDynamicArrayElementCount m b) s2)"
    by (simp add: markData_b_def s0_def [symmetric] e Let_def s2_def)
  show "graph_step s (markData_b m b s) \<and> erase (markData_b m b s) = markData m b (erase s)"
    unfolding b markData_def Let_def fl [symmetric]
    using 1(1,2) 2(2) 3(1) r graph_step_trans [OF 3(1)] by simp
qed

lemma tracks_markDataPtr: "tracks (markDataPtr_b m p) (markDataPtr m p)"
  unfolding markDataPtr_b_def [abs_def] markDataPtr_def [abs_def] Let_def
  using tracks_comp [OF tracks_weakMark tracks_markData] by (cases "ld m (p + 8) = 0") simp_all

text \<open>The same below the node \<open>n\<close>.\<close>

definition tracks_at :: "nat \<Rightarrow> (bstate \<Rightarrow> bstate) \<Rightarrow> (mstate \<Rightarrow> mstate) \<Rightarrow> bool" where
  "tracks_at n h k \<longleftrightarrow> (\<forall>s. binv s \<and> n < length (d_nodeArray (b_graph s)) \<longrightarrow> graph_step s (h s) \<and> erase (h s) = k (erase s))"

lemma tracks_at_id [simp]: "tracks_at n (\<lambda>s. s) (\<lambda>s. s)"
  by (simp add: tracks_at_def graph_step_def)

lemma tracks_at_comp: "tracks_at n h k \<Longrightarrow> tracks_at n h' k' \<Longrightarrow> tracks_at n (\<lambda>s. h' (h s)) (\<lambda>s. k' (k s))"
  unfolding tracks_at_def by (metis graph_step_inv graph_step_trans)

lemma tracks_fields:
  shows "tracks_at n (markClassFields_b t n iface) (markClassFields t iface)"
    and "tracks_at n (markBases_b bs n iface) (markBases bs iface)"
    and "tracks_at n (markFields_b fs n iface) (markFields fs iface)"
proof (induction t and bs and fs arbitrary: n iface and n iface and n iface rule: markClassFields_markBases_markFields.induct)
  case (1 k m d bs fs a)
  then show ?case by (simp add: tracks_at_comp)
next
  case (4 off t bs)
  have "tracks_at n (\<lambda>s. if is_class t then markClassFields_b t n (iface + off) s else s)
      (\<lambda>s. if is_class t then markClassFields t (iface + off) s else s)"
    using 4 by (cases "is_class t") simp_all
  then show ?case using tracks_at_comp [OF _ 4(1)] by simp
next
  case (6 off t fs)
  let ?b = "iface + off"
  have "tracks_at n (\<lambda>s. if is_class t then (case edge_b n ?b s of (node, s1) \<Rightarrow>
          if ClassMark \<in> b_fl s1 ?b then s1
          else markClassFields_b t node (iface_of ?b) (flags_b ?b {ClassMark, DataMark, WeakMark} s1)) else s)
      (\<lambda>s. if is_class t \<and> ClassMark \<notin> fl s ?b
        then markClassFields t (iface_of ?b) (set_flags ?b {ClassMark, DataMark, WeakMark} s) else s)"
  proof (cases "is_class t")
    case True
    show ?thesis
      unfolding tracks_at_def
    proof (intro allI impI)
      fix s assume s: "binv s \<and> n < length (d_nodeArray (b_graph s))"
      obtain i s1 where e: "edge_b n ?b s = (i, s1)" by fastforce
      note k = edge_step [OF conjunct1 [OF s] conjunct2 [OF s] e]
      let ?s2 = "flags_b ?b {ClassMark, DataMark, WeakMark} s1"
      have 2: "graph_step s1 ?s2" "erase ?s2 = set_flags ?b {ClassMark, DataMark, WeakMark} (erase s)"
        using tracksD [OF tracks_flags graph_step_inv(1) [OF k(1)]] k(2) by simp_all
      have "tracks_at i (markClassFields_b t i (iface_of ?b)) (markClassFields t (iface_of ?b))" if "ClassMark \<notin> b_fl s ?b"
        using 6(2) [of "erase s"] True that by simp
      then have r: "graph_step s (markClassFields_b t i (iface_of ?b) ?s2) \<and>
          erase (markClassFields_b t i (iface_of ?b) ?s2) = markClassFields t (iface_of ?b) (erase ?s2)"
        if "ClassMark \<notin> b_fl s ?b"
        using that graph_step_inv(1) [OF 2(1)] graph_step_inv(2) [OF 2(1) k(3)]
          graph_step_trans [OF graph_step_trans [OF k(1) 2(1)]]
        unfolding tracks_at_def by blast
      show "graph_step s (if is_class t then (case edge_b n ?b s of (node, s1) \<Rightarrow>
          if ClassMark \<in> b_fl s1 ?b then s1
          else markClassFields_b t node (iface_of ?b) (flags_b ?b {ClassMark, DataMark, WeakMark} s1)) else s) \<and>
        erase (if is_class t then (case edge_b n ?b s of (node, s1) \<Rightarrow>
          if ClassMark \<in> b_fl s1 ?b then s1
          else markClassFields_b t node (iface_of ?b) (flags_b ?b {ClassMark, DataMark, WeakMark} s1)) else s) =
        (if is_class t \<and> ClassMark \<notin> fl (erase s) ?b
        then markClassFields t (iface_of ?b) (set_flags ?b {ClassMark, DataMark, WeakMark} (erase s)) else erase s)"
        using True k(1,2,4) 2(2) r by (simp add: e)
    qed
  qed simp
  then show ?case using tracks_at_comp [OF _ 6(1)] by simp
qed simp_all

lemma tracks_markClass: "tracks (markClass_b m b) (markClass m b)"
  unfolding tracks_def
proof (intro allI impI)
  fix s assume s: "binv s"
  obtain n s0 where e: "edge_b (current s) b s = (n, s0)" by fastforce
  note k = edge_step [OF s current_ok [OF s] e]
  define s1 where "s1 = weakMark_b m b s0"
  have 1: "graph_step s0 s1" "erase s1 = weakMark m b (erase s)"
    using tracksD [OF tracks_weakMark graph_step_inv(1) [OF k(1)]] k(2) by (simp_all add: s1_def)
  define s2 where "s2 = markClassFields_b (btype m b) n (iface_of b) s1"
  have n1: "n < length (d_nodeArray (b_graph s1))" by (rule graph_step_inv(2) [OF 1(1) k(3)])
  have 2: "graph_step s1 s2" "erase s2 = markClassFields (btype m b) (iface_of b) (erase s1)"
    using tracks_fields(1) [of n "btype m b" "iface_of b"] graph_step_inv(1) [OF 1(1)] n1
    by (simp_all add: tracks_at_def s2_def)
  define s3 where "s3 = flags_b b {ClassMark, DataMark} s2"
  have 3: "graph_step s2 s3" "erase s3 = set_flags b {ClassMark, DataMark} (erase s2)"
    using tracksD [OF tracks_flags graph_step_inv(1) [OF 2(1)]] by (simp_all add: s3_def)
  have all: "graph_step s s3" using k(1) 1(1) 2(1) 3(1) graph_step_trans by blast
  have n3: "n < length (d_nodeArray (b_graph s3))"
    using graph_step_inv(2) [OF 3(1) graph_step_inv(2) [OF 2(1) n1]] .
  note r = tracks_root [OF n3 graph_step_inv(1) [OF 3(1)]]
  have b: "markClass_b m b s = (if ClassMark \<in> b_fl s b then s0
      else if gcroot (btype m b) \<and> Invalid \<notin> b_fl s3 b then root_b n b (btype m b) s3 else s3)"
    by (simp add: markClass_b_def e k(4) Let_def s1_def s2_def s3_def)
  have x: "erase s3 = set_flags b {ClassMark, DataMark} (markClassFields (btype m b) (iface_of b) (weakMark m b (erase s)))"
    by (simp add: 1 2 3)
  have fl3: "b_fl s3 = fl (set_flags b {ClassMark, DataMark} (markClassFields (btype m b) (iface_of b) (weakMark m b (erase s))))"
    using arg_cong [OF x, of fl] by simp
  show "graph_step s (markClass_b m b s) \<and> erase (markClass_b m b s) = markClass m b (erase s)"
    unfolding b markClass_def Let_def fl3 [symmetric]
    using k(1,2) all r x graph_step_trans [OF all] by simp
qed

lemma tracks_push:
  "binv s \<Longrightarrow> graph_step s (s\<lparr>b_roots := b_roots s @ map (\<lambda>r. (current s, r)) rs\<rparr>) \<and>
     erase (s\<lparr>b_roots := b_roots s @ map (\<lambda>r. (current s, r)) rs\<rparr>) = (erase s)\<lparr>markRoots := markRoots (erase s) @ rs\<rparr>"
  by (auto simp: graph_step_def binv_def current_def erase_def comp_def)

lemma tracks_weakMarkClosureClass: "tracks (weakMarkClosureClass_b m b) (weakMarkClosureClass m b)"
  unfolding tracks_def
proof (intro allI impI)
  fix s assume s: "binv s"
  define s1 where "s1 = flags_b b {ClosureWeakMark} (weakMark_b m b s)"
  have 1: "graph_step s s1" "erase s1 = set_flags b {ClosureWeakMark} (weakMark m b (erase s))"
    using tracksD [OF tracks_comp [OF tracks_weakMark tracks_flags] s, of b "{ClosureWeakMark}" m b] by (simp_all add: s1_def)
  note p = tracks_push [OF graph_step_inv(1) [OF 1(1)]]
  have "erase (s1\<lparr>b_roots := b_roots s1 @ map (\<lambda>r. (current s1, r)) rs\<rparr>) =
      (let s' = set_flags b {ClosureWeakMark} (weakMark m b (erase s)) in s'\<lparr>markRoots := markRoots s' @ rs\<rparr>)" for rs
    using p [of rs] unfolding 1(2) Let_def by blast
  then show "graph_step s (weakMarkClosureClass_b m b s) \<and> erase (weakMarkClosureClass_b m b s) = weakMarkClosureClass m b (erase s)"
    using s 1(1) graph_step_trans [OF 1(1)] p tracksD [OF tracks_markClass s]
    unfolding weakMarkClosureClass_b_def weakMarkClosureClass_def Let_def s1_def [symmetric]
    by (simp add: graph_step_def split: option.split)
qed

section \<open>Scanning\<close>

lemma tracks_if: "(P \<Longrightarrow> tracks h k) \<Longrightarrow> (\<not> P \<Longrightarrow> tracks h' k') \<Longrightarrow>
    tracks (\<lambda>s. if P then h s else h' s) (\<lambda>s. if P then k s else k' s)"
  by (cases P) simp_all

lemma tracks_class_ptr: "tracks (mark_class_ptr_b m w p) (mark_class_ptr m w p)"
  unfolding mark_class_ptr_b_def [abs_def] mark_class_ptr_def [abs_def] Let_def
  by (intro tracks_if tracks_id tracks_weakMark tracks_markClass)

lemma tracks_closure_ptr: "tracks (mark_closure_ptr_b m k w p) (mark_closure_ptr m k w p)"
  unfolding mark_closure_ptr_b_def [abs_def] mark_closure_ptr_def [abs_def] Let_def
  by (intro tracks_if tracks_id tracks_weakMark tracks_markClass tracks_weakMarkClosureClass)

lemma tracks_scalar: "tracks (mark_scalar_b m c p) (mark_scalar m c p)"
  unfolding mark_scalar_b_def [abs_def] mark_scalar_def [abs_def]
  by (cases c) (simp_all add: tracks_markDataPtr tracks_class_ptr tracks_closure_ptr tracks_comp)

lemma tracks_array: "tracks (\<lambda>s. rootArray_b (current s) p t n s) (addRootArray p t n)"
  unfolding tracks_def using tracks_rootArray current_ok by blast

lemma tracks_mgr:
  assumes V: "\<And>p. tracks (V' p) (V p)"
  shows "tracks (mgr_b t m V' p) (mgr t m V p)"
    and "tracks (mgr_impl_b t m V' p) (mgr_impl t m V p)"
    and "tracks (mgr_bases_b bs m V' p) (mgr_bases bs m V p)"
    and "tracks (mgr_fields_b fs m V' p) (mgr_fields fs m V p)"
proof (induction t and t and bs and fs arbitrary: p and p and p and p rule: mgr_mgr_impl_mgr_bases_mgr_fields.induct)
  case (5 k n d bs fs a)
  let ?b = "m_box m (iface_of p)"
  have i: "tracks (mgr_impl_b (GClass k n d bs fs a) m V' (iface_of p)) (mgr_impl (GClass k n d bs fs a) m V (iface_of p))"
    if "?b \<noteq> 0"
    using 5 [of ?b m p "\<lparr>fl = (\<lambda>_. {}), markRoots = []\<rparr>"] that by simp
  show ?case unfolding mgr_b.simps mgr.simps Let_def
    by (rule tracks_if [OF tracks_id], rule tracks_case [where P = "\<lambda>s. Invalid \<in> fl s ?b"])
      (use i tracks_id in \<open>fastforce, fastforce\<close>)
next
  case (9 off t bs)
  have "tracks (\<lambda>s. if \<not> gcroot t then s else if is_class t then mgr_impl_b t m V' (p + off) s else mgr_b t m V' (p + off) s)
      (\<lambda>s. if \<not> gcroot t then s else if is_class t then mgr_impl t m V (p + off) s else mgr t m V (p + off) s)"
    using 9 by (intro tracks_if) simp_all
  from tracks_comp [OF this 9(1)] show ?case by simp
next
  case (11 off t fs)
  have "tracks (\<lambda>s. if gcroot t then mgr_b t m V' (p + off) s else s) (\<lambda>s. if gcroot t then mgr t m V (p + off) s else s)"
    using 11 by (intro tracks_if) simp_all
  from tracks_comp [OF this 11(1)] show ?case by simp
next
  case (4 n bs fs)
  then show ?case by (simp add: tracks_comp)
next
  case (6 k n d bs fs a)
  then show ?case by (simp add: tracks_comp)
qed (simp_all add: tracks_scalar V tracks_array)

lemma tracks_markGcRoots: "tracks (markGcRoots_b m t p) (markGcRoots m t p)"
proof -
  have "tracks (markVariant_b m p) (markVariant m p)" for p
    unfolding markVariant_b_def [abs_def] markVariant_def [abs_def]
    by (cases "vtype m p") (simp_all add: tracks_mgr tracks_if)
  then show ?thesis unfolding markGcRoots_b_def [abs_def] markGcRoots_def [abs_def] by (rule tracks_mgr)
qed

section \<open>The whole graph\<close>

definition marking :: "bstate \<Rightarrow> bool" where
  "marking s \<longleftrightarrow> nodes_ok (b_graph s) \<and> (\<forall>(n, r)\<in>set (b_roots s). n < length (d_nodeArray (b_graph s)))"

lemma set_current_inv: "marking s \<Longrightarrow> n < length (d_nodeArray (b_graph s)) \<Longrightarrow> binv (set_current n s)"
  by (auto simp: marking_def binv_def set_current_def current_def nodes_ok_def slot_ok_def split: box_slot.splits)

lemma set_current_simps [simp]: "erase (set_current n s) = erase s" "b_roots (set_current n s) = b_roots s"
  "d_nodeArray (b_graph (set_current n s)) = d_nodeArray (b_graph s)"
  "d_unsortedEdges (b_graph (set_current n s)) = d_unsortedEdges (b_graph s)"
  by (simp_all add: set_current_def erase_def)

lemma set_current_grows: "graph_grows (b_graph (set_current n s)) g \<longleftrightarrow> graph_grows (b_graph s) g"
  by (simp add: graph_grows_def)

lemma binv_marking: "binv s \<Longrightarrow> marking s"
  by (simp add: binv_def marking_def)

text \<open>A step in which a node is made current first.\<close>

lemma tracks_current:
  assumes "tracks h k" and "marking s" and "n < length (d_nodeArray (b_graph s))"
  shows "marking (h (set_current n s))" and "graph_grows (b_graph s) (b_graph (h (set_current n s)))"
    and "erase (h (set_current n s)) = k (erase s)"
  using tracksD [OF assms(1) set_current_inv [OF assms(2,3)]] binv_marking
  by (auto simp: graph_step_def set_current_grows)

lemma scan_roots_tracks:
  assumes "marking s" and "\<forall>(n, r)\<in>set rs. n < length (d_nodeArray (b_graph s))"
  shows "marking (scan_roots_b m rs s) \<and> graph_grows (b_graph s) (b_graph (scan_roots_b m rs s)) \<and>
    erase (scan_roots_b m rs s) = scan_roots m (map snd rs) (erase s)"
  using assms
proof (induction rs arbitrary: s)
  case (Cons r rs)
  obtain n p t where r: "r = (n, p, t)" by (cases r) auto
  have n: "n < length (d_nodeArray (b_graph s))" using Cons.prems(2) r by simp
  let ?s = "markGcRoots_b m t p (set_current n s)"
  note k = tracks_current [OF tracks_markGcRoots Cons.prems(1) n, of m t p]
  have "\<forall>(n, r)\<in>set rs. n < length (d_nodeArray (b_graph ?s))"
    using Cons.prems(2) graph_grows_nodes(1) [OF k(2)] by auto
  from Cons.IH [OF k(1) this] show ?case using k(2,3) graph_grows_trans [OF k(2)] by (simp add: r)
qed simp

lemma round_tracks:
  fixes m :: gcmem
  assumes "marking s"
  defines "s' \<equiv> scan_roots_b m (b_roots s) (s\<lparr>b_roots := []\<rparr>)"
  shows "marking s'" and "graph_grows (b_graph s) (b_graph s')" and "erase s' = mark_round m (erase s)"
proof -
  have "marking (s\<lparr>b_roots := []\<rparr>)" "\<forall>(n, r)\<in>set (b_roots s). n < length (d_nodeArray (b_graph (s\<lparr>b_roots := []\<rparr>)))"
    using assms(1) by (simp_all add: marking_def)
  from scan_roots_tracks [OF this] show "marking s'" "graph_grows (b_graph s) (b_graph s')" "erase s' = mark_round m (erase s)"
    by (simp_all add: s'_def mark_round_def) (simp add: erase_def)
qed

lemma cycle_tracks:
  assumes "marking s"
  shows "map_option erase (runMarkCycle_b m s) = runMarkCycle m (erase s)"
    and "runMarkCycle_b m s = Some s' \<Longrightarrow> marking s' \<and> graph_grows (b_graph s) (b_graph s')"
proof -
  show "map_option erase (runMarkCycle_b m s) = runMarkCycle m (erase s)"
    unfolding runMarkCycle_b_def runMarkCycle_def
    by (rule while_option_commute_invariant [where P = marking]) (use assms round_tracks in auto)
  assume r: "runMarkCycle_b m s = Some s'"
  show "marking s' \<and> graph_grows (b_graph s) (b_graph s')"
    by (rule while_option_rule [where P = "\<lambda>s'. marking s' \<and> graph_grows (b_graph s) (b_graph s')", OF _ r [unfolded runMarkCycle_b_def]])
      (use assms round_tracks graph_grows_trans in auto)
qed

lemma build_nodes_ok:
  assumes "\<And>b. b \<in> set cs \<Longrightarrow> d_slot g b = NoSlot" and "distinct cs" and "nodes_ok g"
    and "set cs \<inter> set (d_nodeArray g) = {}"
  shows "nodes_ok (fold new_node cs g) \<and> d_nodeArray (fold new_node cs g) = d_nodeArray g @ cs"
  using assms
proof (induction cs arbitrary: g)
  case (Cons b cs)
  have 1: "nodes_ok (new_node b g)" using Cons.prems by (intro new_node_ok) simp_all
  have "d_slot (new_node b g) x = d_slot g x" if "x \<noteq> b" for x using that by (simp add: new_node_def Let_def)
  then have "d_slot (new_node b g) x = NoSlot" if "x \<in> set cs" for x using that Cons.prems(1,2) by force
  from Cons.IH [OF this _ 1] show ?case using Cons.prems(2,4) by auto
qed simp

lemma candidates_tracks:
  assumes "marking s" and "\<forall>i\<in>set is. i < length (d_nodeArray (b_graph s))"
  shows "marking (fold (\<lambda>i s. markClass_b m (d_nodeArray (b_graph s) ! i) (set_current i s)) is s) \<and>
    graph_grows (b_graph s) (b_graph (fold (\<lambda>i s. markClass_b m (d_nodeArray (b_graph s) ! i) (set_current i s)) is s)) \<and>
    erase (fold (\<lambda>i s. markClass_b m (d_nodeArray (b_graph s) ! i) (set_current i s)) is s) =
      fold (\<lambda>i. markClass m (d_nodeArray (b_graph s) ! i)) is (erase s)"
  using assms
proof (induction "is" arbitrary: s)
  case (Cons i "is")
  let ?s = "markClass_b m (d_nodeArray (b_graph s) ! i) (set_current i s)"
  have i: "i < length (d_nodeArray (b_graph s))" using Cons.prems(2) by simp
  note k = tracks_current [OF tracks_markClass Cons.prems(1) i, of m "d_nodeArray (b_graph s) ! i"]
  have b: "\<forall>i\<in>set is. i < length (d_nodeArray (b_graph ?s))" using Cons.prems(2) graph_grows_nodes(1) [OF k(2)] by auto
  have "fold (\<lambda>i. markClass m (d_nodeArray (b_graph ?s) ! i)) is = fold (\<lambda>i. markClass m (d_nodeArray (b_graph s) ! i)) is"
    using Cons.prems(2) graph_grows_nodes(2) [OF k(2)] by (intro ext fold_cong) auto
  then show ?case using Cons.IH [OF k(1) b] k(2,3) graph_grows_trans [OF k(2)] by simp
qed simp

end
