(* ===== verification/GcMarkInv.thy ===== *)
theory GcMarkInv
  imports GcMark
begin

text \<open>
  What marking computes: the specification of liveness as a least fixed point over references, and the
  invariant of the marking operations. A box that has a mark before marking begins (a static or a foreign
  box: it is in none of the arrays that are unmarked) is opaque: the collector does not look inside it.
\<close>

section \<open>References\<close>

text \<open>What can be live: a root to scan, and a box held weakly, as data, as an object, or as a closure that
  is only weakly held.\<close>

datatype item = IRoot addr gtype | IWeak addr | IData addr | IClass addr | IClosure addr

definition data_ptr_refs :: "gcmem \<Rightarrow> addr \<Rightarrow> item set" where
  "data_ptr_refs m p =
     (let v = ld m (p + 8) in if v = 0 then {} else {IWeak (ld m v), IData (ld m (v + 8))})"

definition class_ptr_refs :: "gcmem \<Rightarrow> bool \<Rightarrow> addr \<Rightarrow> item set" where
  "class_ptr_refs m weak p =
     (let iface = ld m p in if iface = 0 then {} else {if weak then IWeak (m_box m iface) else IClass (m_box m iface)})"

definition closure_ptr_refs :: "gcmem \<Rightarrow> class_kind \<Rightarrow> bool \<Rightarrow> addr \<Rightarrow> item set" where
  "closure_ptr_refs m kind weak p =
     (let closure = ld m (p + 8); b = m_box m closure
      in if closure = 0 then {}
         else {if \<not> weak then IClass b else if is_class_kind kind (btype m b) then IClosure b else IWeak b})"

definition array_refs :: "addr \<Rightarrow> gtype \<Rightarrow> nat \<Rightarrow> item set" where
  "array_refs p t n = (\<lambda>i. IRoot (p + gsize t * of_nat i) t) ` {..<n}"

definition scalar_refs :: "gcmem \<Rightarrow> scalar \<Rightarrow> addr \<Rightarrow> item set" where
  "scalar_refs m c p =
     (case c of
        GDataPtr \<Rightarrow> data_ptr_refs m p
      | GClassPtr w \<Rightarrow> class_ptr_refs m w p
      | GFunctionPtr w \<Rightarrow> closure_ptr_refs m FunctionClosure w p
      | GPropertyPtr w \<Rightarrow> closure_ptr_refs m PropertyClosure w p
      | GString \<Rightarrow> data_ptr_refs m p \<union> data_ptr_refs m (p + 16)
      | _ \<Rightarrow> {})"

type_synonym refs_fun = "gcmem \<Rightarrow> (addr \<Rightarrow> box_flag set) \<Rightarrow> (addr \<Rightarrow> item set) \<Rightarrow> addr \<Rightarrow> item set"

fun refs :: "gtype \<Rightarrow> refs_fun" and refs_impl :: "gtype \<Rightarrow> refs_fun"
  and refs_bases :: "(addr \<times> gtype) list \<Rightarrow> refs_fun" and refs_fields :: "(addr \<times> gtype) list \<Rightarrow> refs_fun" where
  "refs (GScalar c) = (\<lambda>m f V p. scalar_refs m c p)"
| "refs GVariant = (\<lambda>m f V p. V p)"
| "refs (GArray t n) = (\<lambda>m f V p. array_refs p t n)"
| "refs (GStruct n bs fs) = (\<lambda>m f V p. refs_fields bs m f V p \<union> refs_fields fs m f V p)"
| "refs (GClass k n d bs fs a) = (\<lambda>m f V p.
     if m_box m (iface_of p) = 0 \<or> Invalid \<in> f (m_box m (iface_of p)) then {}
     else refs_impl (GClass k n d bs fs a) m f V (iface_of p))"
| "refs_impl (GClass k n d bs fs a) = (\<lambda>m f V iface. refs_bases bs m f V iface \<union> refs_fields fs m f V iface)"
| "refs_impl _ = (\<lambda>m f V iface. {})"
| "refs_bases [] = (\<lambda>m f V iface. {})"
| "refs_bases ((off, t) # bs) = (\<lambda>m f V iface.
     (if \<not> gcroot t then {} else if is_class t then refs_impl t m f V (iface + off) else refs t m f V (iface + off))
       \<union> refs_bases bs m f V iface)"
| "refs_fields [] = (\<lambda>m f V p. {})"
| "refs_fields ((off, t) # fs) = (\<lambda>m f V p.
     (if gcroot t then refs t m f V (p + off) else {}) \<union> refs_fields fs m f V p)"

definition variant_refs :: "gcmem \<Rightarrow> (addr \<Rightarrow> box_flag set) \<Rightarrow> addr \<Rightarrow> item set" where
  "variant_refs m f p =
     (case vtype m p of None \<Rightarrow> {} | Some t \<Rightarrow> if gcroot t then refs t m f (\<lambda>p. {}) p else {})"

definition root_refs :: "gcmem \<Rightarrow> (addr \<Rightarrow> box_flag set) \<Rightarrow> gtype \<Rightarrow> addr \<Rightarrow> item set" where
  "root_refs m f t p = refs t m f (variant_refs m f) p"

text \<open>The class fields embedded in an object, in its own class and in the base classes.\<close>

fun emb :: "gtype \<Rightarrow> addr \<Rightarrow> (addr \<times> gtype) set"
  and emb_bases :: "(addr \<times> gtype) list \<Rightarrow> addr \<Rightarrow> (addr \<times> gtype) set"
  and emb_fields :: "(addr \<times> gtype) list \<Rightarrow> addr \<Rightarrow> (addr \<times> gtype) set" where
  "emb (GClass k n d bs fs a) = (\<lambda>iface. emb_bases bs iface \<union> emb_fields fs iface)"
| "emb _ = (\<lambda>iface. {})"
| "emb_bases [] = (\<lambda>iface. {})"
| "emb_bases ((off, t) # bs) = (\<lambda>iface. (if is_class t then emb t (iface + off) else {}) \<union> emb_bases bs iface)"
| "emb_fields [] = (\<lambda>iface. {})"
| "emb_fields ((off, t) # fs) = (\<lambda>iface. (if is_class t then {(iface + off, t)} else {}) \<union> emb_fields fs iface)"

definition data_roots :: "gcmem \<Rightarrow> (addr \<Rightarrow> box_flag set) \<Rightarrow> addr \<Rightarrow> (addr \<times> gtype) set" where
  "data_roots m f b =
     (let t = btype m b
      in if is_class t then {(b, t)}
         else if DynamicArray \<notin> f b then {(data_of b, t)}
         else {(data_of b + gsize t * of_nat i, t) | i. i < getDynamicArrayElementCount m b})"

section \<open>Liveness\<close>

inductive live :: "gcmem \<Rightarrow> (addr \<Rightarrow> box_flag set) \<Rightarrow> item set \<Rightarrow> item \<Rightarrow> bool" for m f R where
  live_base: "i \<in> R \<Longrightarrow> live m f R i"
| live_root: "live m f R (IRoot p t) \<Longrightarrow> i \<in> root_refs m f t p \<Longrightarrow> live m f R i"
| live_data_weak: "live m f R (IData b) \<Longrightarrow> live m f R (IWeak b)"
| live_data_root: "live m f R (IData b) \<Longrightarrow> DataMark \<notin> f b \<Longrightarrow> gcroot (btype m b) \<Longrightarrow> Invalid \<notin> f b \<Longrightarrow>
    (p, t) \<in> data_roots m f b \<Longrightarrow> live m f R (IRoot p t)"
| live_class_weak: "live m f R (IClass b) \<Longrightarrow> ClassMark \<notin> f b \<Longrightarrow> live m f R (IWeak b)"
| live_class_root: "live m f R (IClass b) \<Longrightarrow> ClassMark \<notin> f b \<Longrightarrow> gcroot (btype m b) \<Longrightarrow> Invalid \<notin> f b \<Longrightarrow>
    live m f R (IRoot b (btype m b))"
| live_class_field: "live m f R (IClass b) \<Longrightarrow> ClassMark \<notin> f b \<Longrightarrow> (e, t) \<in> emb (btype m b) (iface_of b) \<Longrightarrow>
    live m f R (IClass e)"
| live_closure_class: "live m f R (IClosure b) \<Longrightarrow> ClassMark \<notin> f b \<Longrightarrow> ClosureWeakMark \<notin> f b \<Longrightarrow>
    thisArgFieldIdx (btype m b) = None \<Longrightarrow> live m f R (IClass b)"
| live_closure_weak: "live m f R (IClosure b) \<Longrightarrow> ClassMark \<notin> f b \<Longrightarrow> ClosureWeakMark \<notin> f b \<Longrightarrow>
    thisArgFieldIdx (btype m b) = Some i \<Longrightarrow> live m f R (IWeak b)"
| live_closure_root: "live m f R (IClosure b) \<Longrightarrow> ClassMark \<notin> f b \<Longrightarrow> ClosureWeakMark \<notin> f b \<Longrightarrow>
    thisArgFieldIdx (btype m b) = Some i \<Longrightarrow> (p, t) \<in> set (closure_roots (btype m b) i (iface_of b)) \<Longrightarrow>
    live m f R (IRoot p t)"

text \<open>A weakly live box keeps its memory: its own, or that of the allocated box it lies in.\<close>

definition kept :: "gcmem \<Rightarrow> (addr \<Rightarrow> box_flag set) \<Rightarrow> item set \<Rightarrow> addr \<Rightarrow> bool" where
  "kept m f R b \<longleftrightarrow> live m f R (IWeak b) \<or>
     (\<exists>b'. live m f R (IWeak b') \<and> rootOffset m b' \<noteq> 0 \<and> b = b' - rootOffset m b')"

section \<open>Well-formed heaps\<close>

text \<open>What \<^verbatim>\<open>jnc_primeClass\<close> sets up: the interface header points back to the box, an embedded object has
  its own box with the offset of the allocated one; destroying an object destroys its fields; closures
  have no destructor.\<close>

definition object_ok :: "gcmem \<Rightarrow> (addr \<Rightarrow> box_flag set) \<Rightarrow> addr \<Rightarrow> bool" where
  "object_ok m f b \<longleftrightarrow> is_class (btype m b) \<and> m_box m (iface_of b) = b \<and> b \<noteq> 0 \<and>
     (\<forall>(e, t)\<in>emb (btype m b) (iface_of b). btype m e = t \<and> (Invalid \<in> f b \<longrightarrow> Invalid \<in> f e) \<and>
        rootOffset m e \<noteq> 0 \<and> e - rootOffset m e = b - rootOffset m b)"

definition closure_ok :: "gcmem \<Rightarrow> (addr \<Rightarrow> box_flag set) \<Rightarrow> addr \<Rightarrow> bool" where
  "closure_ok m f b \<longleftrightarrow> Invalid \<notin> f b \<and> m_box m (iface_of b) = b \<and> b \<noteq> 0 \<and>
     (\<forall>i. thisArgFieldIdx (btype m b) = Some i \<longrightarrow>
        i < length (class_fields (btype m b)) \<and> (\<exists>w. snd (class_fields (btype m b) ! i) = GScalar (GClassPtr w)))"

definition weak_ok :: "gcmem \<Rightarrow> (addr \<Rightarrow> box_flag set) \<Rightarrow> addr \<Rightarrow> bool" where
  "weak_ok m f b \<longleftrightarrow> WeakMark \<in> f b \<and> WeakMark \<in> f (b - rootOffset m b)"

definition heap_ok :: "gcmem \<Rightarrow> (addr \<Rightarrow> box_flag set) \<Rightarrow> item set \<Rightarrow> bool" where
  "heap_ok m f R \<longleftrightarrow>
     (\<forall>b. live m f R (IClass b) \<and> ClassMark \<notin> f b \<longrightarrow> object_ok m f b) \<and>
     (\<forall>b. live m f R (IClosure b) \<longrightarrow> closure_ok m f b) \<and>
     (\<forall>b. ClassMark \<in> f b \<longrightarrow> weak_ok m f b)"

section \<open>Accounted items\<close>

definition covered :: "item set \<Rightarrow> item set \<Rightarrow> bool" where
  "covered A B \<longleftrightarrow> (\<forall>i\<in>A. i \<in> B \<or> (\<exists>b. i = IWeak b \<and> IClass b \<in> B))"

text \<open>With the flags \<open>g\<close> and the roots \<open>Q\<close> still to scan, an item is accounted for: its box is marked, or
  the root is to be scanned, or covered by one that is, or all it refers to is accounted for.\<close>

inductive acc :: "gcmem \<Rightarrow> (addr \<Rightarrow> box_flag set) \<Rightarrow> (addr \<Rightarrow> box_flag set) \<Rightarrow> (addr \<times> gtype) set \<Rightarrow> item \<Rightarrow> bool"
  for m f g Q where
  acc_weak: "weak_ok m g b \<Longrightarrow> acc m f g Q (IWeak b)"
| acc_data: "weak_ok m g b \<Longrightarrow> DataMark \<in> g b \<Longrightarrow> acc m f g Q (IData b)"
| acc_class: "weak_ok m g b \<Longrightarrow> ClassMark \<in> g b \<Longrightarrow> acc m f g Q (IClass b)"
| acc_closure: "ClassMark \<in> g b \<or> ClosureWeakMark \<in> g b \<Longrightarrow> acc m f g Q (IClosure b)"
| acc_queued: "(q, u) \<in> Q \<Longrightarrow> covered (root_refs m f t p) (root_refs m f u q) \<Longrightarrow> acc m f g Q (IRoot p t)"
| acc_scanned: "(\<And>i. i \<in> root_refs m f t p \<Longrightarrow> acc m f g Q i) \<Longrightarrow> acc m f g Q (IRoot p t)"

inductive_cases acc_weakE: "acc m f g Q (IWeak b)"
inductive_cases acc_dataE: "acc m f g Q (IData b)"
inductive_cases acc_classE: "acc m f g Q (IClass b)"
inductive_cases acc_closureE: "acc m f g Q (IClosure b)"
inductive_cases acc_rootE: "acc m f g Q (IRoot p t)"

lemma covered_refl [simp]: "covered A A"
  by (simp add: covered_def)

lemma covered_subset: "A \<subseteq> B \<Longrightarrow> covered A B"
  by (auto simp: covered_def)

lemma covered_trans: "covered A B \<Longrightarrow> covered B C \<Longrightarrow> covered A C"
  unfolding covered_def by (meson item.distinct)

lemma covered_acc:
  assumes "covered A B" and "\<And>i. i \<in> B \<Longrightarrow> acc m f g Q i" and "i \<in> A"
  shows "acc m f g Q i"
proof -
  have "i \<in> B \<or> (\<exists>b. i = IWeak b \<and> IClass b \<in> B)" using assms(1,3) by (simp add: covered_def)
  then show ?thesis
  proof
    assume "\<exists>b. i = IWeak b \<and> IClass b \<in> B"
    then obtain b where b: "i = IWeak b" "acc m f g Q (IClass b)" using assms(2) by blast
    then show ?thesis by (auto elim!: acc_classE intro: acc_weak)
  qed (rule assms(2))
qed

text \<open>Progress: flags are only added, and a root leaves the queue when it has been scanned.\<close>

definition advances :: "gcmem \<Rightarrow> (addr \<Rightarrow> box_flag set) \<Rightarrow> (addr \<Rightarrow> box_flag set) \<Rightarrow> (addr \<times> gtype) set \<Rightarrow>
    (addr \<Rightarrow> box_flag set) \<Rightarrow> (addr \<times> gtype) set \<Rightarrow> bool" where
  "advances m f g Q g' Q' \<longleftrightarrow> (\<forall>b. g b \<subseteq> g' b) \<and>
     (\<forall>(q, u)\<in>Q. (q, u) \<in> Q' \<or> (\<forall>i\<in>root_refs m f u q. acc m f g' Q' i))"

lemma weak_ok_mono: "weak_ok m g b \<Longrightarrow> (\<And>b. g b \<subseteq> g' b) \<Longrightarrow> weak_ok m g' b"
  by (auto simp: weak_ok_def)

lemma acc_mono:
  assumes "acc m f g Q i" and adv: "advances m f g Q g' Q'"
  shows "acc m f g' Q' i"
  using assms(1)
proof (induction rule: acc.induct)
  case (acc_weak b)
  then show ?case using adv weak_ok_mono by (auto intro!: acc.acc_weak simp: advances_def)
next
  case (acc_data b)
  then show ?case using adv weak_ok_mono [of m g b g'] by (auto intro!: acc.acc_data simp: advances_def)
next
  case (acc_class b)
  then show ?case using adv weak_ok_mono [of m g b g'] by (auto intro!: acc.acc_class simp: advances_def)
next
  case (acc_closure b)
  then show ?case using adv by (auto intro!: acc.acc_closure simp: advances_def)
next
  case (acc_queued q u t p)
  have "(q, u) \<in> Q' \<or> (\<forall>i\<in>root_refs m f u q. acc m f g' Q' i)" using adv acc_queued(1) by (auto simp: advances_def)
  then show ?case
  proof
    assume "\<forall>i\<in>root_refs m f u q. acc m f g' Q' i"
    then show ?thesis using covered_acc [OF acc_queued(2)] by (intro acc.acc_scanned) blast
  qed (rule acc.acc_queued [OF _ acc_queued(2)])
next
  case (acc_scanned t p)
  then show ?case by (intro acc.acc_scanned) blast
qed

lemma advances_more: "(\<And>b. g b \<subseteq> g' b) \<Longrightarrow> Q \<subseteq> Q' \<Longrightarrow> advances m f g Q g' Q'"
  by (auto simp: advances_def)

lemma acc_root_covered:
  assumes "acc m f g Q (IRoot q u)" and "covered (root_refs m f t p) (root_refs m f u q)"
  shows "acc m f g Q (IRoot p t)"
proof -
  have "(\<exists>(q', u')\<in>Q. covered (root_refs m f u q) (root_refs m f u' q')) \<or> (\<forall>i\<in>root_refs m f u q. acc m f g Q i)"
    using assms(1) by (blast elim: acc_rootE)
  then show ?thesis
  proof
    assume "\<exists>(q', u')\<in>Q. covered (root_refs m f u q) (root_refs m f u' q')"
    then obtain q' u' where "(q', u') \<in> Q" "covered (root_refs m f u q) (root_refs m f u' q')" by blast
    then show ?thesis using covered_trans [OF assms(2)] by (blast intro: acc_queued)
  next
    assume "\<forall>i\<in>root_refs m f u q. acc m f g Q i"
    then show ?thesis using covered_acc [OF assms(2)] by (intro acc_scanned) blast
  qed
qed

section \<open>The invariant\<close>

text \<open>The other flags that marking reads: they do not change.\<close>

definition ReadFlags :: "box_flag set" where
  "ReadFlags = {Invalid, DynamicArray}"

text \<open>\<open>f\<close> holds the flags at the start, \<open>X\<close> the objects whose fields are being marked.\<close>

definition data_ok :: "gcmem \<Rightarrow> (addr \<Rightarrow> box_flag set) \<Rightarrow> (addr \<Rightarrow> box_flag set) \<Rightarrow> (addr \<times> gtype) set \<Rightarrow> addr \<Rightarrow> bool" where
  "data_ok m f g Q b \<longleftrightarrow> (gcroot (btype m b) \<and> Invalid \<notin> f b \<longrightarrow> (\<forall>(p, t)\<in>data_roots m f b. acc m f g Q (IRoot p t)))"

definition class_ok :: "gcmem \<Rightarrow> (addr \<Rightarrow> box_flag set) \<Rightarrow> (addr \<Rightarrow> box_flag set) \<Rightarrow> (addr \<times> gtype) set \<Rightarrow> addr \<Rightarrow> bool" where
  "class_ok m f g Q b \<longleftrightarrow> weak_ok m g b \<and> (gcroot (btype m b) \<and> Invalid \<notin> f b \<longrightarrow> acc m f g Q (IRoot b (btype m b)))"

definition fields_ok :: "gcmem \<Rightarrow> (addr \<Rightarrow> box_flag set) \<Rightarrow> addr \<Rightarrow> bool" where
  "fields_ok m g b \<longleftrightarrow> (\<forall>(e, t)\<in>emb (btype m b) (iface_of b). ClassMark \<in> g e)"

definition cl_ok :: "gcmem \<Rightarrow> (addr \<Rightarrow> box_flag set) \<Rightarrow> (addr \<Rightarrow> box_flag set) \<Rightarrow> (addr \<times> gtype) set \<Rightarrow> addr \<Rightarrow> bool" where
  "cl_ok m f g Q b \<longleftrightarrow> weak_ok m g b \<and> (\<exists>i. thisArgFieldIdx (btype m b) = Some i \<and>
     (\<forall>(p, t)\<in>set (closure_roots (btype m b) i (iface_of b)). acc m f g Q (IRoot p t)))"

definition mark_inv :: "gcmem \<Rightarrow> (addr \<Rightarrow> box_flag set) \<Rightarrow> addr set \<Rightarrow> (addr \<Rightarrow> box_flag set) \<Rightarrow> (addr \<times> gtype) set \<Rightarrow> bool" where
  "mark_inv m f X g Q \<longleftrightarrow>
     (\<forall>b. f b \<subseteq> g b \<and> g b \<inter> ReadFlags = f b \<inter> ReadFlags) \<and>
     (\<forall>b. DataMark \<in> g b \<and> DataMark \<notin> f b \<longrightarrow> data_ok m f g Q b) \<and>
     (\<forall>b. ClassMark \<in> g b \<and> ClassMark \<notin> f b \<longrightarrow> class_ok m f g Q b \<and> (b \<notin> X \<longrightarrow> fields_ok m g b)) \<and>
     (\<forall>b. ClosureWeakMark \<in> g b \<and> ClosureWeakMark \<notin> f b \<longrightarrow> cl_ok m f g Q b)"

lemma ok_mono:
  assumes "advances m f g Q g' Q'"
  shows "data_ok m f g Q b \<Longrightarrow> data_ok m f g' Q' b" and "class_ok m f g Q b \<Longrightarrow> class_ok m f g' Q' b"
    and "fields_ok m g b \<Longrightarrow> fields_ok m g' b" and "cl_ok m f g Q b \<Longrightarrow> cl_ok m f g' Q' b"
proof -
  have s: "\<And>b. g b \<subseteq> g' b" using assms by (simp add: advances_def)
  note a = acc_mono [OF _ assms]
  show "data_ok m f g Q b \<Longrightarrow> data_ok m f g' Q' b" using a by (auto simp: data_ok_def)
  show "class_ok m f g Q b \<Longrightarrow> class_ok m f g' Q' b" using a weak_ok_mono [OF _ s] by (auto simp: class_ok_def)
  show "fields_ok m g b \<Longrightarrow> fields_ok m g' b" using s by (force simp: fields_ok_def)
  show "cl_ok m f g Q b \<Longrightarrow> cl_ok m f g' Q' b" using a weak_ok_mono [OF _ s] by (fastforce simp: cl_ok_def)
qed

text \<open>A step that adds flags: what has to be shown of the new ones.\<close>

lemma mark_inv_step:
  assumes inv: "mark_inv m f X g Q" and adv: "advances m f g Q g' Q'"
    and "\<And>b. g' b \<inter> ReadFlags = g b \<inter> ReadFlags"
    and "\<And>b. DataMark \<in> g' b \<Longrightarrow> DataMark \<notin> g b \<Longrightarrow> data_ok m f g' Q' b"
    and "\<And>b. ClassMark \<in> g' b \<Longrightarrow> ClassMark \<notin> g b \<Longrightarrow> class_ok m f g' Q' b \<and> (b \<notin> X' \<longrightarrow> fields_ok m g' b)"
    and "\<And>b. ClosureWeakMark \<in> g' b \<Longrightarrow> ClosureWeakMark \<notin> g b \<Longrightarrow> cl_ok m f g' Q' b"
    and X: "\<And>b. b \<in> X \<Longrightarrow> b \<notin> X' \<Longrightarrow> ClassMark \<in> g b \<Longrightarrow> ClassMark \<notin> f b \<Longrightarrow> fields_ok m g' b"
  shows "mark_inv m f X' g' Q'"
  unfolding mark_inv_def
proof (intro conjI allI impI)
  fix b
  have s: "g b \<subseteq> g' b" using adv by (simp add: advances_def)
  then show "f b \<subseteq> g' b" using inv by (auto simp: mark_inv_def)
  show "g' b \<inter> ReadFlags = f b \<inter> ReadFlags" using inv assms(3) by (simp add: mark_inv_def)
  show "data_ok m f g' Q' b" if "DataMark \<in> g' b \<and> DataMark \<notin> f b"
    using that inv assms(4) [of b] ok_mono(1) [OF adv, of b] by (cases "DataMark \<in> g b") (auto simp: mark_inv_def)
  show "class_ok m f g' Q' b" if "ClassMark \<in> g' b \<and> ClassMark \<notin> f b"
    using that inv assms(5) [of b] ok_mono(2) [OF adv, of b] by (cases "ClassMark \<in> g b") (auto simp: mark_inv_def)
  show "fields_ok m g' b" if "ClassMark \<in> g' b \<and> ClassMark \<notin> f b" "b \<notin> X'"
    using that inv assms(5) [of b] X [of b] ok_mono(3) [OF adv, of b]
    by (cases "ClassMark \<in> g b"; cases "b \<in> X") (auto simp: mark_inv_def)
  show "cl_ok m f g' Q' b" if "ClosureWeakMark \<in> g' b \<and> ClosureWeakMark \<notin> f b"
    using that inv assms(6) [of b] ok_mono(4) [OF adv, of b] by (cases "ClosureWeakMark \<in> g b") (auto simp: mark_inv_def)
qed

lemma mark_inv_queue: "mark_inv m f X g Q \<Longrightarrow> advances m f g Q g Q' \<Longrightarrow> mark_inv m f X g Q'"
  by (erule mark_inv_step) auto

section \<open>Only live boxes are marked\<close>

definition justified :: "gcmem \<Rightarrow> (addr \<Rightarrow> box_flag set) \<Rightarrow> item set \<Rightarrow> mstate \<Rightarrow> bool" where
  "justified m f R s \<longleftrightarrow>
     (\<forall>b. (WeakMark \<in> fl s b \<longrightarrow> WeakMark \<in> f b \<or> kept m f R b) \<and>
        (DataMark \<in> fl s b \<longrightarrow> DataMark \<in> f b \<or> live m f R (IData b) \<or> live m f R (IClass b)) \<and>
        (ClassMark \<in> fl s b \<longrightarrow> ClassMark \<in> f b \<or> live m f R (IClass b)) \<and>
        (ClosureWeakMark \<in> fl s b \<longrightarrow> ClosureWeakMark \<in> f b \<or> live m f R (IClosure b))) \<and>
     (\<forall>(p, t)\<in>set (markRoots s). live m f R (IRoot p t))"

text \<open>What an operation \<open>h\<close> does for the items \<open>A\<close>, if they are live: it keeps the invariant, with any other
  roots \<open>E\<close> still to be scanned, and accounts for them, by marks and roots it has queued.\<close>

definition good :: "gcmem \<Rightarrow> (addr \<Rightarrow> box_flag set) \<Rightarrow> item set \<Rightarrow> (addr \<times> gtype) set \<Rightarrow> mstate \<Rightarrow> bool" where
  "good m f R E s \<longleftrightarrow> mark_inv m f {} (fl s) (set (markRoots s) \<union> E) \<and> justified m f R s"

definition grows :: "mstate \<Rightarrow> mstate \<Rightarrow> bool" where
  "grows s s' \<longleftrightarrow> (\<forall>b. fl s b \<subseteq> fl s' b) \<and> set (markRoots s) \<subseteq> set (markRoots s')"

definition sim :: "gcmem \<Rightarrow> (addr \<Rightarrow> box_flag set) \<Rightarrow> item set \<Rightarrow> (mstate \<Rightarrow> mstate) \<Rightarrow> item set \<Rightarrow> bool" where
  "sim m f R h A \<longleftrightarrow>
     (\<forall>s E. good m f R E s \<and> (\<forall>i\<in>A. live m f R i) \<longrightarrow>
        good m f R E (h s) \<and> grows s (h s) \<and> (\<forall>i\<in>A. acc m f (fl (h s)) (set (markRoots (h s))) i))"

lemma grows_trans: "grows s t \<Longrightarrow> grows t u \<Longrightarrow> grows s u"
  unfolding grows_def by (meson subset_trans)

lemma sim_id [simp]: "sim m f R (\<lambda>s. s) {}"
  by (simp add: sim_def grows_def)

lemma grows_advances: "grows s s' \<Longrightarrow> advances m f (fl s) (set (markRoots s) \<union> E) (fl s') (set (markRoots s') \<union> E)"
  by (intro advances_more) (auto simp: grows_def)

lemma sim_comp:
  assumes "sim m f R h A" and "sim m f R k B"
  shows "sim m f R (\<lambda>s. k (h s)) (A \<union> B)"
  unfolding sim_def
proof (intro allI impI)
  fix s E
  assume s: "good m f R E s \<and> (\<forall>i\<in>A \<union> B. live m f R i)"
  then have 1: "good m f R E (h s)" "grows s (h s)" "\<forall>i\<in>A. acc m f (fl (h s)) (set (markRoots (h s))) i"
    using assms(1) unfolding sim_def by blast+
  then have 2: "good m f R E (k (h s))" "grows (h s) (k (h s))"
    "\<forall>i\<in>B. acc m f (fl (k (h s))) (set (markRoots (k (h s)))) i"
    using assms(2) s unfolding sim_def by blast+
  have "acc m f (fl (k (h s))) (set (markRoots (k (h s)))) i" if "i \<in> A" for i
    using acc_mono [OF _ grows_advances [OF 2(2), of m f "{}", simplified]] 1(3) that by blast
  moreover have "grows s (k (h s))" using 1(2) 2(2) by (rule grows_trans)
  ultimately show "good m f R E (k (h s)) \<and> grows s (k (h s)) \<and>
      (\<forall>i\<in>A \<union> B. acc m f (fl (k (h s))) (set (markRoots (k (h s)))) i)"
    using 2 by blast
qed

lemma sim_compose: "sim m f R h A \<Longrightarrow> sim m f R k B \<Longrightarrow> C = A \<union> B \<Longrightarrow> sim m f R (\<lambda>s. k (h s)) C"
  using sim_comp by simp

end
