(* ===== verification/GcMarkOps.thy ===== *)
theory GcMarkOps
  imports GcMarkInv
begin

text \<open>
  Every marking operation keeps the invariant and accounts for what it is called on, and scanning a
  root accounts for all its references.
\<close>

section \<open>Flags\<close>

lemma read_flags [simp]:
  "insert WeakMark A \<inter> ReadFlags = A \<inter> ReadFlags" "insert DataMark A \<inter> ReadFlags = A \<inter> ReadFlags"
  "insert ClassMark A \<inter> ReadFlags = A \<inter> ReadFlags" "insert ClosureWeakMark A \<inter> ReadFlags = A \<inter> ReadFlags"
  "Invalid \<in> ReadFlags" "DynamicArray \<in> ReadFlags"
  by (simp_all add: ReadFlags_def)

lemma set_flags_simps [simp]:
  "fl (set_flags b F s) c = (if c = b then fl s c \<union> F else fl s c)" "markRoots (set_flags b F s) = markRoots s"
  by (simp_all add: set_flags_def)

lemma weakMark_simps [simp]:
  "fl (weakMark m b s) c = (if c = b \<or> c = b - rootOffset m b then insert WeakMark (fl s c) else fl s c)"
  "markRoots (weakMark m b s) = markRoots s"
  by (auto simp: weakMark_def Let_def)

lemma fixed_flag:
  assumes "mark_inv m f X g Q" and "x \<in> ReadFlags"
  shows "x \<in> g b \<longleftrightarrow> x \<in> f b"
proof -
  have "g b \<inter> ReadFlags = f b \<inter> ReadFlags" using assms(1) by (simp add: mark_inv_def)
  then show ?thesis using assms(2) by blast
qed

lemma start_flag: "mark_inv m f X g Q \<Longrightarrow> x \<in> f b \<Longrightarrow> x \<in> g b"
  by (auto simp: mark_inv_def)

section \<open>Weak marks and data\<close>

lemma sim_weakMark: "sim m f R (weakMark m b) {IWeak b}"
  unfolding sim_def
proof (intro allI impI)
  fix s E
  let ?s = "weakMark m b s"
  let ?Q = "set (markRoots ?s) \<union> E"
  let ?N = "set (markRoots ?s)"
  assume s: "good m f R E s \<and> (\<forall>i\<in>{IWeak b}. live m f R i)"
  have g: "grows s ?s" by (auto simp: grows_def)
  have "mark_inv m f {} (fl ?s) ?Q"
    using s g by (intro mark_inv_step [where X = "{}" and X' = "{}", OF _ grows_advances [OF g]]) (auto simp: good_def split: if_splits)
  moreover have "justified m f R ?s" using s by (auto simp: good_def justified_def kept_def split: if_splits)
  moreover have "acc m f (fl ?s) ?N (IWeak b)" by (rule acc_weak) (simp add: weak_ok_def)
  ultimately show "good m f R E ?s \<and> grows s ?s \<and> (\<forall>i\<in>{IWeak b}. acc m f (fl ?s) ?N i)"
    using g by (simp add: good_def)
qed

text \<open>The roots that \<^verbatim>\<open>markData\<close> adds for a box, in order.\<close>

definition data_root_list :: "gcmem \<Rightarrow> (addr \<Rightarrow> box_flag set) \<Rightarrow> addr \<Rightarrow> (addr \<times> gtype) list" where
  "data_root_list m f b =
     (let t = btype m b
      in if \<not> gcroot t \<or> Invalid \<in> f b then []
         else if is_class t then [(b, t)]
         else if DynamicArray \<notin> f b then [(data_of b, t)]
         else map (\<lambda>i. (data_of b + gsize t * of_nat i, t)) [0..<getDynamicArrayElementCount m b])"

lemma set_data_root_list: "gcroot (btype m b) \<Longrightarrow> Invalid \<notin> f b \<Longrightarrow> set (data_root_list m f b) = data_roots m f b"
  by (auto simp: data_root_list_def data_roots_def Let_def)

lemma data_root_list_live:
  assumes "live m f R (IData b)" and "DataMark \<notin> f b" and "(p, t) \<in> set (data_root_list m f b)"
  shows "live m f R (IRoot p t)"
proof -
  have "gcroot (btype m b)" "Invalid \<notin> f b"
    using assms(3) by (auto simp: data_root_list_def Let_def split: if_splits)
  then show ?thesis using assms set_data_root_list [of m b f] by (intro live_data_root [OF assms(1,2)]) auto
qed

lemma markData_eq:
  assumes "mark_inv m f X (fl s) Q" and "DataMark \<notin> fl s b"
  shows "markData m b s = (set_flags b {DataMark} (weakMark m b s))\<lparr>markRoots := markRoots s @ data_root_list m f b\<rparr>"
  using assms(2) fixed_flag [OF assms(1)]
  by (simp add: markData_def Let_def data_root_list_def push_root_def addRootArray_def)

lemma sim_markData: "sim m f R (markData m b) {IData b}"
  unfolding sim_def
proof (intro allI impI)
  fix s E
  let ?s = "markData m b s"
  let ?Q = "set (markRoots ?s) \<union> E"
  let ?N = "set (markRoots ?s)"
  assume s: "good m f R E s \<and> (\<forall>i\<in>{IData b}. live m f R i)"
  then have w: "good m f R E (weakMark m b s)" "grows s (weakMark m b s)" 
    using sim_weakMark [of m f R b] live_data_weak [of m f R b] unfolding sim_def by blast+
  have inv: "mark_inv m f {} (fl s) (set (markRoots s) \<union> E)" using s by (simp add: good_def)
  show "good m f R E ?s \<and> grows s ?s \<and> (\<forall>i\<in>{IData b}. acc m f (fl ?s) ?N i)"
  proof (cases "DataMark \<in> fl s b")
    case True
    then have "?s = weakMark m b s" by (simp add: markData_def Let_def)
    moreover have "acc m f (fl (weakMark m b s)) (set (markRoots (weakMark m b s))) (IData b)"
      using True by (intro acc_data) (simp_all add: weak_ok_def)
    ultimately show ?thesis using w by simp
  next
    case False
    note e = markData_eq [OF inv False]
    have g: "grows (weakMark m b s) ?s" unfolding e by (auto simp: grows_def)
    have f: "DataMark \<notin> f b" using False inv by (auto simp: mark_inv_def)
    have "data_ok m f (fl ?s) ?Q b"
      using set_data_root_list [of m b f] unfolding data_ok_def e by (auto intro!: acc_queued [OF _ covered_refl])
    then have "mark_inv m f {} (fl ?s) ?Q"
      using w(1) by (intro mark_inv_step [where X = "{}" and X' = "{}", OF _ grows_advances [OF g]]) (auto simp: good_def e split: if_splits)
    moreover have "justified m f R ?s"
      using w(1) s data_root_list_live [of m f R b] f by (auto simp: good_def justified_def e split: if_splits)
    moreover have "acc m f (fl ?s) ?N (IData b)" by (rule acc_data) (auto simp: e weak_ok_def)
    ultimately show ?thesis using grows_trans [OF w(2) g] by (simp add: good_def)
  qed
qed

lemma sim_markDataPtr: "sim m f R (markDataPtr m p) (data_ptr_refs m p)"
proof -
  have "sim m f R (\<lambda>s. markData m (ld m (ld m (p + 8) + 8)) (weakMark m (ld m (ld m (p + 8))) s))
      ({IWeak (ld m (ld m (p + 8)))} \<union> {IData (ld m (ld m (p + 8) + 8))})"
    by (rule sim_comp [OF sim_weakMark sim_markData])
  then show ?thesis by (cases "ld m (p + 8) = 0") (simp_all add: markDataPtr_def [abs_def] data_ptr_refs_def Let_def insert_commute)
qed

lemma sim_push:
  assumes "\<And>p t. (p, t) \<in> set rs \<Longrightarrow> IRoot p t \<in> A" and "A \<subseteq> (\<lambda>(p, t). IRoot p t) ` set rs"
  shows "sim m f R (\<lambda>s::mstate. s\<lparr>markRoots := markRoots s @ rs\<rparr>) A"
  unfolding sim_def
proof (intro allI impI)
  fix s :: mstate and E
  let ?s = "s\<lparr>markRoots := markRoots s @ rs\<rparr>"
  let ?Q = "set (markRoots ?s) \<union> E"
  let ?N = "set (markRoots ?s)"
  assume s: "good m f R E s \<and> (\<forall>i\<in>A. live m f R i)"
  have g: "grows s ?s" by (simp add: grows_def)
  have "mark_inv m f {} (fl s) ?Q"
    using s grows_advances [OF g, of m f E] by (simp add: good_def mark_inv_queue [where Q = "set (markRoots s) \<union> E"])
  moreover have "justified m f R ?s" using s assms(1) by (auto simp: good_def justified_def)
  moreover have "acc m f (fl s) ?N (IRoot p t)" if "(p, t) \<in> set rs" for p t
    using that by (intro acc_queued [OF _ covered_refl]) simp
  then have "\<forall>i\<in>A. acc m f (fl s) ?N i" using assms(2) by auto
  ultimately show "good m f R E ?s \<and> grows s ?s \<and> (\<forall>i\<in>A. acc m f (fl ?s) ?N i)" using g by (simp add: good_def)
qed

lemma sim_push_root: "sim m f R (push_root p t) {IRoot p t}"
  using sim_push [of "[(p, t)]" "{IRoot p t}"] by (simp add: push_root_def [abs_def])

lemma sim_addRootArray: "sim m f R (addRootArray p t n) (array_refs p t n)"
  unfolding addRootArray_def [abs_def] by (rule sim_push) (auto simp: array_refs_def)

section \<open>Objects\<close>

lemma refs_emb:
  "(e, t) \<in> emb ty iface \<Longrightarrow> gcroot t \<Longrightarrow> gcroot ty \<and> refs t m f V e \<subseteq> refs_impl ty m f V iface"
  "(e, t) \<in> emb_bases bs iface \<Longrightarrow> gcroot t \<Longrightarrow> gcroots bs \<and> refs t m f V e \<subseteq> refs_bases bs m f V iface"
  "(e, t) \<in> emb_fields fs iface \<Longrightarrow> gcroot t \<Longrightarrow> gcroots fs \<and> refs t m f V e \<subseteq> refs_fields fs m f V iface"
  by (induction ty and bs and fs arbitrary: iface and iface and iface rule: emb_emb_bases_emb_fields.induct)
    (auto split: if_splits; fastforce)+

lemma emb_class:
  "(e, t) \<in> emb ty iface \<Longrightarrow> is_class t" "(e, t) \<in> emb_bases bs iface \<Longrightarrow> is_class t"
  "(e, t) \<in> emb_fields fs iface \<Longrightarrow> is_class t"
  by (induction ty and bs and fs arbitrary: iface and iface and iface rule: emb_emb_bases_emb_fields.induct)
    (auto split: if_splits)

lemma root_refs_object:
  assumes "object_ok m f b" and "Invalid \<notin> f b"
  shows "root_refs m f (btype m b) b = refs_impl (btype m b) m f (variant_refs m f) (iface_of b)"
  using assms by (cases "btype m b") (simp_all add: object_ok_def root_refs_def is_class_def)

text \<open>Marking the embedded objects \<open>B\<close> of an object whose memory root \<open>r\<close> is kept.\<close>

definition fields_pre :: "gcmem \<Rightarrow> (addr \<Rightarrow> box_flag set) \<Rightarrow> item set \<Rightarrow> (addr \<times> gtype) set \<Rightarrow> addr set \<Rightarrow> addr \<Rightarrow>
    (addr \<times> gtype) set \<Rightarrow> mstate \<Rightarrow> bool" where
  "fields_pre m f R E X r B s \<longleftrightarrow>
     mark_inv m f X (fl s) (set (markRoots s) \<union> E) \<and> justified m f R s \<and> WeakMark \<in> fl s r \<and>
     (\<forall>(e, t)\<in>B. btype m e = t \<and> live m f R (IClass e) \<and> e - rootOffset m e = r \<and>
        (gcroot t \<and> Invalid \<notin> f e \<longrightarrow> acc m f (fl s) (set (markRoots s) \<union> E) (IRoot e t)))"

definition fields_post :: "gcmem \<Rightarrow> (addr \<Rightarrow> box_flag set) \<Rightarrow> item set \<Rightarrow> (addr \<times> gtype) set \<Rightarrow> addr set \<Rightarrow>
    (addr \<times> gtype) set \<Rightarrow> mstate \<Rightarrow> mstate \<Rightarrow> bool" where
  "fields_post m f R E X B s s' \<longleftrightarrow>
     mark_inv m f X (fl s') (set (markRoots s') \<union> E) \<and> justified m f R s' \<and>
     (\<forall>b. fl s b \<subseteq> fl s' b) \<and> markRoots s' = markRoots s \<and> (\<forall>(e, t)\<in>B. ClassMark \<in> fl s' e)"

lemma fields_pre_next:
  assumes "fields_pre m f R E X r B s" and "fields_post m f R E X B' s s'"
  shows "fields_pre m f R E X r B s'"
proof -
  have "advances m f (fl s) (set (markRoots s) \<union> E) (fl s') (set (markRoots s') \<union> E)"
    using assms(2) by (intro advances_more) (auto simp: fields_post_def)
  note a = acc_mono [OF _ this]
  then show ?thesis using assms by (auto simp: fields_pre_def fields_post_def)
qed

lemma fields_post_trans:
  assumes "fields_post m f R E X B s s1" and "fields_post m f R E X B' s1 s2"
  shows "fields_post m f R E X (B \<union> B') s s2"
proof -
  have "fl s b \<subseteq> fl s2 b" for b using assms by (meson fields_post_def subset_trans)
  moreover have "ClassMark \<in> fl s2 e" if "(e, t) \<in> B" for e t
  proof -
    have "ClassMark \<in> fl s1 e" "fl s1 e \<subseteq> fl s2 e" using assms that by (auto simp: fields_post_def)
    then show ?thesis by blast
  qed
  ultimately show ?thesis using assms by (auto simp: fields_post_def)
qed

lemma fields_post_refl: "fields_pre m f R E X r B s \<Longrightarrow> fields_post m f R E X {} s s"
  by (simp add: fields_pre_def fields_post_def)

lemma fields_pre_mono: "fields_pre m f R E X r B s \<Longrightarrow> B' \<subseteq> B \<Longrightarrow> fields_pre m f R E X r B' s"
  by (auto simp: fields_pre_def)

lemma fields_seq:
  assumes pre: "fields_pre m f R E X r (B \<union> B') s"
    and 1: "fields_pre m f R E X r B s \<Longrightarrow> fields_post m f R E X B s s1"
    and 2: "fields_pre m f R E X r B' s1 \<Longrightarrow> fields_post m f R E X B' s1 s2"
  shows "fields_post m f R E X (B \<union> B') s s2"
proof -
  have p1: "fields_post m f R E X B s s1" by (rule 1 [OF fields_pre_mono [OF pre]]) simp
  have "fields_pre m f R E X r B' s1" by (rule fields_pre_next [OF fields_pre_mono [OF pre] p1]) simp
  then show ?thesis by (rule fields_post_trans [OF p1 2])
qed

text \<open>One embedded object: its own box, then its fields.\<close>

lemma field_enter:
  assumes ok: "heap_ok m f R" and pre: "fields_pre m f R E X r {(e, t)} s" and c: "is_class t" "ClassMark \<notin> fl s e"
  shows "fields_pre m f R E (insert e X) r (emb t (iface_of e)) (set_flags e {ClassMark, DataMark, WeakMark} s)"
    (is "fields_pre m f R E _ r _ ?s")
proof -
  let ?Q = "set (markRoots s) \<union> E"
  have e: "btype m e = t" "live m f R (IClass e)" "e - rootOffset m e = r" "WeakMark \<in> fl s r"
    and inv: "mark_inv m f X (fl s) ?Q" and j: "justified m f R s"
    and ac: "gcroot t \<Longrightarrow> Invalid \<notin> f e \<Longrightarrow> acc m f (fl s) ?Q (IRoot e t)"
    using pre by (auto simp: fields_pre_def)
  have ne: "ClassMark \<notin> f e" using c(2) inv by (auto simp: mark_inv_def)
  have obj: "object_ok m f e" using ok e(2) ne by (simp add: heap_ok_def)
  have adv: "advances m f (fl s) ?Q (fl ?s) ?Q" by (intro advances_more) auto
  have ac': "gcroot t \<Longrightarrow> Invalid \<notin> f e \<Longrightarrow> acc m f (fl ?s) ?Q (IRoot e t)" using acc_mono [OF _ adv] ac by blast
  have "data_roots m f e = {(e, t)}" using e(1) c(1) by (simp add: data_roots_def)
  then have "data_ok m f (fl ?s) ?Q e" "class_ok m f (fl ?s) ?Q e"
    using ac' e by (auto simp: data_ok_def class_ok_def weak_ok_def)
  then have "mark_inv m f (insert e X) (fl ?s) ?Q"
    by (intro mark_inv_step [OF inv adv]) (auto split: if_splits)
  moreover have "justified m f R ?s"
    using j e(2) live_class_weak [OF e(2) ne] by (auto simp: justified_def kept_def split: if_splits)
  moreover have "WeakMark \<in> fl ?s r" using e(4) by simp
  moreover have "btype m e' = t' \<and> live m f R (IClass e') \<and> e' - rootOffset m e' = r \<and>
      (gcroot t' \<and> Invalid \<notin> f e' \<longrightarrow> acc m f (fl ?s) ?Q (IRoot e' t'))" if b: "(e', t') \<in> emb t (iface_of e)" for e' t'
  proof -
    have o: "btype m e' = t'" "Invalid \<in> f e \<longrightarrow> Invalid \<in> f e'" "e' - rootOffset m e' = r"
      using obj b e(1,3) by (auto simp: object_ok_def)
    moreover have "live m f R (IClass e')" using live_class_field [OF e(2) ne] b e(1) by simp
    moreover have "acc m f (fl ?s) ?Q (IRoot e' t')" if g: "gcroot t'" "Invalid \<notin> f e'"
    proof (rule acc_root_covered [OF ac'])
      show "gcroot t" "Invalid \<notin> f e" using refs_emb(1) [OF b g(1)] g(2) o(2) by auto
      then have "root_refs m f t e = refs_impl t m f (variant_refs m f) (iface_of e)"
        using root_refs_object [OF obj] e(1) by simp
      then show "covered (root_refs m f t' e') (root_refs m f t e)"
        using refs_emb(1) [OF b g(1)] by (intro covered_subset) (simp add: root_refs_def)
    qed
    ultimately show ?thesis by blast
  qed
  ultimately show ?thesis by (auto simp: fields_pre_def)
qed

lemma field_leave:
  assumes pre: "fields_pre m f R E X r {(e, t)} s" and "is_class t"
    and post: "fields_post m f R E (insert e X) (emb t (iface_of e)) (set_flags e {ClassMark, DataMark, WeakMark} s) s'"
  shows "fields_post m f R E X {(e, t)} s s'"
proof -
  have "fields_ok m (fl s') e" using pre post by (auto simp: fields_pre_def fields_post_def fields_ok_def)
  moreover have "mark_inv m f (insert e X) (fl s') (set (markRoots s') \<union> E)" using post unfolding fields_post_def by blast
  moreover have "advances m f (fl s') (set (markRoots s') \<union> E) (fl s') (set (markRoots s') \<union> E)" by (intro advances_more) auto
  ultimately have "mark_inv m f X (fl s') (set (markRoots s') \<union> E)"
    by (elim mark_inv_step) auto
  moreover have "fl s b \<subseteq> fl s' b" for b using post by (auto simp: fields_post_def split: if_splits dest: spec [of _ b])
  moreover have "ClassMark \<in> fl s' e" using post by (auto simp: fields_post_def dest: spec [of _ e])
  ultimately show ?thesis using post by (simp add: fields_post_def)
qed

lemma marks_fields:
  assumes ok: "heap_ok m f R"
  shows "fields_pre m f R E X r (emb ty iface) s \<Longrightarrow> fields_post m f R E X (emb ty iface) s (markClassFields ty iface s)"
    and "fields_pre m f R E X r (emb_bases bs iface) s \<Longrightarrow> fields_post m f R E X (emb_bases bs iface) s (markBases bs iface s)"
    and "fields_pre m f R E X r (emb_fields fs iface) s \<Longrightarrow> fields_post m f R E X (emb_fields fs iface) s (markFields fs iface s)"
proof (induction ty and bs and fs arbitrary: X iface s and X iface s and X iface s
    rule: markClassFields_markBases_markFields.induct)
  case (1 k n d bs fs a)
  show ?case using fields_seq [OF _ 1(2) 1(1)] 1(3) by simp
next
  case (4 off t bs)
  let ?s = "if is_class t then markClassFields t (iface + off) s else s"
  have "fields_pre m f R E X r (if is_class t then emb t (iface + off) else {}) s \<Longrightarrow>
      fields_post m f R E X (if is_class t then emb t (iface + off) else {}) s ?s"
    using 4(2) fields_post_refl by (cases "is_class t") simp_all
  then show ?case using fields_seq [OF _ _ 4(1)] 4(3) by simp
next
  case (6 off t fs)
  let ?e = "iface + off"
  let ?s = "if is_class t \<and> ClassMark \<notin> fl s ?e
    then markClassFields t (iface_of ?e) (set_flags ?e {ClassMark, DataMark, WeakMark} s) else s"
  have "fields_post m f R E X (if is_class t then {(?e, t)} else {}) s ?s"
    if p: "fields_pre m f R E X r (if is_class t then {(?e, t)} else {}) s"
  proof (cases "is_class t \<and> ClassMark \<notin> fl s ?e")
    case True
    then have pre: "fields_pre m f R E X r {(?e, t)} s" using p by simp
    have c: "is_class t" "ClassMark \<notin> fl s ?e" using True by simp_all
    have "fields_post m f R E (insert ?e X) (emb t (iface_of ?e)) (set_flags ?e {ClassMark, DataMark, WeakMark} s) ?s"
      using 6(2) [OF True field_enter [OF ok pre c]] True by simp
    then show ?thesis using field_leave [OF pre c(1)] c(1) by simp
  next
    case False
    then show ?thesis using p by (auto simp: fields_pre_def fields_post_def)
  qed
  then show ?case using fields_seq [OF _ _ 6(1)] 6(3) by simp
qed (simp_all add: fields_post_refl)

text \<open>An object: its memory root is kept, its class fields are marked before its own flags, and it is
  queued if it has references.\<close>

lemma sim_markClass:
  assumes ok: "heap_ok m f R"
  shows "sim m f R (markClass m b) {IClass b}"
  unfolding sim_def
proof (intro allI impI)
  fix s E
  let ?s = "markClass m b s"
  assume s: "good m f R E s \<and> (\<forall>i\<in>{IClass b}. live m f R i)"
  then have inv: "mark_inv m f {} (fl s) (set (markRoots s) \<union> E)" and l: "live m f R (IClass b)" by (simp_all add: good_def)
  show "good m f R E ?s \<and> grows s ?s \<and> (\<forall>i\<in>{IClass b}. acc m f (fl ?s) (set (markRoots ?s)) i)"
  proof (cases "ClassMark \<in> fl s b")
    case True
    have "weak_ok m (fl s) b"
    proof (cases "ClassMark \<in> f b")
      case True
      then have "weak_ok m f b" using ok by (simp add: heap_ok_def)
      then show ?thesis by (rule weak_ok_mono) (use inv in \<open>simp add: mark_inv_def\<close>)
    next
      case False
      then show ?thesis using inv True by (simp add: mark_inv_def class_ok_def)
    qed
    then show ?thesis using True s by (auto simp: markClass_def grows_def intro: acc_class)
  next
    case False
    then have ne: "ClassMark \<notin> f b" using inv by (auto simp: mark_inv_def)
    have obj: "object_ok m f b" using ok l ne by (simp add: heap_ok_def)
    define t where "t = btype m b"
    define rs where "rs = (if gcroot t \<and> Invalid \<notin> f b then [(b, t)] else [])"
    define E' where "E' = set rs \<union> E"
    let ?w = "weakMark m b s"
    let ?c = "markClassFields t (iface_of b) ?w"
    have w: "good m f R E ?w" "grows s ?w"
      using sim_weakMark [of m f R b] s live_class_weak [OF l ne] unfolding sim_def by blast+
    have "mark_inv m f {} (fl ?w) (set (markRoots ?w) \<union> E')"
      by (rule mark_inv_queue [OF _ advances_more]) (use w(1) in \<open>auto simp: good_def E'_def\<close>)
    moreover have "WeakMark \<in> fl ?w (b - rootOffset m b)" by simp
    moreover have "btype m e = u \<and> live m f R (IClass e) \<and> e - rootOffset m e = b - rootOffset m b \<and>
        (gcroot u \<and> Invalid \<notin> f e \<longrightarrow> acc m f (fl ?w) (set (markRoots ?w) \<union> E') (IRoot e u))"
      if e: "(e, u) \<in> emb t (iface_of b)" for e u
    proof -
      have o: "btype m e = u" "Invalid \<in> f b \<longrightarrow> Invalid \<in> f e" "e - rootOffset m e = b - rootOffset m b"
        using obj e by (auto simp: object_ok_def t_def)
      moreover have "acc m f (fl ?w) (set (markRoots ?w) \<union> E') (IRoot e u)" if g: "gcroot u" "Invalid \<notin> f e"
      proof (rule acc_queued)
        have v: "gcroot t" "Invalid \<notin> f b" using refs_emb(1) [OF e g(1)] g(2) o(2) by auto
        then show "(b, t) \<in> set (markRoots ?w) \<union> E'" by (simp add: E'_def rs_def)
        show "covered (root_refs m f u e) (root_refs m f t b)"
          using refs_emb(1) [OF e g(1)] root_refs_object [OF obj v(2)]
          by (intro covered_subset) (simp add: root_refs_def t_def)
      qed
      ultimately show ?thesis using live_class_field [OF l ne] e by (simp add: t_def)
    qed
    ultimately have "fields_pre m f R E' {} (b - rootOffset m b) (emb t (iface_of b)) ?w"
      using w(1) by (auto simp: fields_pre_def good_def)
    then have c: "fields_post m f R E' {} (emb t (iface_of b)) ?w ?c" by (rule marks_fields(1) [OF ok])
    have c1: "mark_inv m f {} (fl ?c) (set (markRoots s) \<union> E')" "justified m f R ?c" "\<And>x. fl ?w x \<subseteq> fl ?c x"
      "markRoots ?c = markRoots s" and cf: "\<And>e u. (e, u) \<in> emb t (iface_of b) \<Longrightarrow> ClassMark \<in> fl ?c e"
      using c by (auto simp: fields_post_def)
    have "Invalid \<in> fl ?c b \<longleftrightarrow> Invalid \<in> f b" by (rule fixed_flag [OF c1(1)]) simp
    then have e: "?s = (set_flags b {ClassMark, DataMark} ?c)\<lparr>markRoots := markRoots s @ rs\<rparr>"
      using False c1(4) by (simp add: markClass_def Let_def t_def [symmetric] push_root_def rs_def)
    have Q: "set (markRoots ?s) \<union> E = set (markRoots s) \<union> E'" by (auto simp: e E'_def)
    have wk: "weak_ok m (fl ?s) b" using c1(3) [of b] c1(3) [of "b - rootOffset m b"] by (auto simp: weak_ok_def e)
    have adv: "advances m f (fl ?c) (set (markRoots s) \<union> E') (fl ?s) (set (markRoots s) \<union> E')"
      by (intro advances_more) (auto simp: e)
    have root: "acc m f (fl ?s) (set (markRoots s) \<union> E') (IRoot b t)" if "gcroot t" "Invalid \<notin> f b"
      using that by (intro acc_queued [OF _ covered_refl]) (simp add: E'_def rs_def)
    have "data_roots m f b = {(b, t)}" using obj by (simp add: data_roots_def t_def object_ok_def)
    then have "data_ok m f (fl ?s) (set (markRoots s) \<union> E') b" using root by (simp add: data_ok_def t_def)
    moreover have "class_ok m f (fl ?s) (set (markRoots s) \<union> E') b" using root wk by (simp add: class_ok_def t_def)
    moreover have "fields_ok m (fl ?s) b" using cf by (auto simp: fields_ok_def e t_def)
    ultimately have "mark_inv m f {} (fl ?s) (set (markRoots s) \<union> E')"
      by (intro mark_inv_step [OF c1(1) adv]) (auto simp: e split: if_splits)
    moreover have "justified m f R ?s"
      using c1(2) l live_class_root [OF l ne] c1(4)
      by (auto simp: justified_def e rs_def t_def split: if_splits)
    moreover have "fl s x \<subseteq> fl ?c x" for x using w(2) c1(3) [of x] unfolding grows_def by (meson subset_trans)
    then have "grows s ?s" unfolding grows_def e by (auto; blast)
    moreover have "acc m f (fl ?s) (set (markRoots ?s)) (IClass b)" by (rule acc_class [OF wk]) (simp add: e)
    ultimately show ?thesis by (simp add: good_def Q)
  qed
qed

section \<open>Closures\<close>

lemma sim_cong:
  assumes "\<And>s E. good m f R E s \<Longrightarrow> h s = k s" and "sim m f R k A"
  shows "sim m f R h A"
  using assms unfolding sim_def by metis

lemma sim_weakMarkClosureClass:
  assumes ok: "heap_ok m f R"
  shows "sim m f R (weakMarkClosureClass m b) {IClosure b}"
  unfolding sim_def
proof (intro allI impI)
  fix s E
  let ?s = "weakMarkClosureClass m b s"
  assume s: "good m f R E s \<and> (\<forall>i\<in>{IClosure b}. live m f R i)"
  then have inv: "mark_inv m f {} (fl s) (set (markRoots s) \<union> E)" and l: "live m f R (IClosure b)" by (simp_all add: good_def)
  show "good m f R E ?s \<and> grows s ?s \<and> (\<forall>i\<in>{IClosure b}. acc m f (fl ?s) (set (markRoots ?s)) i)"
  proof (cases "ClassMark \<in> fl s b \<or> ClosureWeakMark \<in> fl s b")
    case True
    then show ?thesis using s by (auto simp: weakMarkClosureClass_def grows_def intro: acc_closure)
  next
    case False
    then have ne: "ClassMark \<notin> f b" "ClosureWeakMark \<notin> f b" using inv by (auto simp: mark_inv_def)
    show ?thesis
    proof (cases "thisArgFieldIdx (btype m b)")
      case None
      have "?s = markClass m b s" using False None by (simp add: weakMarkClosureClass_def)
      moreover have "good m f R E (markClass m b s)" "grows s (markClass m b s)"
        "acc m f (fl (markClass m b s)) (set (markRoots (markClass m b s))) (IClass b)"
        using sim_markClass [OF ok, of b] s live_closure_class [OF l ne None] unfolding sim_def by blast+
      ultimately show ?thesis by (auto elim: acc_classE intro: acc_closure)
    next
      case (Some i)
      let ?rs = "closure_roots (btype m b) i (iface_of b)"
      have e: "?s = (set_flags b {ClosureWeakMark} (weakMark m b s))\<lparr>markRoots := markRoots s @ ?rs\<rparr>"
        using False Some by (simp add: weakMarkClosureClass_def Let_def)
      have w: "good m f R E (weakMark m b s)" "grows s (weakMark m b s)"
        using sim_weakMark [of m f R b] s live_closure_weak [OF l ne Some] unfolding sim_def by blast+
      have g: "grows (weakMark m b s) ?s" by (auto simp: grows_def e)
      have "cl_ok m f (fl ?s) (set (markRoots ?s) \<union> E) b"
        unfolding cl_ok_def
      proof (intro conjI exI ballI)
        show "weak_ok m (fl ?s) b" by (simp add: weak_ok_def e)
        show "thisArgFieldIdx (btype m b) = Some i" by (rule Some)
        fix x
        assume "x \<in> set ?rs"
        then show "case x of (p, t) \<Rightarrow> acc m f (fl ?s) (set (markRoots ?s) \<union> E) (IRoot p t)"
          by (cases x) (auto intro!: acc_queued [OF _ covered_refl] simp: e)
      qed
      then have "mark_inv m f {} (fl ?s) (set (markRoots ?s) \<union> E)"
        using w(1)
        by (intro mark_inv_step [where X = "{}" and X' = "{}", OF _ grows_advances [OF g]]) (auto simp: good_def e split: if_splits)
      moreover have "justified m f R ?s"
        using w(1) l live_closure_root [OF l ne Some] by (auto simp: good_def justified_def e split: if_splits)
      moreover have "acc m f (fl ?s) (set (markRoots ?s)) (IClosure b)" by (rule acc_closure) (simp add: e)
      ultimately show ?thesis using grows_trans [OF w(2) g] by (simp add: good_def)
    qed
  qed
qed

section \<open>Scanning\<close>

lemma sim_mark_class_ptr: "heap_ok m f R \<Longrightarrow> sim m f R (mark_class_ptr m w p) (class_ptr_refs m w p)"
  using sim_weakMark [of m f R] sim_markClass [of m f R]
  by (cases "ld m p = 0"; cases w) (simp_all add: mark_class_ptr_def [abs_def] class_ptr_refs_def Let_def)

lemma sim_mark_closure_ptr: "heap_ok m f R \<Longrightarrow> sim m f R (mark_closure_ptr m k w p) (closure_ptr_refs m k w p)"
  using sim_weakMark [of m f R] sim_markClass [of m f R] sim_weakMarkClosureClass [of m f R]
  by (cases "ld m (p + 8) = 0"; cases w; cases "is_class_kind k (btype m (m_box m (ld m (p + 8))))")
    (simp_all add: mark_closure_ptr_def [abs_def] closure_ptr_refs_def Let_def)

lemma sim_mark_scalar: "heap_ok m f R \<Longrightarrow> sim m f R (mark_scalar m c p) (scalar_refs m c p)"
  by (cases c)
    (simp_all add: mark_scalar_def [abs_def] scalar_refs_def sim_markDataPtr sim_mark_class_ptr sim_mark_closure_ptr
      sim_comp [OF sim_markDataPtr sim_markDataPtr])

lemma sim_if: "(b \<Longrightarrow> sim m f R h A) \<Longrightarrow> sim m f R (\<lambda>s. if b then h s else s) (if b then A else {})"
  by (cases b) simp_all

lemma sim_mgr:
  assumes ok: "heap_ok m f R" and V: "\<And>p. sim m f R (V p) (VR p)"
  shows "sim m f R (mgr t m V p) (refs t m f VR p)"
    and "sim m f R (mgr_impl t m V p) (refs_impl t m f VR p)"
    and "sim m f R (mgr_bases bs m V p) (refs_bases bs m f VR p)"
    and "sim m f R (mgr_fields fs m V p) (refs_fields fs m f VR p)"
proof (induction t and t and bs and fs arbitrary: p and p and p and p rule: mgr_mgr_impl_mgr_bases_mgr_fields.induct)
  case (5 k n d bs fs a)
  let ?b = "m_box m (iface_of p)"
  have "sim m f R (\<lambda>s. if ?b = 0 \<or> Invalid \<in> f ?b then s else mgr_impl (GClass k n d bs fs a) m V (iface_of p) s)
      (refs (GClass k n d bs fs a) m f VR p)"
    using 5 [of ?b m p "\<lparr>fl = (\<lambda>_. {}), markRoots = []\<rparr>" "iface_of p"] by simp
  then show ?case
  proof (rule sim_cong [rotated])
    fix s E
    assume "good m f R E s"
    then have "Invalid \<in> fl s ?b \<longleftrightarrow> Invalid \<in> f ?b" by (intro fixed_flag) (auto simp: good_def)
    then show "mgr (GClass k n d bs fs a) m V p s =
        (if ?b = 0 \<or> Invalid \<in> f ?b then s else mgr_impl (GClass k n d bs fs a) m V (iface_of p) s)"
      by (simp add: Let_def)
  qed
next
  case (9 off t bs)
  let ?h = "\<lambda>s. if \<not> gcroot t then s else if is_class t then mgr_impl t m V (p + off) s else mgr t m V (p + off) s"
  let ?A = "if \<not> gcroot t then {} else if is_class t then refs_impl t m f VR (p + off) else refs t m f VR (p + off)"
  have "sim m f R ?h ?A" using 9 by simp
  then show ?case using sim_comp [of m f R ?h ?A "mgr_bases bs m V p"] 9 by simp
next
  case (11 off t fs)
  let ?h = "\<lambda>s. if gcroot t then mgr t m V (p + off) s else s"
  let ?A = "if gcroot t then refs t m f VR (p + off) else {}"
  have "sim m f R ?h ?A" using 11 by simp
  then show ?case using sim_comp [of m f R ?h ?A "mgr_fields fs m V p"] 11 by simp
next
  case (4 n bs fs)
  then show ?case by (simp add: sim_comp)
next
  case (6 k n d bs fs a)
  then show ?case by (simp add: sim_comp)
qed (simp_all add: sim_mark_scalar [OF ok] V sim_addRootArray)

lemma sim_markGcRoots:
  assumes ok: "heap_ok m f R"
  shows "sim m f R (markGcRoots m t p) (root_refs m f t p)"
proof -
  have "sim m f R (markVariant m q) (variant_refs m f q)" for q
  proof (cases "vtype m q")
    case (Some u)
    then show ?thesis
      using sim_mgr(1) [OF ok, of "\<lambda>p s. s" "\<lambda>p. {}" u q]
      by (cases "gcroot u") (simp_all add: markVariant_def [abs_def] variant_refs_def)
  qed (simp add: markVariant_def [abs_def] variant_refs_def)
  then show ?thesis using sim_mgr(1) [OF ok, of "markVariant m" "variant_refs m f" t p]
    by (simp add: markGcRoots_def [abs_def] root_refs_def)
qed

section \<open>Cycles\<close>

text \<open>When a root has been scanned, it need not be kept among the roots to scan.\<close>

lemma scan_root:
  assumes ok: "heap_ok m f R" and g: "good m f R (insert (p, t) E) s" and l: "live m f R (IRoot p t)"
  shows "good m f R E (markGcRoots m t p s)"
    and "acc m f (fl s) (set (markRoots s) \<union> insert (p, t) E) i \<Longrightarrow>
      acc m f (fl (markGcRoots m t p s)) (set (markRoots (markGcRoots m t p s)) \<union> E) i"
proof -
  let ?s = "markGcRoots m t p s"
  have 1: "good m f R (insert (p, t) E) ?s" "grows s ?s"
    "\<forall>i\<in>root_refs m f t p. acc m f (fl ?s) (set (markRoots ?s)) i"
    using sim_markGcRoots [OF ok, of t p] g live_root [OF l] unfolding sim_def by blast+
  have "advances m f (fl ?s) (set (markRoots ?s)) (fl ?s) (set (markRoots ?s) \<union> E)" by (intro advances_more) auto
  note a = acc_mono [OF _ this]
  have q: "advances m f (fl ?s) (set (markRoots ?s) \<union> insert (p, t) E) (fl ?s) (set (markRoots ?s) \<union> E)"
    using a 1(3) by (auto simp: advances_def)
  then have "mark_inv m f {} (fl ?s) (set (markRoots ?s) \<union> E)"
    by (rule mark_inv_queue [rotated]) (use 1(1) in \<open>simp add: good_def\<close>)
  then show "good m f R E ?s" using 1 by (simp add: good_def)
  show "acc m f (fl s) (set (markRoots s) \<union> insert (p, t) E) i \<Longrightarrow> acc m f (fl ?s) (set (markRoots ?s) \<union> E) i"
    using acc_mono [OF acc_mono [OF _ grows_advances [OF 1(2)]] q] by blast
qed

lemma scan_roots_good:
  assumes ok: "heap_ok m f R" and "good m f R (set rs \<union> E) s" and "\<forall>(p, t)\<in>set rs. live m f R (IRoot p t)"
  shows "good m f R E (scan_roots m rs s) \<and> (acc m f (fl s) (set (markRoots s) \<union> (set rs \<union> E)) i \<longrightarrow>
      acc m f (fl (scan_roots m rs s)) (set (markRoots (scan_roots m rs s)) \<union> E) i)"
  using assms(2,3)
proof (induction rs arbitrary: s)
  case (Cons r rs)
  obtain p t where r: "r = (p, t)" by (cases r)
  have g: "good m f R (insert (p, t) (set rs \<union> E)) s" using Cons.prems by (simp add: r)
  have l: "live m f R (IRoot p t)" using Cons.prems by (simp add: r)
  note s1 = scan_root [OF ok g l]
  show ?case using Cons.IH [OF s1(1)] s1(2) Cons.prems(2) by (simp add: r)
qed simp

lemma mark_round_good:
  assumes ok: "heap_ok m f R" and g: "good m f R {} s"
  shows "good m f R {} (mark_round m s)"
    and "acc m f (fl s) (set (markRoots s)) i \<Longrightarrow> acc m f (fl (mark_round m s)) (set (markRoots (mark_round m s))) i"
proof -
  have g': "good m f R (set (markRoots s) \<union> {}) (s\<lparr>markRoots := []\<rparr>)" using g by (simp add: good_def justified_def)
  have l: "\<forall>(p, t)\<in>set (markRoots s). live m f R (IRoot p t)" using g by (simp add: good_def justified_def)
  show "good m f R {} (mark_round m s)" unfolding mark_round_def using scan_roots_good [OF ok g' l] by blast
  show "acc m f (fl (mark_round m s)) (set (markRoots (mark_round m s))) i" if "acc m f (fl s) (set (markRoots s)) i"
    using scan_roots_good [OF ok g' l, of i] that by (simp add: mark_round_def)
qed

lemma runMarkCycle_good:
  assumes ok: "heap_ok m f R" and g: "good m f R {} s" and run: "runMarkCycle m s = Some s'"
  shows "good m f R {} s'" and "markRoots s' = []" and "acc m f (fl s) (set (markRoots s)) i \<Longrightarrow> acc m f (fl s') {} i"
proof -
  show q: "markRoots s' = []" using while_option_stop [OF run [unfolded runMarkCycle_def]] by simp
  have "good m f R {} s' \<and> (acc m f (fl s) (set (markRoots s)) i \<longrightarrow> acc m f (fl s') (set (markRoots s')) i)"
    using run unfolding runMarkCycle_def
    by (rule while_option_rule [where P = "\<lambda>t. good m f R {} t \<and>
          (acc m f (fl s) (set (markRoots s)) i \<longrightarrow> acc m f (fl t) (set (markRoots t)) i)", rotated])
      (use mark_round_good [OF ok] g in auto)
  then show "good m f R {} s'" "acc m f (fl s) (set (markRoots s)) i \<Longrightarrow> acc m f (fl s') {} i" using q by auto
qed

section \<open>When all is scanned\<close>

text \<open>With no root left to scan, everything live is accounted for.\<close>

lemma closure_root_covered:
  assumes c: "closure_ok m f b" and i: "thisArgFieldIdx (btype m b) = Some i"
    and r: "(p, t) \<in> set (closure_roots (btype m b) i (iface_of b))"
  shows "gcroot (btype m b)" and "covered (root_refs m f t p) (root_refs m f (btype m b) b)"
proof -
  obtain k n d bs fs where ty: "btype m b = GClass k n d bs fs (Some i)"
    using i by (cases "btype m b") (auto simp: thisArgFieldIdx_def)
  have len: "i < length fs" and w: "\<exists>w. snd (fs ! i) = GScalar (GClassPtr w)"
    using c i by (auto simp: closure_ok_def ty class_fields_def)
  have fld: "gcroots fs \<and> refs t m f V (a + off) \<subseteq> refs_fields fs m f V a" if "(off, t) \<in> set fs" "gcroot t" for off t a V
    using that by (induction fs) auto
  have ii: "(fst (fs ! i), snd (fs ! i)) \<in> set fs" using len by simp
  have gi: "gcroot (snd (fs ! i))" using w by (auto simp: scalar_gcroot_def)
  show "gcroot (btype m b)" using fld [OF ii gi] by (simp add: ty)
  have rr: "root_refs m f (btype m b) b = refs_bases bs m f (variant_refs m f) (iface_of b) \<union> refs_fields fs m f (variant_refs m f) (iface_of b)"
    using c by (simp add: ty closure_ok_def root_refs_def)
  consider "(p, t) = (iface_of b + fst (fs ! i), GScalar (GClassPtr True))"
    | j where "(p, t) = (iface_of b + fst (fs ! j), snd (fs ! j))" "j < length fs" "gcroot (snd (fs ! j))"
    using r by (auto simp: closure_roots_def ty class_fields_def)
  then show "covered (root_refs m f t p) (root_refs m f (btype m b) b)"
  proof cases
    case 1
    obtain v where v: "snd (fs ! i) = GScalar (GClassPtr v)" using w by blast
    have "covered (root_refs m f t p) (refs (snd (fs ! i)) m f (variant_refs m f) (iface_of b + fst (fs ! i)))"
      using 1 by (auto simp: covered_def root_refs_def v scalar_refs_def class_ptr_refs_def Let_def)
    moreover have "covered (refs (snd (fs ! i)) m f (variant_refs m f) (iface_of b + fst (fs ! i))) (root_refs m f (btype m b) b)"
      using fld [OF ii gi] by (intro covered_subset) (auto simp: rr)
    ultimately show ?thesis by (rule covered_trans)
  next
    case (2 j)
    then have "(fst (fs ! j), snd (fs ! j)) \<in> set fs" by simp
    moreover have "root_refs m f t p = refs (snd (fs ! j)) m f (variant_refs m f) (iface_of b + fst (fs ! j))"
      using 2 by (simp add: root_refs_def)
    ultimately show ?thesis using fld [of "fst (fs ! j)" "snd (fs ! j)"] 2 by (intro covered_subset) (auto simp: rr)
  qed
qed

lemma acc_root_done: "acc m f g {} (IRoot p t) \<Longrightarrow> i \<in> root_refs m f t p \<Longrightarrow> acc m f g {} i"
  by (blast elim: acc_rootE)

lemma live_acc:
  assumes ok: "heap_ok m f R" and inv: "mark_inv m f {} g {}" and base: "\<And>i. i \<in> R \<Longrightarrow> acc m f g {} i"
    and "live m f R i"
  shows "acc m f g {} i"
  using assms(4)
proof (induction rule: live.induct)
  case (live_base i)
  then show ?case by (rule base)
next
  case (live_root p t i)
  show ?case by (rule acc_root_done [OF live_root.IH live_root.hyps(2)])
next
  case (live_data_weak b)
  then show ?case by (blast elim: acc_dataE intro: acc_weak)
next
  case (live_data_root b p t)
  then have "DataMark \<in> g b" by (blast elim: acc_dataE)
  then have "data_ok m f g {} b" using inv live_data_root by (simp add: mark_inv_def)
  then show ?case using live_data_root by (auto simp: data_ok_def)
next
  case (live_class_weak b)
  then show ?case by (blast elim: acc_classE intro: acc_weak)
next
  case (live_class_root b)
  then have "ClassMark \<in> g b" by (blast elim: acc_classE)
  then have "class_ok m f g {} b" using inv live_class_root by (simp add: mark_inv_def)
  then show ?case using live_class_root by (simp add: class_ok_def)
next
  case (live_class_field b e t)
  then have "ClassMark \<in> g b" by (blast elim: acc_classE)
  then have "fields_ok m g b" using inv live_class_field by (simp add: mark_inv_def)
  then have c: "ClassMark \<in> g e" using live_class_field by (auto simp: fields_ok_def)
  have "weak_ok m g e"
  proof (cases "ClassMark \<in> f e")
    case True
    then have "weak_ok m f e" using ok by (simp add: heap_ok_def)
    then show ?thesis by (rule weak_ok_mono) (use inv in \<open>simp add: mark_inv_def\<close>)
  next
    case False
    then show ?thesis using inv c by (simp add: mark_inv_def class_ok_def)
  qed
  then show ?case using c by (rule acc_class)
next
  case (live_closure_class b)
  have "ClassMark \<in> g b \<or> ClosureWeakMark \<in> g b" using live_closure_class.IH by (blast elim: acc_closureE)
  moreover have "cl_ok m f g {} b" if "ClosureWeakMark \<in> g b" using inv that live_closure_class by (simp add: mark_inv_def)
  ultimately have c: "ClassMark \<in> g b" using live_closure_class by (auto simp: cl_ok_def)
  then have "class_ok m f g {} b" using inv live_closure_class by (simp add: mark_inv_def)
  then show ?case using c by (auto simp: class_ok_def intro: acc_class)
next
  case (live_closure_weak b i)
  have "ClassMark \<in> g b \<or> ClosureWeakMark \<in> g b" using live_closure_weak.IH by (blast elim: acc_closureE)
  then have "class_ok m f g {} b \<or> cl_ok m f g {} b" using inv live_closure_weak by (auto simp: mark_inv_def)
  then show ?case by (auto simp: class_ok_def cl_ok_def intro: acc_weak)
next
  case (live_closure_root b i p t)
  have c: "closure_ok m f b" using ok live_closure_root by (simp add: heap_ok_def)
  have "ClassMark \<in> g b \<or> ClosureWeakMark \<in> g b" using live_closure_root.IH by (blast elim: acc_closureE)
  then show ?case
  proof
    assume "ClosureWeakMark \<in> g b"
    then have "cl_ok m f g {} b" using inv live_closure_root by (simp add: mark_inv_def)
    then show ?thesis using live_closure_root by (auto simp: cl_ok_def)
  next
    assume "ClassMark \<in> g b"
    then have "class_ok m f g {} b" using inv live_closure_root by (simp add: mark_inv_def)
    moreover note r = closure_root_covered [OF c live_closure_root.hyps(4,5)]
    ultimately have "acc m f g {} (IRoot b (btype m b))" using c by (simp add: class_ok_def closure_ok_def)
    then show ?thesis by (rule acc_root_covered [OF _ r(2)])
  qed
qed

end
