(* ===== verification/GcMarkTerm.thy ===== *)
theory GcMarkTerm
  imports GcMarkOps
begin

text \<open>
  The mark cycle ends: a round sets a flag that was not set, or scans arrays whose elements are less
  deep. Addresses are finite, so no hypothesis on the heap is needed.
\<close>

section \<open>Termination\<close>

fun has_variant :: "gtype \<Rightarrow> bool" and have_variants :: "(addr \<times> gtype) list \<Rightarrow> bool" where
  "has_variant (GScalar c) = False"
| "has_variant GVariant = True"
| "has_variant (GArray t n) = has_variant t"
| "has_variant (GStruct n bs fs) = (have_variants bs \<or> have_variants fs)"
| "has_variant (GClass k n d bs fs a) = (have_variants bs \<or> have_variants fs)"
| "have_variants [] = False"
| "have_variants ((off, t) # ts) = (has_variant t \<or> have_variants ts)"

text \<open>A type stored in a variant contains no variant: a variant takes more than \<^verbatim>\<open>Variant::DataSize\<close> bytes.\<close>

definition variants_ok :: "gcmem \<Rightarrow> bool" where
  "variants_ok m \<longleftrightarrow> (\<forall>p t. vtype m p = Some t \<longrightarrow> \<not> has_variant t)"

definition vsize :: "gcmem \<Rightarrow> nat" where
  "vsize m = Suc (Max (range (\<lambda>p. case vtype m p of None \<Rightarrow> 0 | Some t \<Rightarrow> size t)))"

lemma vsize_bound: "vtype m p = Some t \<Longrightarrow> size t < vsize m"
proof -
  assume v: "vtype m p = Some t"
  have "(case vtype m p of None \<Rightarrow> 0 | Some t \<Rightarrow> size t) \<le> Max (range (\<lambda>p. case vtype m p of None \<Rightarrow> 0 | Some t \<Rightarrow> size t))"
    by (rule Max_ge) auto
  then show ?thesis using v by (simp add: vsize_def)
qed

definition depth :: "gcmem \<Rightarrow> gtype \<Rightarrow> nat" where
  "depth m t = (if has_variant t then vsize m else 0) + size t"

text \<open>An operation adds flags, or adds only roots of smaller depth.\<close>

definition progress :: "gcmem \<Rightarrow> nat \<Rightarrow> (mstate \<Rightarrow> mstate) \<Rightarrow> bool" where
  "progress m d h \<longleftrightarrow>
     (\<forall>s. (\<forall>b. fl s b \<subseteq> fl (h s) b) \<and>
        (\<exists>new. markRoots (h s) = markRoots s @ new \<and> (fl (h s) = fl s \<longrightarrow> (\<forall>(p, t)\<in>set new. depth m t < d))))"

lemma progress_id [simp]: "progress m d (\<lambda>s. s)"
  by (simp add: progress_def)

lemma progress_mono: "progress m d h \<Longrightarrow> d \<le> d' \<Longrightarrow> progress m d' h"
  unfolding progress_def by (fastforce intro: order_less_le_trans)

lemma progress_local: "(\<And>s. \<exists>h. progress m d h \<and> k s = h s) \<Longrightarrow> progress m d k"
  unfolding progress_def by metis

lemma progress_comp:
  assumes "progress m d h" and "progress m d k"
  shows "progress m d (\<lambda>s. k (h s))"
  unfolding progress_def
proof (intro allI conjI)
  fix s b
  show "fl s b \<subseteq> fl (k (h s)) b" using assms unfolding progress_def by (meson subset_trans)
next
  fix s
  obtain n1 where n1: "markRoots (h s) = markRoots s @ n1" "fl (h s) = fl s \<longrightarrow> (\<forall>(p, t)\<in>set n1. depth m t < d)"
    using assms(1) unfolding progress_def by blast
  obtain n2 where n2: "markRoots (k (h s)) = markRoots (h s) @ n2" "fl (k (h s)) = fl (h s) \<longrightarrow> (\<forall>(p, t)\<in>set n2. depth m t < d)"
    using assms(2) unfolding progress_def by blast
  have s: "fl s b \<subseteq> fl (h s) b" "fl (h s) b \<subseteq> fl (k (h s)) b" for b using assms unfolding progress_def by blast+
  have "fl (h s) = fl s" if "fl (k (h s)) = fl s"
  proof
    fix b
    show "fl (h s) b = fl s b" using s [of b] that by auto
  qed
  then show "\<exists>new. markRoots (k (h s)) = markRoots s @ new \<and> (fl (k (h s)) = fl s \<longrightarrow> (\<forall>(p, t)\<in>set new. depth m t < d))"
    using n1 n2 by (intro exI [of _ "n1 @ n2"]) auto
qed

lemma progress_weakMark: "progress m d (weakMark m b)"
  by (auto simp: progress_def)

lemma changed: "x \<in> g b \<Longrightarrow> x \<notin> g' b \<Longrightarrow> g \<noteq> g'"
  by auto

lemma progress_markData: "progress m d (markData m b)"
  unfolding progress_def
proof (intro allI conjI)
  fix s c
  show "fl s c \<subseteq> fl (markData m b s) c"
    by (auto simp: markData_def Let_def push_root_def addRootArray_def)
next
  fix s
  show "\<exists>new. markRoots (markData m b s) = markRoots s @ new \<and>
      (fl (markData m b s) = fl s \<longrightarrow> (\<forall>(p, t)\<in>set new. depth m t < d))"
  proof (cases "DataMark \<in> fl s b")
    case False
    have "DataMark \<in> fl (markData m b s) b" by (simp add: markData_def Let_def push_root_def addRootArray_def)
    then have "fl (markData m b s) \<noteq> fl s" using False by auto
    then show ?thesis by (auto simp: markData_def Let_def push_root_def addRootArray_def)
  qed (simp add: markData_def Let_def)
qed

lemma progress_fields:
  "(\<forall>b. fl s b \<subseteq> fl (markClassFields t p s) b) \<and> markRoots (markClassFields t p s) = markRoots s"
  "(\<forall>b. fl s b \<subseteq> fl (markBases bs p s) b) \<and> markRoots (markBases bs p s) = markRoots s"
  "(\<forall>b. fl s b \<subseteq> fl (markFields fs p s) b) \<and> markRoots (markFields fs p s) = markRoots s"
proof (induction t and bs and fs arbitrary: p s and p s and p s rule: markClassFields_markBases_markFields.induct)
  case (1 k n d bs fs a)
  then show ?case by simp (meson subset_trans)
next
  case (4 off t bs)
  then show ?case by simp (meson subset_trans)
next
  case (6 off t fs)
  let ?s1 = "set_flags (p + off) {ClassMark, DataMark, WeakMark} s"
  let ?s = "if is_class t \<and> ClassMark \<notin> fl s (p + off) then markClassFields t (iface_of (p + off)) ?s1 else s"
  have "fl s b \<subseteq> fl ?s b" for b
  proof (cases "is_class t \<and> ClassMark \<notin> fl s (p + off)")
    case True
    have "fl s b \<subseteq> fl ?s1 b" by auto
    also have "\<dots> \<subseteq> fl (markClassFields t (iface_of (p + off)) ?s1) b" using 6(2) [OF True] by blast
    finally show ?thesis using True by simp
  qed auto
  moreover have "markRoots ?s = markRoots s"
  proof (cases "is_class t \<and> ClassMark \<notin> fl s (p + off)")
    case True
    then show ?thesis using 6(2) [OF True] by simp
  qed auto
  moreover have e: "markFields ((off, t) # fs) p s = markFields fs p ?s" by simp
  moreover have "fl ?s b \<subseteq> fl (markFields fs p ?s) b" "markRoots (markFields fs p ?s) = markRoots ?s" for b
    using 6(1) [of ?s p] by blast+
  ultimately have "fl s b \<subseteq> fl (markFields fs p ?s) b" "markRoots (markFields fs p ?s) = markRoots s" for b
    by (blast intro: subset_trans, simp)
  then show ?case unfolding e by blast
qed simp_all

lemma progress_markClass: "progress m d (markClass m b)"
  unfolding progress_def
proof (intro allI conjI)
  fix s c
  have "fl s c \<subseteq> fl (weakMark m b s) c" by auto
  also have "\<dots> \<subseteq> fl (markClassFields (btype m b) (iface_of b) (weakMark m b s)) c" using progress_fields(1) by blast
  finally show "fl s c \<subseteq> fl (markClass m b s) c"
    by (auto simp: markClass_def Let_def push_root_def)
next
  fix s
  show "\<exists>new. markRoots (markClass m b s) = markRoots s @ new \<and>
      (fl (markClass m b s) = fl s \<longrightarrow> (\<forall>(p, t)\<in>set new. depth m t < d))"
  proof (cases "ClassMark \<in> fl s b")
    case False
    have "ClassMark \<in> fl (markClass m b s) b" using False by (simp add: markClass_def Let_def push_root_def)
    then have "fl (markClass m b s) \<noteq> fl s" using False by auto
    then show ?thesis using False progress_fields(1) by (simp add: markClass_def Let_def push_root_def)
  qed (simp add: markClass_def)
qed

lemma progress_closure: "progress m d (weakMarkClosureClass m b)"
  unfolding progress_def
proof (intro allI conjI)
  fix s c
  show "fl s c \<subseteq> fl (weakMarkClosureClass m b s) c"
    using progress_markClass [of m d b] by (auto simp: weakMarkClosureClass_def Let_def progress_def split: option.split)
next
  fix s
  let ?s = "weakMarkClosureClass m b s"
  show "\<exists>new. markRoots ?s = markRoots s @ new \<and> (fl ?s = fl s \<longrightarrow> (\<forall>(p, t)\<in>set new. depth m t < d))"
  proof (cases "(ClassMark \<in> fl s b \<or> ClosureWeakMark \<in> fl s b) \<or> thisArgFieldIdx (btype m b) = None")
    case True
    then show ?thesis
      using progress_markClass [of m d b] by (auto simp: weakMarkClosureClass_def progress_def)
  next
    case False
    have "ClosureWeakMark \<in> fl ?s b" using False by (auto simp: weakMarkClosureClass_def Let_def)
    then have "fl ?s \<noteq> fl s" using False by auto
    then show ?thesis using False by (auto simp: weakMarkClosureClass_def Let_def)
  qed
qed

lemma progress_scalar: "progress m d (mark_scalar m c p)"
proof -
  have dp: "progress m d (markDataPtr m p)" for p
    using progress_comp [OF progress_weakMark progress_markData]
    by (cases "ld m (p + 8) = 0") (simp_all add: markDataPtr_def [abs_def] Let_def)
  have cl: "progress m d (mark_class_ptr m w p)" for w p
    using progress_weakMark progress_markClass
    by (cases "ld m p = 0"; cases w) (simp_all add: mark_class_ptr_def [abs_def] Let_def)
  have "progress m d (mark_closure_ptr m k w p)" for k w p
    using progress_weakMark progress_markClass progress_closure
    by (cases "ld m (p + 8) = 0"; cases w; cases "is_class_kind k (btype m (m_box m (ld m (p + 8))))")
      (simp_all add: mark_closure_ptr_def [abs_def] Let_def)
  then show ?thesis
    using dp cl progress_comp [OF dp dp] by (cases c) (simp_all add: mark_scalar_def [abs_def])
qed

lemma size_member: "(off, t) \<in> set ts \<Longrightarrow> size t < Suc (size_list (size_prod (\<lambda>_. 0) size) ts)"
  by (induction ts) auto

lemma variant_member: "(off, t) \<in> set ts \<Longrightarrow> has_variant t \<Longrightarrow> have_variants ts"
  by (induction ts) auto

lemma depth_member:
  "(off, t) \<in> set bs \<or> (off, t) \<in> set fs \<Longrightarrow> depth m t \<le> depth m (GStruct n bs fs)"
  "(off, t) \<in> set bs \<or> (off, t) \<in> set fs \<Longrightarrow> depth m t \<le> depth m (GClass k n d bs fs a)"
  using size_member [of off t bs] size_member [of off t fs] variant_member [of off t bs] variant_member [of off t fs]
  by (auto simp: depth_def)

lemma progress_mgr:
  assumes V: "\<And>p d. vsize m \<le> d \<Longrightarrow> progress m d (V p)"
  shows "depth m t \<le> d \<Longrightarrow> progress m d (mgr t m V p)"
    and "depth m t \<le> d \<Longrightarrow> progress m d (mgr_impl t m V p)"
    and "\<forall>(off, t)\<in>set bs. depth m t \<le> d \<Longrightarrow> progress m d (mgr_bases bs m V p)"
    and "\<forall>(off, t)\<in>set fs. depth m t \<le> d \<Longrightarrow> progress m d (mgr_fields fs m V p)"
proof (induction t and t and bs and fs arbitrary: d p and d p and d p and d p rule: mgr_mgr_impl_mgr_bases_mgr_fields.induct)
  case (1 c)
  then show ?case by (simp add: progress_scalar)
next
  case 2
  then show ?case using V by (simp add: depth_def)
next
  case (3 t n)
  then have "depth m t < d" by (simp add: depth_def)
  then show ?case by (simp add: progress_def addRootArray_def)
next
  case (4 n bs fs)
  have "depth m t \<le> d" if "(off, t) \<in> set bs \<or> (off, t) \<in> set fs" for off t
    using depth_member(1) [OF that, of m n] 4(3) by simp
  then have "\<forall>(off, t)\<in>set bs. depth m t \<le> d" "\<forall>(off, t)\<in>set fs. depth m t \<le> d" by blast+
  then show ?case using 4 by (simp add: progress_comp)
next
  case (5 k n e bs fs a)
  let ?t = "GClass k n e bs fs a"
  show ?case
  proof (cases "m_box m (iface_of p) = 0")
    case False
    have "progress m d (mgr_impl ?t m V (iface_of p))"
      using 5(1) [OF refl False, of "\<lparr>fl = (\<lambda>_. {}), markRoots = []\<rparr>" d "iface_of p"] 5(2) by simp
    then show ?thesis
      by (intro progress_local) (auto simp: Let_def intro: exI [of _ "\<lambda>s. s"])
  qed simp
next
  case (6 k n e bs fs a)
  have "depth m t \<le> d" if "(off, t) \<in> set bs \<or> (off, t) \<in> set fs" for off t
    using depth_member(2) [OF that, of m k n e a] 6(3) by simp
  then have "\<forall>(off, t)\<in>set bs. depth m t \<le> d" "\<forall>(off, t)\<in>set fs. depth m t \<le> d" by blast+
  then show ?case using 6 by (simp add: progress_comp)
next
  case (9 off t bs)
  let ?h = "\<lambda>s. if \<not> gcroot t then s else if is_class t then mgr_impl t m V (p + off) s else mgr t m V (p + off) s"
  have "progress m d ?h" using 9 by (cases "gcroot t"; cases "is_class t") simp_all
  moreover have "progress m d (mgr_bases bs m V p)" using 9 by simp
  ultimately show ?case using progress_comp by simp
next
  case (11 off t fs)
  let ?h = "\<lambda>s. if gcroot t then mgr t m V (p + off) s else s"
  have "progress m d ?h" using 11 by (cases "gcroot t") simp_all
  moreover have "progress m d (mgr_fields fs m V p)" using 11 by simp
  ultimately show ?case using progress_comp by simp
qed simp_all

lemma progress_markGcRoots:
  assumes ok: "variants_ok m"
  shows "progress m (depth m t) (markGcRoots m t p)"
proof -
  have "progress m d (markVariant m q)" if d: "vsize m \<le> d" for q d
  proof (cases "vtype m q")
    case (Some u)
    then have "depth m u \<le> d" using ok vsize_bound [OF Some] d by (simp add: depth_def variants_ok_def)
    then show ?thesis using progress_mgr(1) [of m "\<lambda>p s. s" u d q] Some
      by (cases "gcroot u") (simp_all add: markVariant_def [abs_def])
  qed (simp add: markVariant_def [abs_def])
  then show ?thesis using progress_mgr(1) [of m "markVariant m" t] by (simp add: markGcRoots_def [abs_def])
qed

lemma scan_roots_fun:
  "scan_roots m [] = (\<lambda>s. s)" "scan_roots m ((p, t) # rs) = (\<lambda>s. scan_roots m rs (markGcRoots m t p s))"
  by auto

lemma progress_scan_roots:
  "variants_ok m \<Longrightarrow> \<forall>(p, t)\<in>set rs. depth m t \<le> d \<Longrightarrow> progress m d (scan_roots m rs)"
proof (induction rs)
  case (Cons r rs)
  obtain p t where r: "r = (p, t)" by (cases r)
  have "progress m d (markGcRoots m t p)" using progress_mono [OF progress_markGcRoots] Cons.prems by (simp add: r)
  moreover have "progress m d (scan_roots m rs)" using Cons by simp
  ultimately show ?case using progress_comp by (simp add: r scan_roots_fun)
qed (simp add: scan_roots_fun)

text \<open>A round adds a flag, or the deepest root to scan is less deep.\<close>

definition unset :: "mstate \<Rightarrow> nat" where
  "unset s = card {bx. snd bx \<notin> fl s (fst bx)}"

definition max_depth :: "gcmem \<Rightarrow> mstate \<Rightarrow> nat" where
  "max_depth m s = Max (insert 0 ((\<lambda>(p, t). Suc (depth m t)) ` set (markRoots s)))"

lemma finite_flags: "finite (UNIV :: box_flag set)"
proof -
  have "UNIV = {WeakMark, DataMark, ClassMark, ClosureWeakMark, Destructing, Invalid, StaticBox, DynamicArray, Detached, CallSiteLocal}"
  proof (rule set_eqI)
    fix x :: box_flag
    show "x \<in> UNIV \<longleftrightarrow> x \<in> {WeakMark, DataMark, ClassMark, ClosureWeakMark, Destructing, Invalid, StaticBox, DynamicArray, Detached, CallSiteLocal}"
      by (cases x) simp_all
  qed
  then show ?thesis by (metis finite.emptyI finite.insertI)
qed

lemma finite_marks: "finite (A :: (addr \<times> box_flag) set)"
proof (rule finite_subset)
  show "A \<subseteq> (UNIV :: addr set) \<times> (UNIV :: box_flag set)" by auto
  show "finite ((UNIV :: addr set) \<times> (UNIV :: box_flag set))"
    by (rule finite_cartesian_product [OF _ finite_flags]) simp
qed

lemma unset_less:
  assumes "\<And>b. fl s b \<subseteq> fl s' b" and "fl s' \<noteq> fl s"
  shows "unset s' < unset s"
proof -
  obtain b where "fl s' b \<noteq> fl s b" using assms(2) by blast
  then obtain x where x: "x \<in> fl s' b" "x \<notin> fl s b" using assms(1) by blast
  have "{bx. snd bx \<notin> fl s' (fst bx)} \<subseteq> {bx. snd bx \<notin> fl s (fst bx)}" using assms(1) by auto
  moreover have "(b, x) \<in> {bx. snd bx \<notin> fl s (fst bx)}" "(b, x) \<notin> {bx. snd bx \<notin> fl s' (fst bx)}" using x by simp_all
  ultimately have "{bx. snd bx \<notin> fl s' (fst bx)} \<subset> {bx. snd bx \<notin> fl s (fst bx)}" by blast
  then show ?thesis unfolding unset_def by (rule psubset_card_mono [OF finite_marks])
qed

lemma round_measure:
  assumes ok: "variants_ok m" and ne: "markRoots s \<noteq> []"
  shows "unset (mark_round m s) < unset s \<or>
    (unset (mark_round m s) = unset s \<and> max_depth m (mark_round m s) < max_depth m s)"
proof -
  define d where "d = Max ((\<lambda>(p, t). depth m t) ` set (markRoots s))"
  let ?s = "mark_round m s"
  have "\<forall>(p, t)\<in>set (markRoots s). depth m t \<le> d" by (auto simp: d_def intro!: Max_ge)
  then have pr: "progress m d (scan_roots m (markRoots s))" by (rule progress_scan_roots [OF ok])
  have mono: "fl s b \<subseteq> fl ?s b" for b
    using pr unfolding progress_def mark_round_def by (metis (no_types) mstate.select_convs(1) mstate.surjective mstate.update_convs(2))
  show ?thesis
  proof (cases "fl ?s = fl s")
    case True
    then have new: "\<forall>(p, t)\<in>set (markRoots ?s). depth m t < d"
      using pr unfolding progress_def mark_round_def
      by (metis (no_types, lifting) append_Nil mstate.select_convs mstate.surjective mstate.update_convs(2))
    have "d \<in> (\<lambda>(p, t). depth m t) ` set (markRoots s)" unfolding d_def by (rule Max_in) (use ne in simp_all)
    then obtain p t where "(p, t) \<in> set (markRoots s)" "depth m t = d" by auto
    then have "Suc d \<le> max_depth m s" unfolding max_depth_def by (intro Max_ge) force+
    moreover have "max_depth m ?s \<le> d"
      unfolding max_depth_def using new by (intro Max.boundedI) auto
    ultimately show ?thesis using True by (simp add: unset_def)
  next
    case False
    then show ?thesis using unset_less [of s ?s] mono by blast
  qed
qed

lemma runMarkCycle_total:
  assumes "variants_ok m"
  shows "\<exists>s'. runMarkCycle m s = Some s'"
  unfolding runMarkCycle_def
proof (rule wf_rel_while_option_Some [where P = "\<lambda>_. True" and R = "inv_image (less_than <*lex*> less_than) (\<lambda>s. (unset s, max_depth m s))"])
  show "wf (inv_image (less_than <*lex*> less_than) (\<lambda>s. (unset s, max_depth m s)))" by (intro wf_inv_image wf_lex_prod wf_less_than)
qed (use round_measure [OF assms] in auto)

end
