(* ===== verification/GcMarkThms.thy ===== *)
theory GcMarkThms
  imports GcMarkTerm
begin

text \<open>
  The mark cycle marks exactly what is live from the roots of the threads, the static variables and the
  destruction queue; in a heap without stale marks that is what is reachable.
\<close>

section \<open>The roots of a collection\<close>

definition root_items :: "gcmem \<Rightarrow> addr \<Rightarrow> gtype \<Rightarrow> item set" where
  "root_items m p t =
     (if gcroot t then {IRoot p t}
      else case t of
        GScalar (GThinPtr ToValidator) \<Rightarrow> {IWeak (ld m p)}
      | GScalar (GThinPtr ToClass) \<Rightarrow> {IClass (p - 16)}
      | GScalar (GThinPtr ToData) \<Rightarrow> {IData (p - 48)}
      | _ \<Rightarrow> {})"

definition box_item :: "gcmem \<Rightarrow> addr \<Rightarrow> item" where
  "box_item m b = (if is_class (btype m b) then IClass b else IData b)"

definition slot_items :: "gcmem \<Rightarrow> (nat \<Rightarrow> addr) \<Rightarrow> nat \<times> gtype \<Rightarrow> item set" where
  "slot_items m slots r = (if slots (fst r) = 0 then {} else root_items m (slots (fst r)) (snd r))"

definition map_items :: "gcmem \<Rightarrow> (nat \<Rightarrow> addr) \<Rightarrow> frame_map \<Rightarrow> item set" where
  "map_items m slots fm =
     (case fm of DynamicMap bs \<Rightarrow> box_item m ` set bs | StaticMap rs \<Rightarrow> \<Union> (slot_items m slots ` set rs))"

definition frame_items :: "gcmem \<Rightarrow> frame_map list \<times> (nat \<Rightarrow> addr) \<Rightarrow> item set" where
  "frame_items m f = \<Union> (map_items m (snd f) ` set (fst f))"

definition thread_items :: "gcmem \<Rightarrow> gcthread \<Rightarrow> item set" where
  "thread_items m th =
     \<Union> (frame_items m ` set (th_frames th)) \<union> \<Union> ((\<lambda>(p, t). root_items m p t) ` set (th_tls th)) \<union> IWeak ` set (th_pools th)"

definition heap_roots :: "gcmem \<Rightarrow> gcthread list \<Rightarrow> gcheap \<Rightarrow> item set" where
  "heap_roots m ths h =
     \<Union> ((\<lambda>(p, t). root_items m p t) ` set (staticRoots h)) \<union> \<Union> (thread_items m ` set ths) \<union>
     (\<lambda>iface. IClass (m_box m iface)) ` set (destructQueue h)"

lemma sim_fold: "(\<And>x. x \<in> set xs \<Longrightarrow> sim m f R (k x) (A x)) \<Longrightarrow> sim m f R (fold k xs) (\<Union> (A ` set xs))"
proof (induction xs)
  case Nil
  then show ?case by (simp add: id_def)
next
  case (Cons x xs)
  then have "sim m f R (\<lambda>s. fold k xs (k x s)) (A x \<union> \<Union> (A ` set xs))" by (intro sim_comp) simp_all
  then show ?case by (simp add: comp_def)
qed

lemma sim_addRoot: "heap_ok m f R \<Longrightarrow> sim m f R (addRoot m p t) (root_items m p t)"
  using sim_push_root [of m f R p t] sim_weakMark [of m f R] sim_markClass [of m f R] sim_markData [of m f R]
  by (cases "gcroot t") (auto simp: addRoot_def [abs_def] root_items_def split: gtype.split scalar.split thin_target.split)

lemma sim_image: "(\<And>x. x \<in> set xs \<Longrightarrow> sim m f R (k x) {A x}) \<Longrightarrow> sim m f R (fold k xs) (A ` set xs)"
proof -
  assume a: "\<And>x. x \<in> set xs \<Longrightarrow> sim m f R (k x) {A x}"
  have "(\<Union>x\<in>set xs. {A x}) = A ` set xs" by auto
  then show ?thesis using sim_fold [of xs m f R k "\<lambda>x. {A x}", OF a] by simp
qed

lemma sim_roots:
  assumes ok: "heap_ok m f R"
  shows "sim m f R (add_roots m ths h) (heap_roots m ths h)"
proof -
  have b: "sim m f R (mark_box m b) {box_item m b}" for b
    using sim_markClass [OF ok] sim_markData by (simp add: mark_box_def [abs_def] box_item_def)
  have sl: "sim m f R (add_slot m slots r) (slot_items m slots r)" for slots r
    using sim_addRoot [OF ok] by (simp add: add_slot_def [abs_def] slot_items_def)
  have mp: "sim m f R (add_frame_map m slots fm) (map_items m slots fm)" for slots fm
    using sim_image [of _ m f R "mark_box m" "box_item m", OF b] sim_fold [of _ m f R "add_slot m slots" "slot_items m slots", OF sl]
    by (cases fm) (simp_all add: add_frame_map_def [abs_def] map_items_def)
  have fr: "sim m f R (addShadowStackFrame m fr) (frame_items m fr)" for fr
    unfolding addShadowStackFrame_def [abs_def] frame_items_def by (rule sim_fold [OF mp])
  have ar: "sim m f R (fold (\<lambda>(p, t). addRoot m p t) xs) (\<Union> ((\<lambda>(p, t). root_items m p t) ` set xs))" for xs
    by (rule sim_fold) (auto intro: sim_addRoot [OF ok])
  have th: "sim m f R (add_thread m th) (thread_items m th)" for th
    unfolding add_thread_def [abs_def] thread_items_def
    by (rule sim_comp [OF sim_comp [OF sim_fold [OF fr] ar] sim_image [OF sim_weakMark]])
  show ?thesis
    unfolding add_roots_def [abs_def] heap_roots_def
    by (rule sim_comp [OF sim_comp [OF ar sim_fold [OF th]] sim_image [OF sim_markClass [OF ok]]])
qed

section \<open>Marking is exact\<close>

lemma good_start: "good m f R {} \<lparr>fl = f, markRoots = []\<rparr>"
  by (simp add: good_def mark_inv_def justified_def)

text \<open>From a good state in which the items \<open>R\<close> are accounted for, the cycle ends with exact marks.\<close>

lemma cycle_exact:
  assumes ok: "heap_ok m f R" and g: "good m f R {} s" and base: "\<And>i. i \<in> R \<Longrightarrow> acc m f (fl s) (set (markRoots s)) i"
    and run: "runMarkCycle m s = Some s'"
  shows "WeakMark \<in> fl s' b \<longleftrightarrow> WeakMark \<in> f b \<or> kept m f R b"
    and "ClassMark \<in> fl s' b \<longleftrightarrow> ClassMark \<in> f b \<or> live m f R (IClass b)"
    and "class_marked s' b \<longleftrightarrow> ClassMark \<in> f b \<or> ClosureWeakMark \<in> f b \<or> live m f R (IClass b) \<or> live m f R (IClosure b)"
    and "good m f R {} s'" and "i \<in> R \<Longrightarrow> acc m f (fl s') (set (markRoots s')) i"
    and "live m f R i \<Longrightarrow> acc m f (fl s') {} i"
proof -
  note c = runMarkCycle_good [OF ok g run]
  show g': "good m f R {} s'" by (rule c(1))
  have inv: "mark_inv m f {} (fl s') {}" using c by (simp add: good_def)
  have sub: "f b \<subseteq> fl s' b" for b using inv by (simp add: mark_inv_def)
  have all: "acc m f (fl s') {} i" if "live m f R i" for i
    by (rule live_acc [OF ok inv _ that]) (use c(3) base in blast)
  show "live m f R i \<Longrightarrow> acc m f (fl s') {} i" by (rule all)
  show "i \<in> R \<Longrightarrow> acc m f (fl s') (set (markRoots s')) i" using all [OF live_base] by (simp add: c(2))
  have w: "weak_ok m (fl s') b" if "live m f R (IWeak b)" for b using all [OF that] by (blast elim: acc_weakE)
  have j: "justified m f R s'" using c(1) by (simp add: good_def)
  show "WeakMark \<in> fl s' b \<longleftrightarrow> WeakMark \<in> f b \<or> kept m f R b"
    using j w sub [of b] by (auto simp: justified_def kept_def weak_ok_def)
  have cm: "ClassMark \<in> fl s' b" if "live m f R (IClass b)" for b using all [OF that] by (blast elim: acc_classE)
  show "ClassMark \<in> fl s' b \<longleftrightarrow> ClassMark \<in> f b \<or> live m f R (IClass b)"
    using j cm sub [of b] by (auto simp: justified_def)
  have "ClassMark \<in> fl s' b \<or> ClosureWeakMark \<in> fl s' b" if "live m f R (IClosure b)" for b
    using all [OF that] by (blast elim: acc_closureE)
  then show "class_marked s' b \<longleftrightarrow> ClassMark \<in> f b \<or> ClosureWeakMark \<in> f b \<or> live m f R (IClass b) \<or> live m f R (IClosure b)"
    using j cm sub [of b] by (auto simp: justified_def class_marked_def)
qed

lemma roots_good:
  assumes ok: "heap_ok m f R" and R: "heap_roots m ths h \<subseteq> R" and f: "f = fl (unmark h)"
  shows "good m f R {} (add_roots m ths h (unmark h))"
    and "i \<in> heap_roots m ths h \<Longrightarrow>
      acc m f (fl (add_roots m ths h (unmark h))) (set (markRoots (add_roots m ths h (unmark h)))) i"
proof -
  have u: "unmark h = \<lparr>fl = f, markRoots = []\<rparr>" by (simp add: f unmark_def)
  have l: "\<forall>i\<in>heap_roots m ths h. live m f R i" using R by (blast intro: live_base)
  note s = sim_roots [OF ok, of ths h, unfolded sim_def, rule_format, of "{}" "unmark h"]
  have g: "good m f R {} (unmark h)" unfolding u by (rule good_start)
  show "good m f R {} (add_roots m ths h (unmark h))"
    "i \<in> heap_roots m ths h \<Longrightarrow>
      acc m f (fl (add_roots m ths h (unmark h))) (set (markRoots (add_roots m ths h (unmark h)))) i"
    using s g l by blast+
qed

section \<open>Marks that are never cleared\<close>

text \<open>The boxes outside the heap: static ones, detached ones (of static and of foreign data) and the objects
  embedded in a static object. They are in none of the arrays, are marked when they are set up, and stay
  marked: what static variables refer to is found from the static roots.\<close>

definition outside_box :: "gcmem \<Rightarrow> (addr \<Rightarrow> box_flag set) \<Rightarrow> addr \<Rightarrow> bool" where
  "outside_box m f b \<longleftrightarrow>
     StaticBox \<in> f b \<or> Detached \<in> f b \<or> (\<exists>a. StaticBox \<in> f a \<and> b \<in> set (class_boxes (btype m a) (iface_of a)))"

definition heap_boxes :: "gcheap \<Rightarrow> addr set" where
  "heap_boxes h = set (allocBoxes h) \<union> set (classBoxes h)"

text \<open>The flags without the marks of an earlier collection, and what is reachable whatever was marked before.\<close>

definition fresh_flags :: "gcmem \<Rightarrow> gcheap \<Rightarrow> addr \<Rightarrow> box_flag set" where
  "fresh_flags m h b = (if outside_box m (h_fl h) b then h_fl h b else h_fl h b - MarkMask)"

definition reachable :: "gcmem \<Rightarrow> gcheap \<Rightarrow> item set \<Rightarrow> item \<Rightarrow> bool" where
  "reachable m h R i \<longleftrightarrow> live m (fresh_flags m h) R i"

definition held :: "gcmem \<Rightarrow> gcheap \<Rightarrow> item set \<Rightarrow> addr \<Rightarrow> bool" where
  "held m h R b \<longleftrightarrow> kept m (fresh_flags m h) R b"

text \<open>Every marked box is in an array of the heap, which clears its marks, or outside the heap.\<close>

definition no_stale_marks :: "gcmem \<Rightarrow> gcheap \<Rightarrow> bool" where
  "no_stale_marks m h \<longleftrightarrow>
     (\<forall>b. if b \<in> heap_boxes h then \<not> outside_box m (h_fl h) b
          else h_fl h b \<inter> MarkMask = {} \<or> outside_box m (h_fl h) b)"

lemma unmark_fresh: "no_stale_marks m h \<Longrightarrow> fl (unmark h) = fresh_flags m h"
  by (rule ext) (auto simp: no_stale_marks_def unmark_def fresh_flags_def heap_boxes_def split: if_splits)

lemma unmark_heap_box: "b \<in> heap_boxes h \<Longrightarrow> fl (unmark h) b \<inter> MarkMask = {}"
  by (auto simp: unmark_def heap_boxes_def)

lemma unmark_no_mark: "b \<in> heap_boxes h \<Longrightarrow> x \<in> MarkMask \<Longrightarrow> x \<notin> fl (unmark h) b"
  using unmark_heap_box by blast

lemma mark_mask [simp]: "WeakMark \<in> MarkMask" "DataMark \<in> MarkMask" "ClassMark \<in> MarkMask" "ClosureWeakMark \<in> MarkMask"
  by (simp_all add: MarkMask_def)


text \<open>The mark cycle ends, from any state of the marks and any roots to scan, whatever the heap looks like,
  as long as no variant holds a type that contains a variant.\<close>

theorem mark_terminates:
  assumes "variants_ok m"
  shows "\<exists>s'. runMarkCycle m s = Some s' \<and> markRoots s' = []"
proof -
  obtain s' where "runMarkCycle m s = Some s'" using runMarkCycle_total [OF assms] by blast
  moreover have "markRoots s' = []" using while_option_stop [OF calculation [unfolded runMarkCycle_def]] by simp
  ultimately show ?thesis by blast
qed

end
