(* ===== verification/DestructBuildThms.thy ===== *)
theory DestructBuildThms
  imports DestructBuildInv GcMarkThms
begin

text \<open>
  The graph that is built is well-formed, so that queueing the unreachable destructible objects always
  succeeds and queues each of them once, with the marks that marking alone gives.
\<close>

section \<open>The sorted edges\<close>

text \<open>What \<^verbatim>\<open>sl::countSort\<close> promises, for keys up to \<open>k\<close>.\<close>

definition count_sort_ok :: "count_sort \<Rightarrow> bool" where
  "count_sort_ok countSort \<longleftrightarrow>
     (\<forall>es k. (\<forall>e\<in>set es. fst e \<le> k) \<longrightarrow>
        (case countSort es k of (s, base) \<Rightarrow>
           mset s = mset es \<and> sorted (map fst s) \<and> length base = k + 1 \<and>
           (\<forall>i\<le>k. base ! i = length (filter (\<lambda>e. fst e < i) es))))"

lemma sorted_below:
  "sorted xs \<Longrightarrow> k < length xs \<Longrightarrow> xs ! k < (i::nat) \<longleftrightarrow> k < length (filter (\<lambda>x. x < i) xs)"
proof (induction xs arbitrary: k)
  case (Cons x xs)
  show ?case
  proof (cases "x < i")
    case False
    then have "filter (\<lambda>y. y < i) (x # xs) = []" using Cons.prems(1) by (auto simp: filter_empty_conv)
    moreover have "\<not> (x # xs) ! k < i" using False Cons.prems by (cases k) (auto dest!: nth_mem)
    ultimately show ?thesis by simp
  qed (use Cons in \<open>cases k; simp\<close>)
qed simp

lemma build_edges_ok:
  assumes c: "count_sort_ok countSort" and g: "nodes_ok g" and n: "n \<le> length (d_nodeArray g)" and ne: "d_nodeArray g \<noteq> []"
  shows "graph_ok (build_edges countSort n g)" and "edges (build_edges countSort n g) = set (d_unsortedEdges g)"
    and "d_nodeArray (build_edges countSort n g) = d_nodeArray g" and "d_destructCount (build_edges countSort n g) = n"
proof -
  let ?N = "length (d_nodeArray g)"
  let ?es = "d_unsortedEdges g"
  obtain s base where sb: "countSort ?es (?N - 1) = (s, base)" by fastforce
  have le: "\<forall>e\<in>set ?es. fst e \<le> ?N - 1" using g by (force simp: nodes_ok_def)
  have k: "mset s = mset ?es" "sorted (map fst s)" "length base = ?N"
    "\<And>i. i < ?N \<Longrightarrow> base ! i = length (filter (\<lambda>e. fst e < i) ?es)"
    using c [unfolded count_sort_ok_def, rule_format, of ?es "?N - 1"] le sb ne by auto
  let ?g = "build_edges countSort n g"
  have f: "d_sortedEdges ?g = s" "d_edgeBase ?g = base @ [length ?es]" "d_nodeArray ?g = d_nodeArray g" "d_destructCount ?g = n"
    by (simp_all add: build_edges_def sb Let_def del: One_nat_def)
  then show "edges ?g = set ?es" "d_nodeArray ?g = d_nodeArray g" "d_destructCount ?g = n" using mset_eq_setD [OF k(1)] by simp_all
  have len: "length s = length ?es" using k(1) by (rule mset_eq_length)
  have all: "\<forall>e\<in>set ?es. fst e < ?N" using g by (force simp: nodes_ok_def)
  have cnt: "(base @ [length ?es]) ! i = length (filter (\<lambda>x. x < i) (map fst s))" if "i \<le> ?N" for i
  proof -
    have m: "length (filter (\<lambda>e. fst e < i) ?es) = length (filter (\<lambda>e. fst e < i) s)"
      using k(1) by (metis mset_eq_length mset_filter)
    show ?thesis
    proof (cases "i < ?N")
      case True
      then show ?thesis using k(3,4) m by (simp add: nth_append filter_map comp_def)
    next
      case False
      then have "i = ?N" "\<forall>e\<in>set s. fst e < i" using that all mset_eq_setD [OF k(1)] by auto
      then show ?thesis using k(3) len by (simp add: nth_append filter_map comp_def)
    qed
  qed
  have src: "fst (s ! j) < i \<longleftrightarrow> j < (base @ [length ?es]) ! i" if "j < length s" "i \<le> ?N" for i j
    using sorted_below [OF k(2), of j i] that cnt by simp
  have mono: "(base @ [length ?es]) ! i \<le> (base @ [length ?es]) ! (i + 1)" if "i < ?N" for i
    using that cnt [of i] cnt [of "i + 1"] by (auto simp: length_filter_conv_card intro!: card_mono)
  have bnd: "(base @ [length ?es]) ! (i + 1) \<le> length s" if "i < ?N" for i
    using cnt [of "i + 1"] that length_filter_le [of _ "map fst s"] by simp
  have loc: "fst (s ! j) = i \<longleftrightarrow> (base @ [length ?es]) ! i \<le> j \<and> j < (base @ [length ?es]) ! (i + 1)"
    if "j < length s" "i < ?N" for i j
    using src [OF that(1), of i] src [OF that(1), of "i + 1"] that(2) by auto
  have rng: "\<forall>(u, w)\<in>set s. u < ?N \<and> w < ?N" using g mset_eq_setD [OF k(1)] by (simp add: nodes_ok_def)
  show "graph_ok ?g" unfolding graph_ok_def f Let_def using n rng mono bnd loc by blast
qed

section \<open>Building always succeeds\<close>

definition no_nodes :: "bstate \<Rightarrow> bool" where
  "no_nodes s \<longleftrightarrow> b_roots s = [] \<and> (\<forall>b. d_slot (b_graph s) b = NoSlot)"

lemma build_steps:
  assumes c: "count_sort_ok countSort" and v: "variants_ok m" and s: "no_nodes s" and cs: "distinct cs" "cs \<noteq> []"
  shows "\<exists>s' ns. build countSort m cs s = Some (s'\<lparr>b_graph := build_edges countSort (length cs) (b_graph s')\<rparr>) \<and>
    runMarkCycle_b m (mark_candidates m (length cs) (s\<lparr>b_graph := build_nodes cs (b_graph s)\<rparr>)) = Some s' \<and>
    runMarkCycle m (fold (markClass m) cs (erase s)) = Some (erase s') \<and> marking s' \<and> d_nodeArray (b_graph s') = cs @ ns"
proof -
  let ?g0 = "(b_graph s)\<lparr>d_nodeArray := [], d_nodeMap := (\<lambda>_. None), d_unsortedEdges := []\<rparr>"
  have "nodes_ok ?g0" using s by (simp add: nodes_ok_def slot_ok_def no_nodes_def)
  then have n: "nodes_ok (build_nodes cs (b_graph s))" "d_nodeArray (build_nodes cs (b_graph s)) = cs"
    using build_nodes_ok [of cs ?g0] s cs(1) by (simp_all add: build_nodes_def no_nodes_def)
  let ?s0 = "s\<lparr>b_graph := build_nodes cs (b_graph s)\<rparr>"
  have m0: "marking ?s0" using n s by (simp add: marking_def no_nodes_def)
  let ?s1 = "mark_candidates m (length cs) ?s0"
  have m1: "marking ?s1" "graph_grows (b_graph ?s0) (b_graph ?s1)"
    "erase ?s1 = fold (\<lambda>i. markClass m (cs ! i)) [0..<length cs] (erase s)"
    using candidates_tracks [OF m0, of "[0..<length cs]" m] n(2) by (simp_all add: mark_candidates_def erase_def)
  have "fold (\<lambda>i. markClass m (cs ! i)) [0..<length cs] = fold (markClass m) (map ((!) cs) [0..<length cs])"
    by (simp add: fold_map comp_def)
  then have e1: "erase ?s1 = fold (markClass m) cs (erase s)" using m1(3) by (simp add: map_nth)
  obtain t where t: "runMarkCycle m (erase ?s1) = Some t" using runMarkCycle_total [OF v] by blast
  obtain s' where s': "runMarkCycle_b m ?s1 = Some s'" "erase s' = t"
    using cycle_tracks(1) [OF m1(1), of m] t by auto
  have k: "marking s'" "graph_grows (b_graph ?s1) (b_graph s')" using cycle_tracks(2) [OF m1(1) s'(1)] by simp_all
  have "\<exists>ns. d_nodeArray (b_graph s') = cs @ ns"
    using graph_grows_trans [OF m1(2) k(2)] n(2) by (simp add: graph_grows_def)
  then show ?thesis using s' k(1) t e1 by (auto simp: build_def)
qed

text \<open>The order is one of the indices of the candidates.\<close>

lemma destruct_order_steps:
  assumes c: "count_sort_ok countSort" and v: "variants_ok m" and s: "no_nodes s" and cs: "distinct cs" "cs \<noteq> []"
  shows "\<exists>s1 ns g idx. g = build_edges countSort (length cs) (b_graph s1) \<and> graph_ok g \<and> d_nodeArray g = cs @ ns \<and>
    d_destructCount g = length cs \<and> edges g = set (d_unsortedEdges (b_graph s1)) \<and> marking s1 \<and> d_nodeArray (b_graph s1) = cs @ ns \<and>
    runMarkCycle_b m (mark_candidates m (length cs) (s\<lparr>b_graph := build_nodes cs (b_graph s)\<rparr>)) = Some s1 \<and>
    runMarkCycle m (fold (markClass m) cs (erase s)) = Some (erase s1) \<and>
    distinct idx \<and> set idx = {..<length cs} \<and>
    (\<forall>i<length cs. \<forall>j<length cs. reaches g i j \<and> \<not> reaches g j i \<longrightarrow> before idx i j) \<and>
    destruct_order countSort m cs s q = Some (q @ map iface_of (map ((!) cs) idx), s1\<lparr>b_graph := cleanup g\<rparr>)"
proof -
  obtain s1 ns where s1: "build countSort m cs s = Some (s1\<lparr>b_graph := build_edges countSort (length cs) (b_graph s1)\<rparr>)"
    "runMarkCycle_b m (mark_candidates m (length cs) (s\<lparr>b_graph := build_nodes cs (b_graph s)\<rparr>)) = Some s1"
    "runMarkCycle m (fold (markClass m) cs (erase s)) = Some (erase s1)" "marking s1" "d_nodeArray (b_graph s1) = cs @ ns"
    using build_steps [OF assms] by blast
  define g where "g = build_edges countSort (length cs) (b_graph s1)"
  have nok: "nodes_ok (b_graph s1)" using s1(4) by (simp add: marking_def)
  note g = build_edges_ok [OF c nok, of "length cs", folded g_def]
  have gok: "graph_ok g" "d_nodeArray g = cs @ ns" "d_destructCount g = length cs" "edges g = set (d_unsortedEdges (b_graph s1))"
    using g s1(5) cs(2) by simp_all
  obtain t ds where t: "tarjan g = Some (t\<lparr>sccBases := sccBases t @ [length (sccNodes t)]\<rparr>)" "comps_ok g t ds"
    "{..<d_destructCount g} \<subseteq> dom (sccIdx t)"
    and em: "emit g (t\<lparr>sccBases := sccBases t @ [length (sccNodes t)]\<rparr>) q =
      q @ map (\<lambda>k. iface_of (d_nodeArray g ! k)) (concat (map (ordered g) (rev ds)))"
    using emit_comps [OF gok(1)] by blast
  define idx where "idx = concat (map (ordered g) (rev ds))"
  note ord = order_of_comps [OF t(2,3), folded idx_def, unfolded gok(3)]
  have "before idx i j" if ij: "i < length cs" "j < length cs" and r: "reaches g i j" "\<not> reaches g j i" for i j
  proof -
    have "i \<in> dom (sccIdx t)" "j \<in> dom (sccIdx t)" using t(3) gok(3) ij by auto
    then obtain a b where ab: "sccIdx t i = Some a" "sccIdx t j = Some b" by blast
    have "b < a" using comps_reach [OF t(2) ab(1) r(1)] comps_scc [OF t(2) ab] r ab(2) by auto
    then show ?thesis using ord(3) [OF ij ab] by simp
  qed
  moreover have "map (\<lambda>k. iface_of (d_nodeArray g ! k)) idx = map iface_of (map ((!) cs) idx)"
    using ord(2) gok(2) by (auto simp: nth_append)
  then have "destruct_order countSort m cs s q = Some (q @ map iface_of (map ((!) cs) idx), s1\<lparr>b_graph := cleanup g\<rparr>)"
    using s1(1) t(1) em by (simp add: destruct_order_def g_def [symmetric] idx_def [symmetric])
  ultimately show ?thesis using g_def gok s1 ord(1,2) by blast
qed

lemma order_permutes:
  assumes "distinct idx" and "set idx = {..<length cs}"
  shows "mset (map ((!) cs) idx) = mset cs"
proof -
  have "mset idx = mset [0..<length cs]"
    using assms set_eq_iff_mset_eq_distinct [of idx "[0..<length cs]"] by (simp add: atLeast0LessThan)
  then have "mset (map (\<lambda>k. cs ! k) idx) = mset (map (\<lambda>k. cs ! k) [0..<length cs])" by (simp only: mset_map)
  then show ?thesis by (simp add: map_nth)
qed

lemma destruct_order_clean:
  assumes "count_sort_ok countSort" and "variants_ok m" and "no_nodes s" and "distinct cs" and "cs \<noteq> []"
  shows "\<exists>order s'. destruct_order countSort m cs s q = Some (q @ map iface_of order, s') \<and> mset order = mset cs \<and>
    runMarkCycle m (fold (markClass m) cs (erase s)) = Some (erase s') \<and> no_nodes s'"
proof -
  obtain s1 ns g idx where g: "g = build_edges countSort (length cs) (b_graph s1)" "marking s1"
    and r: "runMarkCycle m (fold (markClass m) cs (erase s)) = Some (erase s1)" and i: "distinct idx" "set idx = {..<length cs}"
    and d: "destruct_order countSort m cs s q = Some (q @ map iface_of (map ((!) cs) idx), s1\<lparr>b_graph := cleanup g\<rparr>)"
    using destruct_order_steps [OF assms, of q] by (elim exE conjE) (rule that; assumption)
  have "markRoots (erase s1) = []" using while_option_stop [OF r [unfolded runMarkCycle_def]] by simp
  then have roots: "b_roots s1 = []" by simp
  have nok: "nodes_ok (b_graph s1)" using g(2) by (simp add: marking_def)
  have "d_slot (cleanup g) b = NoSlot" for b
  proof -
    have "slot_ok (b_graph s1) b" using nok by (simp add: nodes_ok_def)
    then show ?thesis by (auto simp: g(1) cleanup_def build_edges_def slot_ok_def nth_mem split: box_slot.splits prod.split)
  qed
  then have "no_nodes (s1\<lparr>b_graph := cleanup g\<rparr>)" using roots by (simp add: no_nodes_def)
  moreover have "erase (s1\<lparr>b_graph := cleanup g\<rparr>) = erase s1" by (simp add: erase_def)
  ultimately show ?thesis using d r order_permutes [OF i] by metis
qed

text \<open>C30: Queueing the unreachable objects for destruction always succeeds. The boxes end with the marks that
  marking alone gives, the candidates are queued behind what was queued, each of them once, and no box is
  left with an index of a node, so that the next collection can build its own graph.\<close>

theorem destruct_order_total:
  assumes "count_sort_ok countSort" and "variants_ok m" and "no_nodes s" and "distinct cs" and "cs \<noteq> []"
  shows "\<exists>order s'. destruct_order countSort m cs s q = Some (q @ map iface_of order, s') \<and> mset order = mset cs \<and>
    runMarkCycle m (fold (markClass m) cs (erase s)) = Some (erase s') \<and> no_nodes s'"
  by (rule destruct_order_clean [OF assms])

end
