(* ===== verification/GcCollect.thy ===== *)
theory GcCollect
  imports DestructBuildThms
begin

text \<open>
  A collection from the stopped world on (\<^verbatim>\<open>GcHeap::collect_l\<close>): unmark, mark from the roots, queue the
  unreachable objects with a destructor in the order of the destruction graph, and sweep. It frees exactly
  the memory that neither a reachable box holds nor an object waiting for its destructor; an object that is
  reachable only as data leaves the arrays with its marks set.
\<close>

section \<open>A collection\<close>

definition unreached :: "gcheap \<Rightarrow> mstate \<Rightarrow> addr list" where
  "unreached h s = filter (\<lambda>b. \<not> class_marked s b) (destructibleBoxes h)"

text \<open>The unmarked objects with a destructor are kept for their destructor: they are marked, with what they
  reach, while the graph is built, and queued.\<close>

definition schedule :: "count_sort \<Rightarrow> gcmem \<Rightarrow> gcheap \<Rightarrow> dgraph \<Rightarrow> mstate \<Rightarrow> (addr list \<times> bstate) option" where
  "schedule countSort m h g s =
     (let D = unreached h s;
          t = \<lparr>b_fl = fl (fold (\<lambda>b. set_flags b {Destructing}) D s), b_roots = [], b_graph = g\<rparr>
      in if D = [] then Some (destructQueue h, t) else destruct_order countSort m D t (destructQueue h))"

definition sweep :: "gcheap \<Rightarrow> mstate \<Rightarrow> addr list \<Rightarrow> mstate \<Rightarrow> gcheap" where
  "sweep h s q s' =
     h\<lparr>allocBoxes := filter (\<lambda>b. WeakMark \<in> fl s' b) (allocBoxes h),
       classBoxes := filter (class_marked s') (classBoxes h),
       destructibleBoxes := filter (class_marked s) (destructibleBoxes h),
       destructQueue := q,
       h_fl := fl s'\<rparr>"

definition collect_l :: "count_sort \<Rightarrow> gcmem \<Rightarrow> gcthread list \<Rightarrow> gcheap \<Rightarrow> dgraph \<Rightarrow> (gcheap \<times> dgraph) option" where
  "collect_l countSort m ths h g =
     Option.bind (runMarkCycle m (add_roots m ths h (unmark h)))
       (\<lambda>s. map_option (\<lambda>(q, t). (sweep h s q (erase t), b_graph t)) (schedule countSort m h g s))"

section \<open>Marking in two cycles\<close>

lemma live_more: "live m f R i \<Longrightarrow> R \<subseteq> R' \<Longrightarrow> live m f R' i"
proof (induction rule: live.induct)
  case (live_base i)
  then show ?case by (blast intro: live.live_base)
qed (blast intro: live.intros)+

lemma heap_ok_less: "heap_ok m f R' \<Longrightarrow> R \<subseteq> R' \<Longrightarrow> heap_ok m f R"
  unfolding heap_ok_def using live_more [of m f R _ R'] by blast

lemma cycle_done: "markRoots s = [] \<Longrightarrow> runMarkCycle m s = Some s"
  by (simp add: runMarkCycle_def while_option_unfold)

text \<open>The flag of scheduled objects is not one that marking reads or sets.\<close>

lemma destructing_fl:
  "fl (fold (\<lambda>b. set_flags b {Destructing}) D s) b = (if b \<in> set D then insert Destructing (fl s b) else fl s b)"
  "markRoots (fold (\<lambda>b. set_flags b {Destructing}) D s) = markRoots s"
  by (induction D arbitrary: s) (auto split: if_splits)

lemma destructing_good:
  assumes g: "good m f R {} s"
  shows "good m f R {} (fold (\<lambda>b. set_flags b {Destructing}) D s)"
    and "acc m f (fl s) (set (markRoots s)) i \<Longrightarrow>
      acc m f (fl (fold (\<lambda>b. set_flags b {Destructing}) D s)) (set (markRoots (fold (\<lambda>b. set_flags b {Destructing}) D s))) i"
proof -
  let ?s = "fold (\<lambda>b. set_flags b {Destructing}) D s"
  have gr: "grows s ?s" by (auto simp: grows_def destructing_fl)
  note adv = grows_advances [OF gr, of m f "{}", simplified]
  show "acc m f (fl s) (set (markRoots s)) i \<Longrightarrow> acc m f (fl ?s) (set (markRoots ?s)) i" by (rule acc_mono [OF _ adv])
  have "mark_inv m f {} (fl ?s) (set (markRoots ?s))"
    using g by (intro mark_inv_step [where X = "{}" and X' = "{}", OF _ adv])
      (auto simp: good_def destructing_fl ReadFlags_def split: if_splits)
  then show "good m f R {} ?s" using g by (simp add: good_def justified_def destructing_fl)
qed

text \<open>The objects that are destroyed after the collection: those with a destructor that no one reaches. The
  second cycle marks from them too.\<close>

definition dead :: "gcmem \<Rightarrow> gcthread list \<Rightarrow> gcheap \<Rightarrow> addr \<Rightarrow> bool" where
  "dead m ths h b \<longleftrightarrow>
     \<not> reachable m h (heap_roots m ths h) (IClass b) \<and> \<not> reachable m h (heap_roots m ths h) (IClosure b)"

definition all_roots :: "gcmem \<Rightarrow> gcthread list \<Rightarrow> gcheap \<Rightarrow> item set" where
  "all_roots m ths h = heap_roots m ths h \<union> IClass ` {b \<in> set (destructibleBoxes h). dead m ths h b}"

text \<open>A heap between collections: the objects with a destructor are objects of the heap, once each, and no box
  holds an index of a node.\<close>

definition idle_heap :: "gcmem \<Rightarrow> gcheap \<Rightarrow> dgraph \<Rightarrow> bool" where
  "idle_heap m h g \<longleftrightarrow>
     no_stale_marks m h \<and> set (destructibleBoxes h) \<subseteq> set (classBoxes h) \<and> distinct (destructibleBoxes h) \<and>
     (\<forall>b. d_slot g b = NoSlot)"

lemma idle_heapD:
  assumes "idle_heap m h g"
  shows "no_stale_marks m h" and "distinct (destructibleBoxes h)" and "d_slot g b = NoSlot"
    and "b \<in> set (destructibleBoxes h) \<Longrightarrow> b \<in> heap_boxes h"
  using assms by (auto simp: idle_heap_def heap_boxes_def)

lemma schedule_total:
  assumes c: "count_sort_ok countSort" and v: "variants_ok m" and i: "idle_heap m h g" and q: "markRoots s = []"
  obtains order t where "schedule countSort m h g s = Some (destructQueue h @ map iface_of order, t)"
    and "mset order = mset (unreached h s)" and "\<And>b. d_slot (b_graph t) b = NoSlot"
    and "runMarkCycle m (fold (markClass m) (unreached h s) (fold (\<lambda>b. set_flags b {Destructing}) (unreached h s) s)) = Some (erase t)"
proof -
  let ?D = "unreached h s"
  let ?s1 = "fold (\<lambda>b. set_flags b {Destructing}) ?D s"
  let ?t = "\<lparr>b_fl = fl ?s1, b_roots = [], b_graph = g\<rparr>"
  have e: "erase ?t = ?s1" using q by (simp add: erase_def destructing_fl)
  show thesis
  proof (cases "?D = []")
    case True
    then show thesis
      using that [of "[]" ?t] e cycle_done [OF q] idle_heapD(3) [OF i] by (simp add: schedule_def Let_def)
  next
    case False
    have "no_nodes ?t" using idle_heapD(3) [OF i] by (simp add: no_nodes_def)
    moreover have "distinct ?D" using idle_heapD(2) [OF i] by (simp add: unreached_def)
    ultimately obtain order t where "destruct_order countSort m ?D ?t (destructQueue h) = Some (destructQueue h @ map iface_of order, t)"
      "mset order = mset ?D" "runMarkCycle m (fold (markClass m) ?D (erase ?t)) = Some (erase t)" "no_nodes t"
      using destruct_order_clean [OF c v _ _ False] by blast
    then show thesis using that [of order t] e False by (simp add: schedule_def Let_def no_nodes_def)
  qed
qed

lemma collect_steps:
  assumes c: "count_sort_ok countSort" and v: "variants_ok m" and ok: "heap_ok m (fl (unmark h)) (all_roots m ths h)"
    and i: "idle_heap m h g"
  shows "\<exists>s s' order t. collect_l countSort m ths h g = Some (sweep h s (destructQueue h @ map iface_of order) s', b_graph (t :: bstate)) \<and>
    mset order = mset (unreached h s) \<and> (\<forall>b. d_slot (b_graph t) b = NoSlot) \<and>
    (\<forall>b\<in>heap_boxes h. class_marked s b \<longleftrightarrow> \<not> dead m ths h b) \<and>
    (\<forall>b\<in>heap_boxes h. WeakMark \<in> fl s' b \<longleftrightarrow> held m h (all_roots m ths h) b) \<and>
    (\<forall>b\<in>heap_boxes h. class_marked s' b \<longleftrightarrow>
       reachable m h (all_roots m ths h) (IClass b) \<or> reachable m h (all_roots m ths h) (IClosure b)) \<and>
    (\<forall>b. reachable m h (all_roots m ths h) (IData b) \<longrightarrow> DataMark \<in> fl s' b)"
proof -
  let ?f = "fl (unmark h)"
  let ?R = "heap_roots m ths h"
  let ?R' = "all_roots m ths h"
  note fr = unmark_fresh [OF idle_heapD(1) [OF i], symmetric]
  obtain s where s: "runMarkCycle m (add_roots m ths h (unmark h)) = Some s" using runMarkCycle_total [OF v] by blast
  have sub: "?R \<subseteq> ?R'" by (simp add: all_roots_def)
  have ok1: "heap_ok m ?f ?R" by (rule heap_ok_less [OF ok sub])
  note r1 = roots_good [OF ok1 order_refl refl] and r2 = roots_good [OF ok sub refl]
  have cm: "class_marked s b \<longleftrightarrow> \<not> dead m ths h b" if "b \<in> heap_boxes h" for b
    using cycle_exact(3) [OF ok1 r1 s] unmark_no_mark [OF that] by (simp add: dead_def reachable_def fr)
  have g: "good m ?f ?R' {} s" and q: "markRoots s = []" by (rule runMarkCycle_good [OF ok r2(1) s])+
  have ac: "acc m ?f (fl s) (set (markRoots s)) i" if "i \<in> ?R" for i
    using runMarkCycle_good(3) [OF ok1 r1(1) s] r1(2) [OF that] q by simp
  define D where "D = unreached h s"
  define s1 where "s1 = fold (\<lambda>b. set_flags b {Destructing}) D s"
  have D: "?R' = ?R \<union> IClass ` set D"
    using cm idle_heapD(4) [OF i] by (auto simp: all_roots_def D_def unreached_def)
  obtain order t where t: "schedule countSort m h g s = Some (destructQueue h @ map iface_of order, t)"
    "mset order = mset (unreached h s)" "\<And>b. d_slot (b_graph t) b = NoSlot"
    and run: "runMarkCycle m (fold (markClass m) D s1) = Some (erase t)"
    using schedule_total [OF c v i q] unfolding D_def s1_def by blast
  have g1: "good m ?f ?R' {} s1" unfolding s1_def by (rule destructing_good(1) [OF g])
  have ac1: "acc m ?f (fl s1) (set (markRoots s1)) i" if "i \<in> ?R" for i
    unfolding s1_def by (rule destructing_good(2) [OF g ac [OF that]])
  have "sim m ?f ?R' (fold (markClass m) D) (IClass ` set D)" by (rule sim_image [OF sim_markClass [OF ok]])
  moreover have "\<forall>i\<in>IClass ` set D. live m ?f ?R' i" unfolding D by (blast intro: live_base)
  ultimately have g2: "good m ?f ?R' {} (fold (markClass m) D s1)" "grows s1 (fold (markClass m) D s1)"
    "\<forall>i\<in>IClass ` set D. acc m ?f (fl (fold (markClass m) D s1)) (set (markRoots (fold (markClass m) D s1))) i"
    using g1 unfolding sim_def by blast+
  have "acc m ?f (fl (fold (markClass m) D s1)) (set (markRoots (fold (markClass m) D s1))) i" if "i \<in> ?R'" for i
    using that acc_mono [OF ac1 grows_advances [OF g2(2), of m ?f "{}", simplified]] g2(3) unfolding D by blast
  note w = cycle_exact [OF ok g2(1) this run]
  have all: "class_marked (erase t) b \<longleftrightarrow> reachable m h ?R' (IClass b) \<or> reachable m h ?R' (IClosure b)"
    "WeakMark \<in> fl (erase t) b \<longleftrightarrow> held m h ?R' b" if "b \<in> heap_boxes h" for b
    using w(1) [of b] w(3) [of b] unmark_no_mark [OF that] by (simp_all add: held_def reachable_def fr)
  have data: "DataMark \<in> fl (erase t) b" if "reachable m h ?R' (IData b)" for b
    using w(6) [of "IData b"] that unfolding reachable_def fr by (blast elim: acc_dataE)
  have "collect_l countSort m ths h g = Some (sweep h s (destructQueue h @ map iface_of order) (erase t), b_graph t)"
    using s t(1) by (simp add: collect_l_def)
  then show ?thesis using t(2,3) cm all data by blast
qed


section \<open>Stale marks\<close>


end
