(* ===== verification/GcMarkExample.thy ===== *)
theory GcMarkExample
  imports GcMarkThms
begin

text \<open>
  A small heap: an object of class A with an embedded object of class B, whose field points to a
  buffer, and a validator. It shows that the hypotheses on heaps can hold.
\<close>

section \<open>The heap\<close>

definition class_B :: gtype where
  "class_B = GClass NormalClass 48 False [] [(16, GScalar GDataPtr)] None"

definition class_A :: gtype where
  "class_A = GClass NormalClass 80 False [] [(16, class_B)] None"

text \<open>A at 4096, its B at 4128, the buffer at 8192, the pool of validators at 12288, a local pointer to data
  of the embedded object at 256 and a local pointer to A at 272.\<close>

definition ex_mem :: gcmem where
  "ex_mem =
     \<lparr>ld = (\<lambda>p. if p = 4120 then 4096 else if p = 4152 then 4128 else if p = 4168 then 8208
        else if p = 8208 then 8192 else if p = 8216 then 8192 else if p = 12336 then 12288
        else if p = 12344 then 4128 else if p = 264 then 12336 else if p = 272 then 4112 else 0),
      vtype = (\<lambda>p. None),
      btype = (\<lambda>b. if b = 4096 then class_A else if b = 4128 then class_B else GScalar (GPod 32)),
      rootOffset = (\<lambda>b. if b = 4128 then 32 else 0)\<rparr>"

definition ex_thread :: "(nat \<times> gtype) list \<Rightarrow> gcthread" where
  "ex_thread slots = \<lparr>th_frames = [([StaticMap slots], \<lambda>j. if j = 0 then 256 else 272)], th_tls = [], th_pools = []\<rparr>"

definition data_only :: gcthread where
  "data_only = ex_thread [(0, GScalar GDataPtr)]"

definition object_too :: gcthread where
  "object_too = ex_thread [(0, GScalar GDataPtr), (1, GScalar (GClassPtr False))]"

definition ex_heap :: gcheap where
  "ex_heap =
     \<lparr>allocBoxes = [4096, 8192, 12288], classBoxes = [4128, 4096], destructibleBoxes = [], destructQueue = [],
      staticRoots = [],
      h_fl = (\<lambda>b. if b = 4096 \<or> b = 4128 then {ClassMark, DataMark, WeakMark}
        else if b = 8192 \<or> b = 12288 then {DataMark, WeakMark} else {})\<rparr>"

lemma ex_class_box: "classBoxes (addClassBox_l ex_mem 4096 (ex_heap\<lparr>classBoxes := []\<rparr>)) = [4128, 4096]"
  by (simp add: addClassBox_l_def ex_mem_def class_A_def class_B_def is_class_def iface_of_def ex_heap_def)

lemma ex_ld [simp]:
  "ld ex_mem 4120 = 4096" "ld ex_mem 4152 = 4128" "ld ex_mem 4168 = 8208" "ld ex_mem 8208 = 8192" "ld ex_mem 8216 = 8192"
  "ld ex_mem 12336 = 12288" "ld ex_mem 12344 = 4128" "ld ex_mem 264 = 12336" "ld ex_mem 272 = 4112"
  by (simp_all add: ex_mem_def)

lemma ex_box [simp]:
  "btype ex_mem 4096 = class_A" "btype ex_mem 4128 = class_B" "btype ex_mem 8192 = GScalar (GPod 32)"
  "btype ex_mem 12288 = GScalar (GPod 32)" "rootOffset ex_mem 4096 = 0" "rootOffset ex_mem 4128 = 32"
  "rootOffset ex_mem 8192 = 0" "rootOffset ex_mem 12288 = 0" "vtype ex_mem p = None"
  by (simp_all add: ex_mem_def)

section \<open>What is live\<close>

lemma ex_flags: "fl (unmark ex_heap) = (\<lambda>b. {})"
  by (rule ext) (simp add: unmark_def ex_heap_def MarkMask_def)

abbreviation ex_roots :: "item set" where
  "ex_roots \<equiv> heap_roots ex_mem [data_only] ex_heap"

lemma ex_roots: "ex_roots = {IRoot 256 (GScalar GDataPtr)}"
  by (simp add: heap_roots_def ex_heap_def data_only_def ex_thread_def thread_items_def frame_items_def map_items_def
    slot_items_def root_items_def scalar_gcroot_def)

definition ex_live :: "item set" where
  "ex_live = {IRoot 256 (GScalar GDataPtr), IWeak 12288, IData 4128, IWeak 4128, IRoot 4128 class_B, IWeak 8192, IData 8192}"

lemma ex_refs:
  "root_refs ex_mem f (GScalar GDataPtr) 256 = {IWeak 12288, IData 4128}"
  "root_refs ex_mem (\<lambda>b. {}) class_B 4128 = {IWeak 8192, IData 8192}"
  by (simp_all add: root_refs_def scalar_refs_def data_ptr_refs_def class_B_def iface_of_def m_box_def scalar_gcroot_def)

lemma ex_live_bound:
  assumes "live ex_mem (\<lambda>b. {}) {IRoot 256 (GScalar GDataPtr)} i"
  shows "i \<in> ex_live"
  using assms
proof (induction rule: live.induct)
  case (live_root p t i)
  then show ?case by (auto simp: ex_live_def ex_refs)
next
  case (live_data_root b p t)
  then show ?case by (auto simp: ex_live_def data_roots_def is_class_def class_B_def scalar_gcroot_def)
qed (auto simp: ex_live_def)

lemma ex_ok: "heap_ok ex_mem (fl (unmark ex_heap)) ex_roots"
  unfolding ex_flags ex_roots heap_ok_def by (auto dest!: ex_live_bound simp: ex_live_def)

lemma ex_variants: "variants_ok ex_mem"
  by (simp add: variants_ok_def)

lemma ex_live: "live ex_mem (\<lambda>b. {}) ex_roots (IWeak 8192)"
proof -
  have 1: "live ex_mem (\<lambda>b. {}) ex_roots (IData 4128)"
    unfolding ex_roots by (rule live_root [OF live_base [OF singletonI]]) (simp add: ex_refs)
  have "live ex_mem (\<lambda>b. {}) ex_roots (IRoot 4128 class_B)"
    by (rule live_data_root [OF 1]) (simp_all add: data_roots_def class_B_def is_class_def scalar_gcroot_def)
  then show ?thesis by (rule live_root) (simp add: ex_refs)
qed

lemma ex_outside: "\<not> outside_box m (h_fl ex_heap) b"
  by (simp add: outside_box_def ex_heap_def)

lemma ex_no_stale: "no_stale_marks ex_mem ex_heap"
  by (simp add: no_stale_marks_def ex_outside) (simp add: ex_heap_def heap_boxes_def)

lemma ex_fresh: "fresh_flags ex_mem ex_heap = (\<lambda>b. {})"
  using unmark_fresh [OF ex_no_stale] by (simp add: ex_flags)


lemma mark_terminates_witness:
  "\<exists>s'. runMarkCycle ex_mem (push_root 256 (GScalar GDataPtr) (unmark ex_heap)) = Some s' \<and> markRoots s' = []"
  by (rule mark_terminates [OF ex_variants])

end
