(* ===== verification/DestructRefs.thy ===== *)
theory DestructRefs
  imports DestructBuildThms
begin

text \<open>
  The edges of the destruction graph and the references of the heap: in a heap without embedded class fields and
  closures, an object is queued before the objects that it reaches through strong references and that do not
  reach it.
\<close>

section \<open>Strong references\<close>

text \<open>The roots of a box: its contents, and the elements of the arrays in them.\<close>

inductive box_root :: "gcmem \<Rightarrow> (addr \<Rightarrow> box_flag set) \<Rightarrow> addr \<Rightarrow> addr \<Rightarrow> gtype \<Rightarrow> bool" for m f b where
  box_root_data: "gcroot (btype m b) \<Longrightarrow> Invalid \<notin> f b \<Longrightarrow> (p, t) \<in> data_roots m f b \<Longrightarrow> box_root m f b p t"
| box_root_elem: "box_root m f b p t \<Longrightarrow> IRoot q u \<in> root_refs m f t p \<Longrightarrow> box_root m f b q u"

definition strong_ref :: "gcmem \<Rightarrow> (addr \<Rightarrow> box_flag set) \<Rightarrow> addr \<Rightarrow> addr \<Rightarrow> bool" where
  "strong_ref m f b c \<longleftrightarrow> (\<exists>p t. box_root m f b p t \<and> (IClass c \<in> root_refs m f t p \<or> IData c \<in> root_refs m f t p))"

definition plain_heap :: "gcmem \<Rightarrow> (addr \<Rightarrow> box_flag set) \<Rightarrow> bool" where
  "plain_heap m f \<longleftrightarrow> (\<forall>b. emb (btype m b) (iface_of b) = {}) \<and>
     (\<forall>b. \<not> is_class_kind FunctionClosure (btype m b) \<and> \<not> is_class_kind PropertyClosure (btype m b)) \<and>
     (\<forall>b. ClassMark \<in> f b \<longrightarrow> DataMark \<in> f b) \<and>
     (\<forall>a p t b. box_root m f a p t \<longrightarrow> IClass b \<in> root_refs m f t p \<longrightarrow> is_class (btype m b))"

text \<open>What may be found when the node of the box \<open>a\<close> is current.\<close>

definition found_in :: "gcmem \<Rightarrow> (addr \<Rightarrow> box_flag set) \<Rightarrow> addr \<Rightarrow> item \<Rightarrow> bool" where
  "found_in m f a i =
     (case i of IClass b \<Rightarrow> (a = b \<or> strong_ref m f a b) \<and> is_class (btype m b) | IData b \<Rightarrow> a = b \<or> strong_ref m f a b
      | IRoot p t \<Rightarrow> box_root m f a p t | IWeak b \<Rightarrow> True | IClosure b \<Rightarrow> False)"

text \<open>An item is noted below the node \<open>n\<close>: its box has a node and an edge from \<open>n\<close>, or it is a root that is
  queued for \<open>n\<close> or has been scanned.\<close>

definition linked :: "dgraph \<Rightarrow> nat \<Rightarrow> addr \<Rightarrow> bool" where
  "linked G n b \<longleftrightarrow> (\<exists>k<length (d_nodeArray G). d_nodeArray G ! k = b \<and> (k = n \<or> (n, k) \<in> set (d_unsortedEdges G)))"

type_synonym queued = "(nat \<times> addr \<times> gtype) set"

inductive noted :: "gcmem \<Rightarrow> (addr \<Rightarrow> box_flag set) \<Rightarrow> (addr \<Rightarrow> box_flag set) \<Rightarrow> dgraph \<Rightarrow> queued \<Rightarrow> nat \<Rightarrow> item \<Rightarrow> bool"
  for m f g G Q n where
  noted_weak: "noted m f g G Q n (IWeak b)"
| noted_data: "linked G n b \<Longrightarrow> DataMark \<in> g b \<Longrightarrow> noted m f g G Q n (IData b)"
| noted_class: "linked G n b \<Longrightarrow> DataMark \<in> g b \<Longrightarrow> noted m f g G Q n (IClass b)"
| noted_queued: "(n, p, t) \<in> Q \<Longrightarrow> noted m f g G Q n (IRoot p t)"
| noted_scanned: "(\<And>i. i \<in> root_refs m f t p \<Longrightarrow> noted m f g G Q n i) \<Longrightarrow> noted m f g G Q n (IRoot p t)"

inductive_cases noted_rootE: "noted m f g G Q n (IRoot p t)"
inductive_cases noted_classE: "noted m f g G Q n (IClass b)"
inductive_cases noted_dataE: "noted m f g G Q n (IData b)"

lemma linked_grows: "linked G n b \<Longrightarrow> graph_grows G G' \<Longrightarrow> linked G' n b"
  using graph_grows_nodes [of G G'] unfolding linked_def by metis

lemma noted_mono:
  assumes "noted m f g G Q n i" and "\<And>b. g b \<subseteq> g' b" and "graph_grows G G'"
    and "\<And>n p t. (n, p, t) \<in> Q \<Longrightarrow> noted m f g' G' Q' n (IRoot p t)"
  shows "noted m f g' G' Q' n i"
  using assms(1)
proof (induction rule: noted.induct)
  case (noted_data b)
  then show ?case using assms(2) [of b] linked_grows [OF _ assms(3)] by (auto intro: noted.noted_data)
next
  case (noted_class b)
  then show ?case using assms(2) [of b] linked_grows [OF _ assms(3)] by (auto intro: noted.noted_class)
qed (auto intro: noted.intros assms(4))

section \<open>The invariant\<close>

definition box_scanned :: "gcmem \<Rightarrow> (addr \<Rightarrow> box_flag set) \<Rightarrow> (addr \<Rightarrow> box_flag set) \<Rightarrow> dgraph \<Rightarrow> queued \<Rightarrow> addr \<Rightarrow> bool" where
  "box_scanned m f g G Q b \<longleftrightarrow> (\<exists>n<length (d_nodeArray G). d_nodeArray G ! n = b \<and>
     (\<forall>(p, t)\<in>set (data_root_list m f b). noted m f g G Q n (IRoot p t)))"

definition newly_marked :: "(addr \<Rightarrow> box_flag set) \<Rightarrow> (addr \<Rightarrow> box_flag set) \<Rightarrow> addr \<Rightarrow> bool" where
  "newly_marked f g b \<longleftrightarrow> (DataMark \<in> g b \<and> DataMark \<notin> f b) \<or> (ClassMark \<in> g b \<and> ClassMark \<notin> f b)"

definition flags_ok :: "(addr \<Rightarrow> box_flag set) \<Rightarrow> (addr \<Rightarrow> box_flag set) \<Rightarrow> bool" where
  "flags_ok f g \<longleftrightarrow> (\<forall>b. f b \<subseteq> g b \<and> g b \<inter> ReadFlags = f b \<inter> ReadFlags \<and> (ClassMark \<in> g b \<longrightarrow> DataMark \<in> g b))"

definition sound :: "gcmem \<Rightarrow> (addr \<Rightarrow> box_flag set) \<Rightarrow> dgraph \<Rightarrow> queued \<Rightarrow> bool" where
  "sound m f G Q \<longleftrightarrow> (\<forall>(n, p, t)\<in>Q. n < length (d_nodeArray G) \<and> box_root m f (d_nodeArray G ! n) p t) \<and>
     (\<forall>(i, j)\<in>set (d_unsortedEdges G). strong_ref m f (d_nodeArray G ! i) (d_nodeArray G ! j))"

definition rinv :: "gcmem \<Rightarrow> (addr \<Rightarrow> box_flag set) \<Rightarrow> queued \<Rightarrow> bstate \<Rightarrow> bool" where
  "rinv m f E s \<longleftrightarrow> flags_ok f (b_fl s) \<and> sound m f (b_graph s) (set (b_roots s) \<union> E) \<and>
     (\<forall>b. newly_marked f (b_fl s) b \<longrightarrow> box_scanned m f (b_fl s) (b_graph s) (set (b_roots s) \<union> E) b)"

text \<open>Flags, nodes and edges are only added, and roots leave the queue when they have been scanned.\<close>

definition progresses :: "gcmem \<Rightarrow> (addr \<Rightarrow> box_flag set) \<Rightarrow> queued \<Rightarrow> bstate \<Rightarrow> queued \<Rightarrow> bstate \<Rightarrow> bool" where
  "progresses m f E s E' s' \<longleftrightarrow> (\<forall>b. b_fl s b \<subseteq> b_fl s' b) \<and> graph_grows (b_graph s) (b_graph s') \<and>
     (\<forall>n p t. (n, p, t) \<in> set (b_roots s) \<union> E \<longrightarrow>
        noted m f (b_fl s') (b_graph s') (set (b_roots s') \<union> E') n (IRoot p t))"

lemma progresses_noted:
  "progresses m f E s E' s' \<Longrightarrow> noted m f (b_fl s) (b_graph s) (set (b_roots s) \<union> E) n i \<Longrightarrow>
     noted m f (b_fl s') (b_graph s') (set (b_roots s') \<union> E') n i"
  by (rule noted_mono) (auto simp: progresses_def)

lemma progresses_scanned:
  assumes "progresses m f E s E' s'" and "box_scanned m f (b_fl s) (b_graph s) (set (b_roots s) \<union> E) b"
  shows "box_scanned m f (b_fl s') (b_graph s') (set (b_roots s') \<union> E') b"
proof -
  obtain n where n: "n < length (d_nodeArray (b_graph s))" "d_nodeArray (b_graph s) ! n = b"
    "\<forall>(p, t)\<in>set (data_root_list m f b). noted m f (b_fl s) (b_graph s) (set (b_roots s) \<union> E) n (IRoot p t)"
    using assms(2) by (auto simp: box_scanned_def)
  have "graph_grows (b_graph s) (b_graph s')" using assms(1) by (simp add: progresses_def)
  then show ?thesis using n graph_grows_nodes(1,2) [of "b_graph s" "b_graph s'" n] progresses_noted [OF assms(1)]
    unfolding box_scanned_def by (intro exI [of _ n]) auto
qed

lemma sound_grows:
  assumes "sound m f G Q" and "nodes_ok G" and g: "graph_grows G G'"
    and e: "\<And>i j. (i, j) \<in> set (d_unsortedEdges G') \<Longrightarrow> (i, j) \<notin> set (d_unsortedEdges G) \<Longrightarrow>
      strong_ref m f (d_nodeArray G' ! i) (d_nodeArray G' ! j)"
    and q: "\<And>n p t. (n, p, t) \<in> Q' \<Longrightarrow> (n, p, t) \<notin> Q \<Longrightarrow> n < length (d_nodeArray G') \<and> box_root m f (d_nodeArray G' ! n) p t"
  shows "sound m f G' Q'"
proof -
  have "n < length (d_nodeArray G') \<and> box_root m f (d_nodeArray G' ! n) p t" if "(n, p, t) \<in> Q'" for n p t
    using assms(1) q [OF that] graph_grows_nodes(1,2) [OF g, of n] by (cases "(n, p, t) \<in> Q") (auto simp: sound_def)
  moreover have "strong_ref m f (d_nodeArray G' ! i) (d_nodeArray G' ! j)" if "(i, j) \<in> set (d_unsortedEdges G')" for i j
  proof (cases "(i, j) \<in> set (d_unsortedEdges G)")
    case True
    then have "i < length (d_nodeArray G)" "j < length (d_nodeArray G)" using assms(2) by (auto simp: nodes_ok_def)
    then show ?thesis using True assms(1) graph_grows_nodes(2) [OF g] by (auto simp: sound_def)
  qed (rule e [OF that])
  ultimately show ?thesis by (auto simp: sound_def)
qed

lemma rinv_step:
  assumes inv: "rinv m f E s" and p: "progresses m f E s E' s'" and fl: "flags_ok f (b_fl s')"
    and so: "sound m f (b_graph s') (set (b_roots s') \<union> E')"
    and new: "\<And>b. newly_marked f (b_fl s') b \<Longrightarrow> \<not> newly_marked f (b_fl s) b \<Longrightarrow>
      box_scanned m f (b_fl s') (b_graph s') (set (b_roots s') \<union> E') b"
  shows "rinv m f E' s'"
  using assms progresses_scanned [OF p] unfolding rinv_def by blast

section \<open>The operations\<close>

definition current_box :: "bstate \<Rightarrow> addr" where
  "current_box s = d_nodeArray (b_graph s) ! current s"

text \<open>The operation \<open>h\<close> follows the items \<open>A\<close> below the current node.\<close>

definition follows :: "gcmem \<Rightarrow> (addr \<Rightarrow> box_flag set) \<Rightarrow> (bstate \<Rightarrow> bstate) \<Rightarrow> item set \<Rightarrow> bool" where
  "follows m f h A \<longleftrightarrow> (\<forall>s E. binv s \<and> rinv m f E s \<and> (\<forall>i\<in>A. found_in m f (current_box s) i) \<longrightarrow>
     graph_step s (h s) \<and> rinv m f E (h s) \<and> (\<forall>b. b_fl s b \<subseteq> b_fl (h s) b) \<and> set (b_roots s) \<subseteq> set (b_roots (h s)) \<and>
     (\<forall>i\<in>A. noted m f (b_fl (h s)) (b_graph (h s)) (set (b_roots (h s))) (current s) i))"

lemma follows_id [simp]: "follows m f (\<lambda>s. s) {}"
  by (simp add: follows_def graph_step_def)

lemma step_current: "graph_step s s' \<Longrightarrow> binv s \<Longrightarrow> current s' = current s \<and> current_box s' = current_box s"
  using graph_grows_nodes(2) [of "b_graph s" "b_graph s'" "current s"] current_ok [of s]
  by (auto simp: graph_step_def current_def current_box_def)

lemma follows_comp:
  assumes "follows m f h A" and "follows m f k B"
  shows "follows m f (\<lambda>s. k (h s)) (A \<union> B)"
  unfolding follows_def
proof (intro allI impI)
  fix s E
  assume s: "binv s \<and> rinv m f E s \<and> (\<forall>i\<in>A \<union> B. found_in m f (current_box s) i)"
  then have 1: "graph_step s (h s)" "rinv m f E (h s)" "\<forall>b. b_fl s b \<subseteq> b_fl (h s) b" "set (b_roots s) \<subseteq> set (b_roots (h s))"
    "\<forall>i\<in>A. noted m f (b_fl (h s)) (b_graph (h s)) (set (b_roots (h s))) (current s) i"
    using assms(1) unfolding follows_def by blast+
  have c: "current (h s) = current s" "current_box (h s) = current_box s" using step_current [OF 1(1)] s by simp_all
  then have 2: "graph_step (h s) (k (h s))" "rinv m f E (k (h s))" "\<forall>b. b_fl (h s) b \<subseteq> b_fl (k (h s)) b"
    "set (b_roots (h s)) \<subseteq> set (b_roots (k (h s)))"
    "\<forall>i\<in>B. noted m f (b_fl (k (h s))) (b_graph (k (h s))) (set (b_roots (k (h s)))) (current s) i"
    using assms(2) s 1(2) graph_step_inv(1) [OF 1(1)] unfolding follows_def by (metis UnCI)+
  have g: "graph_grows (b_graph (h s)) (b_graph (k (h s)))" using 2(1) by (simp add: graph_step_def)
  have "noted m f (b_fl (k (h s))) (b_graph (k (h s))) (set (b_roots (k (h s)))) (current s) i" if "i \<in> A" for i
    by (rule noted_mono [OF bspec [OF 1(5) that] _ g]) (use 2(3,4) in \<open>auto intro: noted_queued\<close>)
  then show "graph_step s (k (h s)) \<and> rinv m f E (k (h s)) \<and> (\<forall>b. b_fl s b \<subseteq> b_fl (k (h s)) b) \<and>
      set (b_roots s) \<subseteq> set (b_roots (k (h s))) \<and>
      (\<forall>i\<in>A \<union> B. noted m f (b_fl (k (h s))) (b_graph (k (h s))) (set (b_roots (k (h s)))) (current s) i)"
    using graph_step_trans [OF 1(1) 2(1)] 1(3,4) 2(2-5) by blast
qed

lemma flags_b_simps [simp]:
  "b_fl (flags_b b F s) x = (if x = b then b_fl s x \<union> F else b_fl s x)" "b_roots (flags_b b F s) = b_roots s"
  "b_graph (flags_b b F s) = b_graph s"
  by (simp_all add: flags_b_def)

lemma weakMark_b_simps [simp]:
  "b_fl (weakMark_b m b s) x = (if x = b \<or> x = b - rootOffset m b then insert WeakMark (b_fl s x) else b_fl s x)"
  "b_roots (weakMark_b m b s) = b_roots s" "b_graph (weakMark_b m b s) = b_graph s"
  by (auto simp: weakMark_b_def Let_def)

lemma follows_weakMark: "follows m f (weakMark_b m b) {IWeak b}"
  unfolding follows_def
proof (intro allI impI)
  fix s E assume s: "binv s \<and> rinv m f E s \<and> (\<forall>i\<in>{IWeak b}. found_in m f (current_box s) i)"
  let ?s = "weakMark_b m b s"
  have g: "graph_step s ?s" using tracksD [OF tracks_weakMark] s by blast
  have p: "progresses m f E s E ?s" by (auto simp: progresses_def intro: noted_queued)
  have "rinv m f E ?s"
    by (rule rinv_step [OF _ p]) (use s in \<open>auto simp: rinv_def flags_ok_def newly_marked_def split: if_splits\<close>)
  then show "graph_step s ?s \<and> rinv m f E ?s \<and> (\<forall>c. b_fl s c \<subseteq> b_fl ?s c) \<and> set (b_roots s) \<subseteq> set (b_roots ?s) \<and>
      (\<forall>i\<in>{IWeak b}. noted m f (b_fl ?s) (b_graph ?s) (set (b_roots ?s)) (current s) i)"
    using g by (auto intro: noted_weak)
qed

lemma data_root_list_box: "(p, t) \<in> set (data_root_list m f b) \<Longrightarrow> box_root m f b p t"
  using set_data_root_list [of m b f] by (auto simp: data_root_list_def Let_def intro!: box_root_data split: if_splits)

text \<open>What the two operations that add an edge have in common.\<close>

lemma mark_rinv:
  assumes b: "binv s" and inv: "rinv m f E s" and found: "current_box s = b \<or> strong_ref m f (current_box s) b"
    and e: "edge_b (current s) b s = (n, s1)" and gr: "b_graph s' = b_graph s1" and fl: "flags_ok f (b_fl s')"
    and mono: "\<And>x. b_fl s x \<subseteq> b_fl s' x"
    and other: "\<And>x. x \<noteq> b \<Longrightarrow> newly_marked f (b_fl s') x \<Longrightarrow> newly_marked f (b_fl s) x"
    and roots: "b_roots s' = b_roots s @ map (Pair n) rs" and rs: "set rs \<subseteq> set (data_root_list m f b)"
    and new: "newly_marked f (b_fl s') b \<Longrightarrow> newly_marked f (b_fl s) b \<or> rs = data_root_list m f b"
  shows "rinv m f E s'" and "linked (b_graph s') (current s) b"
proof -
  let ?G = "b_graph s'"
  obtain g where g: "addEdge (current s) b (b_graph s) = (n, g)" "s1 = s\<lparr>b_graph := g\<rparr>"
    using e by (auto simp: edge_b_def split: prod.splits)
  have ok: "nodes_ok (b_graph s)" using b by (simp add: binv_def)
  have "b_graph s' = g" using gr g(2) by simp
  note k = addEdge_ok [OF ok current_ok [OF b] g(1), folded this]
  show "linked ?G (current s) b" using k(2,3,6) by (auto simp: linked_def)
  have cur: "d_nodeArray ?G ! current s = current_box s"
    using graph_grows_nodes(2) [OF k(4) current_ok [OF b]] by (simp add: current_box_def)
  have own: "n = current s" if "current_box s = b"
  proof -
    have "d_nodeArray ?G ! n = d_nodeArray ?G ! current s" using that k(3) cur by simp
    then show ?thesis using k(1,2) graph_grows_nodes(1) [OF k(4) current_ok [OF b]]
      by (simp add: nodes_ok_def nth_eq_iff_index_eq)
  qed
  have so: "sound m f ?G (set (b_roots s') \<union> E)"
  proof (rule sound_grows [OF _ ok k(4)])
    show "sound m f (b_graph s) (set (b_roots s) \<union> E)" using inv by (simp add: rinv_def)
    show "strong_ref m f (d_nodeArray ?G ! i) (d_nodeArray ?G ! j)"
      if "(i, j) \<in> set (d_unsortedEdges ?G)" "(i, j) \<notin> set (d_unsortedEdges (b_graph s))" for i j
    proof -
      have ij: "i = current s" "j = n" using that k(7) by auto
      show ?thesis
      proof (cases "current_box s = b")
        case True
        then have "n = current s" by (rule own)
        obtain g1 where g1: "getNode b (b_graph s) = (n, g1)" "g = add_edge (current s) n g1"
          using g(1) by (auto simp: addEdge_def split: prod.splits)
        have "d_unsortedEdges g1 = d_unsortedEdges (b_graph s)"
          using g1(1) by (auto simp: getNode_def split: box_slot.splits)
        then have "d_unsortedEdges g = d_unsortedEdges (b_graph s)"
          using g1(2) \<open>n = current s\<close> by (simp add: add_edge_def)
        then have "d_unsortedEdges ?G = d_unsortedEdges (b_graph s)" using \<open>b_graph s' = g\<close> by simp
        then show ?thesis using that by simp
      next
        case False
        then show ?thesis using found ij cur k(3) by simp
      qed
    qed
    show "n' < length (d_nodeArray ?G) \<and> box_root m f (d_nodeArray ?G ! n') p t"
      if "(n', p, t) \<in> set (b_roots s') \<union> E" "(n', p, t) \<notin> set (b_roots s) \<union> E" for n' p t
      using that roots rs k(2,3) data_root_list_box by auto
  qed
  have p: "progresses m f E s E s'" using mono k(4) roots by (auto simp: progresses_def intro: noted_queued)
  show "rinv m f E s'"
  proof (rule rinv_step [OF inv p fl so])
    fix x assume x: "newly_marked f (b_fl s') x" "\<not> newly_marked f (b_fl s) x"
    have "x = b" using x other by blast
    moreover have "rs = data_root_list m f b" using x new \<open>x = b\<close> by blast
    ultimately show "box_scanned m f (b_fl s') ?G (set (b_roots s') \<union> E) x"
      using k(2,3) roots unfolding box_scanned_def by (intro exI [of _ n]) (auto intro: noted_queued)
  qed
qed

lemma read_same: "flags_ok f g \<Longrightarrow> Invalid \<in> g b \<longleftrightarrow> Invalid \<in> f b" "flags_ok f g \<Longrightarrow> DynamicArray \<in> g b \<longleftrightarrow> DynamicArray \<in> f b"
  unfolding flags_ok_def using read_flags(5,6) by (metis IntD1 IntI)+

lemma edge_b_simps: "edge_b n b s = (i, s1) \<Longrightarrow> b_fl s1 = b_fl s \<and> b_roots s1 = b_roots s"
  by (auto simp: edge_b_def split: prod.splits)

lemma follows_markData: "follows m f (markData_b m b) {IData b}"
  unfolding follows_def
proof (intro allI impI)
  fix s E assume s: "binv s \<and> rinv m f E s \<and> (\<forall>i\<in>{IData b}. found_in m f (current_box s) i)"
  let ?s = "markData_b m b s"
  define s0 where "s0 = weakMark_b m b s"
  have w: "graph_step s s0" "rinv m f E s0"
    using follows_weakMark [of m f b] s by (auto simp: follows_def found_in_def s0_def)
  have c: "current s0 = current s" "current_box s0 = current_box s" using step_current [OF w(1)] s by simp_all
  obtain n s1 where e: "edge_b (current s0) b s0 = (n, s1)" by fastforce
  have f0: "flags_ok f (b_fl s0)" using w(2) by (simp add: rinv_def)
  note e1 = edge_b_simps [OF e]
  define rs where "rs = (if DataMark \<in> b_fl s0 b then [] else data_root_list m f b)"
  have eq: "b_graph ?s = b_graph s1" "b_roots ?s = b_roots s0 @ map (Pair n) rs"
    "b_fl ?s x = (if x = b then insert DataMark (b_fl s0 x) else b_fl s0 x)" for x
    using e1 read_same [OF f0, of b]
    by (auto simp: markData_b_def s0_def [symmetric] e Let_def rs_def data_root_list_def root_b_def rootArray_b_def)
  have fl: "flags_ok f (b_fl ?s)" using f0 by (auto simp: flags_ok_def eq(3))
  have found: "current_box s0 = b \<or> strong_ref m f (current_box s0) b" using s c by (simp add: found_in_def)
  have mono: "b_fl s0 x \<subseteq> b_fl ?s x" for x by (auto simp: eq(3))
  have bi: "binv s0" using graph_step_inv(1) [OF w(1)] s by blast
  have "rinv m f E ?s" "linked (b_graph ?s) (current s0) b"
    by (rule mark_rinv [OF bi w(2) found e eq(1) fl mono _ eq(2)],
      use f0 in \<open>auto simp: eq(3) newly_marked_def rs_def flags_ok_def split: if_splits\<close>)+
  moreover have "graph_step s ?s" using tracksD [OF tracks_markData] s by blast
  moreover have "b_fl s x \<subseteq> b_fl ?s x" for x by (auto simp: eq(3) s0_def)
  moreover have "b_roots s0 = b_roots s" by (simp add: s0_def)
  ultimately show "graph_step s ?s \<and> rinv m f E ?s \<and> (\<forall>c. b_fl s c \<subseteq> b_fl ?s c) \<and> set (b_roots s) \<subseteq> set (b_roots ?s) \<and>
      (\<forall>i\<in>{IData b}. noted m f (b_fl ?s) (b_graph ?s) (set (b_roots ?s)) (current s) i)"
    using c eq by (auto intro: noted_data)
qed

lemma no_fields: "emb t iface = {} \<Longrightarrow> markClassFields_b t n iface s = s"
  "emb_bases bs iface = {} \<Longrightarrow> markBases_b bs n iface s = s"
  "emb_fields fs iface = {} \<Longrightarrow> markFields_b fs n iface s = s"
  by (induction t and bs and fs arbitrary: iface s and iface s and iface s rule: emb_emb_bases_emb_fields.induct)
    (auto split: if_splits)

lemma follows_markClass:
  assumes "plain_heap m f"
  shows "follows m f (markClass_b m b) {IClass b}"
  unfolding follows_def
proof (intro allI impI)
  fix s E assume s: "binv s \<and> rinv m f E s \<and> (\<forall>i\<in>{IClass b}. found_in m f (current_box s) i)"
  let ?s = "markClass_b m b s"
  have f0: "flags_ok f (b_fl s)" using s by (simp add: rinv_def)
  obtain n s1 where e: "edge_b (current s) b s = (n, s1)" by fastforce
  note e1 = edge_b_simps [OF e]
  define rs where "rs = (if ClassMark \<in> b_fl s b then [] else data_root_list m f b)"
  have cl: "is_class (btype m b)" using s by (simp add: found_in_def)
  have nf: "markClassFields_b (btype m b) n (iface_of b) x = x" for n x
    using assms by (intro no_fields(1)) (simp add: plain_heap_def)
  have eq: "b_graph ?s = b_graph s1" "b_roots ?s = b_roots s @ map (Pair n) rs"
    "b_fl ?s x = (if ClassMark \<in> b_fl s b then b_fl s x
      else if x = b then {ClassMark, DataMark} \<union> b_fl (weakMark_b m b s) x else b_fl (weakMark_b m b s) x)" for x
    using e1 read_same(1) [OF f0, of b] cl
    by (auto simp: markClass_b_def e Let_def rs_def data_root_list_def root_b_def nf)
  have fl: "flags_ok f (b_fl ?s)" using f0 by (auto simp: flags_ok_def eq(3))
  have found: "current_box s = b \<or> strong_ref m f (current_box s) b" using s by (simp add: found_in_def)
  have mono: "b_fl s x \<subseteq> b_fl ?s x" for x by (auto simp: eq(3))
  have r: "rinv m f E ?s" "linked (b_graph ?s) (current s) b"
    by (rule mark_rinv [OF _ _ found e eq(1) fl mono _ eq(2)],
      use s in \<open>auto simp: eq(3) newly_marked_def rs_def split: if_splits\<close>)+
  have d: "DataMark \<in> b_fl ?s b" using f0 by (auto simp: eq(3) flags_ok_def)
  have g: "graph_step s ?s" using tracksD [OF tracks_markClass] s by blast
  show "graph_step s ?s \<and> rinv m f E ?s \<and> (\<forall>c. b_fl s c \<subseteq> b_fl ?s c) \<and> set (b_roots s) \<subseteq> set (b_roots ?s) \<and>
      (\<forall>i\<in>{IClass b}. noted m f (b_fl ?s) (b_graph ?s) (set (b_roots ?s)) (current s) i)"
    using g r mono d eq(2) by (auto intro: noted_class)
qed

end
