(* ===== verification/DestructRefsThms.thy ===== *)
theory DestructRefsThms
  imports DestructRefs
begin

text \<open>
  Scanning the roots follows every reference: the edges of the finished graph are the strong references of the
  boxes that were marked, and so the order of destruction respects them.
\<close>

section \<open>Scanning\<close>

lemma follows_cong:
  assumes "follows m f h A" and "\<And>s E. binv s \<Longrightarrow> rinv m f E s \<Longrightarrow> k s = h s"
  shows "follows m f k A"
  using assms unfolding follows_def by metis

lemma follows_if: "(b \<Longrightarrow> follows m f h A) \<Longrightarrow> follows m f (\<lambda>s. if b then h s else s) (if b then A else {})"
  by (cases b) simp_all

lemma follows_data_ptr: "follows m f (markDataPtr_b m p) (data_ptr_refs m p)"
proof (cases "ld m (p + 8) = 0")
  case False
  have "follows m f (\<lambda>s. markData_b m (ld m (ld m (p + 8) + 8)) (weakMark_b m (ld m (ld m (p + 8))) s)) (data_ptr_refs m p)"
    using follows_comp [OF follows_weakMark [of m f "ld m (ld m (p + 8))"] follows_markData [of m f "ld m (ld m (p + 8) + 8)"]] False
    by (simp add: data_ptr_refs_def Let_def insert_commute)
  then show ?thesis using False by (simp add: markDataPtr_b_def [abs_def] Let_def)
qed (simp add: markDataPtr_b_def [abs_def] data_ptr_refs_def)

lemma follows_class_ptr: "plain_heap m f \<Longrightarrow> follows m f (mark_class_ptr_b m w p) (class_ptr_refs m w p)"
  by (simp add: mark_class_ptr_b_def [abs_def] class_ptr_refs_def Let_def follows_weakMark follows_markClass)

lemma follows_closure_ptr:
  assumes "plain_heap m f" and "k = FunctionClosure \<or> k = PropertyClosure"
  shows "follows m f (mark_closure_ptr_b m k w p) (closure_ptr_refs m k w p)"
proof -
  have "\<not> is_class_kind k (btype m b)" for b using assms by (auto simp: plain_heap_def)
  then show ?thesis
    by (simp add: mark_closure_ptr_b_def [abs_def] closure_ptr_refs_def Let_def follows_weakMark follows_markClass assms(1))
qed

lemma follows_scalar: "plain_heap m f \<Longrightarrow> follows m f (mark_scalar_b m c p) (scalar_refs m c p)"
  by (cases c) (simp_all add: mark_scalar_b_def [abs_def] scalar_refs_def follows_data_ptr follows_class_ptr
    follows_closure_ptr follows_comp)

lemma follows_array: "follows m f (\<lambda>s. rootArray_b (current s) p t n s) (array_refs p t n)"
  unfolding follows_def
proof (intro allI impI)
  fix s E assume s: "binv s \<and> rinv m f E s \<and> (\<forall>i\<in>array_refs p t n. found_in m f (current_box s) i)"
  let ?s = "rootArray_b (current s) p t n s"
  have eq: "b_graph ?s = b_graph s" "b_fl ?s = b_fl s"
    "b_roots ?s = b_roots s @ map (\<lambda>i. (current s, p + gsize t * of_nat i, t)) [0..<n]"
    by (simp_all add: rootArray_b_def)
  have c: "current s < length (d_nodeArray (b_graph s))" using s current_ok by blast
  have g: "graph_step s ?s" using tracks_rootArray [OF c] s by blast
  have r: "box_root m f (current_box s) (p + gsize t * of_nat i) t" if "i < n" for i
    using s that by (auto simp: array_refs_def found_in_def)
  have p: "progresses m f E s E ?s" by (auto simp: progresses_def eq intro: noted_queued)
  have so: "sound m f (b_graph s) (set (b_roots s) \<union> E)" "nodes_ok (b_graph s)" using s by (simp_all add: rinv_def binv_def)
  have "sound m f (b_graph ?s) (set (b_roots ?s) \<union> E)"
    by (rule sound_grows [OF so]) (use r c in \<open>auto simp: eq current_box_def\<close>)
  then have "rinv m f E ?s"
    by (intro rinv_step [OF _ p]) (use s in \<open>auto simp: rinv_def eq\<close>)
  then show "graph_step s ?s \<and> rinv m f E ?s \<and> (\<forall>b. b_fl s b \<subseteq> b_fl ?s b) \<and> set (b_roots s) \<subseteq> set (b_roots ?s) \<and>
      (\<forall>i\<in>array_refs p t n. noted m f (b_fl ?s) (b_graph ?s) (set (b_roots ?s)) (current s) i)"
    using g by (auto simp: eq array_refs_def intro!: noted_queued)
qed

text \<open>No reference of a plain heap is one to a closure that is held weakly.\<close>

lemma closure_free:
  assumes h: "plain_heap m f" and V: "\<And>p c. IClosure c \<notin> VR p"
  shows "IClosure c \<notin> refs t m f VR p" and "IClosure c \<notin> refs_impl t m f VR p"
    and "IClosure c \<notin> refs_bases bs m f VR p" and "IClosure c \<notin> refs_fields bs m f VR p"
proof (induction t and t and bs and bs arbitrary: p and p and p and p rule: refs_refs_impl_refs_bases_refs_fields.induct)
  case (1 k)
  have "\<not> is_class_kind FunctionClosure (btype m b) \<and> \<not> is_class_kind PropertyClosure (btype m b)" for b
    using h by (simp add: plain_heap_def)
  then show ?case
    by (cases k) (auto simp: scalar_refs_def data_ptr_refs_def class_ptr_refs_def closure_ptr_refs_def Let_def)
qed (auto simp: V array_refs_def)

lemma no_closure_refs:
  assumes "plain_heap m f"
  shows "IClosure c \<notin> root_refs m f t p"
proof -
  have "IClosure c \<notin> variant_refs m f q" for c q
    using closure_free(1) [OF assms, of "\<lambda>p. {}"] by (simp add: variant_refs_def split: option.split)
  then show ?thesis unfolding root_refs_def by (rule closure_free(1) [OF assms])
qed

lemma follows_mgr:
  assumes h: "plain_heap m f" and V: "\<And>p. follows m f (V p) (VR p)"
  shows "follows m f (mgr_b t m V p) (refs t m f VR p)"
    and "follows m f (mgr_impl_b t m V p) (refs_impl t m f VR p)"
    and "follows m f (mgr_bases_b bs m V p) (refs_bases bs m f VR p)"
    and "follows m f (mgr_fields_b fs m V p) (refs_fields fs m f VR p)"
proof (induction t and t and bs and fs arbitrary: p and p and p and p rule: refs_refs_impl_refs_bases_refs_fields.induct)
  case (5 k n d bs fs a)
  let ?b = "m_box m (iface_of p)"
  have "follows m f (\<lambda>s. if ?b = 0 \<or> Invalid \<in> f ?b then s else mgr_impl_b (GClass k n d bs fs a) m V (iface_of p) s)
      (refs (GClass k n d bs fs a) m f VR p)"
    using 5 [of m p f] by simp
  then show ?case
  proof (rule follows_cong)
    fix s E
    assume "binv s" and "rinv m f E s"
    then have "Invalid \<in> b_fl s ?b \<longleftrightarrow> Invalid \<in> f ?b" by (intro read_same(1)) (simp add: rinv_def)
    then show "mgr_b (GClass k n d bs fs a) m V p s =
        (if ?b = 0 \<or> Invalid \<in> f ?b then s else mgr_impl_b (GClass k n d bs fs a) m V (iface_of p) s)"
      by (simp add: Let_def)
  qed
next
  case (9 off t bs)
  let ?h = "\<lambda>s. if \<not> gcroot t then s else if is_class t then mgr_impl_b t m V (p + off) s else mgr_b t m V (p + off) s"
  let ?A = "if \<not> gcroot t then {} else if is_class t then refs_impl t m f VR (p + off) else refs t m f VR (p + off)"
  have "follows m f ?h ?A" using 9 by simp
  then show ?case using follows_comp [of m f ?h ?A "mgr_bases_b bs m V p"] 9 by simp
next
  case (11 off t fs)
  let ?h = "\<lambda>s. if gcroot t then mgr_b t m V (p + off) s else s"
  let ?A = "if gcroot t then refs t m f VR (p + off) else {}"
  have "follows m f ?h ?A" using 11 by simp
  then show ?case using follows_comp [of m f ?h ?A "mgr_fields_b fs m V p"] 11 by simp
next
  case (4 n bs fs)
  then show ?case by (simp add: follows_comp)
next
  case (6 k n d bs fs a)
  then show ?case by (simp add: follows_comp)
qed (simp_all add: follows_scalar [OF h] V follows_array)

lemma follows_markGcRoots:
  assumes h: "plain_heap m f"
  shows "follows m f (markGcRoots_b m t p) (root_refs m f t p)"
proof -
  have "follows m f (markVariant_b m q) (variant_refs m f q)" for q
  proof (cases "vtype m q")
    case (Some u)
    then show ?thesis
      using follows_mgr(1) [OF h, of "\<lambda>p s. s" "\<lambda>p. {}" u q]
      by (cases "gcroot u") (simp_all add: markVariant_b_def [abs_def] variant_refs_def)
  qed (simp add: markVariant_b_def [abs_def] variant_refs_def)
  then show ?thesis using follows_mgr(1) [OF h, of "markVariant_b m" "variant_refs m f" t p]
    by (simp add: markGcRoots_b_def [abs_def] root_refs_def)
qed

text \<open>A root that has been scanned need not be queued.\<close>

lemma rinv_set_current [simp]: "rinv m f E (set_current n s) \<longleftrightarrow> rinv m f E s"
proof -
  have "noted m f g (b_graph (set_current n s)) Q k i \<longleftrightarrow> noted m f g (b_graph s) Q k i" for g Q k i
    by (auto elim!: noted_mono intro: noted_queued simp: graph_grows_def)
  then show ?thesis
    by (simp add: rinv_def sound_def box_scanned_def) (simp add: set_current_def)
qed

lemma scan_root_follows:
  assumes h: "plain_heap m f" and mk: "marking s" and inv: "rinv m f (insert (n, p, t) E) s"
    and n: "n < length (d_nodeArray (b_graph s))"
  shows "rinv m f E (markGcRoots_b m t p (set_current n s)) \<and> (\<forall>b. b_fl s b \<subseteq> b_fl (markGcRoots_b m t p (set_current n s)) b)"
proof -
  let ?r = "set_current n s"
  let ?s = "markGcRoots_b m t p ?r"
  have b: "binv ?r" by (rule set_current_inv [OF mk n])
  have cur: "current ?r = n" "current_box ?r = d_nodeArray (b_graph s) ! n"
    by (simp_all add: current_box_def current_def set_current_def)
  have br: "box_root m f (current_box ?r) p t" using inv by (auto simp: rinv_def sound_def cur(2))
  have "found_in m f (current_box ?r) i" if "i \<in> root_refs m f t p" for i
  proof (cases i)
    case (IRoot q u)
    then show ?thesis using that box_root_elem [OF br] by (simp add: found_in_def)
  next
    case (IData c)
    then show ?thesis using that br by (auto simp: found_in_def strong_ref_def)
  next
    case (IClass c)
    then show ?thesis using that br h by (auto simp: found_in_def strong_ref_def plain_heap_def)
  next
    case (IClosure c)
    then show ?thesis using that no_closure_refs [OF h] by simp
  qed (simp add: found_in_def)
  then have 1: "graph_step ?r ?s" "rinv m f (insert (n, p, t) E) ?s" "\<forall>b. b_fl ?r b \<subseteq> b_fl ?s b"
    "set (b_roots ?r) \<subseteq> set (b_roots ?s)"
    "\<forall>i\<in>root_refs m f t p. noted m f (b_fl ?s) (b_graph ?s) (set (b_roots ?s)) (current ?r) i"
    using follows_markGcRoots [OF h, of t p] b inv rinv_set_current unfolding follows_def by blast+
  have "noted m f (b_fl ?s) (b_graph ?s) (set (b_roots ?s) \<union> E) n i" if "i \<in> root_refs m f t p" for i
    using 1(5) that cur(1) by (auto elim!: noted_mono intro: noted_queued)
  then have scanned: "noted m f (b_fl ?s) (b_graph ?s) (set (b_roots ?s) \<union> E) n (IRoot p t)" by (rule noted_scanned)
  have p: "progresses m f (insert (n, p, t) E) ?s E ?s" using scanned by (auto simp: progresses_def intro: noted_queued)
  have "rinv m f E ?s"
    by (rule rinv_step [OF 1(2) p]) (use 1(2) in \<open>auto simp: rinv_def sound_def\<close>)
  moreover have "b_fl ?r = b_fl s" by (simp add: set_current_def)
  ultimately show ?thesis using 1(3) by simp
qed

lemma scan_roots_follows:
  assumes h: "plain_heap m f" and "marking s" and "rinv m f (set rs \<union> E) s"
  shows "rinv m f E (scan_roots_b m rs s) \<and> (\<forall>b. b_fl s b \<subseteq> b_fl (scan_roots_b m rs s) b)"
  using assms(2,3)
proof (induction rs arbitrary: s)
  case (Cons r rs)
  obtain n p t where r: "r = (n, p, t)" by (cases r) auto
  have i: "rinv m f (insert (n, p, t) (set rs \<union> E)) s" using Cons.prems(2) by (simp add: r)
  then have n: "n < length (d_nodeArray (b_graph s))" by (auto simp: rinv_def sound_def)
  let ?s = "markGcRoots_b m t p (set_current n s)"
  note k = tracks_current(1) [OF tracks_markGcRoots Cons.prems(1) n, of m t p]
  have 1: "rinv m f (set rs \<union> E) ?s" "\<forall>b. b_fl s b \<subseteq> b_fl ?s b" using scan_root_follows [OF h Cons.prems(1) i n] by blast+
  have "rinv m f E (scan_roots_b m rs ?s)" "\<forall>b. b_fl ?s b \<subseteq> b_fl (scan_roots_b m rs ?s) b" using Cons.IH [OF k 1(1)] by blast+
  then show ?case using 1(2) by (auto simp: r)
qed simp

lemma cycle_follows:
  assumes h: "plain_heap m f" and mk: "marking s" and inv: "rinv m f {} s" and run: "runMarkCycle_b m s = Some s'"
  shows "rinv m f {} s'" and "b_fl s b \<subseteq> b_fl s' b" and "b_roots s' = []"
proof -
  have "marking s' \<and> rinv m f {} s' \<and> (\<forall>b. b_fl s b \<subseteq> b_fl s' b)"
  proof (rule while_option_rule [where P = "\<lambda>s'. marking s' \<and> rinv m f {} s' \<and> (\<forall>b. b_fl s b \<subseteq> b_fl s' b)",
        OF _ run [unfolded runMarkCycle_b_def]])
    fix t
    assume t: "marking t \<and> rinv m f {} t \<and> (\<forall>b. b_fl s b \<subseteq> b_fl t b)"
    let ?t = "t\<lparr>b_roots := []\<rparr>"
    have 1: "marking ?t" "rinv m f (set (b_roots t) \<union> {}) ?t" using t by (simp_all add: marking_def rinv_def)
    have 2: "marking (scan_roots_b m (b_roots t) ?t)" using round_tracks(1) [of t m] t by blast
    have "rinv m f {} (scan_roots_b m (b_roots t) ?t)" "\<forall>b. b_fl ?t b \<subseteq> b_fl (scan_roots_b m (b_roots t) ?t) b"
      using scan_roots_follows [OF h 1] by blast+
    then show "marking (scan_roots_b m (b_roots t) ?t) \<and> rinv m f {} (scan_roots_b m (b_roots t) ?t) \<and>
        (\<forall>b. b_fl s b \<subseteq> b_fl (scan_roots_b m (b_roots t) ?t) b)"
      using t 2 by auto
  qed (use mk inv in simp)
  then show "rinv m f {} s'" "b_fl s b \<subseteq> b_fl s' b" by blast+
  show "b_roots s' = []" using while_option_stop [OF run [unfolded runMarkCycle_b_def]] by simp
qed

lemma markClass_marks: "ClassMark \<in> b_fl (markClass_b m b s) b"
  by (auto simp: markClass_b_def Let_def root_b_def split: prod.split)

lemma candidates_follow:
  assumes h: "plain_heap m f" and "marking s" and "rinv m f {} s"
    and "\<forall>i\<in>set is. i < length (d_nodeArray (b_graph s)) \<and> is_class (btype m (d_nodeArray (b_graph s) ! i))"
  defines "t \<equiv> fold (\<lambda>i s. markClass_b m (d_nodeArray (b_graph s) ! i) (set_current i s)) is s"
  shows "rinv m f {} t \<and> (\<forall>b. b_fl s b \<subseteq> b_fl t b) \<and> (\<forall>i\<in>set is. ClassMark \<in> b_fl t (d_nodeArray (b_graph s) ! i))"
  using assms(2-4) unfolding t_def
proof (induction "is" arbitrary: s)
  case (Cons i "is")
  let ?b = "d_nodeArray (b_graph s) ! i"
  let ?s = "markClass_b m ?b (set_current i s)"
  let ?t = "fold (\<lambda>i s. markClass_b m (d_nodeArray (b_graph s) ! i) (set_current i s)) is ?s"
  have i: "i < length (d_nodeArray (b_graph s))" using Cons.prems(3) by simp
  note k = tracks_current [OF tracks_markClass Cons.prems(1) i, of m ?b]
  have "found_in m f (current_box (set_current i s)) (IClass ?b)"
    using Cons.prems(3) by (simp add: found_in_def current_box_def current_def set_current_def)
  then have 1: "rinv m f {} ?s" "\<forall>b. b_fl (set_current i s) b \<subseteq> b_fl ?s b"
    using follows_markClass [OF h, of ?b] set_current_inv [OF Cons.prems(1) i] Cons.prems(2) rinv_set_current
    unfolding follows_def by blast+
  have same: "d_nodeArray (b_graph ?s) ! j = d_nodeArray (b_graph s) ! j" "j < length (d_nodeArray (b_graph ?s))" if "j \<in> set is" for j
    using that Cons.prems(3) graph_grows_nodes(1,2) [OF k(2), of j] by auto
  have 2: "rinv m f {} ?t" "\<forall>b. b_fl ?s b \<subseteq> b_fl ?t b" "\<forall>i\<in>set is. ClassMark \<in> b_fl ?t (d_nodeArray (b_graph s) ! i)"
    using Cons.IH [OF k(1) 1(1)] same Cons.prems(3) by auto
  have "b_fl (set_current i s) = b_fl s" by (simp add: set_current_def)
  then show ?case using 1(2) 2 markClass_marks [of m ?b "set_current i s"] by auto
qed simp

section \<open>Edges and references\<close>

lemma all_roots_noted:
  assumes "box_root m f b p t" and "\<forall>(p, t)\<in>set (data_root_list m f b). noted m f g G {} n (IRoot p t)"
  shows "noted m f g G {} n (IRoot p t)"
  using assms(1)
proof (induction rule: box_root.induct)
  case (box_root_data p t)
  then show ?case using assms(2) set_data_root_list [of m b f] by (auto simp: data_root_list_def split: if_splits)
next
  case (box_root_elem p t q u)
  then show ?case by (auto elim: noted_rootE)
qed

lemma reference_edge:
  assumes inv: "rinv m f {} s" and q: "b_roots s = []" and ok: "nodes_ok (b_graph s)"
    and b: "newly_marked f (b_fl s) b" and n: "n < length (d_nodeArray (b_graph s))" "d_nodeArray (b_graph s) ! n = b"
    and r: "strong_ref m f b c"
  shows "linked (b_graph s) n c" and "DataMark \<in> b_fl s c"
proof -
  obtain k where k: "k < length (d_nodeArray (b_graph s))" "d_nodeArray (b_graph s) ! k = b"
    "\<forall>(p, t)\<in>set (data_root_list m f b). noted m f (b_fl s) (b_graph s) {} k (IRoot p t)"
    using inv b q by (auto simp: rinv_def box_scanned_def)
  have "distinct (d_nodeArray (b_graph s))" using ok by (simp add: nodes_ok_def)
  then have "k = n" using k(1,2) n nth_eq_iff_index_eq by metis
  obtain p t where "box_root m f b p t" "IClass c \<in> root_refs m f t p \<or> IData c \<in> root_refs m f t p"
    using r by (auto simp: strong_ref_def)
  then have "noted m f (b_fl s) (b_graph s) {} n (IClass c) \<or> noted m f (b_fl s) (b_graph s) {} n (IData c)"
    using all_roots_noted [OF _ k(3)] \<open>k = n\<close> by (auto elim: noted_rootE)
  then show "linked (b_graph s) n c" "DataMark \<in> b_fl s c" by (auto elim: noted_classE noted_dataE)
qed

text \<open>References followed while building: those of the candidates and of the boxes that were not marked.\<close>

definition followed_ref :: "gcmem \<Rightarrow> (addr \<Rightarrow> box_flag set) \<Rightarrow> addr list \<Rightarrow> (addr \<times> addr) set" where
  "followed_ref m f cs = {(b, c). (b \<in> set cs \<or> DataMark \<notin> f b) \<and> strong_ref m f b c}"

lemma path_of_refs:
  assumes inv: "rinv m f {} s" and q: "b_roots s = []" and ok: "nodes_ok (b_graph s)"
    and cs: "\<forall>b\<in>set cs. ClassMark \<notin> f b \<and> ClassMark \<in> b_fl s b" and a: "a \<in> set cs"
    and i: "i < length (d_nodeArray (b_graph s))" "d_nodeArray (b_graph s) ! i = a"
    and r: "(a, b) \<in> (followed_ref m f cs)\<^sup>*"
  shows "\<exists>k<length (d_nodeArray (b_graph s)). d_nodeArray (b_graph s) ! k = b \<and> (i, k) \<in> (set (d_unsortedEdges (b_graph s)))\<^sup>* \<and>
    DataMark \<in> b_fl s b"
  using r
proof (induction rule: rtrancl_induct)
  case base
  have "DataMark \<in> b_fl s a" using cs a inv by (auto simp: rinv_def flags_ok_def)
  then show ?case using i by auto
next
  case (step y c)
  then obtain k where k: "k < length (d_nodeArray (b_graph s))" "d_nodeArray (b_graph s) ! k = y"
    "(i, k) \<in> (set (d_unsortedEdges (b_graph s)))\<^sup>*" "DataMark \<in> b_fl s y" by blast
  have y: "y \<in> set cs \<or> DataMark \<notin> f y" "strong_ref m f y c" using step.hyps(2) by (auto simp: followed_ref_def)
  then have "newly_marked f (b_fl s) y" using k(4) cs by (auto simp: newly_marked_def)
  note e = reference_edge [OF inv q ok this k(1,2) y(2)]
  then obtain l where "l < length (d_nodeArray (b_graph s))" "d_nodeArray (b_graph s) ! l = c"
    "l = k \<or> (k, l) \<in> set (d_unsortedEdges (b_graph s))" by (auto simp: linked_def)
  then show ?case using k(3) e(2) by (metis rtrancl.rtrancl_into_rtrancl)
qed

lemma refs_of_path:
  assumes "sound m f G Q" and "(i, k) \<in> (set (d_unsortedEdges G))\<^sup>*"
  shows "(d_nodeArray G ! i, d_nodeArray G ! k) \<in> {(b, c). strong_ref m f b c}\<^sup>*"
  using assms(2)
proof (induction rule: rtrancl_induct)
  case (step y z)
  then have "strong_ref m f (d_nodeArray G ! y) (d_nodeArray G ! z)" using assms(1) by (auto simp: sound_def)
  then show ?case using step.IH by (auto intro: rtrancl.rtrancl_into_rtrancl)
qed simp

lemma before_map: "before xs a b \<Longrightarrow> before (map h xs) (h a) (h b)"
  unfolding before_def by (metis list.simps(9) map_append)

lemma build_nodes_edges: "d_unsortedEdges (build_nodes cs g) = []"
proof -
  have "d_unsortedEdges (fold new_node cs g) = d_unsortedEdges g" for g by (induction cs arbitrary: g) simp_all
  then show ?thesis by (simp add: build_nodes_def)
qed

text \<open>The candidates: unmarked objects.\<close>

definition unmarked_objects :: "gcmem \<Rightarrow> (addr \<Rightarrow> box_flag set) \<Rightarrow> addr list \<Rightarrow> bool" where
  "unmarked_objects m f cs \<longleftrightarrow> (\<forall>b\<in>set cs. ClassMark \<notin> f b \<and> is_class (btype m b))"

lemma built_follows:
  assumes h: "plain_heap m (b_fl s)" and n: "no_nodes s" and cs: "distinct cs" "unmarked_objects m (b_fl s) cs"
    and run: "runMarkCycle_b m (mark_candidates m (length cs) (s\<lparr>b_graph := build_nodes cs (b_graph s)\<rparr>)) = Some t"
  shows "rinv m (b_fl s) {} t" and "b_roots t = []" and "\<forall>b\<in>set cs. ClassMark \<in> b_fl t b"
proof -
  let ?f = "b_fl s"
  let ?g0 = "(b_graph s)\<lparr>d_nodeArray := [], d_nodeMap := (\<lambda>_. None), d_unsortedEdges := []\<rparr>"
  let ?r = "s\<lparr>b_graph := build_nodes cs (b_graph s)\<rparr>"
  have "nodes_ok ?g0" using n by (simp add: nodes_ok_def slot_ok_def no_nodes_def)
  then have g: "nodes_ok (b_graph ?r)" "d_nodeArray (b_graph ?r) = cs"
    using build_nodes_ok [of cs ?g0] n cs(1) by (simp_all add: build_nodes_def no_nodes_def)
  have m0: "marking ?r" using g(1) n by (simp add: marking_def no_nodes_def)
  have i0: "rinv m ?f {} ?r"
    using h n by (auto simp: rinv_def flags_ok_def plain_heap_def sound_def build_nodes_edges newly_marked_def no_nodes_def)
  have ix: "\<forall>i\<in>set [0..<length cs]. i < length (d_nodeArray (b_graph ?r)) \<and> is_class (btype m (d_nodeArray (b_graph ?r) ! i))"
    using g(2) cs(2) by (simp add: unmarked_objects_def)
  let ?t = "mark_candidates m (length cs) ?r"
  have m1: "marking ?t" using candidates_tracks [OF m0, of "[0..<length cs]" m] ix by (simp add: mark_candidates_def)
  have c: "rinv m ?f {} ?t" "\<forall>i\<in>set [0..<length cs]. ClassMark \<in> b_fl ?t (d_nodeArray (b_graph ?r) ! i)"
    using candidates_follow [OF h m0 i0 ix] unfolding mark_candidates_def by blast+
  note k = cycle_follows [OF h m1 c(1) run]
  show "rinv m ?f {} t" "b_roots t = []" using k(1,3) by simp_all
  show "\<forall>b\<in>set cs. ClassMark \<in> b_fl t b"
  proof
    fix b assume "b \<in> set cs"
    then obtain i where "i < length cs" "b = cs ! i" by (auto simp: in_set_conv_nth)
    then show "ClassMark \<in> b_fl t b" using bspec [OF c(2), of i] k(2) [of b] g(2) by auto
  qed
qed

section \<open>The order\<close>


end
