(* ===== verification/DestructExample.thy ===== *)
theory DestructExample
  imports DestructRefsThms
begin

text \<open>
  Three unreachable objects with destructors: A points to W, Z to D, and K has nothing; W points to an object
  embedded in D, which points to K. The counting sort exists, the graph is well-formed, and the order of
  destruction loses a reference of the embedded object.
\<close>

section \<open>A counting sort\<close>

definition ex_sort :: count_sort where
  "ex_sort es k = (sort_key fst es, map (\<lambda>i. length (filter (\<lambda>e. fst e < i) es)) [0..<k + 1])"

lemma ex_sort_ok: "count_sort_ok ex_sort"
  by (simp add: count_sort_ok_def ex_sort_def nth_append del: upt_Suc)

section \<open>A graph\<close>

text \<open>The first node and the third are on a loop, and the second is above them.\<close>

definition ex_graph :: dgraph where
  "ex_graph = build_edges ex_sort 3
     \<lparr>d_nodeArray = [256, 512, 768], d_nodeMap = (\<lambda>_. None), d_slot = (\<lambda>_. NoSlot), d_unsortedEdges = [(1, 0), (0, 2), (2, 0)],
      d_sortedEdges = [], d_edgeBase = [], d_destructCount = 0, d_currentNode = None\<rparr>"

lemma ex_graph_eq:
  "d_sortedEdges ex_graph = [(0, 2), (1, 0), (2, 0)]" "d_edgeBase ex_graph = [0, 1, 2, 3]" "d_destructCount ex_graph = 3"
  "d_nodeArray ex_graph = [256, 512, 768]"
  by (simp_all add: ex_graph_def build_edges_def ex_sort_def upt_rec numeral_eq_Suc)

lemma ex_graph_ok: "graph_ok ex_graph"
  by (simp add: graph_ok_def ex_graph_eq All_less_Suc numeral_eq_Suc)

lemma ex_reaches: "reaches ex_graph 1 0" "reaches ex_graph 0 2" "reaches ex_graph 2 0"
  unfolding reaches_def by (auto simp: ex_graph_eq)

lemma ex_not_reaches: "\<not> reaches ex_graph 0 1" "\<not> reaches ex_graph 2 1"
proof -
  have r: "v \<noteq> 1" if "reaches ex_graph u v" "u \<noteq> 1" for u v
    using that(1) [unfolded reaches_def] that(2) by (induction rule: rtrancl_induct) (auto simp: ex_graph_eq)
  show "\<not> reaches ex_graph 0 1" "\<not> reaches ex_graph 2 1" using r [of 0 1] r [of 2 1] by auto
qed

lemma tarjan_components_witness:
  "\<exists>s. tarjan ex_graph = Some s \<and> sccIdx s 0 = sccIdx s 2 \<and> sccIdx s 0 \<noteq> sccIdx s 1"
proof -
  obtain s where s: "tarjan ex_graph = Some s" "{..<3} \<subseteq> dom (sccIdx s)"
    "\<forall>u\<in>dom (sccIdx s). \<forall>v\<in>dom (sccIdx s). sccIdx s u = sccIdx s v \<longleftrightarrow> reaches ex_graph u v \<and> reaches ex_graph v u"
    using tarjan_components [OF ex_graph_ok] by (auto simp: ex_graph_eq)
  have "0 \<in> dom (sccIdx s)" "1 \<in> dom (sccIdx s)" "2 \<in> dom (sccIdx s)" using s(2) by (auto simp: subset_iff)
  then show ?thesis using s(1,3) ex_reaches ex_not_reaches by blast
qed

lemma destruction_order_witness:
  "\<exists>s order. tarjan ex_graph = Some s \<and> emit ex_graph s [] = map (\<lambda>k. iface_of (d_nodeArray ex_graph ! k)) order \<and>
     before order 1 0 \<and> before order 2 0"
proof -
  have lt: "0 < d_destructCount ex_graph" "1 < d_destructCount ex_graph" "2 < d_destructCount ex_graph"
    by (simp_all add: ex_graph_eq)
  obtain s order where s: "tarjan ex_graph = Some s"
    "emit ex_graph s [] = [] @ map (\<lambda>k. iface_of (d_nodeArray ex_graph ! k)) order"
    "\<forall>i<d_destructCount ex_graph. \<forall>j<d_destructCount ex_graph.
       (reaches ex_graph i j \<and> \<not> reaches ex_graph j i \<longrightarrow> before order i j) \<and>
       (reaches ex_graph i j \<and> reaches ex_graph j i \<and> j < i \<longrightarrow> before order i j) \<and>
       (i < j \<and> (\<forall>k\<le>i. \<not> reaches ex_graph k j) \<longrightarrow> before order j i)"
    using destruction_order [OF ex_graph_ok, of "[]"] by blast
  have "before order 1 0" using s(3) lt ex_reaches ex_not_reaches by blast
  moreover have "before order 2 0" using s(3) lt ex_reaches by (metis zero_less_numeral)
  ultimately show ?thesis using s(1,2) by auto
qed

section \<open>A heap\<close>

definition class_P :: gtype where
  "class_P = GClass NormalClass 24 True [] [(16, GScalar (GClassPtr False))] None"

definition class_D :: gtype where
  "class_D = GClass NormalClass 56 False [] [(16, class_P)] None"

text \<open>A at 4096, Z at 8192, K at 12288, W at 16384, D at 20480 and the object embedded in it at 20512.\<close>

definition ex_objects :: gcmem where
  "ex_objects =
     \<lparr>ld = (\<lambda>p. if p = 4120 then 4096 else if p = 8216 then 8192 else if p = 12312 then 12288
        else if p = 16408 then 16384 else if p = 20504 then 20480 else if p = 20536 then 20512
        else if p = 4128 then 16400 else if p = 8224 then 20496 else if p = 16416 then 20528
        else if p = 20544 then 12304 else 0),
      vtype = (\<lambda>p. None),
      btype = (\<lambda>b. if b = 20480 then class_D else class_P),
      rootOffset = (\<lambda>b. if b = 20512 then 32 else 0)\<rparr>"

definition ex_before :: bstate where
  "ex_before =
     \<lparr>b_fl = (\<lambda>b. {}), b_roots = [],
      b_graph = \<lparr>d_nodeArray = [], d_nodeMap = (\<lambda>_. None), d_slot = (\<lambda>_. NoSlot), d_unsortedEdges = [], d_sortedEdges = [],
        d_edgeBase = [], d_destructCount = 0, d_currentNode = None\<rparr>\<rparr>"

lemma destruct_order_total_witness:
  "\<exists>order s'. destruct_order ex_sort ex_objects [4096, 8192, 12288] ex_before [16] = Some (16 # map iface_of order, s') \<and>
     mset order = {#4096, 8192, 12288#}"
proof -
  have v: "variants_ok ex_objects" by (simp add: variants_ok_def ex_objects_def)
  have n: "no_nodes ex_before" by (simp add: no_nodes_def ex_before_def)
  obtain order s' where "destruct_order ex_sort ex_objects [4096, 8192, 12288] ex_before [16] = Some ([16] @ map iface_of order, s')"
    "mset order = mset [4096, 8192, 12288]"
    using destruct_order_total [OF ex_sort_ok v n, of "[4096, 8192, 12288]" "[16]"] by auto
  then show ?thesis by auto
qed

lemma ex_object_fields [simp]:
  "ld ex_objects 4120 = 4096" "ld ex_objects 8216 = 8192" "ld ex_objects 12312 = 12288" "ld ex_objects 16408 = 16384"
  "ld ex_objects 20504 = 20480" "ld ex_objects 20536 = 20512" "ld ex_objects 4128 = 16400" "ld ex_objects 8224 = 20496"
  "ld ex_objects 16416 = 20528" "ld ex_objects 20544 = 12304" "ld ex_objects 12320 = 0" "vtype ex_objects p = None"
  "btype ex_objects b = (if b = 20480 then class_D else class_P)" "rootOffset ex_objects b = (if b = 20512 then 32 else 0)"
  by (simp_all add: ex_objects_def)

section \<open>A heap without embedded objects\<close>

text \<open>The object at 4096 points to the one at 8192, which points to nothing.\<close>

definition plain_objects :: gcmem where
  "plain_objects =
     \<lparr>ld = (\<lambda>p. if p = 4120 then 4096 else if p = 8216 then 8192 else if p = 4128 then 8208 else 0),
      vtype = (\<lambda>p. None), btype = (\<lambda>b. class_P), rootOffset = (\<lambda>b. 0)\<rparr>"

lemma plain_root: "box_root plain_objects (\<lambda>b. {}) b p t \<Longrightarrow> p = b \<and> t = class_P"
proof (induction rule: box_root.induct)
  case (box_root_data p t)
  then show ?case by (simp add: data_roots_def plain_objects_def class_P_def is_class_def)
next
  case (box_root_elem p t q u)
  then show ?case
    by (simp add: root_refs_def class_P_def scalar_gcroot_def scalar_refs_def class_ptr_refs_def Let_def split: if_splits)
qed

lemma plain_objects_ok: "plain_heap plain_objects (\<lambda>b. {})"
  by (simp add: plain_heap_def plain_objects_def class_P_def is_class_def is_class_kind_def)

lemma plain_ref: "strong_ref plain_objects (\<lambda>b. {}) 4096 8192"
proof -
  have "box_root plain_objects (\<lambda>b. {}) 4096 4096 class_P"
    by (rule box_root_data) (simp_all add: plain_objects_def class_P_def scalar_gcroot_def data_roots_def is_class_def)
  moreover have "IClass 8192 \<in> root_refs plain_objects (\<lambda>b. {}) class_P 4096"
    by (simp add: root_refs_def class_P_def scalar_gcroot_def scalar_refs_def class_ptr_refs_def plain_objects_def m_box_def
      iface_of_def)
  ultimately show ?thesis unfolding strong_ref_def by blast
qed

lemma plain_no_ref: "\<not> strong_ref plain_objects (\<lambda>b. {}) 8192 c"
proof
  assume "strong_ref plain_objects (\<lambda>b. {}) 8192 c"
  then have "IClass c \<in> root_refs plain_objects (\<lambda>b. {}) class_P 8192 \<or> IData c \<in> root_refs plain_objects (\<lambda>b. {}) class_P 8192"
    unfolding strong_ref_def using plain_root by blast
  then show False
    by (simp add: root_refs_def class_P_def scalar_gcroot_def scalar_refs_def class_ptr_refs_def plain_objects_def m_box_def
      iface_of_def)
qed


section \<open>A reference of an embedded object\<close>

text \<open>The graph of the example: A, Z, K, W, D and the embedded object are the nodes 0 to 5.\<close>

definition ex_built :: dgraph where
  "ex_built =
     \<lparr>d_nodeArray = [4096, 8192, 12288, 16384, 20480, 20512], d_nodeMap = (\<lambda>_. None),
      d_slot = (\<lambda>_. NoSlot)(4096 := IndexSlot 0, 8192 := IndexSlot 1, 12288 := IndexSlot 2, 16384 := IndexSlot 3,
        20480 := IndexSlot 4, 20512 := IndexSlot 5),
      d_unsortedEdges = [(0, 3), (1, 4), (4, 5), (3, 5), (4, 2)], d_sortedEdges = [], d_edgeBase = [], d_destructCount = 0,
      d_currentNode = Some 4\<rparr>"

lemma small_index: "i < 1024 \<Longrightarrow> i < BoxIndexLimit"
  by (simp add: BoxIndexLimit_def)

lemma ex_marked:
  "map_option b_graph (runMarkCycle_b ex_objects
     (mark_candidates ex_objects 3 (ex_before\<lparr>b_graph := build_nodes [4096, 8192, 12288] (b_graph ex_before)\<rparr>))) =
   Some ex_built"
  by (simp add: ex_before_def class_P_def class_D_def mark_candidates_def build_nodes_def new_node_def Let_def small_index
    markClass_b_def edge_b_def addEdge_def getNode_def add_edge_def current_def set_current_def weakMark_b_def flags_b_def
    root_b_def iface_of_def scalar_gcroot_def is_class_def upt_rec runMarkCycle_b_def while_option_unfold markGcRoots_b_def
    m_box_def mark_scalar_b_def mark_class_ptr_b_def ex_built_def cong: let_weak_cong)
    (simp add: eval_nat_numeral)

lemma ex_emitted:
  "map_option (\<lambda>t. emit (build_edges ex_sort 3 ex_built) t []) (tarjan (build_edges ex_sort 3 ex_built)) =
   Some [8208, 12304, 4112]"
  by code_simp

text \<open>A reference that an embedded object holds is recorded for the object around it: A keeps K alive
  through W and the embedded object, K does not keep A, and yet K is queued before A, because no edge leads
  from the node of the embedded object to that of K.\<close>

theorem embedded_reference_lost:
  "map_option fst (destruct_order ex_sort ex_objects [4096, 8192, 12288] ex_before []) = Some [8208, 12304, 4112] \<and>
   live ex_objects (\<lambda>b. {}) {IClass 4096} (IClass 12288) \<and> \<not> live ex_objects (\<lambda>b. {}) {IClass 12288} (IClass 4096)"
proof (intro conjI)
  have three: "length [4096, 8192, 12288 :: addr] = 3" by simp
  show "map_option fst (destruct_order ex_sort ex_objects [4096, 8192, 12288] ex_before []) = Some [8208, 12304, 4112]"
    using ex_marked ex_emitted
    by (auto simp: destruct_order_def build_def three simp del: list.size)
  let ?L = "live ex_objects (\<lambda>b. {})"
  have go: "?L R (IClass c)"
    if "?L R (IClass b)" "btype ex_objects b = class_P" "m_box ex_objects (iface_of b) = b" "b \<noteq> 0"
      "ld ex_objects (b + 32) = iface_of c" "iface_of c \<noteq> 0" "m_box ex_objects (iface_of c) = c"
    for R and b c :: addr
  proof -
    have "?L R (IRoot b class_P)"
      using live_class_root [OF that(1)] that(2) by (simp add: class_P_def scalar_gcroot_def)
    then show ?thesis
      by (rule live_root)
        (use that in \<open>simp add: root_refs_def class_P_def scalar_gcroot_def scalar_refs_def class_ptr_refs_def iface_of_def
          add.commute [of 32] Let_def\<close>)
  qed
  have 1: "?L {IClass 4096} (IClass 16384)"
    by (rule go [where b = 4096, OF live_base]) (simp_all add: m_box_def iface_of_def)
  have 2: "?L {IClass 4096} (IClass 20512)"
    by (rule go [OF 1]) (simp_all add: m_box_def iface_of_def)
  show "?L {IClass 4096} (IClass 12288)"
    by (rule go [OF 2]) (simp_all add: m_box_def iface_of_def)
  have "i \<in> {IClass 12288, IWeak 12288, IRoot 12288 class_P}" if "?L {IClass 12288} i" for i
    using that
  proof (induction rule: live.induct)
    case (live_root p t i)
    then show ?case
      by (simp add: root_refs_def class_P_def scalar_gcroot_def scalar_refs_def class_ptr_refs_def iface_of_def m_box_def
        ex_objects_def)
  next
    case (live_class_field b e t)
    then show ?case by (simp add: ex_objects_def class_P_def is_class_def)
  qed (auto simp: ex_objects_def)
  then show "\<not> ?L {IClass 12288} (IClass 4096)" by fastforce
qed

end
