(* ===== verification/GcCollectExample.thy ===== *)
theory GcCollectExample
  imports GcCollect GcMarkExample DestructExample
begin

text \<open>
  The collections of the heap of \<open>GcMarkExample\<close>: the first one leaves a stale mark on the embedded object, the
  second frees the buffer that the object points to, which is reachable.
\<close>

abbreviation idle_graph :: dgraph where
  "idle_graph \<equiv> b_graph ex_before"

lemma ex_idle: "idle_heap ex_mem ex_heap idle_graph"
  using ex_no_stale by (simp add: idle_heap_def) (simp add: ex_heap_def ex_before_def)

lemma ex_all_roots: "all_roots ex_mem [data_only] ex_heap = ex_roots"
  by (simp add: all_roots_def ex_heap_def)

lemma ex_all_ok: "heap_ok ex_mem (fl (unmark ex_heap)) (all_roots ex_mem [data_only] ex_heap)"
  using ex_ok by (simp add: ex_all_roots)

lemma ex_data: "live ex_mem (\<lambda>b. {}) ex_roots (IData 4128)"
  unfolding ex_roots by (rule live_root [OF live_base [OF singletonI]]) (simp add: ex_refs)



text \<open>What follows: two collections, the first of which keeps the buffer, and the second frees it.\<close>

lemma stale_mark_frees_reachable:
  "map_option (allocBoxes \<circ> fst) (collect_l ex_sort ex_mem [data_only] ex_heap idle_graph) = Some [4096, 8192, 12288] \<and>
   map_option (allocBoxes \<circ> fst) (Option.bind (collect_l ex_sort ex_mem [data_only] ex_heap idle_graph)
     (\<lambda>(h, g). collect_l ex_sort ex_mem [data_only] h g)) = Some [4096, 12288] \<and>
   held ex_mem ex_heap (heap_roots ex_mem [data_only] ex_heap) 8192"
proof (intro conjI)
  show "map_option (allocBoxes \<circ> fst) (collect_l ex_sort ex_mem [data_only] ex_heap idle_graph) = Some [4096, 8192, 12288]"
    by code_simp
  show "map_option (allocBoxes \<circ> fst) (Option.bind (collect_l ex_sort ex_mem [data_only] ex_heap idle_graph)
      (\<lambda>(h, g). collect_l ex_sort ex_mem [data_only] h g)) = Some [4096, 12288]"
    by code_simp
  show "held ex_mem ex_heap (heap_roots ex_mem [data_only] ex_heap) 8192" using ex_live by (simp add: held_def kept_def ex_fresh)
qed

end
