(* ===== verification/ClassTypes.thy ===== *)
theory ClassTypes
  imports StructLayout
begin

text \<open>
  Classes (\<^verbatim>\<open>jnc_ct_ClassType.cpp\<close>): the layout of a class with several base types, its table of
  virtual methods, how a method overrides one of a base class, and how the header of an interface
  in an object comes to point into the table (\<^verbatim>\<open>jnc_Runtime.cpp\<close>). A laid out type is a value that
  holds its base types; the pointers of the code to one shared base type are copies of it here,
  which is faithful since a type does not change after its layout. Offsets come from the layout of the
  interface struct, \<open>calcLayoutTo\<close> of \<open>StructLayout\<close>. The operator tables of base types, the static
  variables and the constructors and destructors of properties do not touch what is modelled.
\<close>

section \<open>Functions and items of a class\<close>

datatype storage_kind =
    StorageKind_Undefined | StorageKind_Typedef | StorageKind_Static | StorageKind_Tls
  | StorageKind_Stack | StorageKind_Heap | StorageKind_Alias | StorageKind_Member
  | StorageKind_Abstract | StorageKind_Virtual | StorageKind_Override | StorageKind_Mutable
  | StorageKind_Disposable | StorageKind_DynamicField | StorageKind_Reactor | StorageKind_This

datatype function_kind =
    FunctionKind_Undefined | FunctionKind_Normal | FunctionKind_Getter | FunctionKind_Setter
  | FunctionKind_Binder | FunctionKind_StaticConstructor | FunctionKind_Constructor
  | FunctionKind_Destructor | FunctionKind_CallOperator | FunctionKind_CastOperator
  | FunctionKind_UnaryOperator | FunctionKind_BinaryOperator | FunctionKind_OperatorVararg
  | FunctionKind_OperatorCdeclVararg | FunctionKind_Internal | FunctionKind_Thunk
  | FunctionKind_SchedLauncher | FunctionKind_AsyncSchedLauncher | FunctionKind_AsyncSequencer
  | FunctionKind_Reactor | FunctionKind_Lambda

text \<open>A method: \<open>fn_shortType\<close> is the signature of its type without \<^verbatim>\<open>this\<close>, \<open>fn_thisType\<close> and
  \<open>fn_thisArgType\<close> are the classes that \<^verbatim>\<open>m_thisType\<close> and \<^verbatim>\<open>m_thisArgType\<close> point to, and \<open>fn_type_ok\<close>
  is the result of \<^verbatim>\<open>ensureLayout()\<close> on its type.\<close>

record func =
  fn_name :: string
  fn_kind :: function_kind
  fn_storageKind :: storage_kind
  fn_shortType :: string
  fn_thisArgTypeFlags :: nat
  fn_type_ok :: bool
  fn_thisType :: string
  fn_thisArgType :: string
  fn_thisArgDelta :: int
  fn_virtualOrigin :: "string option"
  fn_classVtableIndex :: nat

definition isVirtual :: "func \<Rightarrow> bool" where
  "isVirtual f \<longleftrightarrow>
     fn_storageKind f \<in> {StorageKind_Abstract, StorageKind_Virtual, StorageKind_Override}"

text \<open>What a name stands for in the namespace of a type, once aliases are resolved.\<close>

datatype 'f setter = NoSetter | SetterFunction 'f | SetterOverload "'f list"

datatype 'f ns_item = ItemFunction 'f | ItemOverload "'f list" | ItemProperty 'f "'f setter" | ItemOther

text \<open>A virtual property, by the positions of its accessors among the functions of the class.\<close>

record property =
  pr_bindable :: bool
  pr_binder :: "nat option"
  pr_getter :: nat
  pr_setter :: "nat setter"
  pr_parentClassVtableIndex :: nat

section \<open>Types\<close>

record class_info =
  ci_signature :: string
  ci_class :: bool
  ci_derivable :: bool
  ci_layout_ok :: bool
  ci_gcRoot :: bool
  ci_constructor :: bool
  ci_destructor :: bool
  ci_hasAbstractMethods :: bool
  ci_opaqueNonCreatable :: bool
  ci_functions :: "func list"
  ci_items :: "(string \<times> nat ns_item) list"
  ci_virtualPropertyArray :: "property list"
  ci_virtualMethodArray :: "nat list"
  ci_overrideMethodArray :: "nat list"
  ci_vtable :: "func list"
  ci_vtableStruct :: "nat option"
  ci_gcRootBaseTypeArray :: "nat list"
  ci_baseTypeConstructArray :: "nat list"
  ci_baseTypeDestructArray :: "nat list"
  ci_classBaseTypeArray :: "nat list"
  ci_gcRootFieldArray :: "nat list"
  ci_fieldInitializeArray :: "nat list"
  ci_iface :: struct_type
  ci_size :: nat
  ci_alignment :: nat

text \<open>A derivable type with its base type slots (type, offset, index into the table of virtual
  methods), the types of its unnamed fields and, for a class, its fields of class type.\<close>

datatype dtype = DType (dt_info: class_info) (dt_slots: "slot list") (dt_unnamed: "dtype list") (dt_classFields: "class_field list")
  and slot = Slot (sl_type: dtype) (sl_offset: nat) (sl_vtableIndex: nat)
  and class_field = ClassField (cf_type: dtype) (cf_offset: nat)

abbreviation dt_signature :: "dtype \<Rightarrow> string" where
  "dt_signature D \<equiv> ci_signature (dt_info D)"

abbreviation dt_class :: "dtype \<Rightarrow> bool" where
  "dt_class D \<equiv> ci_class (dt_info D)"

abbreviation dt_vtable :: "dtype \<Rightarrow> func list" where
  "dt_vtable D \<equiv> ci_vtable (dt_info D)"

section \<open>Looking up base types and members\<close>

text \<open>\<^verbatim>\<open>DerivableType::findBaseTypeTraverseImpl\<close> with its coordinates, the offset and the index into
  the table of virtual methods: a direct base type first, then depth first.\<close>

type_synonym base_coord = "nat \<times> nat"

definition findSlot :: "slot list \<Rightarrow> string \<Rightarrow> slot option" where
  "findSlot ss sig = find (\<lambda>s. dt_signature (sl_type s) = sig) ss"

fun findClassBase :: "dtype \<Rightarrow> string \<Rightarrow> base_coord option"
  and findClassBase_in :: "slot list \<Rightarrow> string \<Rightarrow> base_coord option" where
  "findClassBase (DType I ss us cs) sig =
     (case findSlot ss sig of
        Some s \<Rightarrow> Some (sl_offset s, sl_vtableIndex s)
      | None \<Rightarrow> findClassBase_in ss sig)"
| "findClassBase_in [] sig = None"
| "findClassBase_in (Slot B off v # ss) sig =
     (case findClassBase B sig of
        Some (o', v') \<Rightarrow> Some (o' + off, v' + v)
      | None \<Rightarrow> findClassBase_in ss sig)"

text \<open>\<^verbatim>\<open>DerivableType::findDirectChildItemTraverse\<close> without parent and extension namespaces: the own
  namespace, the unnamed fields, then the base types in order, depth first.\<close>

fun findItem :: "dtype \<Rightarrow> string \<Rightarrow> func ns_item option"
  and findItem_unnamed :: "dtype list \<Rightarrow> string \<Rightarrow> func ns_item option"
  and findItem_bases :: "slot list \<Rightarrow> string \<Rightarrow> func ns_item option" where
  "findItem (DType I ss us cs) n =
     (case map_of (ci_items I) n of
        Some it \<Rightarrow> Some (map_ns_item (\<lambda>k. ci_functions I ! k) it)
      | None \<Rightarrow>
          (case findItem_unnamed us n of
             Some r \<Rightarrow> Some r
           | None \<Rightarrow> findItem_bases ss n))"
| "findItem_unnamed [] n = None"
| "findItem_unnamed (U # us) n =
     (case findItem U n of Some r \<Rightarrow> Some r | None \<Rightarrow> findItem_unnamed us n)"
| "findItem_bases [] n = None"
| "findItem_bases (Slot B off v # ss) n =
     (case findItem B n of Some r \<Rightarrow> Some r | None \<Rightarrow> findItem_bases ss n)"

text \<open>\<^verbatim>\<open>FunctionOverload::findShortOverload\<close>.\<close>

definition findShortOverload :: "func list \<Rightarrow> string \<Rightarrow> nat \<Rightarrow> func option" where
  "findShortOverload fs t flags = find (\<lambda>g. fn_shortType g = t \<and> fn_thisArgTypeFlags g = flags) fs"

section \<open>The layout of a class\<close>

datatype class_error =
    ClassNotReady
  | BaseNotLaidOut
  | NotDerivable
  | DuplicateBase
  | OpaqueBase
  | IfaceLayout layout_error
  | CannotInstantiate
  | FunctionTypeLayout
  | OverriddenNotFound
  | NoSetterToOverride
  | FunctionKindMismatch
  | NotMethodOrProperty
  | SignatureMismatch
  | NotVirtual
  | OriginNotBase
  | ClassDefaultMethods

type_synonym 'a class_result = "class_error + 'a"

fun fold_ok :: "('a \<Rightarrow> 's \<Rightarrow> 's class_result) \<Rightarrow> 'a list \<Rightarrow> 's \<Rightarrow> 's class_result" where
  "fold_ok f [] s = Inr s"
| "fold_ok f (x # xs) s = (case f x s of Inl e \<Rightarrow> Inl e | Inr s' \<Rightarrow> fold_ok f xs s')"

text \<open>The types of an interface header, of a box, and of the interface struct of a base type as a
  member of the interface struct of the derived class (a struct itself when the base is a struct).\<close>

definition hdr_ty :: "string \<Rightarrow> ty" where
  "hdr_ty sig = \<lparr>t_signature = sig, t_size = 16, t_alignment = 8, t_pod = True, t_gcRoot = False,
     t_noStack = False, t_class = False, t_derivable = True, t_constructible = False,
     t_thinThis = True, t_layout_ok = True\<rparr>"

definition struct_ty :: "string \<Rightarrow> struct_type \<Rightarrow> ty" where
  "struct_ty sig s = \<lparr>t_signature = sig, t_size = m_size s, t_alignment = m_alignment s,
     t_pod = m_pod s, t_gcRoot = m_gcRoot s, t_noStack = m_noStack s, t_class = False,
     t_derivable = True, t_constructible = False, t_thinThis = True, t_layout_ok = True\<rparr>"

definition iface_ty :: "dtype \<Rightarrow> ty" where
  "iface_ty B = struct_ty (dt_signature B) (ci_iface (dt_info B))"

text \<open>The class as the parser leaves it.\<close>

record class_decl =
  d_info :: class_info
  d_bases :: "dtype list"
  d_fields :: "(field \<times> dtype option) list"
  d_unnamed :: "dtype list"
  d_fieldAlignment :: nat

record class_state =
  cs_info :: class_info
  cs_slots :: "slot list"
  cs_ifaceBases :: "ty list"
  cs_baseTypeMap :: "string list"

definition getVtableStructType :: "class_info \<Rightarrow> nat" where
  "getVtableStructType I = (case ci_vtableStruct I of None \<Rightarrow> 0 | Some n \<Rightarrow> n)"

text \<open>One round of the loop over the base types: what the class notes of base type \<open>i\<close>, the table of
  virtual methods of a base class, and the round itself. A slot starts with offset \<open>0\<close> and with the vtable
  index \<open>-1\<close> of the constructor, which base types that are not classes keep.\<close>

definition noteBaseType :: "class_info \<Rightarrow> nat \<Rightarrow> class_info \<Rightarrow> class_info" where
  "noteBaseType b i I =
     (let I1 = (if ci_gcRoot b
                then I\<lparr>ci_gcRootBaseTypeArray := ci_gcRootBaseTypeArray I @ [i], ci_gcRoot := True\<rparr>
                else I)
      in if ci_constructor b
         then I1\<lparr>ci_baseTypeConstructArray := ci_baseTypeConstructArray I1 @ [i]\<rparr>
         else I1)"

definition appendBaseVtable :: "class_info \<Rightarrow> nat \<Rightarrow> class_info \<Rightarrow> class_info" where
  "appendBaseVtable b i I =
     (let I1 = I\<lparr>ci_vtable := ci_vtable I @ ci_vtable b\<rparr>;
          I2 = (case ci_vtableStruct b of
                  None \<Rightarrow> I1
                | Some n \<Rightarrow> I1\<lparr>ci_vtableStruct := Some (getVtableStructType I1 + n)\<rparr>);
          I3 = I2\<lparr>ci_classBaseTypeArray := ci_classBaseTypeArray I2 @ [i]\<rparr>
      in if ci_destructor b
         then I3\<lparr>ci_baseTypeDestructArray := ci_baseTypeDestructArray I3 @ [i]\<rparr>
         else I3)"

definition layoutClassBase :: "dtype \<Rightarrow> class_state \<Rightarrow> class_state class_result" where
  "layoutClassBase B st =
     (let b = dt_info B; i = length (cs_slots st)
      in if \<not> ci_layout_ok b then Inl BaseNotLaidOut
         else if \<not> ci_derivable b then Inl NotDerivable
         else if ci_signature b \<in> set (cs_baseTypeMap st) then Inl DuplicateBase
         else
           (let I = noteBaseType b i (cs_info st);
                st1 = st\<lparr>cs_baseTypeMap := ci_signature b # cs_baseTypeMap st,
                         cs_ifaceBases := cs_ifaceBases st @ [iface_ty B]\<rparr>
            in if \<not> ci_class b
               then Inr (st1\<lparr>cs_info := I, cs_slots := cs_slots st @ [Slot B 0 (2 ^ 64 - 1)]\<rparr>)
               else if ci_opaqueNonCreatable b then Inl OpaqueBase
               else Inr (st1\<lparr>cs_info := appendBaseVtable b i I,
                             cs_slots := cs_slots st @ [Slot B 0 (length (ci_vtable I))]\<rparr>)))"

text \<open>The scan of the fields: those that hold references, those to be initialized, and those of class
  type (the offset that a reactor keeps of its parent is not modelled).\<close>

definition noteField :: "nat \<Rightarrow> field \<Rightarrow> class_info \<Rightarrow> class_info" where
  "noteField i f I =
     (let t = f_type f;
          I1 = (if t_gcRoot t
                then I\<lparr>ci_gcRootFieldArray := ci_gcRootFieldArray I @ [i], ci_gcRoot := True\<rparr>
                else I)
      in if f_ownField f \<and> (f_hasInitializer f \<or> t_constructible t)
         then I1\<lparr>ci_fieldInitializeArray := ci_fieldInitializeArray I1 @ [i]\<rparr>
         else I1)"

fun scanClassFields :: "nat \<Rightarrow> field list \<Rightarrow> dtype option list \<Rightarrow> class_info \<times> class_field list
    \<Rightarrow> (class_info \<times> class_field list) class_result" where
  "scanClassFields i (f # fs) (None # cs) (I, cfs) = scanClassFields (Suc i) fs cs (noteField i f I, cfs)"
| "scanClassFields i (f # fs) (Some C # cs) (I, cfs) =
     (if ci_hasAbstractMethods (dt_info C) \<or> ci_opaqueNonCreatable (dt_info C) then Inl CannotInstantiate
      else scanClassFields (Suc i) fs cs (noteField i f I, cfs @ [ClassField C (f_offset f)]))"
| "scanClassFields i fs cs r = Inr r"

text \<open>\<^verbatim>\<open>Property::prepareVtable\<close>, and the number of fields of the struct of the property's table
  (\<^verbatim>\<open>TypeMgr::getPropertyVtableStructType\<close>).\<close>

fun setter_list :: "'f setter \<Rightarrow> 'f list" where
  "setter_list NoSetter = []"
| "setter_list (SetterFunction f) = [f]"
| "setter_list (SetterOverload fs) = fs"

definition prop_vtable :: "property \<Rightarrow> nat list" where
  "prop_vtable p = (case pr_binder p of None \<Rightarrow> [] | Some b \<Rightarrow> [b]) @ pr_getter p # setter_list (pr_setter p)"

definition prop_vtable_fields :: "property \<Rightarrow> nat" where
  "prop_vtable_fields p = (if pr_bindable p then 1 else 0) + 1 + length (setter_list (pr_setter p))"

fun set_accessors :: "string \<Rightarrow> nat \<Rightarrow> nat list \<Rightarrow> func list \<Rightarrow> func list" where
  "set_accessors sig v [] fs = fs"
| "set_accessors sig v (k # ks) fs =
     set_accessors sig (Suc v) ks
       (fs[k := (fs ! k)\<lparr>fn_virtualOrigin := Some sig, fn_classVtableIndex := v\<rparr>])"

text \<open>One round of the loop over the virtual properties.\<close>

definition layoutVirtualProperty :: "nat \<Rightarrow> class_info \<Rightarrow> class_info class_result" where
  "layoutVirtualProperty j I =
     (let p = ci_virtualPropertyArray I ! j; ks = prop_vtable p; v = length (ci_vtable I);
          fs = set_accessors (ci_signature I) v ks (ci_functions I)
      in if \<not> (\<forall>k\<in>set ks. fn_type_ok (ci_functions I ! k)) then Inl FunctionTypeLayout
         else Inr (I\<lparr>ci_functions := fs, ci_vtable := ci_vtable I @ map (\<lambda>k. fs ! k) ks,
                     ci_vtableStruct := Some (getVtableStructType I + prop_vtable_fields p),
                     ci_virtualPropertyArray :=
                       (ci_virtualPropertyArray I)[j := p\<lparr>pr_parentClassVtableIndex := v\<rparr>]\<rparr>))"

definition addVirtualFunction :: "nat \<Rightarrow> class_info \<Rightarrow> class_info class_result" where
  "addVirtualFunction k I =
     (let f = ci_functions I ! k;
          f' = f\<lparr>fn_virtualOrigin := Some (ci_signature I), fn_classVtableIndex := length (ci_vtable I)\<rparr>
      in if \<not> fn_type_ok f then Inl FunctionTypeLayout
         else Inr (I\<lparr>ci_hasAbstractMethods :=
                       (ci_hasAbstractMethods I \<or> fn_storageKind f = StorageKind_Abstract),
                     ci_functions := (ci_functions I)[k := f'],
                     ci_vtableStruct := Some (getVtableStructType I + 1),
                     ci_vtable := ci_vtable I @ [f']\<rparr>))"

text \<open>The first half of \<^verbatim>\<open>overrideVirtualFunction\<close>: the method that \<open>f\<close> overrides, found by name in
  the base types only.\<close>

definition matchFunction :: "func \<Rightarrow> func \<Rightarrow> func class_result" where
  "matchFunction f g = (if fn_shortType g = fn_shortType f then Inr g else Inl SignatureMismatch)"

definition matchOverload :: "func \<Rightarrow> func list \<Rightarrow> func class_result" where
  "matchOverload f gs =
     (case findShortOverload gs (fn_shortType f) (fn_thisArgTypeFlags f) of
        None \<Rightarrow> Inl SignatureMismatch
      | Some g \<Rightarrow> Inr g)"

definition findOverridden :: "slot list \<Rightarrow> func \<Rightarrow> func class_result" where
  "findOverridden ss f =
     (case findItem_bases ss (fn_name f) of
        None \<Rightarrow> Inl OverriddenNotFound
      | Some (ItemFunction g) \<Rightarrow> matchFunction f g
      | Some (ItemOverload gs) \<Rightarrow> matchOverload f gs
      | Some (ItemProperty g s) \<Rightarrow>
          (case fn_kind f of
             FunctionKind_Getter \<Rightarrow> matchFunction f g
           | FunctionKind_Setter \<Rightarrow>
               (case s of
                  NoSetter \<Rightarrow> Inl NoSetterToOverride
                | SetterFunction h \<Rightarrow> matchFunction f h
                | SetterOverload hs \<Rightarrow> matchOverload f hs)
           | _ \<Rightarrow> Inl FunctionKindMismatch)
      | Some ItemOther \<Rightarrow> Inl NotMethodOrProperty)"

definition overrideVirtualFunction :: "slot list \<Rightarrow> nat \<Rightarrow> class_info \<Rightarrow> class_info class_result" where
  "overrideVirtualFunction ss k I =
     (let f = ci_functions I ! k
      in if \<not> fn_type_ok f then Inl FunctionTypeLayout
         else
           (case findOverridden ss f of
              Inl e \<Rightarrow> Inl e
            | Inr g \<Rightarrow>
                if \<not> isVirtual g then Inl NotVirtual
                else
                  (case findClassBase (DType I ss [] []) (the (fn_virtualOrigin g)) of
                     None \<Rightarrow> Inl OriginNotBase
                   | Some (off, v) \<Rightarrow>
                       (let f' = f\<lparr>fn_thisArgType := fn_thisArgType g, fn_thisArgDelta := - int off,
                                   fn_virtualOrigin := fn_virtualOrigin g,
                                   fn_classVtableIndex := fn_classVtableIndex g\<rparr>
                        in Inr (I\<lparr>ci_functions := (ci_functions I)[k := f'],
                                  ci_vtable := (ci_vtable I)[v + fn_classVtableIndex g := f']\<rparr>)))))"

definition needs_hdr :: "dtype list \<Rightarrow> bool" where
  "needs_hdr Bs = (case Bs of [] \<Rightarrow> True | B # _ \<Rightarrow> \<not> dt_class B)"

definition iface_hdrs :: "dtype list \<Rightarrow> ty list" where
  "iface_hdrs Bs = (if needs_hdr Bs then [hdr_ty ''jnc.IfaceHdr''] else [])"

definition set_offsets :: "slot list \<Rightarrow> base_slot list \<Rightarrow> slot list" where
  "set_offsets ss bs = map (\<lambda>(s, b). Slot (sl_type s) (b_offset b) (sl_vtableIndex s)) (zip ss bs)"

definition iface_struct :: "class_decl \<Rightarrow> ty list \<Rightarrow> struct_type" where
  "iface_struct d ts = new_struct IfaceStruct (d_fieldAlignment d) (map new_slot ts) (map fst (d_fields d))"

definition class_struct :: "class_decl \<Rightarrow> struct_type \<Rightarrow> struct_type" where
  "class_struct d s = new_struct ClassStruct (d_fieldAlignment d) []
     [new_field (hdr_ty ''jnc.Box'') 0 False, new_field (struct_ty ''!Iface'' s) 0 False]"

text \<open>The virtual members, in the order of the code: properties, methods, overrides.\<close>

definition layoutVirtualMembers :: "slot list \<Rightarrow> class_info \<Rightarrow> class_info class_result" where
  "layoutVirtualMembers ss I =
     (let I0 = (if ci_virtualPropertyArray I \<noteq> [] \<or> ci_virtualMethodArray I \<noteq> []
                then I\<lparr>ci_vtableStruct := Some (getVtableStructType I)\<rparr> else I)
      in case fold_ok layoutVirtualProperty [0..<length (ci_virtualPropertyArray I)] I0 of
           Inl e \<Rightarrow> Inl e
         | Inr I1 \<Rightarrow>
             (case fold_ok addVirtualFunction (ci_virtualMethodArray I) I1 of
                Inl e \<Rightarrow> Inl e
              | Inr I2 \<Rightarrow> fold_ok (overrideVirtualFunction ss) (ci_overrideMethodArray I) I2))"

definition calcClassLayout :: "layout_env \<Rightarrow> class_decl \<Rightarrow> dtype class_result" where
  "calcClassLayout E d =
     (if \<not> e_namespaceReady E then Inl ClassNotReady
      else
        (let hdrs = iface_hdrs (d_bases d)
         in case fold_ok layoutClassBase (d_bases d)
                   \<lparr>cs_info = d_info d, cs_slots = [], cs_ifaceBases = hdrs, cs_baseTypeMap = []\<rparr> of
              Inl e \<Rightarrow> Inl e
            | Inr st \<Rightarrow>
                (case calcLayoutTo E False (iface_struct d (cs_ifaceBases st)) of
                   (Some e, _) \<Rightarrow> Inl (IfaceLayout e)
                 | (None, s) \<Rightarrow>
                     (case scanClassFields 0 (m_fieldArray s) (map snd (d_fields d)) (cs_info st, []) of
                        Inl e \<Rightarrow> Inl e
                      | Inr (I1, cfs) \<Rightarrow>
                          (let ss = set_offsets (cs_slots st) (drop (length hdrs) (m_baseTypeList s));
                               c = snd (calcLayoutTo E False (class_struct d s))
                           in case layoutVirtualMembers ss I1 of
                                Inl e \<Rightarrow> Inl e
                              | Inr I2 \<Rightarrow>
                                  if \<not> e_defaultMethods E then Inl ClassDefaultMethods
                                  else
                                    Inr (DType (I2\<lparr>ci_layout_ok := True, ci_iface := s,
                                      ci_gcRoot := (ci_gcRoot I2 \<or> m_classGcRoot s),
                                      ci_opaqueNonCreatable :=
                                        (ci_opaqueNonCreatable I2 \<or> m_classNonCreatable s),
                                      ci_size := m_size c, ci_alignment := m_alignment c\<rparr>)
                                      ss (d_unnamed d) cfs))))))"

section \<open>Objects\<close>

text \<open>\<^verbatim>\<open>ClassType::ensureCreatable\<close> and \<^verbatim>\<open>prepareForOperatorNew\<close>, which creates the static variable with the
  table (\<^verbatim>\<open>m_vtableVariable\<close>), in a module with code generation. The fields of class type of the direct
  base classes come first, and an error there is returned; the result for the own fields is not used. The
  class, its fields and its bases are known by their signatures.\<close>

record creation =
  cr_creatable :: "string set"
  cr_vtableVariable :: "string \<Rightarrow> func list option"

definition createVtable :: "class_info \<Rightarrow> creation \<Rightarrow> bool \<times> creation" where
  "createVtable I s =
     (if ci_vtableStruct I = None then (True, s\<lparr>cr_creatable := insert (ci_signature I) (cr_creatable s)\<rparr>)
      else if \<exists>f\<in>set (ci_vtable I). fn_storageKind f = StorageKind_Abstract then (False, s)
      else (True, s\<lparr>cr_vtableVariable := (cr_vtableVariable s)(ci_signature I \<mapsto> ci_vtable I),
                    cr_creatable := insert (ci_signature I) (cr_creatable s)\<rparr>))"

fun ensureCreatable :: "dtype \<Rightarrow> creation \<Rightarrow> bool \<times> creation"
  and ensureClassFieldsCreatable :: "class_field list \<Rightarrow> creation \<Rightarrow> bool \<times> creation"
  and ensureBasesCreatable :: "slot list \<Rightarrow> creation \<Rightarrow> bool \<times> creation" where
  "ensureCreatable (DType I ss us cs) s =
     (if ci_signature I \<in> cr_creatable s then (True, s)
      else
        (case ensureBasesCreatable ss s of
           (False, s1) \<Rightarrow> (False, s1)
         | (True, s1) \<Rightarrow> createVtable I (snd (ensureClassFieldsCreatable cs s1))))"
| "ensureClassFieldsCreatable [] s = (True, s)"
| "ensureClassFieldsCreatable (ClassField C off # cs) s =
     (case ensureCreatable C s of
        (False, s1) \<Rightarrow> (False, s1)
      | (True, s1) \<Rightarrow> ensureClassFieldsCreatable cs s1)"
| "ensureBasesCreatable [] s = (True, s)"
| "ensureBasesCreatable (Slot (DType I ss us cs) off v # bs) s =
     (case (if ci_class I then ensureClassFieldsCreatable cs s else (True, s)) of
        (False, s1) \<Rightarrow> (False, s1)
      | (True, s1) \<Rightarrow> ensureBasesCreatable bs s1)"

text \<open>The headers in memory by their addresses: \<^verbatim>\<open>IfaceHdr\<close> (a pointer into the table of virtual methods
  of a class, and the box) and \<^verbatim>\<open>Box\<close>.\<close>

type_synonym vtable_ptr = "(string \<times> nat) option"

record headers =
  h_vtable :: "int \<Rightarrow> vtable_ptr"
  h_box :: "int \<Rightarrow> int option"
  b_boxType :: "int \<Rightarrow> string option"
  b_flags :: "int \<Rightarrow> nat"
  b_rootOffset :: "int \<Rightarrow> nat"

text \<open>\<^verbatim>\<open>(void**)vtable + n\<close>: a null pointer to a table, and what is computed from it, is \<open>None\<close>, a pointer
  into no table.\<close>

definition vtable_add :: "vtable_ptr \<Rightarrow> nat \<Rightarrow> vtable_ptr" where
  "vtable_add vt n = map_option (\<lambda>(c, k). (c, k + n)) vt"

text \<open>The table that \<^verbatim>\<open>primeClass\<close> takes when it is given none: the static variable of the class, if there is one.
  \<open>V\<close> holds these variables.\<close>

type_synonym vtables = "string \<Rightarrow> func list option"

definition own_vtable :: "vtables \<Rightarrow> dtype \<Rightarrow> vtable_ptr" where
  "own_vtable V D = (case V (dt_signature D) of None \<Rightarrow> None | Some vt \<Rightarrow> Some (dt_signature D, 0))"

definition clear_range :: "int \<Rightarrow> nat \<Rightarrow> (int \<Rightarrow> 'a) \<Rightarrow> 'a \<Rightarrow> int \<Rightarrow> 'a" where
  "clear_range a n g z = (\<lambda>x. if a \<le> x \<and> x < a + int n then z else g x)"

definition memset_zero :: "int \<Rightarrow> nat \<Rightarrow> headers \<Rightarrow> headers" where
  "memset_zero a n h = \<lparr>h_vtable = clear_range a n (h_vtable h) None, h_box = clear_range a n (h_box h) None,
     b_boxType = clear_range a n (b_boxType h) None, b_flags = clear_range a n (b_flags h) 0,
     b_rootOffset = clear_range a n (b_rootOffset h) 0\<rparr>"

text \<open>The part of \<^verbatim>\<open>primeClass\<close> before \<^verbatim>\<open>primeIface\<close>; the flags are \<^verbatim>\<open>BoxFlag_ClassMark\<close>, \<^verbatim>\<open>BoxFlag_DataMark\<close>
  and \<^verbatim>\<open>BoxFlag_WeakMark\<close>.\<close>

definition prime_box :: "int \<Rightarrow> int \<Rightarrow> dtype \<Rightarrow> headers \<Rightarrow> headers" where
  "prime_box box root D h =
     (let h1 = memset_zero box (ci_size (dt_info D)) h
      in h1\<lparr>b_boxType := (b_boxType h1)(box := Some (dt_signature D)),
            b_flags := (b_flags h1)(box := 7),
            b_rootOffset := (b_rootOffset h1)(box := nat ((box - root) mod 2 ^ 32))\<rparr>)"

definition set_iface :: "int \<Rightarrow> int \<Rightarrow> vtable_ptr \<Rightarrow> headers \<Rightarrow> headers" where
  "set_iface box a vt h =
     h\<lparr>h_vtable := (h_vtable h)(a := vt), h_box := (h_box h)(a := Some box)\<rparr>"

fun primeIface :: "vtables \<Rightarrow> int \<Rightarrow> int \<Rightarrow> int \<Rightarrow> dtype \<Rightarrow> vtable_ptr \<Rightarrow> headers \<Rightarrow> headers"
  and primeBases :: "vtables \<Rightarrow> int \<Rightarrow> int \<Rightarrow> int \<Rightarrow> slot list \<Rightarrow> vtable_ptr \<Rightarrow> headers \<Rightarrow> headers"
  and primeFields :: "vtables \<Rightarrow> int \<Rightarrow> int \<Rightarrow> class_field list \<Rightarrow> headers \<Rightarrow> headers" where
  "primeIface V box root a (DType I ss us cs) vt h =
     primeFields V root a cs (primeBases V box root a ss vt (set_iface box a vt h))"
| "primeBases V box root a [] vt h = h"
| "primeBases V box root a (Slot B off v # ss) vt h =
     primeBases V box root a ss vt
       (if dt_class B then primeIface V box root (a + int off) B (vtable_add vt v) h else h)"
| "primeFields V root a [] h = h"
| "primeFields V root a (ClassField C off # cs) h =
     primeFields V root a cs
       (primeIface V (a + int off) root (a + int off + 16) C (own_vtable V C)
          (prime_box (a + int off) root C h))"

definition primeClass :: "vtables \<Rightarrow> int \<Rightarrow> int \<Rightarrow> dtype \<Rightarrow> headers \<Rightarrow> headers" where
  "primeClass V box root D h = primeIface V box root (box + 16) D (own_vtable V D) (prime_box box root D h)"

section \<open>Virtual calls\<close>

text \<open>\<^verbatim>\<open>OperatorMgr::getVirtualMethod\<close>: the index into the table of the static class \<open>C\<close> of the object
  for a method, and the load from the table that the interface header at \<open>p\<close> points to.\<close>

definition virtual_index :: "dtype \<Rightarrow> func \<Rightarrow> nat" where
  "virtual_index C f =
     (let coord = (if fn_virtualOrigin f = Some (dt_signature C) then (0, 0)
                   else the (findClassBase C (the (fn_virtualOrigin f))))
      in fn_classVtableIndex f + snd coord)"

definition getVirtualMethod :: "vtables \<Rightarrow> headers \<Rightarrow> dtype \<Rightarrow> int \<Rightarrow> func \<Rightarrow> func option" where
  "getVirtualMethod V h C p f =
     (case h_vtable h p of
        None \<Rightarrow> None
      | Some (c, k) \<Rightarrow>
          (case V c of
             None \<Rightarrow> None
           | Some vt \<Rightarrow> (let i = k + virtual_index C f in if i < length vt then Some (vt ! i) else None)))"

text \<open>The cast of a class pointer that is not null to a base class (\<^verbatim>\<open>Cast_ClassPtr::llvmCast\<close>), as the
  argument \<^verbatim>\<open>this\<close> of a call gets it, and \<^verbatim>\<open>FunctionMgr::createThisValue\<close> in the callee.\<close>

definition castClassPtr :: "dtype \<Rightarrow> string \<Rightarrow> int \<Rightarrow> int option" where
  "castClassPtr C sig p =
     (if dt_signature C = sig then Some p
      else map_option (\<lambda>coord. p + int (fst coord)) (findClassBase C sig))"

definition createThisValue :: "func \<Rightarrow> int \<Rightarrow> int" where
  "createThisValue f p =
     (if fn_thisArgType f = fn_thisType f then p
      else if fn_thisArgDelta f = 0 then p
      else p + sint (word_of_int (fn_thisArgDelta f) :: 32 word))"

text \<open>A call of the virtual method \<open>f\<close> through a pointer \<open>p\<close> to \<open>C\<close>: the function that runs, and its
  value of \<^verbatim>\<open>this\<close>.\<close>

definition virtual_call :: "vtables \<Rightarrow> headers \<Rightarrow> dtype \<Rightarrow> int \<Rightarrow> func \<Rightarrow> (func \<times> int) option" where
  "virtual_call V h C p f =
     (case (getVirtualMethod V h C p f, castClassPtr C (fn_thisArgType f) p) of
        (Some g, Some q) \<Rightarrow> Some (g, createThisValue g q)
      | _ \<Rightarrow> None)"

end
