(* ===== verification/ClassPaths.thy ===== *)
theory ClassPaths
  imports ClassTypes
begin

text \<open>
  Subobjects. An object of a class contains one subobject for each path of base type slots; a path has
  an offset and an index into the table of virtual methods. The search through base types finds a path,
  and an own entry of a class is at one place of the table of a derived class for each path.
\<close>

section \<open>Paths of base types\<close>

primrec sub_path :: "dtype \<Rightarrow> slot list \<Rightarrow> dtype \<Rightarrow> bool" where
  "sub_path D [] C \<longleftrightarrow> C = D"
| "sub_path D (s # p) C \<longleftrightarrow> s \<in> set (dt_slots D) \<and> sub_path (sl_type s) p C"

definition path_offset :: "slot list \<Rightarrow> nat" where
  "path_offset p = sum_list (map sl_offset p)"

definition path_index :: "slot list \<Rightarrow> nat" where
  "path_index p = sum_list (map sl_vtableIndex p)"

named_theorems path_simps "offsets and indexes of paths"

lemma path_offset_simps [path_simps]:
  "path_offset [] = 0" "path_offset (s # p) = sl_offset s + path_offset p"
  "path_offset (p @ q) = path_offset p + path_offset q"
  by (simp_all add: path_offset_def)

lemma path_index_simps [path_simps]:
  "path_index [] = 0" "path_index (s # p) = sl_vtableIndex s + path_index p"
  "path_index (p @ q) = path_index p + path_index q"
  by (simp_all add: path_index_def)

lemma sub_path_append: "sub_path D (p @ q) C \<longleftrightarrow> (\<exists>B. sub_path D p B \<and> sub_path B q C)"
  by (induction p arbitrary: D) auto

lemma sub_path_trans: "sub_path D p B \<Longrightarrow> sub_path B q C \<Longrightarrow> sub_path D (p @ q) C"
  by (auto simp: sub_path_append)

lemma sub_path_det: "sub_path D p B \<Longrightarrow> sub_path D p C \<Longrightarrow> B = C"
  by (induction p arbitrary: D) auto

lemma slot_size: "s \<in> set (dt_slots D) \<Longrightarrow> size (sl_type s) < size D"
proof (cases D)
  case (DType I ss us cs)
  assume "s \<in> set (dt_slots D)"
  then have "size s \<le> size_list size ss" by (simp add: DType size_list_estimation')
  moreover have "size (sl_type s) < size s" by (cases s) simp
  ultimately show ?thesis by (simp add: DType)
qed

lemma sub_path_size: "sub_path D p C \<Longrightarrow> p \<noteq> [] \<Longrightarrow> size C < size D"
proof (induction p arbitrary: D)
  case (Cons s p)
  then have s: "size (sl_type s) < size D" by (auto intro: slot_size)
  show ?case
  proof (cases "p = []")
    case True then show ?thesis using Cons.prems s by simp
  next
    case False
    then have "size C < size (sl_type s)" using Cons by simp
    then show ?thesis using s by simp
  qed
qed simp

lemma sub_path_self: "sub_path D p D \<Longrightarrow> p = []"
  using sub_path_size by fastforce

text \<open>The subobjects of one type have one signature (\<open>signature_determines_type\<close>): a signature names one
  type among the base types of \<open>D\<close>.\<close>

definition subtypes :: "dtype \<Rightarrow> dtype set" where
  "subtypes D = {C. \<exists>p. sub_path D p C}"

definition sigs_ok :: "dtype set \<Rightarrow> bool" where
  "sigs_ok S \<longleftrightarrow> (\<forall>B\<in>S. \<forall>C\<in>S. dt_signature B = dt_signature C \<longrightarrow> B = C)"

lemma sigs_okD: "sigs_ok S \<Longrightarrow> B \<in> S \<Longrightarrow> C \<in> S \<Longrightarrow> dt_signature B = dt_signature C \<Longrightarrow> B = C"
  by (auto simp: sigs_ok_def)

lemma sigs_ok_subset: "sigs_ok S \<Longrightarrow> T \<subseteq> S \<Longrightarrow> sigs_ok T"
  by (auto simp: sigs_ok_def)

lemma subtypesI: "sub_path D p C \<Longrightarrow> C \<in> subtypes D"
  by (auto simp: subtypes_def)

lemma subtypes_self [simp]: "D \<in> subtypes D"
  using subtypesI [of D "[]" D] by simp

lemma subtypes_trans: "B \<in> subtypes D \<Longrightarrow> subtypes B \<subseteq> subtypes D"
  by (auto simp: subtypes_def dest: sub_path_trans)

lemma subtypes_slot: "s \<in> set (dt_slots D) \<Longrightarrow> sl_type s \<in> subtypes D"
  by (rule subtypesI [of _ "[s]"]) simp

section \<open>The search through base types\<close>

lemma findSlot_SomeD:
  "findSlot ss sig = Some s \<Longrightarrow> s \<in> set ss \<and> dt_signature (sl_type s) = sig"
  by (auto simp: findSlot_def find_Some_iff)

lemma findSlot_NoneD: "findSlot ss sig = None \<Longrightarrow> s \<in> set ss \<Longrightarrow> dt_signature (sl_type s) \<noteq> sig"
  by (auto simp: findSlot_def find_None_iff)

lemma findClassBase_path:
  shows "findClassBase D sig = Some (off, v) \<Longrightarrow>
    \<exists>p C. p \<noteq> [] \<and> sub_path D p C \<and> dt_signature C = sig \<and> off = path_offset p \<and> v = path_index p"
    and "findClassBase_in ss sig = Some (off, v) \<Longrightarrow>
    \<exists>s p C. s \<in> set ss \<and> sub_path (sl_type s) p C \<and> dt_signature C = sig \<and>
      off = path_offset (s # p) \<and> v = path_index (s # p)"
proof (induction D sig and ss sig arbitrary: off v and off v rule: findClassBase_findClassBase_in.induct)
  case (1 I ss us cs sig)
  show ?case
  proof (cases "findSlot ss sig")
    case None
    then have "findClassBase_in ss sig = Some (off, v)" using "1.prems" by simp
    then obtain s p C where "s \<in> set ss" "sub_path (sl_type s) p C" "dt_signature C = sig"
      "off = path_offset (s # p)" "v = path_index (s # p)"
      using "1.IH" [OF None] by blast
    then show ?thesis by (intro exI [of _ "s # p"] exI [of _ C]) simp
  next
    case (Some s)
    then have "s \<in> set ss" "dt_signature (sl_type s) = sig" "off = sl_offset s" "v = sl_vtableIndex s"
      using "1.prems" findSlot_SomeD by auto
    then show ?thesis by (intro exI [of _ "[s]"] exI [of _ "sl_type s"]) (simp add: path_simps)
  qed
next
  case (3 B o1 v1 ss sig)
  show ?case
  proof (cases "findClassBase B sig")
    case None
    then show ?thesis using "3.prems" "3.IH"(2) by fastforce
  next
    case (Some r)
    then obtain o' v' where r: "findClassBase B sig = Some (o', v')" by (cases r) simp
    with "3.IH"(1) obtain p C where "sub_path B p C" "dt_signature C = sig" "o' = path_offset p" "v' = path_index p"
      by blast
    then show ?thesis using "3.prems" r
      by (intro exI [of _ "Slot B o1 v1"] exI [of _ p] exI [of _ C]) (auto simp: path_simps)
  qed
qed simp

lemma findClassBase_in_complete:
  "s \<in> set ss \<Longrightarrow> findClassBase (sl_type s) sig \<noteq> None \<Longrightarrow> findClassBase_in ss sig \<noteq> None"
proof (induction ss)
  case (Cons t ss)
  then show ?case by (cases t) (auto split: option.splits)
qed simp

lemma findClassBase_complete:
  "sub_path D p C \<Longrightarrow> p \<noteq> [] \<Longrightarrow> findClassBase D (dt_signature C) \<noteq> None"
proof (induction p arbitrary: D)
  case (Cons s p)
  obtain I ss us cs where D: "D = DType I ss us cs" by (cases D)
  have s: "s \<in> set ss" "sub_path (sl_type s) p C" using Cons.prems D by simp_all
  show ?case
  proof (cases "findSlot ss (dt_signature C)")
    case None
    then have "p \<noteq> []" using findSlot_NoneD [OF None s(1)] s(2) by auto
    then have "findClassBase_in ss (dt_signature C) \<noteq> None"
      using findClassBase_in_complete [OF s(1)] Cons.IH [OF s(2)] by blast
    then show ?thesis using D None by (auto split: option.splits)
  qed (simp add: D)
qed simp

lemma findClassBase_same:
  assumes "sigs_ok (subtypes D)" and "C \<in> subtypes D" and "findClassBase D (dt_signature C) = Some (off, v)"
  obtains p where "p \<noteq> []" and "sub_path D p C" and "off = path_offset p" and "v = path_index p"
proof -
  from findClassBase_path(1) [OF assms(3)] obtain p C' where p: "p \<noteq> []" "sub_path D p C'"
    "dt_signature C' = dt_signature C" "off = path_offset p" "v = path_index p" by blast
  then have "C' = C" using sigs_okD [OF assms(1) subtypesI [OF p(2)] assms(2)] by simp
  then show thesis using that p by blast
qed

section \<open>The table of virtual methods and its regions\<close>

definition vtable_count :: "dtype \<Rightarrow> nat" where
  "vtable_count B = (if dt_class B then length (dt_vtable B) else 0)"

definition base_count :: "slot list \<Rightarrow> nat" where
  "base_count ss = sum_list (map (\<lambda>s. vtable_count (sl_type s)) ss)"

text \<open>Each class among the base types has the next region of the table.\<close>

fun regions :: "slot list \<Rightarrow> nat \<Rightarrow> bool" where
  "regions [] n \<longleftrightarrow> True"
| "regions (s # ss) n \<longleftrightarrow>
     (dt_class (sl_type s) \<longrightarrow> sl_vtableIndex s = n) \<and> regions ss (n + vtable_count (sl_type s))"

lemma base_count_simps [simp]:
  "base_count [] = 0" "base_count (s # ss) = vtable_count (sl_type s) + base_count ss"
  "base_count (ss @ ts) = base_count ss + base_count ts"
  by (simp_all add: base_count_def)

lemma regions_append: "regions (ss @ ts) n \<longleftrightarrow> regions ss n \<and> regions ts (n + base_count ss)"
  by (induction ss arbitrary: n) (auto simp: add.assoc)

lemma regions_bounds:
  "regions ss n \<Longrightarrow> s \<in> set ss \<Longrightarrow> x < vtable_count (sl_type s) \<Longrightarrow>
    n \<le> sl_vtableIndex s + x \<and> sl_vtableIndex s + x < n + base_count ss"
proof (induction ss arbitrary: n)
  case (Cons t ss)
  show ?case
  proof (cases "s = t")
    case True
    then show ?thesis using Cons.prems by (auto simp: vtable_count_def split: if_splits)
  next
    case False
    then show ?thesis using Cons.IH [of "n + vtable_count (sl_type t)"] Cons.prems by auto
  qed
qed simp

lemma regions_unique:
  "regions ss n \<Longrightarrow> s \<in> set ss \<Longrightarrow> t \<in> set ss \<Longrightarrow> x < vtable_count (sl_type s) \<Longrightarrow> y < vtable_count (sl_type t) \<Longrightarrow>
    sl_vtableIndex s + x = sl_vtableIndex t + y \<Longrightarrow> s = t"
proof (induction ss arbitrary: n)
  case (Cons u ss)
  let ?n = "n + vtable_count (sl_type u)"
  have r: "regions ss ?n" and u: "dt_class (sl_type u) \<Longrightarrow> sl_vtableIndex u = n" using Cons.prems(1) by auto
  have below: "sl_vtableIndex u + z < ?n" if "z < vtable_count (sl_type u)" for z
    using that u by (auto simp: vtable_count_def split: if_splits)
  have above: "w \<in> set ss \<Longrightarrow> z < vtable_count (sl_type w) \<Longrightarrow> ?n \<le> sl_vtableIndex w + z" for w z
    using regions_bounds [OF r] by blast
  show ?case
  proof (cases "s \<in> set ss \<and> t \<in> set ss")
    case True
    then show ?thesis using Cons.IH [OF r] Cons.prems by blast
  next
    case False
    then consider "s = t" | "s = u" "t \<in> set ss" | "t = u" "s \<in> set ss" using Cons.prems by auto
    then show ?thesis
    proof cases
      case 2
      then show ?thesis using below [of x] above [of t y] Cons.prems by simp
    next
      case 3
      then show ?thesis using below [of y] above [of s x] Cons.prems by simp
    qed
  qed
qed simp

text \<open>The own entries of a class are those after the regions of its base types.\<close>

definition own_slot :: "dtype \<Rightarrow> nat \<Rightarrow> bool" where
  "own_slot D i \<longleftrightarrow> dt_class D \<and> base_count (dt_slots D) \<le> i \<and> i < length (dt_vtable D)"

definition tables_ok :: "dtype \<Rightarrow> bool" where
  "tables_ok D \<longleftrightarrow>
     (\<forall>C\<in>subtypes D. dt_class C \<longrightarrow> regions (dt_slots C) 0 \<and> base_count (dt_slots C) \<le> length (dt_vtable C)) \<and>
     (\<forall>C\<in>subtypes D. \<not> dt_class C \<longrightarrow> (\<forall>s\<in>set (dt_slots C). \<not> dt_class (sl_type s)))"

lemma tables_ok_sub: "tables_ok D \<Longrightarrow> C \<in> subtypes D \<Longrightarrow> tables_ok C"
  using subtypes_trans unfolding tables_ok_def by blast

lemma struct_path: "tables_ok D \<Longrightarrow> \<not> dt_class D \<Longrightarrow> sub_path D p C \<Longrightarrow> \<not> dt_class C"
proof (induction p arbitrary: D)
  case (Cons s p)
  have "s \<in> set (dt_slots D)" using Cons.prems by simp
  then have "\<not> dt_class (sl_type s)" using Cons.prems(1,2) by (auto simp: tables_ok_def)
  then show ?case using Cons.IH tables_ok_sub [OF Cons.prems(1) subtypes_slot] Cons.prems(3) by auto
qed simp

lemma class_path:
  "tables_ok D \<Longrightarrow> sub_path D (s # p) C \<Longrightarrow> dt_class C \<Longrightarrow> dt_class (sl_type s)"
  using struct_path [of "sl_type s" p C] tables_ok_sub [OF _ subtypes_slot, of D s] by (auto simp del: sub_path.simps(1))

lemma path_index_less:
  "tables_ok D \<Longrightarrow> sub_path D p C \<Longrightarrow> own_slot C i \<Longrightarrow> path_index p + i < vtable_count D"
proof (induction p arbitrary: D)
  case Nil
  then show ?case by (auto simp: own_slot_def vtable_count_def path_simps)
next
  case (Cons s p)
  have s: "s \<in> set (dt_slots D)" and c: "dt_class C" using Cons.prems by (auto simp: own_slot_def)
  have dc: "dt_class D" using struct_path [OF Cons.prems(1) _ Cons.prems(2)] c by blast
  have "path_index p + i < vtable_count (sl_type s)"
    using Cons.IH [OF tables_ok_sub [OF Cons.prems(1) subtypes_slot [OF s]]] Cons.prems by simp
  moreover have "regions (dt_slots D) 0" "base_count (dt_slots D) \<le> length (dt_vtable D)"
    using Cons.prems(1) dc by (auto simp: tables_ok_def)
  ultimately show ?case using regions_bounds [OF _ s] dc
    by (fastforce simp: path_simps vtable_count_def add.assoc)
qed

lemma path_index_base:
  assumes "tables_ok D" and "dt_class D" and "sub_path D (s # p) C" and "own_slot C i"
  shows "path_index (s # p) + i < base_count (dt_slots D)"
proof -
  have s: "s \<in> set (dt_slots D)" and p: "sub_path (sl_type s) p C" using assms(3) by simp_all
  have "path_index p + i < vtable_count (sl_type s)"
    by (rule path_index_less [OF tables_ok_sub [OF assms(1) subtypes_slot [OF s]] p assms(4)])
  moreover have "regions (dt_slots D) 0" using assms by (auto simp: tables_ok_def)
  ultimately show ?thesis using regions_bounds [OF _ s] by (fastforce simp: path_simps add.assoc)
qed

lemma path_index_unique:
  "tables_ok D \<Longrightarrow> sub_path D p B \<Longrightarrow> sub_path D q C \<Longrightarrow> own_slot B i \<Longrightarrow> own_slot C j \<Longrightarrow>
    path_index p + i = path_index q + j \<Longrightarrow> p = q"
proof (induction p arbitrary: D q)
  case Nil
  show ?case
  proof (cases q)
    case (Cons s q')
    have "dt_class D" using Nil by (auto simp: own_slot_def)
    then have "path_index q + j < base_count (dt_slots D)"
      using path_index_base Nil.prems Cons by blast
    moreover have "base_count (dt_slots D) \<le> i" using Nil.prems by (simp add: own_slot_def)
    ultimately show ?thesis using Nil.prems by (simp add: path_simps)
  qed simp
next
  case (Cons s p)
  have s: "s \<in> set (dt_slots D)" and p: "sub_path (sl_type s) p B" using Cons.prems(2) by simp_all
  have dc: "dt_class D" using struct_path [OF Cons.prems(1) _ Cons.prems(2)] Cons.prems(4)
    by (auto simp: own_slot_def)
  have r: "regions (dt_slots D) 0" using Cons.prems(1) dc by (auto simp: tables_ok_def)
  have lp: "path_index p + i < vtable_count (sl_type s)"
    by (rule path_index_less [OF tables_ok_sub [OF Cons.prems(1) subtypes_slot [OF s]] p Cons.prems(4)])
  show ?case
  proof (cases q)
    case Nil
    have "path_index (s # p) + i < base_count (dt_slots D)"
      by (rule path_index_base [OF Cons.prems(1) dc Cons.prems(2,4)])
    moreover have "base_count (dt_slots D) \<le> j" using Cons.prems(3,5) Nil by (simp add: own_slot_def)
    ultimately show ?thesis using Cons.prems(6) Nil by (simp add: path_simps)
  next
    case (Cons t q')
    have t: "t \<in> set (dt_slots D)" and q: "sub_path (sl_type t) q' C" using Cons.prems(3) Cons by simp_all
    have lq: "path_index q' + j < vtable_count (sl_type t)"
      by (rule path_index_less [OF tables_ok_sub [OF Cons.prems(1) subtypes_slot [OF t]] q Cons.prems(5)])
    have st: "s = t"
      by (rule regions_unique [OF r s t lp lq]) (use Cons.prems(6) Cons in \<open>simp add: path_simps add.assoc\<close>)
    moreover have "p = q'"
      using Cons.IH [OF tables_ok_sub [OF Cons.prems(1) subtypes_slot [OF s]] p _ Cons.prems(4,5)] q
        Cons.prems(6) Cons st by (simp add: path_simps)
    ultimately show ?thesis using Cons by simp
  qed
qed

end
