(* ===== verification/ClassLayoutInv.thy ===== *)
theory ClassLayoutInv
  imports ClassPaths StructLayoutInv
begin

text \<open>
  What the layout of a class leaves behind: the slots of its base types with their regions of the table
  of virtual methods, the entries of the table, and the functions of the class. The virtual members are
  laid out under one invariant, whose steps are appending own entries and overriding an entry.
\<close>

section \<open>Entries of the table\<close>

text \<open>\<open>g\<close> is an entry for the own slot \<open>i\<close> of \<open>O'\<close>: it takes \<^verbatim>\<open>this\<close> as a pointer to \<open>O'\<close> and has the type
  of the slot.\<close>

definition entry_for :: "dtype \<Rightarrow> nat \<Rightarrow> func \<Rightarrow> bool" where
  "entry_for O' i g \<longleftrightarrow>
     isVirtual g \<and> fn_virtualOrigin g = Some (dt_signature O') \<and> fn_classVtableIndex g = i \<and>
     fn_thisArgType g = dt_signature O' \<and> fn_shortType g = fn_shortType (dt_vtable O' ! i)"

text \<open>The class \<open>G\<close> that declares the entry lies on the path to \<open>O'\<close>, and the adjustment of \<^verbatim>\<open>this\<close> is the
  offset of \<open>O'\<close> in \<open>G\<close>.\<close>

definition declared_on :: "dtype \<Rightarrow> slot list \<Rightarrow> dtype \<Rightarrow> func \<Rightarrow> bool" where
  "declared_on D r O' g \<longleftrightarrow>
     (\<exists>p q G. r = p @ q \<and> sub_path D p G \<and> sub_path G q O' \<and> fn_thisType g = dt_signature G \<and>
        fn_thisArgDelta g = - int (path_offset q))"

definition vtable_ok :: "dtype \<Rightarrow> bool" where
  "vtable_ok D \<longleftrightarrow>
     (\<forall>r O' i. sub_path D r O' \<longrightarrow> own_slot O' i \<longrightarrow>
        entry_for O' i (dt_vtable D ! (path_index r + i)) \<and>
        declared_on D r O' (dt_vtable D ! (path_index r + i)))"

text \<open>A virtual method found by name belongs to a slot of the class or of one of its base types.\<close>

definition method_slot :: "dtype \<Rightarrow> func \<Rightarrow> bool" where
  "method_slot D f \<longleftrightarrow>
     (\<exists>q O'. sub_path D q O' \<and> own_slot O' (fn_classVtableIndex f) \<and> entry_for O' (fn_classVtableIndex f) f)"

definition items_ok :: "dtype \<Rightarrow> bool" where
  "items_ok D \<longleftrightarrow>
     (\<forall>n it f. findItem D n = Some it \<longrightarrow> f \<in> set_ns_item it \<longrightarrow> isVirtual f \<longrightarrow> method_slot D f)"

definition no_virtual :: "dtype \<Rightarrow> bool" where
  "no_virtual D \<longleftrightarrow> (\<forall>n it f. findItem D n = Some it \<longrightarrow> f \<in> set_ns_item it \<longrightarrow> \<not> isVirtual f)"

text \<open>The struct of the table has a field for every entry.\<close>

definition vtable_struct_ok :: "dtype \<Rightarrow> bool" where
  "vtable_struct_ok D \<longleftrightarrow> getVtableStructType (dt_info D) = length (dt_vtable D)"

section \<open>Classes as the compiler builds them\<close>

definition virtual_indices :: "class_info \<Rightarrow> nat list" where
  "virtual_indices I = concat (map prop_vtable (ci_virtualPropertyArray I)) @ ci_virtualMethodArray I"

definition fresh_function :: "string \<Rightarrow> func \<Rightarrow> bool" where
  "fresh_function sig f \<longleftrightarrow>
     fn_thisType f = sig \<and> fn_thisArgType f = sig \<and> fn_thisArgDelta f = 0 \<and> fn_virtualOrigin f = None"

text \<open>What the parser guarantees of the members of a class: functions are member methods of the class that
  have not been laid out, every virtual one is in one of the three arrays, and in one place only.\<close>

definition members_ok :: "class_info \<Rightarrow> bool" where
  "members_ok I \<longleftrightarrow>
     ci_class I \<and> ci_vtable I = [] \<and> ci_vtableStruct I = None \<and>
     (\<forall>f\<in>set (ci_functions I). fresh_function (ci_signature I) f) \<and>
     (\<forall>it\<in>snd ` set (ci_items I). \<forall>k\<in>set_ns_item it. k < length (ci_functions I)) \<and>
     distinct (virtual_indices I @ ci_overrideMethodArray I) \<and>
     (\<forall>k\<in>set (virtual_indices I) \<union> set (ci_overrideMethodArray I).
        k < length (ci_functions I) \<and> isVirtual (ci_functions I ! k)) \<and>
     (\<forall>k<length (ci_functions I). isVirtual (ci_functions I ! k) \<longrightarrow>
        k \<in> set (virtual_indices I) \<union> set (ci_overrideMethodArray I)) \<and>
     (\<forall>p\<in>set (ci_virtualPropertyArray I). pr_bindable p \<longleftrightarrow> pr_binder p \<noteq> None)"

definition bases_ok :: "class_decl \<Rightarrow> bool" where
  "bases_ok d \<longleftrightarrow>
     sigs_ok (\<Union>B\<in>set (d_bases d). subtypes B) \<and>
     (\<forall>B\<in>set (d_bases d). \<forall>C\<in>subtypes B. dt_signature C \<noteq> ci_signature (d_info d)) \<and>
     (\<forall>U\<in>set (d_unnamed d). no_virtual U)"

definition class_ty :: "dtype \<Rightarrow> ty" where
  "class_ty C = \<lparr>t_signature = dt_signature C, t_size = ci_size (dt_info C),
     t_alignment = ci_alignment (dt_info C), t_pod = False, t_gcRoot = ci_gcRoot (dt_info C),
     t_noStack = True, t_class = True, t_derivable = True, t_constructible = ci_constructor (dt_info C),
     t_thinThis = False, t_layout_ok = ci_layout_ok (dt_info C)\<rparr>"

definition iface_types :: "dtype list \<Rightarrow> ty list" where
  "iface_types Bs = iface_hdrs Bs @ map iface_ty Bs"

text \<open>The structs of the class are within the bounds of \<open>StructLayout\<close>, and the fields of class type have
  its size.\<close>

definition decl_fields_ok :: "class_decl \<Rightarrow> bool" where
  "decl_fields_ok d \<longleftrightarrow>
     (\<exists>be. struct_wf be (d_fieldAlignment d) (map new_slot (iface_types (d_bases d))) (map fst (d_fields d))) \<and>
     (\<forall>(f, c)\<in>set (d_fields d). \<forall>C. c = Some C \<longrightarrow> dt_class C \<and> f_type f = class_ty C \<and> f_bitCount f = 0)"

definition iface_size :: "dtype \<Rightarrow> nat" where
  "iface_size D = m_size (ci_iface (dt_info D))"

definition class_fits :: "class_decl \<Rightarrow> dtype \<Rightarrow> bool" where
  "class_fits d D \<longleftrightarrow> iface_size D + 4 * d_fieldAlignment d + 16 < 2 ^ 64"

inductive built :: "layout_env \<Rightarrow> dtype \<Rightarrow> bool" for E :: layout_env where
  built_struct: "\<not> dt_class D \<Longrightarrow> sigs_ok (subtypes D) \<Longrightarrow> no_virtual D \<Longrightarrow>
    (\<And>s. s \<in> set (dt_slots D) \<Longrightarrow> \<not> dt_class (sl_type s) \<and> built E (sl_type s)) \<Longrightarrow> built E D"
| built_class: "(\<And>B. B \<in> set (d_bases d) \<Longrightarrow> built E B) \<Longrightarrow>
    (\<And>f C. (f, Some C) \<in> set (d_fields d) \<Longrightarrow> built E C) \<Longrightarrow>
    members_ok (d_info d) \<Longrightarrow> bases_ok d \<Longrightarrow> decl_fields_ok d \<Longrightarrow>
    calcClassLayout E d = Inr D \<Longrightarrow> class_fits d D \<Longrightarrow> built E D"

section \<open>Folds that may fail\<close>

lemma fold_ok_append:
  "fold_ok f (xs @ ys) s = (case fold_ok f xs s of Inl e \<Rightarrow> Inl e | Inr s' \<Rightarrow> fold_ok f ys s')"
  by (induction xs arbitrary: s) (auto split: sum.splits)

lemma fold_ok_induct:
  assumes "fold_ok f xs s = Inr t" and "P [] s"
    and "\<And>ys x zs u v. xs = ys @ x # zs \<Longrightarrow> P ys u \<Longrightarrow> f x u = Inr v \<Longrightarrow> P (ys @ [x]) v"
  shows "P xs t"
proof -
  have "fold_ok f ys s = Inr t' \<Longrightarrow> xs = ys @ zs \<Longrightarrow> P ys t'" for ys zs t'
  proof (induction ys arbitrary: t' zs rule: rev_induct)
    case Nil
    then show ?case using assms(2) by simp
  next
    case (snoc y ys)
    then obtain u where "fold_ok f ys s = Inr u" "f y u = Inr t'"
      by (auto simp: fold_ok_append split: sum.splits)
    then show ?case using snoc assms(3) [of ys y zs u t'] by simp
  qed
  from this [of xs t "[]"] show ?thesis using assms(1) by simp
qed

section \<open>The base types\<close>

text \<open>The members of the class that the layout of base types and fields leaves alone.\<close>

definition same_members :: "class_info \<Rightarrow> class_info \<Rightarrow> bool" where
  "same_members I J \<longleftrightarrow>
     ci_signature I = ci_signature J \<and> ci_class I = ci_class J \<and> ci_functions I = ci_functions J \<and>
     ci_items I = ci_items J \<and> ci_virtualPropertyArray I = ci_virtualPropertyArray J \<and>
     ci_virtualMethodArray I = ci_virtualMethodArray J \<and> ci_overrideMethodArray I = ci_overrideMethodArray J"

definition base_table :: "slot list \<Rightarrow> func list" where
  "base_table ss = concat (map (\<lambda>s. if dt_class (sl_type s) then dt_vtable (sl_type s) else []) ss)"

lemma base_table_simps [simp]:
  "base_table [] = []"
  "base_table (ss @ [s]) = base_table ss @ (if dt_class (sl_type s) then dt_vtable (sl_type s) else [])"
  by (simp_all add: base_table_def)

lemma base_table_length [simp]: "length (base_table ss) = base_count ss"
  by (induction ss rule: rev_induct) (auto simp: vtable_count_def)

lemma base_table_nth:
  "regions ss 0 \<Longrightarrow> s \<in> set ss \<Longrightarrow> x < vtable_count (sl_type s) \<Longrightarrow>
    base_table ss ! (sl_vtableIndex s + x) = dt_vtable (sl_type s) ! x"
proof (induction ss rule: rev_induct)
  case (snoc t ss)
  have r: "regions ss 0" and t: "dt_class (sl_type t) \<Longrightarrow> sl_vtableIndex t = base_count ss"
    using snoc.prems(1) by (auto simp: regions_append)
  show ?case
  proof (cases "s \<in> set ss")
    case True
    then have "sl_vtableIndex s + x < base_count ss"
      using regions_bounds [OF r True snoc.prems(3)] by simp
    then show ?thesis using snoc.IH [OF r True snoc.prems(3)] by (simp add: nth_append)
  next
    case False
    then show ?thesis using snoc.prems t by (auto simp: nth_append vtable_count_def split: if_splits)
  qed
qed simp

text \<open>The table as a function of the laid out functions: an entry of a base type goes to the last override
  whose target it is, the own entries follow. The target of an override is the place of the overridden entry
  on the path of the search for its origin.\<close>

definition override_target :: "dtype \<Rightarrow> func \<Rightarrow> nat" where
  "override_target D f = snd (the (findClassBase D (the (fn_virtualOrigin f)))) + fn_classVtableIndex f"

definition last_override :: "dtype \<Rightarrow> nat list \<Rightarrow> nat \<Rightarrow> func \<Rightarrow> func" where
  "last_override D os j f =
     (case find (\<lambda>k. override_target D (ci_functions (dt_info D) ! k) = j) (rev os) of
        None \<Rightarrow> f
      | Some k \<Rightarrow> ci_functions (dt_info D) ! k)"

definition override_table :: "dtype \<Rightarrow> nat list \<Rightarrow> nat list \<Rightarrow> func list" where
  "override_table D vs os =
     map (\<lambda>j. last_override D os j (base_table (dt_slots D) ! j)) [0..<base_count (dt_slots D)] @
     map (\<lambda>k. ci_functions (dt_info D) ! k) vs"

definition table_is :: "slot list \<Rightarrow> nat list \<Rightarrow> nat list \<Rightarrow> class_info \<Rightarrow> bool" where
  "table_is ss vs os I \<longleftrightarrow> ci_vtable I = override_table (DType I ss [] []) vs os"

lemma findClassBase_cong: "findClassBase (DType I ss us cs) = findClassBase (DType J ss us' cs')"
  by (rule ext) simp

lemma override_target_cong: "override_target (DType I ss us cs) = override_target (DType J ss us' cs')"
  by (rule ext) (simp add: override_target_def findClassBase_cong [of I ss us cs J us' cs'])

lemma override_table_cong:
  "ci_functions I = ci_functions J \<Longrightarrow> override_table (DType I ss us cs) vs os = override_table (DType J ss us' cs') vs os"
  by (simp add: override_table_def last_override_def override_target_cong [of I ss us cs J us' cs'] cong: option.case_cong)

lemma table_is_start: "ci_vtable I = base_table ss \<Longrightarrow> table_is ss [] [] I"
  using map_nth [of "base_table ss"] by (simp add: table_is_def override_table_def last_override_def)

lemma table_is_append:
  assumes "table_is ss vs [] I" and "set ks \<inter> set vs = {}"
    and "\<And>k. k \<notin> set ks \<Longrightarrow> ci_functions I' ! k = ci_functions I ! k"
    and "ci_vtable I' = ci_vtable I @ map (\<lambda>k. ci_functions I' ! k) ks"
  shows "table_is ss (vs @ ks) [] I'"
proof -
  have "ci_functions I' ! k = ci_functions I ! k" if "k \<in> set vs" for k using assms(2,3) that by blast
  then have "map (\<lambda>k. ci_functions I ! k) vs = map (\<lambda>k. ci_functions I' ! k) vs" by simp
  then show ?thesis using assms(1,4) by (simp add: table_is_def override_table_def last_override_def)
qed

lemma find_in: "find P xs = Some x \<Longrightarrow> x \<in> set xs"
  by (auto simp: find_Some_iff)

lemma table_is_override:
  assumes t: "table_is ss vs os I" and k: "k \<notin> set vs" "k \<notin> set os" "k < length (ci_functions I)"
    and j: "override_target (DType I ss [] []) f = j" "j < base_count ss"
    and I': "ci_functions I' = (ci_functions I)[k := f]" "ci_vtable I' = (ci_vtable I)[j := f]"
  shows "table_is ss vs (os @ [k]) I'"
proof -
  let ?D = "DType I ss [] []" and ?D' = "DType I' ss [] []"
  have old: "ci_functions I' ! i = ci_functions I ! i" if "i \<in> set os \<union> set vs" for i
  proof -
    have "i \<noteq> k" using that k(1,2) by blast
    then show ?thesis by (simp add: I')
  qed
  have new: "ci_functions I' ! k = f" using k(3) by (simp add: I')
  have tgt: "override_target ?D' = override_target ?D" by (rule override_target_cong)
  have pre: "find (\<lambda>i. override_target ?D (ci_functions I' ! i) = m) (rev os) =
      find (\<lambda>i. override_target ?D (ci_functions I ! i) = m) (rev os)" for m
    by (rule find_cong [OF refl]) (simp add: old)
  have "last_override ?D' (os @ [k]) m b = (if m = j then f else last_override ?D os m b)" for m b
  proof (cases "m = j")
    case True
    then show ?thesis using new j(1) by (simp add: last_override_def tgt)
  next
    case False
    have "ci_functions I' ! i = ci_functions I ! i" if "find P (rev os) = Some i" for P i
      using find_in [OF that] old by simp
    then show ?thesis using False new j(1) by (auto simp: last_override_def tgt pre split: option.splits)
  qed
  moreover have "map (\<lambda>i. ci_functions I' ! i) vs = map (\<lambda>i. ci_functions I ! i) vs" by (simp add: old)
  moreover have "(map g [0..<n])[j := y] = map (\<lambda>m. if m = j then y else g m) [0..<n]" for g :: "nat \<Rightarrow> func" and n y
    by (rule nth_equalityI) (auto simp: nth_list_update)
  ultimately show ?thesis using t j(2) by (simp add: table_is_def override_table_def I'(2) list_update_append1)
qed

definition based :: "class_info \<Rightarrow> ty list \<Rightarrow> dtype list \<Rightarrow> class_state \<Rightarrow> bool" where
  "based I hdrs Bs st \<longleftrightarrow>
     same_members (cs_info st) I \<and> map sl_type (cs_slots st) = Bs \<and> regions (cs_slots st) 0 \<and>
     ci_vtable (cs_info st) = base_table (cs_slots st) \<and>
     cs_ifaceBases st = hdrs @ map iface_ty Bs \<and>
     ((\<forall>B\<in>set Bs. dt_class B \<longrightarrow> vtable_struct_ok B) \<longrightarrow>
        getVtableStructType (cs_info st) = base_count (cs_slots st))"

lemma noteBaseType_frame:
  "same_members (noteBaseType b i I) I \<and> ci_vtable (noteBaseType b i I) = ci_vtable I \<and>
    ci_vtableStruct (noteBaseType b i I) = ci_vtableStruct I"
  by (simp add: noteBaseType_def same_members_def Let_def)

lemma appendBaseVtable_frame:
  "same_members (appendBaseVtable b i I) I \<and> ci_vtable (appendBaseVtable b i I) = ci_vtable I @ ci_vtable b \<and>
    getVtableStructType (appendBaseVtable b i I) = getVtableStructType I + getVtableStructType b"
  by (cases "ci_vtableStruct b") (simp_all add: appendBaseVtable_def same_members_def Let_def getVtableStructType_def)

lemma same_members_trans: "same_members I J \<Longrightarrow> same_members J L \<Longrightarrow> same_members I L"
  by (simp add: same_members_def)

lemma layoutClassBase_based:
  assumes b: "based I hdrs Bs st" and st: "layoutClassBase B st = Inr st'"
  shows "based I hdrs (Bs @ [B]) st'"
proof -
  let ?I = "noteBaseType (dt_info B) (length (cs_slots st)) (cs_info st)"
  note n = noteBaseType_frame [of "dt_info B" "length (cs_slots st)" "cs_info st"]
  have m: "same_members ?I I" using n b by (auto simp: based_def intro: same_members_trans)
  have v: "ci_vtable ?I = base_table (cs_slots st)" using n b by (simp add: based_def)
  have g: "getVtableStructType ?I = getVtableStructType (cs_info st)" using n by (simp add: getVtableStructType_def)
  show ?thesis
  proof (cases "dt_class B")
    case False
    then have "st' = st\<lparr>cs_baseTypeMap := dt_signature B # cs_baseTypeMap st,
        cs_ifaceBases := cs_ifaceBases st @ [iface_ty B], cs_info := ?I,
        cs_slots := cs_slots st @ [Slot B 0 (2 ^ 64 - 1)]\<rparr>"
      using st by (simp add: layoutClassBase_def Let_def split: if_splits)
    then show ?thesis using b m v g False by (simp add: based_def regions_append vtable_count_def)
  next
    case True
    let ?J = "appendBaseVtable (dt_info B) (length (cs_slots st)) ?I"
    note a = appendBaseVtable_frame [of "dt_info B" "length (cs_slots st)" ?I]
    have st': "st' = st\<lparr>cs_baseTypeMap := dt_signature B # cs_baseTypeMap st,
        cs_ifaceBases := cs_ifaceBases st @ [iface_ty B], cs_info := ?J,
        cs_slots := cs_slots st @ [Slot B 0 (length (ci_vtable ?I))]\<rparr>"
      using st True by (simp add: layoutClassBase_def Let_def split: if_splits)
    have "same_members ?J I" using a m by (auto intro: same_members_trans)
    then show ?thesis
      using b a v g True unfolding st'
      by (simp add: based_def regions_append vtable_count_def vtable_struct_ok_def)
  qed
qed

lemma layoutClassBases_based:
  assumes "fold_ok layoutClassBase Bs
      \<lparr>cs_info = I, cs_slots = [], cs_ifaceBases = hdrs, cs_baseTypeMap = []\<rparr> = Inr st"
    and "ci_vtable I = []" and "ci_vtableStruct I = None"
  shows "based I hdrs Bs st"
  by (rule fold_ok_induct [OF assms(1), where P = "based I hdrs"])
    (simp add: based_def same_members_def getVtableStructType_def assms(2,3), rule layoutClassBase_based)

section \<open>The fields\<close>

fun class_fields_of :: "field list \<Rightarrow> dtype option list \<Rightarrow> class_field list" where
  "class_fields_of (f # fs) (None # cs) = class_fields_of fs cs"
| "class_fields_of (f # fs) (Some C # cs) = ClassField C (f_offset f) # class_fields_of fs cs"
| "class_fields_of fs cs = []"

lemma noteField_frame:
  "same_members (noteField i f I) I \<and> ci_vtable (noteField i f I) = ci_vtable I \<and>
    ci_vtableStruct (noteField i f I) = ci_vtableStruct I"
  by (simp add: noteField_def same_members_def Let_def)

lemma scanClassFields_frame:
  "scanClassFields i fs cs r = Inr (J, cfs') \<Longrightarrow>
    same_members J (fst r) \<and> ci_vtable J = ci_vtable (fst r) \<and> ci_vtableStruct J = ci_vtableStruct (fst r) \<and>
    cfs' = snd r @ class_fields_of fs cs"
proof (induction i fs cs r rule: scanClassFields.induct)
  case (1 i f fs cs I cfs)
  then show ?case using noteField_frame [of i f I] by (auto intro: same_members_trans)
next
  case (2 i f fs C cs I cfs)
  then show ?case using noteField_frame [of i f I] by (auto intro: same_members_trans split: if_splits)
qed (auto simp: same_members_def)

section \<open>The virtual members\<close>

definition base_declared :: "string \<Rightarrow> slot \<Rightarrow> slot list \<Rightarrow> dtype \<Rightarrow> func \<Rightarrow> bool" where
  "base_declared sig s r O' g \<longleftrightarrow>
     (fn_thisType g = sig \<and> fn_thisArgDelta g = - int (path_offset (s # r))) \<or>
     declared_on (sl_type s) r O' g"

definition base_entries :: "string \<Rightarrow> slot list \<Rightarrow> func list \<Rightarrow> bool" where
  "base_entries sig ss tbl \<longleftrightarrow>
     (\<forall>s\<in>set ss. \<forall>r O' i. sub_path (sl_type s) r O' \<longrightarrow> own_slot O' i \<longrightarrow>
        entry_for O' i (tbl ! (path_index (s # r) + i)) \<and>
        base_declared sig s r O' (tbl ! (path_index (s # r) + i)))"

definition own_function :: "string \<Rightarrow> func \<Rightarrow> bool" where
  "own_function sig f \<longleftrightarrow>
     isVirtual f \<and> fn_virtualOrigin f = Some sig \<and> fn_thisType f = sig \<and> fn_thisArgType f = sig \<and>
     fn_thisArgDelta f = 0"

definition own_entries :: "string \<Rightarrow> nat \<Rightarrow> func list \<Rightarrow> bool" where
  "own_entries sig n tbl \<longleftrightarrow>
     (\<forall>i. n \<le> i \<longrightarrow> i < length tbl \<longrightarrow> own_function sig (tbl ! i) \<and> fn_classVtableIndex (tbl ! i) = i)"

text \<open>A function after its layout: it has an own entry, or overrides one of a base type.\<close>

definition laid_function :: "string \<Rightarrow> slot list \<Rightarrow> func list \<Rightarrow> func \<Rightarrow> bool" where
  "laid_function sig ss tbl f \<longleftrightarrow>
     (own_function sig f \<and> base_count ss \<le> fn_classVtableIndex f \<and> fn_classVtableIndex f < length tbl \<and>
        fn_shortType f = fn_shortType (tbl ! fn_classVtableIndex f)) \<or>
     (\<exists>s\<in>set ss. method_slot (sl_type s) f)"

definition no_index :: "property \<Rightarrow> property" where
  "no_index p = p\<lparr>pr_parentClassVtableIndex := 0\<rparr>"

definition vm_inv :: "class_info \<Rightarrow> slot list \<Rightarrow> nat set \<Rightarrow> class_info \<Rightarrow> bool" where
  "vm_inv J ss K I \<longleftrightarrow>
     ci_signature I = ci_signature J \<and> ci_class I = ci_class J \<and> ci_items I = ci_items J \<and>
     map no_index (ci_virtualPropertyArray I) = map no_index (ci_virtualPropertyArray J) \<and>
     ci_virtualMethodArray I = ci_virtualMethodArray J \<and> ci_overrideMethodArray I = ci_overrideMethodArray J \<and>
     length (ci_functions I) = length (ci_functions J) \<and>
     base_count ss \<le> length (ci_vtable I) \<and> getVtableStructType I = length (ci_vtable I) \<and>
     base_entries (ci_signature J) ss (ci_vtable I) \<and>
     own_entries (ci_signature J) (base_count ss) (ci_vtable I) \<and>
     (\<forall>k<length (ci_functions J). fn_storageKind (ci_functions I ! k) = fn_storageKind (ci_functions J ! k)) \<and>
     (\<forall>k<length (ci_functions J). k \<notin> K \<longrightarrow> ci_functions I ! k = ci_functions J ! k) \<and>
     (\<forall>k<length (ci_functions J). k \<in> K \<longrightarrow>
        laid_function (ci_signature J) ss (ci_vtable I) (ci_functions I ! k))"

lemma laid_function_append:
  "laid_function sig ss tbl f \<Longrightarrow> laid_function sig ss (tbl @ gs) f"
  by (auto simp: laid_function_def nth_append)

lemma own_entries_append:
  assumes "own_entries sig n tbl"
    and "\<And>j. j < length gs \<Longrightarrow> own_function sig (gs ! j) \<and> fn_classVtableIndex (gs ! j) = length tbl + j"
  shows "own_entries sig n (tbl @ gs)"
  unfolding own_entries_def
proof (intro allI impI)
  fix i
  assume i: "n \<le> i" "i < length (tbl @ gs)"
  show "own_function sig ((tbl @ gs) ! i) \<and> fn_classVtableIndex ((tbl @ gs) ! i) = i"
  proof (cases "i < length tbl")
    case True
    then show ?thesis using assms(1) i by (simp add: own_entries_def nth_append)
  next
    case False
    then show ?thesis using assms(2) [of "i - length tbl"] i by (simp add: nth_append)
  qed
qed

text \<open>What is known of the base types when the virtual members are laid out; \<open>D\<close> is the class under
  construction, whose own entries do not matter here.\<close>

definition slots_ok :: "class_info \<Rightarrow> slot list \<Rightarrow> bool" where
  "slots_ok I ss \<longleftrightarrow>
     ci_class I \<and> regions ss 0 \<and> (\<forall>s\<in>set ss. tables_ok (sl_type s) \<and> items_ok (sl_type s)) \<and>
     sigs_ok (\<Union>s\<in>set ss. subtypes (sl_type s)) \<and>
     (\<forall>s\<in>set ss. \<forall>C\<in>subtypes (sl_type s). dt_signature C \<noteq> ci_signature I)"

lemma subtypes_class:
  "subtypes (DType I ss us cs) = insert (DType I ss us cs) (\<Union>s\<in>set ss. subtypes (sl_type s))"
proof (intro equalityI subsetI)
  fix C
  assume "C \<in> subtypes (DType I ss us cs)"
  then obtain p where "sub_path (DType I ss us cs) p C" by (auto simp: subtypes_def)
  then show "C \<in> insert (DType I ss us cs) (\<Union>s\<in>set ss. subtypes (sl_type s))"
    by (cases p) (auto intro: subtypesI)
next
  fix C
  assume C: "C \<in> insert (DType I ss us cs) (\<Union>s\<in>set ss. subtypes (sl_type s))"
  show "C \<in> subtypes (DType I ss us cs)"
  proof (cases "C = DType I ss us cs")
    case False
    then obtain s where s: "s \<in> set ss" "C \<in> subtypes (sl_type s)" using C by auto
    then have "sl_type s \<in> subtypes (DType I ss us cs)" using subtypes_slot [of s "DType I ss us cs"] by simp
    then show ?thesis using subtypes_trans s(2) by blast
  qed simp
qed

lemma slots_ok_class:
  assumes "slots_ok J ss" and "ci_signature I = ci_signature J" and "ci_class I"
    and "base_count ss \<le> length (ci_vtable I)"
  shows "tables_ok (DType I ss us cs)" and "sigs_ok (subtypes (DType I ss us cs))"
proof -
  let ?D = "DType I ss us cs"
  have "regions ss 0" and t: "\<And>s. s \<in> set ss \<Longrightarrow> tables_ok (sl_type s)"
    using assms(1) by (auto simp: slots_ok_def)
  then show "tables_ok ?D"
    using assms(3,4) unfolding tables_ok_def subtypes_class by auto
  have g: "sigs_ok (\<Union>s\<in>set ss. subtypes (sl_type s))"
    and n: "\<forall>s\<in>set ss. \<forall>C\<in>subtypes (sl_type s). dt_signature C \<noteq> dt_signature ?D"
    using assms(1,2) by (auto simp: slots_ok_def)
  then show "sigs_ok (subtypes ?D)" unfolding sigs_ok_def subtypes_class by (metis UN_iff insert_iff)
qed

lemma base_index:
  assumes "slots_ok J ss" and "s \<in> set ss" and "sub_path (sl_type s) r O'" and "own_slot O' i"
  shows "path_index (s # r) + i < base_count ss"
proof -
  have "path_index r + i < vtable_count (sl_type s)"
    using assms by (intro path_index_less) (auto simp: slots_ok_def)
  then show ?thesis using regions_bounds [of ss 0 s] assms(1,2)
    by (fastforce simp: slots_ok_def path_simps add.assoc)
qed

lemma base_entries_append:
  assumes "base_entries sig ss tbl" and "slots_ok J ss" and "base_count ss \<le> length tbl"
  shows "base_entries sig ss (tbl @ gs)"
proof -
  have "(tbl @ gs) ! (path_index (s # r) + i) = tbl ! (path_index (s # r) + i)"
    if "s \<in> set ss" "sub_path (sl_type s) r O'" "own_slot O' i" for s r O' i
    using base_index [OF assms(2) that] assms(3) by (simp add: nth_append)
  then show ?thesis using assms(1) by (simp add: base_entries_def)
qed

text \<open>A step that appends own entries for the functions \<open>ks\<close>.\<close>

lemma vm_inv_append:
  assumes inv: "vm_inv J ss K I" and ok: "slots_ok J ss"
    and ks: "\<And>k. k \<in> set ks \<Longrightarrow> k < length (ci_functions J)"
    and fs: "length fs = length (ci_functions I)" "\<And>k. k \<notin> set ks \<Longrightarrow> fs ! k = ci_functions I ! k"
      "\<And>k. k < length fs \<Longrightarrow> fn_storageKind (fs ! k) = fn_storageKind (ci_functions I ! k)"
    and own: "\<And>j. j < length ks \<Longrightarrow> own_function (ci_signature J) (fs ! (ks ! j)) \<and>
        fn_classVtableIndex (fs ! (ks ! j)) = length (ci_vtable I) + j"
    and I': "ci_signature I' = ci_signature I" "ci_class I' = ci_class I" "ci_items I' = ci_items I"
      "map no_index (ci_virtualPropertyArray I') = map no_index (ci_virtualPropertyArray I)"
      "ci_virtualMethodArray I' = ci_virtualMethodArray I" "ci_overrideMethodArray I' = ci_overrideMethodArray I"
      "ci_functions I' = fs" "ci_vtable I' = ci_vtable I @ map (\<lambda>k. fs ! k) ks"
      "getVtableStructType I' = getVtableStructType I + length ks"
  shows "vm_inv J ss (K \<union> set ks) I'"
proof -
  let ?sig = "ci_signature J" and ?gs = "map (\<lambda>k. fs ! k) ks"
  have laid: "laid_function ?sig ss (ci_vtable I @ ?gs) (fs ! k)" if "k \<in> set ks" for k
  proof -
    from that obtain j where j: "j < length ks" "ks ! j = k" by (auto simp: in_set_conv_nth)
    then have "own_function ?sig (fs ! k)" "fn_classVtableIndex (fs ! k) = length (ci_vtable I) + j"
      using own by auto
    moreover have "base_count ss \<le> length (ci_vtable I)" using inv by (simp add: vm_inv_def)
    ultimately show ?thesis using j by (simp add: laid_function_def nth_append)
  qed
  have old: "laid_function ?sig ss (ci_vtable I @ ?gs) (ci_functions I ! k)"
    if "k \<in> K" "k < length (ci_functions J)" for k
    using inv that by (intro laid_function_append) (simp add: vm_inv_def)
  have be: "base_entries ?sig ss (ci_vtable I @ ?gs)"
    using inv by (intro base_entries_append [OF _ ok]) (simp_all add: vm_inv_def)
  have oe: "own_entries ?sig (base_count ss) (ci_vtable I @ ?gs)"
    using inv own by (intro own_entries_append) (simp_all add: vm_inv_def)
  have len: "length fs = length (ci_functions J)" using inv fs(1) by (simp add: vm_inv_def)
  have "laid_function ?sig ss (ci_vtable I @ ?gs) (fs ! k)"
    if "k \<in> K \<union> set ks" "k < length (ci_functions J)" for k
    using laid old [OF _ that(2)] fs(2) that(1) by (cases "k \<in> set ks") auto
  then show ?thesis using inv be oe fs len unfolding vm_inv_def I' by simp
qed

lemma set_accessors_facts:
  "distinct ks \<Longrightarrow> \<forall>k\<in>set ks. k < length fs \<Longrightarrow>
    length (set_accessors sig v ks fs) = length fs \<and>
    (\<forall>k. k \<notin> set ks \<longrightarrow> set_accessors sig v ks fs ! k = fs ! k) \<and>
    (\<forall>j<length ks. set_accessors sig v ks fs ! (ks ! j) =
       (fs ! (ks ! j))\<lparr>fn_virtualOrigin := Some sig, fn_classVtableIndex := v + j\<rparr>)"
proof (induction ks arbitrary: v fs)
  case (Cons k ks)
  let ?fs = "fs[k := (fs ! k)\<lparr>fn_virtualOrigin := Some sig, fn_classVtableIndex := v\<rparr>]"
  have pre: "distinct ks" "\<forall>k\<in>set ks. k < length ?fs" "k \<notin> set ks" "k < length fs" using Cons.prems by auto
  have IH: "length (set_accessors sig (Suc v) ks ?fs) = length ?fs"
    "\<And>k'. k' \<notin> set ks \<Longrightarrow> set_accessors sig (Suc v) ks ?fs ! k' = ?fs ! k'"
    "\<And>j. j < length ks \<Longrightarrow> set_accessors sig (Suc v) ks ?fs ! (ks ! j) =
       (?fs ! (ks ! j))\<lparr>fn_virtualOrigin := Some sig, fn_classVtableIndex := Suc v + j\<rparr>"
    using Cons.IH [OF pre(1,2), of "Suc v"] by blast+
  have "set_accessors sig v (k # ks) fs ! ((k # ks) ! j) =
      (fs ! ((k # ks) ! j))\<lparr>fn_virtualOrigin := Some sig, fn_classVtableIndex := v + j\<rparr>"
    if j: "j < length (k # ks)" for j
  proof (cases j)
    case 0
    then show ?thesis using IH(2) [OF pre(3)] pre(4) by simp
  next
    case (Suc j')
    then have "ks ! j' \<noteq> k" using pre(3) j by auto
    then show ?thesis using IH(3) [of j'] Suc j by simp
  qed
  moreover have "set_accessors sig v (k # ks) fs ! k' = fs ! k'" if "k' \<notin> set (k # ks)" for k'
    using IH(2) [of k'] that by simp
  ultimately show ?case using IH(1) by (intro conjI allI impI) simp_all
next
  case Nil
  show ?case by (intro conjI allI impI) simp_all
qed

lemma fresh_own:
  "fresh_function sig f \<Longrightarrow> isVirtual f \<Longrightarrow>
    own_function sig (f\<lparr>fn_virtualOrigin := Some sig, fn_classVtableIndex := v\<rparr>)"
  by (simp add: fresh_function_def own_function_def isVirtual_def)

end
