(* ===== verification/ClassVirtual.thy ===== *)
theory ClassVirtual
  imports ClassLayoutInv
begin

text \<open>
  The steps of the layout of the virtual members keep its invariant, so every class that is built has a
  correct table of virtual methods.
\<close>

section \<open>Virtual properties and methods\<close>

lemma vm_inv_lengths:
  assumes "vm_inv J ss K I"
  shows "ci_signature I = ci_signature J" and "length (ci_functions I) = length (ci_functions J)"
    and "length (ci_virtualPropertyArray I) = length (ci_virtualPropertyArray J)"
    and "base_count ss \<le> length (ci_vtable I)"
proof -
  show "ci_signature I = ci_signature J" "length (ci_functions I) = length (ci_functions J)"
    "base_count ss \<le> length (ci_vtable I)" using assms by (simp_all add: vm_inv_def)
  have "map no_index (ci_virtualPropertyArray I) = map no_index (ci_virtualPropertyArray J)"
    using assms by (simp add: vm_inv_def)
  then show "length (ci_virtualPropertyArray I) = length (ci_virtualPropertyArray J)"
    by (rule map_eq_imp_length_eq)
qed

lemma prop_vtable_length:
  "(pr_bindable p \<longleftrightarrow> pr_binder p \<noteq> None) \<Longrightarrow> length (prop_vtable p) = prop_vtable_fields p"
  by (cases "pr_binder p") (simp_all add: prop_vtable_def prop_vtable_fields_def)

lemma no_index_simps [simp]:
  "prop_vtable (no_index p) = prop_vtable p" "prop_vtable_fields (no_index p) = prop_vtable_fields p"
  "pr_bindable (no_index p) = pr_bindable p" "pr_binder (no_index p) = pr_binder p"
  "no_index (p\<lparr>pr_parentClassVtableIndex := v\<rparr>) = no_index p"
  by (simp_all add: no_index_def prop_vtable_def prop_vtable_fields_def)

lemma layoutVirtualProperty_inv:
  assumes inv: "vm_inv J ss K I" and ok: "slots_ok J ss" and j: "j < length (ci_virtualPropertyArray J)"
    and ks: "ks = prop_vtable (ci_virtualPropertyArray J ! j)" "distinct ks" "set ks \<inter> K = {}"
    and fresh: "\<And>k. k \<in> set ks \<Longrightarrow> k < length (ci_functions J) \<and> isVirtual (ci_functions J ! k) \<and>
         fresh_function (ci_signature J) (ci_functions J ! k)"
    and bind: "\<And>p. p \<in> set (ci_virtualPropertyArray J) \<Longrightarrow> pr_bindable p \<longleftrightarrow> pr_binder p \<noteq> None"
    and st: "layoutVirtualProperty j I = Inr I'"
  shows "vm_inv J ss (K \<union> set ks) I'"
proof -
  note len = vm_inv_lengths [OF inv]
  let ?p = "ci_virtualPropertyArray I ! j" and ?q = "ci_virtualPropertyArray J ! j"
  let ?fs = "set_accessors (ci_signature J) (length (ci_vtable I)) ks (ci_functions I)"
  have "map no_index (ci_virtualPropertyArray I) ! j = map no_index (ci_virtualPropertyArray J) ! j"
    using inv by (simp add: vm_inv_def)
  then have n: "no_index ?p = no_index ?q" using j len(3) by simp
  have pv: "prop_vtable ?p = ks" using arg_cong [OF n, of prop_vtable] ks(1) by simp
  have "prop_vtable_fields ?p = prop_vtable_fields ?q" using arg_cong [OF n, of prop_vtable_fields] by simp
  also have "\<dots> = length ks" using prop_vtable_length [OF bind] j ks(1) by simp
  finally have count: "prop_vtable_fields ?p = length ks" .
  have I': "I' = I\<lparr>ci_functions := ?fs, ci_vtable := ci_vtable I @ map (\<lambda>k. ?fs ! k) ks,
      ci_vtableStruct := Some (getVtableStructType I + length ks),
      ci_virtualPropertyArray := (ci_virtualPropertyArray I)[j := ?p\<lparr>pr_parentClassVtableIndex := length (ci_vtable I)\<rparr>]\<rparr>"
    using st len(1) pv count by (simp add: layoutVirtualProperty_def Let_def split: if_splits)
  have "\<forall>k\<in>set ks. k < length (ci_functions I)" using fresh len(2) by simp
  note S = set_accessors_facts [OF ks(2) this, of "ci_signature J" "length (ci_vtable I)"]
  have old: "ci_functions I ! k = ci_functions J ! k" if "k \<in> set ks" for k
    using inv that ks(3) fresh by (auto simp: vm_inv_def)
  have new: "?fs ! (ks ! i) = (ci_functions J ! (ks ! i))\<lparr>fn_virtualOrigin := Some (ci_signature J),
      fn_classVtableIndex := length (ci_vtable I) + i\<rparr>" if "i < length ks" for i
    using S that old by simp
  have kind: "fn_storageKind (?fs ! k) = fn_storageKind (ci_functions I ! k)" for k
  proof (cases "k \<in> set ks")
    case True
    then obtain i where "i < length ks" "ks ! i = k" by (auto simp: in_set_conv_nth)
    then show ?thesis using new [of i] old [OF True] by simp
  qed (use S in simp)
  show ?thesis
  proof (rule vm_inv_append [OF inv ok])
    show "own_function (ci_signature J) (?fs ! (ks ! i)) \<and>
        fn_classVtableIndex (?fs ! (ks ! i)) = length (ci_vtable I) + i" if "i < length ks" for i
      using new [OF that] fresh_own fresh [of "ks ! i"] that by simp
    show "map no_index (ci_virtualPropertyArray I') = map no_index (ci_virtualPropertyArray I)"
      using j len(3) by (simp add: I' map_update list_update_same_conv)
  qed (use S fresh kind in \<open>simp_all add: I' getVtableStructType_def\<close>)
qed

lemma addVirtualFunction_inv:
  assumes inv: "vm_inv J ss K I" and ok: "slots_ok J ss" and k: "k \<notin> K"
    and fresh: "k < length (ci_functions J)" "isVirtual (ci_functions J ! k)"
      "fresh_function (ci_signature J) (ci_functions J ! k)"
    and st: "addVirtualFunction k I = Inr I'"
  shows "vm_inv J ss (K \<union> {k}) I'"
proof -
  note len = vm_inv_lengths [OF inv]
  let ?f = "(ci_functions J ! k)\<lparr>fn_virtualOrigin := Some (ci_signature J), fn_classVtableIndex := length (ci_vtable I)\<rparr>"
  let ?fs = "(ci_functions I)[k := ?f]"
  have old: "ci_functions I ! k = ci_functions J ! k" using inv k fresh(1) by (simp add: vm_inv_def)
  have I': "I' = I\<lparr>ci_hasAbstractMethods :=
        (ci_hasAbstractMethods I \<or> fn_storageKind (ci_functions J ! k) = StorageKind_Abstract),
      ci_functions := ?fs, ci_vtableStruct := Some (getVtableStructType I + 1), ci_vtable := ci_vtable I @ [?f]\<rparr>"
    using st len(1) old by (simp add: addVirtualFunction_def Let_def split: if_splits)
  have kind: "fn_storageKind (?fs ! i) = fn_storageKind (ci_functions I ! i)" for i
    using old fresh(1) len(2) by (cases "i = k") simp_all
  have "vm_inv J ss (K \<union> set [k]) I'"
  proof (rule vm_inv_append [OF inv ok])
    show "own_function (ci_signature J) (?fs ! ([k] ! i)) \<and>
        fn_classVtableIndex (?fs ! ([k] ! i)) = length (ci_vtable I) + i" if "i < length [k]" for i
      using that fresh len(2) fresh_own [OF fresh(3,2)] by simp
  qed (use fresh kind len in \<open>simp_all add: I' getVtableStructType_def\<close>)
  then show ?thesis by simp
qed

text \<open>Both steps append the functions to the table.\<close>

lemma layoutVirtualProperty_table:
  assumes inv: "vm_inv J ss K I" and tbl: "table_is ss vs [] I" and j: "j < length (ci_virtualPropertyArray J)"
    and ks: "ks = prop_vtable (ci_virtualPropertyArray J ! j)" "distinct ks" "set ks \<inter> set vs = {}"
      "\<And>k. k \<in> set ks \<Longrightarrow> k < length (ci_functions J)"
    and st: "layoutVirtualProperty j I = Inr I'"
  shows "table_is ss (vs @ ks) [] I'"
proof (rule table_is_append [OF tbl ks(3)])
  note len = vm_inv_lengths [OF inv]
  have "map no_index (ci_virtualPropertyArray I) ! j = map no_index (ci_virtualPropertyArray J) ! j"
    using inv by (simp add: vm_inv_def)
  then have "no_index (ci_virtualPropertyArray I ! j) = no_index (ci_virtualPropertyArray J ! j)" using j len(3) by simp
  from arg_cong [OF this, of prop_vtable] have pv: "prop_vtable (ci_virtualPropertyArray I ! j) = ks" using ks(1) by simp
  have "\<forall>k\<in>set ks. k < length (ci_functions I)" using ks(4) len(2) by simp
  note S = set_accessors_facts [OF ks(2) this, of "ci_signature I" "length (ci_vtable I)"]
  show "ci_functions I' ! k = ci_functions I ! k" if "k \<notin> set ks" for k
    using st pv S that by (auto simp: layoutVirtualProperty_def Let_def split: if_splits)
  show "ci_vtable I' = ci_vtable I @ map (\<lambda>k. ci_functions I' ! k) ks"
    using st pv by (auto simp: layoutVirtualProperty_def Let_def split: if_splits)
qed

lemma addVirtualFunction_table:
  assumes inv: "vm_inv J ss K I" and tbl: "table_is ss vs [] I" and k: "k \<notin> set vs" "k < length (ci_functions J)"
    and st: "addVirtualFunction k I = Inr I'"
  shows "table_is ss (vs @ [k]) [] I'"
proof (rule table_is_append [OF tbl])
  show "set [k] \<inter> set vs = {}" using k by simp
  show "ci_functions I' ! i = ci_functions I ! i" if "i \<notin> set [k]" for i
    using st that by (auto simp: addVirtualFunction_def Let_def split: if_splits)
  show "ci_vtable I' = ci_vtable I @ map (\<lambda>k. ci_functions I' ! k) [k]"
    using st k(2) vm_inv_lengths(2) [OF inv] by (auto simp: addVirtualFunction_def Let_def split: if_splits)
qed

section \<open>Overrides\<close>

lemma findItem_bases_slot:
  "findItem_bases ss n = Some it \<Longrightarrow> \<exists>s\<in>set ss. findItem (sl_type s) n = Some it"
proof (induction ss)
  case (Cons s ss)
  then show ?case by (cases s) (auto split: option.splits)
qed simp

lemma matchFunction_Inr: "matchFunction f g = Inr h \<Longrightarrow> h = g \<and> fn_shortType h = fn_shortType f"
  by (auto simp: matchFunction_def split: if_splits)

lemma matchOverload_Inr: "matchOverload f gs = Inr h \<Longrightarrow> h \<in> set gs \<and> fn_shortType h = fn_shortType f"
  by (auto simp: matchOverload_def findShortOverload_def find_Some_iff split: option.splits)

text \<open>The overridden method is an item of a base type and has the type of the overriding one.\<close>

lemma findOverridden_item:
  assumes "findOverridden ss f = Inr g"
  obtains s it where "s \<in> set ss" and "findItem (sl_type s) (fn_name f) = Some it" and "g \<in> set_ns_item it"
    and "fn_shortType g = fn_shortType f"
proof -
  obtain it where it: "findItem_bases ss (fn_name f) = Some it"
    using assms by (auto simp: findOverridden_def split: option.splits)
  have "g \<in> set_ns_item it \<and> fn_shortType g = fn_shortType f"
  proof (cases it)
    case (ItemFunction h)
    then show ?thesis using assms it matchFunction_Inr by (fastforce simp: findOverridden_def)
  next
    case (ItemOverload hs)
    then show ?thesis using assms it matchOverload_Inr by (fastforce simp: findOverridden_def)
  next
    case (ItemProperty h s)
    consider "fn_kind f = FunctionKind_Getter" | "fn_kind f = FunctionKind_Setter"
      using assms it ItemProperty by (auto simp: findOverridden_def split: function_kind.splits)
    then show ?thesis
    proof cases
      case 1
      then show ?thesis using assms it ItemProperty matchFunction_Inr by (fastforce simp: findOverridden_def)
    next
      case 2
      then show ?thesis using assms it ItemProperty matchFunction_Inr matchOverload_Inr
        by (cases s) (fastforce simp: findOverridden_def)+
    qed
  next
    case ItemOther
    then show ?thesis using assms it by (simp add: findOverridden_def)
  qed
  then show thesis using that findItem_bases_slot [OF it] by blast
qed

lemma base_entries_update:
  assumes be: "base_entries sig ss tbl" and ok: "slots_ok J ss" and n: "base_count ss \<le> length tbl"
    and s0: "s0 \<in> set ss" "sub_path (sl_type s0) r0 O0" "own_slot O0 i0"
    and f: "entry_for O0 i0 f" "base_declared sig s0 r0 O0 f"
  shows "base_entries sig ss (tbl[path_index (s0 # r0) + i0 := f])"
  unfolding base_entries_def
proof (intro ballI allI impI)
  fix s r O' i
  assume s: "s \<in> set ss" "sub_path (sl_type s) r O'" "own_slot O' i"
  let ?D = "DType (J\<lparr>ci_vtable := tbl\<rparr>) ss [] []"
  let ?k = "path_index (s # r) + i" and ?target = "path_index (s0 # r0) + i0"
  have t: "tables_ok ?D" by (rule slots_ok_class(1) [OF ok]) (use ok n in \<open>simp_all add: slots_ok_def\<close>)
  have k0: "?target < length tbl" using base_index [OF ok s0] n by linarith
  show "entry_for O' i (tbl[?target := f] ! ?k) \<and> base_declared sig s r O' (tbl[?target := f] ! ?k)"
  proof (cases "?k = ?target")
    case False
    then show ?thesis using be s by (simp add: base_entries_def)
  next
    case True
    have "s # r = s0 # r0"
      by (rule path_index_unique [OF t _ _ s(3) s0(3) True]) (use s s0 in simp_all)
    moreover from this have "O' = O0" using s(2) s0(2) sub_path_det by auto
    moreover from calculation have "i = i0" using True by simp
    moreover have "tbl[?target := f] ! ?k = f" unfolding True using k0 by (rule nth_list_update_eq)
    ultimately show ?thesis using f by simp
  qed
qed

text \<open>A successful override: the function gets the type of \<^verbatim>\<open>this\<close>, the origin and the index of the entry \<open>i\<close>
  of \<open>O1\<close>, and takes its place on the path that the search finds.\<close>

lemma overrideVirtualFunction_step:
  assumes inv: "vm_inv J ss K I" and ok: "slots_ok J ss"
    and fn: "k < length (ci_functions J)" "isVirtual (ci_functions J ! k)"
      "fresh_function (ci_signature J) (ci_functions J ! k)" and k: "k \<notin> K"
    and st: "overrideVirtualFunction ss k I = Inr I'"
  obtains f i s0 r0 O1 s where "f = (ci_functions J ! k)\<lparr>fn_thisArgType := fn_thisArgType f,
      fn_thisArgDelta := - int (path_offset (s0 # r0)), fn_virtualOrigin := fn_virtualOrigin f, fn_classVtableIndex := i\<rparr>"
    and "I' = I\<lparr>ci_functions := (ci_functions I)[k := f], ci_vtable := (ci_vtable I)[path_index (s0 # r0) + i := f]\<rparr>"
    and "override_target (DType I ss [] []) f = path_index (s0 # r0) + i"
    and "s0 \<in> set ss" and "sub_path (sl_type s0) r0 O1" and "own_slot O1 i" and "entry_for O1 i f"
    and "s \<in> set ss" and "method_slot (sl_type s) f"
proof -
  note len = vm_inv_lengths [OF inv]
  let ?f = "ci_functions J ! k" and ?D = "DType I ss [] []"
  have old: "ci_functions I ! k = ?f" using inv k fn(1) by (simp add: vm_inv_def)
  obtain g off v where g: "findOverridden ss ?f = Inr g" "isVirtual g"
    and c: "findClassBase ?D (the (fn_virtualOrigin g)) = Some (off, v)"
    and I': "I' = I\<lparr>ci_functions := (ci_functions I)[k := ?f\<lparr>fn_thisArgType := fn_thisArgType g,
          fn_thisArgDelta := - int off, fn_virtualOrigin := fn_virtualOrigin g,
          fn_classVtableIndex := fn_classVtableIndex g\<rparr>],
        ci_vtable := (ci_vtable I)[v + fn_classVtableIndex g := ?f\<lparr>fn_thisArgType := fn_thisArgType g,
          fn_thisArgDelta := - int off, fn_virtualOrigin := fn_virtualOrigin g,
          fn_classVtableIndex := fn_classVtableIndex g\<rparr>]\<rparr>"
    using st old by (auto simp: overrideVirtualFunction_def Let_def split: if_splits sum.splits option.splits)
  obtain s it where s: "s \<in> set ss" "findItem (sl_type s) (fn_name ?f) = Some it" "g \<in> set_ns_item it"
    and short: "fn_shortType g = fn_shortType ?f" by (rule findOverridden_item [OF g(1)])
  let ?i = "fn_classVtableIndex g"
  have "items_ok (sl_type s)" using ok s(1) by (simp add: slots_ok_def)
  then obtain r O1 where r: "sub_path (sl_type s) r O1" "own_slot O1 ?i" and e: "entry_for O1 ?i g"
    using s g(2) by (fastforce simp: items_ok_def method_slot_def)
  have ci: "ci_class I" using inv ok by (simp add: vm_inv_def slots_ok_def)
  have D: "sigs_ok (subtypes ?D)" "O1 \<in> subtypes ?D"
    using slots_ok_class(2) [OF ok len(1) ci len(4)] subtypesI [of ?D "s # r" O1] s(1) r(1) by simp_all
  have "the (fn_virtualOrigin g) = dt_signature O1" using e by (simp add: entry_for_def)
  from findClassBase_same [OF D c [unfolded this]] obtain p where
    p: "p \<noteq> []" "sub_path ?D p O1" "off = path_offset p" "v = path_index p" .
  obtain s0 r0 where p0: "p = s0 # r0" "s0 \<in> set ss" "sub_path (sl_type s0) r0 O1"
    using p(1,2) by (cases p) auto
  let ?f' = "?f\<lparr>fn_thisArgType := fn_thisArgType g, fn_thisArgDelta := - int off,
    fn_virtualOrigin := fn_virtualOrigin g, fn_classVtableIndex := ?i\<rparr>"
  have f': "entry_for O1 ?i ?f'" using e fn(2) short by (simp add: entry_for_def isVirtual_def)
  then have "method_slot (sl_type s) ?f'" using r unfolding method_slot_def by auto
  then show thesis
    by (intro that [OF _ _ _ p0(2,3) r(2) f' s(1)])
      (use I' p p0(1) c in \<open>simp_all add: override_target_def del: findClassBase.simps\<close>)
qed

lemma overrideVirtualFunction_inv:
  assumes inv: "vm_inv J ss K I" and ok: "slots_ok J ss"
    and fn: "k < length (ci_functions J)" "isVirtual (ci_functions J ! k)"
      "fresh_function (ci_signature J) (ci_functions J ! k)" and k: "k \<notin> K"
    and st: "overrideVirtualFunction ss k I = Inr I'"
  shows "vm_inv J ss (K \<union> {k}) I'"
proof -
  note len = vm_inv_lengths [OF inv]
  obtain f i s0 r0 O1 s where f: "f = (ci_functions J ! k)\<lparr>fn_thisArgType := fn_thisArgType f,
      fn_thisArgDelta := - int (path_offset (s0 # r0)), fn_virtualOrigin := fn_virtualOrigin f, fn_classVtableIndex := i\<rparr>"
    and I': "I' = I\<lparr>ci_functions := (ci_functions I)[k := f], ci_vtable := (ci_vtable I)[path_index (s0 # r0) + i := f]\<rparr>"
    and "override_target (DType I ss [] []) f = path_index (s0 # r0) + i"
    and p: "s0 \<in> set ss" "sub_path (sl_type s0) r0 O1" "own_slot O1 i" and e: "entry_for O1 i f"
    and s: "s \<in> set ss" "method_slot (sl_type s) f"
    by (rule overrideVirtualFunction_step [OF assms])
  let ?tbl = "(ci_vtable I)[path_index (s0 # r0) + i := f]"
  have "fn_thisType f = ci_signature J" "fn_thisArgDelta f = - int (path_offset (s0 # r0))"
    "fn_storageKind f = fn_storageKind (ci_functions J ! k)"
    using fn(3) by (subst f, simp add: fresh_function_def)+
  then have decl: "base_declared (ci_signature J) s0 r0 O1 f" and kind: "fn_storageKind f = fn_storageKind (ci_functions J ! k)"
    by (simp_all add: base_declared_def)
  have be: "base_entries (ci_signature J) ss ?tbl"
    using inv base_entries_update [OF _ ok len(4) p e decl] by (simp add: vm_inv_def)
  have low: "path_index (s0 # r0) + i < base_count ss" by (rule base_index [OF ok p])
  have keep: "?tbl ! n = ci_vtable I ! n" if "base_count ss \<le> n" for n using that low by simp
  have oe: "own_entries (ci_signature J) (base_count ss) ?tbl"
    using inv keep by (simp add: vm_inv_def own_entries_def)
  have laid: "laid_function (ci_signature J) ss ?tbl h" if "laid_function (ci_signature J) ss (ci_vtable I) h" for h
    using that keep unfolding laid_function_def by auto
  have new: "laid_function (ci_signature J) ss ?tbl f" using s unfolding laid_function_def by blast
  have fs: "((ci_functions I)[k := f]) ! j = (if j = k then f else ci_functions I ! j)" for j
    using fn(1) len(2) by simp
  show ?thesis using inv be oe laid new kind unfolding vm_inv_def I'
    by (simp add: fs getVtableStructType_def)
qed

lemma overrideVirtualFunction_table:
  assumes inv: "vm_inv J ss K I" and ok: "slots_ok J ss"
    and fn: "k < length (ci_functions J)" "isVirtual (ci_functions J ! k)"
      "fresh_function (ci_signature J) (ci_functions J ! k)" and k: "k \<notin> K" "k \<notin> set vs" "k \<notin> set os"
    and tbl: "table_is ss vs os I" and st: "overrideVirtualFunction ss k I = Inr I'"
  shows "table_is ss vs (os @ [k]) I'"
proof -
  obtain f i s0 r0 O1 s where "f = (ci_functions J ! k)\<lparr>fn_thisArgType := fn_thisArgType f,
      fn_thisArgDelta := - int (path_offset (s0 # r0)), fn_virtualOrigin := fn_virtualOrigin f, fn_classVtableIndex := i\<rparr>"
    and I': "I' = I\<lparr>ci_functions := (ci_functions I)[k := f], ci_vtable := (ci_vtable I)[path_index (s0 # r0) + i := f]\<rparr>"
    and j: "override_target (DType I ss [] []) f = path_index (s0 # r0) + i"
    and p: "s0 \<in> set ss" "sub_path (sl_type s0) r0 O1" "own_slot O1 i" and "entry_for O1 i f"
    and "s \<in> set ss" "method_slot (sl_type s) f"
    by (rule overrideVirtualFunction_step [OF inv ok fn k(1) st])
  show ?thesis
    by (rule table_is_override [OF tbl k(2,3) _ j base_index [OF ok p]]) (use vm_inv_lengths(2) [OF inv] fn(1) I' in simp_all)
qed

section \<open>All virtual members\<close>

lemma vm_inv_start:
  assumes ok: "slots_ok J ss" and tbl: "ci_vtable I = base_table ss" and n: "getVtableStructType I = base_count ss"
    and same: "same_members I J" and v: "\<And>s. s \<in> set ss \<Longrightarrow> dt_class (sl_type s) \<Longrightarrow> vtable_ok (sl_type s)"
  shows "vm_inv J ss {} I"
proof -
  have "entry_for O' i (base_table ss ! (path_index (s # r) + i)) \<and>
      base_declared (ci_signature J) s r O' (base_table ss ! (path_index (s # r) + i))"
    if s: "s \<in> set ss" "sub_path (sl_type s) r O'" "own_slot O' i" for s r O' i
  proof -
    have t: "tables_ok (sl_type s)" "regions ss 0" using ok s(1) by (auto simp: slots_ok_def)
    have c: "dt_class (sl_type s)" using struct_path [OF t(1) _ s(2)] s(3) by (auto simp: own_slot_def)
    have "base_table ss ! (sl_vtableIndex s + (path_index r + i)) = dt_vtable (sl_type s) ! (path_index r + i)"
      by (rule base_table_nth [OF t(2) s(1) path_index_less [OF t(1) s(2,3)]])
    then show ?thesis using v [OF s(1) c] s(2,3)
      by (simp add: vtable_ok_def base_declared_def path_simps add.assoc)
  qed
  then show ?thesis using same n unfolding vm_inv_def tbl
    by (simp add: same_members_def base_entries_def own_entries_def)
qed

lemma layoutVirtualMembers_inv:
  assumes m: "members_ok (J\<lparr>ci_vtable := [], ci_vtableStruct := None\<rparr>)" and ok: "slots_ok J ss"
    and start: "vm_inv J ss {} I" and same: "same_members I J"
    and tbl: "ci_vtable I = base_table ss" and st: "layoutVirtualMembers ss I = Inr I'"
  shows "vm_inv J ss (set (virtual_indices J) \<union> set (ci_overrideMethodArray J)) I' \<and>
    table_is ss (virtual_indices J) (ci_overrideMethodArray J) I'"
proof -
  let ?J = "if ci_virtualPropertyArray I \<noteq> [] \<or> ci_virtualMethodArray I \<noteq> []
    then I\<lparr>ci_vtableStruct := Some (getVtableStructType I)\<rparr> else I"
  let ?ps = "ci_virtualPropertyArray J" and ?props = "\<lambda>js. concat (map (\<lambda>j. prop_vtable (ci_virtualPropertyArray J ! j)) js)"
  let ?ms = "ci_virtualMethodArray J" and ?os = "ci_overrideMethodArray J"
  have arrays: "ci_virtualPropertyArray I = ?ps" "ci_virtualMethodArray I = ?ms" "ci_overrideMethodArray I = ?os"
    using same by (simp_all add: same_members_def)
  have s0: "vm_inv J ss {} ?J" using start arrays by (simp add: vm_inv_def getVtableStructType_def)
  obtain I1 I2 where f: "fold_ok layoutVirtualProperty [0..<length ?ps] ?J = Inr I1"
    "fold_ok addVirtualFunction ?ms I1 = Inr I2" "fold_ok (overrideVirtualFunction ss) ?os I2 = Inr I'"
    using st arrays by (auto simp: layoutVirtualMembers_def Let_def split: sum.splits)
  have all: "?props [0..<length ?ps] = concat (map prop_vtable ?ps)"
    by (rule arg_cong [where f = concat], rule nth_equalityI) simp_all
  have vi: "virtual_indices J = ?props [0..<length ?ps] @ ?ms" by (simp add: virtual_indices_def all)
  have vj: "virtual_indices (J\<lparr>ci_vtable := [], ci_vtableStruct := None\<rparr>) = virtual_indices J"
    by (simp add: virtual_indices_def)
  note M = m [unfolded members_ok_def vj, simplified]
  have dist2: "distinct (virtual_indices J @ ?os)" using M by simp
  have dist: "distinct (?props [0..<length ?ps] @ ?ms)" using dist2 unfolding vi by (metis distinct_append)
  have known: "\<And>k. k \<in> set (virtual_indices J) \<union> set ?os \<Longrightarrow>
      k < length (ci_functions J) \<and> isVirtual (ci_functions J ! k) \<and> fresh_function (ci_signature J) (ci_functions J ! k)"
    using M by (meson UnI1 UnI2 Un_iff nth_mem)
  have bind: "\<And>p. p \<in> set ?ps \<Longrightarrow> pr_bindable p \<longleftrightarrow> pr_binder p \<noteq> None"
    using M by blast
  have t0: "table_is ss [] [] ?J" by (rule table_is_start) (simp add: tbl)
  have i1: "vm_inv J ss (set (?props [0..<length ?ps])) I1 \<and> table_is ss (?props [0..<length ?ps]) [] I1"
  proof (rule fold_ok_induct [OF f(1), where P = "\<lambda>js u. vm_inv J ss (set (?props js)) u \<and> table_is ss (?props js) [] u"])
    fix ys x zs u v
    assume js: "[0..<length ?ps] = ys @ x # zs" and u: "vm_inv J ss (set (?props ys)) u \<and> table_is ss (?props ys) [] u"
      and v: "layoutVirtualProperty x u = Inr v"
    note u = conjunct1 [OF u] conjunct2 [OF u]
    let ?ks = "prop_vtable (?ps ! x)"
    have x: "x < length ?ps" using arg_cong [OF js, of set] by auto
    have d: "distinct ?ks" "set ?ks \<inter> set (?props ys) = {}" using dist unfolding js by auto
    have sub: "set ?ks \<subseteq> set (virtual_indices J)" using vi js by auto
    have "vm_inv J ss (set (?props ys) \<union> set ?ks) v"
      by (rule layoutVirtualProperty_inv [OF u(1) ok x refl _ _ _ bind v]) (use d sub known in auto)
    moreover have "table_is ss (?props ys @ ?ks) [] v"
      by (rule layoutVirtualProperty_table [OF u x refl d _ v]) (use sub known in auto)
    ultimately show "vm_inv J ss (set (?props (ys @ [x]))) v \<and> table_is ss (?props (ys @ [x])) [] v" by simp
  qed (use s0 t0 in simp)
  let ?vs = "\<lambda>ks. ?props [0..<length ?ps] @ ks"
  have i2: "vm_inv J ss (set (?vs ?ms)) I2 \<and> table_is ss (?vs ?ms) [] I2"
  proof (rule fold_ok_induct [OF f(2), where P = "\<lambda>ks u. vm_inv J ss (set (?vs ks)) u \<and> table_is ss (?vs ks) [] u"])
    fix ys x zs u v
    assume ms: "?ms = ys @ x # zs" and u: "vm_inv J ss (set (?vs ys)) u \<and> table_is ss (?vs ys) [] u"
      and v: "addVirtualFunction x u = Inr v"
    note u = conjunct1 [OF u] conjunct2 [OF u]
    have x: "x \<notin> set (?vs ys)" using dist ms by auto
    have xf: "x \<in> set (virtual_indices J)" using vi ms by simp
    have "vm_inv J ss (set (?vs ys) \<union> {x}) v"
      by (rule addVirtualFunction_inv [OF u(1) ok x _ _ _ v]) (use known xf in auto)
    moreover have "table_is ss (?vs ys @ [x]) [] v"
      by (rule addVirtualFunction_table [OF u x _ v]) (use known xf in auto)
    ultimately show "vm_inv J ss (set (?vs (ys @ [x]))) v \<and> table_is ss (?vs (ys @ [x])) [] v" by simp
  qed (use i1 in simp)
  let ?V = "set (virtual_indices J)"
  show ?thesis
  proof (rule fold_ok_induct [OF f(3), where P = "\<lambda>ks u. vm_inv J ss (?V \<union> set ks) u \<and> table_is ss (virtual_indices J) ks u"])
    fix ys x zs u v
    assume os: "?os = ys @ x # zs" and u: "vm_inv J ss (?V \<union> set ys) u \<and> table_is ss (virtual_indices J) ys u"
      and v: "overrideVirtualFunction ss x u = Inr v"
    note u = conjunct1 [OF u] conjunct2 [OF u]
    have x: "x \<notin> ?V \<union> set ys" "x \<notin> ?V" "x \<notin> set ys" using dist2 os by auto
    have xf: "x < length (ci_functions J)" "isVirtual (ci_functions J ! x)"
      "fresh_function (ci_signature J) (ci_functions J ! x)" using known os by auto
    have "vm_inv J ss (?V \<union> set ys \<union> {x}) v" by (rule overrideVirtualFunction_inv [OF u(1) ok xf x(1) v])
    moreover have "table_is ss (virtual_indices J) (ys @ [x]) v"
      by (rule overrideVirtualFunction_table [OF u(1) ok xf x u(2) v])
    ultimately show "vm_inv J ss (?V \<union> set (ys @ [x])) v \<and> table_is ss (virtual_indices J) (ys @ [x]) v" by simp
  qed (use i2 vi in simp)
qed

section \<open>Every class that is built\<close>

text \<open>The parts of a successful layout.\<close>

lemma calcClassLayout_parts:
  assumes "calcClassLayout E d = Inr D"
  obtains st s I1 cfs ss I2 c where
    "fold_ok layoutClassBase (d_bases d) \<lparr>cs_info = d_info d, cs_slots = [],
       cs_ifaceBases = iface_hdrs (d_bases d), cs_baseTypeMap = []\<rparr> = Inr st"
    and "calcLayoutTo E False (iface_struct d (cs_ifaceBases st)) = (None, s)"
    and "scanClassFields 0 (m_fieldArray s) (map snd (d_fields d)) (cs_info st, []) = Inr (I1, cfs)"
    and "ss = set_offsets (cs_slots st) (drop (length (iface_hdrs (d_bases d))) (m_baseTypeList s))"
    and "layoutVirtualMembers ss I1 = Inr I2"
    and "c = snd (calcLayoutTo E False (class_struct d s))"
    and "D = DType (I2\<lparr>ci_layout_ok := True, ci_iface := s, ci_gcRoot := (ci_gcRoot I2 \<or> m_classGcRoot s),
       ci_opaqueNonCreatable := (ci_opaqueNonCreatable I2 \<or> m_classNonCreatable s),
       ci_size := m_size c, ci_alignment := m_alignment c\<rparr>) ss (d_unnamed d) cfs"
proof -
  let ?st0 = "\<lparr>cs_info = d_info d, cs_slots = [], cs_ifaceBases = iface_hdrs (d_bases d), cs_baseTypeMap = []\<rparr>"
  obtain st where st: "fold_ok layoutClassBase (d_bases d) ?st0 = Inr st"
    using assms by (cases "fold_ok layoutClassBase (d_bases d) ?st0")
      (simp_all add: calcClassLayout_def Let_def split: if_splits)
  obtain s where s: "calcLayoutTo E False (iface_struct d (cs_ifaceBases st)) = (None, s)"
    using assms st by (cases "calcLayoutTo E False (iface_struct d (cs_ifaceBases st))"; cases "fst (calcLayoutTo E False (iface_struct d (cs_ifaceBases st)))")
      (simp_all add: calcClassLayout_def Let_def split: if_splits)
  obtain I1 cfs where f: "scanClassFields 0 (m_fieldArray s) (map snd (d_fields d)) (cs_info st, []) = Inr (I1, cfs)"
    using assms st s by (cases "scanClassFields 0 (m_fieldArray s) (map snd (d_fields d)) (cs_info st, [])")
      (auto simp add: calcClassLayout_def Let_def split: if_splits)
  let ?ss = "set_offsets (cs_slots st) (drop (length (iface_hdrs (d_bases d))) (m_baseTypeList s))"
  obtain I2 where v: "layoutVirtualMembers ?ss I1 = Inr I2"
    using assms st s f by (cases "layoutVirtualMembers ?ss I1")
      (simp_all add: calcClassLayout_def Let_def split: if_splits)
  show thesis
    by (rule that [OF st s f refl v refl]) (use assms st s f v in \<open>simp add: calcClassLayout_def Let_def split: if_splits\<close>)
qed

lemma set_offsets_types:
  assumes "length ss = length bs"
  shows "map sl_type (set_offsets ss bs) = map sl_type ss"
    and "map sl_vtableIndex (set_offsets ss bs) = map sl_vtableIndex ss"
    and "map sl_offset (set_offsets ss bs) = map b_offset bs"
  using assms by (induction ss bs rule: list_induct2) (simp_all add: set_offsets_def)

lemma regions_cong:
  "map sl_type ss = map sl_type ts \<Longrightarrow> map sl_vtableIndex ss = map sl_vtableIndex ts \<Longrightarrow> regions ss n = regions ts n"
proof (induction ss arbitrary: ts n)
  case (Cons s ss)
  then obtain t us where ts: "ts = t # us" by (cases ts) simp_all
  then have "sl_type s = sl_type t" "sl_vtableIndex s = sl_vtableIndex t" using Cons.prems by simp_all
  moreover have "regions ss m = regions us m" for m using Cons.IH [of us m] Cons.prems ts by simp
  ultimately show ?case using ts by simp
qed simp

lemma base_table_map:
  "base_table ss = concat (map (\<lambda>B. if dt_class B then dt_vtable B else []) (map sl_type ss))"
  by (simp add: base_table_def comp_def)

lemma base_table_cong: "map sl_type ss = map sl_type ts \<Longrightarrow> base_table ss = base_table ts"
  by (simp only: base_table_map)

lemma base_count_cong: "map sl_type ss = map sl_type ts \<Longrightarrow> base_count ss = base_count ts"
  by (metis base_table_cong base_table_length)

definition class_inv :: "dtype \<Rightarrow> bool" where
  "class_inv D \<longleftrightarrow>
     tables_ok D \<and> sigs_ok (subtypes D) \<and> items_ok D \<and> (dt_class D \<longrightarrow> vtable_ok D \<and> vtable_struct_ok D)"

lemma method_slot_base: "s \<in> set (dt_slots D) \<Longrightarrow> method_slot (sl_type s) f \<Longrightarrow> method_slot D f"
  unfolding method_slot_def by (metis sub_path.simps(2))

lemma items_ok_class:
  assumes base: "\<And>s. s \<in> set ss \<Longrightarrow> items_ok (sl_type s)" and un: "\<And>U. U \<in> set us \<Longrightarrow> no_virtual U"
    and own: "\<And>n it k. (n, it) \<in> set (ci_items I) \<Longrightarrow> k \<in> set_ns_item it \<Longrightarrow>
      isVirtual (ci_functions I ! k) \<Longrightarrow> method_slot (DType I ss us cs) (ci_functions I ! k)"
  shows "items_ok (DType I ss us cs)"
  unfolding items_ok_def
proof (intro allI impI)
  let ?D = "DType I ss us cs"
  fix n it f
  assume it: "findItem ?D n = Some it" and f: "f \<in> set_ns_item it" and v: "isVirtual f"
  have un': "findItem_unnamed us n = Some r \<Longrightarrow> f \<in> set_ns_item r \<Longrightarrow> False" for r
    using un v by (induction us) (auto simp: no_virtual_def split: option.splits)
  show "method_slot ?D f"
  proof (cases "map_of (ci_items I) n")
    case (Some i)
    then have "it = map_ns_item ((!) (ci_functions I)) i" using it by simp
    then obtain k where "k \<in> set_ns_item i" "f = ci_functions I ! k" using f by (auto simp: ns_item.set_map)
    then show ?thesis using own [of n i k] map_of_SomeD [OF Some] v by simp
  next
    case None
    then have "findItem_bases ss n = Some it" using it un' f by (auto split: option.splits)
    then obtain s where s: "s \<in> set ss" "findItem (sl_type s) n = Some it" using findItem_bases_slot by blast
    then have "method_slot (sl_type s) f" using base f v by (auto simp: items_ok_def)
    then show ?thesis using method_slot_base [of s ?D] s(1) by simp
  qed
qed

text \<open>The invariant of the virtual members gives the properties of the class.\<close>

lemma vm_inv_class:
  assumes inv: "vm_inv J ss K I" and ok: "slots_ok J ss"
    and K: "\<And>k. k < length (ci_functions J) \<Longrightarrow> isVirtual (ci_functions J ! k) \<Longrightarrow> k \<in> K"
    and items: "\<And>n it k. (n, it) \<in> set (ci_items J) \<Longrightarrow> k \<in> set_ns_item it \<Longrightarrow> k < length (ci_functions J)"
    and un: "\<And>U. U \<in> set us \<Longrightarrow> no_virtual U"
    and I': "ci_signature I' = ci_signature I" "ci_class I' = ci_class I" "ci_functions I' = ci_functions I"
      "ci_items I' = ci_items I" "ci_vtable I' = ci_vtable I" "ci_vtableStruct I' = ci_vtableStruct I"
  shows "class_inv (DType I' ss us cs)"
proof -
  let ?D = "DType I' ss us cs"
  note len = vm_inv_lengths [OF inv]
  have c: "ci_class I'" using inv ok I'(2) by (simp add: vm_inv_def slots_ok_def)
  note D = slots_ok_class [OF ok, of I' us cs]
  have t: "tables_ok ?D" and g: "sigs_ok (subtypes ?D)" using D c len I' by simp_all
  have own_slot: "own_slot ?D i \<longleftrightarrow> base_count ss \<le> i \<and> i < length (ci_vtable I)" for i
    using c I' by (simp add: own_slot_def)
  have own: "own_function (ci_signature J) (ci_vtable I ! i)" "fn_classVtableIndex (ci_vtable I ! i) = i"
    if "own_slot ?D i" for i
    using inv that own_slot by (simp_all add: vm_inv_def own_entries_def)
  have v: "vtable_ok ?D"
    unfolding vtable_ok_def
  proof (intro allI impI)
    fix r O' i
    assume r: "sub_path ?D r O'" "own_slot O' i"
    show "entry_for O' i (dt_vtable ?D ! (path_index r + i)) \<and> declared_on ?D r O' (dt_vtable ?D ! (path_index r + i))"
    proof (cases r)
      case Nil
      then have "O' = ?D" using r(1) by simp
      then show ?thesis using own [of i] r Nil I' len
        by (simp add: entry_for_def declared_on_def own_function_def path_simps)
    next
      case (Cons s p)
      then have s: "s \<in> set ss" "sub_path (sl_type s) p O'" using r(1) by simp_all
      let ?g = "ci_vtable I ! (path_index (s # p) + i)"
      have e: "entry_for O' i ?g" "base_declared (ci_signature J) s p O' ?g"
        using inv s r(2) by (simp_all add: vm_inv_def base_entries_def)
      have "declared_on ?D r O' ?g"
      proof (cases "declared_on (sl_type s) p O' ?g")
        case True
        then obtain p1 q G where "p = p1 @ q" "sub_path (sl_type s) p1 G" "sub_path G q O'"
          "fn_thisType ?g = dt_signature G" "fn_thisArgDelta ?g = - int (path_offset q)"
          by (auto simp: declared_on_def)
        then show ?thesis unfolding declared_on_def using s Cons
          by (intro exI [of _ "s # p1"] exI [of _ q] exI [of _ G]) simp
      next
        case False
        then have "fn_thisType ?g = ci_signature J" "fn_thisArgDelta ?g = - int (path_offset (s # p))"
          using e(2) by (simp_all add: base_declared_def)
        then show ?thesis unfolding declared_on_def using r(1) Cons I' len
          by (intro exI [of _ "[]"] exI [of _ r] exI [of _ ?D]) simp
      qed
      then show ?thesis using e(1) Cons I' by simp
    qed
  qed
  have "items_ok ?D"
  proof (rule items_ok_class)
    show "items_ok (sl_type s)" if "s \<in> set ss" for s using ok that by (simp add: slots_ok_def)
    show "no_virtual U" if "U \<in> set us" for U by (rule un [OF that])
    fix n it k
    assume it: "(n, it) \<in> set (ci_items I')" "k \<in> set_ns_item it" and f: "isVirtual (ci_functions I' ! k)"
    have k: "k < length (ci_functions J)" using items it inv I' by (auto simp: vm_inv_def)
    have "isVirtual (ci_functions J ! k)" using inv f k I' by (simp add: vm_inv_def isVirtual_def)
    then have l: "laid_function (ci_signature J) ss (ci_vtable I) (ci_functions I ! k)"
      using inv k K by (simp add: vm_inv_def)
    show "method_slot ?D (ci_functions I' ! k)"
    proof (cases "\<exists>s\<in>set ss. method_slot (sl_type s) (ci_functions I ! k)")
      case True
      then show ?thesis using method_slot_base [of _ ?D] I' by auto
    next
      case False
      then have o: "own_function (ci_signature J) (ci_functions I ! k)"
        "own_slot ?D (fn_classVtableIndex (ci_functions I ! k))"
        "fn_shortType (ci_functions I ! k) = fn_shortType (ci_vtable I ! fn_classVtableIndex (ci_functions I ! k))"
        using l own_slot by (auto simp: laid_function_def)
      have "sub_path ?D [] ?D" by simp
      moreover have "entry_for ?D (fn_classVtableIndex (ci_functions I ! k)) (ci_functions I ! k)"
        using o I' len by (simp add: entry_for_def own_function_def)
      ultimately show ?thesis using o(2) I' unfolding method_slot_def by metis
    qed
  qed
  moreover have "vtable_struct_ok ?D" using inv I' by (simp add: vtable_struct_ok_def vm_inv_def getVtableStructType_def)
  ultimately show ?thesis using t g v by (simp add: class_inv_def)
qed

text \<open>The layout of the interface struct: the base types after the header, and the fields.\<close>

lemma iface_layout:
  assumes E: "align_ok (e_align E)" and f: "decl_fields_ok d"
    and s: "calcLayoutTo E False (iface_struct d (iface_types (d_bases d))) = (None, s)"
  shows "map b_type (m_baseTypeList s) = iface_types (d_bases d)"
    and "map f_type (m_fieldArray s) = map (f_type \<circ> fst) (d_fields d)"
    and "map f_bitCount (m_fieldArray s) = map (f_bitCount \<circ> fst) (d_fields d)"
    and "m_fieldSize s \<le> m_size s"
    and "fields_inv (d_fieldAlignment d) (m_fieldSize s) (m_alignment s)
      (map slot_field (m_baseTypeList s) @ m_fieldArray s)"
proof -
  obtain be where wf: "struct_wf be (d_fieldAlignment d) (map new_slot (iface_types (d_bases d))) (map fst (d_fields d))"
    using f by (auto simp: decl_fields_ok_def)
  note C = calcLayoutTo_new [OF E wf _ s [unfolded iface_struct_def], simplified]
  have "map b_type (map new_slot ts) = ts" for ts by (simp add: new_slot_def comp_def)
  then show "map b_type (m_baseTypeList s) = iface_types (d_bases d)" using C(4) by simp
  show "map f_type (m_fieldArray s) = map (f_type \<circ> fst) (d_fields d)"
    "map f_bitCount (m_fieldArray s) = map (f_bitCount \<circ> fst) (d_fields d)" "m_fieldSize s \<le> m_size s"
    "fields_inv (d_fieldAlignment d) (m_fieldSize s) (m_alignment s) (map slot_field (m_baseTypeList s) @ m_fieldArray s)"
    using C by simp_all
qed

text \<open>A class after its layout, with the slots of its base types at the offsets of the interface struct.\<close>

lemma class_layout:
  assumes E: "align_ok (e_align E)" and f: "decl_fields_ok d" and m: "members_ok (d_info d)"
    and L: "calcClassLayout E d = Inr D"
  obtains s st I1 I2 c where
    "calcLayoutTo E False (iface_struct d (iface_types (d_bases d))) = (None, s)"
    and "based (d_info d) (iface_hdrs (d_bases d)) (d_bases d) st"
    and "dt_slots D = set_offsets (cs_slots st) (drop (length (iface_hdrs (d_bases d))) (m_baseTypeList s))"
    and "length (cs_slots st) = length (drop (length (iface_hdrs (d_bases d))) (m_baseTypeList s))"
    and "same_members I1 (d_info d)" and "ci_vtable I1 = base_table (cs_slots st)"
    and "getVtableStructType I1 = getVtableStructType (cs_info st)"
    and "layoutVirtualMembers (dt_slots D) I1 = Inr I2"
    and "c = snd (calcLayoutTo E False (class_struct d s))"
    and "D = DType (I2\<lparr>ci_layout_ok := True, ci_iface := s, ci_gcRoot := (ci_gcRoot I2 \<or> m_classGcRoot s),
       ci_opaqueNonCreatable := (ci_opaqueNonCreatable I2 \<or> m_classNonCreatable s),
       ci_size := m_size c, ci_alignment := m_alignment c\<rparr>) (dt_slots D) (d_unnamed d)
       (class_fields_of (m_fieldArray s) (map snd (d_fields d)))"
proof -
  obtain st s I1 cfs ss I2 c where b: "fold_ok layoutClassBase (d_bases d) \<lparr>cs_info = d_info d, cs_slots = [],
       cs_ifaceBases = iface_hdrs (d_bases d), cs_baseTypeMap = []\<rparr> = Inr st"
    and s: "calcLayoutTo E False (iface_struct d (cs_ifaceBases st)) = (None, s)"
    and sc: "scanClassFields 0 (m_fieldArray s) (map snd (d_fields d)) (cs_info st, []) = Inr (I1, cfs)"
    and ss: "ss = set_offsets (cs_slots st) (drop (length (iface_hdrs (d_bases d))) (m_baseTypeList s))"
    and v: "layoutVirtualMembers ss I1 = Inr I2" and c: "c = snd (calcLayoutTo E False (class_struct d s))"
    and D: "D = DType (I2\<lparr>ci_layout_ok := True, ci_iface := s, ci_gcRoot := (ci_gcRoot I2 \<or> m_classGcRoot s),
       ci_opaqueNonCreatable := (ci_opaqueNonCreatable I2 \<or> m_classNonCreatable s),
       ci_size := m_size c, ci_alignment := m_alignment c\<rparr>) ss (d_unnamed d) cfs"
    using calcClassLayout_parts [OF L] .
  have based: "based (d_info d) (iface_hdrs (d_bases d)) (d_bases d) st"
    by (rule layoutClassBases_based [OF b]) (use m in \<open>simp_all add: members_ok_def\<close>)
  have ifb: "cs_ifaceBases st = iface_types (d_bases d)" and types: "map sl_type (cs_slots st) = d_bases d"
    using based by (simp_all add: based_def iface_types_def)
  have "length (m_baseTypeList s) = length (iface_types (d_bases d))"
    using iface_layout(1) [OF E f s [unfolded ifb]] by (metis length_map)
  moreover have "length (cs_slots st) = length (d_bases d)" using types by (metis length_map)
  ultimately have len: "length (cs_slots st) = length (drop (length (iface_hdrs (d_bases d))) (m_baseTypeList s))"
    by (simp add: iface_types_def)
  have fr: "same_members I1 (cs_info st)" "ci_vtable I1 = ci_vtable (cs_info st)"
    "ci_vtableStruct I1 = ci_vtableStruct (cs_info st)" "cfs = class_fields_of (m_fieldArray s) (map snd (d_fields d))"
    using scanClassFields_frame [OF sc] by simp_all
  have slots: "dt_slots D = ss" using D by simp
  show thesis
    by (rule that [of s st I1 I2 c]) (use s ifb based ss len fr v c D slots in
      \<open>auto simp: based_def getVtableStructType_def intro: same_members_trans\<close>)
qed

lemma built_struct_inv:
  assumes "\<not> dt_class D" and "sigs_ok (subtypes D)" and "no_virtual D"
    and "\<And>s. s \<in> set (dt_slots D) \<Longrightarrow> \<not> dt_class (sl_type s) \<and> tables_ok (sl_type s)"
  shows "class_inv D"
proof -
  obtain I ss us cs where D: "D = DType I ss us cs" by (cases D)
  have "tables_ok D"
    unfolding tables_ok_def D subtypes_class using assms(1,4) D by (auto simp: tables_ok_def)
  moreover have "items_ok D" using assms(3) unfolding items_ok_def no_virtual_def by blast
  ultimately show ?thesis using assms(1,2) by (simp add: class_inv_def)
qed

text \<open>The table is the one that the functions of the class determine.\<close>

definition table_done :: "dtype \<Rightarrow> bool" where
  "table_done D \<longleftrightarrow> dt_vtable D = override_table D (virtual_indices (dt_info D)) (ci_overrideMethodArray (dt_info D))"

lemma virtual_indices_cong:
  assumes "map no_index (ci_virtualPropertyArray I) = map no_index (ci_virtualPropertyArray J)"
    and "ci_virtualMethodArray I = ci_virtualMethodArray J"
  shows "virtual_indices I = virtual_indices J"
proof -
  have "map prop_vtable ps = map prop_vtable (map no_index ps)" for ps by simp
  then show ?thesis using assms by (metis virtual_indices_def)
qed

lemma built_class_inv:
  assumes E: "align_ok (e_align E)" and bases: "\<And>B. B \<in> set (d_bases d) \<Longrightarrow> class_inv B"
    and m: "members_ok (d_info d)" and b: "bases_ok d" and f: "decl_fields_ok d"
    and L: "calcClassLayout E d = Inr D"
  shows "class_inv D \<and> dt_class D \<and> map sl_type (dt_slots D) = d_bases d \<and> dt_signature D = ci_signature (d_info d) \<and>
    table_done D"
proof -
  obtain s st I1 I2 c where "calcLayoutTo E False (iface_struct d (iface_types (d_bases d))) = (None, s)"
    and P: "based (d_info d) (iface_hdrs (d_bases d)) (d_bases d) st"
      "dt_slots D = set_offsets (cs_slots st) (drop (length (iface_hdrs (d_bases d))) (m_baseTypeList s))"
      "length (cs_slots st) = length (drop (length (iface_hdrs (d_bases d))) (m_baseTypeList s))"
      "same_members I1 (d_info d)" "ci_vtable I1 = base_table (cs_slots st)"
      "getVtableStructType I1 = getVtableStructType (cs_info st)" "layoutVirtualMembers (dt_slots D) I1 = Inr I2"
    and "c = snd (calcLayoutTo E False (class_struct d s))"
    and D: "D = DType (I2\<lparr>ci_layout_ok := True, ci_iface := s, ci_gcRoot := (ci_gcRoot I2 \<or> m_classGcRoot s),
       ci_opaqueNonCreatable := (ci_opaqueNonCreatable I2 \<or> m_classNonCreatable s),
       ci_size := m_size c, ci_alignment := m_alignment c\<rparr>) (dt_slots D) (d_unnamed d)
       (class_fields_of (m_fieldArray s) (map snd (d_fields d)))"
    using class_layout [OF E f m L] .
  let ?ss = "dt_slots D" and ?J = "d_info d"
  note O' = set_offsets_types [OF P(3), folded P(2)]
  have types: "map sl_type ?ss = d_bases d" using O'(1) P(1) by (simp add: based_def)
  then have set: "sl_type ` set ?ss = set (d_bases d)" by (metis set_map)
  have reg: "regions ?ss 0" using regions_cong [OF O'(1,2)] P(1) by (simp add: based_def)
  have tbl: "ci_vtable I1 = base_table ?ss" using P(5) base_table_cong [OF O'(1)] by simp
  have n: "getVtableStructType I1 = base_count ?ss"
    using P(1,6) base_count_cong [OF O'(1)] bases unfolding based_def class_inv_def by simp
  have inv: "class_inv (sl_type t)" if "t \<in> set ?ss" for t using bases set that by blast
  have un: "(\<Union>t\<in>set ?ss. subtypes (sl_type t)) = (\<Union>B\<in>set (d_bases d). subtypes B)"
    unfolding set [symmetric] by simp
  have "ci_class ?J" using m by (simp add: members_ok_def)
  moreover have "\<forall>t\<in>set ?ss. \<forall>C\<in>subtypes (sl_type t). dt_signature C \<noteq> ci_signature ?J"
    using b set unfolding bases_ok_def by blast
  ultimately have ok: "slots_ok ?J ?ss"
    using b reg inv unfolding slots_ok_def un bases_ok_def class_inv_def by blast
  have "vm_inv ?J ?ss {} I1"
    by (rule vm_inv_start [OF ok tbl n P(4)]) (use inv in \<open>simp add: class_inv_def\<close>)
  moreover have "?J\<lparr>ci_vtable := [], ci_vtableStruct := None\<rparr> = ?J" using m by (simp add: members_ok_def)
  ultimately have v: "vm_inv ?J ?ss (set (virtual_indices ?J) \<union> set (ci_overrideMethodArray ?J)) I2"
    and tbl2: "table_is ?ss (virtual_indices ?J) (ci_overrideMethodArray ?J) I2"
    using layoutVirtualMembers_inv [OF _ ok _ P(4) tbl P(7)] m by simp_all
  have "class_inv (DType (I2\<lparr>ci_layout_ok := True, ci_iface := s, ci_gcRoot := (ci_gcRoot I2 \<or> m_classGcRoot s),
       ci_opaqueNonCreatable := (ci_opaqueNonCreatable I2 \<or> m_classNonCreatable s),
       ci_size := m_size c, ci_alignment := m_alignment c\<rparr>) ?ss (d_unnamed d)
       (class_fields_of (m_fieldArray s) (map snd (d_fields d))))"
  proof (rule vm_inv_class [OF v ok])
    show "k \<in> set (virtual_indices ?J) \<union> set (ci_overrideMethodArray ?J)"
      if "k < length (ci_functions ?J)" "isVirtual (ci_functions ?J ! k)" for k
      using m that by (simp add: members_ok_def)
    show "k < length (ci_functions ?J)" if "(n, it) \<in> set (ci_items ?J)" "k \<in> set_ns_item it" for n it k
      using m that unfolding members_ok_def by (metis image_eqI snd_conv)
    show "no_virtual U" if "U \<in> set (d_unnamed d)" for U using b that by (simp add: bases_ok_def)
  qed simp_all
  then have "class_inv D" by (simp only: D [symmetric])
  moreover have "ci_signature I2 = ci_signature ?J" "ci_class I2" using v m by (simp_all add: vm_inv_def members_ok_def)
  moreover have "dt_signature D = ci_signature I2" "dt_class D = ci_class I2"
    by (subst D, simp)+
  moreover have "table_done D"
    unfolding table_done_def
  proof -
    have "virtual_indices (dt_info D) = virtual_indices I2" "ci_overrideMethodArray (dt_info D) = ci_overrideMethodArray I2"
      "dt_vtable D = ci_vtable I2" "ci_functions (dt_info D) = ci_functions I2" by (subst D, simp add: virtual_indices_def)+
    moreover have "override_table D = override_table (DType I2 ?ss [] [])"
      using calculation(4) by (intro ext) (cases D, auto intro: override_table_cong)
    ultimately show "dt_vtable D = override_table D (virtual_indices (dt_info D)) (ci_overrideMethodArray (dt_info D))"
      using tbl2 v virtual_indices_cong [of I2 ?J] by (simp add: table_is_def vm_inv_def)
  qed
  ultimately show ?thesis using types by simp
qed

theorem built_inv: "built E D \<Longrightarrow> align_ok (e_align E) \<Longrightarrow> class_inv D"
proof (induction rule: built.induct)
  case (built_struct D)
  then show ?case by (intro built_struct_inv) (auto simp: class_inv_def)
next
  case (built_class d D)
  then show ?case using built_class_inv [of E d D] by simp
qed

lemma built_sub: "built E D \<Longrightarrow> align_ok (e_align E) \<Longrightarrow> sub_path D p C \<Longrightarrow> built E C"
proof (induction p arbitrary: D)
  case (Cons s p)
  have "built E (sl_type s)"
    using Cons.prems(1)
  proof cases
    case built_struct
    then show ?thesis using Cons.prems(3) by simp
  next
    case (built_class d)
    then have "map sl_type (dt_slots D) = d_bases d"
      using built_class_inv [OF Cons.prems(2) built_inv [OF _ Cons.prems(2)]] by blast
    then have "sl_type s \<in> set (d_bases d)" using Cons.prems(3) by (metis image_eqI set_map sub_path.simps(2))
    then show ?thesis using built_class by blast
  qed
  then show ?case using Cons by simp
qed simp

end
