(* ===== verification/ClassOffsets.thy ===== *)
theory ClassOffsets
  imports ClassVirtual
begin

text \<open>
  Where the subobjects of an object are: the interface of every base class and every field of class type
  has a range of its own, and the header of the interface is shared with the first base class only.
\<close>

section \<open>The first base type\<close>

lemma align_zero: "align_ok al \<Longrightarrow> pow2 f \<Longrightarrow> f \<le> 2 ^ 64 \<Longrightarrow> al 0 f = 0"
proof -
  assume a: "align_ok al" "pow2 f" "f \<le> 2 ^ 64"
  then obtain k where "f = 2 ^ k" by (auto simp: pow2_def)
  then have "f dvd al 0 f" "al 0 f < f" using align_okD [OF a(1), of f k 0] a(3) by simp_all
  then show ?thesis by (meson dvd_imp_le linorder_not_less neq0_conv)
qed

lemma layoutBaseTypes_keep:
  "layoutBaseTypes E i n s = (None, s') \<Longrightarrow> j < i \<Longrightarrow> m_baseTypeList s' ! j = m_baseTypeList s ! j"
proof (induction E i n s rule: layoutBaseTypes.induct)
  case (2 E i n s)
  from "2.prems" obtain s1 where s1: "layoutBaseType E i s = (None, s1)"
    and r: "layoutBaseTypes E (Suc i) n s1 = (None, s')"
    by (auto split: prod.splits option.splits)
  have "m_baseTypeList s1 ! j = m_baseTypeList s ! j"
    using "2.prems"(2) by (simp add: layoutBaseType_eq [OF s1])
  then show ?case using "2.IH" [OF s1 [symmetric] refl r] "2.prems"(2) by simp
qed simp

lemma layoutFields_bases:
  "layoutFields E i n s = (None, s') \<Longrightarrow> i + n \<le> length (m_fieldArray s) \<Longrightarrow> m_baseTypeList s' = m_baseTypeList s"
proof (induction E i n s rule: layoutFields.induct)
  case (2 E i n s)
  from "2.prems" obtain s1 where s1: "layoutField E i s = (None, s1)"
    and r: "layoutFields E (Suc i) n s1 = (None, s')"
    by (auto split: prod.splits option.splits)
  have i: "i < length (m_fieldArray s)" using "2.prems"(2) by simp
  note f = layoutField_frame [OF s1 i]
  show ?case using "2.IH" [OF s1 [symmetric] refl r] "2.prems"(2) f(1,2) by simp
qed simp

lemma layoutFields_not_bit:
  "layoutFields E i n s = (None, s') \<Longrightarrow> i + n \<le> length (m_fieldArray s) \<Longrightarrow> j < length (m_fieldArray s) \<Longrightarrow>
    \<not> f_bitField (m_fieldArray s ! j) \<Longrightarrow> f_bitCount (m_fieldArray s ! j) = 0 \<Longrightarrow> \<not> f_bitField (m_fieldArray s' ! j)"
proof (induction E i n s rule: layoutFields.induct)
  case (2 E i n s)
  from "2.prems"(1) obtain s1 where s1: "layoutField E i s = (None, s1)"
    and r: "layoutFields E (Suc i) n s1 = (None, s')"
    by (auto split: prod.splits option.splits)
  have i: "i < length (m_fieldArray s)" using "2.prems"(2) by simp
  note f = layoutField_frame [OF s1 i]
  have "\<not> f_bitField (m_fieldArray s1 ! j) \<and> f_bitCount (m_fieldArray s1 ! j) = 0"
    using "2.prems"(3,4,5) i by (cases rule: layoutField_cases [OF s1 i]; cases "i = j") (simp_all add: plain_field_def)
  then show ?case using "2.IH" [OF s1 [symmetric] refl r] "2.prems"(2,3) f(1) by simp
qed simp

lemma first_base_offset:
  assumes E: "align_ok (e_align E)" and wf: "struct_wf be fa bs fs" and k: "k \<noteq> Adapter"
    and s: "calcLayoutTo E False (new_struct k fa bs fs) = (None, s)" and bs: "bs \<noteq> []"
  shows "b_offset (m_baseTypeList s ! 0) = 0"
proof -
  let ?s0 = "new_struct k fa bs fs"
  have k0: "m_structTypeKind ?s0 = k" by (simp add: new_struct_def)
  obtain s1 where m: "layoutMembers E ?s0 = (None, s1)" and e: "m_baseTypeList s = m_baseTypeList s1"
    by (rule calcLayoutTo_full [OF s, unfolded k0, OF k]) (use layoutMembers_new [OF _ wf E, of k] in auto)
  obtain sb sf where b: "layoutBaseTypes E 0 (length bs) ?s0 = (None, sb)" and fb: "m_fieldArray sb = fs"
    and f: "layoutFields E 0 (length fs) sb = (None, sf)"
    and s1: "s1 = sf\<lparr>m_laidOutFieldCount := length (m_fieldArray sf)\<rparr>"
    by (rule layoutMembers_newE [OF m]) blast
  obtain n where n: "length bs = Suc n" using bs by (cases bs) auto
  from b n obtain sa where a: "layoutBaseType E 0 ?s0 = (None, sa)" and r: "layoutBaseTypes E (Suc 0) n sa = (None, sb)"
    by (auto split: prod.splits option.splits)
  have "m_baseTypeList s ! 0 = m_baseTypeList sa ! 0"
    using layoutBaseTypes_keep [OF r, of 0] layoutFields_bases [OF f] fb e s1 by simp
  also have "\<dots> = placed_slot E (bs ! 0) ?s0"
    using bs by (simp add: layoutBaseType_eq [OF a]) (simp add: new_struct_def)
  finally have "b_offset (m_baseTypeList s ! 0) = e_align E 0 (eff_align fa (b_type (bs ! 0)))"
    by (simp add: placed_slot_def place_off_def new_struct_def)
  moreover have "pow2 (eff_align fa (b_type (bs ! 0)))"
    using wf bs by (intro eff_align_pow2) (auto simp: struct_wf_def)
  moreover have "eff_align fa (b_type (bs ! 0)) \<le> 2 ^ 64"
    using wf by (auto simp: struct_wf_def eff_align_def)
  ultimately show ?thesis using align_zero [OF E] by simp
qed

lemma new_not_bit:
  assumes E: "align_ok (e_align E)" and wf: "struct_wf be fa bs fs" and k: "k \<noteq> Adapter"
    and s: "calcLayoutTo E False (new_struct k fa bs fs) = (None, s)"
    and j: "j < length fs" "f_bitCount (fs ! j) = 0"
  shows "\<not> f_bitField (m_fieldArray s ! j)"
proof -
  let ?s0 = "new_struct k fa bs fs"
  have k0: "m_structTypeKind ?s0 = k" by (simp add: new_struct_def)
  obtain s1 where m: "layoutMembers E ?s0 = (None, s1)" and e: "m_fieldArray s = m_fieldArray s1"
    by (rule calcLayoutTo_full [OF s, unfolded k0, OF k]) (use layoutMembers_new [OF _ wf E, of k] in auto)
  obtain sb sf where fb: "m_fieldArray sb = fs" and f: "layoutFields E 0 (length fs) sb = (None, sf)"
    and s1: "s1 = sf\<lparr>m_laidOutFieldCount := length (m_fieldArray sf)\<rparr>"
    by (rule layoutMembers_newE [OF m]) blast
  have "\<not> f_bitField (fs ! j)" using wf nth_mem [OF j(1)] by (auto simp: struct_wf_def field_wf_def)
  then have "\<not> f_bitField (m_fieldArray sf ! j)" using layoutFields_not_bit [OF f] fb j by simp
  then show ?thesis using e s1 by simp
qed

section \<open>The parts of an object\<close>

definition dt_object_ok :: "dtype \<Rightarrow> bool" where
  "dt_object_ok D \<longleftrightarrow>
     16 \<le> iface_size D \<and> 16 + iface_size D \<le> ci_size (dt_info D) \<and>
     sorted_wrt (\<lambda>s t. sl_offset s + iface_size (sl_type s) \<le> sl_offset t) (dt_slots D) \<and>
     (\<forall>s\<in>set (dt_slots D). sl_offset s + iface_size (sl_type s) \<le> iface_size D \<and>
        (16 \<le> sl_offset s \<or> sl_offset s = 0 \<and> sl_vtableIndex s = 0 \<and> dt_class (sl_type s))) \<and>
     (\<forall>c\<in>set (dt_classFields D). dt_class (cf_type c) \<and> 16 \<le> cf_offset c \<and>
        cf_offset c + ci_size (dt_info (cf_type c)) \<le> iface_size D \<and>
        (\<forall>s\<in>set (dt_slots D). sl_offset s + iface_size (sl_type s) \<le> cf_offset c)) \<and>
     sorted_wrt (\<lambda>c e. cf_offset c + ci_size (dt_info (cf_type c)) \<le> cf_offset e) (dt_classFields D)"

text \<open>A struct of plain members is laid out without errors.\<close>

definition plain_member :: "field \<Rightarrow> bool" where
  "plain_member f \<longleftrightarrow>
     f_attributesReady f \<and> t_layout_ok (f_type f) \<and> \<not> t_class (f_type f) \<and> f_bitCount f = 0"

lemma layoutField_plain: "plain_member (m_fieldArray s ! i) \<Longrightarrow> \<exists>s'. layoutField E i s = (None, s')"
  by (cases "layoutFieldImpl E (f_type (m_fieldArray s ! i)) (f_llvmIndex (m_fieldArray s ! i)) s")
    (simp add: plain_member_def layoutField_def Let_def)

lemma layoutFields_plain:
  "(\<And>j. i \<le> j \<Longrightarrow> j < i + n \<Longrightarrow> plain_member (m_fieldArray s ! j)) \<Longrightarrow> i + n \<le> length (m_fieldArray s) \<Longrightarrow>
    \<exists>s'. layoutFields E i n s = (None, s') \<and> m_structTypeKind s' = m_structTypeKind s"
proof (induction n arbitrary: i s)
  case (Suc n)
  have i: "i < length (m_fieldArray s)" and pl: "plain_member (m_fieldArray s ! i)" using Suc.prems by simp_all
  then obtain s1 where s1: "layoutField E i s = (None, s1)" using layoutField_plain by blast
  note f = layoutField_frame [OF s1 i]
  have "m_fieldArray s1 ! j = m_fieldArray s ! j" if "j \<noteq> i" for j
    using pl that by (cases rule: layoutField_cases [OF s1 i]) (simp_all add: plain_member_def)
  then have "\<exists>s'. layoutFields E (Suc i) n s1 = (None, s') \<and> m_structTypeKind s' = m_structTypeKind s1"
    using Suc.prems f(1) by (intro Suc.IH) simp_all
  then show ?case using s1 f(4) by auto
qed simp

text \<open>The struct of the class holds the box and the interface.\<close>

lemma class_struct_size:
  assumes E: "align_ok (e_align E)" and ns: "e_namespaceReady E" and fa: "pow2 (d_fieldAlignment d)"
    and al: "pow2 (m_alignment s)" and fits: "m_size s + 4 * d_fieldAlignment d + 16 < 2 ^ 64"
  shows "16 + m_size s \<le> m_size (snd (calcLayoutTo E False (class_struct d s)))"
proof -
  let ?fs = "[new_field (hdr_ty ''jnc.Box'') 0 False, new_field (struct_ty ''!Iface'' s) 0 False]"
  let ?c = "snd (calcLayoutTo E False (class_struct d s))"
  let ?s0 = "class_struct d s"
  have f0: "m_fieldArray ?s0 = ?fs" "m_structTypeKind ?s0 = ClassStruct" "m_baseTypeList ?s0 = []"
    "m_laidOutFieldCount ?s0 = 0" by (simp_all add: class_struct_def new_struct_def)
  have "\<exists>s1. layoutFields E 0 2 ?s0 = (None, s1) \<and> m_structTypeKind s1 = m_structTypeKind ?s0"
  proof (rule layoutFields_plain)
    fix j :: nat
    assume "0 \<le> j" "j < 0 + 2"
    then consider "j = 0" | "j = 1" by linarith
    then show "plain_member (m_fieldArray ?s0 ! j)"
      by cases (simp_all add: f0 plain_member_def new_field_def hdr_ty_def struct_ty_def)
  qed (simp add: f0)
  then obtain s1 where s1: "layoutFields E 0 2 ?s0 = (None, s1)" "m_structTypeKind s1 = ClassStruct"
    using f0 by auto
  have "layoutMembers E ?s0 = (None, s1\<lparr>m_laidOutFieldCount := length (m_fieldArray s1)\<rparr>)"
    using ns f0 s1(1) by (simp add: layoutMembers_def numeral_2_eq_2)
  then have ok: "fst (calcLayoutTo E False ?s0) = None"
    using s1(2) by (simp add: calcLayoutTo_def layoutByKind_def)
  then have c: "calcLayoutTo E False (new_struct ClassStruct (d_fieldAlignment d) [] ?fs) = (None, ?c)"
    by (metis class_struct_def prod.collapse)
  have wf: "struct_wf False (d_fieldAlignment d) [] ?fs"
    using fa al fits pow2_def [of 8] by (auto simp: struct_wf_def field_wf_def sig_inj_def costs_def new_field_def
        hdr_ty_def struct_ty_def intro: exI [of _ 3])
  note C = calcLayoutTo_new [OF E wf _ c, simplified]
  obtain b f where bf: "m_fieldArray ?c = [b, f]" "f_type b = hdr_ty ''jnc.Box''" "f_type f = struct_ty ''!Iface'' s"
    using C(2) by (auto simp: new_field_def map_eq_Cons_conv)
  have bits: "f_bitCount b = 0" "f_bitCount f = 0" using C(3) bf by (simp_all add: new_field_def)
  have "sep b f" "f_end f \<le> m_size ?c" using C(7,8) bf by (auto simp: fields_inv_def fits_def sorted_wrt_append)
  moreover have "\<not> same_unit b f" using bf by (simp add: same_unit_def hdr_ty_def struct_ty_def)
  ultimately show ?thesis using bf by (simp add: sep_def f_end_def hdr_ty_def struct_ty_def)
qed

lemma class_fields_of_member:
  "ClassField C off \<in> set (class_fields_of fs cs) \<Longrightarrow>
    \<exists>i. i < length fs \<and> i < length cs \<and> cs ! i = Some C \<and> f_offset (fs ! i) = off"
proof (induction fs cs rule: class_fields_of.induct)
  case (1 f fs cs)
  then obtain i where "i < length fs \<and> i < length cs \<and> cs ! i = Some C \<and> f_offset (fs ! i) = off" by auto
  then show ?case by (intro exI [of _ "Suc i"]) simp
next
  case (2 f fs B cs)
  show ?case
  proof (cases "C = B \<and> off = f_offset f")
    case True
    then show ?thesis by (intro exI [of _ 0]) simp
  next
    case False
    then obtain i where "i < length fs \<and> i < length cs \<and> cs ! i = Some C \<and> f_offset (fs ! i) = off"
      using 2 by auto
    then show ?thesis by (intro exI [of _ "Suc i"]) simp
  qed
qed simp_all

lemma class_fields_of_sorted:
  "sorted_wrt sep fs \<Longrightarrow>
    (\<And>i C. i < length fs \<Longrightarrow> i < length cs \<Longrightarrow> cs ! i = Some C \<Longrightarrow> f_type (fs ! i) = class_ty C \<and> \<not> f_bitField (fs ! i)) \<Longrightarrow>
    sorted_wrt (\<lambda>c e. cf_offset c + ci_size (dt_info (cf_type c)) \<le> cf_offset e) (class_fields_of fs cs)"
proof (induction fs cs rule: class_fields_of.induct)
  case (1 f fs cs)
  then show ?case using "1.prems"(2) [of "Suc _"] by simp
next
  case (2 f fs C cs)
  have f: "f_type f = class_ty C" "\<not> f_bitField f" using "2.prems"(2) [of 0] by simp_all
  have "cf_offset (ClassField C (f_offset f)) + ci_size (dt_info C) \<le> cf_offset e" if e: "e \<in> set (class_fields_of fs cs)" for e
  proof -
    obtain B off where B: "e = ClassField B off" by (cases e)
    then obtain i where i: "i < length fs" "f_offset (fs ! i) = off" using class_fields_of_member e by blast
    then have "sep f (fs ! i)" using "2.prems"(1) by simp
    then show ?thesis using f i(2) B by (auto simp: sep_def same_unit_def f_end_def class_ty_def)
  qed
  then show ?case using 2 "2.prems"(2) [of "Suc _"] by simp
qed simp_all

lemma calcLayoutTo_ready: "calcLayoutTo E False (new_struct k fa bs fs) = (None, s) \<Longrightarrow> e_namespaceReady E"
  by (auto simp: calcLayoutTo_def layoutMembers_def new_struct_def split: prod.splits option.splits if_splits)

text \<open>The ranges of the members of the interface struct: the first base type starts at \<open>0\<close> and holds a header,
  the others and the fields come after it.\<close>

lemma iface_ranges:
  assumes E: "align_ok (e_align E)" and f: "decl_fields_ok d"
    and S: "calcLayoutTo E False (iface_struct d (iface_types (d_bases d))) = (None, s)"
    and bases: "\<forall>B\<in>set (d_bases d). dt_class B \<longrightarrow> 16 \<le> iface_size B"
  defines "bl \<equiv> m_baseTypeList s"
  shows "sorted_wrt (\<lambda>x y. b_end x \<le> b_offset y) bl" and "b \<in> set bl \<Longrightarrow> b_end b \<le> m_size s"
    and "b \<in> set bl \<Longrightarrow> g \<in> set (m_fieldArray s) \<Longrightarrow> b_end b \<le> f_offset g"
    and "g \<in> set (m_fieldArray s) \<Longrightarrow> f_end g \<le> m_size s"
    and "bl \<noteq> []" and "b_offset (bl ! 0) = 0" and "16 \<le> b_end (bl ! 0)"
proof -
  note L' = iface_layout [OF E f S, folded bl_def]
  obtain be where wf: "struct_wf be (d_fieldAlignment d) (map new_slot (iface_types (d_bases d))) (map fst (d_fields d))"
    using f by (auto simp: decl_fields_ok_def)
  have bt: "map b_type bl = iface_hdrs (d_bases d) @ map iface_ty (d_bases d)" using L'(1) by (simp add: iface_types_def)
  have "sorted_wrt sep (map slot_field bl @ m_fieldArray s)" using L'(5) by (simp add: fields_inv_def)
  then show "sorted_wrt (\<lambda>x y. b_end x \<le> b_offset y) bl"
    and "b \<in> set bl \<Longrightarrow> g \<in> set (m_fieldArray s) \<Longrightarrow> b_end b \<le> f_offset g"
    by (auto simp: sorted_wrt_append sorted_wrt_map sep_def same_unit_def)
  have ends: "f_end x \<le> m_size s" if "x \<in> set (map slot_field bl @ m_fieldArray s)" for x
    using L'(4,5) that unfolding fields_inv_def fits_def by (meson le_trans)
  show "b \<in> set bl \<Longrightarrow> b_end b \<le> m_size s" and "g \<in> set (m_fieldArray s) \<Longrightarrow> f_end g \<le> m_size s"
    using ends [of "slot_field b"] ends [of g] by simp_all
  show ne: "bl \<noteq> []" using bt by (cases "d_bases d") (auto simp: iface_hdrs_def needs_hdr_def)
  show "b_offset (bl ! 0) = 0"
    using first_base_offset [OF E wf _ S [unfolded iface_struct_def]] unfolding bl_def
    by (auto simp: iface_types_def iface_hdrs_def needs_hdr_def split: list.splits if_splits)
  show "16 \<le> b_end (bl ! 0)"
  proof (cases "needs_hdr (d_bases d)")
    case True
    then have "b_type (bl ! 0) = hdr_ty ''jnc.IfaceHdr''"
      using arg_cong [OF bt, of "\<lambda>xs. xs ! 0"] ne by (simp add: iface_hdrs_def)
    then show ?thesis by (simp add: b_end_def hdr_ty_def)
  next
    case False
    then obtain B Cs where B: "d_bases d = B # Cs" "dt_class B" by (cases "d_bases d") (auto simp: needs_hdr_def)
    then have "b_type (bl ! 0) = iface_ty B"
      using arg_cong [OF bt, of "\<lambda>xs. xs ! 0"] ne False by (simp add: iface_hdrs_def)
    then show ?thesis using bases B by (simp add: b_end_def iface_ty_def struct_ty_def iface_size_def)
  qed
qed

text \<open>The slots of the class are those base types of the interface struct that follow the header.\<close>

lemma slots_of_iface:
  assumes bt: "map b_type bl = hdrs @ map iface_ty (map sl_type ss)"
    and offs: "map sl_offset ss = map b_offset (drop (length hdrs) bl)"
  shows "length bl = length hdrs + length ss"
    and "i < length ss \<Longrightarrow> sl_offset (ss ! i) = b_offset (bl ! (length hdrs + i))"
    and "i < length ss \<Longrightarrow> sl_offset (ss ! i) + iface_size (sl_type (ss ! i)) = b_end (bl ! (length hdrs + i))"
proof -
  show len: "length bl = length hdrs + length ss" using arg_cong [OF bt, of length] by simp
  show o: "sl_offset (ss ! i) = b_offset (bl ! (length hdrs + i))" if "i < length ss"
    using arg_cong [OF offs, of "\<lambda>xs. xs ! i"] that len by simp
  assume i: "i < length ss"
  have "b_type (bl ! (length hdrs + i)) = iface_ty (sl_type (ss ! i))"
    using arg_cong [OF bt, of "\<lambda>xs. xs ! (length hdrs + i)"] i len by (simp add: nth_append)
  then show "sl_offset (ss ! i) + iface_size (sl_type (ss ! i)) = b_end (bl ! (length hdrs + i))"
    using o [OF i] by (simp add: b_end_def iface_ty_def struct_ty_def iface_size_def)
qed

lemma class_object_ok:
  assumes E: "align_ok (e_align E)" and f: "decl_fields_ok d" and m: "members_ok (d_info d)"
    and L: "calcClassLayout E d = Inr D" and fits: "class_fits d D"
    and bases: "\<forall>B\<in>set (d_bases d). dt_class B \<longrightarrow> 16 \<le> iface_size B"
  shows "dt_object_ok D"
proof -
  obtain s st I1 I2 c where S: "calcLayoutTo E False (iface_struct d (iface_types (d_bases d))) = (None, s)"
    and P: "based (d_info d) (iface_hdrs (d_bases d)) (d_bases d) st"
      "dt_slots D = set_offsets (cs_slots st) (drop (length (iface_hdrs (d_bases d))) (m_baseTypeList s))"
      "length (cs_slots st) = length (drop (length (iface_hdrs (d_bases d))) (m_baseTypeList s))"
    and "same_members I1 (d_info d)" "ci_vtable I1 = base_table (cs_slots st)"
      "getVtableStructType I1 = getVtableStructType (cs_info st)" "layoutVirtualMembers (dt_slots D) I1 = Inr I2"
    and c: "c = snd (calcLayoutTo E False (class_struct d s))"
    and D: "D = DType (I2\<lparr>ci_layout_ok := True, ci_iface := s, ci_gcRoot := (ci_gcRoot I2 \<or> m_classGcRoot s),
       ci_opaqueNonCreatable := (ci_opaqueNonCreatable I2 \<or> m_classNonCreatable s),
       ci_size := m_size c, ci_alignment := m_alignment c\<rparr>) (dt_slots D) (d_unnamed d)
       (class_fields_of (m_fieldArray s) (map snd (d_fields d)))"
    using class_layout [OF E f m L] .
  let ?ss = "dt_slots D" and ?Bs = "d_bases d" and ?bl = "m_baseTypeList s" and ?hs = "iface_hdrs (d_bases d)"
  have size: "iface_size D = m_size s" "ci_size (dt_info D) = m_size c" by (subst D, simp add: iface_size_def)+
  have cfs: "dt_classFields D = class_fields_of (m_fieldArray s) (map snd (d_fields d))" by (subst D) simp
  note O' = set_offsets_types [OF P(3), folded P(2)]
  have types: "map sl_type ?ss = ?Bs" using O'(1) P(1) by (simp add: based_def)
  have reg: "regions ?ss 0" using regions_cong [OF O'(1,2)] P(1) by (simp add: based_def)
  note L' = iface_layout [OF E f S] and R = iface_ranges [OF E f S bases]
  have bt: "map b_type ?bl = ?hs @ map iface_ty (map sl_type ?ss)" using L'(1) by (simp add: iface_types_def types)
  note slot = slots_of_iface [OF bt O'(3)]
  have "sorted_wrt (\<lambda>s t. sl_offset s + iface_size (sl_type s) \<le> sl_offset t) ?ss"
    unfolding sorted_wrt_iff_nth_less using slot sorted_wrt_nth_less [OF R(1)] by simp
  moreover have "sl_offset t + iface_size (sl_type t) \<le> iface_size D \<and>
      (16 \<le> sl_offset t \<or> sl_offset t = 0 \<and> sl_vtableIndex t = 0 \<and> dt_class (sl_type t))" if "t \<in> set ?ss" for t
  proof -
    from that obtain i where i: "i < length ?ss" "t = ?ss ! i" by (auto simp: in_set_conv_nth)
    have "16 \<le> sl_offset t \<or> sl_offset t = 0 \<and> sl_vtableIndex t = 0 \<and> dt_class (sl_type t)"
    proof (cases "length ?hs + i = 0")
      case False
      then show ?thesis using R(7) sorted_wrt_nth_less [OF R(1), of 0 "length ?hs + i"] slot(1,2) i by fastforce
    next
      case True
      then have "\<not> needs_hdr ?Bs" by (auto simp: iface_hdrs_def split: if_splits)
      then obtain t' us where us: "?ss = t' # us" "dt_class (sl_type t')"
        using types by (cases ?ss) (auto simp: needs_hdr_def split: list.splits)
      then have "t = t'" using True i by simp
      then show ?thesis using reg us slot(2) [OF i(1)] R(6) True i by simp
    qed
    then show ?thesis using slot(1,3) i R(2) [of "?bl ! (length ?hs + i)"] size by simp
  qed
  moreover have "dt_class (cf_type g) \<and> 16 \<le> cf_offset g \<and> cf_offset g + ci_size (dt_info (cf_type g)) \<le> iface_size D \<and>
      (\<forall>t\<in>set ?ss. sl_offset t + iface_size (sl_type t) \<le> cf_offset g)" if g: "g \<in> set (dt_classFields D)" for g
  proof -
    obtain C off where gC: "g = ClassField C off" by (cases g)
    have "ClassField C off \<in> set (class_fields_of (m_fieldArray s) (map snd (d_fields d)))" using g gC cfs by simp
    from class_fields_of_member [OF this] obtain i where
      i: "i < length (m_fieldArray s)" "i < length (d_fields d)" "snd (d_fields d ! i) = Some C" "f_offset (m_fieldArray s ! i) = off"
      by auto
    let ?g = "m_fieldArray s ! i"
    obtain a where a: "d_fields d ! i = (a, Some C)" using i(3) by (cases "d_fields d ! i") auto
    then have "(a, Some C) \<in> set (d_fields d)" using nth_mem [OF i(2)] by simp
    then have dc: "f_type a = class_ty C" "dt_class C" using f unfolding decl_fields_ok_def by fastforce+
    have "f_type ?g = f_type a" using arg_cong [OF L'(2), of "\<lambda>xs. xs ! i"] i a by simp
    also note dc(1)
    finally have e: "f_end ?g = off + ci_size (dt_info C)" using i(4) by (simp add: f_end_def class_ty_def)
    have gm: "?g \<in> set (m_fieldArray s)" using i(1) by simp
    have "sl_offset t + iface_size (sl_type t) \<le> off" if "t \<in> set ?ss" for t
    proof -
      from that obtain j where j: "j < length ?ss" "t = ?ss ! j" by (auto simp: in_set_conv_nth)
      then show ?thesis using slot(1,3) R(3) [OF _ gm, of "?bl ! (length ?hs + j)"] i(4) by simp
    qed
    moreover have "16 \<le> off" using R(3) [OF _ gm, of "?bl ! 0"] R(5,7) i(4) by simp
    ultimately show ?thesis using gC dc e R(4) [OF gm] size by simp
  qed
  moreover have "sorted_wrt (\<lambda>c e. cf_offset c + ci_size (dt_info (cf_type c)) \<le> cf_offset e) (dt_classFields D)"
    unfolding cfs
  proof (rule class_fields_of_sorted)
    show "sorted_wrt sep (m_fieldArray s)" using L'(5) by (simp add: fields_inv_def sorted_wrt_append)
    fix i C
    assume i: "i < length (m_fieldArray s)" "i < length (map snd (d_fields d))" "map snd (d_fields d) ! i = Some C"
    then obtain a where a: "d_fields d ! i = (a, Some C)" by (cases "d_fields d ! i") auto
    then have "(a, Some C) \<in> set (d_fields d)" using nth_mem [of i "d_fields d"] i(2) by simp
    then have dc: "f_type a = class_ty C" "f_bitCount a = 0" using f unfolding decl_fields_ok_def by fastforce+
    have "f_type (m_fieldArray s ! i) = f_type a" using arg_cong [OF L'(2), of "\<lambda>xs. xs ! i"] i a by simp
    moreover have "\<not> f_bitField (m_fieldArray s ! i)"
    proof -
      obtain be where wf: "struct_wf be (d_fieldAlignment d) (map new_slot (iface_types ?Bs)) (map fst (d_fields d))"
        using f by (auto simp: decl_fields_ok_def)
      show ?thesis by (rule new_not_bit [OF E wf _ S [unfolded iface_struct_def]]) (use i a dc in simp_all)
    qed
    ultimately show "f_type (m_fieldArray s ! i) = class_ty C \<and> \<not> f_bitField (m_fieldArray s ! i)" using dc by simp
  qed
  moreover have "16 \<le> iface_size D" using R(2) [of "?bl ! 0"] R(5,7) size by simp
  moreover have "16 + iface_size D \<le> ci_size (dt_info D)"
  proof -
    obtain be where wf: "struct_wf be (d_fieldAlignment d) (map new_slot (iface_types ?Bs)) (map fst (d_fields d))"
      using f by (auto simp: decl_fields_ok_def)
    note s = S [unfolded iface_struct_def]
    show ?thesis unfolding size c
      by (rule class_struct_size [OF E calcLayoutTo_ready [OF s] _ calcLayoutTo_new(6) [OF E wf _ s]])
        (use calcLayoutTo_new(5) [OF E wf _ s] fits size in \<open>simp_all add: class_fits_def\<close>)
  qed
  ultimately show ?thesis unfolding dt_object_ok_def by blast
qed

lemma built_object: "built E D \<Longrightarrow> align_ok (e_align E) \<Longrightarrow> dt_class D \<Longrightarrow> dt_object_ok D"
proof (induction rule: built.induct)
  case (built_class d D)
  then show ?case using class_object_ok [of E d D] by (simp add: dt_object_ok_def)
qed simp

end
