(* ===== verification/ClassPrime.thy ===== *)
theory ClassPrime
  imports ClassOffsets
begin

text \<open>
  Priming an object gives every interface in it the part of the table of virtual methods that belongs to
  its path, and a virtual call through any of them runs a method with its own \<^verbatim>\<open>this\<close>.
\<close>

section \<open>Ranges written by priming\<close>

lemma vtable_add_simps [simp]:
  "vtable_add vt 0 = vt" "vtable_add (vtable_add vt m) n = vtable_add vt (m + n)"
  by (cases vt; simp add: vtable_add_def split: prod.splits)+

definition untouched :: "int set \<Rightarrow> headers \<Rightarrow> headers \<Rightarrow> bool" where
  "untouched A h h' \<longleftrightarrow> (\<forall>x. x \<notin> A \<longrightarrow> h_vtable h' x = h_vtable h x \<and> h_box h' x = h_box h x)"

abbreviation range_at :: "int \<Rightarrow> nat \<Rightarrow> int set" where
  "range_at a n \<equiv> {a ..< a + int n}"

lemma untouched_refl: "untouched A h h"
  by (simp add: untouched_def)

lemma untouched_trans: "untouched A g h \<Longrightarrow> untouched A h k \<Longrightarrow> untouched A g k"
  by (simp add: untouched_def)

lemma untouched_mono: "untouched A g h \<Longrightarrow> A \<subseteq> B \<Longrightarrow> untouched B g h"
  by (auto simp: untouched_def)

lemma untouchedD: "untouched A h h' \<Longrightarrow> x \<notin> A \<Longrightarrow> h_vtable h' x = h_vtable h x \<and> h_box h' x = h_box h x"
  by (simp add: untouched_def)

lemma prime_box_untouched: "untouched (range_at box (ci_size (dt_info D))) h (prime_box box root D h)"
  by (auto simp: untouched_def prime_box_def memset_zero_def clear_range_def Let_def)

lemma set_iface_untouched: "untouched {a} h (set_iface box a vt h)"
  by (simp add: untouched_def set_iface_def)

text \<open>Objects whose parts, base classes and embedded objects, are laid out.\<close>

inductive object_tree :: "dtype \<Rightarrow> bool" where
  "(dt_class D \<Longrightarrow> dt_object_ok D) \<Longrightarrow> (\<And>s. s \<in> set (dt_slots D) \<Longrightarrow> object_tree (sl_type s)) \<Longrightarrow>
   (\<And>c. dt_class D \<Longrightarrow> c \<in> set (dt_classFields D) \<Longrightarrow> object_tree (cf_type c)) \<Longrightarrow> object_tree D"

inductive_cases object_treeE: "object_tree D"

lemma object_tree_path: "object_tree D \<Longrightarrow> sub_path D p C \<Longrightarrow> object_tree C"
  by (induction p arbitrary: D) (auto elim: object_treeE)

lemma primeIface_untouched:
  shows "object_tree D \<Longrightarrow> dt_class D \<Longrightarrow> untouched (range_at a (iface_size D)) h (primeIface V box root a D vt h)"
  and "(\<forall>s\<in>set ss. object_tree (sl_type s) \<and> sl_offset s + iface_size (sl_type s) \<le> n) \<Longrightarrow>
    untouched (range_at a n) h (primeBases V box root a ss vt h)"
  and "(\<forall>c\<in>set cs. object_tree (cf_type c) \<and> dt_class (cf_type c) \<and>
      m \<le> cf_offset c \<and> cf_offset c + ci_size (dt_info (cf_type c)) \<le> n) \<Longrightarrow>
    untouched {a + int m ..< a + int n} h (primeFields V root a cs h)"
proof (induction V box root a D vt h and V box root a ss vt h and V root a cs h
    arbitrary: and n and m n rule: primeIface_primeBases_primeFields.induct)
  case (1 V box root a I ss us cs vt h)
  let ?D = "DType I ss us cs"
  have ok: "dt_object_ok ?D" and s: "\<And>s. s \<in> set ss \<Longrightarrow> object_tree (sl_type s)"
    and c: "\<And>c. c \<in> set cs \<Longrightarrow> object_tree (cf_type c)"
    using 1(3,4) by (auto elim: object_treeE)
  have "untouched (range_at a (iface_size ?D)) h (set_iface box a vt h)"
    by (rule untouched_mono [OF set_iface_untouched]) (use ok in \<open>simp add: dt_object_ok_def\<close>)
  also have "untouched (range_at a (iface_size ?D)) (set_iface box a vt h) (primeBases V box root a ss vt (set_iface box a vt h))"
    by (rule 1(1)) (use s ok in \<open>simp add: dt_object_ok_def\<close>)
  note b = untouched_trans [OF calculation this]
  have "untouched {a + int 0 ..< a + int (iface_size ?D)} (primeBases V box root a ss vt (set_iface box a vt h))
      (primeFields V root a cs (primeBases V box root a ss vt (set_iface box a vt h)))"
    by (rule 1(2)) (use c ok in \<open>simp add: dt_object_ok_def\<close>)
  then have "untouched (range_at a (iface_size ?D)) (primeBases V box root a ss vt (set_iface box a vt h))
      (primeFields V root a cs (primeBases V box root a ss vt (set_iface box a vt h)))" by simp
  from untouched_trans [OF b this] show ?case by simp
next
  case (3 V box root a B off v ss vt h)
  let ?h = "if dt_class B then primeIface V box root (a + int off) B (vtable_add vt v) h else h"
  have "untouched (range_at a n) h ?h"
  proof (cases "dt_class B")
    case True
    have "untouched (range_at (a + int off) (iface_size B)) h ?h" using 3(1) True 3(3) by simp
    then show ?thesis by (rule untouched_mono) (use 3(3) in auto)
  qed (simp add: untouched_refl)
  also have "untouched (range_at a n) ?h (primeBases V box root a ss vt ?h)" by (rule 3(2)) (use 3(3) in simp)
  note untouched_trans [OF calculation this]
  then show ?case by (simp only: primeBases.simps)
next
  case (5 V root a C off cs h)
  let ?box = "a + int off"
  let ?h = "prime_box ?box root C h" and ?A = "{a + int m ..< a + int n}"
  let ?g = "primeIface V ?box root (?box + 16) C (own_vtable V C) ?h"
  have C: "object_tree C" "dt_class C" "m \<le> off" "off + ci_size (dt_info C) \<le> n" using 5(3) by simp_all
  then have ok: "16 + iface_size C \<le> ci_size (dt_info C)" by (auto simp: dt_object_ok_def elim: object_treeE)
  have u: "untouched ?A h ?h" by (rule untouched_mono [OF prime_box_untouched]) (use C in auto)
  have v: "untouched ?A ?h ?g"
    by (rule untouched_mono [OF 5(1) [OF C(1,2)]]) (use C ok in auto)
  have w: "untouched ?A ?g (primeFields V root a cs ?g)" by (rule 5(2)) (use 5(3) in simp)
  show ?case using untouched_trans [OF untouched_trans [OF u v] w] by (simp only: primeFields.simps)
qed (simp_all add: untouched_refl)

section \<open>Headers after priming\<close>

lemma primeBases_append:
  "primeBases V box root a (ss @ ts) vt h = primeBases V box root a ts vt (primeBases V box root a ss vt h)"
proof (induction ss arbitrary: h)
  case (Cons s ss)
  then show ?case by (cases s) simp
qed simp

lemma primeFields_append:
  "primeFields V root a (cs @ ds) h = primeFields V root a ds (primeFields V root a cs h)"
proof (induction cs arbitrary: h)
  case (Cons c cs)
  then show ?case by (cases c) simp
qed simp

lemma primeBases_later:
  assumes "\<forall>s\<in>set ss. object_tree (sl_type s) \<and> k \<le> sl_offset s"
  shows "x < a + int k \<Longrightarrow> h_vtable (primeBases V box root a ss vt h) x = h_vtable h x \<and>
    h_box (primeBases V box root a ss vt h) x = h_box h x"
  using assms
proof (induction ss arbitrary: h)
  case (Cons s ss)
  obtain B off v where s: "s = Slot B off v" by (cases s)
  have "untouched (range_at (a + int off) (iface_size B)) h
      (if dt_class B then primeIface V box root (a + int off) B (vtable_add vt v) h else h)"
    using primeIface_untouched(1) [of B "a + int off" h] Cons.prems s by (simp add: untouched_refl)
  then show ?case using Cons.IH Cons.prems s untouchedD by fastforce
qed simp

definition header_at :: "headers \<Rightarrow> int \<Rightarrow> int \<Rightarrow> vtable_ptr \<Rightarrow> bool" where
  "header_at h box x vt \<longleftrightarrow> h_vtable h x = vt \<and> h_box h x = Some box"

text \<open>Every interface of base class type along a path of classes.\<close>

fun class_steps :: "slot list \<Rightarrow> bool" where
  "class_steps [] \<longleftrightarrow> True"
| "class_steps (s # p) \<longleftrightarrow> dt_class (sl_type s) \<and> class_steps p"

lemma object_path_range:
  "object_tree D \<Longrightarrow> dt_class D \<Longrightarrow> sub_path D p C \<Longrightarrow> class_steps p \<Longrightarrow>
    path_offset p + iface_size C \<le> iface_size D \<and> 16 \<le> iface_size C"
proof (induction p arbitrary: D)
  case Nil
  then show ?case by (auto simp: path_simps dt_object_ok_def elim: object_treeE)
next
  case (Cons s p)
  then have "object_tree (sl_type s)" "sl_offset s + iface_size (sl_type s) \<le> iface_size D"
    by (auto simp: dt_object_ok_def elim: object_treeE)
  then show ?case using Cons.IH [of "sl_type s"] Cons.prems by (simp add: path_simps)
qed

text \<open>What an interface header is after the base types and the fields of the object are primed: the part of
  the object whose range holds the address decides.\<close>

lemma primeIface_at_slot:
  assumes D: "object_tree (DType I ss us cs)" "ci_class I" and s: "s \<in> set ss" "dt_class (sl_type s)"
    and x: "a + int (sl_offset s) \<le> x" "x < a + int (sl_offset s) + int (iface_size (sl_type s))"
    and hd: "\<And>h. header_at (primeIface V box root (a + int (sl_offset s)) (sl_type s) (vtable_add vt (sl_vtableIndex s)) h) b x w"
  shows "header_at (primeIface V box root a (DType I ss us cs) vt h) b x w"
proof -
  let ?D = "DType I ss us cs" and ?k = "sl_offset s + iface_size (sl_type s)"
  have ok: "dt_object_ok ?D" and t: "\<And>s. s \<in> set ss \<Longrightarrow> object_tree (sl_type s)"
    and c: "\<And>c. c \<in> set cs \<Longrightarrow> object_tree (cf_type c)"
    using D by (auto elim: object_treeE)
  obtain ss1 ss2 where split: "ss = ss1 @ s # ss2" using s(1) by (meson split_list)
  have sorted: "\<forall>t\<in>set ss2. ?k \<le> sl_offset t" using ok split by (simp add: dt_object_ok_def sorted_wrt_append)
  let ?h1 = "primeBases V box root a ss1 vt (set_iface box a vt h)"
  let ?h2 = "primeIface V box root (a + int (sl_offset s)) (sl_type s) (vtable_add vt (sl_vtableIndex s)) ?h1"
  have "primeBases V box root a ss vt (set_iface box a vt h) = primeBases V box root a ss2 vt ?h2"
    using s(2) by (cases s) (simp add: split primeBases_append)
  moreover have "header_at (primeBases V box root a ss2 vt ?h2) b x w"
    using hd [of ?h1] primeBases_later [of ss2 ?k x a V box root vt ?h2] sorted t split x by (simp add: header_at_def)
  moreover have "untouched {a + int ?k ..< a + int (iface_size ?D)} g (primeFields V root a cs g)" for g
    by (rule primeIface_untouched(3)) (use ok c s in \<open>auto simp: dt_object_ok_def\<close>)
  ultimately show ?thesis using x by (simp add: header_at_def untouched_def)
qed

lemma primeIface_at_field:
  assumes D: "object_tree (DType I ss us cs)" "ci_class I" and c: "c \<in> set cs"
    and x: "a + int (cf_offset c) \<le> x" "x < a + int (cf_offset c) + int (ci_size (dt_info (cf_type c)))"
    and hd: "\<And>h. header_at (primeIface V (a + int (cf_offset c)) root (a + int (cf_offset c) + 16) (cf_type c)
      (own_vtable V (cf_type c)) h) b x w"
  shows "header_at (primeIface V box root a (DType I ss us cs) vt h) b x w"
proof -
  let ?D = "DType I ss us cs" and ?k = "cf_offset c + ci_size (dt_info (cf_type c))" and ?box = "a + int (cf_offset c)"
  have ok: "dt_object_ok ?D" and t: "\<And>c. c \<in> set cs \<Longrightarrow> object_tree (cf_type c)"
    using D by (auto elim: object_treeE)
  obtain cs1 cs2 where split: "cs = cs1 @ c # cs2" using c by (meson split_list)
  let ?h1 = "primeFields V root a cs1 (primeBases V box root a ss vt (set_iface box a vt h))"
  let ?h2 = "primeIface V ?box root (?box + 16) (cf_type c) (own_vtable V (cf_type c)) (prime_box ?box root (cf_type c) ?h1)"
  have "primeIface V box root a ?D vt h = primeFields V root a cs2 ?h2"
    by (cases c) (simp add: split primeFields_append)
  moreover have "untouched {a + int ?k ..< a + int (iface_size ?D)} ?h2 (primeFields V root a cs2 ?h2)"
    by (rule primeIface_untouched(3)) (use ok t split in \<open>auto simp: dt_object_ok_def sorted_wrt_append\<close>)
  ultimately show ?thesis using hd [of "prime_box ?box root (cf_type c) ?h1"] x
    by (simp add: header_at_def untouched_def)
qed

lemma primeIface_at_path:
  assumes "object_tree D" and "dt_class D" and "sub_path D p B" and "class_steps p"
    and "a + int (path_offset p) \<le> x" and "x < a + int (path_offset p) + int (iface_size B)"
    and "\<And>h. header_at (primeIface V box root (a + int (path_offset p)) B (vtable_add vt (path_index p)) h) b x w"
  shows "header_at (primeIface V box root a D vt h) b x w"
  using assms
proof (induction p arbitrary: D a vt h)
  case Nil
  then show ?case by (simp add: path_simps)
next
  case (Cons s p)
  obtain I ss us cs where D: "D = DType I ss us cs" by (cases D)
  have s: "s \<in> set ss" "sub_path (sl_type s) p B" "dt_class (sl_type s)" "class_steps p"
    using Cons.prems(3,4) D by auto
  have t: "object_tree (sl_type s)" using Cons.prems(1) s(1) D by (auto elim: object_treeE)
  have r: "path_offset p + iface_size B \<le> iface_size (sl_type s)" using object_path_range [OF t s(3,2,4)] by simp
  show ?case
    unfolding D
  proof (rule primeIface_at_slot [OF Cons.prems(1,2) [unfolded D, simplified] s(1,3)])
    show "a + int (sl_offset s) \<le> x" "x < a + int (sl_offset s) + int (iface_size (sl_type s))"
      using Cons.prems(5,6) r by (simp_all add: path_simps)
    show "header_at (primeIface V box root (a + int (sl_offset s)) (sl_type s) (vtable_add vt (sl_vtableIndex s)) h') b x w" for h'
      by (rule Cons.IH [OF t s(3,2,4)])
        (use Cons.prems(5,6,7) in \<open>simp_all add: path_simps add.assoc\<close>)
  qed
qed

lemma primeIface_own:
  assumes "object_tree D" and "dt_class D"
  shows "header_at (primeIface V box root a D vt h) box a vt"
  using assms
proof (induction D arbitrary: a vt h rule: object_tree.induct)
  case (1 D)
  obtain I ss us cs where D: "D = DType I ss us cs" by (cases D)
  have tree: "object_tree D" and ok: "dt_object_ok D"
    using "1.hyps" "1.prems" by (auto intro: object_tree.intros)
  show ?case
  proof (cases "\<forall>s\<in>set ss. 16 \<le> sl_offset s")
    case True
    let ?b = "primeBases V box root a ss vt (set_iface box a vt h)"
    have "header_at ?b box a vt"
      using primeBases_later [of ss 16 a a] True "1.hyps"(2) D by (simp add: header_at_def set_iface_def)
    moreover have "untouched {a + int 16 ..< a + int (iface_size D)} g (primeFields V root a cs g)" for g
      by (rule primeIface_untouched(3)) (use ok "1.hyps"(3) "1.prems"(1) D in \<open>auto simp: dt_object_ok_def\<close>)
    ultimately show ?thesis using D by (simp add: header_at_def untouched_def)
  next
    case False
    then obtain s where s: "s \<in> set ss" "sl_offset s = 0" "sl_vtableIndex s = 0" "dt_class (sl_type s)"
      using ok D by (auto simp: dt_object_ok_def)
    have "16 \<le> iface_size (sl_type s)"
      using "1.hyps"(2) [of s] s(1,4) D by (auto simp: dt_object_ok_def elim: object_treeE)
    then show ?thesis
      unfolding D
      by (intro primeIface_at_slot [OF tree [unfolded D] _ s(1,4)])
        (use "1.IH"(1) [of s] s "1.prems" D in simp_all)
  qed
qed

lemma primeIface_headers:
  assumes "object_tree D" and "dt_class D" and "sub_path D p C" and "class_steps p" and "dt_class C"
  shows "header_at (primeIface V box root a D vt h) box (a + int (path_offset p)) (vtable_add vt (path_index p))"
proof -
  have "object_tree C" by (rule object_tree_path [OF assms(1,3)])
  then show ?thesis
    using object_path_range [OF assms(1-4)] assms(5)
    by (intro primeIface_at_path [OF assms(1-4)] primeIface_own) simp_all
qed

end
