(* ===== verification/ClassCalls.thy ===== *)
theory ClassCalls
  imports ClassPrime
begin

text \<open>
  The contract of virtual calls, for the classes that the compiler builds: every interface header of a new object is
  set for its path of base types, and a call through any of them runs the entry of the table of
  the object's class, with \<^verbatim>\<open>this\<close> pointing to the subobject of the class that declares the function.
\<close>

section \<open>Objects of built classes\<close>

lemma built_class_fields:
  assumes E: "align_ok (e_align E)" and f: "decl_fields_ok d" and m: "members_ok (d_info d)"
    and L: "calcClassLayout E d = Inr D" and c: "c \<in> set (dt_classFields D)"
  shows "\<exists>g. (g, Some (cf_type c)) \<in> set (d_fields d)"
proof -
  obtain s st I1 I2 b where "calcLayoutTo E False (iface_struct d (iface_types (d_bases d))) = (None, s)"
    and "based (d_info d) (iface_hdrs (d_bases d)) (d_bases d) st"
      "dt_slots D = set_offsets (cs_slots st) (drop (length (iface_hdrs (d_bases d))) (m_baseTypeList s))"
      "length (cs_slots st) = length (drop (length (iface_hdrs (d_bases d))) (m_baseTypeList s))"
      "same_members I1 (d_info d)" "ci_vtable I1 = base_table (cs_slots st)"
      "getVtableStructType I1 = getVtableStructType (cs_info st)" "layoutVirtualMembers (dt_slots D) I1 = Inr I2"
      "b = snd (calcLayoutTo E False (class_struct d s))"
    and D: "D = DType (I2\<lparr>ci_layout_ok := True, ci_iface := s, ci_gcRoot := (ci_gcRoot I2 \<or> m_classGcRoot s),
       ci_opaqueNonCreatable := (ci_opaqueNonCreatable I2 \<or> m_classNonCreatable s),
       ci_size := m_size b, ci_alignment := m_alignment b\<rparr>) (dt_slots D) (d_unnamed d)
       (class_fields_of (m_fieldArray s) (map snd (d_fields d)))"
    using class_layout [OF E f m L] .
  have "dt_classFields D = class_fields_of (m_fieldArray s) (map snd (d_fields d))" by (subst D) simp
  then obtain C off where cc: "c = ClassField C off" "ClassField C off \<in> set (class_fields_of (m_fieldArray s) (map snd (d_fields d)))"
    using c by (cases c) simp
  from class_fields_of_member [OF cc(2)] obtain i where i: "i < length (d_fields d)" "snd (d_fields d ! i) = Some C" by auto
  then have "(fst (d_fields d ! i), Some C) \<in> set (d_fields d)" by (metis nth_mem prod.collapse)
  then show ?thesis using cc(1) by auto
qed

lemma built_tree: "built E D \<Longrightarrow> align_ok (e_align E) \<Longrightarrow> object_tree D"
proof (induction rule: built.induct)
  case (built_struct D)
  then show ?case by (intro object_tree.intros [of D]) auto
next
  case (built_class d D)
  have b: "built E D" by (rule built.built_class [of d]) (fact built_class.hyps)+
  have bases: "class_inv B" if "B \<in> set (d_bases d)" for B
    using built_inv [OF _ built_class.prems] built_class.hyps(1) that by blast
  have types: "map sl_type (dt_slots D) = d_bases d"
    using built_class_inv [of E d D] bases built_class.hyps(3-6) built_class.prems by simp
  show ?case
  proof (rule object_tree.intros)
    show "dt_object_ok D" if "dt_class D" by (rule built_object [OF b built_class.prems that])
    show "object_tree (sl_type s)" if "s \<in> set (dt_slots D)" for s
    proof -
      have "sl_type s \<in> set (d_bases d)" using that types by (metis image_eqI set_map)
      then show ?thesis using built_class.IH(1) built_class.prems by blast
    qed
    show "object_tree (cf_type c)" if c: "c \<in> set (dt_classFields D)" for c
    proof -
      obtain g where "(g, Some (cf_type c)) \<in> set (d_fields d)"
        using built_class_fields [OF built_class.prems built_class.hyps(5,3,6) c] by blast
      then show ?thesis using built_class.IH(2) built_class.prems by blast
    qed
  qed
qed

lemma class_path_steps: "tables_ok D \<Longrightarrow> sub_path D p C \<Longrightarrow> dt_class C \<Longrightarrow> class_steps p"
proof (induction p arbitrary: D)
  case (Cons s p)
  have "dt_class (sl_type s)" by (rule class_path [OF Cons.prems])
  moreover have "tables_ok (sl_type s)"
    by (rule tables_ok_sub [OF Cons.prems(1) subtypes_slot]) (use Cons.prems in simp)
  ultimately show ?case using Cons by simp
qed simp

text \<open>The facts about a built class that the properties below rest on.\<close>

lemma built_facts:
  assumes "built E D" and "align_ok (e_align E)"
  shows "tables_ok D" and "sigs_ok (subtypes D)" and "items_ok D" and "object_tree D"
    and "dt_class D \<Longrightarrow> vtable_ok D" and "dt_class D \<Longrightarrow> vtable_struct_ok D"
  using built_inv [OF assms] built_tree [OF assms] by (auto simp: class_inv_def)

text \<open>A class that is made creatable gets its variable, with its own table.\<close>

lemma ensureCreatable_table:
  assumes "ensureCreatable D s = (True, s')" and "dt_signature D \<notin> cr_creatable s"
  shows "dt_signature D \<in> cr_creatable s'"
    and "ci_vtableStruct (dt_info D) \<noteq> None \<Longrightarrow> cr_vtableVariable s' (dt_signature D) = Some (dt_vtable D)"
  using assms by (cases D; auto simp: createVtable_def split: prod.splits bool.splits if_splits)+

section \<open>Embedded objects\<close>

text \<open>The objects in an object of class \<open>D\<close>, with the offsets of their boxes: the object itself, and those in
  the fields of class type of its base classes.\<close>

inductive embedded :: "dtype \<Rightarrow> nat \<Rightarrow> dtype \<Rightarrow> bool" where
  embedded_self: "embedded D 0 D"
| embedded_field: "sub_path D p B \<Longrightarrow> dt_class B \<Longrightarrow> c \<in> set (dt_classFields B) \<Longrightarrow> embedded (cf_type c) n G \<Longrightarrow>
    embedded D (16 + path_offset p + cf_offset c + n) G"

lemma built_field:
  assumes "built E B" and "align_ok (e_align E)" and "dt_class B" and "c \<in> set (dt_classFields B)"
  shows "built E (cf_type c) \<and> dt_class (cf_type c) \<and> cf_offset c + ci_size (dt_info (cf_type c)) \<le> iface_size B"
proof -
  have "built E (cf_type c)"
    using assms(1)
  proof cases
    case (built_class d)
    then show ?thesis using built_class_fields [OF assms(2) built_class(5,3,6) assms(4)] by blast
  qed (use assms(3) in simp)
  then show ?thesis using built_object [OF assms(1-3)] assms(4) by (simp add: dt_object_ok_def)
qed

lemma embedded_built:
  assumes "embedded D n G" and "align_ok (e_align E)"
  shows "built E D \<Longrightarrow> dt_class D \<Longrightarrow> built E G \<and> dt_class G \<and> n + ci_size (dt_info G) \<le> ci_size (dt_info D)"
  using assms(1)
proof (induction rule: embedded.induct)
  case (embedded_field D p B c n G)
  note B = built_sub [OF embedded_field.prems(1) assms(2) embedded_field.hyps(1)]
  note c = built_field [OF B assms(2) embedded_field.hyps(2,3)]
  have "path_offset p + iface_size B \<le> iface_size D"
    using object_path_range [OF built_facts(4) [OF embedded_field.prems(1) assms(2)] embedded_field.prems(2)
      embedded_field.hyps(1) class_path_steps [OF built_facts(1) [OF embedded_field.prems(1) assms(2)]
      embedded_field.hyps(1,2)]] by simp
  moreover have "16 + iface_size D \<le> ci_size (dt_info D)"
    using built_object [OF embedded_field.prems(1) assms(2) embedded_field.prems(2)] by (simp add: dt_object_ok_def)
  ultimately show ?case using embedded_field.IH c by simp
qed simp

lemma embedded_headers:
  assumes "embedded D n G" and "align_ok (e_align E)" and q: "sub_path G q C" "dt_class C"
  shows "built E D \<Longrightarrow> dt_class D \<Longrightarrow>
    header_at (primeIface V b root (b + 16) D (own_vtable V D) h) (b + int n) (b + int n + 16 + int (path_offset q))
      (vtable_add (own_vtable V G) (path_index q))"
  using assms(1,3)
proof (induction arbitrary: b h rule: embedded.induct)
  case (embedded_self D)
  then show ?case
    using primeIface_headers [OF built_facts(4) [OF embedded_self.prems(1) assms(2)] embedded_self.prems(2,3)
      class_path_steps [OF built_facts(1) [OF embedded_self.prems(1) assms(2)] embedded_self.prems(3) q(2)] q(2)] by simp
next
  case (embedded_field D p B c n G)
  note D = embedded_field.prems(1,2) and p = embedded_field.hyps(1,2)
  note F = built_facts [OF D(1) assms(2)] and steps = class_path_steps [OF built_facts(1) [OF D(1) assms(2)] p]
  have B: "built E B" by (rule built_sub [OF D(1) assms(2) p(1)])
  note c = built_field [OF B assms(2) p(2) embedded_field.hyps(3)]
  note G = embedded_built [OF embedded_field.hyps(4) assms(2), of]
  obtain I ss us cs where I: "B = DType I ss us cs" by (cases B)
  let ?a = "b + 16 + int (path_offset p)"
  let ?box = "?a + int (cf_offset c)" and ?x = "?a + int (cf_offset c) + int n + 16 + int (path_offset q)"
  have "n + ci_size (dt_info G) \<le> ci_size (dt_info (cf_type c))" "built E G" "dt_class G" using G c by auto
  moreover have "16 + iface_size G \<le> ci_size (dt_info G)"
    using built_object [OF calculation(2) assms(2) calculation(3)] by (simp add: dt_object_ok_def)
  moreover have "path_offset q + iface_size C \<le> iface_size G" "16 \<le> iface_size C"
    using object_path_range [OF built_facts(4) [OF calculation(2) assms(2)] calculation(3) embedded_field.prems(3)
      class_path_steps [OF built_facts(1) [OF calculation(2) assms(2)] embedded_field.prems(3) q(2)]] by simp_all
  ultimately have r: "?box \<le> ?x" "?x < ?box + int (ci_size (dt_info (cf_type c)))" by simp_all
  have "header_at (primeIface V b root ?a B vt h') (?box + int n) ?x (vtable_add (own_vtable V G) (path_index q))" for vt h'
    unfolding I
    by (rule primeIface_at_field [where c = c])
      (use I built_facts(4) [OF B assms(2)] p(2) embedded_field.hyps(3) r c embedded_field.IH [of ?box] embedded_field.prems(3)
        in simp_all)
  then have "header_at (primeIface V b root (b + 16) D (own_vtable V D) h) (?box + int n) ?x (vtable_add (own_vtable V G) (path_index q))"
    by (intro primeIface_at_path [OF F(4) D(2) p(1) steps]) (use r c in simp_all)
  then show ?case by (simp add: add.assoc add.left_commute)
qed

text \<open>C16: priming an object sets the header of every interface in it, and in the objects in its fields: it points into
  the table of the class of the object that the interface is part of, at the index of its path, and to the box of
  that object.\<close>

theorem primeClass_headers:
  assumes "built E D" and "align_ok (e_align E)" and "dt_class D" and "embedded D n G"
    and "sub_path G p C" and "dt_class C"
  shows "header_at (primeClass V box root D h) (box + int n) (box + int n + 16 + int (path_offset p))
    (vtable_add (own_vtable V G) (path_index p))"
  unfolding primeClass_def by (rule embedded_headers [OF assms(4,2,5,6,1,3)])

section \<open>The table of virtual methods\<close>

text \<open>C15: the table of virtual methods of a class is what its functions determine: the tables of the base classes one
  after the other, with the last override of an entry in its place, then the accessors of the virtual properties and
  the virtual methods of the class in their order.\<close>

theorem vtable_overrides:
  assumes "built E D" and "align_ok (e_align E)" and "dt_class D"
  shows "dt_vtable D = override_table D (virtual_indices (dt_info D)) (ci_overrideMethodArray (dt_info D))"
  using assms(1)
proof cases
  case (built_class d)
  have "class_inv B" if "B \<in> set (d_bases d)" for B using built_inv [OF built_class(1) [OF that] assms(2)] .
  then show ?thesis using built_class_inv [of E d D] built_class(3-6) assms(2) by (simp add: table_done_def)
qed (use assms(3) in simp)

section \<open>Virtual calls\<close>

lemma virtual_method_path:
  assumes "sigs_ok (subtypes C)" and "items_ok C"
    and "findItem C n = Some it" and "f \<in> set_ns_item it" and "isVirtual f"
  obtains q O' where "sub_path C q O'" and "own_slot O' (fn_classVtableIndex f)"
    and "entry_for O' (fn_classVtableIndex f) f"
    and "virtual_index C f = path_index q + fn_classVtableIndex f"
    and "\<And>x. castClassPtr C (fn_thisArgType f) x = Some (x + int (path_offset q))"
proof -
  let ?k = "fn_classVtableIndex f"
  obtain q O' where q: "sub_path C q O'" "own_slot O' ?k" "entry_for O' ?k f"
    using assms unfolding items_ok_def method_slot_def by blast
  then have o: "fn_virtualOrigin f = Some (dt_signature O')" "fn_thisArgType f = dt_signature O'"
    by (simp_all add: entry_for_def)
  show thesis
  proof (cases "O' = C")
    case True
    then show thesis using q o by (intro that [of "[]" O']) (simp_all add: virtual_index_def castClassPtr_def path_simps)
  next
    case False
    then have ne: "dt_signature C \<noteq> dt_signature O'" using sigs_okD [OF assms(1) subtypes_self subtypesI [OF q(1)]] by auto
    have "q \<noteq> []" using False q(1) by auto
    then obtain off v where c: "findClassBase C (dt_signature O') = Some (off, v)"
      using findClassBase_complete [OF q(1)] by fastforce
    then obtain r where r: "sub_path C r O'" "off = path_offset r" "v = path_index r"
      using findClassBase_same [OF assms(1) subtypesI [OF q(1)]] by metis
    then show thesis using q o c ne
      by (intro that [of r O']) (simp_all add: virtual_index_def castClassPtr_def)
  qed
qed

lemma int32_offset: "off < 2 ^ 31 \<Longrightarrow> sint (word_of_int (- int off) :: 32 word) = - int off"
  unfolding sint_sbintrunc' by (simp add: signed_take_bit_int_eq_self)

lemma createThisValue_declared:
  assumes "sigs_ok (subtypes D)" and "sub_path D p G" and "sub_path G q O'" and "entry_for O' i g"
    and "fn_thisType g = dt_signature G" and "fn_thisArgDelta g = - int (path_offset q)" and "path_offset q < 2 ^ 31"
  shows "createThisValue g (x + int (path_offset q)) = x"
proof (cases "fn_thisArgType g = fn_thisType g")
  case True
  have "O' \<in> subtypes D" using sub_path_trans [OF assms(2,3)] by (rule subtypesI)
  then have "G = O'" using sigs_okD [OF assms(1) subtypesI [OF assms(2)]] True assms(4,5) by (simp add: entry_for_def)
  then have "q = []" using sub_path_self assms(3) by simp
  then show ?thesis using True by (simp add: createThisValue_def path_simps)
next
  case False
  then show ?thesis using int32_offset [OF assms(7)] assms(6) by (simp add: createThisValue_def)
qed

text \<open>C14: a virtual call through a pointer to any class subobject of an object, of the object itself or of one in a
  field whose class has its variable with the table, runs the function in the table of the object's class that stands for the method, and \<^verbatim>\<open>this\<close> then points to the
  subobject of the class that declares the function.\<close>

theorem virtual_call_correct:
  assumes D: "built E D" "align_ok (e_align E)" "dt_class D" and G: "embedded D n G"
    and p: "sub_path G p C" "dt_class C"
    and f: "findItem C name = Some it" "f \<in> set_ns_item it" "isVirtual f"
    and V: "V (dt_signature G) = Some (dt_vtable G)" and small: "iface_size G < 2 ^ 31"
  shows "\<exists>g r B. virtual_call V (primeClass V box root D h) C (box + int n + 16 + int (path_offset p)) f =
        Some (g, box + int n + 16 + int (path_offset r)) \<and>
      g = dt_vtable G ! (path_index p + virtual_index C f) \<and> isVirtual g \<and>
      sub_path G r B \<and> fn_thisType g = dt_signature B \<and>
      fn_shortType g = fn_shortType f \<and> fn_virtualOrigin g = fn_virtualOrigin f \<and>
      fn_classVtableIndex g = fn_classVtableIndex f"
proof -
  let ?k = "fn_classVtableIndex f" and ?a = "box + int n + 16 + int (path_offset p)"
  have G': "built E G" "dt_class G" using embedded_built [OF G D(2,1,3)] by simp_all
  note F = built_facts [OF G'(1) D(2)] and Cf = built_facts [OF built_sub [OF G'(1) D(2) p(1)] D(2)]
  obtain q O' where q: "sub_path C q O'" "own_slot O' ?k" "entry_for O' ?k f"
    and vi: "virtual_index C f = path_index q + ?k"
    and cast: "\<And>x. castClassPtr C (fn_thisArgType f) x = Some (x + int (path_offset q))"
    using virtual_method_path [OF Cf(2,3) f] by metis
  have pq: "sub_path G (p @ q) O'" by (rule sub_path_trans [OF p(1) q(1)])
  have idx: "path_index (p @ q) + ?k = path_index p + virtual_index C f" by (simp add: vi path_simps)
  have lt: "path_index p + virtual_index C f < length (dt_vtable G)"
    using path_index_less [OF F(1) pq q(2)] G'(2) by (simp add: idx vtable_count_def)
  let ?g = "dt_vtable G ! (path_index p + virtual_index C f)"
  have g: "entry_for O' ?k ?g" "declared_on G (p @ q) O' ?g"
    using F(5) [OF G'(2)] pq q(2) unfolding vtable_ok_def idx [symmetric] by blast+
  then obtain r s B where B: "p @ q = r @ s" "sub_path G r B" "sub_path B s O'" "fn_thisType ?g = dt_signature B"
    "fn_thisArgDelta ?g = - int (path_offset s)" by (auto simp: declared_on_def)
  have sum: "path_offset p + path_offset q = path_offset r + path_offset s"
    using arg_cong [OF B(1), of path_offset] by (simp add: path_simps)
  have "path_offset (p @ q) + iface_size O' \<le> iface_size G"
    using object_path_range [OF F(4) G'(2) pq class_path_steps [OF F(1) pq]] q(2) by (simp add: own_slot_def)
  then have "path_offset s < 2 ^ 31" using small sum by (simp add: path_simps)
  then have own_this: "createThisValue ?g (?a + int (path_offset q)) = box + int n + 16 + int (path_offset r)"
    using createThisValue_declared [OF F(2) B(2,3) g(1) B(4,5), of "box + int n + 16 + int (path_offset r)"]
      arg_cong [OF sum, of int] by (simp add: add.assoc)
  have "own_vtable V G = Some (dt_signature G, 0)" using V by (simp add: own_vtable_def)
  then have "h_vtable (primeClass V box root D h) ?a = Some (dt_signature G, path_index p)"
    using embedded_headers [OF G D(2) p D(1,3)] by (simp add: header_at_def vtable_add_def primeClass_def)
  then have "getVirtualMethod V (primeClass V box root D h) C ?a f = Some ?g"
    using lt V by (simp add: getVirtualMethod_def)
  then have "virtual_call V (primeClass V box root D h) C ?a f = Some (?g, box + int n + 16 + int (path_offset r))"
    using cast own_this by (simp add: virtual_call_def)
  moreover have "fn_shortType ?g = fn_shortType f" "fn_virtualOrigin ?g = fn_virtualOrigin f"
    "fn_classVtableIndex ?g = ?k" "isVirtual ?g" using g(1) q(3) by (simp_all add: entry_for_def)
  ultimately show ?thesis using B(2,4) by blast
qed

end
