(* ===== verification/ClassExample.thy ===== *)
theory ClassExample
  imports ClassCalls StructLayoutThms
begin

text \<open>
  A class with two base classes that overrides a method of the second one and has an object of it in a field, as
  the compiler lays it out, with an object of it and a virtual call.
\<close>

definition ex_method :: "string \<Rightarrow> storage_kind \<Rightarrow> string \<Rightarrow> func" where
  "ex_method sig st name = \<lparr>fn_name = name, fn_kind = FunctionKind_Normal, fn_storageKind = st, fn_shortType = ''F'',
     fn_thisArgTypeFlags = 0, fn_type_ok = True, fn_thisType = sig, fn_thisArgType = sig, fn_thisArgDelta = 0,
     fn_virtualOrigin = None, fn_classVtableIndex = 0\<rparr>"

definition ex_info :: "string \<Rightarrow> func list \<Rightarrow> nat list \<Rightarrow> nat list \<Rightarrow> class_info" where
  "ex_info sig fs ms os = \<lparr>ci_signature = sig, ci_class = True, ci_derivable = True, ci_layout_ok = False,
     ci_gcRoot = False, ci_constructor = False, ci_destructor = False, ci_hasAbstractMethods = False,
     ci_opaqueNonCreatable = False, ci_functions = fs,
     ci_items = map (\<lambda>k. (fn_name (fs ! k), ItemFunction k)) [0..<length fs], ci_virtualPropertyArray = [],
     ci_virtualMethodArray = ms, ci_overrideMethodArray = os, ci_vtable = [], ci_vtableStruct = None,
     ci_gcRootBaseTypeArray = [], ci_baseTypeConstructArray = [], ci_baseTypeDestructArray = [],
     ci_classBaseTypeArray = [], ci_gcRootFieldArray = [], ci_fieldInitializeArray = [],
     ci_iface = new_struct IfaceStruct 8 [] [], ci_size = 0, ci_alignment = 0\<rparr>"

definition ex_decl :: "class_info \<Rightarrow> dtype list \<Rightarrow> dtype list \<Rightarrow> class_decl" where
  "ex_decl I Bs Cs = \<lparr>d_info = I, d_bases = Bs, d_fields = map (\<lambda>C. (new_field (class_ty C) 0 False, Some C)) Cs,
     d_unnamed = [], d_fieldAlignment = 8\<rparr>"

lemmas class_defs = Let_def ex_decl_def ex_info_def iface_hdrs_def needs_hdr_def iface_struct_def
  layoutClassBase_def noteBaseType_def appendBaseVtable_def class_struct_def struct_ty_def layoutVirtualMembers_def
  set_offsets_def iface_ty_def class_ty_def getVtableStructType_def addVirtualFunction_def overrideVirtualFunction_def
  ex_method_def findOverridden_def matchFunction_def isVirtual_def findSlot_def noteField_def hdr_ty_def

text \<open>A class with one virtual method and no base type, and what its layout makes of it.\<close>

definition ex_leaf_decl :: "string \<Rightarrow> string \<Rightarrow> class_decl" where
  "ex_leaf_decl c n = ex_decl (ex_info c [ex_method c StorageKind_Virtual n] [0] []) [] []"

definition ex_leaf_method :: "string \<Rightarrow> string \<Rightarrow> func" where
  "ex_leaf_method c n = (ex_method c StorageKind_Virtual n)\<lparr>fn_virtualOrigin := Some c, fn_classVtableIndex := 0\<rparr>"

definition ex_leaf_iface :: struct_type where
  "ex_leaf_iface = (new_struct IfaceStruct 8 [\<lparr>b_type = hdr_ty ''jnc.IfaceHdr'', b_offset = 0, b_llvmIndex = 0\<rparr>] [])
     \<lparr>m_alignment := 8, m_size := 16, m_fieldSize := 16, m_baseTypeMap := [''jnc.IfaceHdr''],
      m_llvmFieldTypeArray := [LlvmType (hdr_ty ''jnc.IfaceHdr'')]\<rparr>"

definition ex_leaf :: "string \<Rightarrow> string \<Rightarrow> dtype" where
  "ex_leaf c n =
     DType ((ex_info c [ex_leaf_method c n] [0] [])
       \<lparr>ci_layout_ok := True, ci_vtable := [ex_leaf_method c n], ci_vtableStruct := Some 1, ci_iface := ex_leaf_iface,
        ci_size := 32, ci_alignment := 8\<rparr>) [] [] []"

lemma ex_leaf_layout: "calcClassLayout env_ok (ex_leaf_decl c n) = Inr (ex_leaf c n)"
  unfolding calcClassLayout_def ex_leaf_decl_def ex_leaf_def ex_leaf_method_def ex_leaf_iface_def
  by (simp add: class_defs example_defs layout_defs cong: let_weak_cong)

lemma ex_leaf_facts [simp]:
  "dt_class (ex_leaf c n)" "dt_signature (ex_leaf c n) = c" "dt_slots (ex_leaf c n) = []" "dt_classFields (ex_leaf c n) = []"
  "dt_vtable (ex_leaf c n) = [ex_leaf_method c n]" "iface_size (ex_leaf c n) = 16"
  "findItem (ex_leaf c n) n = Some (ItemFunction (ex_leaf_method c n))"
  by (simp_all add: ex_leaf_def ex_info_def iface_size_def ex_leaf_iface_def new_struct_def ex_leaf_method_def ex_method_def)

lemma ex_leaf_subtypes [simp]: "subtypes (ex_leaf c n) = {ex_leaf c n}"
  using subtypes_class [of "dt_info (ex_leaf c n)" "[]" "[]" "[]"] by (simp add: ex_leaf_def)

lemma pow2_8: "pow2 8"
  unfolding pow2_def by (intro exI [of _ 3]) simp

lemma ex_leaf_members: "members_ok (ex_info c [ex_method c StorageKind_Virtual n] [0] [])"
  by (simp add: members_ok_def ex_info_def ex_method_def virtual_indices_def fresh_function_def isVirtual_def)

lemma ex_leaf_built: "built env_ok (ex_leaf c n)"
proof (rule built_class [OF _ _ _ _ _ ex_leaf_layout])
  show "members_ok (d_info (ex_leaf_decl c n))" using ex_leaf_members by (simp add: ex_leaf_decl_def ex_decl_def)
  show "bases_ok (ex_leaf_decl c n)" by (simp add: ex_leaf_decl_def ex_decl_def bases_ok_def sigs_ok_def)
  show "decl_fields_ok (ex_leaf_decl c n)"
    by (simp add: ex_leaf_decl_def ex_decl_def decl_fields_ok_def struct_wf_def pow2_8 sig_inj_def costs_def iface_types_def
      iface_hdrs_def needs_hdr_def hdr_ty_def new_slot_def)
  show "class_fits (ex_leaf_decl c n) (ex_leaf c n)" by (simp add: class_fits_def ex_leaf_decl_def ex_decl_def)
qed (simp_all add: ex_leaf_decl_def ex_decl_def)

text \<open>A class with the bases \<open>A\<close> and \<open>B\<close>, and a field of class \<open>B\<close>, that overrides the method \<open>g\<close> of \<open>B\<close>.\<close>

definition ex_declD :: class_decl where
  "ex_declD = ex_decl (ex_info ''D'' [ex_method ''D'' StorageKind_Override ''g'', ex_method ''D'' StorageKind_Virtual ''h''] [1] [0])
     [ex_leaf ''A'' ''f'', ex_leaf ''B'' ''g''] [ex_leaf ''B'' ''g'']"

definition ex_D_g :: func where
  "ex_D_g = (ex_method ''D'' StorageKind_Override ''g'')
     \<lparr>fn_thisArgType := ''B'', fn_thisArgDelta := - 16, fn_virtualOrigin := Some ''B'', fn_classVtableIndex := 0\<rparr>"

definition ex_D_h :: func where
  "ex_D_h = (ex_method ''D'' StorageKind_Virtual ''h'')\<lparr>fn_virtualOrigin := Some ''D'', fn_classVtableIndex := 2\<rparr>"

definition ex_D_slots :: "slot list" where
  "ex_D_slots = [Slot (ex_leaf ''A'' ''f'') 0 0, Slot (ex_leaf ''B'' ''g'') 16 1]"

lemma ex_D_exists:
  "\<exists>I. calcClassLayout env_ok ex_declD = Inr (DType I ex_D_slots [] [ClassField (ex_leaf ''B'' ''g'') 32]) \<and>
     ci_class I \<and> ci_signature I = ''D'' \<and> ci_functions I = [ex_D_g, ex_D_h] \<and> ci_vtable I = [ex_leaf_method ''A'' ''f'', ex_D_g, ex_D_h] \<and>
     ci_virtualPropertyArray I = [] \<and> ci_virtualMethodArray I = [1] \<and> ci_overrideMethodArray I = [0] \<and>
     m_size (ci_iface I) = 64 \<and> ci_vtableStruct I \<noteq> None"
  unfolding ex_declD_def ex_leaf_def ex_leaf_method_def ex_leaf_iface_def calcClassLayout_def ex_D_slots_def ex_D_g_def ex_D_h_def
  by (simp add: class_defs example_defs layout_defs cong: let_weak_cong)

definition ex_D :: dtype where
  "ex_D = projr (calcClassLayout env_ok ex_declD)"

lemma ex_D_facts:
  "calcClassLayout env_ok ex_declD = Inr ex_D" "dt_class ex_D" "dt_signature ex_D = ''D''" "dt_slots ex_D = ex_D_slots"
  "dt_classFields ex_D = [ClassField (ex_leaf ''B'' ''g'') 32]"
  "ci_functions (dt_info ex_D) = [ex_D_g, ex_D_h]" "dt_vtable ex_D = [ex_leaf_method ''A'' ''f'', ex_D_g, ex_D_h]"
  "virtual_indices (dt_info ex_D) = [1]" "ci_overrideMethodArray (dt_info ex_D) = [0]" "iface_size ex_D = 64"
  using ex_D_exists by (auto simp: ex_D_def virtual_indices_def iface_size_def)

lemma ex_D_members: "members_ok (d_info ex_declD)"
  by (simp add: ex_declD_def ex_decl_def members_ok_def ex_info_def ex_method_def virtual_indices_def fresh_function_def
    isVirtual_def less_Suc_eq)

lemma ex_D_built: "built env_ok ex_D"
proof (rule built_class [OF _ _ ex_D_members _ _ ex_D_facts(1)])
  show "built env_ok B" if "B \<in> set (d_bases ex_declD)" for B
    using that ex_leaf_built by (auto simp: ex_declD_def ex_decl_def)
  show "built env_ok C" if "(f, Some C) \<in> set (d_fields ex_declD)" for f C
    using that ex_leaf_built by (auto simp: ex_declD_def ex_decl_def)
  show "bases_ok ex_declD" by (simp add: ex_declD_def ex_decl_def ex_info_def bases_ok_def sigs_ok_def)
  show "decl_fields_ok ex_declD"
    by (simp add: ex_declD_def ex_decl_def decl_fields_ok_def struct_wf_def pow2_8 sig_inj_def costs_def iface_types_def
      iface_hdrs_def needs_hdr_def hdr_ty_def new_slot_def iface_ty_def struct_ty_def class_ty_def new_field_def field_wf_def
      ex_leaf_def ex_leaf_iface_def ex_info_def new_struct_def)
  show "class_fits ex_declD ex_D" by (simp add: class_fits_def ex_declD_def ex_decl_def ex_D_facts)
qed

lemma ex_D_path: "sub_path ex_D [Slot (ex_leaf ''B'' ''g'') 16 1] (ex_leaf ''B'' ''g'')"
  by (simp add: ex_D_facts ex_D_slots_def)

lemma ex_D_embedded: "embedded ex_D 48 (ex_leaf ''B'' ''g'')"
  using embedded_field [of ex_D "[]" ex_D "ClassField (ex_leaf ''B'' ''g'') 32" 0 "ex_leaf ''B'' ''g''"] embedded_self
  by (simp add: ex_D_facts path_simps)

text \<open>The variables after \<open>D\<close> has been made creatable, in a program that has created no class yet.\<close>

definition ex_creation :: creation where
  "ex_creation = snd (ensureCreatable ex_D \<lparr>cr_creatable = {}, cr_vtableVariable = Map.empty\<rparr>)"

definition ex_vtables :: vtables where
  "ex_vtables = cr_vtableVariable ex_creation"

definition ex_headers :: headers where
  "ex_headers = \<lparr>h_vtable = (\<lambda>a. None), h_box = (\<lambda>a. None), b_boxType = (\<lambda>a. None), b_flags = (\<lambda>a. 0), b_rootOffset = (\<lambda>a. 0)\<rparr>"

lemma ex_leaf_create:
  "ensureCreatable (ex_leaf c n) s =
     (True, if c \<in> cr_creatable s then s
            else s\<lparr>cr_vtableVariable := (cr_vtableVariable s)(c \<mapsto> [ex_leaf_method c n]), cr_creatable := insert c (cr_creatable s)\<rparr>)"
  by (simp add: ex_leaf_def ex_info_def createVtable_def ex_leaf_method_def ex_method_def)

lemma ex_vtables_facts: "ex_vtables ''D'' = Some (dt_vtable ex_D)" "ex_vtables ''B'' = Some [ex_leaf_method ''B'' ''g'']"
proof -
  obtain I where D: "ex_D = DType I ex_D_slots [] [ClassField (ex_leaf ''B'' ''g'') 32]"
    and I: "ci_signature I = ''D''" "ci_vtable I = [ex_leaf_method ''A'' ''f'', ex_D_g, ex_D_h]" "ci_vtableStruct I \<noteq> None"
    using ex_D_exists by (auto simp: ex_D_def)
  have n: "\<forall>f\<in>set (ci_vtable I). fn_storageKind f \<noteq> StorageKind_Abstract"
    by (simp add: I(2) ex_leaf_method_def ex_D_g_def ex_D_h_def ex_method_def)
  have b: "ensureBasesCreatable ex_D_slots s = (True, s)" for s by (simp add: ex_D_slots_def ex_leaf_def)
  show "ex_vtables ''D'' = Some (dt_vtable ex_D)" "ex_vtables ''B'' = Some [ex_leaf_method ''B'' ''g'']"
    using I n by (auto simp: ex_vtables_def ex_creation_def D b ex_leaf_create createVtable_def)
qed

text \<open>The header of the interface \<open>B\<close> of an object of class \<open>D\<close>, and that of the object in its field.\<close>

theorem primeClass_headers_witness:
  "header_at (primeClass ex_vtables 4096 4096 ex_D ex_headers) 4096 4128 (Some (''D'', 1)) \<and>
   header_at (primeClass ex_vtables 4096 4096 ex_D ex_headers) 4144 4160 (Some (''B'', 0))"
proof -
  note D = ex_D_built env_ok_align ex_D_facts(2)
  have vt: "own_vtable ex_vtables ex_D = Some (''D'', 0)" "own_vtable ex_vtables (ex_leaf ''B'' ''g'') = Some (''B'', 0)"
    by (simp_all add: own_vtable_def ex_vtables_facts ex_D_facts(3))
  show ?thesis
    using primeClass_headers [OF D embedded_self ex_D_path, of ex_vtables 4096 4096 ex_headers]
      primeClass_headers [OF D ex_D_embedded, of "[]" "ex_leaf ''B'' ''g''" ex_vtables 4096 4096 ex_headers]
    by (simp add: vt vtable_add_def path_simps)
qed

theorem vtable_overrides_witness:
  "override_table ex_D [1] [0] = [ex_leaf_method ''A'' ''f'', ex_D_g, ex_D_h]"
  using vtable_overrides [OF ex_D_built env_ok_align ex_D_facts(2)] by (simp add: ex_D_facts)

text \<open>A call of \<open>g\<close> through a pointer to the interface \<open>B\<close> runs the override, with \<^verbatim>\<open>this\<close> at the interface \<open>D\<close>.\<close>

theorem virtual_call_correct_witness:
  "virtual_call ex_vtables (primeClass ex_vtables 4096 4096 ex_D ex_headers) (ex_leaf ''B'' ''g'') 4128 (ex_leaf_method ''B'' ''g'') =
     Some (ex_D_g, 4112)"
proof -
  note D = ex_D_built env_ok_align ex_D_facts(2)
  have f: "findItem (ex_leaf ''B'' ''g'') ''g'' = Some (ItemFunction (ex_leaf_method ''B'' ''g''))"
    "isVirtual (ex_leaf_method ''B'' ''g'')" by (simp_all add: ex_leaf_method_def ex_method_def isVirtual_def)
  have i: "virtual_index (ex_leaf ''B'' ''g'') (ex_leaf_method ''B'' ''g'') = 0"
    by (simp add: virtual_index_def ex_leaf_method_def)
  obtain r B where c: "virtual_call ex_vtables (primeClass ex_vtables 4096 4096 ex_D ex_headers) (ex_leaf ''B'' ''g'') 4128
      (ex_leaf_method ''B'' ''g'') = Some (ex_D_g, 4112 + int (path_offset r))"
    and r: "sub_path ex_D r B" "fn_thisType ex_D_g = dt_signature B"
    using virtual_call_correct [OF D embedded_self ex_D_path _ f(1) _ f(2), of ex_vtables 4096 4096 ex_headers]
    by (auto simp: ex_vtables_facts ex_D_facts path_simps i)
  have "dt_signature B = ''D''" using r(2) by (simp add: ex_D_g_def ex_method_def)
  then have "r = []"
    using r(1) by (cases r) (auto simp: ex_D_facts ex_D_slots_def dest!: subtypesI)
  then show ?thesis using c by (simp add: path_simps)
qed

end
