(* ===== verification/Spec2Isabelle.thy ===== *)
theory Spec2Isabelle
  imports StructLayoutThms UnionArrayLayout EnumConsts TypeSignature IntKinds PtrExample WebSocketState GcHandshakeLive GcCollectExample ClassExample
begin

text \<open>
  A verification development for Jancy, a C-like scripting language with a garbage collector that is
  embedded in C++ programs. Paths below are relative to the sources of the implementation:
  \<^verbatim>\<open>jnc_ct\<close> is the compiler, \<^verbatim>\<open>jnc_rt\<close> the runtime, \<^verbatim>\<open>jnc_ext\<close> the libraries of scripts.

  \<^bold>\<open>The program.\<close> The compiler parses a module, lays out its types and gives LLVM the code of its
  functions. Types come from the type manager, which interns them by \<^emph>\<open>signature\<close>; struct, union and array
  types are given a \<^emph>\<open>layout\<close>, which the code generator and the collector rely on; the \<^emph>\<open>operator manager\<close>
  computes the type and the code of every expression, or its value when it is constant, and guards every
  access through a data pointer with a \<^emph>\<open>validator\<close>, the range of the object the pointer came from. At run time
  mutator threads allocate from a \<^emph>\<open>collected heap\<close>, which stops them at safe points, marks from their
  roots by the layout of the types, sweeps, and queues unreachable objects for destruction in an order that
  respects their references. The libraries of scripts include a WebSocket endpoint, whose parser, builder and
  state machine are independent of the rest.

  \<^bold>\<open>Theories and sources.\<close>

  \<^item> \<^verbatim>\<open>Prelude\<close>: machine widths, the laws of the alignment helper and the bit scans of the axl library,
    invariants of a step relation and parsers fed in chunks as locales, decimal numbers.

  \<^item> \<^verbatim>\<open>StructLayout\<close>, \<^verbatim>\<open>StructLayoutInv\<close>, \<^verbatim>\<open>StructLayoutThms\<close> (\<^verbatim>\<open>jnc_ct_TypeMgr/jnc_ct_StructType.cpp\<close>): a
    \<open>struct_type\<close> has the members of the class that layout reads and writes; \<open>calcLayoutTo\<close> calls
    \<open>layoutBaseType\<close>, \<open>layoutField\<close>, \<open>layoutBitField\<close> and \<open>scanField\<close> in the order of the code. The invariant says that what
    has been placed is disjoint, aligned and inside the size, and that the elements of the LLVM struct have
    the same offsets; layout in steps (\<^verbatim>\<open>Unit\<close>s that extend a type) gives what one pass gives.

  \<^item> \<^verbatim>\<open>UnionArrayLayout\<close> (\<^verbatim>\<open>jnc_ct_UnionType.cpp\<close>, \<^verbatim>\<open>jnc_ct_ArrayType.cpp\<close>): a union delegates to the struct it
    holds; array sizes are products modulo \<open>2 ^ 64\<close>.

  \<^item> \<^verbatim>\<open>EnumConsts\<close> (\<^verbatim>\<open>jnc_ct_EnumType.cpp\<close>): values of enumeration constants, successive powers of two of
    bit flag enumerations, names of values.

  \<^item> \<^verbatim>\<open>TypeSignature\<close> (\<^verbatim>\<open>createSignature\<close> of the types, \<^verbatim>\<open>TypeMgr::get...Type\<close>): the datatype \<open>jty\<close> of types,
    the string each \<open>..._createSignature\<close> writes, and the type manager, with the list of its types and the map
    from signatures to them; a type object is its place in the list. Decoding facts are collected per type
    constructor and give injectivity on well-formed types (array counts below \<open>2 ^ 31\<close>, which are printed with
    \<^verbatim>\<open>%d\<close>, no asynchronous error code; argument flags and asynchronous return types are not in \<open>jty\<close>), which
    makes equal requests return one object and different ones different objects.

  \<^item> \<^verbatim>\<open>ClassTypes\<close>, \<^verbatim>\<open>ClassPaths\<close>, \<^verbatim>\<open>ClassLayoutInv\<close>, \<^verbatim>\<open>ClassVirtual\<close>, \<^verbatim>\<open>ClassOffsets\<close>, \<^verbatim>\<open>ClassPrime\<close>,
    \<^verbatim>\<open>ClassCalls\<close>, \<^verbatim>\<open>ClassExample\<close> (\<^verbatim>\<open>jnc_ct_ClassType.cpp\<close>, the search through base types in
    \<^verbatim>\<open>jnc_ct_DerivableType.cpp\<close>, \<^verbatim>\<open>primeClass\<close> in \<^verbatim>\<open>jnc_Runtime.cpp\<close>, \<^verbatim>\<open>getVirtualMethod\<close> and \<^verbatim>\<open>createThisValue\<close>): the
    layout of classes with several base types on top of \<^verbatim>\<open>StructLayout\<close>, the table of virtual methods and the
    overrides in it, the interface headers of a new object, and virtual calls. Subobjects are paths
    of base type slots; the invariant of the layout (\<open>class_inv\<close>) says for every path which entries of the table
    belong to it. The compiler side (tables, adjustments of \<^verbatim>\<open>this\<close>) and the run-time side (headers) meet in
    \<open>virtual_call_correct\<close>.

  \<^item> \<^verbatim>\<open>IntKinds\<close>, \<^verbatim>\<open>ConstFold\<close>, \<^verbatim>\<open>ConstFoldThms\<close>, \<^verbatim>\<open>ConstFoldExpr\<close> (\<^verbatim>\<open>jnc_ct_Type.cpp\<close>,
    \<^verbatim>\<open>jnc_ct_BinOp_*\<close>, \<^verbatim>\<open>jnc_ct_UnOp_*\<close>, \<^verbatim>\<open>jnc_ct_CastOp_Int\<close>, \<^verbatim>\<open>jnc_ct_CastOp_Bool\<close>): every operator on
    integers and booleans twice, as the compiler computes it on constants and as the instructions it emits,
    with conversions and promotion; expressions combine them and are shown to agree.

  \<^item> \<^verbatim>\<open>BitFields\<close> (\<^verbatim>\<open>extractBitField\<close>, \<^verbatim>\<open>mergeBitField\<close> in \<^verbatim>\<open>jnc_ct_OperatorMgr_DataRef.cpp\<close>): written with those
    operators, as in the code.

  \<^item> \<^verbatim>\<open>PtrTypes\<close>, \<^verbatim>\<open>PtrOps\<close>, \<^verbatim>\<open>PtrThms\<close>, \<^verbatim>\<open>PtrMemory\<close>, \<^verbatim>\<open>PtrExample\<close>
    (\<^verbatim>\<open>jnc_ct_CastOp_DataPtr.cpp\<close>, \<^verbatim>\<open>jnc_ct_OperatorMgr_Field.cpp\<close>, \<^verbatim>\<open>_CheckPtr.cpp\<close>, \<^verbatim>\<open>_DataRef.cpp\<close>,
    \<^verbatim>\<open>jnc_ct_BinOp_Idx.cpp\<close>, \<^verbatim>\<open>jnc_ct_UnOp_Ptr.cpp\<close>, \<^verbatim>\<open>jnc_ct_LeanDataPtrValidator\<close>, \<^verbatim>\<open>jnc_rtl_CoreLib.cpp\<close>): the
    flags and casts of pointer types, validators and the operators that derive pointers, the checks, and
    loads and stores on a memory of bytes. Two invariants are carried through chains of operators by one
    locale: the range of the original object, and \<^verbatim>\<open>const\<close>.

  \<^item> \<^verbatim>\<open>GcHandshake\<close>, \<^verbatim>\<open>GcHandshakeInv\<close>, \<^verbatim>\<open>GcHandshakeThms\<close>, \<^verbatim>\<open>GcHandshakeLive\<close>
    (\<^verbatim>\<open>jnc_rt/jnc_rt_GcHeap.cpp\<close>): threads as program counters between calls of \<^verbatim>\<open>GcHeap\<close>, the lock, the
    events and the counters as a record, one \<open>gc_step\<close> per atomic section (the decrement of the handshake
    count and the signal that follows it at zero are one step); safety and liveness of stopping the world.

  \<^item> \<^verbatim>\<open>GcMark\<close>, \<^verbatim>\<open>GcMarkInv\<close>, \<^verbatim>\<open>GcMarkOps\<close>, \<^verbatim>\<open>GcMarkTerm\<close>, \<^verbatim>\<open>GcMarkThms\<close>, \<^verbatim>\<open>GcMarkExample\<close>
    (\<^verbatim>\<open>GcHeap::mark...\<close>, \<^verbatim>\<open>runMarkCycle\<close>, and \<^verbatim>\<open>markGcRoots\<close> of the types): marking against a
    specification of liveness as a least fixed point over references; one relation (\<open>sim\<close>) carries
    the invariant through every operation.

  \<^item> \<^verbatim>\<open>DestructGraph\<close>, \<^verbatim>\<open>TarjanInv\<close>, \<^verbatim>\<open>TarjanRun\<close>, \<^verbatim>\<open>DestructGraphThms\<close>, \<^verbatim>\<open>DestructBuild\<close>,
    \<^verbatim>\<open>DestructBuildInv\<close>, \<^verbatim>\<open>DestructBuildThms\<close>, \<^verbatim>\<open>DestructRefs\<close>, \<^verbatim>\<open>DestructRefsThms\<close>, \<^verbatim>\<open>DestructExample\<close>
    (\<^verbatim>\<open>jnc_rt/jnc_rt_DestructGraph.cpp\<close> and the marking operations that fill the graph): Tarjan's
    algorithm with its explicit stack, first against an abstract invariant, then on the model; the graph
    that marking builds; and the composition: objects are queued before the objects they refer to.

  \<^item> \<^verbatim>\<open>GcCollect\<close>, \<^verbatim>\<open>GcCollectExample\<close> (\<^verbatim>\<open>GcHeap::collect_l\<close>): a collection from the stopped world on, with the
    destruction graph: what it keeps, frees and queues, on a heap without stale marks; and the stale mark
    it may leave itself.

  \<^item> \<^verbatim>\<open>WebSocketFrame\<close>, \<^verbatim>\<open>WebSocketRoundtrip\<close>, \<^verbatim>\<open>WebSocketHandshake\<close>, \<^verbatim>\<open>WebSocketHandshakeThms\<close>,
    \<^verbatim>\<open>WebSocketHandshakeRoundtrip\<close>, \<^verbatim>\<open>WebSocketState\<close> (\<^verbatim>\<open>jnc_ext/jnc_io_websocket\<close>): frames, the opening
    handshake and the state machine that reassembles messages. Parsers are instances of the locale of
    parsers fed in chunks, so that no property depends on how the input is cut.

  \<^bold>\<open>Numbers, bounds and fuel.\<close> The target is 64-bit. Sizes of layout are natural numbers with \<^verbatim>\<open>size_t\<close>
  wrap-around written as \<open>szt\<close>; addresses, flags and values of operators are words, and constants are lists of
  bytes in little-endian order. Loops over a word of flags take at most 32 rounds. The search through base
  types takes the rank of the struct as fuel, which acyclic inheritance makes enough; parsers, Tarjan's
  algorithm and the mark cycle are functions whose totality is proved (\<open>parse_loop\<close> and \<open>frames_loop\<close> by a
  measure, \<open>tarjan_dfs\<close> and \<open>runMarkCycle\<close> as \<open>while_option\<close> loops shown to return a value, on finite graphs and
  finite address spaces).

  \<^bold>\<open>Parameters.\<close> What is not in the repository is an argument. \<^verbatim>\<open>axl\<close> is a submodule: rounding up to an alignment, bit
  scans, the search for a substring, checksums, base64 and the byte swap come with their documented laws.
  LLVM is a record of functions on registers (\<open>llvm\<close>) with the laws of its language reference
  (\<open>llvm_ok\<close>, met by \<open>llvm_ref\<close>): results of undefined operations are arbitrary. Every such law has an instance in
  a witness.

  \<^bold>\<open>Interfaces.\<close> Each locale is interpreted on the model in the theory that provides its operations:
  \<open>step_invariant\<close> on the handshake (\<open>gc\<close>), \<open>chunk_parser\<close> on the frame and the handshake parser (\<open>ws\<close>, \<open>hs\<close>),
  \<open>key_map\<close> on the map from signatures to types (\<open>type_map\<close>), and \<open>op_chain\<close>, chains of pointer operators, on the
  invariant of the range and on that of \<^verbatim>\<open>const\<close> (\<open>range_chain\<close>, \<open>const_chain\<close>).

  \<^bold>\<open>Not modelled.\<close> The lexer and the parser are generated from grammars by tools outside the repository, and
  their actions, the namespaces and the templates work on parsed source text. Control flow, functions,
  closures and properties are emitted as LLVM code, whose meaning is outside too; of the operators those on
  integers, booleans, bit fields and data pointers are modelled, and of calls the choice of a virtual method. A store
  (\<open>storeDataRef\<close>) gets its value in the type of the location: the cast of the source operand and the
  store of a constant are not modelled. Floating-point numbers, strings, variants,
  and function and property pointers are left out of constants and casts, of class pointers the cast to a base class
  is modelled. Of the runtime, the guard pages and
  signals that stop threads on some systems, exceptions, thread-local storage and the callbacks into compiled code are
  left out, of the libraries everything but the protocol part of WebSockets. The editor, the
  command line and the tables for dynamic libraries hold no logic of this kind.
\<close>

end
